(* ===== verification/Prelude.thy ===== *)
theory Prelude
  imports Main "HOL-Library.AList" "HOL-Library.Sublist" "HOL-Library.Word" "HOL-Library.Char_ord"
    "HOL-Library.List_Lexorder"
begin

text \<open>
  Shared vocabulary of the development.

  A Go \<open>string\<close> or \<open>[]byte\<close> is a HOL \<open>string\<close>: a list of \<open>char\<close>, one per byte, so
  \<open>length\<close> counts bytes as Go's \<open>len\<close> does. A Go \<open>map\<close> is an association list without
  repeated keys: \<open>map_of\<close> looks a key up, \<open>AList.update\<close> stores, and the order of the list
  is one of the iteration orders that the Go runtime may choose, so a statement for every
  such list covers every iteration order. A Go \<open>int\<close> is an \<open>int\<close> with the 64-bit
  wrap-around written out (\<open>wrap64\<close>), a \<open>uint64\<close> is a \<open>64 word\<close>.
\<close>

named_theorems go_simps \<open>characteristic equations of the Go library functions\<close>

type_synonym gostr = string
type_synonym ('k, 'v) gomap = "('k \<times> 'v) list"
type_synonym uint64 = "64 word"

abbreviation gomap_wf :: "('k, 'v) gomap \<Rightarrow> bool" where
  "gomap_wf m \<equiv> distinct (map fst m)"

text \<open>Reading a missing key yields the zero value of the element type.\<close>

definition lookup_zero :: "'v \<Rightarrow> ('k, 'v) gomap \<Rightarrow> 'k \<Rightarrow> 'v" where
  "lookup_zero z m k = (case map_of m k of None \<Rightarrow> z | Some v \<Rightarrow> v)"

lemma lookup_zero_simps [simp]:
  "map_of m k = Some v \<Longrightarrow> lookup_zero z m k = v"
  "map_of m k = None \<Longrightarrow> lookup_zero z m k = z"
  by (simp_all add: lookup_zero_def)

lemma lookup_zero_update:
  "lookup_zero z (AList.update k v m) k' = (if k' = k then v else lookup_zero z m k')"
  by (simp add: lookup_zero_def update_conv')

lemma map_of_update [simp]:
  "map_of (AList.update k v m) k' = (if k' = k then Some v else map_of m k')"
  by (simp add: update_conv')

lemma gomap_wf_update [simp]: "gomap_wf m \<Longrightarrow> gomap_wf (AList.update k v m)"
  by (rule distinct_update)

lemma set_keys_update [simp]: "fst ` set (AList.update k v m) = insert k (fst ` set m)"
  using dom_update[of k v m] by (simp add: dom_map_of_conv_image_fst[symmetric] update_conv')

lemma gomap_wf_delete [simp]: "gomap_wf m \<Longrightarrow> gomap_wf (AList.delete k m)"
  by (rule distinct_delete)

text \<open>Two association lists that list the same entries look up the same.\<close>

lemma map_of_perm_eq:
  "gomap_wf m \<Longrightarrow> gomap_wf m' \<Longrightarrow> set m = set m' \<Longrightarrow> map_of m = map_of m'"
  by (rule map_of_inject_set[THEN iffD2])

subsection \<open>64-bit integers\<close>

definition wrap64 :: "int \<Rightarrow> int" where
  "wrap64 i = (i + 2 ^ 63) mod 2 ^ 64 - 2 ^ 63"

lemma wrap64_range: "- (2 ^ 63) \<le> wrap64 i \<and> wrap64 i < 2 ^ 63"
proof -
  have "0 \<le> (i + 2 ^ 63) mod 2 ^ 64" "(i + 2 ^ 63) mod 2 ^ 64 < (2 ^ 64 :: int)"
    by simp_all
  then show ?thesis by (simp add: wrap64_def)
qed

lemma wrap64_id: "- (2 ^ 63) \<le> i \<Longrightarrow> i < 2 ^ 63 \<Longrightarrow> wrap64 i = i"
  by (simp add: wrap64_def)

lemma wrap64_add: "wrap64 (wrap64 i + j) = wrap64 (i + j)"
  by (simp add: wrap64_def algebra_simps mod_simps)

lemma wrap64_mod: "wrap64 i = wrap64 j \<longleftrightarrow> i mod 2 ^ 64 = j mod 2 ^ 64"
proof -
  have "(i + 2 ^ 63) mod 2 ^ 64 = (j + 2 ^ 63) mod 2 ^ 64 \<longleftrightarrow> i mod 2 ^ 64 = j mod (2 ^ 64 :: int)"
    by (simp add: mod_eq_dvd_iff)
  then show ?thesis by (simp add: wrap64_def)
qed

subsection \<open>Errors\<close>

text \<open>A Go pair of a result and an error is a sum: \<open>Inl\<close> carries the error.\<close>

definition and_then :: "'e + 'a \<Rightarrow> ('a \<Rightarrow> 'e + 'b) \<Rightarrow> 'e + 'b" where
  "and_then r f = (case r of Inl e \<Rightarrow> Inl e | Inr x \<Rightarrow> f x)"

lemma and_then_simps [simp]: "and_then (Inl e) f = Inl e" "and_then (Inr x) f = f x"
  by (simp_all add: and_then_def)

lemma and_then_Inr: "and_then r f = Inr y \<longleftrightarrow> (\<exists>x. r = Inr x \<and> f x = Inr y)"
  by (cases r) auto

lemma and_then_cong [fundef_cong]:
  "r = r' \<Longrightarrow> (\<And>x. r' = Inr x \<Longrightarrow> f x = f' x) \<Longrightarrow> and_then r f = and_then r' f'"
  by (cases r') auto

definition map_error :: "('e \<Rightarrow> 'f) \<Rightarrow> 'e + 'a \<Rightarrow> 'f + 'a" where
  "map_error f r = (case r of Inl e \<Rightarrow> Inl (f e) | Inr x \<Rightarrow> Inr x)"

lemma map_error_simps [simp]:
  "map_error f (Inl e) = Inl (f e)" "map_error f (Inr x) = Inr x"
  "map_error f r = Inr x \<longleftrightarrow> r = Inr x"
  by (auto simp: map_error_def split: sum.splits)

text \<open>A loop that stops at the first error and collects the results.\<close>

fun map_err_list :: "('a \<Rightarrow> 'e + 'b) \<Rightarrow> 'a list \<Rightarrow> 'e + 'b list" where
  "map_err_list f [] = Inr []"
| "map_err_list f (x # xs) = and_then (f x) (\<lambda>y. and_then (map_err_list f xs) (\<lambda>ys. Inr (y # ys)))"

lemma map_err_list_Inr: "map_err_list f xs = Inr ys \<longleftrightarrow> list_all2 (\<lambda>x y. f x = Inr y) xs ys"
  by (induction xs arbitrary: ys) (auto simp: and_then_Inr list_all2_Cons1)

subsection \<open>Lists\<close>

lemma takeWhile_dropWhile_unique:
  "\<forall>x\<in>set xs. P x \<Longrightarrow> takeWhile P (xs @ ys) = xs @ takeWhile P ys"
  by simp

lemma map_filter_eq_filter_map: "filter P (map f xs) = map f (filter (P \<circ> f) xs)"
  by (simp add: filter_map)

lemma foldl_invariant:
  assumes "I s" and "\<And>s x. x \<in> set xs \<Longrightarrow> I s \<Longrightarrow> I (f s x)"
  shows "I (foldl f s xs)"
  using assms by (induction xs arbitrary: s) auto

end
