(* ===== verification/GoStrings.thy ===== *)
theory GoStrings
  imports Prelude
begin

text \<open>
  The functions of Go's \<open>strings\<close> and \<open>bytes\<close> packages that the program calls, on byte
  strings. \<open>HasPrefix\<close>, \<open>HasSuffix\<close> and \<open>Contains\<close> are \<open>prefix\<close>, \<open>suffix\<close> and
  \<open>sublist\<close> with the arguments in Go's order. White space and the two letters outside
  ASCII whose lower case lies inside ASCII are recognised by their UTF-8 bytes; the case
  of the other letters outside ASCII is left unchanged.
\<close>

subsection \<open>Prefixes, suffixes and infixes\<close>

definition has_prefix :: "gostr \<Rightarrow> gostr \<Rightarrow> bool" where
  "has_prefix s p = prefix p s"

definition has_suffix :: "gostr \<Rightarrow> gostr \<Rightarrow> bool" where
  "has_suffix s p = suffix p s"

definition contains :: "gostr \<Rightarrow> gostr \<Rightarrow> bool" where
  "contains s p = sublist p s"

definition trim_prefix :: "gostr \<Rightarrow> gostr \<Rightarrow> gostr" where
  "trim_prefix s p = (if has_prefix s p then drop (length p) s else s)"

definition trim_suffix :: "gostr \<Rightarrow> gostr \<Rightarrow> gostr" where
  "trim_suffix s p = (if has_suffix s p then take (length s - length p) s else s)"

lemma has_prefix_Nil [simp]: "has_prefix s []"
  and has_prefix_append [simp]: "has_prefix (p @ s) p"
  and has_prefix_Cons [simp]: "has_prefix (c # s) (d # p) \<longleftrightarrow> c = d \<and> has_prefix s p"
  and has_prefix_Nil_Cons [simp]: "\<not> has_prefix [] (d # p)"
  by (auto simp: has_prefix_def)

lemma trim_prefix_append [simp]: "trim_prefix (p @ s) p = s"
  by (simp add: trim_prefix_def)

lemma has_suffix_append [simp]: "has_suffix (s @ p) p"
  by (auto simp: has_suffix_def suffix_def)

lemma has_suffix_single: "has_suffix s [c] \<longleftrightarrow> s \<noteq> [] \<and> last s = c"
  by (cases s rule: rev_cases) (auto simp: has_suffix_def)

lemma trim_suffix_append [simp]: "trim_suffix (s @ p) p = s"
  by (simp add: trim_suffix_def)

lemma contains_single [simp]: "contains s [c] \<longleftrightarrow> c \<in> set s"
  by (auto simp: contains_def sublist_def in_set_conv_decomp)

lemma contains_Cons:
  "contains (x # s) p \<longleftrightarrow> has_prefix (x # s) p \<or> contains s p"
  by (auto simp: contains_def has_prefix_def sublist_Cons_right)

subsection \<open>Cut, Split, SplitN and Join\<close>

text \<open>\<open>cut sep s\<close> is \<open>strings.Cut\<close>: the parts around the first occurrence of \<open>sep\<close>.\<close>

fun cut :: "gostr \<Rightarrow> gostr \<Rightarrow> (gostr \<times> gostr) option" where
  "cut sep [] = (if sep = [] then Some ([], []) else None)"
| "cut sep (c # cs) =
     (if prefix sep (c # cs) then Some ([], drop (length sep) (c # cs))
      else map_option (\<lambda>(a, b). (c # a, b)) (cut sep cs))"

lemma cut_Some: "cut sep s = Some (a, b) \<Longrightarrow> s = a @ sep @ b"
  by (induction sep s arbitrary: a b rule: cut.induct) (auto simp: prefix_def split: if_splits)

lemma cut_None: "cut sep s = None \<longleftrightarrow> \<not> contains s sep"
  by (induction sep s rule: cut.induct)
    (auto simp: contains_def sublist_Cons_right split: if_splits)

lemma cut_length: "sep \<noteq> [] \<Longrightarrow> cut sep s = Some (a, b) \<Longrightarrow> length b < length s"
  by (drule cut_Some) (simp add: length_greater_0_conv[symmetric] del: length_greater_0_conv)

text \<open>
  A separator whose first byte does not come again in it cannot overlap with the text
  before it, so it is found exactly where it was put.
\<close>

definition simple_sep :: "gostr \<Rightarrow> bool" where
  "simple_sep sep = (case sep of [] \<Rightarrow> False | c # cs \<Rightarrow> c \<notin> set cs)"

lemma simple_sep_single [simp]: "simple_sep [c]"
  by (simp add: simple_sep_def)

lemma simple_sep_ne: "simple_sep sep \<Longrightarrow> sep \<noteq> []"
  by (auto simp: simple_sep_def)

lemma simple_sep_prefix:
  assumes "simple_sep sep" and "prefix sep (a @ sep @ b)" and "a \<noteq> []"
  shows "prefix sep a"
proof (rule ccontr)
  assume n: "\<not> prefix sep a"
  obtain c cs where sep: "sep = c # cs" and nin: "c \<notin> set cs"
    using assms(1) by (auto simp: simple_sep_def split: list.splits)
  from assms(2) n obtain us where us: "sep = a @ us" "prefix us (sep @ b)"
    unfolding prefix_append[of sep a "sep @ b"] by blast
  have ne: "us \<noteq> []" using n us(1) by auto
  then obtain u us' where u: "us = u # us'" by (cases us) auto
  have "hd us = c" using us(2) by (simp add: u sep)
  moreover have "hd us \<in> set cs"
    using us(1) ne assms(3) by (cases a) (auto simp: sep)
  ultimately show False using nin by simp
qed

lemma cut_append:
  assumes "simple_sep sep" and "\<not> contains a sep"
  shows "cut sep (a @ sep @ b) = Some (a, b)"
  using assms(2)
proof (induction a)
  case Nil
  obtain c cs where "sep = c # cs" using assms(1) by (auto simp: simple_sep_def split: list.splits)
  then show ?case by simp
next
  case (Cons x a)
  then have "\<not> contains a sep" and np: "\<not> prefix sep (x # a)"
    by (auto simp: contains_def sublist_Cons_right)
  have "\<not> prefix sep (x # a @ sep @ b)"
    using simple_sep_prefix[OF assms(1), of "x # a" b] np by auto
  with Cons.IH \<open>\<not> contains a sep\<close> show ?case by simp
qed

text \<open>\<open>strings.Split\<close> for the non-empty separators that the program uses.\<close>

function split :: "gostr \<Rightarrow> gostr \<Rightarrow> gostr list" where
  "split sep s = (if sep = [] then [s] else
     case cut sep s of None \<Rightarrow> [s] | Some (a, b) \<Rightarrow> a # split sep b)"
  by pat_completeness auto
termination
  by (relation "measure (\<lambda>(sep, s). length s)") (auto dest: cut_length)

declare split.simps [simp del]

fun join :: "gostr \<Rightarrow> gostr list \<Rightarrow> gostr" where
  "join sep [] = []"
| "join sep [x] = x"
| "join sep (x # y # r) = x @ sep @ join sep (y # r)"

primrec split_n :: "gostr \<Rightarrow> nat \<Rightarrow> gostr \<Rightarrow> gostr list" where
  "split_n sep 0 s = []"
| "split_n sep (Suc n) s = (if n = 0 then [s] else
     case cut sep s of None \<Rightarrow> [s] | Some (a, b) \<Rightarrow> a # split_n sep n b)"

lemma split_not_Nil [simp]: "split sep s \<noteq> []"
  by (subst split.simps) (auto split: option.splits)

lemma split_None: "\<not> contains s sep \<Longrightarrow> split sep s = [s]"
  by (subst split.simps) (simp add: cut_None[THEN iffD2])

lemma split_append:
  assumes "simple_sep sep" and "\<not> contains a sep"
  shows "split sep (a @ sep @ b) = a # split sep b"
  using cut_append[OF assms] simple_sep_ne[OF assms(1)] by (subst split.simps) simp

lemma join_Cons: "xs \<noteq> [] \<Longrightarrow> join sep (x # xs) = x @ sep @ join sep xs"
  by (cases xs) auto

lemma join_split [simp]: "join sep (split sep s) = s"
proof (induction sep s rule: split.induct)
  case (1 sep s)
  show ?case
  proof (cases "sep = [] \<or> cut sep s = None")
    case True then show ?thesis by (subst split.simps) auto
  next
    case False
    then obtain a b where ab: "cut sep s = Some (a, b)" by auto
    then have "split sep s = a # split sep b" using False by (subst split.simps) simp
    with 1[of "(a, b)" a b] ab False cut_Some[OF ab] show ?thesis by (simp add: join_Cons)
  qed
qed

lemma split_join:
  assumes "simple_sep sep" and "xs \<noteq> []" and "\<forall>x\<in>set xs. \<not> contains x sep"
  shows "split sep (join sep xs) = xs"
  using assms(2,3)
proof (induction xs rule: induct_list012)
  case (3 x y r)
  then show ?case using split_append[OF assms(1), of x "join sep (y # r)"] by simp
qed (simp_all add: split_None)

lemma split_elems: "sep \<noteq> [] \<Longrightarrow> x \<in> set (split sep s) \<Longrightarrow> length sep = 1 \<Longrightarrow> \<not> contains x sep"
proof (induction sep s rule: split.induct)
  case (1 sep s)
  show ?case
  proof (cases "cut sep s")
    case None
    with 1 show ?thesis by (subst (asm) (2) split.simps) (simp add: cut_None)
  next
    case (Some p)
    obtain a b where p: "p = (a, b)" by (cases p)
    obtain c where c: "sep = [c]" using 1(4) by (auto simp: length_Suc_conv)
    have "c \<notin> set a" using Some unfolding p c
      by (induction s arbitrary: a) (auto split: if_splits)
    moreover have "x = a \<or> x \<in> set (split sep b)"
      using 1(3) Some p 1(2) by (subst (asm) split.simps) auto
    ultimately show ?thesis using 1 Some p c by auto
  qed
qed

lemma split_n_append:
  assumes "simple_sep sep" and "\<not> contains a sep"
  shows "split_n sep (Suc (Suc n)) (a @ sep @ b) = a # split_n sep (Suc n) b"
  using cut_append[OF assms] by simp

lemma split_n_2: "split_n sep 2 s = (case cut sep s of None \<Rightarrow> [s] | Some (a, b) \<Rightarrow> [a, b])"
  by (simp add: numeral_2_eq_2 split: option.splits)

lemma split_n_2_append:
  "simple_sep sep \<Longrightarrow> \<not> contains a sep \<Longrightarrow> split_n sep 2 (a @ sep @ b) = [a, b]"
  by (simp add: split_n_2 cut_append)

lemma length_split_n: "length (split_n sep n s) \<le> n"
  by (induction n arbitrary: s) (auto split: option.splits)

subsection \<open>White space\<close>

definition ascii_space :: "char \<Rightarrow> bool" where
  "ascii_space c = (c \<in> {CHR '' '', CHR 0x09, CHR 0x0A, CHR 0x0B, CHR 0x0C, CHR 0x0D})"

definition space2 :: "char \<Rightarrow> char \<Rightarrow> bool" where
  "space2 c d = (c = CHR 0xC2 \<and> (d = CHR 0x85 \<or> d = CHR 0xA0))"

definition space3 :: "char \<Rightarrow> char \<Rightarrow> char \<Rightarrow> bool" where
  "space3 c d e =
     (c = CHR 0xE1 \<and> d = CHR 0x9A \<and> e = CHR 0x80 \<or>
      c = CHR 0xE2 \<and> d = CHR 0x80 \<and>
        e \<in> {CHR 0x80, CHR 0x81, CHR 0x82, CHR 0x83, CHR 0x84, CHR 0x85, CHR 0x86,
             CHR 0x87, CHR 0x88, CHR 0x89, CHR 0x8A, CHR 0xA8, CHR 0xA9, CHR 0xAF} \<or>
      c = CHR 0xE2 \<and> d = CHR 0x81 \<and> e = CHR 0x9F \<or>
      c = CHR 0xE3 \<and> d = CHR 0x80 \<and> e = CHR 0x80)"

text \<open>The number of bytes of the white-space rune at the start of a string, or 0.\<close>

fun space_len :: "gostr \<Rightarrow> nat" where
  "space_len (c # d # e # r) =
     (if ascii_space c then 1 else if space2 c d then 2 else if space3 c d e then 3 else 0)"
| "space_len [c, d] = (if ascii_space c then 1 else if space2 c d then 2 else 0)"
| "space_len [c] = (if ascii_space c then 1 else 0)"
| "space_len [] = 0"

text \<open>The same at the end of a string, which is given reversed.\<close>

fun space_len_rev :: "gostr \<Rightarrow> nat" where
  "space_len_rev (e # d # c # r) =
     (if ascii_space e then 1 else if space2 d e then 2 else if space3 c d e then 3 else 0)"
| "space_len_rev [e, d] = (if ascii_space e then 1 else if space2 d e then 2 else 0)"
| "space_len_rev [e] = (if ascii_space e then 1 else 0)"
| "space_len_rev [] = 0"

lemma space_len_le: "space_len s \<le> length s"
  by (cases s rule: space_len.cases) auto

lemma space_len_rev_le: "space_len_rev s \<le> length s"
  by (cases s rule: space_len_rev.cases) auto

lemma space_len_pos: "0 < space_len s \<Longrightarrow> length s - space_len s < length s"
  by (cases s) auto

lemma space_len_rev_pos: "0 < space_len_rev s \<Longrightarrow> length s - space_len_rev s < length s"
  by (cases s) auto

text \<open>\<open>strings.Fields\<close>; \<open>cur\<close> is the field read so far.\<close>

function fields_go :: "gostr \<Rightarrow> gostr \<Rightarrow> gostr list" where
  "fields_go cur [] = (if cur = [] then [] else [cur])"
| "fields_go cur (c # cs) =
     (if space_len (c # cs) = 0 then fields_go (cur @ [c]) cs
      else (if cur = [] then [] else [cur]) @ fields_go [] (drop (space_len (c # cs)) (c # cs)))"
  by pat_completeness auto
termination
  by (relation "measure (\<lambda>(cur, s). length s)") auto

definition str_fields :: "gostr \<Rightarrow> gostr list" where
  "str_fields s = fields_go [] s"

function trim_left :: "gostr \<Rightarrow> gostr" where
  "trim_left s = (if space_len s = 0 then s else trim_left (drop (space_len s) s))"
  by pat_completeness auto
termination
  by (relation "measure length") (auto simp: space_len_pos)

function trim_left_rev :: "gostr \<Rightarrow> gostr" where
  "trim_left_rev s = (if space_len_rev s = 0 then s else trim_left_rev (drop (space_len_rev s) s))"
  by pat_completeness auto
termination
  by (relation "measure length") (auto simp: space_len_rev_pos)

declare trim_left.simps [simp del] trim_left_rev.simps [simp del]

definition trim_space :: "gostr \<Rightarrow> gostr" where
  "trim_space s = rev (trim_left_rev (rev (trim_left s)))"

lemma fields_go_nonempty: "x \<in> set (fields_go cur s) \<Longrightarrow> x \<noteq> []"
  by (induction cur s rule: fields_go.induct) (auto split: if_splits)

lemma fields_nonempty: "x \<in> set (str_fields s) \<Longrightarrow> x \<noteq> []"
  by (simp add: str_fields_def fields_go_nonempty)

lemma ascii_space_len: "space_len (c # cs) = 0 \<Longrightarrow> \<not> ascii_space c"
  by (cases "c # cs" rule: space_len.cases) (auto split: if_splits)

lemma fields_go_no_space:
  "x \<in> set (fields_go cur s) \<Longrightarrow> \<forall>c\<in>set cur. \<not> ascii_space c \<Longrightarrow> \<forall>c\<in>set x. \<not> ascii_space c"
proof (induction cur s rule: fields_go.induct)
  case (2 cur c cs)
  then show ?case
    using ascii_space_len[of c cs] by (auto split: if_splits)
qed (auto split: if_splits)

lemma fields_no_space: "x \<in> set (str_fields s) \<Longrightarrow> c \<in> set x \<Longrightarrow> \<not> ascii_space c"
  using fields_go_no_space[of x "[]" s] by (auto simp: str_fields_def)

lemma trim_left_fix: "space_len (trim_left s) = 0"
  by (induction s rule: trim_left.induct) (subst trim_left.simps, simp)

lemma trim_left_suffix: "suffix (trim_left s) s"
  by (induction s rule: trim_left.induct)
    (subst trim_left.simps, auto intro: suffix_drop suffix_order.trans)

lemma set_trim_left: "set (trim_left s) \<subseteq> set s"
  using trim_left_suffix[of s] by (rule set_mono_suffix)

lemma set_trim_left_rev: "set (trim_left_rev s) \<subseteq> set s"
  by (induction s rule: trim_left_rev.induct)
    (subst trim_left_rev.simps, auto dest: set_drop_subset[THEN subsetD])

lemma set_trim_space: "set (trim_space s) \<subseteq> set s"
  using set_trim_left_rev[of "rev (trim_left s)"] set_trim_left[of s] by (auto simp: trim_space_def)

lemma trim_space_id: "space_len s = 0 \<Longrightarrow> space_len_rev (rev s) = 0 \<Longrightarrow> trim_space s = s"
  by (simp add: trim_space_def trim_left.simps trim_left_rev.simps)

lemma trim_space_Nil [simp]: "trim_space [] = []"
  by (simp add: trim_space_id)

subsection \<open>Letter case\<close>

lemma char_of_numeral [simp]:
  "char_of (numeral k :: nat) = Char (bit (numeral k :: nat) 0) (bit (numeral k :: nat) 1)
     (bit (numeral k :: nat) 2) (bit (numeral k :: nat) 3) (bit (numeral k :: nat) 4)
     (bit (numeral k :: nat) 5) (bit (numeral k :: nat) 6) (bit (numeral k :: nat) 7)"
  by (simp only: char_of_def bit_0)

lemma bit_Suc_zero_iff [simp]: "bit (Suc 0) n \<longleftrightarrow> n = 0"
  using bit_1_iff[of n, where 'a = nat] by simp

definition ascii_lower :: "char \<Rightarrow> char" where
  "ascii_lower c = (let n = of_char c :: nat in if 65 \<le> n \<and> n \<le> 90 then char_of (n + 32) else c)"

definition ascii_upper :: "char \<Rightarrow> char" where
  "ascii_upper c = (let n = of_char c :: nat in if 97 \<le> n \<and> n \<le> 122 then char_of (n - 32) else c)"

text \<open>
  \<open>strings.ToLower\<close>. The bytes C4 B0 (a capital I with a dot) become \<open>i\<close> and E2 84 AA (the
  Kelvin sign) becomes \<open>k\<close>; these are the only letters outside ASCII that can turn into a
  byte of a keyword.
\<close>

fun to_lower :: "gostr \<Rightarrow> gostr" where
  "to_lower [] = []"
| "to_lower (c # cs) =
     (if c = CHR 0xC4 then
        (case cs of d # ds \<Rightarrow> if d = CHR 0xB0 then CHR ''i'' # to_lower ds else c # to_lower cs
         | [] \<Rightarrow> [c])
      else if c = CHR 0xE2 then
        (case cs of d # e # es \<Rightarrow>
           if d = CHR 0x84 \<and> e = CHR 0xAA then CHR ''k'' # to_lower es else c # to_lower cs
         | _ \<Rightarrow> c # to_lower cs)
      else ascii_lower c # to_lower cs)"

definition to_upper :: "gostr \<Rightarrow> gostr" where
  "to_upper s = map ascii_upper s"

text \<open>\<open>strings.EqualFold\<close> against a constant that has no \<open>k\<close> and no \<open>s\<close>.\<close>

definition equal_fold :: "gostr \<Rightarrow> gostr \<Rightarrow> bool" where
  "equal_fold s t = (map ascii_lower s = map ascii_lower t)"

lemma to_upper_Nil [simp]: "to_upper s = [] \<longleftrightarrow> s = []"
  by (simp add: to_upper_def)

subsection \<open>Replacing one byte\<close>

definition replace_byte :: "char \<Rightarrow> char \<Rightarrow> gostr \<Rightarrow> gostr" where
  "replace_byte a b s = map (\<lambda>c. if c = a then b else c) s"

definition repeat_str :: "gostr \<Rightarrow> nat \<Rightarrow> gostr" where
  "repeat_str s n = concat (replicate n s)"

lemma length_replace_byte [simp]: "length (replace_byte a b s) = length s"
  by (simp add: replace_byte_def)

lemma replace_byte_absent: "a \<noteq> b \<Longrightarrow> a \<notin> set (replace_byte a b s)"
  by (auto simp: replace_byte_def)

end
