(* ===== verification/GoNumbers.thy ===== *)
theory GoNumbers
  imports GoStrings
begin

text \<open>
  Integer conversions of Go's \<open>strconv\<close>: \<open>Atoi\<close>, \<open>ParseUint(s, 10, 64)\<close>, \<open>Itoa\<close> and
  \<open>FormatUint\<close>. A conversion returns its value together with an optional error, because
  the code reads the value even where it drops the error.
\<close>

datatype num_error = ErrSyntax | ErrRange

definition digit_val :: "char \<Rightarrow> nat option" where
  "digit_val c = (let n = of_char c :: nat in if 48 \<le> n \<and> n \<le> 57 then Some (n - 48) else None)"

definition digit_char :: "nat \<Rightarrow> char" where
  "digit_char d = char_of (48 + d)"

abbreviation is_digit :: "char \<Rightarrow> bool" where
  "is_digit c \<equiv> digit_val c \<noteq> None"

text \<open>The digit loop of \<open>ParseUint\<close>: the range is checked digit by digit.\<close>

fun read_uint :: "nat \<Rightarrow> gostr \<Rightarrow> num_error + nat" where
  "read_uint n [] = Inr n"
| "read_uint n (c # cs) =
     (case digit_val c of None \<Rightarrow> Inl ErrSyntax
      | Some d \<Rightarrow> if 2 ^ 64 \<le> n * 10 + d then Inl ErrRange else read_uint (n * 10 + d) cs)"

definition parse_uint :: "gostr \<Rightarrow> uint64 \<times> num_error option" where
  "parse_uint s =
     (if s = [] then (0, Some ErrSyntax) else
      case read_uint 0 s of Inr n \<Rightarrow> (of_nat n, None)
      | Inl ErrSyntax \<Rightarrow> (0, Some ErrSyntax)
      | Inl ErrRange \<Rightarrow> (- 1, Some ErrRange))"

definition parse_int_body :: "bool \<Rightarrow> gostr \<Rightarrow> int \<times> num_error option" where
  "parse_int_body neg s =
     (if s = [] then (0, Some ErrSyntax) else
      case read_uint 0 s of
        Inl ErrSyntax \<Rightarrow> (0, Some ErrSyntax)
      | Inl ErrRange \<Rightarrow> (if neg then - (2 ^ 63) else 2 ^ 63 - 1, Some ErrRange)
      | Inr n \<Rightarrow>
          if \<not> neg \<and> 2 ^ 63 \<le> n then (2 ^ 63 - 1, Some ErrRange)
          else if neg \<and> 2 ^ 63 < n then (- (2 ^ 63), Some ErrRange)
          else (if neg then - int n else int n, None))"

definition atoi :: "gostr \<Rightarrow> int \<times> num_error option" where
  "atoi s =
     (case s of [] \<Rightarrow> (0, Some ErrSyntax)
      | c # r \<Rightarrow> if c = CHR ''-'' then parse_int_body True r
                else if c = CHR ''+'' then parse_int_body False r
                else parse_int_body False s)"

fun show_nat :: "nat \<Rightarrow> gostr" where
  "show_nat n = (if n < 10 then [digit_char n] else show_nat (n div 10) @ [digit_char (n mod 10)])"

declare show_nat.simps [simp del]

definition itoa :: "int \<Rightarrow> gostr" where
  "itoa i = (if i < 0 then CHR ''-'' # show_nat (nat (- i)) else show_nat (nat i))"

definition format_uint :: "uint64 \<Rightarrow> gostr" where
  "format_uint w = show_nat (unat w)"

subsection \<open>Digits\<close>

lemma digit_val_char [simp]: "d < 10 \<Longrightarrow> digit_val (digit_char d) = Some d"
  by (simp add: digit_val_def digit_char_def)

lemma show_nat_not_Nil [simp]: "show_nat n \<noteq> []"
  by (subst show_nat.simps) simp

lemma show_nat_digits: "c \<in> set (show_nat n) \<Longrightarrow> is_digit c"
proof (induction n rule: show_nat.induct)
  case (1 n)
  then show ?case
    by (cases "n < 10") (auto simp: show_nat.simps[of n])
qed

lemma is_digit_code: "is_digit c \<longleftrightarrow> 48 \<le> (of_char c :: nat) \<and> (of_char c :: nat) \<le> 57"
  by (simp add: digit_val_def Let_def)

lemma show_nat_no: "\<not> is_digit c \<Longrightarrow> c \<notin> set (show_nat n)"
  using show_nat_digits by blast

lemma hd_show_nat: "is_digit (hd (show_nat n))"
  by (rule show_nat_digits[of _ n]) simp

lemma read_uint_digits:
  "read_uint n s = Inr m \<Longrightarrow> c \<in> set s \<Longrightarrow> is_digit c"
  by (induction n s rule: read_uint.induct) (auto split: option.splits if_splits)

lemma read_uint_range: "read_uint n s = Inr m \<Longrightarrow> n < 2 ^ 64 \<Longrightarrow> m < 2 ^ 64"
  by (induction n s rule: read_uint.induct) (auto split: option.splits if_splits)

lemma read_uint_show_nat:
  "n < 2 ^ 64 \<Longrightarrow> read_uint 0 (show_nat n @ s) = read_uint n s"
proof (induction n arbitrary: s rule: show_nat.induct)
  case (1 n)
  show ?case
  proof (cases "n < 10")
    case True then show ?thesis by (simp add: show_nat.simps[of n])
  next
    case False
    have "n div 10 * 10 + n mod 10 = n" by simp
    with 1 False show ?thesis by (simp add: show_nat.simps[of n])
  qed
qed

subsection \<open>Round trips\<close>

lemma parse_uint_format_uint [simp]: "parse_uint (format_uint w) = (w, None)"
proof -
  have "unat w < 2 ^ 64" using unsigned_less[of w] by (simp add: unsigned_less)
  then show ?thesis
    using read_uint_show_nat[of "unat w" "[]"] by (simp add: parse_uint_def format_uint_def)
qed

lemma atoi_body_show:
  "n < 2 ^ 63 \<Longrightarrow> parse_int_body neg (show_nat n) = (if neg then - int n else int n, None)"
  using read_uint_show_nat[of n "[]"] by (simp add: parse_int_body_def)

lemma atoi_not_sign:
  "s \<noteq> [] \<Longrightarrow> is_digit (hd s) \<Longrightarrow> atoi s = parse_int_body False s"
  by (cases s) (auto simp: atoi_def digit_val_def)

lemma atoi_itoa:
  assumes "- (2 ^ 63) \<le> i" and "i < 2 ^ 63"
  shows "atoi (itoa i) = (i, None)"
proof (cases "i < 0")
  case True
  then have "nat (- i) < 2 ^ 64" using assms by simp
  then have "read_uint 0 (show_nat (nat (- i))) = Inr (nat (- i))"
    using read_uint_show_nat[of "nat (- i)" "[]"] by simp
  with True assms show ?thesis by (simp add: itoa_def atoi_def parse_int_body_def)
next
  case False
  then have "nat i < 2 ^ 63" using assms by simp
  with False show ?thesis by (simp add: itoa_def atoi_not_sign hd_show_nat atoi_body_show)
qed

lemma format_uint_digits: "c \<in> set (format_uint w) \<Longrightarrow> is_digit c"
  by (simp add: format_uint_def show_nat_digits)

lemma format_uint_not_Nil [simp]: "format_uint w \<noteq> []"
  by (simp add: format_uint_def)

lemma itoa_chars: "c \<in> set (itoa i) \<Longrightarrow> is_digit c \<or> c = CHR ''-''"
  by (auto simp: itoa_def dest: show_nat_digits split: if_splits)

lemma itoa_not_Nil [simp]: "itoa i \<noteq> []"
  by (simp add: itoa_def)

text \<open>A value returned without an error lies in the range of the type.\<close>

lemma atoi_range:
  "atoi s = (i, None) \<Longrightarrow> - (2 ^ 63) \<le> i \<and> i < 2 ^ 63"
  by (auto simp: atoi_def parse_int_body_def split: list.splits if_splits sum.splits num_error.splits)

end
