(* ===== verification/GoFloat.thy ===== *)
theory GoFloat
  imports GoNumbers "HOL-Library.Log_Nat" Complex_Main
begin

text \<open>
  Go's \<open>float64\<close>: IEEE 754 binary64 with round to nearest, ties to even. A finite value is
  the rational number it denotes; the negative zero, the infinities and NaN are
  constructors of their own. Every arithmetic result is the exact rational result rounded
  by \<open>round64\<close>, which gives subnormals and overflow to infinity as the hardware does.
\<close>

datatype float64 = NaN | PInf | NInf | NZero | Fin rat

definition round_half_even :: "rat \<Rightarrow> int" where
  "round_half_even x =
     (let f = \<lfloor>x\<rfloor>; d = x - of_int f
      in if d < 1 / 2 then f else if 1 / 2 < d then f + 1 else if even f then f else f + 1)"

text \<open>The exponent of a positive rational: \<open>\<lfloor>log2 a\<rfloor>\<close>, by bit lengths.\<close>

definition log2_floor :: "rat \<Rightarrow> int" where
  "log2_floor a =
     (if 1 \<le> a then int (floorlog 2 (nat \<lfloor>a\<rfloor>)) - 1
      else - int (floorlog 2 (nat (\<lceil>1 / a\<rceil> - 1))))"

definition round64 :: "rat \<Rightarrow> float64" where
  "round64 q =
     (if q = 0 then Fin 0 else
      let a = \<bar>q\<bar>; e = max (- 1022) (log2_floor a); u = 2 powi (e - 52);
          r = of_int (round_half_even (a / u)) * u
      in if 2 ^ 1024 \<le> r then (if q < 0 then NInf else PInf)
         else if r = 0 then (if q < 0 then NZero else Fin 0)
         else Fin (sgn q * r))"

definition is_f64 :: "float64 \<Rightarrow> bool" where
  "is_f64 f = (\<forall>q. f = Fin q \<longrightarrow>
     (\<exists>m k. q = of_int m * 2 powi k \<and> \<bar>m\<bar> < 2 ^ 53 \<and> - 1074 \<le> k \<and> k \<le> 971))"

subsection \<open>The exponent\<close>

lemma nat_floorlog_bounds:
  assumes "0 < n" shows "2 ^ (floorlog 2 n - 1) \<le> n" and "n < 2 ^ floorlog 2 n"
    and "0 < floorlog 2 n"
  using floorlog_bounds[of n 2] assms by (auto simp: floorlog_def)

lemma log2_floor_bounds:
  assumes "0 < a"
  shows "2 powi (log2_floor a) \<le> a" and "a < 2 powi (log2_floor a + 1)"
proof -
  have "2 powi (log2_floor a) \<le> a \<and> a < 2 powi (log2_floor a + 1)"
  proof (cases "1 \<le> a")
    case True
    define n where "n = nat \<lfloor>a\<rfloor>"
    have n: "0 < n" "of_nat n \<le> a" "a < of_nat n + 1"
      using True by (auto simp: n_def le_floor_iff of_nat_nat) linarith+
    define b where "b = floorlog 2 n"
    have b: "2 ^ (b - 1) \<le> n" "n + 1 \<le> 2 ^ b" "0 < b"
      using nat_floorlog_bounds[OF n(1)] by (auto simp: b_def)
    have "(2::rat) ^ (b - 1) \<le> of_nat n" using b(1) of_nat_mono[where 'a = rat] by fastforce
    moreover have "of_nat n + 1 \<le> (2::rat) ^ b" using of_nat_mono[OF b(2), where 'a = rat] by simp
    moreover have l: "log2_floor a = int (b - 1)" "log2_floor a + 1 = int b"
      using True b(3) by (auto simp: log2_floor_def n_def b_def)
    ultimately show ?thesis using n unfolding l(2) unfolding l(1) power_int_of_nat
      by (intro conjI) linarith+
  next
    case False
    define n where "n = nat (\<lceil>1 / a\<rceil> - 1)"
    have "1 < 1 / a" using False assms by (simp add: field_simps)
    then have "1 < \<lceil>1 / a\<rceil>" by (simp add: less_ceiling_iff)
    then have n: "0 < n" "of_nat n < 1 / a" "1 / a \<le> of_nat n + 1"
      by (auto simp: n_def of_nat_nat) linarith+
    define b where "b = floorlog 2 n"
    have b: "2 ^ (b - 1) \<le> n" "n + 1 \<le> 2 ^ b" "0 < b"
      using nat_floorlog_bounds[OF n(1)] by (auto simp: b_def)
    have "(2::rat) ^ (b - 1) \<le> of_nat n" using b(1) of_nat_mono[where 'a = rat] by fastforce
    then have lo: "(2::rat) ^ (b - 1) < 1 / a" using n by linarith
    have "of_nat n + 1 \<le> (2::rat) ^ b" using of_nat_mono[OF b(2), where 'a = rat] by simp
    then have hi: "1 / a \<le> (2::rat) ^ b" using n by linarith
    have l: "log2_floor a = - int b" "log2_floor a + 1 = - int (b - 1)"
      using False b(3) by (auto simp: log2_floor_def n_def b_def)
    have "1 / 2 ^ b \<le> a" using hi assms by (simp add: field_simps)
    moreover have "a < 1 / 2 ^ (b - 1)" using lo assms by (simp add: field_simps)
    ultimately show ?thesis
      by (simp add: l(2)) (simp add: l(1) power_int_minus power_int_of_nat field_simps)
  qed
  then show "2 powi (log2_floor a) \<le> a" and "a < 2 powi (log2_floor a + 1)" by auto
qed

lemma round_half_even_int [simp]: "round_half_even (of_int z) = z"
  by (simp add: round_half_even_def)

lemma round_half_even_bounds:
  "\<lfloor>x\<rfloor> \<le> round_half_even x" "round_half_even x \<le> \<lfloor>x\<rfloor> + 1"
  by (auto simp: round_half_even_def Let_def)

lemma round_half_even_mono_int: "of_int z \<le> x \<Longrightarrow> z \<le> round_half_even x"
  using round_half_even_bounds(1)[of x] by (simp add: le_floor_iff[symmetric])

lemma round_half_even_less_int: "x < of_int z \<Longrightarrow> round_half_even x \<le> z"
  using round_half_even_bounds(2)[of x] floor_less_iff[of x z] by linarith

lemma floor_numeral_divide [simp]:
  "\<lfloor>numeral a / numeral b :: rat\<rfloor> = numeral a div numeral b"
  "\<lfloor>1 / numeral b :: rat\<rfloor> = 1 div numeral b"
  "\<lfloor>- (numeral a / numeral b) :: rat\<rfloor> = - numeral a div numeral b"
  using floor_divide_of_int_eq[of "numeral a" "numeral b", where 'a = rat]
    floor_divide_of_int_eq[of 1 "numeral b", where 'a = rat]
    floor_divide_of_int_eq[of "- numeral a" "numeral b", where 'a = rat]
  by simp_all

lemma floorlog_2_numeral [simp]:
  "floorlog 2 (numeral (Num.Bit0 n)) = floorlog 2 (numeral n) + 1"
  "floorlog 2 (numeral (Num.Bit1 n)) = floorlog 2 (numeral n) + 1"
  "floorlog 2 (Suc 0) = 1" "floorlog 2 0 = 0"
  by (subst compute_floorlog, simp)+

subsection \<open>Representable values are fixed, and rounding yields them\<close>

lemma powi_2_int: "0 \<le> k \<Longrightarrow> (2::rat) powi k = of_int (2 ^ nat k)"
  by (metis int_nat_eq of_int_numeral of_int_power power_int_of_nat)

lemma powi_2_pos [simp]: "0 < (2::rat) powi k"
  by (rule zero_less_power_int) simp

lemma powi_2_mult: "2 ^ n * (2::rat) powi k = 2 powi (int n + k)"
  by (subst power_int_add) (simp_all add: power_int_of_nat)

lemma round64_representable:
  assumes q: "q = of_int m * 2 powi k" and m: "\<bar>m\<bar> < 2 ^ 53" and k: "- 1074 \<le> k" "k \<le> 971"
  shows "round64 q = Fin q"
proof (cases "q = 0")
  case True then show ?thesis by (simp add: round64_def)
next
  case False
  define a where "a = \<bar>q\<bar>"
  define e where "e = max (- 1022) (log2_floor a)"
  define u :: rat where "u = 2 powi (e - 52)"
  have a: "0 < a" "a = of_int \<bar>m\<bar> * 2 powi k" using False by (auto simp: a_def q abs_mult)
  have mq: "of_int \<bar>m\<bar> < (2::rat) ^ 53" using m by (metis of_int_less_numeral_power_cancel_iff)
  have ke: "e - 52 \<le> k"
  proof (rule ccontr)
    assume c: "\<not> e - 52 \<le> k"
    then have "e = log2_floor a" using k by (auto simp: e_def)
    then have "2 powi e \<le> a" using log2_floor_bounds[OF a(1)] by simp
    then have "2 powi (e - k) \<le> (of_int \<bar>m\<bar> :: rat)"
      unfolding a(2) by (simp add: power_int_diff field_simps)
    moreover have "(2::rat) powi 53 \<le> 2 powi (e - k)" using c by (intro power_int_increasing) auto
    ultimately have "(2::rat) powi 53 \<le> of_int \<bar>m\<bar>" by linarith
    then show False using mq by (simp add: power_int_def)
  qed
  have "a / u = of_int (\<bar>m\<bar> * 2 ^ nat (k - (e - 52)))"
  proof -
    have "a / u = of_int \<bar>m\<bar> * 2 powi (k - (e - 52))"
      by (simp add: a(2) u_def power_int_diff)
    also have "(2::rat) powi (k - (e - 52)) = of_int (2 ^ nat (k - (e - 52)))"
      using ke by (intro powi_2_int) simp
    finally show ?thesis by simp
  qed
  then have "of_int (round_half_even (a / u)) = a / u" by (simp only: round_half_even_int)
  then have r: "of_int (round_half_even (a / u)) * u = a" by (simp add: u_def)
  have "a < 2 ^ 53 * 2 powi k" using a(2) mq by simp
  also have "\<dots> \<le> 2 ^ 53 * 2 powi 971" using k by (intro mult_left_mono power_int_increasing) auto
  also have "\<dots> = 2 ^ 1024" by (simp add: power_int_def flip: power_add)
  finally have "a < 2 ^ 1024" .
  moreover have "sgn q * a = q" by (simp add: a_def sgn_mult_abs)
  ultimately show ?thesis
    using False r a(1) unfolding round64_def Let_def a_def[symmetric] e_def[symmetric] u_def[symmetric]
    by simp
qed

lemma round64_id: "is_f64 (Fin q) \<Longrightarrow> round64 q = Fin q"
  by (auto simp: is_f64_def intro: round64_representable)

lemma round64_is_f64: "is_f64 (round64 q)"
proof (cases "q = 0")
  case True then show ?thesis by (auto simp: round64_def is_f64_def intro!: exI[of _ 0])
next
  case False
  define a where "a = \<bar>q\<bar>"
  define e where "e = max (- 1022) (log2_floor a)"
  define u :: rat where "u = 2 powi (e - 52)"
  define z where "z = round_half_even (a / u)"
  have a: "0 < a" using False by (simp add: a_def)
  have lf: "2 powi (log2_floor a) \<le> a" "a < 2 powi (log2_floor a + 1)"
    using log2_floor_bounds[OF a] by auto
  have "a < 2 powi (e + 1)"
    using lf(2) power_int_increasing[of "log2_floor a + 1" "e + 1" "2::rat"] by (simp add: e_def)
  then have "a / u < 2 powi (e + 1) / u" by (intro divide_strict_right_mono) (auto simp: u_def)
  also have "2 powi (e + 1) / u = 2 powi (e + 1 - (e - 52))"
    unfolding u_def by (rule power_int_diff[symmetric]) simp
  finally have "a / u < of_int (2 ^ 53)" by (simp add: power_int_def)
  then have z53: "z \<le> 2 ^ 53" unfolding z_def by (rule round_half_even_less_int)
  have z0: "0 \<le> z" unfolding z_def using a by (intro round_half_even_mono_int) (simp add: u_def)
  have big: "2 ^ 1024 \<le> of_int z * u" if "1024 \<le> e"
  proof -
    have "e = log2_floor a" using that by (auto simp: e_def max_def split: if_splits)
    then have "2 powi e / u \<le> a / u" using lf(1) by (intro divide_right_mono) (auto simp: u_def)
    also have "2 powi e / u = 2 powi (e - (e - 52))"
      unfolding u_def by (rule power_int_diff[symmetric]) simp
    finally have "of_int (2 ^ 52) \<le> a / u" by simp
    then have "2 ^ 52 \<le> z" unfolding z_def by (rule round_half_even_mono_int)
    then have "(2::rat) ^ 52 \<le> of_int z" by (metis numeral_power_le_of_int_cancel_iff)
    then have "2 ^ 52 * u \<le> of_int z * u" by (intro mult_right_mono) (auto simp: u_def)
    moreover have "2 ^ 52 * u = 2 powi e" by (simp only: u_def powi_2_mult) simp
    moreover have "(2::rat) powi 1024 \<le> 2 powi e" using that by (intro power_int_increasing) auto
    ultimately show ?thesis by (simp add: power_int_def)
  qed
  have rep: "\<exists>m k. sgn q * (of_int z * u) = of_int m * 2 powi k \<and> \<bar>m\<bar> < 2 ^ 53 \<and> - 1074 \<le> k \<and> k \<le> 971"
    if r: "of_int z * u < 2 ^ 1024"
  proof -
    have e1: "e < 1024" using big r by force
    have e2: "- 1022 \<le> e" by (simp add: e_def)
    obtain s :: int where s: "sgn q = of_int s" "\<bar>s\<bar> \<le> 1" using False by (cases "q < 0") (auto intro: that[of "-1"] that[of 1])
    show ?thesis
    proof (cases "z < 2 ^ 53")
      case True
      have "\<bar>s * z\<bar> < 2 ^ 53" using s(2) z0 True by (cases "s = 0"; cases "s = 1"; cases "s = - 1") auto
      then show ?thesis using e1 e2 by (intro exI[of _ "s * z"] exI[of _ "e - 52"]) (simp add: s(1) u_def)
    next
      case False
      then have z: "z = 2 ^ 53" using z53 by simp
      have "(2::rat) powi (e + 1) < 2 ^ 1024" using r
        by (simp only: z u_def of_int_power of_int_numeral powi_2_mult) (simp add: add.commute)
      have "e + 1 < 1024"
      proof (rule ccontr)
        assume "\<not> e + 1 < 1024"
        then have "(2::rat) powi 1024 \<le> 2 powi (e + 1)" by (intro power_int_increasing) auto
        then show False using \<open>2 powi (e + 1) < 2 ^ 1024\<close> by (simp add: power_int_def)
      qed
      moreover have "of_int z * u = 2 ^ 52 * 2 powi (e - 51)"
        by (simp only: z u_def of_int_power of_int_numeral powi_2_mult) simp
      ultimately show ?thesis using e2 s
        by (intro exI[of _ "s * 2 ^ 52"] exI[of _ "e - 51"]) (auto simp: abs_mult)
    qed
  qed
  show ?thesis
    using rep False
    unfolding is_f64_def round64_def Let_def a_def[symmetric] e_def[symmetric] u_def[symmetric] z_def[symmetric]
    by (auto split: if_splits)
qed

text \<open>Integers up to \<open>2 ^ 53\<close> are represented exactly.\<close>

lemma is_f64_int: "\<bar>n\<bar> < 2 ^ 53 \<Longrightarrow> is_f64 (Fin (of_int n))"
  unfolding is_f64_def by (intro allI impI, rule exI[of _ n], rule exI[of _ 0]) simp

lemma round64_int: "\<bar>n\<bar> < 2 ^ 53 \<Longrightarrow> round64 (of_int n) = Fin (of_int n)"
  by (rule round64_id) (rule is_f64_int)

lemma is_f64_special [simp]: "is_f64 NaN" "is_f64 PInf" "is_f64 NInf" "is_f64 NZero" "is_f64 (Fin 0)"
  using is_f64_int[of 0] by (auto simp: is_f64_def)

subsection \<open>Arithmetic and order\<close>

definition f_neg :: "float64 \<Rightarrow> bool" where
  "f_neg x = (case x of NInf \<Rightarrow> True | NZero \<Rightarrow> True | Fin q \<Rightarrow> q < 0 | _ \<Rightarrow> False)"

text \<open>The rational value of a finite number (0 for the values that have none).\<close>

definition rval :: "float64 \<Rightarrow> rat" where
  "rval x = (case x of Fin q \<Rightarrow> q | _ \<Rightarrow> 0)"

definition f_of_int :: "int \<Rightarrow> float64" where
  "f_of_int i = round64 (of_int i)"

definition f_add :: "float64 \<Rightarrow> float64 \<Rightarrow> float64" where
  "f_add x y =
     (if x = NaN \<or> y = NaN \<or> x = PInf \<and> y = NInf \<or> x = NInf \<and> y = PInf then NaN
      else if x = PInf \<or> y = PInf then PInf
      else if x = NInf \<or> y = NInf then NInf
      else if x = NZero \<and> y = NZero then NZero
      else round64 (rval x + rval y))"

definition f_is_zero :: "float64 \<Rightarrow> bool" where
  "f_is_zero x = (x = NZero \<or> x = Fin 0)"

definition f_is_inf :: "float64 \<Rightarrow> bool" where
  "f_is_inf x = (x = PInf \<or> x = NInf)"

definition signed_zero :: "bool \<Rightarrow> float64" where
  "signed_zero neg = (if neg then NZero else Fin 0)"

definition signed_inf :: "bool \<Rightarrow> float64" where
  "signed_inf neg = (if neg then NInf else PInf)"

definition f_mul :: "float64 \<Rightarrow> float64 \<Rightarrow> float64" where
  "f_mul x y =
     (let neg = (f_neg x \<noteq> f_neg y) in
      if x = NaN \<or> y = NaN \<or> f_is_inf x \<and> f_is_zero y \<or> f_is_zero x \<and> f_is_inf y then NaN
      else if f_is_inf x \<or> f_is_inf y then signed_inf neg
      else if f_is_zero x \<or> f_is_zero y then signed_zero neg
      else round64 (rval x * rval y))"

definition f_div :: "float64 \<Rightarrow> float64 \<Rightarrow> float64" where
  "f_div x y =
     (let neg = (f_neg x \<noteq> f_neg y) in
      if x = NaN \<or> y = NaN \<or> f_is_inf x \<and> f_is_inf y \<or> f_is_zero x \<and> f_is_zero y then NaN
      else if f_is_inf x \<or> f_is_zero y then signed_inf neg
      else if f_is_zero x \<or> f_is_inf y then signed_zero neg
      else round64 (rval x / rval y))"

definition f_lt :: "float64 \<Rightarrow> float64 \<Rightarrow> bool" where
  "f_lt x y =
     (if x = NaN \<or> y = NaN then False
      else if x = NInf then y \<noteq> NInf
      else if y = NInf then False
      else if x = PInf then False
      else if y = PInf then True
      else rval x < rval y)"

definition f_eq :: "float64 \<Rightarrow> float64 \<Rightarrow> bool" where
  "f_eq x y =
     (if x = NaN \<or> y = NaN then False
      else if f_is_inf x \<or> f_is_inf y then x = y
      else rval x = rval y)"

definition f_le :: "float64 \<Rightarrow> float64 \<Rightarrow> bool" where
  "f_le x y = (f_lt x y \<or> f_eq x y)"

text \<open>
  \<open>int(f)\<close> truncates towards zero; a value outside the range of the target type gives the
  smallest integer, as the conversion instruction of the supported 64-bit targets does.
\<close>

definition trunc_rat :: "rat \<Rightarrow> int" where
  "trunc_rat q = (if q < 0 then - \<lfloor>- q\<rfloor> else \<lfloor>q\<rfloor>)"

definition f_to_int :: "float64 \<Rightarrow> int" where
  "f_to_int x =
     (if x = NaN \<or> f_is_inf x then - (2 ^ 63)
      else let i = trunc_rat (rval x) in if - (2 ^ 63) \<le> i \<and> i < 2 ^ 63 then i else - (2 ^ 63))"

lemma f_add_is_f64: "is_f64 (f_add x y)"
  by (simp add: f_add_def round64_is_f64)

lemma f_of_int_is_f64: "is_f64 (f_of_int i)"
  by (simp add: f_of_int_def round64_is_f64)

lemma f_add_int:
  "\<bar>a + b\<bar> < 2 ^ 53 \<Longrightarrow> f_add (Fin (of_int a)) (Fin (of_int b)) = Fin (of_int (a + b))"
  using round64_int[of "a + b"] by (simp add: f_add_def rval_def)

lemma f_to_int_int: "\<bar>i\<bar> < 2 ^ 53 \<Longrightarrow> f_to_int (Fin (of_int i)) = i"
  by (auto simp: f_to_int_def rval_def trunc_rat_def f_is_inf_def simp flip: of_int_minus)

lemma f_lt_irrefl [simp]: "\<not> f_lt x x"
  by (auto simp: f_lt_def)

lemma f_lt_trans: "f_lt x y \<Longrightarrow> f_lt y z \<Longrightarrow> f_lt x z"
  by (auto simp: f_lt_def split: if_splits)

lemma f_lt_asym: "f_lt x y \<Longrightarrow> \<not> f_lt y x"
  using f_lt_trans f_lt_irrefl by blast

lemma f_lt_total: "x \<noteq> NaN \<Longrightarrow> y \<noteq> NaN \<Longrightarrow> f_lt x y \<or> f_eq x y \<or> f_lt y x"
  by (auto simp: f_lt_def f_eq_def f_is_inf_def)

lemma f_not_lt_trans:
  "y \<noteq> NaN \<Longrightarrow> \<not> f_lt x y \<Longrightarrow> \<not> f_lt y z \<Longrightarrow> \<not> f_lt x z"
  by (auto simp: f_lt_def split: if_splits)

lemma f_lt_not_NaN: "f_lt x y \<Longrightarrow> x \<noteq> NaN \<and> y \<noteq> NaN"
  by (auto simp: f_lt_def)

lemma f_lt_Fin [simp]: "f_lt (Fin a) (Fin b) \<longleftrightarrow> a < b"
  by (simp add: f_lt_def rval_def)

lemma f_add_comm: "f_add x y = f_add y x"
  by (auto simp: f_add_def add.commute)

end
