(* ===== verification/GoFloatText.thy ===== *)
theory GoFloatText
  imports GoFloat
begin

text \<open>
  \<open>strconv.ParseFloat(s, 64)\<close>, \<open>strconv.FormatFloat(v, 'f', -1, 64)\<close> and the verb \<open>%f\<close>.
  The parser reads the decimal and hexadecimal syntax with underscores, \<open>inf\<close>,
  \<open>infinity\<close> and \<open>nan\<close>, and rounds the exact rational value once. The formatter searches
  the shortest decimal that reads back as the same number, as Go's shortest format does.
\<close>

subsection \<open>Parsing\<close>

definition lower_byte :: "char \<Rightarrow> char" where
  "lower_byte c = ascii_lower c"

definition hex_val :: "char \<Rightarrow> nat option" where
  "hex_val c =
     (case digit_val c of Some d \<Rightarrow> Some d
      | None \<Rightarrow> let n = of_char (lower_byte c) :: nat
                in if 97 \<le> n \<and> n \<le> 102 then Some (n - 87) else None)"

definition mant_digit :: "bool \<Rightarrow> char \<Rightarrow> nat option" where
  "mant_digit hex c = (if hex then hex_val c else digit_val c)"

record mantissa =
  saw_digits :: bool
  mant :: nat
  frac_digits :: nat

text \<open>The mantissa loop of \<open>readFloat\<close>: digits, underscores and at most one point.\<close>

fun scan_mant :: "bool \<Rightarrow> bool \<Rightarrow> mantissa \<Rightarrow> gostr \<Rightarrow> mantissa \<times> gostr" where
  "scan_mant hex dot m [] = (m, [])"
| "scan_mant hex dot m (c # cs) =
     (if c = CHR ''_'' then scan_mant hex dot m cs
      else if c = CHR ''.'' then (if dot then (m, c # cs) else scan_mant hex True m cs)
      else case mant_digit hex c of None \<Rightarrow> (m, c # cs)
        | Some d \<Rightarrow> scan_mant hex dot
            \<lparr>saw_digits = True, mant = mant m * (if hex then 16 else 10) + d,
             frac_digits = (if dot then Suc (frac_digits m) else frac_digits m)\<rparr> cs)"

text \<open>The exponent loop: the value stops growing at 10000.\<close>

fun scan_exp :: "nat \<Rightarrow> gostr \<Rightarrow> nat \<times> gostr" where
  "scan_exp e [] = (e, [])"
| "scan_exp e (c # cs) =
     (if c = CHR ''_'' then scan_exp e cs
      else case digit_val c of None \<Rightarrow> (e, c # cs)
        | Some d \<Rightarrow> scan_exp (if e < 10000 then e * 10 + d else e) cs)"

text \<open>The exponent part: \<open>None\<close> where it is malformed, \<open>Some (value, rest)\<close> otherwise.\<close>

definition read_exp :: "bool \<Rightarrow> gostr \<Rightarrow> (int \<times> gostr) option" where
  "read_exp hex s =
     (case s of
        [] \<Rightarrow> if hex then None else Some (0, [])
      | c # r \<Rightarrow>
          if lower_byte c = (if hex then CHR ''p'' else CHR ''e'') then
            (let neg = (r \<noteq> [] \<and> hd r = CHR ''-'');
                 r' = (if r \<noteq> [] \<and> (hd r = CHR ''+'' \<or> hd r = CHR ''-'') then tl r else r)
             in if r' = [] \<or> \<not> is_digit (hd r') then None
                else case scan_exp 0 r' of (e, rest) \<Rightarrow> Some (if neg then - int e else int e, rest))
          else if hex then None else Some (0, s))"

text \<open>\<open>underscoreOK\<close>: an underscore stands between digits only.\<close>

datatype saw = SawStart | SawDigit | SawUnder | SawOther

fun underscore_scan :: "bool \<Rightarrow> saw \<Rightarrow> gostr \<Rightarrow> bool" where
  "underscore_scan hex w [] = (w \<noteq> SawUnder)"
| "underscore_scan hex w (c # cs) =
     (if is_digit c \<or> hex \<and> hex_val c \<noteq> None then underscore_scan hex SawDigit cs
      else if c = CHR ''_'' then w = SawDigit \<and> underscore_scan hex SawUnder cs
      else w \<noteq> SawUnder \<and> underscore_scan hex SawOther cs)"

definition strip_sign :: "gostr \<Rightarrow> bool \<times> gostr" where
  "strip_sign s =
     (case s of c # r \<Rightarrow> if c = CHR ''-'' then (True, r) else if c = CHR ''+'' then (False, r) else (False, s)
      | [] \<Rightarrow> (False, []))"

definition underscore_ok :: "gostr \<Rightarrow> bool" where
  "underscore_ok s0 =
     (let s = snd (strip_sign s0) in
      case s of z # x # r \<Rightarrow>
          if z = CHR ''0'' \<and> lower_byte x \<in> {CHR ''b'', CHR ''o'', CHR ''x''}
          then underscore_scan (lower_byte x = CHR ''x'') SawDigit r
          else underscore_scan False SawStart s
      | _ \<Rightarrow> underscore_scan False SawStart s)"

definition float_result :: "bool \<Rightarrow> rat \<Rightarrow> float64 \<times> num_error option" where
  "float_result neg q =
     (let v = (if q = 0 then signed_zero neg else round64 (if neg then - q else q))
      in (v, if f_is_inf v then Some ErrRange else None))"

definition parse_special :: "gostr \<Rightarrow> float64 option" where
  "parse_special s =
     (let (neg, r) = strip_sign s; l = map lower_byte r in
      if l = ''inf'' \<or> l = ''infinity'' then Some (signed_inf neg)
      else if map lower_byte s = ''nan'' then Some NaN else None)"

definition hex_prefix :: "gostr \<Rightarrow> bool" where
  "hex_prefix r = (2 < length r \<and> r ! 0 = CHR ''0'' \<and> lower_byte (r ! 1) = CHR ''x'')"

definition parse_float :: "gostr \<Rightarrow> float64 \<times> num_error option" where
  "parse_float s =
     (case parse_special s of Some v \<Rightarrow> (v, None)
      | None \<Rightarrow>
        let (neg, r) = strip_sign s;
            hex = hex_prefix r;
            (m, r1) = scan_mant hex False \<lparr>saw_digits = False, mant = 0, frac_digits = 0\<rparr>
                        (if hex then drop 2 r else r)
        in if \<not> saw_digits m then (Fin 0, Some ErrSyntax) else
           case read_exp hex r1 of
             Some (e, []) \<Rightarrow>
               if CHR ''_'' \<in> set s \<and> \<not> underscore_ok s then (Fin 0, Some ErrSyntax)
               else float_result neg
                 (if hex then of_nat (mant m) * 2 powi (e - 4 * int (frac_digits m))
                  else of_nat (mant m) * 10 powi (e - int (frac_digits m)))
           | _ \<Rightarrow> (Fin 0, Some ErrSyntax))"

text \<open>The value where the code goes on only without an error.\<close>

definition parse_float_ok :: "gostr \<Rightarrow> float64 option" where
  "parse_float_ok s = (case parse_float s of (v, None) \<Rightarrow> Some v | _ \<Rightarrow> None)"

subsection \<open>Formatting\<close>

definition pad_zeros :: "nat \<Rightarrow> gostr \<Rightarrow> gostr" where
  "pad_zeros n s = replicate (n - length s) CHR ''0'' @ s"

text \<open>\<open>D / 10 ^ s\<close> in decimal notation.\<close>

definition show_decimal :: "nat \<Rightarrow> nat \<Rightarrow> gostr" where
  "show_decimal D s =
     (if s = 0 then show_nat D
      else show_nat (D div 10 ^ s) @ ''.'' @ pad_zeros s (show_nat (D mod 10 ^ s)))"

fun strip_zeros :: "nat \<Rightarrow> nat \<Rightarrow> nat \<times> nat" where
  "strip_zeros D 0 = (D, 0)"
| "strip_zeros D (Suc s) = (if 10 dvd D then strip_zeros (D div 10) s else (D, Suc s))"

definition log10_floor :: "rat \<Rightarrow> int" where
  "log10_floor a =
     (if 1 \<le> a then int (length (show_nat (nat \<lfloor>a\<rfloor>))) - 1
      else - int (length (show_nat (nat (\<lceil>1 / a\<rceil> - 1)))))"

text \<open>The candidates with \<open>n\<close> significant digits around \<open>a\<close>, as \<open>(D, s)\<close> for \<open>D / 10 ^ s\<close>.\<close>

definition scaled :: "nat \<Rightarrow> int \<Rightarrow> nat \<times> nat" where
  "scaled D s = (if s \<le> 0 then (D * 10 ^ nat (- s), 0) else strip_zeros D (nat s))"

definition decimal_value :: "nat \<times> nat \<Rightarrow> rat" where
  "decimal_value p = of_nat (fst p) / 10 ^ snd p"

definition candidates :: "rat \<Rightarrow> nat \<Rightarrow> (nat \<times> nat) list" where
  "candidates a n =
     (let s = int n - 1 - log10_floor a; c = a * 10 powi s; lo = nat \<lfloor>c\<rfloor>
      in if c - of_nat lo \<le> 1 / 2 then [scaled lo s, scaled (lo + 1) s]
         else [scaled (lo + 1) s, scaled lo s])"

definition exact_decimal :: "rat \<Rightarrow> nat \<times> nat" where
  "exact_decimal a = strip_zeros (nat \<lfloor>a * 10 ^ 1074\<rfloor>) 1074"

text \<open>Seventeen digits are always enough for a binary64 number; the exact expansion ends the search.\<close>

definition shortest_decimal :: "rat \<Rightarrow> nat \<times> nat" where
  "shortest_decimal a =
     (case find (\<lambda>p. round64 (decimal_value p) = Fin a) (concat (map (candidates a) [1..<18]))
      of Some p \<Rightarrow> p | None \<Rightarrow> exact_decimal a)"

definition format_float :: "float64 \<Rightarrow> gostr" where
  "format_float x =
     (case x of NaN \<Rightarrow> ''NaN'' | PInf \<Rightarrow> ''+Inf'' | NInf \<Rightarrow> ''-Inf'' | NZero \<Rightarrow> ''-0''
      | Fin q \<Rightarrow>
          if q = 0 then ''0''
          else (if q < 0 then ''-'' else []) @
               (case shortest_decimal \<bar>q\<bar> of (D, s) \<Rightarrow> show_decimal D s))"

text \<open>The verb \<open>%f\<close>: six decimals, correctly rounded.\<close>

definition format_fixed :: "float64 \<Rightarrow> gostr" where
  "format_fixed x =
     (case x of NaN \<Rightarrow> ''NaN'' | PInf \<Rightarrow> ''+Inf'' | NInf \<Rightarrow> ''-Inf''
      | _ \<Rightarrow> (if f_neg x then ''-'' else []) @
             show_decimal (nat (round_half_even (\<bar>rval x\<bar> * 10 ^ 6))) 6)"

subsection \<open>Reading back a decimal\<close>

lemma mant_digit_dec [simp]: "mant_digit False = digit_val"
  by (rule ext) (simp add: mant_digit_def)

lemma digit_not_special:
  "is_digit c \<Longrightarrow> c \<noteq> CHR ''_'' \<and> c \<noteq> CHR ''.'' \<and> c \<noteq> CHR ''-'' \<and> c \<noteq> CHR ''+'' \<and> c \<noteq> CHR ''x''"
  by (auto simp: digit_val_def)

fun digits_value :: "nat \<Rightarrow> gostr \<Rightarrow> nat" where
  "digits_value n [] = n"
| "digits_value n (c # cs) = digits_value (n * 10 + the (digit_val c)) cs"

lemma digits_value_append: "digits_value n (s @ t) = digits_value (digits_value n s) t"
  by (induction n s rule: digits_value.induct) auto

lemma digits_value_show_nat: "digits_value 0 (show_nat n) = n"
proof (induction n rule: show_nat.induct)
  case (1 n)
  then show ?case by (cases "n < 10") (simp_all add: show_nat.simps[of n] digits_value_append)
qed

lemma digits_value_zeros: "digits_value n (replicate k CHR ''0'' @ s) = digits_value (n * 10 ^ k) s"
  by (induction k arbitrary: n) (simp_all add: digit_val_def algebra_simps)

lemma digits_value_shift: "digits_value n s = n * 10 ^ length s + digits_value 0 s"
proof (induction s arbitrary: n)
  case (Cons c s)
  let ?d = "the (digit_val c)"
  have "digits_value n (c # s) = digits_value (n * 10 + ?d) s" by simp
  also have "\<dots> = (n * 10 + ?d) * 10 ^ length s + digits_value 0 s" by (rule Cons.IH)
  also have "\<dots> = n * 10 ^ length (c # s) + (?d * 10 ^ length s + digits_value 0 s)"
    by (simp add: algebra_simps)
  also have "?d * 10 ^ length s + digits_value 0 s = digits_value 0 (c # s)"
    using Cons.IH[of ?d] by simp
  finally show ?case .
qed simp

lemma scan_mant_digits:
  assumes "\<forall>c\<in>set s. is_digit c"
  shows "scan_mant False dot m (s @ t) =
    scan_mant False dot
      \<lparr>saw_digits = saw_digits m \<or> s \<noteq> [], mant = digits_value (mant m) s,
       frac_digits = frac_digits m + (if dot then length s else 0)\<rparr> t"
  using assms
proof (induction s arbitrary: m)
  case (Cons c s)
  then show ?case using digit_not_special[of c] by auto
next
  case Nil
  then show ?case by (cases m) simp
qed

lemma length_show_nat: "n < 10 ^ k \<Longrightarrow> 0 < k \<Longrightarrow> length (show_nat n) \<le> k"
proof (induction n arbitrary: k rule: show_nat.induct)
  case (1 n)
  show ?case
  proof (cases "n < 10")
    case True with 1 show ?thesis by (simp add: show_nat.simps[of n])
  next
    case False
    then have "1 < k" using 1(2,3) by (cases k; cases "k - 1") auto
    then have "n div 10 < 10 ^ (k - 1)" using 1(2) by (cases k) (auto simp: less_mult_imp_div_less mult.commute)
    then have "length (show_nat (n div 10)) \<le> k - 1" using 1(1)[of "k - 1"] False \<open>1 < k\<close> by simp
    with False \<open>1 < k\<close> show ?thesis by (simp add: show_nat.simps[of n])
  qed
qed

lemma pad_zeros_digits: "c \<in> set (pad_zeros k (show_nat n)) \<Longrightarrow> is_digit c"
  by (auto simp: pad_zeros_def show_nat_digits digit_val_def split: if_splits dest: show_nat_digits)

lemma digits_value_pad: "digits_value 0 (pad_zeros k (show_nat n)) = n"
  by (simp add: pad_zeros_def digits_value_zeros digits_value_show_nat)

lemma length_pad: "n < 10 ^ k \<Longrightarrow> 0 < k \<Longrightarrow> length (pad_zeros k (show_nat n)) = k"
  using length_show_nat[of n k] by (simp add: pad_zeros_def)

lemma scan_show_decimal:
  "scan_mant False False \<lparr>saw_digits = False, mant = 0, frac_digits = 0\<rparr> (show_decimal D s) =
     (\<lparr>saw_digits = True, mant = D, frac_digits = s\<rparr>, [])"
proof (cases "s = 0")
  case True
  then show ?thesis
    using scan_mant_digits[of "show_nat D" False _ "[]"]
    by (simp add: show_decimal_def show_nat_digits digits_value_show_nat)
next
  case False
  let ?f = "pad_zeros s (show_nat (D mod 10 ^ s))"
  have len: "length ?f = s" using False by (intro length_pad) auto
  have "digits_value (D div 10 ^ s) ?f = D"
    using digits_value_shift[of "D div 10 ^ s" ?f] len div_mult_mod_eq[of D "10 ^ s"]
    by (simp add: digits_value_pad)
  moreover have "\<forall>c\<in>set ?f. is_digit c" using pad_zeros_digits by blast
  ultimately show ?thesis
    using False len scan_mant_digits[of "show_nat (D div 10 ^ s)" False _ "''.'' @ ?f"]
      scan_mant_digits[of ?f True _ "[]"]
    by (simp add: show_decimal_def show_nat_digits digits_value_show_nat)
qed

lemma show_decimal_chars: "c \<in> set (show_decimal D s) \<Longrightarrow> is_digit c \<or> c = CHR ''.''"
  by (auto simp: show_decimal_def dest: show_nat_digits pad_zeros_digits split: if_splits)

lemma show_decimal_not_Nil [simp]: "show_decimal D s \<noteq> []"
  by (simp add: show_decimal_def)

lemma show_decimal_hd: "is_digit (hd (show_decimal D s))"
  using hd_show_nat[of D] hd_show_nat[of "D div 10 ^ s"]
  by (cases "s = 0") (simp_all add: show_decimal_def hd_append)

lemma parse_signed_decimal:
  assumes r: "r = show_decimal D s" and st: "strip_sign t = (neg, r)"
    and t: "set t \<subseteq> set r \<union> {CHR ''-''}" "t = r \<or> t = CHR ''-'' # r"
  shows "parse_float t = float_result neg (decimal_value (D, s))"
proof -
  have nox: "\<not> hex_prefix r"
    unfolding hex_prefix_def
  proof
    assume a: "2 < length r \<and> r ! 0 = CHR ''0'' \<and> lower_byte (r ! 1) = CHR ''x''"
    then have "r ! 1 \<in> set r" by simp
    then have "is_digit (r ! 1) \<or> r ! 1 = CHR ''.''" using r show_decimal_chars by blast
    then show False using a
      by (auto simp: lower_byte_def ascii_lower_def digit_val_def Let_def split: if_splits)
  qed
  have nou: "CHR ''_'' \<notin> set t"
    using t(1) show_decimal_chars[of "CHR ''_''" D s] r by (auto simp: digit_val_def)
  have "hd r \<in> set r" using r by simp
  have d: "is_digit (hd r)" using r show_decimal_hd by simp
  obtain c cs where cs: "r = c # cs"
    using show_decimal_not_Nil[of D s] r by (metis neq_Nil_conv)
  have "lower_byte c = c" using d cs by (auto simp: lower_byte_def ascii_lower_def digit_val_def Let_def split: if_splits)
  then have "parse_special t = None"
    using d cs t(2) st by (auto simp: parse_special_def digit_val_def lower_byte_def ascii_lower_def)
  moreover have "10 powi (- int s) = 1 / (10::rat) ^ s" by (simp add: power_int_minus power_int_of_nat field_simps)
  ultimately show ?thesis
    unfolding parse_float_def st
    using nox nou scan_show_decimal[of D s] r[symmetric]
    by (simp add: Let_def read_exp_def decimal_value_def)
qed

lemma parse_show_decimal:
  "parse_float (show_decimal D s) = float_result False (decimal_value (D, s))"
  "parse_float (CHR ''-'' # show_decimal D s) = float_result True (decimal_value (D, s))"
proof -
  obtain c cs where cs: "show_decimal D s = c # cs" by (cases "show_decimal D s") auto
  then have "c \<noteq> CHR ''-'' \<and> c \<noteq> CHR ''+''" using show_decimal_hd[of D s] by (auto simp: digit_val_def)
  then have "strip_sign (show_decimal D s) = (False, show_decimal D s)" by (simp add: strip_sign_def cs)
  then show "parse_float (show_decimal D s) = float_result False (decimal_value (D, s))"
    by (intro parse_signed_decimal) auto
  show "parse_float (CHR ''-'' # show_decimal D s) = float_result True (decimal_value (D, s))"
    by (intro parse_signed_decimal[where r = "show_decimal D s"]) (auto simp: strip_sign_def)
qed

subsection \<open>The formatter round trip\<close>

lemma strip_zeros_value: "decimal_value (strip_zeros D s) = of_nat D / 10 ^ s"
  by (induction D s rule: strip_zeros.induct) (auto simp: decimal_value_def elim!: dvdE)

lemma dyadic_times_power_10:
  assumes "- int n \<le> k"
  shows "\<exists>z. of_int m * 2 powi k * 10 ^ n = (of_int z :: rat)"
proof -
  define j where "j = nat (int n + k)"
  have kj: "k = int j - int n" using assms by (simp add: j_def)
  have "(10::rat) ^ n = 5 ^ n * 2 ^ n" by (simp flip: power_mult_distrib)
  moreover have "(2::rat) powi k = 2 ^ j / 2 ^ n"
    unfolding kj by (simp add: power_int_diff)
  ultimately have "of_int m * 2 powi k * 10 ^ n = (of_int (m * 2 ^ j * 5 ^ n) :: rat)" by simp
  then show ?thesis by blast
qed

lemma decimal_value_scale:
  assumes "a * 10 ^ n = of_int z" and "0 \<le> a"
  shows "decimal_value (strip_zeros (nat \<lfloor>a * 10 ^ n\<rfloor>) n) = a"
proof -
  have "0 \<le> a * 10 ^ n" using assms(2) by simp
  then have "0 \<le> z" unfolding assms(1) by simp
  then have "of_nat (nat \<lfloor>a * 10 ^ n\<rfloor>) = a * 10 ^ n" unfolding assms(1) by (simp add: of_nat_nat)
  then show ?thesis unfolding strip_zeros_value by simp
qed

lemma decimal_value_exact:
  assumes "is_f64 (Fin a)" and "0 \<le> a"
  shows "decimal_value (exact_decimal a) = a"
proof -
  obtain m k where a: "a = of_int m * 2 powi k" and k: "- 1074 \<le> k"
    using assms(1) unfolding is_f64_def by blast
  have k': "- int 1074 \<le> k" using k by simp
  obtain z where "a * 10 ^ 1074 = of_int z"
    using dyadic_times_power_10[OF k', of m] unfolding a by blast
  then show ?thesis unfolding exact_decimal_def using assms(2) by (rule decimal_value_scale)
qed

lemma shortest_decimal_reads_back:
  assumes "is_f64 (Fin a)" and "0 \<le> a"
  shows "round64 (decimal_value (shortest_decimal a)) = Fin a"
proof (cases "find (\<lambda>p. round64 (decimal_value p) = Fin a) (concat (map (candidates a) [1..<18]))")
  case None
  then show ?thesis
    unfolding shortest_decimal_def None using decimal_value_exact[OF assms] round64_id[OF assms(1)] by simp
next
  case (Some p)
  then have "round64 (decimal_value p) = Fin a" unfolding find_Some_iff by blast
  then show ?thesis unfolding shortest_decimal_def Some by simp
qed

lemma round64_neg:
  "round64 q = Fin a \<Longrightarrow> a \<noteq> 0 \<Longrightarrow> 0 < q \<Longrightarrow> round64 (- q) = Fin (- a)"
  by (auto simp: round64_def Let_def split: if_splits)

lemma decimal_value_nonneg: "0 \<le> decimal_value p"
  by (simp add: decimal_value_def)

lemma float_result_round:
  assumes "round64 d = Fin a" and "0 < a" and "0 \<le> d"
  shows "float_result neg d = (Fin (if neg then - a else a), None)"
proof -
  have "d \<noteq> 0" using assms(1,2) by (auto simp: round64_def)
  then show ?thesis using assms round64_neg[of d a] by (auto simp: float_result_def f_is_inf_def)
qed

lemma format_float_Fin:
  "q \<noteq> 0 \<Longrightarrow> format_float (Fin q) =
     (if q < 0 then ''-'' else []) @ show_decimal (fst (shortest_decimal \<bar>q\<bar>)) (snd (shortest_decimal \<bar>q\<bar>))"
  by (simp add: format_float_def split: prod.splits)

lemma is_f64_abs: "is_f64 (Fin q) \<Longrightarrow> is_f64 (Fin \<bar>q\<bar>)"
proof -
  assume "is_f64 (Fin q)"
  then obtain m k where q: "q = of_int m * 2 powi k" and b: "\<bar>m\<bar> < 2 ^ 53" "- 1074 \<le> k" "k \<le> 971"
    unfolding is_f64_def by blast
  have "\<bar>q\<bar> = of_int \<bar>m\<bar> * 2 powi k" by (simp add: q abs_mult)
  with b show ?thesis unfolding is_f64_def
    by (intro allI impI, intro exI[of _ "\<bar>m\<bar>"] exI[of _ k]) simp
qed

lemma special_texts:
  "parse_special ''NaN'' = Some NaN" "parse_special ''+Inf'' = Some PInf" "parse_special ''-Inf'' = Some NInf"
  by (simp_all add: parse_special_def strip_sign_def signed_inf_def lower_byte_def ascii_lower_def)

lemma parse_format_float:
  assumes "is_f64 x"
  shows "parse_float (format_float x) = (x, None)"
proof (cases x)
  case (Fin q)
  show ?thesis
  proof (cases "q = 0")
    case True
    then show ?thesis using Fin parse_show_decimal(1)[of 0 0]
      by (simp add: format_float_def show_decimal_def show_nat.simps digit_char_def decimal_value_def
          float_result_def signed_zero_def f_is_inf_def)
  next
    case False
    define p where "p = shortest_decimal \<bar>q\<bar>"
    have "round64 (decimal_value p) = Fin \<bar>q\<bar>"
      using shortest_decimal_reads_back[of "\<bar>q\<bar>"] is_f64_abs assms Fin by (simp add: p_def)
    from float_result_round[OF this _ decimal_value_nonneg] False
    have "float_result neg (decimal_value p) = (Fin (if neg then - \<bar>q\<bar> else \<bar>q\<bar>), None)" for neg
      by simp
    then show ?thesis
      using Fin False parse_show_decimal[of "fst p" "snd p"] by (simp add: format_float_Fin p_def[symmetric])
  qed
next
  case NZero
  then show ?thesis using parse_show_decimal(2)[of 0 0]
    by (simp add: format_float_def show_decimal_def show_nat.simps digit_char_def decimal_value_def
        float_result_def signed_zero_def f_is_inf_def)
qed (simp_all add: format_float_def parse_float_def special_texts)

text \<open>No byte of a formatted number is a delimiter of the protocol.\<close>

lemma format_float_chars:
  assumes "c \<in> set (format_float x)"
  shows "is_digit c \<or> c \<in> set ''+-.NaInf''"
proof (cases x)
  case (Fin q)
  show ?thesis
  proof (cases "q = 0")
    case True
    then show ?thesis using assms Fin by (simp add: format_float_def digit_val_def)
  next
    case False
    then show ?thesis
      using assms Fin show_decimal_chars[of c "fst (shortest_decimal \<bar>q\<bar>)" "snd (shortest_decimal \<bar>q\<bar>)"]
      by (auto simp: format_float_Fin split: if_splits)
  qed
next
  case NZero
  then have "c = CHR ''-'' \<or> c = CHR ''0''" using assms by (simp add: format_float_def)
  then show ?thesis
  proof
    assume "c = CHR ''0''"
    then have "is_digit c" by (simp add: digit_val_def)
    then show ?thesis ..
  qed simp
qed (use assms in \<open>simp add: format_float_def; blast\<close>)+

lemma format_float_ne [simp]: "format_float x \<noteq> []"
  by (simp add: format_float_def split: float64.splits prod.splits)

end
