(* ===== verification/Funcs.thy ===== *)
theory Funcs
  imports GoNumbers
begin

unbundle bit_operations_syntax

text \<open>
  The function stacks of the \<open>set\<close> clause (\<open>internal/mapr/funcs\<close>): the parser of
  expressions such as \<open>maskdigits(md5sum($line))\<close>, the two callbacks and the call of a
  stack. \<open>crypto/md5\<close> is written out on 32-bit words.
\<close>

subsection \<open>MD5\<close>

type_synonym word32 = "32 word"
type_synonym md5_state = "word32 \<times> word32 \<times> word32 \<times> word32"

definition md5_shifts :: "nat list" where
  "md5_shifts =
     concat (replicate 4 [7, 12, 17, 22]) @ concat (replicate 4 [5, 9, 14, 20]) @
     concat (replicate 4 [4, 11, 16, 23]) @ concat (replicate 4 [6, 10, 15, 21])"

text \<open>\<open>K i = \<lfloor>2 ^ 32 * \<bar>sin (i + 1)\<bar>\<rfloor>\<close>, as the standard tabulates it.\<close>

definition md5_table :: "word32 list" where
  "md5_table =
    [0xd76aa478, 0xe8c7b756, 0x242070db, 0xc1bdceee, 0xf57c0faf, 0x4787c62a,
     0xa8304613, 0xfd469501, 0x698098d8, 0x8b44f7af, 0xffff5bb1, 0x895cd7be,
     0x6b901122, 0xfd987193, 0xa679438e, 0x49b40821, 0xf61e2562, 0xc040b340,
     0x265e5a51, 0xe9b6c7aa, 0xd62f105d, 0x02441453, 0xd8a1e681, 0xe7d3fbc8,
     0x21e1cde6, 0xc33707d6, 0xf4d50d87, 0x455a14ed, 0xa9e3e905, 0xfcefa3f8,
     0x676f02d9, 0x8d2a4c8a, 0xfffa3942, 0x8771f681, 0x6d9d6122, 0xfde5380c,
     0xa4beea44, 0x4bdecfa9, 0xf6bb4b60, 0xbebfbc70, 0x289b7ec6, 0xeaa127fa,
     0xd4ef3085, 0x04881d05, 0xd9d4d039, 0xe6db99e5, 0x1fa27cf8, 0xc4ac5665,
     0xf4292244, 0x432aff97, 0xab9423a7, 0xfc93a039, 0x655b59c3, 0x8f0ccc92,
     0xffeff47d, 0x85845dd1, 0x6fa87e4f, 0xfe2ce6e0, 0xa3014314, 0x4e0811a1,
     0xf7537e82, 0xbd3af235, 0x2ad7d2bb, 0xeb86d391]"

definition md5_init :: md5_state where
  "md5_init = (0x67452301, 0xefcdab89, 0x98badcfe, 0x10325476)"

definition md5_rotl :: "nat \<Rightarrow> word32 \<Rightarrow> word32" where
  "md5_rotl n w = (push_bit n w OR drop_bit (32 - n) w)"

definition md5_round :: "word32 list \<Rightarrow> md5_state \<Rightarrow> nat \<Rightarrow> md5_state" where
  "md5_round M st i =
     (case st of (a, b, c, d) \<Rightarrow>
        let (f, g) =
          (if i < 16 then (b AND c OR NOT b AND d, i)
           else if i < 32 then (d AND b OR NOT d AND c, (5 * i + 1) mod 16)
           else if i < 48 then (b XOR c XOR d, (3 * i + 5) mod 16)
           else (c XOR (b OR NOT d), 7 * i mod 16));
          x = f + a + md5_table ! i + M ! g
        in (d, b + md5_rotl (md5_shifts ! i) x, b, c))"

definition md5_block :: "md5_state \<Rightarrow> word32 list \<Rightarrow> md5_state" where
  "md5_block st M =
     (case (st, foldl (md5_round M) st [0..<64]) of
        ((a, b, c, d), (a', b', c', d')) \<Rightarrow> (a + a', b + b', c + c', d + d'))"

text \<open>Little-endian words and bytes.\<close>

fun md5_words :: "gostr \<Rightarrow> word32 list" where
  "md5_words (p # q # r # s # xs) =
     (of_char p + 256 * of_char q + 65536 * of_char r + 16777216 * of_char s) # md5_words xs"
| "md5_words _ = []"

definition le_bytes :: "nat \<Rightarrow> nat \<Rightarrow> gostr" where
  "le_bytes k n = map (\<lambda>i. char_of (n div 256 ^ i)) [0..<k]"

definition md5_pad :: "gostr \<Rightarrow> gostr" where
  "md5_pad s =
     (let n = length s
      in s @ char_of (128::nat) # replicate ((119 - n mod 64) mod 64) (char_of (0::nat)) @ le_bytes 8 (8 * n))"

fun md5_blocks :: "nat \<Rightarrow> md5_state \<Rightarrow> word32 list \<Rightarrow> md5_state" where
  "md5_blocks 0 st ws = st"
| "md5_blocks (Suc k) st ws = md5_blocks k (md5_block st (take 16 ws)) (drop 16 ws)"

definition md5_digest :: "gostr \<Rightarrow> gostr" where
  "md5_digest s =
     (let ws = md5_words (md5_pad s) in
      case md5_blocks (length ws div 16) md5_init ws of
        (a, b, c, d) \<Rightarrow> concat (map (\<lambda>w. le_bytes 4 (unat w)) [a, b, c, d]))"

definition hex_digit :: "nat \<Rightarrow> char" where
  "hex_digit n = (if n < 10 then char_of (48 + n) else char_of (87 + n))"

definition hex_encode :: "gostr \<Rightarrow> gostr" where
  "hex_encode s = concat (map (\<lambda>c. let n = of_char c in [hex_digit (n div 16), hex_digit (n mod 16)]) s)"

definition md5_sum :: "gostr \<Rightarrow> gostr" where
  "md5_sum text = hex_encode (md5_digest text)"

lemma length_md5_digest: "length (md5_digest s) = 16"
  by (simp add: md5_digest_def Let_def le_bytes_def split: prod.splits)

lemma length_concat_pairs: "length (concat (map (\<lambda>c. [f c, g c]) s)) = 2 * length s"
  by (induction s) auto

lemma length_md5_sum: "length (md5_sum s) = 32"
  by (simp add: md5_sum_def hex_encode_def Let_def length_concat_pairs length_md5_digest)

subsection \<open>Callbacks\<close>

definition mask_digits :: "gostr \<Rightarrow> gostr" where
  "mask_digits input = map (\<lambda>b. if CHR ''0'' \<le> b \<and> b \<le> CHR ''9'' then CHR ''.'' else b) input"

datatype callback = Md5Sum | MaskDigits

type_synonym function_stack = "(gostr \<times> callback) list"

definition run_callback :: "callback \<Rightarrow> gostr \<Rightarrow> gostr" where
  "run_callback f = (case f of Md5Sum \<Rightarrow> md5_sum | MaskDigits \<Rightarrow> mask_digits)"

datatype func_error =
    UnableToParse gostr gostr
  | UnknownFunction gostr
  | UnexpectedParen gostr
  | UnclosedParen gostr

definition lookup_callback :: "gostr \<Rightarrow> func_error + callback" where
  "lookup_callback name =
     (if name = ''md5sum'' then Inr Md5Sum
      else if name = ''maskdigits'' then Inr MaskDigits
      else Inl (UnknownFunction name))"

fun paren_depth :: "int \<Rightarrow> gostr \<Rightarrow> int option" where
  "paren_depth d [] = Some d"
| "paren_depth d (c # cs) =
     (let d' = (if c = CHR ''('' then d + 1 else if c = CHR '')'' then d - 1 else d)
      in if d' < 0 then None else paren_depth d' cs)"

definition validate_paren_balance :: "gostr \<Rightarrow> gostr \<Rightarrow> func_error option" where
  "validate_paren_balance aux original =
     (case paren_depth 0 aux of None \<Rightarrow> Some (UnexpectedParen original)
      | Some d \<Rightarrow> if d \<noteq> 0 then Some (UnclosedParen original) else None)"

text \<open>
  The loop of \<open>NewFunctionStack\<close>. A name in front of the first parenthesis is required, so
  every turn strips at least one byte before the parenthesis and both parentheses.
\<close>

function parse_stack :: "gostr \<Rightarrow> function_stack \<Rightarrow> gostr \<Rightarrow> func_error + function_stack \<times> gostr" where
  "parse_stack input fs aux =
     (if \<not> has_suffix aux '')'' then Inr (fs, aux)
      else case cut ''('' aux of
          None \<Rightarrow> Inl (UnableToParse input aux)
        | Some (name, rest) \<Rightarrow>
            if name = [] then Inl (UnableToParse input aux)
            else case lookup_callback name of
                Inl e \<Rightarrow> Inl e
              | Inr f \<Rightarrow> parse_stack input (fs @ [(name, f)]) (butlast rest))"
  by pat_completeness auto
termination
  by (relation "measure (\<lambda>(input, fs, aux). length aux)") (auto dest!: cut_Some)

declare parse_stack.simps [simp del]

definition new_function_stack :: "gostr \<Rightarrow> func_error + function_stack \<times> gostr" where
  "new_function_stack input =
     (case parse_stack input [] input of
        Inl e \<Rightarrow> Inl e
      | Inr (fs, aux) \<Rightarrow>
          (case validate_paren_balance aux input of Some e \<Rightarrow> Inl e | None \<Rightarrow> Inr (fs, aux)))"

text \<open>The stack is called from its last function, the innermost one, outwards.\<close>

definition call_stack :: "function_stack \<Rightarrow> gostr \<Rightarrow> gostr" where
  "call_stack fs str = foldl (\<lambda>s f. run_callback (snd f) s) str (rev fs)"

subsection \<open>Lemmas\<close>

lemma call_stack_Nil [simp]: "call_stack [] s = s"
  and call_stack_Cons [simp]: "call_stack ((n, f) # fs) s = run_callback f (call_stack fs s)"
  by (simp_all add: call_stack_def)

lemma call_stack_append: "call_stack (fs @ gs) s = call_stack fs (call_stack gs s)"
  by (induction fs) auto

lemma mask_digits_no_digit: "c \<in> set (mask_digits s) \<Longrightarrow> \<not> (CHR ''0'' \<le> c \<and> c \<le> CHR ''9'')"
  by (auto simp: mask_digits_def)

lemma length_mask_digits [simp]: "length (mask_digits s) = length s"
  by (simp add: mask_digits_def)

text \<open>The expression that a stack around an argument is written as.\<close>

fun show_stack :: "function_stack \<Rightarrow> gostr \<Rightarrow> gostr" where
  "show_stack [] arg = arg"
| "show_stack ((name, f) # fs) arg = name @ ''('' @ show_stack fs arg @ '')''"

definition stack_ok :: "function_stack \<Rightarrow> bool" where
  "stack_ok fs = (\<forall>(name, f) \<in> set fs. lookup_callback name = Inr f)"

lemma lookup_callback_name:
  "lookup_callback name = Inr f \<Longrightarrow> name \<noteq> [] \<and> CHR ''('' \<notin> set name"
  by (auto simp: lookup_callback_def split: if_splits)

lemma parse_show_stack:
  assumes "stack_ok fs" and "\<not> has_suffix arg '')''"
  shows "parse_stack input gs (show_stack fs arg) = Inr (gs @ fs, arg)"
  using assms(1)
proof (induction fs arbitrary: gs)
  case Nil
  then show ?case using assms(2) by (subst parse_stack.simps) simp
next
  case (Cons p fs)
  obtain name f where p: "p = (name, f)" by (cases p)
  have l: "lookup_callback name = Inr f" using Cons.prems by (simp add: stack_ok_def p)
  let ?r = "show_stack fs arg @ '')''"
  have "cut ''('' (name @ ''('' @ ?r) = Some (name, ?r)"
    using lookup_callback_name[OF l] by (intro cut_append) auto
  moreover have "has_suffix (name @ ''('' @ ?r) '')''"
    by (simp add: has_suffix_single)
  ultimately have "parse_stack input gs (show_stack (p # fs) arg) = parse_stack input (gs @ [p]) (show_stack fs arg)"
    using l lookup_callback_name[OF l] by (subst parse_stack.simps) (simp add: p butlast_append)
  with Cons.IH[of "gs @ [p]"] Cons.prems show ?case by (simp add: stack_ok_def)
qed

lemma parse_stack_sound:
  "parse_stack input gs s = Inr (fs, arg) \<Longrightarrow>
   \<exists>hs. fs = gs @ hs \<and> s = show_stack hs arg \<and> stack_ok hs \<and> \<not> has_suffix arg '')''"
proof (induction input gs s arbitrary: fs arg rule: parse_stack.induct)
  case (1 input gs aux)
  show ?case
  proof (cases "has_suffix aux '')''")
    case False
    then show ?thesis using 1(2) by (subst (asm) parse_stack.simps) (simp add: stack_ok_def)
  next
    case True
    with 1(2) obtain name rest f where c: "cut ''('' aux = Some (name, rest)"
      and l: "lookup_callback name = Inr f"
      and r: "parse_stack input (gs @ [(name, f)]) (butlast rest) = Inr (fs, arg)" and n: "name \<noteq> []"
      by (subst (asm) parse_stack.simps) (auto split: option.splits if_splits sum.splits)
    from 1(1)[OF _ c _ n l r] True obtain hs where hs: "fs = (gs @ [(name, f)]) @ hs"
      "butlast rest = show_stack hs arg" "stack_ok hs" "\<not> has_suffix arg '')''" by auto
    have aux: "aux = name @ ''('' @ rest" using cut_Some[OF c] .
    then have "rest \<noteq> []" using True by (cases rest rule: rev_cases) (auto simp: has_suffix_single)
    then have "rest = butlast rest @ '')''"
      using True aux append_butlast_last_id[of rest] by (simp add: has_suffix_single)
    then have "aux = show_stack ((name, f) # hs) arg" using aux hs(2) by simp
    then show ?thesis using hs l by (intro exI[of _ "(name, f) # hs"]) (auto simp: stack_ok_def)
  qed
qed

text \<open>A parsed stack denotes the nested application that was written.\<close>

lemma new_function_stack_iff:
  "new_function_stack input = Inr (fs, arg) \<longleftrightarrow>
   input = show_stack fs arg \<and> stack_ok fs \<and> \<not> has_suffix arg '')'' \<and> paren_depth 0 arg = Some 0"
proof
  assume "new_function_stack input = Inr (fs, arg)"
  then have p: "parse_stack input [] input = Inr (fs, arg)" and d: "paren_depth 0 arg = Some 0"
    by (auto simp: new_function_stack_def validate_paren_balance_def split: sum.splits option.splits if_splits)
  from parse_stack_sound[OF p] d
  show "input = show_stack fs arg \<and> stack_ok fs \<and> \<not> has_suffix arg '')'' \<and> paren_depth 0 arg = Some 0" by auto
next
  assume a: "input = show_stack fs arg \<and> stack_ok fs \<and> \<not> has_suffix arg '')'' \<and> paren_depth 0 arg = Some 0"
  then have "parse_stack input [] input = Inr (fs, arg)" using parse_show_stack[of fs arg input "[]"] by simp
  with a show "new_function_stack input = Inr (fs, arg)"
    by (simp add: new_function_stack_def validate_paren_balance_def)
qed


end
