(* ===== verification/Query.thy ===== *)
theory Query
  imports GoFloatText Funcs
begin

text \<open>
  The query language of \<open>internal/mapr\<close>: the tokenizer, the parser of the clauses, the
  variables a query refers to, the plan of the raw fields a log parser has to extract, and
  the evaluation of the \<open>where\<close> and \<open>set\<close> clauses on the fields of a line.
\<close>

subsection \<open>Tokens\<close>

record token =
  str :: gostr
  is_bareword :: bool
  quotes_stripped :: bool

definition query_keywords :: "gostr list" where
  "query_keywords = [''select'', ''from'', ''where'', ''set'', ''group'', ''rorder'',
     ''order'', ''interval'', ''limit'', ''outfile'', ''logformat'']"

definition bare_token :: "gostr \<Rightarrow> token" where
  "bare_token s = \<lparr>str = s, is_bareword = True, quotes_stripped = False\<rparr>"

text \<open>The parts between double quotes alternate: every second one is a quoted string.\<close>

fun tokenize_parts :: "bool \<Rightarrow> gostr list \<Rightarrow> token list" where
  "tokenize_parts quoted [] = []"
| "tokenize_parts False (part # ps) =
     map bare_token (str_fields (replace_byte CHR '','' CHR '' '' part)) @ tokenize_parts True ps"
| "tokenize_parts True (part # ps) =
     \<lparr>str = part, is_bareword = False, quotes_stripped = False\<rparr> # tokenize_parts False ps"

definition tokenize :: "gostr \<Rightarrow> token list" where
  "tokenize query_str = tokenize_parts False (split [CHR 0x22] query_str)"

definition is_keyword :: "token \<Rightarrow> bool" where
  "is_keyword t = (is_bareword t \<and> to_lower (str t) \<in> set query_keywords)"

text \<open>
  \<open>tokensConsume\<close>: the tokens up to the next keyword, without the empty ones and with the
  backquotes stripped, together with the remaining tokens.
\<close>

definition backquoted :: "gostr \<Rightarrow> bool" where
  "backquoted s = (2 \<le> length s \<and> hd s = CHR ''`'' \<and> last s = CHR ''`'')"

fun tokens_consume :: "token list \<Rightarrow> token list \<times> token list" where
  "tokens_consume [] = ([], [])"
| "tokens_consume (t # ts) =
     (if is_keyword t then (t # ts, [])
      else case tokens_consume ts of (rest, consumed) \<Rightarrow>
        if str t = [] then (rest, consumed)
        else if backquoted (str t) then
          (rest, \<lparr>str = butlast (tl (str t)), is_bareword = is_bareword t, quotes_stripped = True\<rparr> # consumed)
        else (rest, t # consumed))"

definition tokens_consume_str :: "token list \<Rightarrow> token list \<times> gostr list" where
  "tokens_consume_str ts = (case tokens_consume ts of (rest, found) \<Rightarrow> (rest, map str found))"

definition tokens_consume_optional :: "token list \<Rightarrow> gostr \<Rightarrow> token list" where
  "tokens_consume_optional ts optional =
     (case ts of [] \<Rightarrow> [] | t # r \<Rightarrow> if equal_fold (str t) optional then r else ts)"

lemma tokens_consume_length: "length (fst (tokens_consume ts)) \<le> length ts"
  by (induction ts) (auto split: prod.splits)

lemma tokens_consume_found_length: "length (snd (tokens_consume ts)) \<le> length ts"
  by (induction ts) (auto split: prod.splits)

lemma tokens_consume_optional_length: "length (tokens_consume_optional ts s) \<le> length ts"
  by (auto simp: tokens_consume_optional_def split: list.splits)

text \<open>After a clause the parser stands at a keyword or at the end.\<close>

lemma tokens_consume_rest:
  "fst (tokens_consume ts) = [] \<or> is_keyword (hd (fst (tokens_consume ts)))"
  by (induction ts) (auto split: prod.splits)

lemma tokens_consume_suffix: "suffix (fst (tokens_consume ts)) ts"
  by (induction ts) (auto intro: suffix_ConsI split: prod.splits)

subsection \<open>Field types and errors\<close>

datatype field_type = UndefFieldType | FieldT | StringT | FloatT | FunctionStackT

definition field_type_string :: "field_type \<Rightarrow> gostr" where
  "field_type_string w =
     (case w of FieldT \<Rightarrow> ''Field'' | StringT \<Rightarrow> ''String'' | FloatT \<Rightarrow> ''Float''
      | FunctionStackT \<Rightarrow> ''FunctionStack'' | UndefFieldType \<Rightarrow> ''UndefFieldType'')"

datatype query_error =
    NoSelect
  | OrderNotSelected gostr
  | ExpectedTable
  | OnlyOneTable
  | UnexpectedEnd
  | NotANumber num_error
  | BadOutfile
  | UnexpectedKeyword gostr
  | BadAggregation gostr
  | BadAggregationField gostr
  | UnknownAggregation gostr
  | WhereTooShort
  | UnknownWhereOperation gostr
  | WhereLeftQuoted gostr
  | WhereRightQuoted gostr
  | SetTooShort
  | UnknownSetOperation gostr
  | SetLeftQuoted gostr
  | SetNotVariable gostr
  | BadFunction func_error

subsection \<open>The select clause\<close>

datatype aggregate_operation =
    UndefAggregateOperation | Count | Sum | Min | Max | Last | Avg | Len | Percentage | Percentile

record select_condition =
  sc_field :: gostr
  field_storage :: gostr
  sc_operation :: aggregate_operation

definition aggregate_name :: "gostr \<Rightarrow> aggregate_operation option" where
  "aggregate_name agg =
     (if agg = ''count'' then Some Count else if agg = ''sum'' then Some Sum
      else if agg = ''min'' then Some Min else if agg = ''max'' then Some Max
      else if agg = ''last'' then Some Last else if agg = ''avg'' then Some Avg
      else if agg = ''len'' then Some Len else if agg = ''percentage'' then Some Percentage
      else if agg = ''percentile'' then Some Percentile else None)"

definition parse_select :: "token \<Rightarrow> query_error + select_condition" where
  "parse_select t =
     (let s = str t in
      if quotes_stripped t \<or> \<not> contains s ''('' \<and> \<not> contains s '')''
      then Inr \<lparr>sc_field = s, field_storage = s, sc_operation = Last\<rparr>
      else case split ''('' s of
          [agg, r] \<Rightarrow>
            (case split '')'' r of
               [field, _] \<Rightarrow>
                 (case aggregate_name agg of
                    Some aop \<Rightarrow> Inr \<lparr>sc_field = field, field_storage = s, sc_operation = aop\<rparr>
                  | None \<Rightarrow> Inl (UnknownAggregation agg))
             | _ \<Rightarrow> Inl (BadAggregationField s))
        | _ \<Rightarrow> Inl (BadAggregation s))"

definition make_select_conditions :: "token list \<Rightarrow> query_error + select_condition list" where
  "make_select_conditions ts = map_err_list parse_select ts"

subsection \<open>The where clause\<close>

datatype query_operation =
    UndefQueryOperation
  | StringEq | StringNe | StringContains | StringNotContains
  | StringHasPrefix | StringNotHasPrefix | StringHasSuffix | StringNotHasSuffix
  | FloatOperation
  | FloatEq | FloatNe | FloatLt | FloatLe | FloatGt | FloatGe

text \<open>The constants are numbered in the order of their declaration.\<close>

primrec op_code :: "query_operation \<Rightarrow> nat" where
  "op_code UndefQueryOperation = 0"
| "op_code StringEq = 1"
| "op_code StringNe = 2"
| "op_code StringContains = 3"
| "op_code StringNotContains = 4"
| "op_code StringHasPrefix = 5"
| "op_code StringNotHasPrefix = 6"
| "op_code StringHasSuffix = 7"
| "op_code StringNotHasSuffix = 8"
| "op_code FloatOperation = 9"
| "op_code FloatEq = 10"
| "op_code FloatNe = 11"
| "op_code FloatLt = 12"
| "op_code FloatLe = 13"
| "op_code FloatGt = 14"
| "op_code FloatGe = 15"

lemma op_code_inj: "op_code a = op_code b \<Longrightarrow> a = b"
  by (cases a; cases b) auto

instantiation query_operation :: linorder
begin

definition less_eq_query_operation :: "query_operation \<Rightarrow> query_operation \<Rightarrow> bool" where
  "less_eq_query_operation a b = (op_code a \<le> op_code b)"

definition less_query_operation :: "query_operation \<Rightarrow> query_operation \<Rightarrow> bool" where
  "less_query_operation a b = (op_code a < op_code b)"

instance
  by standard (auto simp: less_eq_query_operation_def less_query_operation_def dest: op_code_inj)

end

record where_condition =
  l_type :: field_type
  l_string :: gostr
  l_float :: float64
  wc_operation :: query_operation
  r_type :: field_type
  r_string :: gostr
  r_float :: float64

definition where_operation :: "gostr \<Rightarrow> query_operation option" where
  "where_operation w =
     (if w = ''=='' then Some FloatEq else if w = ''!='' then Some FloatNe
      else if w = ''<'' then Some FloatLt else if w = ''<='' then Some FloatLe
      else if w = ''=<'' then Some FloatLe else if w = ''>'' then Some FloatGt
      else if w = ''>='' then Some FloatGe else if w = ''=>'' then Some FloatGe
      else if w = ''eq'' then Some StringEq else if w = ''ne'' then Some StringNe
      else if w = ''contains'' then Some StringContains
      else if w = ''lacks'' \<or> w = ''ncontains'' then Some StringNotContains
      else if w = ''hasprefix'' then Some StringHasPrefix
      else if w = ''nhasprefix'' then Some StringNotHasPrefix
      else if w = ''hassuffix'' then Some StringHasSuffix
      else if w = ''nhassuffix'' then Some StringNotHasSuffix
      else None)"

text \<open>An operand of a numeric comparison: a number where the text parses, a field otherwise.\<close>

definition float_operand :: "gostr \<Rightarrow> field_type \<times> float64" where
  "float_operand s = (case parse_float s of (f, None) \<Rightarrow> (FloatT, f) | _ \<Rightarrow> (FieldT, Fin 0))"

definition string_operand :: "token \<Rightarrow> field_type" where
  "string_operand t = (if is_bareword t then FieldT else StringT)"

definition fill :: "query_operation \<Rightarrow> token \<Rightarrow> token \<Rightarrow> query_error + where_condition" where
  "fill wop l r =
     (if FloatOperation < wop then
        if \<not> is_bareword l then Inl (WhereLeftQuoted (str l))
        else if \<not> is_bareword r then Inl (WhereRightQuoted (str r))
        else case (float_operand (str l), float_operand (str r)) of ((lt, lf), (rt, rf)) \<Rightarrow>
          Inr \<lparr>l_type = lt, l_string = str l, l_float = lf, wc_operation = wop,
               r_type = rt, r_string = str r, r_float = rf\<rparr>
      else Inr \<lparr>l_type = string_operand l, l_string = str l, l_float = Fin 0, wc_operation = wop,
                r_type = string_operand r, r_string = str r, r_float = Fin 0\<rparr>)"

fun parse_where :: "token list \<Rightarrow> query_error + where_condition \<times> token list" where
  "parse_where (l # t # r # rest) =
     (let wop = to_lower (str t) in
      case where_operation wop of None \<Rightarrow> Inl (UnknownWhereOperation wop)
      | Some w \<Rightarrow> and_then (fill w l r) (\<lambda>wc. Inr (wc, rest)))"
| "parse_where _ = Inl WhereTooShort"

lemma parse_where_length: "parse_where ts = Inr (wc, rest) \<Longrightarrow> length rest < length ts"
  by (induction ts rule: parse_where.induct) (auto simp: and_then_Inr Let_def split: option.splits)

function make_where_conditions :: "token list \<Rightarrow> query_error + where_condition list" where
  "make_where_conditions ts =
     (if ts = [] then Inr []
      else case parse_where ts of Inl e \<Rightarrow> Inl e
      | Inr (wc, rest) \<Rightarrow>
          and_then (make_where_conditions (tokens_consume_optional rest ''and'')) (\<lambda>ws. Inr (wc # ws)))"
  by pat_completeness auto
termination
  by (relation "measure length")
    (auto dest: parse_where_length intro: le_less_trans[OF tokens_consume_optional_length])

declare make_where_conditions.simps [simp del]

subsection \<open>The set clause\<close>

record set_condition =
  set_l :: gostr
  set_r_type :: field_type
  set_r :: gostr
  set_r_float :: float64
  set_stack :: function_stack

fun parse_set :: "token list \<Rightarrow> query_error + set_condition \<times> token list" where
  "parse_set (l # t # r # rest) =
     (let sc = \<lparr>set_l = str l, set_r_type = FieldT, set_r = str r, set_r_float = Fin 0, set_stack = []\<rparr> in
      if str t \<noteq> ''='' then Inl (UnknownSetOperation (str t))
      else if \<not> is_bareword l then Inl (SetLeftQuoted (str l))
      else if \<not> has_prefix (str l) ''$'' then Inl (SetNotVariable (str l))
      else if quotes_stripped r then Inr (sc, rest)
      else if has_suffix (str r) '')'' then
        and_then (map_error BadFunction (new_function_stack (str r)))
          (\<lambda>(fs, arg). Inr (sc\<lparr>set_stack := fs, set_r_type := FunctionStackT, set_r := arg\<rparr>, rest))
      else case parse_float (str r) of
          (f, None) \<Rightarrow> Inr (sc\<lparr>set_r_float := f, set_r_type := FloatT\<rparr>, rest)
        | _ \<Rightarrow> Inr (sc, rest))"
| "parse_set _ = Inl SetTooShort"

lemma parse_set_length: "parse_set ts = Inr (sc, rest) \<Longrightarrow> length rest < length ts"
  by (induction ts rule: parse_set.induct)
    (auto simp: and_then_Inr Let_def split: if_splits prod.splits option.splits)

function make_set_conditions :: "token list \<Rightarrow> query_error + set_condition list" where
  "make_set_conditions ts =
     (if ts = [] then Inr []
      else case parse_set ts of Inl e \<Rightarrow> Inl e
      | Inr (sc, rest) \<Rightarrow>
          and_then (make_set_conditions (tokens_consume_optional rest '','')) (\<lambda>ss. Inr (sc # ss)))"
  by pat_completeness auto
termination
  by (relation "measure length")
    (auto dest: parse_set_length intro: le_less_trans[OF tokens_consume_optional_length])

declare make_set_conditions.simps [simp del]

subsection \<open>The query\<close>

record outfile =
  file_path :: gostr
  append_mode :: bool

record query =
  q_select :: "select_condition list"
  q_table :: gostr
  q_where :: "where_condition list"
  q_set :: "set_condition list"
  group_by :: "gostr list"
  order_by :: gostr
  reverse_order :: bool
  group_key :: gostr
  interval :: int
  limit :: int
  q_outfile :: "outfile option"
  raw_query :: gostr
  q_tokens :: "token list"
  log_format :: gostr

definition second :: int where
  "second = 1000000000"

definition atoi_or :: "gostr \<Rightarrow> query_error + int" where
  "atoi_or s = (case atoi s of (i, None) \<Rightarrow> Inr i | (_, Some e) \<Rightarrow> Inl (NotANumber e))"

definition outfile_of :: "token list \<Rightarrow> query_error + outfile" where
  "outfile_of found =
     (case found of
        [p] \<Rightarrow> Inr \<lparr>file_path = str p, append_mode = False\<rparr>
      | [a, p] \<Rightarrow> if str a = ''append'' then Inr \<lparr>file_path = str p, append_mode = True\<rparr> else Inl BadOutfile
      | _ \<Rightarrow> Inl BadOutfile)"

text \<open>One turn of the clause loop: the tokens after the keyword that was read, and the query.\<close>

definition first_found :: "token list \<Rightarrow> query_error + gostr" where
  "first_found found = (case found of [] \<Rightarrow> Inl UnexpectedEnd | t # _ \<Rightarrow> Inr (str t))"

definition parse_order :: "query \<Rightarrow> token list \<Rightarrow> (query \<Rightarrow> gostr \<Rightarrow> query) \<Rightarrow> query_error + query \<times> token list" where
  "parse_order q ts f =
     (let ts' = tokens_consume_optional ts ''by'' in
      if ts' = [] then Inl UnexpectedEnd
      else case tokens_consume ts' of (rest, found) \<Rightarrow>
        and_then (first_found found) (\<lambda>s. Inr (f q s, rest)))"

definition parse_clause :: "query \<Rightarrow> token \<Rightarrow> token list \<Rightarrow> query_error + query \<times> token list" where
  "parse_clause q t ts =
     (let k = to_lower (str t); (rest, found) = tokens_consume ts in
      if k = ''select'' then
        and_then (make_select_conditions found) (\<lambda>x. Inr (q\<lparr>q_select := x\<rparr>, rest))
      else if k = ''from'' then
        (case found of [] \<Rightarrow> Inl ExpectedTable
         | [x] \<Rightarrow> Inr (q\<lparr>q_table := to_upper (str x)\<rparr>, rest)
         | _ \<Rightarrow> Inl OnlyOneTable)
      else if k = ''where'' then
        and_then (make_where_conditions found) (\<lambda>x. Inr (q\<lparr>q_where := x\<rparr>, rest))
      else if k = ''set'' then
        and_then (make_set_conditions found) (\<lambda>x. Inr (q\<lparr>q_set := x\<rparr>, rest))
      else if k = ''group'' then
        (let ts' = tokens_consume_optional ts ''by'' in
         if ts' = [] then Inl UnexpectedEnd
         else case tokens_consume_str ts' of (rest', g) \<Rightarrow>
           Inr (q\<lparr>group_by := g, group_key := join '','' g\<rparr>, rest'))
      else if k = ''rorder'' then parse_order q ts (\<lambda>q s. q\<lparr>order_by := s, reverse_order := True\<rparr>)
      else if k = ''order'' then parse_order q ts (\<lambda>q s. q\<lparr>order_by := s\<rparr>)
      else if k = ''interval'' then
        (case found of [] \<Rightarrow> Inr (q, rest)
         | x # _ \<Rightarrow> and_then (atoi_or (str x)) (\<lambda>i. Inr (q\<lparr>interval := wrap64 (second * i)\<rparr>, rest)))
      else if k = ''limit'' then
        and_then (first_found found) (\<lambda>s. and_then (atoi_or s) (\<lambda>i. Inr (q\<lparr>limit := i\<rparr>, rest)))
      else if k = ''outfile'' then
        and_then (outfile_of found) (\<lambda>x. Inr (q\<lparr>q_outfile := Some x\<rparr>, rest))
      else if k = ''logformat'' then
        and_then (first_found found) (\<lambda>s. Inr (q\<lparr>log_format := s\<rparr>, rest))
      else Inl (UnexpectedKeyword (str t)))"

lemma parse_order_length:
  assumes "parse_order q ts f = Inr (q', rest)" shows "length rest \<le> length ts"
proof -
  obtain r found where r: "tokens_consume (tokens_consume_optional ts ''by'') = (r, found)" by fastforce
  then have "rest = r" using assms by (auto simp: parse_order_def and_then_Inr Let_def split: if_splits)
  then show ?thesis
    using r tokens_consume_length[of "tokens_consume_optional ts ''by''"]
      tokens_consume_optional_length[of ts "''by''"] by simp
qed

lemma parse_clause_length:
  assumes "parse_clause q t ts = Inr (q', rest)" shows "length rest \<le> length ts"
proof -
  obtain r found where r: "tokens_consume ts = (r, found)" by fastforce
  have le: "length r \<le> length ts" using tokens_consume_length[of ts] r by simp
  have g: "length (fst (tokens_consume (tokens_consume_optional ts ''by''))) \<le> length ts"
    using tokens_consume_length[of "tokens_consume_optional ts ''by''"]
      tokens_consume_optional_length[of ts "''by''"] by simp
  show ?thesis using assms r le g
    by (auto simp: parse_clause_def and_then_Inr Let_def tokens_consume_str_def dest: parse_order_length
        split: if_splits list.splits prod.splits)
qed

function parse_tokens :: "query \<Rightarrow> token list \<Rightarrow> query_error + query" where
  "parse_tokens q ts =
     (case ts of [] \<Rightarrow> Inr q
      | t # r \<Rightarrow> (case parse_clause q t r of Inl e \<Rightarrow> Inl e | Inr (q', rest) \<Rightarrow> parse_tokens q' rest))"
  by pat_completeness auto
termination
  by (relation "measure (\<lambda>(q, ts). length ts)") (auto dest: parse_clause_length)

declare parse_tokens.simps [simp del]

definition parse_query :: "query \<Rightarrow> token list \<Rightarrow> query_error + query" where
  "parse_query q0 ts =
     and_then (parse_tokens q0 ts) (\<lambda>q.
       case q_select q of [] \<Rightarrow> Inl NoSelect
       | sc # _ \<Rightarrow>
           let q' = (if group_by q = [] then q\<lparr>group_by := [sc_field sc]\<rparr> else q) in
           if order_by q' \<noteq> [] \<and> order_by q' \<notin> field_storage ` set (q_select q')
           then Inl (OrderNotSelected (order_by q'))
           else Inr q')"

definition initial_query :: "gostr \<Rightarrow> query" where
  "initial_query s = \<lparr>q_select = [], q_table = [], q_where = [], q_set = [], group_by = [],
     order_by = [], reverse_order = False, group_key = [], interval = second * 5, limit = - 1,
     q_outfile = None, raw_query = s, q_tokens = tokenize s, log_format = []\<rparr>"

text \<open>An empty query string gives no query and no error.\<close>

definition new_query :: "gostr \<Rightarrow> query_error + query option" where
  "new_query s =
     (if s = [] then Inr None
      else and_then (parse_query (initial_query s) (tokenize s)) (\<lambda>q.
        Inr (Some (if log_format q = ''csv'' \<and> q_table q = [] then q\<lparr>q_table := ''.''\<rparr> else q))))"

definition has_outfile :: "query \<Rightarrow> bool" where
  "has_outfile q = (q_outfile q \<noteq> None)"

definition query_has :: "query \<Rightarrow> gostr \<Rightarrow> bool" where
  "query_has q what = contains (raw_query q) what"

end
