(* ===== verification/Query_Eval.thy ===== *)
theory Query_Eval
  imports Query
begin

text \<open>
  What a parsed query does with the fields of a line (\<open>queryvariables.go\<close>,
  \<open>parserfieldplan.go\<close>, \<open>whereclause.go\<close>, \<open>setclause.go\<close>), and the properties of the
  query language: what every accepted query satisfies, and that the field plan names every
  raw field the evaluation reads.
\<close>

subsection \<open>Variables and the parser field plan\<close>

definition effective_log_format :: "query option \<Rightarrow> gostr \<Rightarrow> gostr" where
  "effective_log_format q configured =
     (let d = (if configured = [] then ''default'' else configured) in
      case q of None \<Rightarrow> d
      | Some q \<Rightarrow> if log_format q \<noteq> [] then log_format q
                  else if q_table q = [] then ''generic'' else d)"

text \<open>The names in the order in which the code visits them.\<close>

definition where_fields :: "query \<Rightarrow> gostr list" where
  "where_fields q = concat (map (\<lambda>wc.
     (if l_type wc = FieldT then [l_string wc] else []) @
     (if r_type wc = FieldT then [r_string wc] else [])) (q_where q))"

definition set_reads :: "set_condition \<Rightarrow> bool" where
  "set_reads sc = (set_r_type sc = FieldT \<or> set_r_type sc = FunctionStackT)"

definition referenced_names :: "query \<Rightarrow> gostr list" where
  "referenced_names q =
     map sc_field (q_select q) @ group_by q @ where_fields q @
     map set_r (filter set_reads (q_set q))"

definition referenced_variables :: "query \<Rightarrow> gostr list" where
  "referenced_variables q =
     (let produced = map set_l (q_set q)
      in sort (remdups (filter (\<lambda>n. has_prefix n ''$'' \<and> n \<notin> set produced) (referenced_names q))))"

record parser_field_plan =
  all_fields :: bool
  plan_fields :: "gostr set"

definition needs :: "parser_field_plan \<Rightarrow> gostr \<Rightarrow> bool" where
  "needs p field = (all_fields p \<or> field \<in> plan_fields p)"

definition plan_capacity :: "parser_field_plan \<Rightarrow> nat" where
  "plan_capacity p =
     (if all_fields p then 20 else if card (plan_fields p) = 0 then 4 else card (plan_fields p) + 2)"

definition plan_add :: "gostr \<Rightarrow> gostr set \<Rightarrow> gostr set" where
  "plan_add field fs = (if field = [] then fs else insert field fs)"

text \<open>The loop over the set clause carries the fields and the names it has produced so far.\<close>

definition plan_set_step :: "gostr set \<times> gostr set \<Rightarrow> set_condition \<Rightarrow> gostr set \<times> gostr set" where
  "plan_set_step st sc =
     (case st of (fs, produced) \<Rightarrow>
        (if set_reads sc \<and> set_r sc \<notin> produced then plan_add (set_r sc) fs else fs,
         insert (set_l sc) produced))"

definition plan_add_unproduced :: "gostr set \<Rightarrow> gostr set \<Rightarrow> gostr \<Rightarrow> gostr set" where
  "plan_add_unproduced produced fs f = (if f \<in> produced then fs else plan_add f fs)"

definition parser_field_plan_of :: "query option \<Rightarrow> parser_field_plan" where
  "parser_field_plan_of qo =
     (case qo of None \<Rightarrow> \<lparr>all_fields = True, plan_fields = {}\<rparr>
      | Some q \<Rightarrow>
          let fs = foldl (\<lambda>s f. plan_add f s) {} (where_fields q);
              (fs, produced) = foldl plan_set_step (fs, {}) (q_set q);
              fs = foldl (plan_add_unproduced produced) fs (group_by q);
              fs = foldl (plan_add_unproduced produced) fs (map sc_field (q_select q))
          in \<lparr>all_fields = False, plan_fields = fs\<rparr>)"

subsection \<open>Evaluation\<close>

type_synonym field_map = "(gostr, gostr) gomap"

definition where_float_value :: "field_map \<Rightarrow> gostr \<Rightarrow> float64 \<Rightarrow> field_type \<Rightarrow> float64 option" where
  "where_float_value fs s f t =
     (case t of FloatT \<Rightarrow> Some f
      | FieldT \<Rightarrow> (case map_of fs s of None \<Rightarrow> None | Some v \<Rightarrow> parse_float_ok v)
      | _ \<Rightarrow> None)"

definition where_string_value :: "field_map \<Rightarrow> gostr \<Rightarrow> field_type \<Rightarrow> gostr option" where
  "where_string_value fs s t =
     (case t of FieldT \<Rightarrow> map_of fs s | StringT \<Rightarrow> Some s | _ \<Rightarrow> None)"

definition float_clause :: "query_operation \<Rightarrow> float64 \<Rightarrow> float64 \<Rightarrow> bool" where
  "float_clause wop l r =
     (case wop of FloatEq \<Rightarrow> f_eq l r | FloatNe \<Rightarrow> \<not> f_eq l r | FloatLt \<Rightarrow> f_lt l r | FloatLe \<Rightarrow> f_le l r
      | FloatGt \<Rightarrow> f_lt r l | FloatGe \<Rightarrow> f_le r l | _ \<Rightarrow> False)"

definition string_clause :: "query_operation \<Rightarrow> gostr \<Rightarrow> gostr \<Rightarrow> bool" where
  "string_clause wop l r =
     (case wop of StringEq \<Rightarrow> l = r | StringNe \<Rightarrow> l \<noteq> r
      | StringContains \<Rightarrow> contains l r | StringNotContains \<Rightarrow> \<not> contains l r
      | StringHasPrefix \<Rightarrow> has_prefix l r | StringNotHasPrefix \<Rightarrow> \<not> has_prefix l r
      | StringHasSuffix \<Rightarrow> has_suffix l r | StringNotHasSuffix \<Rightarrow> \<not> has_suffix l r
      | _ \<Rightarrow> False)"

definition where_float_values :: "field_map \<Rightarrow> where_condition \<Rightarrow> bool" where
  "where_float_values fs wc =
     (case where_float_value fs (l_string wc) (l_float wc) (l_type wc) of None \<Rightarrow> False
      | Some l \<Rightarrow>
        (case where_float_value fs (r_string wc) (r_float wc) (r_type wc) of None \<Rightarrow> False
         | Some r \<Rightarrow> float_clause (wc_operation wc) l r))"

definition where_string_values :: "field_map \<Rightarrow> where_condition \<Rightarrow> bool" where
  "where_string_values fs wc =
     (case where_string_value fs (l_string wc) (l_type wc) of None \<Rightarrow> False
      | Some l \<Rightarrow>
        (case where_string_value fs (r_string wc) (r_type wc) of None \<Rightarrow> False
         | Some r \<Rightarrow> string_clause (wc_operation wc) l r))"

fun where_loop :: "field_map \<Rightarrow> where_condition list \<Rightarrow> bool" where
  "where_loop fs [] = True"
| "where_loop fs (wc # wcs) =
     (if FloatOperation < wc_operation wc
      then if \<not> where_float_values fs wc then False else where_loop fs wcs
      else if \<not> where_string_values fs wc then False else where_loop fs wcs)"

definition where_clause :: "query \<Rightarrow> field_map \<Rightarrow> bool" where
  "where_clause q fs = where_loop fs (q_where q)"

definition set_step :: "field_map \<Rightarrow> set_condition \<Rightarrow> field_map" where
  "set_step fs sc =
     (let value = (case map_of fs (set_r sc) of None \<Rightarrow> set_r sc | Some v \<Rightarrow> v)
      in AList.update (set_l sc)
           (if set_r_type sc = FunctionStackT then call_stack (set_stack sc) value else value) fs)"

definition set_clause :: "query \<Rightarrow> field_map \<Rightarrow> field_map" where
  "set_clause q fs = foldl set_step fs (q_set q)"

subsection \<open>The plan\<close>

lemma plan_add_set: "set (filter (\<lambda>f. f \<noteq> []) [f]) \<union> fs = plan_add f fs"
  by (simp add: plan_add_def)

lemma foldl_plan_add: "foldl (\<lambda>s f. plan_add f s) s xs = s \<union> {f \<in> set xs. f \<noteq> []}"
  by (induction xs arbitrary: s) (auto simp: plan_add_def)

lemma foldl_plan_add_unproduced:
  "foldl (plan_add_unproduced p) s xs = s \<union> {f \<in> set xs. f \<noteq> [] \<and> f \<notin> p}"
  by (induction xs arbitrary: s) (auto simp: plan_add_def plan_add_unproduced_def)

lemma foldl_plan_set_produced: "snd (foldl plan_set_step st scs) = snd st \<union> set_l ` set scs"
  by (induction scs arbitrary: st) (auto simp: plan_set_step_def split: prod.splits)

lemma foldl_plan_set_mono: "fst st \<subseteq> fst (foldl plan_set_step st scs)"
proof (induction scs arbitrary: st)
  case (Cons sc scs)
  have "fst st \<subseteq> fst (plan_set_step st sc)"
    by (auto simp: plan_set_step_def plan_add_def split: prod.splits)
  with Cons[of "plan_set_step st sc"] show ?case by auto
qed simp

lemma plan_of_query:
  "plan_fields (parser_field_plan_of (Some q)) =
     fst (foldl plan_set_step ({f \<in> set (where_fields q). f \<noteq> []}, {}) (q_set q)) \<union>
     {f \<in> set (group_by q) \<union> sc_field ` set (q_select q). f \<noteq> [] \<and> f \<notin> set_l ` set (q_set q)}"
  using foldl_plan_set_produced[of "({f \<in> set (where_fields q). f \<noteq> []}, {})" "q_set q"]
  by (auto simp: parser_field_plan_of_def foldl_plan_add foldl_plan_add_unproduced Let_def
      split: prod.splits)

text \<open>Two field maps that agree on a set of names.\<close>

definition agree :: "gostr set \<Rightarrow> field_map \<Rightarrow> field_map \<Rightarrow> bool" where
  "agree S fs fs' = (\<forall>f\<in>S. map_of fs f = map_of fs' f)"

lemma agree_mono: "agree T fs fs' \<Longrightarrow> S \<subseteq> T \<Longrightarrow> agree S fs fs'"
  by (auto simp: agree_def)

lemma where_loop_agree:
  assumes "agree (set (concat (map (\<lambda>wc. (if l_type wc = FieldT then [l_string wc] else []) @
     (if r_type wc = FieldT then [r_string wc] else [])) wcs))) fs fs'"
  shows "where_loop fs wcs = where_loop fs' wcs"
  using assms
proof (induction wcs)
  case (Cons wc wcs)
  have f: "where_float_value fs (l_string wc) x (l_type wc) = where_float_value fs' (l_string wc) x (l_type wc)"
    "where_float_value fs (r_string wc) x (r_type wc) = where_float_value fs' (r_string wc) x (r_type wc)"
    "where_string_value fs (l_string wc) (l_type wc) = where_string_value fs' (l_string wc) (l_type wc)"
    "where_string_value fs (r_string wc) (r_type wc) = where_string_value fs' (r_string wc) (r_type wc)"
    for x :: float64
    using Cons.prems
    by (auto simp: agree_def where_float_value_def where_string_value_def split: field_type.splits)
  have "agree (set (concat (map (\<lambda>wc. (if l_type wc = FieldT then [l_string wc] else []) @
     (if r_type wc = FieldT then [r_string wc] else [])) wcs))) fs fs'"
    using Cons.prems by (auto simp: agree_def)
  then have "where_loop fs wcs = where_loop fs' wcs" by (rule Cons.IH)
  moreover have "where_float_values fs wc = where_float_values fs' wc"
    "where_string_values fs wc = where_string_values fs' wc"
    unfolding where_float_values_def where_string_values_def f by (rule refl)+
  ultimately show ?case by simp
qed simp

lemma where_clause_agree: "agree (set (where_fields q)) fs fs' \<Longrightarrow> where_clause q fs = where_clause q fs'"
  by (simp add: where_clause_def where_loop_agree where_fields_def)

text \<open>
  The literals of a \<open>set\<close> clause: a number is looked up as a field name too, although the
  plan leaves it out.
\<close>

definition set_literals :: "query \<Rightarrow> gostr set" where
  "set_literals q = set (map set_r (filter (\<lambda>sc. \<not> set_reads sc) (q_set q)))"

lemma set_step_agree:
  assumes "agree (insert (set_r sc) S) fs fs'"
  shows "agree (insert (set_l sc) S) (set_step fs sc) (set_step fs' sc)"
  using assms by (auto simp: agree_def set_step_def Let_def)

lemma set_foldl_agree:
  assumes "agree (fst (foldl plan_set_step (F, P) scs) \<union> P \<union> {[]} \<union> L) fs fs'"
    and "set_r ` {sc \<in> set scs. \<not> set_reads sc} \<subseteq> L"
  shows "agree (fst (foldl plan_set_step (F, P) scs) \<union> P \<union> set_l ` set scs \<union> {[]} \<union> L)
     (foldl set_step fs scs) (foldl set_step fs' scs)"
  using assms
proof (induction scs arbitrary: F P fs fs')
  case (Cons sc scs)
  obtain F' where st: "plan_set_step (F, P) sc = (F', insert (set_l sc) P)"
    by (auto simp: plan_set_step_def)
  let ?T = "fst (foldl plan_set_step (F', insert (set_l sc) P) scs)"
  have "set_r sc \<in> F' \<union> P \<union> {[]} \<union> L"
    using st Cons.prems(2) by (auto simp: plan_set_step_def plan_add_def split: if_splits)
  then have r: "set_r sc \<in> ?T \<union> P \<union> {[]} \<union> L"
    using foldl_plan_set_mono[of "(F', insert (set_l sc) P)" scs] by auto
  have "agree (insert (set_r sc) (?T \<union> P \<union> {[]} \<union> L)) fs fs'"
    using Cons.prems(1) r by (simp add: st insert_absorb)
  then have "agree (?T \<union> insert (set_l sc) P \<union> {[]} \<union> L) (set_step fs sc) (set_step fs' sc)"
    by (rule agree_mono[OF set_step_agree]) auto
  from Cons.IH[OF this] Cons.prems(2) show ?case
    by (auto simp: st elim!: agree_mono)
qed simp

lemma set_clause_agree:
  assumes "agree (plan_fields (parser_field_plan_of (Some q)) \<union> {[]} \<union> set_literals q) fs fs'"
    and "f \<in> set (group_by q) \<union> sc_field ` set (q_select q)"
  shows "map_of (set_clause q fs) f = map_of (set_clause q fs') f"
proof -
  define F where "F = {f \<in> set (where_fields q). f \<noteq> []}"
  let ?G = "{f \<in> set (group_by q) \<union> sc_field ` set (q_select q). f \<noteq> [] \<and> f \<notin> set_l ` set (q_set q)}"
  let ?T = "fst (foldl plan_set_step (F, {}) (q_set q))"
  let ?L = "set_literals q \<union> ?G"
  have "agree (?T \<union> {} \<union> {[]} \<union> ?L) fs fs'"
    using assms(1) by (auto simp: plan_of_query F_def elim!: agree_mono)
  moreover have "set_r ` {sc \<in> set (q_set q). \<not> set_reads sc} \<subseteq> ?L" by (auto simp: set_literals_def)
  ultimately have "agree (?T \<union> {} \<union> set_l ` set (q_set q) \<union> {[]} \<union> ?L) (set_clause q fs) (set_clause q fs')"
    unfolding set_clause_def by (rule set_foldl_agree)
  moreover have "f \<in> ?T \<union> {} \<union> set_l ` set (q_set q) \<union> {[]} \<union> ?L" using assms(2) by auto
  ultimately show ?thesis by (auto simp: agree_def)
qed

lemma set_clause_wf: "gomap_wf fs \<Longrightarrow> gomap_wf (set_clause q fs)"
  unfolding set_clause_def by (rule foldl_invariant) (auto simp: set_step_def Let_def)

lemma set_clause_other:
  "f \<notin> set_l ` set (q_set q) \<Longrightarrow> map_of (set_clause q fs) f = map_of fs f"
proof -
  have "f \<notin> set_l ` set scs \<Longrightarrow> map_of (foldl set_step fs scs) f = map_of fs f" for scs
    by (induction scs arbitrary: fs) (auto simp: set_step_def Let_def)
  then show "f \<notin> set_l ` set (q_set q) \<Longrightarrow> map_of (set_clause q fs) f = map_of fs f"
    by (simp add: set_clause_def)
qed

subsection \<open>The conditions and what they mean\<close>

definition where_holds :: "field_map \<Rightarrow> where_condition \<Rightarrow> bool" where
  "where_holds fs wc =
     (if FloatOperation < wc_operation wc then where_float_values fs wc else where_string_values fs wc)"

lemma where_clause_iff: "where_clause q fs \<longleftrightarrow> (\<forall>wc\<in>set (q_where q). where_holds fs wc)"
proof -
  have "where_loop fs wcs \<longleftrightarrow> (\<forall>wc\<in>set wcs. where_holds fs wc)" for wcs
    by (induction wcs) (auto simp: where_holds_def)
  then show ?thesis by (simp add: where_clause_def)
qed

definition where_wf :: "where_condition \<Rightarrow> bool" where
  "where_wf wc =
     (wc_operation wc \<noteq> UndefQueryOperation \<and> wc_operation wc \<noteq> FloatOperation \<and>
      (if FloatOperation < wc_operation wc
       then l_type wc \<in> {FloatT, FieldT} \<and> r_type wc \<in> {FloatT, FieldT}
       else l_type wc \<in> {FieldT, StringT} \<and> r_type wc \<in> {FieldT, StringT}))"

lemma where_operation_wf:
  "where_operation w = Some wop \<Longrightarrow> wop \<noteq> UndefQueryOperation \<and> wop \<noteq> FloatOperation"
  by (auto simp: where_operation_def split: if_splits)

lemma fill_wf:
  "fill wop l r = Inr wc \<Longrightarrow> wop \<noteq> UndefQueryOperation \<Longrightarrow> wop \<noteq> FloatOperation \<Longrightarrow> where_wf wc"
  by (auto simp: fill_def where_wf_def string_operand_def float_operand_def split: if_splits prod.splits option.splits)

lemma parse_where_wf: "parse_where ts = Inr (wc, rest) \<Longrightarrow> where_wf wc"
  by (induction ts rule: parse_where.induct)
    (auto simp: and_then_Inr Let_def split: option.splits dest: fill_wf where_operation_wf)

lemma make_where_conditions_wf: "make_where_conditions ts = Inr ws \<Longrightarrow> \<forall>wc\<in>set ws. where_wf wc"
proof (induction ts arbitrary: ws rule: make_where_conditions.induct)
  case (1 ts)
  show ?case
  proof (cases "ts = []")
    case True then show ?thesis using 1(2) by (simp add: make_where_conditions.simps)
  next
    case False
    then obtain wc rest where p: "parse_where ts = Inr (wc, rest)"
      using 1(2) by (subst (asm) make_where_conditions.simps) (auto split: sum.splits)
    then obtain ws' where "make_where_conditions (tokens_consume_optional rest ''and'') = Inr ws'" "ws = wc # ws'"
      using 1(2) False by (subst (asm) make_where_conditions.simps) (auto simp: and_then_Inr)
    with 1(1)[OF False p] p parse_where_wf[OF p] show ?thesis by auto
  qed
qed

definition set_wf :: "set_condition \<Rightarrow> bool" where
  "set_wf sc = (has_prefix (set_l sc) ''$'' \<and> set_r_type sc \<in> {FieldT, FloatT, FunctionStackT} \<and>
     stack_ok (set_stack sc))"

lemma parse_set_wf: "parse_set ts = Inr (sc, rest) \<Longrightarrow> set_wf sc"
  by (induction ts rule: parse_set.induct)
    (auto simp: set_wf_def and_then_Inr Let_def stack_ok_def new_function_stack_iff
      split: if_splits prod.splits option.splits)

lemma make_set_conditions_wf: "make_set_conditions ts = Inr ws \<Longrightarrow> \<forall>sc\<in>set ws. set_wf sc"
proof (induction ts arbitrary: ws rule: make_set_conditions.induct)
  case (1 ts)
  show ?case
  proof (cases "ts = []")
    case True then show ?thesis using 1(2) by (simp add: make_set_conditions.simps)
  next
    case False
    then obtain wc rest where p: "parse_set ts = Inr (wc, rest)"
      using 1(2) by (subst (asm) make_set_conditions.simps) (auto split: sum.splits)
    then obtain ws' where "make_set_conditions (tokens_consume_optional rest '','') = Inr ws'" "ws = wc # ws'"
      using 1(2) False by (subst (asm) make_set_conditions.simps) (auto simp: and_then_Inr)
    with 1(1)[OF False p] p parse_set_wf[OF p] show ?thesis by auto
  qed
qed

subsection \<open>Accepted queries\<close>

definition clauses_wf :: "query \<Rightarrow> bool" where
  "clauses_wf q = ((\<forall>wc\<in>set (q_where q). where_wf wc) \<and> (\<forall>sc\<in>set (q_set q). set_wf sc))"

lemma parse_order_inv:
  assumes "parse_order q ts f = Inr (q', rest)"
    and "\<And>s. clauses_wf (f q s) = clauses_wf q" "\<And>s. raw_query (f q s) = raw_query q"
  shows "clauses_wf q' = clauses_wf q \<and> raw_query q' = raw_query q"
  using assms by (auto simp: parse_order_def and_then_Inr Let_def split: if_splits prod.splits)

lemma parse_clause_inv:
  assumes "parse_clause q t ts = Inr (q', rest)" and "clauses_wf q"
  shows "clauses_wf q' \<and> raw_query q' = raw_query q"
proof -
  have o: "parse_order q ts (\<lambda>q s. q\<lparr>order_by := s, reverse_order := True\<rparr>) = Inr (q', rest) \<Longrightarrow>
      clauses_wf q' = clauses_wf q \<and> raw_query q' = raw_query q"
    "parse_order q ts (\<lambda>q s. q\<lparr>order_by := s\<rparr>) = Inr (q', rest) \<Longrightarrow>
      clauses_wf q' = clauses_wf q \<and> raw_query q' = raw_query q"
    by (rule parse_order_inv, assumption, simp add: clauses_wf_def, simp)+
  obtain r found where r: "tokens_consume ts = (r, found)" by fastforce
  show ?thesis
    using assms(1) o assms(2) make_where_conditions_wf make_set_conditions_wf
    unfolding parse_clause_def r
    by (auto simp: and_then_Inr Let_def clauses_wf_def split: if_splits list.splits prod.splits)
qed

lemma parse_tokens_inv:
  "parse_tokens q ts = Inr q' \<Longrightarrow> clauses_wf q \<Longrightarrow> clauses_wf q' \<and> raw_query q' = raw_query q"
proof (induction q ts rule: parse_tokens.induct)
  case (1 q ts)
  show ?case
  proof (cases ts)
    case Nil then show ?thesis using 1 by (simp add: parse_tokens.simps)
  next
    case (Cons t r)
    then obtain q2 rest where p: "parse_clause q t r = Inr (q2, rest)"
      using 1(2) by (subst (asm) parse_tokens.simps) (auto split: sum.splits)
    then have "parse_tokens q2 rest = Inr q'" using 1(2) Cons by (subst (asm) parse_tokens.simps) simp
    from 1(1)[OF Cons p refl this] parse_clause_inv[OF p 1(3)] show ?thesis by simp
  qed
qed

text \<open>
  C1: Every query that the parser accepts selects at least one column and groups by at least
  one field; its order column is one of the selected columns; its conditions carry an
  operation and operand types on which the evaluation never takes its error branch; every
  variable it sets starts with a dollar sign; a CSV query always has a table; and it
  remembers the text it was parsed from.
\<close>

theorem new_query_wf:
  assumes "new_query s = Inr (Some q)"
  shows "q_select q \<noteq> [] \<and> group_by q \<noteq> [] \<and>
    (order_by q \<noteq> [] \<longrightarrow> order_by q \<in> field_storage ` set (q_select q)) \<and>
    (\<forall>wc\<in>set (q_where q). where_wf wc) \<and> (\<forall>sc\<in>set (q_set q). set_wf sc) \<and>
    (log_format q = ''csv'' \<longrightarrow> q_table q \<noteq> []) \<and> raw_query q = s"
proof -
  obtain q1 where q1: "parse_query (initial_query s) (tokenize s) = Inr q1"
    using assms by (cases "parse_query (initial_query s) (tokenize s)") (auto simp: new_query_def split: if_splits)
  have q: "q = (if log_format q1 = ''csv'' \<and> q_table q1 = [] then q1\<lparr>q_table := ''.''\<rparr> else q1)"
    using assms unfolding new_query_def q1 by (auto split: if_splits)
  obtain q2 where q2: "parse_tokens (initial_query s) (tokenize s) = Inr q2"
    using q1 by (auto simp: parse_query_def and_then_Inr)
  have i: "clauses_wf q2 \<and> raw_query q2 = s"
    using parse_tokens_inv[OF q2] by (simp add: initial_query_def clauses_wf_def)
  obtain sc scs where sc: "q_select q2 = sc # scs"
    using q1 q2 by (cases "q_select q2") (auto simp: parse_query_def)
  have "q_select q1 = sc # scs"
    using sc q1 unfolding parse_query_def q2 by (auto simp: Let_def split: if_splits)
  then have ne: "q_select q \<noteq> []" by (simp add: q)
  have "group_by q \<noteq> [] \<and> (order_by q \<noteq> [] \<longrightarrow> order_by q \<in> field_storage ` set (q_select q)) \<and>
      clauses_wf q \<and> (log_format q = ''csv'' \<longrightarrow> q_table q \<noteq> []) \<and> raw_query q = s"
    using q1 i unfolding q parse_query_def q2
    by (auto simp: Let_def sc clauses_wf_def split: if_splits)
  with ne show ?thesis by (simp add: clauses_wf_def)
qed

definition sample_query :: gostr where
  "sample_query = ''select count(x),y from stats where y ne \"z\" set $v = maskdigits(y) group by $v order by y''"

lemma sample_query_parses: "case new_query sample_query of Inr (Some q) \<Rightarrow> True | _ \<Rightarrow> False"
  by code_simp

lemma new_query_wf_witness:
  "\<exists>q. new_query sample_query = Inr (Some q) \<and> q_select q \<noteq> [] \<and> group_by q \<noteq> [] \<and>
    raw_query q = sample_query"
proof -
  obtain q where q: "new_query sample_query = Inr (Some q)"
    using sample_query_parses by (auto split: sum.splits option.splits)
  then show ?thesis using new_query_wf[OF q] by blast
qed

text \<open>
  C2: The field plan is sufficient. Two field maps that agree on the fields of the plan (and
  on the empty name and the numeric literals of the \<open>set\<close> clause, which the evaluation looks
  up without planning them) pass the same \<open>where\<close> clause, and after the \<open>set\<close> clause they
  agree on every field that is grouped by or aggregated. So a parser that extracts only the
  planned fields leads to the same result as one that extracts all of them.
\<close>

theorem field_plan_sufficient:
  assumes "\<forall>f. needs (parser_field_plan_of (Some q)) f \<or> f = [] \<or> f \<in> set_literals q \<longrightarrow>
      map_of fs f = map_of fs' f"
  shows "where_clause q fs = where_clause q fs' \<and>
    (\<forall>f \<in> set (group_by q) \<union> sc_field ` set (q_select q).
      map_of (set_clause q fs) f = map_of (set_clause q fs') f)"
proof -
  let ?p = "parser_field_plan_of (Some q)"
  have "\<not> all_fields ?p" by (simp add: parser_field_plan_of_def Let_def split: prod.splits)
  then have a: "agree (plan_fields ?p \<union> {[]} \<union> set_literals q) fs fs'"
    using assms by (auto simp: agree_def needs_def)
  have "set (where_fields q) \<subseteq> plan_fields ?p \<union> {[]} \<union> set_literals q"
    using foldl_plan_set_mono[of "({f \<in> set (where_fields q). f \<noteq> []}, {})" "q_set q"]
    by (auto simp: plan_of_query)
  then have "where_clause q fs = where_clause q fs'"
    by (intro where_clause_agree agree_mono[OF a])
  with set_clause_agree[OF a] show ?thesis by blast
qed

text \<open>A query that sets a variable and groups by it, on a line with one field it does not need.\<close>

definition sample_plan_query :: query where
  "sample_plan_query = (initial_query ''q'')
     \<lparr>q_select := [\<lparr>sc_field = ''n'', field_storage = ''sum(n)'', sc_operation = Sum\<rparr>],
      q_set := [\<lparr>set_l = ''$v'', set_r_type = FunctionStackT, set_r = ''y'', set_r_float = Fin 0,
                 set_stack = [(''maskdigits'', MaskDigits)]\<rparr>],
      group_by := [''$v'']\<rparr>"

lemma field_plan_sufficient_witness:
  "map_of (set_clause sample_plan_query [(''y'', ''a1''), (''n'', ''4''), (''u'', ''7'')]) ''$v'' =
   map_of (set_clause sample_plan_query [(''y'', ''a1''), (''n'', ''4'')]) ''$v''"
proof -
  have "\<forall>f. needs (parser_field_plan_of (Some sample_plan_query)) f \<or> f = [] \<or> f \<in> set_literals sample_plan_query \<longrightarrow>
      map_of [(''y'', ''a1''), (''n'', ''4''), (''u'', ''7'')] f = map_of [(''y'', ''a1''), (''n'', ''4'')] f"
    by (simp add: needs_def parser_field_plan_of_def sample_plan_query_def initial_query_def where_fields_def
        plan_set_step_def set_reads_def plan_add_def plan_add_unproduced_def set_literals_def)
  from field_plan_sufficient[OF this] show ?thesis by (simp add: sample_plan_query_def)
qed

text \<open>
  The diagnostic lists each variable once, in order: exactly the names starting with a
  dollar sign that the \<open>select\<close>, \<open>group by\<close>, \<open>where\<close> and \<open>set\<close> clauses read and that no \<open>set\<close>
  clause of the query defines.
\<close>

theorem referenced_variables_spec:
  "sorted (referenced_variables q) \<and> distinct (referenced_variables q) \<and>
   set (referenced_variables q) =
     {n. has_prefix n ''$'' \<and> n \<notin> set_l ` set (q_set q) \<and>
         (n \<in> sc_field ` set (q_select q) \<or> n \<in> set (group_by q) \<or>
          (\<exists>wc\<in>set (q_where q). l_type wc = FieldT \<and> n = l_string wc \<or> r_type wc = FieldT \<and> n = r_string wc) \<or>
          (\<exists>sc\<in>set (q_set q). set_reads sc \<and> n = set_r sc))}"
  by (auto simp: referenced_variables_def referenced_names_def where_fields_def Let_def split: if_splits)

end
