(* ===== verification/Logformat.thy ===== *)
theory Logformat
  imports Query_Eval
begin

text \<open>
  The log format parsers of \<open>internal/mapr/logformat\<close>: the default parser of DTail's own
  lines, the generic, generickv and CSV parsers, the stubs, the registry of parsers, and the
  diagnostic about unknown variables. The locale \<open>planned_parser\<close> is the contract between
  the parsers and the evaluation of a query: a parser configured with a field plan extracts
  exactly the planned part of what it extracts without a plan.
\<close>

subsection \<open>Delimited fields\<close>

definition default_delimiter :: char where "default_delimiter = CHR ''|''"
definition csv_delimiter :: char where "csv_delimiter = CHR '',''"

definition scan_delimited_field :: "gostr \<Rightarrow> nat \<Rightarrow> char \<Rightarrow> gostr \<times> nat \<times> bool" where
  "scan_delimited_field input start delimiter =
     (let r = drop start input; t = takeWhile (\<lambda>c. c \<noteq> delimiter) r in
      if delimiter \<notin> set r then (r, length input, True)
      else (t, start + length t + 1, False))"

lemma scan_next:
  assumes "scan_delimited_field input start d = (token, next, False)"
  shows "start < next" "next \<le> length input"
proof -
  have d: "d \<in> set (drop start input)" and n: "next = start + length (takeWhile (\<lambda>c. c \<noteq> d) (drop start input)) + 1"
    using assms by (auto simp: scan_delimited_field_def Let_def split: if_splits)
  have "length (takeWhile (\<lambda>c. c \<noteq> d) (drop start input)) < length (drop start input)"
    using d by (metis (mono_tags, lifting) length_takeWhile_le nat_less_le takeWhile_eq_all_conv
        takeWhile_eq_take take_all_iff le_refl)
  then show "start < next" "next \<le> length input" using n by auto
qed

lemma scan_measure:
  "(token, next, done) = scan_delimited_field input start d \<Longrightarrow> \<not> done \<Longrightarrow>
   length input - next < length input - start"
  using scan_next[of input start d token "next"] by (cases "done") auto

lemma split_single:
  "split [d] s = (if d \<in> set s then takeWhile (\<lambda>c. c \<noteq> d) s # split [d] (tl (dropWhile (\<lambda>c. c \<noteq> d) s)) else [s])"
proof (cases "d \<in> set s")
  case True
  then obtain a r where s: "s = a @ d # r" and a: "d \<notin> set a" using split_list_first[of d s] by blast
  have "takeWhile (\<lambda>c. c \<noteq> d) s = a" "dropWhile (\<lambda>c. c \<noteq> d) s = d # r"
    using a unfolding s by (auto simp: takeWhile_append dropWhile_append)
  then show ?thesis using split_append[of "[d]" a r] a True by (simp add: s)
qed (simp add: split_None)

text \<open>Scanning field by field is splitting at the delimiter.\<close>

lemma scan_split:
  "split [d] (drop start input) =
     (case scan_delimited_field input start d of (token, next, done) \<Rightarrow>
        if done then [token] else token # split [d] (drop next input))"
proof -
  have "tl (dropWhile (\<lambda>c. c \<noteq> d) r) = drop (Suc (length (takeWhile (\<lambda>c. c \<noteq> d) r))) r" for r :: gostr
    by (simp add: dropWhile_eq_drop drop_Suc tl_drop)
  then show ?thesis
    by (subst split_single) (simp add: scan_delimited_field_def Let_def add.commute)
qed

subsection \<open>The default parser\<close>

datatype log_error =
    IgnoreFields
  | BadKeyValue gostr
  | CsvTooManyFields
  | MimecastNotAvailable
  | Custom1NotImplemented
  | Custom2NotImplemented

text \<open>
  The flags \<open>wantStar\<close>, \<open>wantLine\<close> and so on are the list of the built-in names the plan
  needs: the flag of a name is whether the list contains it.
\<close>

definition common_names :: "gostr list" where
  "common_names = [''$line'', ''$empty'', ''$hostname'', ''$server'', ''$timezone'', ''$timeoffset'']"

definition default_only_names :: "gostr list" where
  "default_only_names =
     [''$severity'', ''$loglevel'', ''$time'', ''$date'', ''$hour'', ''$minute'', ''$second'', ''$pid'',
      ''$caller'', ''$cpus'', ''$goroutines'', ''$cgocalls'', ''$loadavg'', ''$uptime'']"

definition flag_names :: "gostr list" where
  "flag_names = ''*'' # common_names @ default_only_names"

record default_parser =
  host_name :: gostr
  time_zone_name :: gostr
  time_zone_offset :: gostr
  fields_capacity :: nat
  want_names :: "gostr list"
  all_dynamic_fields :: bool
  dynamic_fields :: "gostr set"

definition configure_field_plan :: "parser_field_plan \<Rightarrow> default_parser \<Rightarrow> default_parser" where
  "configure_field_plan plan p =
     p\<lparr>fields_capacity := plan_capacity plan, all_dynamic_fields := all_fields plan,
       want_names := filter (needs plan) flag_names,
       dynamic_fields := (if all_fields plan then {} else plan_fields plan)\<rparr>"

definition new_default_parser :: "gostr \<Rightarrow> gostr \<Rightarrow> int \<Rightarrow> default_parser" where
  "new_default_parser host tz off =
     configure_field_plan \<lparr>all_fields = True, plan_fields = {}\<rparr>
       \<lparr>host_name = host, time_zone_name = tz, time_zone_offset = itoa off, fields_capacity = 0,
        want_names = [], all_dynamic_fields = False, dynamic_fields = {}\<rparr>"

definition set_query :: "query option \<Rightarrow> default_parser \<Rightarrow> default_parser" where
  "set_query q p = configure_field_plan (parser_field_plan_of q) p"

definition put_wanted :: "default_parser \<Rightarrow> gostr \<Rightarrow> gostr \<Rightarrow> field_map \<Rightarrow> field_map" where
  "put_wanted p name v fs = (if name \<in> set (want_names p) then AList.update name v fs else fs)"

definition add_default_fields :: "default_parser \<Rightarrow> field_map \<Rightarrow> gostr \<Rightarrow> field_map" where
  "add_default_fields p fs line =
     put_wanted p ''$timeoffset'' (time_zone_offset p)
     (put_wanted p ''$timezone'' (time_zone_name p)
     (put_wanted p ''$server'' (host_name p)
     (put_wanted p ''$hostname'' (host_name p)
     (put_wanted p ''$empty'' []
     (put_wanted p ''$line'' line
     (put_wanted p ''*'' ''*'' fs))))))"

definition add_dynamic_field :: "default_parser \<Rightarrow> field_map \<Rightarrow> gostr \<Rightarrow> gostr \<Rightarrow> field_map" where
  "add_dynamic_field p fs key v =
     (if all_dynamic_fields p then AList.update key v fs
      else if key \<in> dynamic_fields p then AList.update key v fs else fs)"

definition add_key_value_field :: "default_parser \<Rightarrow> field_map \<Rightarrow> gostr \<Rightarrow> log_error + field_map" where
  "add_key_value_field p fs token =
     (case cut ''='' token of None \<Rightarrow> Inl (BadKeyValue token)
      | Some (k, v) \<Rightarrow> Inr (add_dynamic_field p fs k v))"

definition take_range :: "gostr \<Rightarrow> nat \<Rightarrow> nat \<Rightarrow> gostr" where
  "take_range s a b = take (b - a) (drop a s)"

text \<open>The \<open>switch\<close> on the token index.\<close>

definition default_token :: "default_parser \<Rightarrow> gostr \<Rightarrow> field_map \<Rightarrow> nat \<Rightarrow> gostr \<Rightarrow> log_error + field_map" where
  "default_token p line fs i token =
     (if i = 0 then
        if \<not> has_prefix token ''INFO'' then Inl IgnoreFields
        else Inr (put_wanted p ''$loglevel'' token (put_wanted p ''$severity'' token (add_default_fields p fs line)))
      else if i = 1 then
        (let fs = put_wanted p ''$time'' token fs in
         Inr (if length token = 15
              then put_wanted p ''$second'' (drop 13 token)
                  (put_wanted p ''$minute'' (take_range token 11 13)
                  (put_wanted p ''$hour'' (take_range token 9 11)
                  (put_wanted p ''$date'' (take_range token 0 8) fs)))
              else fs))
      else if i = 2 then Inr (put_wanted p ''$pid'' token fs)
      else if i = 3 then Inr (put_wanted p ''$caller'' token fs)
      else if i = 4 then Inr (put_wanted p ''$cpus'' token fs)
      else if i = 5 then Inr (put_wanted p ''$goroutines'' token fs)
      else if i = 6 then Inr (put_wanted p ''$cgocalls'' token fs)
      else if i = 7 then Inr (put_wanted p ''$loadavg'' token fs)
      else if i = 8 then Inr (put_wanted p ''$uptime'' token fs)
      else if i = 9 then if \<not> has_prefix token ''MAPREDUCE:'' then Inl IgnoreFields else Inr fs
      else add_key_value_field p fs token)"

function default_loop :: "default_parser \<Rightarrow> gostr \<Rightarrow> field_map \<Rightarrow> nat \<Rightarrow> nat \<Rightarrow> log_error + field_map" where
  "default_loop p line fs i start =
     (case scan_delimited_field line start default_delimiter of (token, next, done) \<Rightarrow>
        (case default_token p line fs i token of
           Inl e \<Rightarrow> Inl e
         | Inr fs' \<Rightarrow>
             if done then if i + 1 < 11 then Inl IgnoreFields else Inr fs'
             else default_loop p line fs' (i + 1) next))"
  by pat_completeness auto
termination
  by (relation "measure (\<lambda>(p, line, fs, i, start). length line - start)")
    (auto intro: scan_measure)

declare default_loop.simps [simp del]

definition default_make_fields :: "default_parser \<Rightarrow> gostr \<Rightarrow> gostr \<Rightarrow> log_error + field_map" where
  "default_make_fields p line source = default_loop p line [] 0 0"

subsection \<open>The generic parsers\<close>

definition generic_make_fields :: "default_parser \<Rightarrow> gostr \<Rightarrow> gostr \<Rightarrow> log_error + field_map" where
  "generic_make_fields p line source = Inr (add_default_fields p [] line)"

text \<open>
  The generickv loop skips a token that is not a key-value pair with \<open>continue\<close>, before the
  scan position moves on, so it meets the same token again. Not returning is \<open>None\<close>.
\<close>

partial_function (option) generickv_loop :: "default_parser \<Rightarrow> gostr \<Rightarrow> field_map \<Rightarrow> nat \<Rightarrow> field_map option" where
  "generickv_loop p line fs start =
     (case scan_delimited_field line start default_delimiter of (token, next, done) \<Rightarrow>
        (case add_key_value_field p fs token of
           Inl e \<Rightarrow> generickv_loop p line fs start
         | Inr fs' \<Rightarrow> if done then Some fs' else generickv_loop p line fs' next))"

definition generickv_make_fields :: "default_parser \<Rightarrow> gostr \<Rightarrow> gostr \<Rightarrow> field_map option" where
  "generickv_make_fields p line source = generickv_loop p line (add_default_fields p [] line) 0"

subsection \<open>The CSV parser\<close>

record csv_parser =
  csv_default :: default_parser
  headers :: "(gostr, gostr list) gomap"

definition new_csv_parser :: "gostr \<Rightarrow> gostr \<Rightarrow> int \<Rightarrow> csv_parser" where
  "new_csv_parser host tz off = \<lparr>csv_default = new_default_parser host tz off, headers = []\<rparr>"

function parse_header_from :: "gostr \<Rightarrow> nat \<Rightarrow> gostr list" where
  "parse_header_from line start =
     (case scan_delimited_field line start csv_delimiter of (field, next, done) \<Rightarrow>
        field # (if done then [] else parse_header_from line next))"
  by pat_completeness auto
termination
  by (relation "measure (\<lambda>(line, start). length line - start)")
    (auto intro: scan_measure)

declare parse_header_from.simps [simp del]

definition parse_header_line :: "gostr \<Rightarrow> gostr list" where
  "parse_header_line line = parse_header_from line 0"

definition ensure_header :: "csv_parser \<Rightarrow> gostr \<Rightarrow> gostr \<Rightarrow> csv_parser \<times> gostr list \<times> bool" where
  "ensure_header p source line =
     (case map_of (headers p) source of
        Some h \<Rightarrow> (p, h, False)
      | None \<Rightarrow>
          let h = parse_header_line line
          in (p\<lparr>headers := AList.update source h (headers p)\<rparr>, h, True))"

function csv_loop :: "default_parser \<Rightarrow> gostr \<Rightarrow> gostr list \<Rightarrow> field_map \<Rightarrow> nat \<Rightarrow> nat \<Rightarrow> log_error + field_map" where
  "csv_loop p line header fs column start =
     (case scan_delimited_field line start csv_delimiter of (v, next, done) \<Rightarrow>
        if length header \<le> column then Inl CsvTooManyFields
        else
          let fs' = add_dynamic_field p fs (header ! column) v
          in if done then Inr fs' else csv_loop p line header fs' (column + 1) next)"
  by pat_completeness auto
termination
  by (relation "measure (\<lambda>(p, line, header, fs, column, start). length line - start)")
    (auto intro: scan_measure)

declare csv_loop.simps [simp del]

definition csv_make_fields :: "csv_parser \<Rightarrow> gostr \<Rightarrow> gostr \<Rightarrow> csv_parser \<times> (log_error + field_map)" where
  "csv_make_fields p line source =
     (case ensure_header p source line of (p', header, installed) \<Rightarrow>
        if installed then (p', Inl IgnoreFields)
        else (p', csv_loop (csv_default p') line header (add_default_fields (csv_default p') [] line) 0 0))"

subsection \<open>The registry\<close>

datatype log_parser =
    GenericParser default_parser
  | GenericKVParser default_parser
  | CsvParser csv_parser
  | MimecastParser
  | DefaultParser default_parser
  | Custom1Parser
  | Custom2Parser

text \<open>A factory returns a parser and an error, as the stubs return both.\<close>

type_synonym parser_factory = "gostr \<Rightarrow> gostr \<Rightarrow> int \<Rightarrow> log_parser \<times> log_error option"
type_synonym parser_registry = "(gostr, parser_factory) gomap"

datatype register_error = EmptyName | NilFactory

definition register_parser :: "gostr \<Rightarrow> parser_factory option \<Rightarrow> parser_registry \<Rightarrow> register_error + parser_registry" where
  "register_parser log_format_name factory reg =
     (let name = trim_space log_format_name in
      if name = [] then Inl EmptyName
      else case factory of None \<Rightarrow> Inl NilFactory | Some f \<Rightarrow> Inr (AList.update name f reg))"

definition builtin_factories :: "(gostr \<times> parser_factory) list" where
  "builtin_factories =
     [(''generic'', \<lambda>h z n. (GenericParser (new_default_parser h z n), None)),
      (''generickv'', \<lambda>h z n. (GenericKVParser (new_default_parser h z n), None)),
      (''csv'', \<lambda>h z n. (CsvParser (new_csv_parser h z n), None)),
      (''mimecast'', \<lambda>h z n. (MimecastParser, Some MimecastNotAvailable)),
      (''mimecastgeneric'', \<lambda>h z n. (MimecastParser, Some MimecastNotAvailable)),
      (''default'', \<lambda>h z n. (DefaultParser (new_default_parser h z n), None)),
      (''custom1'', \<lambda>h z n. (Custom1Parser, Some Custom1NotImplemented)),
      (''custom2'', \<lambda>h z n. (Custom2Parser, Some Custom2NotImplemented))]"

definition builtin_registry :: "register_error + parser_registry" where
  "builtin_registry =
     foldl (\<lambda>r (n, f). and_then r (register_parser n (Some f))) (Inr []) builtin_factories"

text \<open>The four parsers that embed the default parser take over its \<open>setQuery\<close>.\<close>

fun configure_parser_query :: "query option \<Rightarrow> log_parser \<Rightarrow> log_parser" where
  "configure_parser_query q (GenericParser p) = GenericParser (set_query q p)"
| "configure_parser_query q (GenericKVParser p) = GenericKVParser (set_query q p)"
| "configure_parser_query q (CsvParser p) = CsvParser (p\<lparr>csv_default := set_query q (csv_default p)\<rparr>)"
| "configure_parser_query q (DefaultParser p) = DefaultParser (set_query q p)"
| "configure_parser_query q p = p"

datatype new_parser_error = NoParserNoDefault gostr | DefaultFailed gostr log_error | NoParser gostr | FactoryError log_error

definition new_parser ::
  "parser_registry \<Rightarrow> gostr \<Rightarrow> gostr \<Rightarrow> int \<Rightarrow> gostr \<Rightarrow> query option \<Rightarrow> log_parser option \<times> new_parser_error option" where
  "new_parser reg host tz off name q =
     (case map_of reg name of
        Some f \<Rightarrow>
          (case f host tz off of (p, e) \<Rightarrow> (Some (configure_parser_query q p), map_option FactoryError e))
      | None \<Rightarrow>
          (case map_of reg ''default'' of
             None \<Rightarrow> (None, Some (NoParserNoDefault name))
           | Some f \<Rightarrow>
               (case f host tz off of
                  (p, Some e) \<Rightarrow> (Some p, Some (DefaultFailed name e))
                | (p, None) \<Rightarrow> (Some (configure_parser_query q p), Some (NoParser name)))))"

text \<open>\<open>MakeFields\<close> of every parser; the outer option is the return of the call.\<close>

fun make_fields :: "log_parser \<Rightarrow> gostr \<Rightarrow> gostr \<Rightarrow> (log_parser \<times> (log_error + field_map)) option" where
  "make_fields (GenericParser p) line src = Some (GenericParser p, generic_make_fields p line src)"
| "make_fields (GenericKVParser p) line src =
     map_option (\<lambda>fs. (GenericKVParser p, Inr fs)) (generickv_make_fields p line src)"
| "make_fields (CsvParser p) line src =
     (case csv_make_fields p line src of (p', r) \<Rightarrow> Some (CsvParser p', r))"
| "make_fields MimecastParser line src = Some (MimecastParser, Inl MimecastNotAvailable)"
| "make_fields (DefaultParser p) line src = Some (DefaultParser p, default_make_fields p line src)"
| "make_fields Custom1Parser line src = Some (Custom1Parser, Inl Custom1NotImplemented)"
| "make_fields Custom2Parser line src = Some (Custom2Parser, Inl Custom2NotImplemented)"

subsection \<open>The diagnostic about unknown variables\<close>

definition known_variables :: "gostr \<Rightarrow> gostr list option" where
  "known_variables name =
     (if name = ''default'' then Some (common_names @ default_only_names)
      else if name = ''generic'' \<or> name = ''generickv'' \<or> name = ''csv'' then Some common_names
      else None)"

text \<open>A warning is kept as the variable and the format it names.\<close>

definition plan_variable_warnings :: "query option \<Rightarrow> gostr \<Rightarrow> (gostr \<times> gostr \<times> gostr) list" where
  "plan_variable_warnings q name =
     (case q of None \<Rightarrow> []
      | Some q \<Rightarrow>
        (case known_variables name of None \<Rightarrow> []
         | Some known \<Rightarrow>
             map (\<lambda>v. (v, name, trim_prefix v ''$''))
               (filter (\<lambda>v. v \<notin> set known) (referenced_variables q))))"

subsection \<open>The contract with the evaluation\<close>

definition full_plan :: parser_field_plan where
  "full_plan = \<lparr>all_fields = True, plan_fields = {}\<rparr>"

lemma needs_full_plan [simp]: "needs full_plan f"
  by (simp add: needs_def full_plan_def)

text \<open>The first map is the planned part of the second one.\<close>

definition planned :: "parser_field_plan \<Rightarrow> field_map \<Rightarrow> field_map \<Rightarrow> bool" where
  "planned plan fs fs' = (\<forall>f. map_of fs f = (if needs plan f then map_of fs' f else None))"

lemma planned_Nil [simp]: "planned plan [] []"
  by (simp add: planned_def)

locale planned_parser =
  fixes parse :: "parser_field_plan \<Rightarrow> 's \<Rightarrow> gostr \<Rightarrow> gostr \<Rightarrow> 's \<times> (log_error + field_map)"
  assumes parse_state: "fst (parse plan s line src) = fst (parse full_plan s line src)"
    and parse_error: "snd (parse plan s line src) = Inl e \<longleftrightarrow> snd (parse full_plan s line src) = Inl e"
    and parse_planned:
      "snd (parse plan s line src) = Inr fs \<Longrightarrow> snd (parse full_plan s line src) = Inr fs' \<Longrightarrow> planned plan fs fs'"
    and parse_wf: "snd (parse plan s line src) = Inr fs \<Longrightarrow> gomap_wf fs"
begin

text \<open>Parsing with the plan of the query loses nothing that the query looks at.\<close>

lemma evaluation_planned:
  assumes "snd (parse full_plan s line src) = Inr fs'"
    and "map_of fs' [] = None" and "\<forall>l\<in>set_literals q. map_of fs' l = None"
  obtains fs where "snd (parse (parser_field_plan_of (Some q)) s line src) = Inr fs" and "gomap_wf fs"
    and "where_clause q fs = where_clause q fs'"
    and "\<And>f. f \<in> set (group_by q) \<union> sc_field ` set (q_select q) \<Longrightarrow>
      map_of (set_clause q fs) f = map_of (set_clause q fs') f"
proof -
  let ?p = "parser_field_plan_of (Some q)"
  obtain fs where fs: "snd (parse ?p s line src) = Inr fs"
    using assms(1) parse_error[of ?p s line src] by (cases "snd (parse ?p s line src)") auto
  have pl: "planned ?p fs fs'" using parse_planned[OF fs assms(1)] .
  have nf: "\<not> all_fields ?p" by (simp add: parser_field_plan_of_def Let_def split: prod.splits)
  have a: "agree (plan_fields ?p \<union> {[]} \<union> set_literals q) fs fs'"
    using pl assms(2,3) nf by (auto simp: agree_def planned_def needs_def)
  have "set (where_fields q) \<subseteq> plan_fields ?p \<union> {[]} \<union> set_literals q"
    using foldl_plan_set_mono[of "({f \<in> set (where_fields q). f \<noteq> []}, {})" "q_set q"]
    by (auto simp: plan_of_query)
  then have "where_clause q fs = where_clause q fs'"
    by (intro where_clause_agree agree_mono[OF a])
  with set_clause_agree[OF a] show ?thesis by (intro that[OF fs parse_wf[OF fs]])
qed

text \<open>The state of the parser does not depend on the plan over a whole input.\<close>

primrec parse_run :: "parser_field_plan \<Rightarrow> 's \<Rightarrow> (gostr \<times> gostr) list \<Rightarrow> 's" where
  "parse_run plan s [] = s"
| "parse_run plan s (x # xs) = parse_run plan (fst (parse plan s (fst x) (snd x))) xs"

lemma parse_run_plan: "parse_run plan s xs = parse_run full_plan s xs"
  by (induction xs arbitrary: s) (simp_all add: parse_state[of plan])

end

subsection \<open>The parsers keep the contract\<close>

lemma configure_twice: "configure_field_plan a (configure_field_plan b p) = configure_field_plan a p"
  by (simp add: configure_field_plan_def)

lemma want_configured: "n \<in> set (want_names (configure_field_plan plan p)) \<longleftrightarrow> n \<in> set flag_names \<and> needs plan n"
  by (auto simp: configure_field_plan_def)

lemma configured_simps [simp]:
  "host_name (configure_field_plan plan p) = host_name p"
  "time_zone_name (configure_field_plan plan p) = time_zone_name p"
  "time_zone_offset (configure_field_plan plan p) = time_zone_offset p"
  by (simp_all add: configure_field_plan_def)

lemma planned_put:
  "planned plan fs fs' \<Longrightarrow>
   planned plan (put_wanted (configure_field_plan plan p) n v fs) (put_wanted (configure_field_plan full_plan p) n v fs')"
  by (auto simp: planned_def put_wanted_def want_configured)

lemma planned_dynamic:
  "planned plan fs fs' \<Longrightarrow>
   planned plan (add_dynamic_field (configure_field_plan plan p) fs k v)
     (add_dynamic_field (configure_field_plan full_plan p) fs' k v)"
  by (auto simp: planned_def add_dynamic_field_def configure_field_plan_def full_plan_def needs_def)

lemma planned_default_fields:
  "planned plan fs fs' \<Longrightarrow>
   planned plan (add_default_fields (configure_field_plan plan p) fs line)
     (add_default_fields (configure_field_plan full_plan p) fs' line)"
  by (simp add: add_default_fields_def planned_put)

lemma planned_default_token:
  assumes "planned plan fs fs'"
  shows "rel_sum (=) (planned plan) (default_token (configure_field_plan plan p) line fs i t)
     (default_token (configure_field_plan full_plan p) line fs' i t)"
  using assms
  by (auto simp: default_token_def Let_def add_key_value_field_def planned_put planned_dynamic planned_default_fields
      split: option.splits)

text \<open>The loop of the default parser folds over the fields of the line.\<close>

fun default_all :: "default_parser \<Rightarrow> gostr \<Rightarrow> field_map \<Rightarrow> nat \<Rightarrow> gostr list \<Rightarrow> log_error + field_map" where
  "default_all p line fs i [] = Inr fs"
| "default_all p line fs i (t # ts) =
     and_then (default_token p line fs i t) (\<lambda>fs'. default_all p line fs' (i + 1) ts)"

lemma default_loop_all:
  "default_loop p line fs i start =
     (let ts = split [default_delimiter] (drop start line)
      in and_then (default_all p line fs i ts) (\<lambda>fs'. if i + length ts < 11 then Inl IgnoreFields else Inr fs'))"
proof (induction p line fs i start rule: default_loop.induct)
  case (1 p line fs i start)
  obtain token nxt dn where sc: "scan_delimited_field line start default_delimiter = (token, nxt, dn)"
    by (cases "scan_delimited_field line start default_delimiter") auto
  show ?case
    by (subst default_loop.simps, subst scan_split)
      (use 1[OF sc[symmetric] refl] in \<open>auto simp: sc Let_def split: sum.splits\<close>)
qed

lemma planned_default_all:
  "planned plan fs fs' \<Longrightarrow>
   rel_sum (=) (planned plan) (default_all (configure_field_plan plan p) line fs i ts)
     (default_all (configure_field_plan full_plan p) line fs' i ts)"
proof (induction ts arbitrary: fs fs' i)
  case (Cons t ts)
  from planned_default_token[OF Cons.prems, of p line i t] show ?case
    by (cases rule: rel_sum.cases) (auto simp: Cons.IH)
qed simp

lemma rel_sum_and_then:
  "rel_sum (=) R r r' \<Longrightarrow> (\<And>x y. R x y \<Longrightarrow> rel_sum (=) S (f x) (g y)) \<Longrightarrow>
   rel_sum (=) S (and_then r f) (and_then r' g)"
  by (erule rel_sum.cases) auto

lemma planned_default_make_fields:
  "rel_sum (=) (planned plan) (default_make_fields (configure_field_plan plan p) line src)
     (default_make_fields (configure_field_plan full_plan p) line src)"
  unfolding default_make_fields_def default_loop_all Let_def
  by (rule rel_sum_and_then[OF planned_default_all]) simp_all

lemma put_wanted_wf [simp]: "gomap_wf fs \<Longrightarrow> gomap_wf (put_wanted p n v fs)"
  by (simp add: put_wanted_def)

lemma add_default_fields_wf [simp]: "gomap_wf fs \<Longrightarrow> gomap_wf (add_default_fields p fs line)"
  by (simp add: add_default_fields_def)

lemma add_dynamic_field_wf [simp]: "gomap_wf fs \<Longrightarrow> gomap_wf (add_dynamic_field p fs k v)"
  by (simp add: add_dynamic_field_def)

lemma default_token_wf: "default_token p line fs i t = Inr fs' \<Longrightarrow> gomap_wf fs \<Longrightarrow> gomap_wf fs'"
  by (auto simp: default_token_def Let_def add_key_value_field_def split: if_splits option.splits)

lemma default_all_wf: "default_all p line fs i ts = Inr fs' \<Longrightarrow> gomap_wf fs \<Longrightarrow> gomap_wf fs'"
  by (induction ts arbitrary: fs i) (auto simp: and_then_Inr dest: default_token_wf)

lemma default_make_fields_wf: "default_make_fields p line src = Inr fs \<Longrightarrow> gomap_wf fs"
  unfolding default_make_fields_def default_loop_all
  by (auto simp: and_then_Inr Let_def dest: default_all_wf split: if_splits)

text \<open>A CSV row fills the columns from the left.\<close>

lemma csv_loop_zip:
  "csv_loop p line header fs c start =
     (let vs = split [csv_delimiter] (drop start line) in
      if length header < c + length vs then Inl CsvTooManyFields
      else Inr (foldl (\<lambda>fs (h, v). add_dynamic_field p fs h v) fs (zip (drop c header) vs)))"
proof (induction p line header fs c start rule: csv_loop.induct)
  case (1 p line header fs c start)
  obtain v nxt dn where sc: "scan_delimited_field line start csv_delimiter = (v, nxt, dn)"
    by (cases "scan_delimited_field line start csv_delimiter") auto
  have ge: "1 \<le> length (split [csv_delimiter] (drop nxt line))"
    using split_not_Nil[of "[csv_delimiter]" "drop nxt line"] by (cases "split [csv_delimiter] (drop nxt line)") auto
  have dr: "c < length header \<Longrightarrow> drop c header = header ! c # drop (Suc c) header"
    by (simp add: Cons_nth_drop_Suc)
  show ?case
    by (subst csv_loop.simps, subst scan_split)
      (use 1[OF sc[symmetric] refl] ge dr in \<open>auto simp: sc Let_def\<close>)
qed

lemma planned_csv_fold:
  "planned plan fs fs' \<Longrightarrow>
   planned plan (foldl (\<lambda>fs (h, v). add_dynamic_field (configure_field_plan plan p) fs h v) fs xs)
     (foldl (\<lambda>fs (h, v). add_dynamic_field (configure_field_plan full_plan p) fs h v) fs' xs)"
  by (induction xs arbitrary: fs fs') (auto simp: planned_dynamic)

lemma csv_fold_wf:
  "gomap_wf fs \<Longrightarrow> gomap_wf (foldl (\<lambda>fs (h, v). add_dynamic_field p fs h v) fs xs)"
  by (induction xs arbitrary: fs) auto

definition csv_configure :: "parser_field_plan \<Rightarrow> csv_parser \<Rightarrow> csv_parser" where
  "csv_configure plan p = p\<lparr>csv_default := configure_field_plan plan (csv_default p)\<rparr>"

lemma csv_make_fields_split:
  "csv_make_fields p line src =
     (case map_of (headers p) src of
        None \<Rightarrow> (p\<lparr>headers := AList.update src (parse_header_line line) (headers p)\<rparr>, Inl IgnoreFields)
      | Some h \<Rightarrow> (p, csv_loop (csv_default p) line h (add_default_fields (csv_default p) [] line) 0 0))"
  by (simp add: csv_make_fields_def ensure_header_def Let_def split: option.splits)

text \<open>The planned parsers of the three formats, as the locale wants them.\<close>

definition default_parse :: "default_parser \<Rightarrow> parser_field_plan \<Rightarrow> unit \<Rightarrow> gostr \<Rightarrow> gostr \<Rightarrow> unit \<times> (log_error + field_map)" where
  "default_parse p plan s line src = ((), default_make_fields (configure_field_plan plan p) line src)"

definition generic_parse :: "default_parser \<Rightarrow> parser_field_plan \<Rightarrow> unit \<Rightarrow> gostr \<Rightarrow> gostr \<Rightarrow> unit \<times> (log_error + field_map)" where
  "generic_parse p plan s line src = ((), generic_make_fields (configure_field_plan plan p) line src)"

definition csv_parse :: "default_parser \<Rightarrow> parser_field_plan \<Rightarrow> (gostr, gostr list) gomap \<Rightarrow> gostr \<Rightarrow> gostr \<Rightarrow>
    (gostr, gostr list) gomap \<times> (log_error + field_map)" where
  "csv_parse p plan hs line src =
     (case csv_make_fields \<lparr>csv_default = configure_field_plan plan p, headers = hs\<rparr> line src of
        (p', r) \<Rightarrow> (headers p', r))"

interpretation default_planned: planned_parser "default_parse p" for p
proof unfold_locales
  fix plan s line src e fs fs'
  note rel = planned_default_make_fields[of plan p line src]
  show "snd (default_parse p plan s line src) = Inl e \<longleftrightarrow> snd (default_parse p full_plan s line src) = Inl e"
    using rel by (cases rule: rel_sum.cases) (simp_all add: default_parse_def)
  show "snd (default_parse p plan s line src) = Inr fs \<Longrightarrow> snd (default_parse p full_plan s line src) = Inr fs' \<Longrightarrow>
      planned plan fs fs'"
    using rel by (cases rule: rel_sum.cases) (simp_all add: default_parse_def)
qed (auto simp: default_parse_def dest: default_make_fields_wf)

interpretation generic_planned: planned_parser "generic_parse p" for p
  by unfold_locales (auto simp: generic_parse_def generic_make_fields_def planned_default_fields)

interpretation csv_planned: planned_parser "csv_parse p" for p
  by unfold_locales
    (auto simp: csv_parse_def csv_make_fields_split csv_loop_zip Let_def planned_csv_fold planned_default_fields
      csv_fold_wf split: option.splits if_splits)

subsection \<open>Properties\<close>

lemma set_query_new: "set_query q (new_default_parser h z n) = configure_field_plan (parser_field_plan_of q) (new_default_parser h z n)"
  by (simp add: set_query_def)

lemma new_default_parser_full:
  "configure_field_plan full_plan (new_default_parser h z n) = new_default_parser h z n"
  by (simp add: new_default_parser_def configure_twice full_plan_def)

text \<open>
  A default parser that is configured with the field plan of a query serves the query as
  well as one that extracts every field: it accepts the same lines, the \<open>where\<close> clause
  decides the same, and after the \<open>set\<close> clause the grouped and aggregated fields are the
  same, provided that the line has no field whose name is empty or is a number literal of
  the \<open>set\<close> clause.
\<close>

theorem default_parser_plan_sound:
  assumes "default_make_fields (new_default_parser h z n) line src = Inr fs'"
    and "map_of fs' [] = None" and "\<forall>l\<in>set_literals q. map_of fs' l = None"
  shows "\<exists>fs. default_make_fields (set_query (Some q) (new_default_parser h z n)) line src = Inr fs \<and>
    where_clause q fs = where_clause q fs' \<and>
    (\<forall>f \<in> set (group_by q) \<union> sc_field ` set (q_select q).
      map_of (set_clause q fs) f = map_of (set_clause q fs') f)"
proof -
  have "snd (default_parse (new_default_parser h z n) full_plan () line src) = Inr fs'"
    using assms(1) by (simp add: default_parse_def new_default_parser_full)
  then obtain fs where "snd (default_parse (new_default_parser h z n) (parser_field_plan_of (Some q)) () line src) = Inr fs"
    "where_clause q fs = where_clause q fs'"
    "\<And>f. f \<in> set (group_by q) \<union> sc_field ` set (q_select q) \<Longrightarrow> map_of (set_clause q fs) f = map_of (set_clause q fs') f"
    using default_planned.evaluation_planned assms(2,3) by metis
  then show ?thesis by (intro exI[of _ fs]) (auto simp: default_parse_def set_query_new)
qed

definition sample_line :: gostr where
  "sample_line = ''INFO|t|1|c|8|9|0|0|0|MAPREDUCE:X|y=a1|n=4''"

lemma default_parser_plan_sound_witness:
  "\<exists>fs. default_make_fields (set_query (Some sample_plan_query) (new_default_parser ''h'' ''UTC'' 0)) sample_line ''s'' = Inr fs"
proof -
  have 1: "case default_make_fields (new_default_parser ''h'' ''UTC'' 0) sample_line ''s'' of
      Inr fs \<Rightarrow> map_of fs [] = None | Inl e \<Rightarrow> False" by code_simp
  then obtain fs' where 2: "default_make_fields (new_default_parser ''h'' ''UTC'' 0) sample_line ''s'' = Inr fs'"
    "map_of fs' [] = None" by (auto split: sum.splits)
  have "set_literals sample_plan_query = {}"
    by (simp add: set_literals_def sample_plan_query_def set_reads_def)
  with default_parser_plan_sound[OF 2] show ?thesis by blast
qed

definition csv_run :: "csv_parser \<Rightarrow> (gostr \<times> gostr) list \<Rightarrow> csv_parser" where
  "csv_run p xs = foldl (\<lambda>p (line, src). fst (csv_make_fields p line src)) p xs"

lemma parse_header_from_split: "parse_header_from line start = split [csv_delimiter] (drop start line)"
proof (induction line start rule: parse_header_from.induct)
  case (1 line start)
  then show ?case
    by (subst parse_header_from.simps, subst scan_split) (auto split: prod.splits)
qed

lemma csv_run_headers:
  "map_of (headers (csv_run p xs)) src =
     (case map_of (headers p) src of Some h \<Rightarrow> Some h
      | None \<Rightarrow> map_option (\<lambda>(line, s). split [csv_delimiter] line) (find (\<lambda>(line, s). s = src) xs))"
proof (induction xs arbitrary: p)
  case (Cons x xs)
  obtain line s where x: "x = (line, s)" by (cases x)
  have "csv_run p (x # xs) = csv_run (fst (csv_make_fields p line s)) xs" by (simp add: csv_run_def x)
  then show ?case
    by (auto simp: Cons.IH x csv_make_fields_split parse_header_line_def parse_header_from_split split: option.splits)
qed (simp add: csv_run_def split: option.splits)

text \<open>
  The header of every CSV source is its own first line, whatever the order in which the
  lines of several sources arrive: after any sequence of lines, a source that has been seen
  has the columns of the first line it sent, and no other source has a header.
\<close>

theorem csv_header_per_source:
  "map_of (headers (csv_run (new_csv_parser h z n) xs)) src =
     map_option (\<lambda>(line, s). split [csv_delimiter] line) (find (\<lambda>(line, s). s = src) xs)"
  by (simp add: csv_run_headers) (simp add: new_csv_parser_def)

lemma generickv_loop_sound:
  "generickv_loop p line fs start = Some r \<Longrightarrow>
   \<forall>t\<in>set (split [default_delimiter] (drop start line)). CHR ''='' \<in> set t"
proof (erule generickv_loop.raw_induct[rotated 1])
  fix loop p line fs start r
  assume ih: "\<And>p line fs start r. loop p line fs start = Some r \<Longrightarrow>
      \<forall>t\<in>set (split [default_delimiter] (drop start line)). CHR ''='' \<in> set t"
    and step: "(case scan_delimited_field line start default_delimiter of (token, next, done) \<Rightarrow>
        (case add_key_value_field p fs token of
           Inl e \<Rightarrow> loop p line fs start
         | Inr fs' \<Rightarrow> if done then Some fs' else loop p line fs' next)) = Some r"
  obtain token nxt dn where sc: "scan_delimited_field line start default_delimiter = (token, nxt, dn)"
    by (cases "scan_delimited_field line start default_delimiter") auto
  show "\<forall>t\<in>set (split [default_delimiter] (drop start line)). CHR ''='' \<in> set t"
  proof (cases "add_key_value_field p fs token")
    case (Inl e)
    with ih step sc show ?thesis by simp
  next
    case (Inr fs')
    then have "CHR ''='' \<in> set token"
      using cut_None[of "[CHR ''='']" token] by (auto simp: add_key_value_field_def split: option.splits)
    with ih step sc Inr show ?thesis by (subst scan_split) (auto split: if_splits)
  qed
qed

lemma generickv_loop_complete:
  "\<forall>t\<in>set (split [default_delimiter] (drop start line)). CHR ''='' \<in> set t \<Longrightarrow>
   \<exists>r. generickv_loop p line fs start = Some r"
proof (induction "length line - start" arbitrary: start fs rule: less_induct)
  case less
  obtain token nxt dn where sc: "scan_delimited_field line start default_delimiter = (token, nxt, dn)"
    by (cases "scan_delimited_field line start default_delimiter") auto
  have sp: "split [default_delimiter] (drop start line) =
      (if dn then [token] else token # split [default_delimiter] (drop nxt line))"
    using scan_split[of default_delimiter start line] by (simp add: sc)
  then have "CHR ''='' \<in> set token" using less.prems by (auto split: if_splits)
  then obtain fs' where kv: "add_key_value_field p fs token = Inr fs'"
    using cut_None[of "[CHR ''='']" token] by (auto simp: add_key_value_field_def split: option.splits)
  show ?case
  proof (cases dn)
    case True
    then show ?thesis by (subst generickv_loop.simps) (simp add: sc kv)
  next
    case False
    have "length line - nxt < length line - start" using scan_measure[OF sc[symmetric] False] .
    from less.hyps[OF this, of fs'] less.prems sp False show ?thesis
      by (subst generickv_loop.simps) (simp add: sc kv)
  qed
qed

text \<open>
  The generickv parser returns exactly on the lines in which every delimited token is a
  key-value pair. On a line with any other token \<open>MakeFields\<close> never returns.
\<close>

theorem generickv_returns_iff:
  "(\<exists>fs. generickv_make_fields p line src = Some fs) \<longleftrightarrow>
   (\<forall>t\<in>set (split [default_delimiter] line). CHR ''='' \<in> set t)"
  using generickv_loop_sound[of p line "add_default_fields p [] line" 0]
    generickv_loop_complete[of 0 line p "add_default_fields p [] line"]
  by (auto simp: generickv_make_fields_def)

lemma generickv_returns_iff_witness:
  "(\<exists>fs. generickv_make_fields (new_default_parser ''h'' ''UTC'' 0) ''a=b|c=d'' ''s'' = Some fs) \<and>
   generickv_make_fields (new_default_parser ''h'' ''UTC'' 0) ''a=b|c'' ''s'' = None"
proof -
  have "split [default_delimiter] ''a=b|c=d'' = [''a=b'', ''c=d'']" "split [default_delimiter] ''a=b|c'' = [''a=b'', ''c'']"
    by code_simp+
  then show ?thesis
    using generickv_returns_iff[of "new_default_parser ''h'' ''UTC'' 0" "''a=b|c=d''" "''s''"]
      generickv_returns_iff[of "new_default_parser ''h'' ''UTC'' 0" "''a=b|c''" "''s''"] by fastforce
qed

lemma plan_set_reads_all:
  "sc \<in> set scs \<Longrightarrow> set_reads sc \<Longrightarrow> set_r sc \<noteq> [] \<Longrightarrow> set_r sc \<notin> P \<union> set_l ` set scs \<Longrightarrow>
   set_r sc \<in> fst (foldl plan_set_step (F, P) scs)"
proof (induction scs arbitrary: F P)
  case (Cons c scs)
  obtain F' where st: "plan_set_step (F, P) c = (F', insert (set_l c) P)" by (auto simp: plan_set_step_def)
  show ?case
  proof (cases "sc = c")
    case True
    then have "set_r sc \<in> F'" using st Cons.prems by (auto simp: plan_set_step_def plan_add_def)
    then show ?thesis using foldl_plan_set_mono[of "(F', insert (set_l c) P)" scs] by (auto simp: st)
  next
    case False
    then show ?thesis using Cons.IH[of "insert (set_l c) P" F'] Cons.prems by (simp add: st)
  qed
qed simp

lemma referenced_needed:
  assumes "v \<in> set (referenced_variables q)" shows "needs (parser_field_plan_of (Some q)) v"
proof -
  have d: "has_prefix v ''$''" and p: "v \<notin> set_l ` set (q_set q)"
    using assms by (auto simp: referenced_variables_def Let_def)
  have ne: "v \<noteq> []" using d by auto
  consider "v \<in> set (group_by q) \<union> sc_field ` set (q_select q)" | "v \<in> set (where_fields q)"
    | sc where "sc \<in> set (q_set q)" "set_reads sc" "v = set_r sc"
    using assms by (auto simp: referenced_variables_def referenced_names_def Let_def)
  then have "v \<in> plan_fields (parser_field_plan_of (Some q))"
  proof cases
    case 2
    then show ?thesis
      using foldl_plan_set_mono[of "({f \<in> set (where_fields q). f \<noteq> []}, {})" "q_set q"] ne
      by (auto simp: plan_of_query)
  next
    case 3
    then show ?thesis
      using plan_set_reads_all[of sc "q_set q" "{}" "{f \<in> set (where_fields q). f \<noteq> []}"] ne p
      by (auto simp: plan_of_query)
  qed (use ne p in \<open>auto simp: plan_of_query\<close>)
  then show ?thesis by (simp add: needs_def)
qed

lemma map_of_put_wanted:
  "map_of (put_wanted p n v fs) f = (if f = n \<and> n \<in> set (want_names p) then Some v else map_of fs f)"
  by (simp add: put_wanted_def)

lemma generic_fields_keys:
  "map_of (add_default_fields p [] line) f \<noteq> None \<longleftrightarrow> f \<in> set (want_names p) \<and> f \<in> set (''*'' # common_names)"
  by (auto simp: add_default_fields_def map_of_put_wanted common_names_def)

text \<open>
  For the generic format the diagnostic is exact. A variable that a query refers to is
  warned about exactly when the parser, configured for that query, leaves it out of the
  fields of every line.
\<close>

theorem generic_warnings_exact:
  assumes "v \<in> set (referenced_variables q)"
    and "generic_make_fields (set_query (Some q) (new_default_parser h z n)) line src = Inr fs"
  shows "v \<in> fst ` set (plan_variable_warnings (Some q) ''generic'') \<longleftrightarrow> map_of fs v = None"
proof -
  have "v \<noteq> ''*''" using assms(1) by (auto simp: referenced_variables_def Let_def)
  moreover have "v \<in> fst ` set (plan_variable_warnings (Some q) ''generic'') \<longleftrightarrow> v \<notin> set common_names"
    using assms(1) by (force simp: plan_variable_warnings_def known_variables_def)
  moreover have "map_of fs v \<noteq> None \<longleftrightarrow> v \<in> set (''*'' # common_names)"
    using assms(2) generic_fields_keys[of "set_query (Some q) (new_default_parser h z n)" line v]
      referenced_needed[OF assms(1)]
    by (auto simp: generic_make_fields_def set_query_new want_configured flag_names_def)
  ultimately show ?thesis by auto
qed

lemma generic_warnings_exact_witness:
  "''$zone'' \<in> fst ` set (plan_variable_warnings
     (Some (sample_plan_query\<lparr>group_by := [''$zone'']\<rparr>)) ''generic'')"
proof -
  have r: "''$zone'' \<in> set (referenced_variables (sample_plan_query\<lparr>group_by := [''$zone'']\<rparr>))"
    by (simp add: referenced_variables_def referenced_names_def sample_plan_query_def Let_def)
  obtain fs where g: "generic_make_fields (set_query (Some (sample_plan_query\<lparr>group_by := [''$zone'']\<rparr>))
      (new_default_parser ''h'' ''UTC'' 0)) ''x'' ''s'' = Inr fs"
    by (simp add: generic_make_fields_def)
  have "map_of fs ''$zone'' = None"
    using g generic_fields_keys[of "set_query (Some (sample_plan_query\<lparr>group_by := [''$zone'']\<rparr>))
      (new_default_parser ''h'' ''UTC'' 0)" "''x''" "''$zone''"]
    by (auto simp: generic_make_fields_def common_names_def)
  with generic_warnings_exact[OF r g] show ?thesis by simp
qed

end
