(* ===== verification/Aggregates.thy ===== *)
theory Aggregates
  imports Query_Eval
begin

text \<open>
  The aggregate sets of \<open>internal/mapr\<close> (\<open>aggregateset.go\<close>, \<open>safe_aggregateset.go\<close>,
  \<open>groupset.go\<close>, \<open>globalgroupset.go\<close>): adding a value to a set, merging sets, the message a
  set is serialized into, and the group sets. A set is changed in place by the code; here
  every operation returns the new set. An operation that fails half way returns what it had
  changed by then together with the error. A \<open>select\<close> between a channel send and the end of a
  context is decided by an argument that says whether the send went through.
\<close>

subsection \<open>Aggregate sets\<close>

record aggregate_set =
  samples :: int
  fvalues :: "(gostr, float64) gomap"
  svalues :: "(gostr, gostr) gomap"

definition new_aggregate_set :: aggregate_set where
  "new_aggregate_set = \<lparr>samples = 0, fvalues = [], svalues = []\<rparr>"

definition set_float :: "aggregate_set \<Rightarrow> gostr \<Rightarrow> float64 \<Rightarrow> aggregate_set" where
  "set_float s key v = s\<lparr>fvalues := AList.update key v (fvalues s)\<rparr>"

definition set_string :: "aggregate_set \<Rightarrow> gostr \<Rightarrow> gostr \<Rightarrow> aggregate_set" where
  "set_string s key v = s\<lparr>svalues := AList.update key v (svalues s)\<rparr>"

definition add_float :: "aggregate_set \<Rightarrow> gostr \<Rightarrow> float64 \<Rightarrow> aggregate_set" where
  "add_float s key v =
     (case map_of (fvalues s) key of None \<Rightarrow> set_float s key v | Some f \<Rightarrow> set_float s key (f_add f v))"

definition add_float_min :: "aggregate_set \<Rightarrow> gostr \<Rightarrow> float64 \<Rightarrow> aggregate_set" where
  "add_float_min s key v =
     (case map_of (fvalues s) key of None \<Rightarrow> set_float s key v
      | Some f \<Rightarrow> if f_lt v f then set_float s key v else s)"

definition add_float_max :: "aggregate_set \<Rightarrow> gostr \<Rightarrow> float64 \<Rightarrow> aggregate_set" where
  "add_float_max s key v =
     (case map_of (fvalues s) key of None \<Rightarrow> set_float s key v
      | Some f \<Rightarrow> if f_lt f v then set_float s key v else s)"

datatype aggregate_error = NotAFloat num_error | UnknownMethod aggregate_operation

definition aggregate_float :: "aggregate_set \<Rightarrow> gostr \<Rightarrow> aggregate_operation \<Rightarrow> gostr \<Rightarrow>
    aggregate_set \<times> aggregate_error option" where
  "aggregate_float s key agg v =
     (case parse_float v of
        (_, Some e) \<Rightarrow> (s, Some (NotAFloat e))
      | (f, None) \<Rightarrow>
          if agg \<in> {Sum, Avg, Percentage, Percentile} then (add_float s key f, None)
          else if agg = Min then (add_float_min s key f, None)
          else if agg = Max then (add_float_max s key f, None)
          else (s, Some (UnknownMethod agg)))"

definition aggregate :: "aggregate_set \<Rightarrow> gostr \<Rightarrow> aggregate_operation \<Rightarrow> gostr \<Rightarrow> bool \<Rightarrow>
    aggregate_set \<times> aggregate_error option" where
  "aggregate s key agg v client_aggregation =
     (case agg of
        Count \<Rightarrow>
          if client_aggregation then
            (case parse_float v of (_, Some e) \<Rightarrow> (s, Some (NotAFloat e)) | (f, None) \<Rightarrow> (add_float s key f, None))
          else (add_float s key (Fin 1), None)
      | Last \<Rightarrow> (set_string s key v, None)
      | Len \<Rightarrow> (set_float (set_string s key v) key (f_of_int (int (length v))), None)
      | _ \<Rightarrow> aggregate_float s key agg v)"

text \<open>A missing key reads as 0 or as the empty string.\<close>

definition fvalue :: "aggregate_set \<Rightarrow> gostr \<Rightarrow> float64" where
  "fvalue s key = lookup_zero (Fin 0) (fvalues s) key"

definition svalue :: "aggregate_set \<Rightarrow> gostr \<Rightarrow> gostr" where
  "svalue s key = lookup_zero [] (svalues s) key"

definition merge_one :: "aggregate_set \<Rightarrow> aggregate_set \<Rightarrow> select_condition \<Rightarrow> aggregate_error + aggregate_set" where
  "merge_one s other sc =
     (let storage = field_storage sc in
      case sc_operation sc of
        Count \<Rightarrow> Inr (add_float s storage (fvalue other storage))
      | Sum \<Rightarrow> Inr (add_float s storage (fvalue other storage))
      | Avg \<Rightarrow> Inr (add_float s storage (fvalue other storage))
      | Percentage \<Rightarrow> Inr (add_float s storage (fvalue other storage))
      | Percentile \<Rightarrow> Inr (add_float s storage (fvalue other storage))
      | Min \<Rightarrow> Inr (add_float_min s storage (fvalue other storage))
      | Max \<Rightarrow> Inr (add_float_max s storage (fvalue other storage))
      | Last \<Rightarrow> Inr (set_string s storage (svalue other storage))
      | Len \<Rightarrow> Inr (set_float (set_string s storage (svalue other storage)) storage (fvalue other storage))
      | UndefAggregateOperation \<Rightarrow> Inl (UnknownMethod (sc_operation sc)))"

fun merge_loop :: "aggregate_set \<Rightarrow> aggregate_set \<Rightarrow> select_condition list \<Rightarrow> aggregate_set \<times> aggregate_error option" where
  "merge_loop s other [] = (s, None)"
| "merge_loop s other (sc # scs) =
     (case merge_one s other sc of Inl e \<Rightarrow> (s, Some e) | Inr s' \<Rightarrow> merge_loop s' other scs)"

definition merge_set :: "query \<Rightarrow> aggregate_set \<Rightarrow> aggregate_set \<Rightarrow> aggregate_set \<times> aggregate_error option" where
  "merge_set q s other = merge_loop (s\<lparr>samples := wrap64 (samples s + samples other)\<rparr>) other (q_select q)"

subsection \<open>The message of a set\<close>

definition aggregate_delimiter :: gostr where
  "aggregate_delimiter = [CHR 0xE2, CHR 0x88, CHR 0xA5]"

definition aggregate_kv_delimiter :: gostr where
  "aggregate_kv_delimiter = [CHR 0xE2, CHR 0x89, CHR 0x94]"

definition serialize_float :: "gostr \<times> float64 \<Rightarrow> gostr" where
  "serialize_float kv = fst kv @ aggregate_kv_delimiter @ format_float (snd kv) @ aggregate_delimiter"

definition serialize_string :: "gostr \<times> gostr \<Rightarrow> gostr" where
  "serialize_string kv = fst kv @ aggregate_kv_delimiter @ snd kv @ aggregate_delimiter"

definition serialize_set :: "aggregate_set \<Rightarrow> gostr \<Rightarrow> gostr" where
  "serialize_set s key =
     key @ aggregate_delimiter @ itoa (samples s) @ aggregate_delimiter @
     concat (map serialize_float (fvalues s)) @ concat (map serialize_string (svalues s))"

text \<open>\<open>Serialize\<close>: the messages sent on the channel and whether the send went through.\<close>

definition send_set :: "bool \<Rightarrow> aggregate_set \<Rightarrow> gostr \<Rightarrow> gostr list \<Rightarrow> gostr list \<times> bool" where
  "send_set accepted s key ch = (if accepted then (ch @ [serialize_set s key], True) else (ch, False))"

text \<open>The wrapper with a lock does the same under the lock; a clone has the same entries.\<close>

definition safe_aggregate :: "aggregate_set \<Rightarrow> gostr \<Rightarrow> aggregate_operation \<Rightarrow> gostr \<Rightarrow> bool \<Rightarrow>
    aggregate_set \<times> aggregate_error option" where
  "safe_aggregate s key agg v client = aggregate s key agg v client"

definition increment_samples :: "aggregate_set \<Rightarrow> aggregate_set" where
  "increment_samples s = s\<lparr>samples := wrap64 (samples s + 1)\<rparr>"

definition copy_map :: "('k, 'v) gomap \<Rightarrow> ('k, 'v) gomap" where
  "copy_map m = foldl (\<lambda>c (k, v). AList.update k v c) [] m"

definition clone_set :: "aggregate_set \<Rightarrow> aggregate_set" where
  "clone_set s = \<lparr>samples = samples s, fvalues = copy_map (fvalues s), svalues = copy_map (svalues s)\<rparr>"

definition safe_send_set :: "bool \<Rightarrow> aggregate_set \<Rightarrow> gostr \<Rightarrow> gostr list \<Rightarrow> gostr list \<times> bool" where
  "safe_send_set accepted s key ch = send_set accepted (clone_set s) key ch"

subsection \<open>Group sets\<close>

type_synonym group_set = "(gostr, aggregate_set) gomap"

definition new_group_set :: group_set where
  "new_group_set = []"

definition get_set :: "group_set \<Rightarrow> gostr \<Rightarrow> group_set \<times> aggregate_set" where
  "get_set g key =
     (case map_of g key of Some s \<Rightarrow> (g, s)
      | None \<Rightarrow> (AList.update key new_aggregate_set g, new_aggregate_set))"

text \<open>
  Sending every set, in the order of the map; \<open>accepted key\<close> says whether the send for the
  key goes through. After the first send that does not, nothing is sent any more and the
  remaining sets are returned.
\<close>

definition serialize_step :: "(gostr \<Rightarrow> bool) \<Rightarrow> bool \<times> group_set \<times> gostr list \<Rightarrow> gostr \<times> aggregate_set \<Rightarrow>
    bool \<times> group_set \<times> gostr list" where
  "serialize_step accepted st kv =
     (case st of (aborted, remaining, ch) \<Rightarrow>
        (case kv of (key, other) \<Rightarrow>
           if aborted then (aborted, AList.update key other remaining, ch)
           else case send_set (accepted key) other key ch of
               (ch', True) \<Rightarrow> (aborted, remaining, ch')
             | (ch', False) \<Rightarrow> (True, AList.update key other remaining, ch')))"

definition serialize_group :: "(gostr \<Rightarrow> bool) \<Rightarrow> group_set \<Rightarrow> gostr list \<Rightarrow> group_set \<times> gostr list" where
  "serialize_group accepted g ch = snd (foldl (serialize_step accepted) (False, [], ch) g)"

definition reset_with :: "group_set option \<Rightarrow> group_set" where
  "reset_with sets = (case sets of None \<Rightarrow> [] | Some s \<Rightarrow> s)"

text \<open>The global group set; \<open>sem_held\<close> is whether its one-slot semaphore is taken.\<close>

record global_group_set =
  g_sets :: group_set
  sem_held :: bool

definition new_global_group_set :: global_group_set where
  "new_global_group_set = \<lparr>g_sets = [], sem_held = False\<rparr>"

fun merge_groups :: "query \<Rightarrow> group_set \<Rightarrow> group_set \<Rightarrow> group_set \<times> aggregate_error option" where
  "merge_groups q g [] = (g, None)"
| "merge_groups q g ((key, other) # rest) =
     (case get_set g key of (g', s) \<Rightarrow>
        (case merge_set q s other of
           (s', None) \<Rightarrow> merge_groups q (AList.update key s' g') rest
         | (s', Some e) \<Rightarrow> (AList.update key s' g', Some e)))"

definition global_merge :: "query \<Rightarrow> global_group_set \<Rightarrow> group_set \<Rightarrow> global_group_set \<times> aggregate_error option" where
  "global_merge q g new =
     (case merge_groups q (g_sets g) new of (gs, e) \<Rightarrow> (g\<lparr>g_sets := gs, sem_held := False\<rparr>, e))"

definition merge_noblock :: "query \<Rightarrow> global_group_set \<Rightarrow> group_set \<Rightarrow>
    global_group_set \<times> bool \<times> aggregate_error option" where
  "merge_noblock q g new =
     (if sem_held g then (g, False, None)
      else case global_merge q g new of (g', e) \<Rightarrow> (g', True, e))"

definition num_sets :: "global_group_set \<Rightarrow> nat" where
  "num_sets g = length (g_sets g)"

definition global_is_empty :: "global_group_set \<Rightarrow> bool" where
  "global_is_empty g = (num_sets g = 0)"

definition swap_out :: "global_group_set \<Rightarrow> global_group_set \<times> group_set" where
  "swap_out g = (g\<lparr>g_sets := []\<rparr>, g_sets g)"

subsection \<open>Well-formed sets\<close>

definition set_ok :: "aggregate_set \<Rightarrow> bool" where
  "set_ok s = (gomap_wf (fvalues s) \<and> gomap_wf (svalues s) \<and> (\<forall>v\<in>snd ` set (fvalues s). is_f64 v))"

lemma new_aggregate_set_ok [simp]: "set_ok new_aggregate_set"
  by (simp add: set_ok_def new_aggregate_set_def)

lemma set_ok_lookup: "set_ok s \<Longrightarrow> map_of (fvalues s) k = Some v \<Longrightarrow> is_f64 v"
  by (force simp: set_ok_def dest: map_of_SomeD)

lemma set_ok_iff: "set_ok s \<longleftrightarrow> gomap_wf (fvalues s) \<and> gomap_wf (svalues s) \<and>
    (\<forall>k v. map_of (fvalues s) k = Some v \<longrightarrow> is_f64 v)"
  by (force simp: set_ok_def)

lemma parse_float_is_f64: "parse_float s = (v, None) \<Longrightarrow> is_f64 v"
  by (auto simp: parse_float_def parse_special_def float_result_def signed_zero_def signed_inf_def round64_is_f64 Let_def
      split: option.splits if_splits prod.splits list.splits)

lemma set_float_ok [simp]: "set_ok s \<Longrightarrow> is_f64 v \<Longrightarrow> set_ok (set_float s k v)"
  by (auto simp: set_ok_iff set_float_def split: if_splits)

lemma set_string_ok [simp]: "set_ok s \<Longrightarrow> set_ok (set_string s k v)"
  by (simp add: set_ok_def set_string_def)

lemma add_float_ok [simp]: "set_ok s \<Longrightarrow> is_f64 v \<Longrightarrow> set_ok (add_float s k v)"
  by (auto simp: add_float_def f_add_is_f64 split: option.splits)

lemma add_float_min_ok [simp]: "set_ok s \<Longrightarrow> is_f64 v \<Longrightarrow> set_ok (add_float_min s k v)"
  by (auto simp: add_float_min_def split: option.splits)

lemma add_float_max_ok [simp]: "set_ok s \<Longrightarrow> is_f64 v \<Longrightarrow> set_ok (add_float_max s k v)"
  by (auto simp: add_float_max_def split: option.splits)

lemma samples_ok [simp]: "set_ok (s\<lparr>samples := n\<rparr>) = set_ok s"
  by (simp add: set_ok_def)

lemma is_f64_one: "is_f64 (Fin 1)"
  using is_f64_int[of 1] by simp

lemma aggregate_ok: "set_ok s \<Longrightarrow> set_ok (fst (aggregate s key agg v client))"
  by (auto simp: aggregate_def aggregate_float_def is_f64_one f_of_int_is_f64 dest: parse_float_is_f64
      split: aggregate_operation.splits option.splits prod.splits)

lemma fvalue_is_f64: "set_ok s \<Longrightarrow> is_f64 (fvalue s k)"
  by (auto simp: fvalue_def lookup_zero_def split: option.splits dest: set_ok_lookup)

lemma merge_one_ok: "merge_one s other sc = Inr s' \<Longrightarrow> set_ok s \<Longrightarrow> set_ok other \<Longrightarrow> set_ok s'"
  by (auto simp: merge_one_def Let_def fvalue_is_f64 split: aggregate_operation.splits)

lemma merge_loop_ok: "set_ok s \<Longrightarrow> set_ok other \<Longrightarrow> set_ok (fst (merge_loop s other scs))"
  by (induction scs arbitrary: s) (auto split: sum.splits dest: merge_one_ok)

lemma merge_set_ok: "set_ok s \<Longrightarrow> set_ok other \<Longrightarrow> set_ok (fst (merge_set q s other))"
  by (simp add: merge_set_def merge_loop_ok)

definition group_ok :: "group_set \<Rightarrow> bool" where
  "group_ok g = (gomap_wf g \<and> (\<forall>s\<in>snd ` set g. set_ok s))"

lemma group_ok_iff: "group_ok g \<longleftrightarrow> gomap_wf g \<and> (\<forall>k s. map_of g k = Some s \<longrightarrow> set_ok s)"
  by (force simp: group_ok_def)

lemma group_ok_update: "group_ok g \<Longrightarrow> set_ok s \<Longrightarrow> group_ok (AList.update k s g)"
  by (auto simp: group_ok_iff split: if_splits)

lemma get_set_ok: "get_set g key = (g', s) \<Longrightarrow> group_ok g \<Longrightarrow> group_ok g' \<and> set_ok s"
  by (auto simp: get_set_def group_ok_update group_ok_iff[THEN iffD1] split: option.splits)

lemma merge_groups_ok:
  "group_ok g \<Longrightarrow> \<forall>s\<in>snd ` set h. set_ok s \<Longrightarrow> group_ok (fst (merge_groups q g h))"
proof (induction q g h rule: merge_groups.induct)
  case (2 q g key other rest)
  obtain g' s where g: "get_set g key = (g', s)" by fastforce
  obtain s' e where m: "merge_set q s other = (s', e)" by fastforce
  have ok: "group_ok g'" "set_ok s'"
    using get_set_ok[OF g 2(2)] merge_set_ok[of s other q] 2(3) m by auto
  then show ?case using 2 g m by (cases e) (simp_all add: group_ok_update)
qed simp

subsection \<open>Aggregating many values\<close>

definition aggregate_run :: "aggregate_set \<Rightarrow> gostr \<Rightarrow> aggregate_operation \<Rightarrow> gostr list \<Rightarrow> aggregate_set" where
  "aggregate_run s key agg vs = foldl (\<lambda>s v. fst (aggregate s key agg v False)) s vs"

lemma aggregate_run_Cons [simp]:
  "aggregate_run s key agg (v # vs) = aggregate_run (fst (aggregate s key agg v False)) key agg vs"
  by (simp add: aggregate_run_def)

lemma aggregate_run_Nil [simp]: "aggregate_run s key agg [] = s"
  by (simp add: aggregate_run_def)

lemma aggregate_run_append: "aggregate_run s key agg (vs @ ws) = aggregate_run (aggregate_run s key agg vs) key agg ws"
  by (simp add: aggregate_run_def)

lemma map_of_set_float [simp]:
  "map_of (fvalues (set_float s k v)) k' = (if k' = k then Some v else map_of (fvalues s) k')"
  "svalues (set_float s k v) = svalues s" "samples (set_float s k v) = samples s"
  by (simp_all add: set_float_def)

lemma map_of_set_string [simp]:
  "map_of (svalues (set_string s k v)) k' = (if k' = k then Some v else map_of (svalues s) k')"
  "fvalues (set_string s k v) = fvalues s" "samples (set_string s k v) = samples s"
  by (simp_all add: set_string_def)

lemma map_of_add_float:
  "map_of (fvalues (add_float s k v)) k' =
     (if k' = k then Some (case map_of (fvalues s) k of None \<Rightarrow> v | Some f \<Rightarrow> f_add f v) else map_of (fvalues s) k')"
  by (simp add: add_float_def split: option.splits)

lemma count_run:
  assumes "int n + int (length vs) < 2 ^ 53" and "map_of (fvalues s) key = Some (Fin (of_nat n))"
  shows "map_of (fvalues (aggregate_run s key Count vs)) key = Some (Fin (of_nat (n + length vs)))"
  using assms
proof (induction vs arbitrary: n s)
  case (Cons v vs)
  have "f_add (Fin (of_nat n)) (Fin 1) = Fin (of_nat (n + 1))"
    using f_add_int[of "int n" 1] Cons.prems(1) by simp
  then show ?case
    using Cons.IH[of "n + 1" "add_float s key (Fin 1)"] Cons.prems
    by (simp add: aggregate_def map_of_add_float)
qed simp


subsection \<open>Properties\<close>

lemma count_run_other:
  "k \<noteq> key \<Longrightarrow> map_of (fvalues (aggregate_run s key Count vs)) k = map_of (fvalues s) k"
  by (induction vs arbitrary: s) (simp_all add: aggregate_def map_of_add_float)

text \<open>
  Counting is exact. After \<open>n\<close> lines, fewer than \<open>2 ^ 53\<close> of them, the column of a
  \<open>count\<close> holds the number \<open>n\<close>, whatever the values were, and no other column has changed.
\<close>

theorem count_exact:
  assumes "length vs < 2 ^ 53" and "vs \<noteq> []" and "map_of (fvalues s) key = None"
  shows "fvalue (aggregate_run s key Count vs) key = Fin (of_nat (length vs)) \<and>
    (\<forall>k. k \<noteq> key \<longrightarrow> fvalue (aggregate_run s key Count vs) k = fvalue s k)"
proof -
  obtain v ws where vs: "vs = v # ws" using assms(2) by (cases vs) auto
  have "map_of (fvalues (add_float s key (Fin 1))) key = Some (Fin (of_nat 1))"
    using assms(3) by (simp add: map_of_add_float)
  moreover have "int 1 + int (length ws) < 2 ^ 53" using assms(1) by (simp add: vs)
  ultimately have "map_of (fvalues (aggregate_run (add_float s key (Fin 1)) key Count ws)) key =
      Some (Fin (of_nat (1 + length ws)))"
    by (intro count_run)
  then show ?thesis by (simp add: vs aggregate_def fvalue_def lookup_zero_def count_run_other map_of_add_float)
qed

lemma count_exact_witness: "fvalue (aggregate_run new_aggregate_set ''n'' Count [''a'', ''b'', ''c'']) ''n'' = Fin 3"
  using count_exact[of "[''a'', ''b'', ''c'']" new_aggregate_set "''n''"] by (simp add: new_aggregate_set_def)

lemma min_run:
  assumes "map_of (fvalues s) key = Some m" and "m \<noteq> NaN" and "\<forall>v\<in>set vs. \<exists>f. parse_float v = (f, None) \<and> f \<noteq> NaN"
  shows "\<exists>r. map_of (fvalues (aggregate_run s key Min vs)) key = Some r \<and> r \<noteq> NaN \<and> \<not> f_lt m r \<and>
    r \<in> insert m (fst ` parse_float ` set vs) \<and> (\<forall>v\<in>set vs. \<not> f_lt (fst (parse_float v)) r)"
  using assms
proof (induction vs arbitrary: s m)
  case (Cons v vs)
  then obtain f where f: "parse_float v = (f, None)" "f \<noteq> NaN" by auto
  define m' where "m' = (if f_lt f m then f else m)"
  have s': "map_of (fvalues (fst (aggregate s key Min v False))) key = Some m'"
    using Cons.prems(1) f by (simp add: aggregate_def aggregate_float_def add_float_min_def m'_def)
  have m': "m' \<noteq> NaN" "\<not> f_lt m m'" "\<not> f_lt f m'"
    using f(2) Cons.prems(2) f_lt_asym by (auto simp: m'_def)
  from Cons.IH[OF s' m'(1)] Cons.prems(3) obtain r where r:
    "map_of (fvalues (aggregate_run s key Min (v # vs))) key = Some r" "r \<noteq> NaN" "\<not> f_lt m' r"
    "r \<in> insert m' (fst ` parse_float ` set vs)" "\<forall>v\<in>set vs. \<not> f_lt (fst (parse_float v)) r" by auto
  have "\<not> f_lt m r" "\<not> f_lt f r" using f_not_lt_trans[of m' _ r] m' r(3) by blast+
  moreover have "r \<in> insert m (fst ` parse_float ` set (v # vs))"
    using r(4) f by (auto simp: m'_def)
  ultimately show ?case using r f by auto
qed simp

text \<open>
  A minimum is a minimum. Over values that all read as numbers (NaN apart), the column of
  a \<open>min\<close> holds one of them and none of them is smaller.
\<close>

theorem min_is_minimum:
  assumes "map_of (fvalues s) key = None" and "vs \<noteq> []"
    and "\<forall>v\<in>set vs. \<exists>f. parse_float v = (f, None) \<and> f \<noteq> NaN"
  shows "fvalue (aggregate_run s key Min vs) key \<in> fst ` parse_float ` set vs \<and>
    (\<forall>v\<in>set vs. \<not> f_lt (fst (parse_float v)) (fvalue (aggregate_run s key Min vs) key))"
proof -
  obtain v ws where vs: "vs = v # ws" using assms(2) by (cases vs) auto
  obtain f where f: "parse_float v = (f, None)" "f \<noteq> NaN" using assms(3) vs by auto
  have first: "map_of (fvalues (fst (aggregate s key Min v False))) key = Some f"
    using assms(1) f by (simp add: aggregate_def aggregate_float_def add_float_min_def)
  have rest: "\<forall>v\<in>set ws. \<exists>f. parse_float v = (f, None) \<and> f \<noteq> NaN" using assms(3) vs by simp
  from min_run[OF first f(2) rest, folded aggregate_run_Cons vs] obtain r where
    "map_of (fvalues (aggregate_run s key Min vs)) key = Some r" "\<not> f_lt f r"
    "r \<in> insert f (fst ` parse_float ` set ws)" "\<forall>v\<in>set ws. \<not> f_lt (fst (parse_float v)) r"
    by blast
  then show ?thesis using f by (auto simp: vs fvalue_def)
qed

lemma min_is_minimum_witness:
  "\<not> f_lt (fst (parse_float ''3'')) (fvalue (aggregate_run new_aggregate_set ''m'' Min [''7'', ''3'']) ''m'')"
proof -
  have "parse_float (show_decimal 7 0) = (Fin 7, None)" "parse_float (show_decimal 3 0) = (Fin 3, None)"
    using round64_int[of 7] round64_int[of 3]
    by (simp_all add: parse_show_decimal float_result_def decimal_value_def f_is_inf_def)
  then have "parse_float ''7'' = (Fin 7, None)" "parse_float ''3'' = (Fin 3, None)"
    by (simp_all add: show_decimal_def show_nat.simps digit_char_def)
  then show ?thesis
    using min_is_minimum[of new_aggregate_set "''m''" "[''7'', ''3'']"] by (simp add: new_aggregate_set_def)
qed

text \<open>
  Merging a set that has no value for a \<open>min\<close> column reads the missing value as 0, so it
  replaces every positive minimum by 0: the result is no longer the minimum of the data.
\<close>

theorem merge_missing_min_resets:
  assumes "q_select q = [\<lparr>sc_field = f, field_storage = k, sc_operation = Min\<rparr>]"
    and "map_of (fvalues s) k = Some (Fin m)" and "0 < m" and "map_of (fvalues other) k = None"
  shows "snd (merge_set q s other) = None \<and> fvalue (fst (merge_set q s other)) k = Fin 0"
  using assms by (simp add: merge_set_def merge_one_def add_float_min_def fvalue_def)

lemma merge_missing_min_resets_witness:
  "fvalue (fst (merge_set ((initial_query ''q'')\<lparr>q_select := [\<lparr>sc_field = ''x'', field_storage = ''min(x)'', sc_operation = Min\<rparr>]\<rparr>)
     \<lparr>samples = 1, fvalues = [(''min(x)'', Fin 5)], svalues = []\<rparr> new_aggregate_set)) ''min(x)'' = Fin 0"
  using merge_missing_min_resets[of "(initial_query ''q'')\<lparr>q_select := [\<lparr>sc_field = ''x'', field_storage = ''min(x)'', sc_operation = Min\<rparr>]\<rparr>"
      "''x''" "''min(x)''" "\<lparr>samples = 1, fvalues = [(''min(x)'', Fin 5)], svalues = []\<rparr>" 5 new_aggregate_set]
  by (simp add: new_aggregate_set_def)

lemma serialize_fold_aborted:
  "snd (foldl (serialize_step acc) (True, rem, ch) g) = (foldl (\<lambda>r (k, s). AList.update k s r) rem g, ch)"
  by (induction g arbitrary: rem) (auto simp: serialize_step_def)

lemma foldl_update_fresh_gen:
  "gomap_wf (r @ g) \<Longrightarrow> foldl (\<lambda>r (k, s). AList.update k s r) r g = r @ g"
proof (induction g arbitrary: r)
  case (Cons kv g)
  obtain k v where kv: "kv = (k, v)" by (cases kv)
  have "k \<notin> fst ` set r" using Cons.prems by (auto simp: kv)
  then have "AList.update k v r = r @ [(k, v)]" by (induction r) auto
  with Cons.IH[of "r @ [(k, v)]"] Cons.prems show ?case by (simp add: kv)
qed simp

lemma serialize_group_split:
  assumes "gomap_wf g"
  shows "\<exists>n. serialize_group acc g ch = (drop n g, ch @ map (\<lambda>(k, s). serialize_set s k) (take n g)) \<and>
    (\<forall>(k, s)\<in>set (take n g). acc k)"
  using assms
proof (induction g arbitrary: ch)
  case Nil
  then show ?case by (simp add: serialize_group_def)
next
  case (Cons kv g)
  obtain k s where kv: "kv = (k, s)" by (cases kv)
  show ?case
  proof (cases "acc k")
    case True
    from Cons.IH[of "ch @ [serialize_set s k]"] Cons.prems obtain n where
      "serialize_group acc g (ch @ [serialize_set s k]) =
         (drop n g, (ch @ [serialize_set s k]) @ map (\<lambda>(k, s). serialize_set s k) (take n g))"
      "\<forall>(k, s)\<in>set (take n g). acc k" by auto
    with True show ?thesis
      by (intro exI[of _ "Suc n"]) (simp add: serialize_group_def serialize_step_def send_set_def kv)
  next
    case False
    then have "serialize_group acc (kv # g) ch = (foldl (\<lambda>r (k, s). AList.update k s r) [(k, s)] g, ch)"
      by (simp add: serialize_group_def serialize_step_def send_set_def kv serialize_fold_aborted)
    with foldl_update_fresh_gen[of "[(k, s)]" g] Cons.prems show ?thesis by (intro exI[of _ 0]) (simp add: kv)
  qed
qed

text \<open>
  Sending a group set loses no group. Whatever sends are refused, the messages sent are
  those of the first sets of the map, in order, and exactly the other sets are returned as
  remaining.
\<close>

theorem serialize_group_loses_nothing:
  assumes "gomap_wf g"
  shows "\<exists>n. serialize_group acc g ch = (drop n g, ch @ map (\<lambda>(k, s). serialize_set s k) (take n g)) \<and>
    (\<forall>(k, s)\<in>set (take n g). acc k)"
  by (rule serialize_group_split) (fact assms)

lemma serialize_group_loses_nothing_witness:
  "\<exists>n. fst (serialize_group (\<lambda>k. k = ''a'') [(''a'', new_aggregate_set), (''b'', new_aggregate_set)] []) =
     drop n [(''a'', new_aggregate_set), (''b'', new_aggregate_set)]"
  using serialize_group_loses_nothing[of "[(''a'', new_aggregate_set), (''b'', new_aggregate_set)]" "\<lambda>k. k = ''a''" "[]"]
  by (auto simp del: drop_Cons')

end
