(* ===== verification/Line_Processor.thy ===== *)
theory Line_Processor
  imports GoNumbers
begin

text \<open>
  The interface \<open>line.Processor\<close> (\<open>internal/io/line/processor.go\<close>) between the readers and
  filters that select lines and the processors that consume them. A processor is observed
  through a view that a line changes in a fixed way, so a client can reason about what
  reaches the processor without knowing how the processor buffers it.
\<close>

type_synonym line_event = "gostr \<times> uint64 \<times> gostr"

locale line_processor =
  fixes process :: "'p \<Rightarrow> gostr \<Rightarrow> uint64 \<Rightarrow> gostr \<Rightarrow> 'p \<times> 'e option"
    and is_open :: "'p \<Rightarrow> bool"
    and observe :: "'p \<Rightarrow> 'o"
    and observe_line :: "'o \<Rightarrow> gostr \<Rightarrow> uint64 \<Rightarrow> gostr \<Rightarrow> 'o"
  assumes process_open: "is_open p \<Longrightarrow> process p l n s = (p', None) \<Longrightarrow> is_open p'"
    and process_observe: "is_open p \<Longrightarrow> process p l n s = (p', None) \<Longrightarrow> observe p' = observe_line (observe p) l n s"
begin

primrec process_all :: "'p \<Rightarrow> line_event list \<Rightarrow> 'p \<times> 'e option" where
  "process_all p [] = (p, None)"
| "process_all p (x # xs) =
     (case process p (fst x) (fst (snd x)) (snd (snd x)) of
        (p', None) \<Rightarrow> process_all p' xs
      | (p', Some e) \<Rightarrow> (p', Some e))"

definition observe_all :: "'o \<Rightarrow> line_event list \<Rightarrow> 'o" where
  "observe_all v xs = foldl (\<lambda>v x. observe_line v (fst x) (fst (snd x)) (snd (snd x))) v xs"

lemma observe_all_simps [simp]:
  "observe_all v [] = v"
  "observe_all v (x # xs) = observe_all (observe_line v (fst x) (fst (snd x)) (snd (snd x))) xs"
  "observe_all v (xs @ ys) = observe_all (observe_all v xs) ys"
  by (simp_all add: observe_all_def)

lemma process_all_append:
  "process_all p (xs @ ys) =
     (case process_all p xs of (p', None) \<Rightarrow> process_all p' ys | (p', Some e) \<Rightarrow> (p', Some e))"
  by (induction xs arbitrary: p) (auto split: prod.splits option.splits)

lemma process_all_observe:
  assumes "is_open p" and "process_all p xs = (p', None)"
  shows "is_open p' \<and> observe p' = observe_all (observe p) xs"
  using assms
proof (induction xs arbitrary: p)
  case (Cons x xs)
  obtain l n s where x: "x = (l, n, s)" by (cases x)
  obtain p1 where p1: "process p l n s = (p1, None)" "process_all p1 xs = (p', None)"
    using Cons.prems(2) by (auto simp: x split: prod.splits option.splits)
  show ?case
    using Cons.IH[OF process_open[OF Cons.prems(1) p1(1)] p1(2)] process_observe[OF Cons.prems(1) p1(1)]
    by (simp add: x)
qed simp

end

text \<open>A processor that takes every line.\<close>

locale reliable_processor = line_processor +
  assumes process_ok: "is_open p \<Longrightarrow> snd (process p l n s) = None"


end
