(* ===== verification/Map_Server.thy ===== *)
theory Map_Server
  imports Aggregates Logformat Line_Processor
begin

text \<open>
  The server side of a mapreduce query (\<open>internal/mapr/server\<close>): the group key, the
  evaluation of a line, the batches, the serialization with the merge of what could not be
  sent, and the processor that feeds lines to the aggregate. A call of \<open>MakeFields\<close> that
  does not return leaves no state: the operations that reach it return \<open>None\<close>.
\<close>

subsection \<open>Group keys and lines\<close>

definition build_group_key :: "gostr list \<Rightarrow> field_map \<Rightarrow> gostr" where
  "build_group_key groups fs = join '','' (map (lookup_zero [] fs) groups)"

text \<open>
  The loop of \<open>aggregate\<close> over the selected columns; the flags say whether a set has been
  looked up and whether a sample has been added.
\<close>

fun aggregate_columns :: "gostr \<Rightarrow> field_map \<Rightarrow> select_condition list \<Rightarrow> group_set \<Rightarrow> bool \<Rightarrow> group_set \<times> bool" where
  "aggregate_columns key fs [] g added = (g, added)"
| "aggregate_columns key fs (sc # scs) g added =
     (case map_of fs (sc_field sc) of
        None \<Rightarrow> aggregate_columns key fs scs g added
      | Some v \<Rightarrow>
          (case get_set g key of (g', s) \<Rightarrow>
             (case aggregate s (field_storage sc) (sc_operation sc) v False of
                (s', None) \<Rightarrow> aggregate_columns key fs scs (AList.update key s' g') True
              | (s', Some e) \<Rightarrow> aggregate_columns key fs scs (AList.update key s' g') added)))"

definition aggregate_fields :: "query \<Rightarrow> group_set \<Rightarrow> field_map \<Rightarrow> group_set" where
  "aggregate_fields q g fs =
     (let key = build_group_key (group_by q) fs in
      case aggregate_columns key fs (q_select q) g False of
        (g', added) \<Rightarrow>
          if added then
            (case map_of g' key of Some s \<Rightarrow> AList.update key (increment_samples s) g' | None \<Rightarrow> g')
          else g')"

definition process_line :: "query \<Rightarrow> log_parser \<Rightarrow> group_set \<Rightarrow> gostr \<Rightarrow> gostr \<Rightarrow>
    (log_parser \<times> group_set \<times> log_error option) option" where
  "process_line q p g line src =
     (case make_fields p (trim_space line) src of
        None \<Rightarrow> None
      | Some (p', Inl e) \<Rightarrow> Some (p', g, if e \<noteq> IgnoreFields then Some e else None)
      | Some (p', Inr fs) \<Rightarrow>
          if \<not> where_clause q fs then Some (p', g, None)
          else Some (p', aggregate_fields q g (if q_set q \<noteq> [] then set_clause q fs else fs), None))"

subsection \<open>The aggregate\<close>

record server_aggregate =
  sa_done :: bool
  sa_input_finished :: bool
  sa_hostname :: gostr
  sa_query :: query
  sa_parser :: log_parser
  sa_groups :: group_set
  sa_batch :: "(gostr \<times> gostr) list"
  sa_batch_size :: nat
  sa_messages :: "gostr list option"
  lines_processed :: uint64
  sa_errors :: uint64
  files_processed :: uint64
  processors_wg :: nat
  active_processors :: int

text \<open>
  \<open>NewAggregate\<close>: the first parser that is created without an error; the stubs and unknown
  formats fall back to \<open>generic\<close>. An empty query makes the code dereference a nil pointer,
  and a registry without a working \<open>generic\<close> makes it panic.
\<close>

datatype aggregate_start = QueryError query_error | NilQuery | ParserPanic new_parser_error

definition new_aggregate :: "parser_registry \<Rightarrow> gostr \<Rightarrow> gostr \<Rightarrow> int \<Rightarrow> gostr \<Rightarrow> gostr \<Rightarrow> aggregate_start + server_aggregate" where
  "new_aggregate reg fqdn tz off query_str default_log_format =
     (case new_query query_str of
        Inl e \<Rightarrow> Inl (QueryError e)
      | Inr None \<Rightarrow> Inl NilQuery
      | Inr (Some q) \<Rightarrow>
          let fallback = (case new_parser reg fqdn tz off ''generic'' (Some q) of
                (Some p, None) \<Rightarrow> Inr p | (_, Some e) \<Rightarrow> Inl (ParserPanic e)
              | (None, None) \<Rightarrow> Inl NilQuery);
              parser = (case new_parser reg fqdn tz off (effective_log_format (Some q) default_log_format) (Some q) of
                (Some p, None) \<Rightarrow> Inr p | _ \<Rightarrow> fallback)
          in and_then parser (\<lambda>p. Inr
               \<lparr>sa_done = False, sa_input_finished = False, sa_hostname = hd (split ''.'' fqdn), sa_query = q,
                sa_parser = p, sa_groups = [], sa_batch = [], sa_batch_size = 100, sa_messages = None,
                lines_processed = 0, sa_errors = 0, files_processed = 0, processors_wg = 0,
                active_processors = 0\<rparr>))"

definition count_groups :: "server_aggregate \<Rightarrow> nat" where
  "count_groups a = length (sa_groups a)"

text \<open>What a batch works on: the parser, the groups and the error counter.\<close>

type_synonym batch_view = "log_parser \<times> group_set \<times> uint64"

definition batch_step :: "query \<Rightarrow> batch_view \<Rightarrow> gostr \<Rightarrow> gostr \<Rightarrow> batch_view option" where
  "batch_step q v line src =
     (case v of (p, g, errs) \<Rightarrow>
        (case process_line q p g line src of
           None \<Rightarrow> None
         | Some (p', g', e) \<Rightarrow> Some (p', g', if e = None then errs else errs + 1)))"

fun process_raw_batch :: "query \<Rightarrow> batch_view \<Rightarrow> (gostr \<times> gostr) list \<Rightarrow> batch_view option" where
  "process_raw_batch q v [] = Some v"
| "process_raw_batch q v ((line, src) # rest) =
     (case batch_step q v line src of None \<Rightarrow> None | Some v' \<Rightarrow> process_raw_batch q v' rest)"

text \<open>\<open>takeBatch\<close> and \<open>processRawBatch\<close>: \<open>processBatch\<close> and \<open>processBatchAndWait\<close> are the same.\<close>

definition view_of :: "server_aggregate \<Rightarrow> batch_view" where
  "view_of a = (sa_parser a, sa_groups a, sa_errors a)"

definition process_batch :: "server_aggregate \<Rightarrow> server_aggregate option" where
  "process_batch a =
     (case process_raw_batch (sa_query a) (view_of a) (sa_batch a) of
        None \<Rightarrow> None
      | Some (p, g, errs) \<Rightarrow> Some (a\<lparr>sa_batch := [], sa_parser := p, sa_groups := g, sa_errors := errs\<rparr>))"

definition process_line_direct :: "server_aggregate \<Rightarrow> gostr \<Rightarrow> gostr \<Rightarrow> server_aggregate option" where
  "process_line_direct a line src =
     (if sa_done a then Some a
      else
        let a' = a\<lparr>lines_processed := lines_processed a + 1, sa_batch := sa_batch a @ [(line, src)]\<rparr>
        in if sa_batch_size a' \<le> length (sa_batch a') then process_batch a' else Some a')"

subsection \<open>Serialization\<close>

definition merge_cancelled_column :: "aggregate_set \<Rightarrow> aggregate_set \<Rightarrow> select_condition \<Rightarrow> aggregate_set" where
  "merge_cancelled_column snapshot live sc =
     (let st = field_storage sc in
      case sc_operation sc of
        Count \<Rightarrow> set_float live st (f_add (fvalue live st) (fvalue snapshot st))
      | Sum \<Rightarrow> set_float live st (f_add (fvalue live st) (fvalue snapshot st))
      | Avg \<Rightarrow> set_float live st (f_add (fvalue live st) (fvalue snapshot st))
      | Percentage \<Rightarrow> set_float live st (f_add (fvalue live st) (fvalue snapshot st))
      | Percentile \<Rightarrow> set_float live st (f_add (fvalue live st) (fvalue snapshot st))
      | Min \<Rightarrow>
          (case map_of (fvalues live) st of None \<Rightarrow> set_float live st (fvalue snapshot st)
           | Some v \<Rightarrow> if f_lt (fvalue snapshot st) v then set_float live st (fvalue snapshot st) else live)
      | Max \<Rightarrow>
          (case map_of (fvalues live) st of None \<Rightarrow> set_float live st (fvalue snapshot st)
           | Some v \<Rightarrow> if f_lt v (fvalue snapshot st) then set_float live st (fvalue snapshot st) else live)
      | Last \<Rightarrow>
          (case map_of (svalues live) st of Some _ \<Rightarrow> live
           | None \<Rightarrow> (case map_of (svalues snapshot) st of Some v \<Rightarrow> set_string live st v | None \<Rightarrow> live))
      | Len \<Rightarrow>
          (case map_of (svalues live) st of Some _ \<Rightarrow> live
           | None \<Rightarrow>
               (case map_of (svalues snapshot) st of
                  Some v \<Rightarrow> set_float (set_string live st v) st (fvalue snapshot st) | None \<Rightarrow> live))
      | UndefAggregateOperation \<Rightarrow> live)"

definition merge_cancelled_snapshot :: "query \<Rightarrow> aggregate_set \<Rightarrow> aggregate_set \<Rightarrow> aggregate_set" where
  "merge_cancelled_snapshot q live snapshot =
     foldl (merge_cancelled_column snapshot)
       (live\<lparr>samples := wrap64 (samples live + samples snapshot)\<rparr>) (q_select q)"

definition merge_remaining_step :: "query \<Rightarrow> group_set \<Rightarrow> gostr \<times> aggregate_set \<Rightarrow> group_set" where
  "merge_remaining_step q g kv =
     (case map_of g (fst kv) of
        None \<Rightarrow> AList.update (fst kv) (snd kv) g
      | Some live \<Rightarrow> AList.update (fst kv) (merge_cancelled_snapshot q live (snd kv)) g)"

definition merge_remaining :: "query \<Rightarrow> group_set \<Rightarrow> group_set \<Rightarrow> group_set" where
  "merge_remaining q g remaining = foldl (merge_remaining_step q) g remaining"

text \<open>
  \<open>doSerialize\<close>. Lines may be aggregated by other goroutines between the swap of the group
  sets and the merge of the remaining ones; \<open>arrived\<close> is what they have put into the fresh
  group sets by then.
\<close>

definition do_serialize :: "(gostr \<Rightarrow> bool) \<Rightarrow> group_set \<Rightarrow> server_aggregate \<Rightarrow> server_aggregate option" where
  "do_serialize accepted arrived a =
     (case process_batch a of
        None \<Rightarrow> None
      | Some a1 \<Rightarrow>
          (case sa_messages a1 of
             None \<Rightarrow> Some a1
           | Some ch \<Rightarrow>
               if sa_groups a1 = [] then Some a1
               else
                 case serialize_group accepted (copy_map (sa_groups a1)) ch of
                   (remaining, ch') \<Rightarrow>
                     Some (a1\<lparr>sa_messages := Some ch',
                              sa_groups := (if remaining = [] then arrived
                                            else merge_remaining (sa_query a1) arrived remaining)\<rparr>)))"

text \<open>\<open>Shutdown\<close> waits for the processors; \<open>None\<close> is that it has not come back yet.\<close>

definition shutdown :: "(gostr \<Rightarrow> bool) \<Rightarrow> server_aggregate \<Rightarrow> server_aggregate option" where
  "shutdown accepted a =
     (let a' = a\<lparr>sa_done := True\<rparr> in
      if processors_wg a' \<noteq> 0 then None
      else case process_batch a' of None \<Rightarrow> None | Some a2 \<Rightarrow> do_serialize accepted [] a2)"

definition abort :: "server_aggregate \<Rightarrow> server_aggregate" where
  "abort a = a\<lparr>sa_done := True\<rparr>"

definition finish_input :: "server_aggregate \<Rightarrow> server_aggregate" where
  "finish_input a = a\<lparr>sa_input_finished := True\<rparr>"

subsection \<open>The processor of an aggregate\<close>

record aggregate_processor =
  ap_aggregate :: server_aggregate
  ap_flushed :: bool
  ap_closed :: bool

definition new_aggregate_processor :: "server_aggregate \<Rightarrow> aggregate_processor" where
  "new_aggregate_processor a =
     \<lparr>ap_aggregate = a\<lparr>processors_wg := processors_wg a + 1, active_processors := active_processors a + 1\<rparr>,
      ap_flushed = False, ap_closed = False\<rparr>"

definition ap_process_line :: "aggregate_processor \<Rightarrow> gostr \<Rightarrow> gostr \<Rightarrow> aggregate_processor option" where
  "ap_process_line p line src =
     (if sa_done (ap_aggregate p) then Some p
      else map_option (\<lambda>a. p\<lparr>ap_aggregate := a\<rparr>) (process_line_direct (ap_aggregate p) line src))"

definition ap_flush :: "aggregate_processor \<Rightarrow> aggregate_processor option" where
  "ap_flush p =
     (if sa_done (ap_aggregate p) \<or> ap_flushed p then Some p
      else map_option (\<lambda>a. p\<lparr>ap_aggregate := a\<lparr>files_processed := files_processed a + 1\<rparr>, ap_flushed := True\<rparr>)
             (process_batch (ap_aggregate p)))"

definition ap_close :: "aggregate_processor \<Rightarrow> aggregate_processor option" where
  "ap_close p =
     (case ap_flush p of None \<Rightarrow> None
      | Some p' \<Rightarrow>
          if ap_closed p' then Some p'
          else Some (p'\<lparr>ap_aggregate := (ap_aggregate p')\<lparr>
                   active_processors := active_processors (ap_aggregate p') - 1,
                   processors_wg := processors_wg (ap_aggregate p') - 1\<rparr>, ap_closed := True\<rparr>))"

subsection \<open>Batching is transparent\<close>

text \<open>
  The processor as the line interface sees it: \<open>None\<close> is a processor whose parser never came
  back. Its view is what the aggregate will hold once the pending batch is processed.
\<close>

definition aggregate_process :: "aggregate_processor option \<Rightarrow> gostr \<Rightarrow> uint64 \<Rightarrow> gostr \<Rightarrow>
    aggregate_processor option \<times> unit option" where
  "aggregate_process po line n src = (Option.bind po (\<lambda>p. ap_process_line p line src), None)"

definition aggregate_open :: "query \<Rightarrow> aggregate_processor option \<Rightarrow> bool" where
  "aggregate_open q po = (\<forall>p. po = Some p \<longrightarrow> \<not> sa_done (ap_aggregate p) \<and> sa_query (ap_aggregate p) = q)"

definition aggregate_view :: "aggregate_processor option \<Rightarrow> batch_view option" where
  "aggregate_view po =
     (case po of None \<Rightarrow> None
      | Some p \<Rightarrow> process_raw_batch (sa_query (ap_aggregate p)) (view_of (ap_aggregate p)) (sa_batch (ap_aggregate p)))"

definition view_line :: "query \<Rightarrow> batch_view option \<Rightarrow> gostr \<Rightarrow> uint64 \<Rightarrow> gostr \<Rightarrow> batch_view option" where
  "view_line q v line n src = Option.bind v (\<lambda>v. batch_step q v line src)"

lemma process_raw_batch_append:
  "process_raw_batch q v (xs @ ys) = Option.bind (process_raw_batch q v xs) (\<lambda>v. process_raw_batch q v ys)"
  by (induction q v xs rule: process_raw_batch.induct) (auto split: option.splits)

lemma process_batch_view:
  "process_batch a = Some a' \<Longrightarrow> sa_batch a' = [] \<and> sa_query a' = sa_query a \<and> sa_done a' = sa_done a \<and>
   process_raw_batch (sa_query a) (view_of a) (sa_batch a) = Some (view_of a') \<and>
   sa_messages a' = sa_messages a"
  by (auto simp: process_batch_def view_of_def split: option.splits prod.splits)

lemma process_line_direct_view:
  assumes "\<not> sa_done a"
  shows "(case process_line_direct a line src of None \<Rightarrow> None
      | Some a' \<Rightarrow> process_raw_batch (sa_query a') (view_of a') (sa_batch a')) =
    Option.bind (process_raw_batch (sa_query a) (view_of a) (sa_batch a)) (\<lambda>v. batch_step (sa_query a) v line src)"
proof -
  define b where "b = a\<lparr>lines_processed := lines_processed a + 1, sa_batch := sa_batch a @ [(line, src)]\<rparr>"
  have pending: "process_raw_batch (sa_query b) (view_of b) (sa_batch b) =
      Option.bind (process_raw_batch (sa_query a) (view_of a) (sa_batch a)) (\<lambda>v. batch_step (sa_query a) v line src)"
    by (simp add: b_def process_raw_batch_append view_of_def split: option.splits Option.bind_split)
  have direct: "process_line_direct a line src = (if sa_batch_size b \<le> length (sa_batch b) then process_batch b else Some b)"
    using assms by (simp add: process_line_direct_def b_def Let_def)
  have batched: "(case process_batch b of None \<Rightarrow> None
      | Some a' \<Rightarrow> process_raw_batch (sa_query a') (view_of a') (sa_batch a')) =
      process_raw_batch (sa_query b) (view_of b) (sa_batch b)"
  proof (cases "process_batch b")
    case None
    then show ?thesis by (simp add: process_batch_def split: option.splits prod.splits)
  next
    case (Some c)
    then show ?thesis using process_batch_view[OF Some] by simp
  qed
  show ?thesis unfolding direct pending[symmetric] using batched by simp
qed

lemma process_line_direct_query:
  "process_line_direct a line src = Some a' \<Longrightarrow> sa_query a' = sa_query a \<and> sa_done a' = sa_done a"
  by (auto simp: process_line_direct_def Let_def split: if_splits dest: process_batch_view)

interpretation aggregate_lines: line_processor aggregate_process "aggregate_open q" aggregate_view "view_line q" for q
proof unfold_locales
  fix p l n s p'
  assume o: "aggregate_open q p" and pr: "aggregate_process p l n s = (p', None)"
  have "aggregate_open q p' \<and> aggregate_view p' = view_line q (aggregate_view p) l n s"
  proof (cases p)
    case None
    then show ?thesis using pr by (auto simp: aggregate_process_def aggregate_view_def view_line_def aggregate_open_def)
  next
    case (Some ap)
    then have d: "\<not> sa_done (ap_aggregate ap)" "sa_query (ap_aggregate ap) = q" using o by (auto simp: aggregate_open_def)
    have p': "p' = map_option (\<lambda>a. ap\<lparr>ap_aggregate := a\<rparr>) (process_line_direct (ap_aggregate ap) l s)"
      using pr Some d by (auto simp: aggregate_process_def ap_process_line_def)
    show ?thesis
    proof (cases "process_line_direct (ap_aggregate ap) l s")
      case None
      then show ?thesis using process_line_direct_view[OF d(1), of l s] Some d(2)
        by (simp add: p' aggregate_open_def aggregate_view_def view_line_def)
    next
      case (Some a)
      then show ?thesis
        using process_line_direct_view[OF d(1), of l s] process_line_direct_query[OF Some] \<open>p = Some ap\<close> d
        by (simp add: p' aggregate_open_def aggregate_view_def view_line_def)
    qed
  qed
  then show "aggregate_open q p'" and "aggregate_view p' = view_line q (aggregate_view p) l n s" by auto
qed

subsection \<open>Properties\<close>

definition feed_lines :: "aggregate_processor \<Rightarrow> (gostr \<times> gostr) list \<Rightarrow> aggregate_processor option" where
  "feed_lines p xs = foldl (\<lambda>po (line, src). Option.bind po (\<lambda>p. ap_process_line p line src)) (Some p) xs"

lemma feed_process_all:
  "aggregate_lines.process_all po (map (\<lambda>(line, src). (line, n, src)) xs) =
     (foldl (\<lambda>po (line, src). Option.bind po (\<lambda>p. ap_process_line p line src)) po xs, None)"
  by (induction xs arbitrary: po) (auto simp: aggregate_process_def)

lemma observe_all_view:
  "aggregate_lines.observe_all q v (map (\<lambda>(line, src). (line, n, src)) xs) =
     Option.bind v (\<lambda>v. process_raw_batch q v xs)"
proof (induction xs arbitrary: v)
  case Nil
  then show ?case by (cases v) simp_all
next
  case (Cons x xs)
  obtain line src where x: "x = (line, src)" by (cases x)
  have "aggregate_lines.observe_all q v (map (\<lambda>(line, src). (line, n, src)) (x # xs)) =
      Option.bind (view_line q v line n src) (\<lambda>v. process_raw_batch q v xs)"
    by (simp add: x Cons.IH)
  also have "\<dots> = Option.bind v (\<lambda>v. process_raw_batch q v (x # xs))"
    by (cases v) (auto simp: view_line_def x split: option.splits)
  finally show ?case .
qed

lemma foldl_bind_None: "foldl (\<lambda>po (line, src). Option.bind po (f line src)) None xs = None"
  by (induction xs) auto

lemma ap_process_line_flushed: "ap_process_line p line src = Some p' \<Longrightarrow> ap_flushed p' = ap_flushed p"
  by (auto simp: ap_process_line_def split: if_splits)

lemma feed_lines_flushed: "feed_lines p xs = Some p' \<Longrightarrow> ap_flushed p' = ap_flushed p"
proof (induction xs arbitrary: p)
  case (Cons x xs)
  obtain line src where x: "x = (line, src)" by (cases x)
  show ?case
  proof (cases "ap_process_line p line src")
    case None
    then show ?thesis using Cons.prems
      foldl_bind_None[of "\<lambda>line src p. ap_process_line p line src" xs] by (simp add: feed_lines_def x)
  next
    case (Some p1)
    then show ?thesis using Cons ap_process_line_flushed[OF Some] by (simp add: feed_lines_def x)
  qed
qed (simp add: feed_lines_def)

text \<open>
  C3: Batching does not change the result. Feeding lines to the processor of a running
  aggregate and flushing it leaves the parser, the group sets and the error count that
  processing the pending lines and then the fed lines one at a time leaves, however the
  lines fall into batches of a hundred; and the processor comes back exactly when the
  one-at-a-time evaluation does.
\<close>

theorem batching_transparent:
  assumes "\<not> sa_done (ap_aggregate p)" and "\<not> ap_flushed p"
  shows "map_option (view_of \<circ> ap_aggregate) (Option.bind (feed_lines p xs) ap_flush) =
    process_raw_batch (sa_query (ap_aggregate p)) (view_of (ap_aggregate p)) (sa_batch (ap_aggregate p) @ xs)"
proof -
  define q where "q = sa_query (ap_aggregate p)"
  let ?xs = "map (\<lambda>(line, src). (line, 0 :: uint64, src)) xs"
  have o: "aggregate_open q (Some p)" using assms(1) by (simp add: aggregate_open_def q_def)
  have pa: "aggregate_lines.process_all (Some p) ?xs = (feed_lines p xs, None)"
    by (simp add: feed_process_all feed_lines_def)
  from aggregate_lines.process_all_observe[OF o pa]
  have o': "aggregate_open q (feed_lines p xs)" and v: "aggregate_view (feed_lines p xs) =
      process_raw_batch q (view_of (ap_aggregate p)) (sa_batch (ap_aggregate p) @ xs)"
    by (simp_all add: observe_all_view aggregate_view_def process_raw_batch_append q_def)
  have unflushed: "feed_lines p xs = Some p' \<Longrightarrow> \<not> ap_flushed p'" for p'
    using feed_lines_flushed assms(2) by blast
  show ?thesis
  proof (cases "feed_lines p xs")
    case None
    then show ?thesis using v by (simp add: aggregate_view_def q_def)
  next
    case (Some p')
    then have d: "\<not> sa_done (ap_aggregate p')" "sa_query (ap_aggregate p') = q" using o' by (auto simp: aggregate_open_def)
    have "map_option view_of (process_batch (ap_aggregate p')) = aggregate_view (Some p')"
      by (auto simp: process_batch_def aggregate_view_def view_of_def split: option.splits)
    moreover have "map_option (view_of \<circ> ap_aggregate) (ap_flush p') = map_option view_of (process_batch (ap_aggregate p'))"
      using d unflushed[OF Some]
      by (cases "process_batch (ap_aggregate p')") (simp_all add: ap_flush_def view_of_def)
    ultimately show ?thesis using v Some by (simp add: q_def)
  qed
qed

definition sample_aggregate :: server_aggregate where
  "sample_aggregate =
     \<lparr>sa_done = False, sa_input_finished = False, sa_hostname = ''h'', sa_query = sample_plan_query,
      sa_parser = DefaultParser (new_default_parser ''h'' ''UTC'' 0), sa_groups = [], sa_batch = [], sa_batch_size = 1,
      sa_messages = Some [], lines_processed = 0, sa_errors = 0, files_processed = 0, processors_wg = 0,
      active_processors = 0\<rparr>"

lemma batching_transparent_witness:
  "map_option (view_of \<circ> ap_aggregate) (Option.bind (feed_lines (new_aggregate_processor sample_aggregate) [(''x'', ''s'')]) ap_flush) =
   process_raw_batch sample_plan_query (view_of sample_aggregate) [(''x'', ''s'')]"
  using batching_transparent[of "new_aggregate_processor sample_aggregate" "[(''x'', ''s'')]"]
  by (simp add: new_aggregate_processor_def sample_aggregate_def view_of_def)

definition total_samples :: "group_set \<Rightarrow> int" where
  "total_samples g = sum_list (map (\<lambda>(k, s). samples s) g)"

lemma samples_merge_column [simp]: "samples (merge_cancelled_column snapshot live sc) = samples live"
  by (auto simp: merge_cancelled_column_def Let_def split: aggregate_operation.splits option.splits)

lemma samples_merge_cancelled [simp]:
  "samples (merge_cancelled_snapshot q live snapshot) = wrap64 (samples live + samples snapshot)"
proof -
  have "samples (foldl (merge_cancelled_column snapshot) s scs) = samples s" for s scs
    by (induction scs arbitrary: s) simp_all
  then show ?thesis by (simp add: merge_cancelled_snapshot_def)
qed

lemma total_samples_update:
  "gomap_wf g \<Longrightarrow> total_samples (AList.update k s g) =
     total_samples g + samples s - (case map_of g k of None \<Rightarrow> 0 | Some s' \<Rightarrow> samples s')"
  by (induction g) (auto simp: total_samples_def split: option.splits)

lemma merge_remaining_samples:
  "gomap_wf g \<Longrightarrow> wrap64 (total_samples (merge_remaining q g r)) = wrap64 (total_samples g + total_samples r)"
proof (induction r arbitrary: g)
  case Nil
  then show ?case by (simp add: merge_remaining_def total_samples_def)
next
  case (Cons kv r)
  have wf: "gomap_wf (merge_remaining_step q g kv)"
    using Cons.prems by (simp add: merge_remaining_step_def split: option.splits)
  have step: "wrap64 (total_samples (merge_remaining_step q g kv)) = wrap64 (total_samples g + samples (snd kv))"
  proof (cases "map_of g (fst kv)")
    case None
    then show ?thesis using Cons.prems by (simp add: merge_remaining_step_def total_samples_update)
  next
    case (Some live)
    have "wrap64 (total_samples g + wrap64 (samples live + samples (snd kv)) - samples live) =
        wrap64 (total_samples g + samples (snd kv))"
      using wrap64_add[of "samples live + samples (snd kv)" "total_samples g - samples live"]
      by (simp add: algebra_simps)
    with Some show ?thesis using Cons.prems by (simp add: merge_remaining_step_def total_samples_update)
  qed
  have "wrap64 (total_samples (merge_remaining q g (kv # r))) =
      wrap64 (total_samples (merge_remaining_step q g kv) + total_samples r)"
    using Cons.IH[OF wf] by (simp add: merge_remaining_def)
  also have "\<dots> = wrap64 (total_samples g + samples (snd kv) + total_samples r)"
    using wrap64_add[of "total_samples (merge_remaining_step q g kv)" "total_samples r"]
      wrap64_add[of "total_samples g + samples (snd kv)" "total_samples r"] step by simp
  finally show ?case by (simp add: total_samples_def case_prod_beta algebra_simps)
qed

lemma copy_map_id: "gomap_wf m \<Longrightarrow> copy_map m = m"
  using foldl_update_fresh_gen[of "[]" m] by (simp add: copy_map_def)

lemma gomap_wf_drop: "gomap_wf m \<Longrightarrow> gomap_wf (drop n m)"
  by (simp add: drop_map[symmetric] distinct_drop)

text \<open>
  A serialization loses no sample. The sets that were sent and the sets the aggregate
  holds afterwards add up to the samples of the evaluated lines and of the lines that arrived
  meanwhile, modulo the wrap-around of the counter, even where sends were refused.
\<close>

theorem serialize_conserves_samples:
  assumes "process_batch a = Some a1" and "sa_messages a1 = Some ch" and "gomap_wf (sa_groups a1)" and "gomap_wf arrived"
    and "do_serialize accepted arrived a = Some a2"
  shows "\<exists>n. sa_messages a2 = Some (ch @ map (\<lambda>(k, s). serialize_set s k) (take n (sa_groups a1))) \<and>
    (sa_groups a1 \<noteq> [] \<longrightarrow>
      wrap64 (total_samples (take n (sa_groups a1)) + total_samples (sa_groups a2)) =
      wrap64 (total_samples (sa_groups a1) + total_samples arrived))"
proof (cases "sa_groups a1 = []")
  case True
  then show ?thesis using assms by (auto simp: do_serialize_def)
next
  case False
  let ?g = "sa_groups a1"
  obtain n where n: "serialize_group accepted ?g ch = (drop n ?g, ch @ map (\<lambda>(k, s). serialize_set s k) (take n ?g))"
    using serialize_group_split[OF assms(3)] by metis
  have a2: "a2 = a1\<lparr>sa_messages := Some (ch @ map (\<lambda>(k, s). serialize_set s k) (take n ?g)),
      sa_groups := (if drop n ?g = [] then arrived else merge_remaining (sa_query a1) arrived (drop n ?g))\<rparr>"
    using assms(1,2,5) False n by (simp add: do_serialize_def copy_map_id[OF assms(3)])
  have "total_samples ?g = total_samples (take n ?g) + total_samples (drop n ?g)"
    unfolding total_samples_def by (simp flip: sum_list_append map_append)
  moreover have "wrap64 (total_samples (sa_groups a2)) = wrap64 (total_samples arrived + total_samples (drop n ?g))"
    using merge_remaining_samples[OF assms(4)] by (auto simp: a2 total_samples_def)
  ultimately have "wrap64 (total_samples (take n ?g) + total_samples (sa_groups a2)) =
      wrap64 (total_samples ?g + total_samples arrived)"
    using wrap64_add[of "total_samples (sa_groups a2)" "total_samples (take n ?g)"]
      wrap64_add[of "total_samples arrived + total_samples (drop n ?g)" "total_samples (take n ?g)"]
    by (simp add: algebra_simps)
  then show ?thesis using a2 by (intro exI[of _ n]) simp
qed

lemma serialize_conserves_samples_witness:
  "\<exists>a2. do_serialize (\<lambda>k. False) [(''k'', new_aggregate_set\<lparr>samples := 2\<rparr>)]
       (sample_aggregate\<lparr>sa_groups := [(''k'', new_aggregate_set\<lparr>samples := 3\<rparr>)]\<rparr>) = Some a2 \<and>
     wrap64 (total_samples (sa_groups a2)) = 5"
proof -
  let ?a = "sample_aggregate\<lparr>sa_groups := [(''k'', new_aggregate_set\<lparr>samples := 3\<rparr>)]\<rparr>"
  let ?arrived = "[(''k'', new_aggregate_set\<lparr>samples := 2\<rparr>)]"
  have b: "process_batch ?a = Some ?a"
    by (simp add: process_batch_def sample_aggregate_def view_of_def)
  have g: "serialize_group (\<lambda>k. False) (copy_map (sa_groups ?a)) [] = (sa_groups ?a, [])"
    by (simp add: serialize_group_def serialize_step_def send_set_def copy_map_def)
  have m: "sa_messages ?a = Some []" by (simp add: sample_aggregate_def)
  obtain a2 where a2: "do_serialize (\<lambda>k. False) ?arrived ?a = Some a2" and c: "sa_messages a2 = Some []"
    using b m g unfolding do_serialize_def by simp
  obtain n where n: "sa_messages a2 = Some (map (\<lambda>(k, s). serialize_set s k) (take n (sa_groups ?a)))"
    "wrap64 (total_samples (take n (sa_groups ?a)) + total_samples (sa_groups a2)) =
     wrap64 (total_samples (sa_groups ?a) + total_samples ?arrived)"
    using serialize_conserves_samples[OF b m _ _ a2] by auto
  have "take n (sa_groups ?a) = []" using n(1) c by auto
  then show ?thesis using a2 n(2) by (simp add: total_samples_def wrap64_def)
qed

text \<open>
  Where no value holds a comma, two lines fall into the same group exactly when they
  agree on every field of the \<open>group by\<close> clause (a missing field counting as empty).
\<close>

theorem group_key_injective:
  assumes "\<forall>f\<in>set groups. CHR '','' \<notin> set (lookup_zero [] fs f) \<and> CHR '','' \<notin> set (lookup_zero [] fs' f)"
    and "groups \<noteq> []"
  shows "build_group_key groups fs = build_group_key groups fs' \<longleftrightarrow>
    (\<forall>f\<in>set groups. lookup_zero [] fs f = lookup_zero [] fs' f)"
proof
  assume "build_group_key groups fs = build_group_key groups fs'"
  then have "split '','' (join '','' (map (lookup_zero [] fs) groups)) = split '','' (join '','' (map (lookup_zero [] fs') groups))"
    by (simp add: build_group_key_def)
  moreover have "split '','' (join '','' (map (lookup_zero [] fs) groups)) = map (lookup_zero [] fs) groups"
    "split '','' (join '','' (map (lookup_zero [] fs') groups)) = map (lookup_zero [] fs') groups"
    using assms by (auto intro!: split_join)
  ultimately show "\<forall>f\<in>set groups. lookup_zero [] fs f = lookup_zero [] fs' f" by simp
next
  assume "\<forall>f\<in>set groups. lookup_zero [] fs f = lookup_zero [] fs' f"
  then show "build_group_key groups fs = build_group_key groups fs'"
    unfolding build_group_key_def by (metis (mono_tags, lifting) map_cong)
qed

lemma group_key_injective_witness:
  "build_group_key [''a'', ''b''] [(''a'', ''x''), (''b'', ''y'')] \<noteq> build_group_key [''a'', ''b''] [(''a'', ''x'')]"
  using group_key_injective[of "[''a'', ''b'']" "[(''a'', ''x''), (''b'', ''y'')]" "[(''a'', ''x'')]"] by simp

text \<open>
  A line whose only selected value is not a number does create an empty group: the set
  enters the map without a sample although nothing was aggregated into it.
\<close>

theorem non_number_creates_empty_group:
  assumes "q_select q = [\<lparr>sc_field = f, field_storage = k, sc_operation = Sum\<rparr>]"
    and "map_of fs f = Some v" and "parse_float v = (x, Some e)" and "map_of g (build_group_key (group_by q) fs) = None"
  shows "map_of (aggregate_fields q g fs) (build_group_key (group_by q) fs) = Some new_aggregate_set"
  using assms by (simp add: aggregate_fields_def get_set_def aggregate_def aggregate_float_def)

lemma parse_float_letter: "parse_float ''x'' = (Fin 0, Some ErrSyntax)"
  by (simp add: parse_float_def parse_special_def strip_sign_def lower_byte_def ascii_lower_def hex_prefix_def
      digit_val_def)

lemma non_number_creates_empty_group_witness:
  "map_of (aggregate_fields (sample_plan_query\<lparr>group_by := [''h'']\<rparr>) [] [(''n'', ''x''), (''h'', ''y'')]) ''y'' =
   Some new_aggregate_set"
  using non_number_creates_empty_group[of "sample_plan_query\<lparr>group_by := [''h'']\<rparr>" "''n''" "''sum(n)''"
      "[(''n'', ''x''), (''h'', ''y'')]" "''x''" "Fin 0" ErrSyntax "[]"]
  by (simp add: sample_plan_query_def parse_float_letter build_group_key_def)

end
