(* ===== verification/Map_Client.thy ===== *)
theory Map_Client
  imports Aggregates
begin

text \<open>
  The client side of a mapreduce query (\<open>internal/mapr/client\<close>): the session state shared by
  the handlers of all servers, and the aggregate of one server, which parses the messages of
  the server into a local group set and merges it into the global one. The last part shows
  that a set survives the trip from a server into the global group set.
\<close>

subsection \<open>Session state\<close>

record session_state =
  ss_generation :: uint64
  ss_query :: "query option"
  ss_global :: "global_group_set option"
  last_result :: gostr
  change_pending :: bool

definition new_session_state :: "query option \<Rightarrow> session_state" where
  "new_session_state q =
     \<lparr>ss_generation = 0, ss_query = q, ss_global = Some new_global_group_set, last_result = [], change_pending = False\<rparr>"

text \<open>The channel has room for one signal; a second one is dropped.\<close>

definition notify_change :: "session_state \<Rightarrow> session_state" where
  "notify_change s = s\<lparr>change_pending := True\<rparr>"

definition commit_query :: "session_state \<Rightarrow> gostr \<Rightarrow> uint64 \<Rightarrow> session_state \<times> (query_error + query option)" where
  "commit_query s raw generation =
     (case new_query raw of
        Inl e \<Rightarrow> (s, Inl e)
      | Inr q \<Rightarrow>
          (notify_change (s\<lparr>ss_generation := generation, ss_query := q, ss_global := Some new_global_group_set,
              last_result := []\<rparr>), Inr q))"

definition commit_rendered_result :: "session_state \<Rightarrow> uint64 \<Rightarrow> gostr \<Rightarrow> session_state \<times> bool \<times> bool" where
  "commit_rendered_result s generation r =
     (if ss_generation s \<noteq> generation then (s, False, False)
      else if last_result s = r then (s, False, True)
      else (s\<lparr>last_result := r\<rparr>, True, True))"

subsection \<open>The aggregate of one server\<close>

record client_aggregate =
  ca_group :: group_set
  ca_generation :: uint64
  ca_server :: gostr

definition new_client_aggregate :: "gostr \<Rightarrow> session_state option \<Rightarrow> client_aggregate" where
  "new_client_aggregate server s =
     \<lparr>ca_group = [], ca_generation = (case s of None \<Rightarrow> 0 | Some s \<Rightarrow> ss_generation s), ca_server = server\<rparr>"

datatype client_error =
    MissingSession
  | MissingQuery
  | NoData
  | BadSamples gostr num_error
  | MergeFailed aggregate_error

definition client_field_step :: "(gostr, gostr) gomap \<Rightarrow> gostr \<Rightarrow> (gostr, gostr) gomap" where
  "client_field_step fs part =
     (case cut aggregate_kv_delimiter part of None \<Rightarrow> fs | Some (k, v) \<Rightarrow> AList.update k v fs)"

definition client_make_fields :: "gostr list \<Rightarrow> (gostr, gostr) gomap" where
  "client_make_fields parts = foldl client_field_step [] parts"

fun client_columns :: "(gostr, gostr) gomap \<Rightarrow> select_condition list \<Rightarrow> aggregate_set \<Rightarrow> bool \<Rightarrow> aggregate_set \<times> bool" where
  "client_columns fs [] s added = (s, added)"
| "client_columns fs (sc # scs) s added =
     (case map_of fs (field_storage sc) of
        None \<Rightarrow> client_columns fs scs s added
      | Some v \<Rightarrow>
          (case aggregate s (field_storage sc) (sc_operation sc) v True of
             (s', None) \<Rightarrow> client_columns fs scs s' True
           | (s', Some e) \<Rightarrow> client_columns fs scs s' added))"

definition current_group :: "session_state \<Rightarrow> client_aggregate \<Rightarrow> client_aggregate" where
  "current_group s a =
     (if ss_generation s \<noteq> ca_generation a then a\<lparr>ca_group := [], ca_generation := ss_generation s\<rparr> else a)"

text \<open>\<open>Aggregate.Aggregate\<close>: the new session state, the new aggregate and the error.\<close>

definition client_aggregate_message ::
  "session_state \<Rightarrow> client_aggregate \<Rightarrow> gostr \<Rightarrow> session_state \<times> client_aggregate \<times> client_error option" where
  "client_aggregate_message s a message =
     (case (ss_query s, ss_global s) of
        (Some q, Some g) \<Rightarrow>
          let a = current_group s a; parts = split aggregate_delimiter message in
          if length parts < 4 then (s, a, Some NoData)
          else (case atoi (parts ! 1) of
              (_, Some e) \<Rightarrow> (s, a, Some (BadSamples (parts ! 1) e))
            | (n, None) \<Rightarrow>
                let key = parts ! 0; fs = client_make_fields (drop 2 parts) in
                case get_set (ca_group a) key of (gs, set0) \<Rightarrow>
                case client_columns fs (q_select q) set0 False of (set1, added) \<Rightarrow>
                  let set2 = (if added then set1\<lparr>samples := wrap64 (samples set1 + n)\<rparr> else set1);
                      a = a\<lparr>ca_group := AList.update key set2 gs\<rparr> in
                  case merge_noblock q g (ca_group a) of
                    (g', _, Some e) \<Rightarrow> (s\<lparr>ss_global := Some g'\<rparr>, a, Some (MergeFailed e))
                  | (g', merged, None) \<Rightarrow>
                      (s\<lparr>ss_global := Some g'\<rparr>, if merged then a\<lparr>ca_group := []\<rparr> else a, None))
      | _ \<Rightarrow> (s, a, Some MissingQuery))"

text \<open>An aggregate without a session reports an error.\<close>

definition client_aggregate_call ::
  "session_state option \<Rightarrow> client_aggregate \<Rightarrow> gostr \<Rightarrow> session_state option \<times> client_aggregate \<times> client_error option" where
  "client_aggregate_call so a message =
     (case so of None \<Rightarrow> (None, a, Some MissingSession)
      | Some s \<Rightarrow> (case client_aggregate_message s a message of (s', a', e) \<Rightarrow> (Some s', a', e)))"

definition client_flush :: "session_state option \<Rightarrow> client_aggregate \<Rightarrow>
    session_state option \<times> client_aggregate \<times> client_error option" where
  "client_flush so a =
     (case so of None \<Rightarrow> (None, a, Some MissingSession)
      | Some s \<Rightarrow>
         (case (ss_query s, ss_global s) of
            (Some q, Some g) \<Rightarrow>
              if ss_generation s \<noteq> ca_generation a then (so, current_group s a, None)
              else
                (case global_merge q g (ca_group a) of
                   (g', Some e) \<Rightarrow> (Some (s\<lparr>ss_global := Some g'\<rparr>), a, Some (MergeFailed e))
                 | (g', None) \<Rightarrow> (Some (s\<lparr>ss_global := Some g'\<rparr>), a\<lparr>ca_group := []\<rparr>, None))
          | _ \<Rightarrow> (so, a, None)))"

subsection \<open>The parts of a message\<close>

lemma delimiters_simple [simp]: "simple_sep aggregate_delimiter" "simple_sep aggregate_kv_delimiter"
  by (simp_all add: simple_sep_def aggregate_delimiter_def aggregate_kv_delimiter_def)

lemma contains_append_hd:
  assumes "simple_sep sep" and "zs \<noteq> []" and "hd zs = hd sep" and "contains (ys @ zs) sep"
  shows "contains ys sep \<or> contains zs sep"
proof -
  consider "sublist sep ys" | "sublist sep zs" | a b where "sep = a @ b" "suffix a ys" "prefix b zs"
    using assms(4) by (auto simp: contains_def sublist_append)
  then show ?thesis
  proof cases
    case 3
    show ?thesis
    proof (cases "a = [] \<or> b = []")
      case True
      then show ?thesis using 3 by (auto simp: contains_def intro: prefix_imp_sublist suffix_imp_sublist)
    next
      case False
      then obtain c cs d ds where "a = c # cs" "b = d # ds" by (cases a; cases b) auto
      then show ?thesis using 3 assms(1-3) by (cases zs) (auto simp: simple_sep_def)
    qed
  qed (auto simp: contains_def)
qed

lemma contains_Nil [simp]: "contains [] p = (p = [])"
  by (simp add: contains_def)

lemma contains_Cons_ne: "p \<noteq> [] \<Longrightarrow> c \<noteq> hd p \<Longrightarrow> contains (c # s) p = contains s p"
  by (cases p) (auto simp: contains_def sublist_Cons_right)

lemma delimiters_ne [simp]: "aggregate_delimiter \<noteq> []" "aggregate_kv_delimiter \<noteq> []"
  by (simp_all add: aggregate_delimiter_def aggregate_kv_delimiter_def)

lemma delimiter_kv:
  assumes "contains (k @ aggregate_kv_delimiter @ v) aggregate_delimiter"
  shows "contains k aggregate_delimiter \<or> contains v aggregate_delimiter"
proof -
  have "hd (aggregate_kv_delimiter @ v) = hd aggregate_delimiter"
    by (simp add: aggregate_delimiter_def aggregate_kv_delimiter_def)
  with assms have "contains k aggregate_delimiter \<or> contains (aggregate_kv_delimiter @ v) aggregate_delimiter"
    by (intro contains_append_hd) auto
  moreover have "contains (aggregate_kv_delimiter @ v) aggregate_delimiter = contains v aggregate_delimiter"
    by (simp add: aggregate_delimiter_def aggregate_kv_delimiter_def contains_Cons)
  ultimately show ?thesis by simp
qed

lemma no_E2_no_delimiter: "CHR 0xE2 \<notin> set s \<Longrightarrow> \<not> contains s aggregate_delimiter"
  using set_mono_sublist[of aggregate_delimiter s] by (auto simp: contains_def aggregate_delimiter_def)

lemma format_float_no_delimiter: "\<not> contains (format_float x) aggregate_delimiter"
  by (rule no_E2_no_delimiter) (use format_float_chars[of "CHR 0xE2" x] in \<open>auto simp: digit_val_def\<close>)

lemma itoa_no_delimiter: "\<not> contains (itoa i) aggregate_delimiter"
  by (rule no_E2_no_delimiter) (use itoa_chars[of "CHR 0xE2" i] in \<open>auto simp: digit_val_def\<close>)

definition float_part :: "gostr \<times> float64 \<Rightarrow> gostr" where
  "float_part kv = fst kv @ aggregate_kv_delimiter @ format_float (snd kv)"

definition string_part :: "gostr \<times> gostr \<Rightarrow> gostr" where
  "string_part kv = fst kv @ aggregate_kv_delimiter @ snd kv"

lemma join_terminated: "join sep (xs @ [[]]) = concat (map (\<lambda>x. x @ sep) xs)"
  by (induction xs) (simp_all add: join_Cons)

lemma serialize_set_join:
  "serialize_set s key =
     join aggregate_delimiter ((key # itoa (samples s) # map float_part (fvalues s) @ map string_part (svalues s)) @ [[]])"
  by (simp only: join_terminated)
    (simp add: serialize_set_def serialize_float_def[abs_def] serialize_string_def[abs_def]
      float_part_def string_part_def comp_def)

text \<open>A set whose texts do not hold the delimiters of the message.\<close>

definition clean_set :: "aggregate_set \<Rightarrow> bool" where
  "clean_set s =
     ((\<forall>k \<in> fst ` set (fvalues s) \<union> fst ` set (svalues s).
         \<not> contains k aggregate_delimiter \<and> \<not> contains k aggregate_kv_delimiter) \<and>
      (\<forall>v \<in> snd ` set (svalues s). \<not> contains v aggregate_delimiter))"

lemma split_serialized:
  assumes "clean_set s" and "\<not> contains key aggregate_delimiter"
  shows "split aggregate_delimiter (serialize_set s key) =
    key # itoa (samples s) # map float_part (fvalues s) @ map string_part (svalues s) @ [[]]"
proof -
  have f: "\<not> contains (float_part kv) aggregate_delimiter" if "kv \<in> set (fvalues s)" for kv
  proof
    assume "contains (float_part kv) aggregate_delimiter"
    then show False using delimiter_kv[of "fst kv" "format_float (snd kv)"] format_float_no_delimiter that assms(1)
      by (auto simp: float_part_def clean_set_def)
  qed
  have g: "\<not> contains (string_part kv) aggregate_delimiter" if "kv \<in> set (svalues s)" for kv
  proof
    assume "contains (string_part kv) aggregate_delimiter"
    then show False using delimiter_kv[of "fst kv" "snd kv"] that assms(1)
      by (auto simp: string_part_def clean_set_def)
  qed
  show ?thesis
    unfolding serialize_set_join
    by (subst split_join) (use f g assms(2) itoa_no_delimiter in auto)
qed

lemma client_fields_fold:
  assumes "\<forall>(k, v) \<in> set kvs. \<not> contains k aggregate_kv_delimiter"
  shows "foldl client_field_step fs (map (\<lambda>(k, v). k @ aggregate_kv_delimiter @ v) kvs) =
    foldl (\<lambda>fs (k, v). AList.update k v fs) fs kvs"
  using assms by (induction kvs arbitrary: fs) (auto simp: client_field_step_def cut_append)

lemma map_of_foldl_update:
  "gomap_wf kvs \<Longrightarrow> map_of (foldl (\<lambda>fs (k, v). AList.update k v fs) fs kvs) x =
     (case map_of kvs x of Some v \<Rightarrow> Some v | None \<Rightarrow> map_of fs x)"
proof (induction kvs arbitrary: fs)
  case (Cons kv kvs)
  obtain k v where kv: "kv = (k, v)" by (cases kv)
  show ?case using Cons.prems Cons.IH[of "AList.update k v fs"]
    by (auto simp: kv map_of_eq_None_iff[symmetric] split: option.splits)
qed simp

lemma client_make_fields_serialized:
  assumes "clean_set s" and "gomap_wf (fvalues s)" and "gomap_wf (svalues s)"
  shows "map_of (client_make_fields (map float_part (fvalues s) @ map string_part (svalues s) @ [[]])) k =
    (case map_of (svalues s) k of Some v \<Rightarrow> Some v | None \<Rightarrow> map_option format_float (map_of (fvalues s) k))"
proof -
  let ?F = "map (\<lambda>(k, v). (k, format_float v)) (fvalues s)"
  have f: "map float_part (fvalues s) = map (\<lambda>(k, v). k @ aggregate_kv_delimiter @ v) ?F"
    by (simp add: float_part_def case_prod_beta)
  have g: "map string_part (svalues s) = map (\<lambda>(k, v). k @ aggregate_kv_delimiter @ v) (svalues s)"
    by (simp add: string_part_def case_prod_beta)
  have last: "client_field_step fs [] = fs" for fs
    by (simp add: client_field_step_def aggregate_kv_delimiter_def)
  have cf: "\<forall>(k, v) \<in> set ?F. \<not> contains k aggregate_kv_delimiter"
    "\<forall>(k, v) \<in> set (svalues s). \<not> contains k aggregate_kv_delimiter"
    using assms(1) by (force simp: clean_set_def)+
  have "client_make_fields (map float_part (fvalues s) @ map string_part (svalues s) @ [[]]) =
      foldl (\<lambda>fs (k, v). AList.update k v fs) (foldl (\<lambda>fs (k, v). AList.update k v fs) [] ?F) (svalues s)"
    unfolding client_make_fields_def f g foldl_append
    by (simp only: client_fields_fold[OF cf(1)] client_fields_fold[OF cf(2)] foldl.simps last)
  moreover have "gomap_wf ?F" using assms(2) by (simp add: case_prod_beta comp_def)
  moreover have "map_of ?F k = map_option format_float (map_of (fvalues s) k)" by (simp add: map_of_map)
  ultimately show ?thesis using assms(3)
    by (simp add: map_of_foldl_update split: option.splits)
qed

subsection \<open>A set survives the trip\<close>

text \<open>
  The sets that a server builds for a query: every column holds values of the kind of its
  operation, and the length of a \<open>len\<close> column belongs to its text.
\<close>

definition column_ok :: "aggregate_set \<Rightarrow> select_condition \<Rightarrow> bool" where
  "column_ok s sc =
     (let k = field_storage sc in
      case sc_operation sc of
        Last \<Rightarrow> map_of (fvalues s) k = None
      | Len \<Rightarrow> map_of (fvalues s) k = map_option (\<lambda>v. f_of_int (int (length v))) (map_of (svalues s) k)
      | UndefAggregateOperation \<Rightarrow> False
      | _ \<Rightarrow> map_of (svalues s) k = None)"

definition column_present :: "aggregate_set \<Rightarrow> select_condition \<Rightarrow> bool" where
  "column_present s sc = (map_of (fvalues s) (field_storage sc) \<noteq> None \<or> map_of (svalues s) (field_storage sc) \<noteq> None)"

definition storages :: "select_condition list \<Rightarrow> gostr list" where
  "storages scs = map field_storage scs"

text \<open>Aggregating one transmitted value into a set that does not have the column yet.\<close>

lemma aggregate_transmitted:
  assumes "set_ok s" and "column_ok s sc" and "column_present s sc"
    and "map_of (fvalues t) (field_storage sc) = None" and "map_of (svalues t) (field_storage sc) = None"
  shows "\<exists>t' v. (case map_of (svalues s) (field_storage sc) of Some v \<Rightarrow> Some v
        | None \<Rightarrow> map_option format_float (map_of (fvalues s) (field_storage sc))) = Some v \<and>
      aggregate t (field_storage sc) (sc_operation sc) v True = (t', None) \<and>
      map_of (fvalues t') (field_storage sc) = map_of (fvalues s) (field_storage sc) \<and>
      map_of (svalues t') (field_storage sc) = map_of (svalues s) (field_storage sc) \<and>
      samples t' = samples t \<and>
      (\<forall>k. k \<noteq> field_storage sc \<longrightarrow> map_of (fvalues t') k = map_of (fvalues t) k \<and> map_of (svalues t') k = map_of (svalues t) k)"
proof -
  let ?k = "field_storage sc"
  have pf: "map_of (fvalues s) ?k = Some f \<Longrightarrow> parse_float (format_float f) = (f, None)" for f
    using set_ok_lookup[OF assms(1)] parse_format_float by blast
  show ?thesis
    using assms pf
    by (cases "sc_operation sc"; cases "map_of (fvalues s) ?k"; cases "map_of (svalues s) ?k")
      (auto simp: column_ok_def column_present_def Let_def aggregate_def aggregate_float_def add_float_def
        add_float_min_def add_float_max_def)
qed

lemma client_columns_transmitted:
  assumes "set_ok s" and "\<forall>sc\<in>set scs. column_ok s sc" and "distinct (storages scs)"
    and "\<forall>k. map_of fs k = (case map_of (svalues s) k of Some v \<Rightarrow> Some v
        | None \<Rightarrow> map_option format_float (map_of (fvalues s) k))"
    and "\<forall>sc\<in>set scs. map_of (fvalues t) (field_storage sc) = None \<and> map_of (svalues t) (field_storage sc) = None"
  shows "\<exists>t'. client_columns fs scs t added = (t', added \<or> (\<exists>sc\<in>set scs. column_present s sc)) \<and>
      samples t' = samples t \<and>
      (\<forall>sc\<in>set scs. map_of (fvalues t') (field_storage sc) = map_of (fvalues s) (field_storage sc) \<and>
         map_of (svalues t') (field_storage sc) = map_of (svalues s) (field_storage sc)) \<and>
      (\<forall>k. k \<notin> set (storages scs) \<longrightarrow> map_of (fvalues t') k = map_of (fvalues t) k \<and> map_of (svalues t') k = map_of (svalues t) k)"
  using assms(2,3,5)
proof (induction scs arbitrary: t added)
  case (Cons sc scs)
  let ?k = "field_storage sc"
  have nk: "?k \<notin> set (storages scs)" using Cons.prems(2) by (simp add: storages_def)
  show ?case
  proof (cases "column_present s sc")
    case False
    then have n: "map_of (fvalues s) ?k = None" "map_of (svalues s) ?k = None" by (auto simp: column_present_def)
    then have "map_of fs ?k = None" using assms(4) by simp
    then have "client_columns fs (sc # scs) t added = client_columns fs scs t added" by simp
    then show ?thesis
      using Cons.IH[of t added] Cons.prems nk n False by (auto simp: storages_def)
  next
    case True
    have "map_of (fvalues t) ?k = None" "map_of (svalues t) ?k = None" "column_ok s sc" using Cons.prems by auto
    from aggregate_transmitted[OF assms(1) this(3) True this(1,2)] obtain t1 v where
      v: "map_of fs ?k = Some v" and a: "aggregate t ?k (sc_operation sc) v True = (t1, None)"
      and t1: "map_of (fvalues t1) ?k = map_of (fvalues s) ?k" "map_of (svalues t1) ?k = map_of (svalues s) ?k"
        "samples t1 = samples t"
      and other: "\<And>k. k \<noteq> ?k \<Longrightarrow> map_of (fvalues t1) k = map_of (fvalues t) k \<and> map_of (svalues t1) k = map_of (svalues t) k"
      using assms(4) by metis
    have step: "client_columns fs (sc # scs) t added = client_columns fs scs t1 True" using v a by simp
    have fresh: "\<forall>sc\<in>set scs. map_of (fvalues t1) (field_storage sc) = None \<and> map_of (svalues t1) (field_storage sc) = None"
      using Cons.prems nk other by (metis image_eqI list.set_intros(2) list.set_map storages_def)
    from Cons.IH[OF _ _ fresh, of True] Cons.prems obtain t' where
      t': "client_columns fs scs t1 True = (t', True)" "samples t' = samples t1"
        "\<forall>sc\<in>set scs. map_of (fvalues t') (field_storage sc) = map_of (fvalues s) (field_storage sc) \<and>
         map_of (svalues t') (field_storage sc) = map_of (svalues s) (field_storage sc)"
        "\<forall>k. k \<notin> set (storages scs) \<longrightarrow> map_of (fvalues t') k = map_of (fvalues t1) k \<and> map_of (svalues t') k = map_of (svalues t1) k"
      by (auto simp: storages_def)
    show ?thesis
      by (rule exI[of _ t'], unfold step) (use t' t1 other nk True in \<open>auto simp: storages_def\<close>)
  qed
qed simp

text \<open>Merging into a set that has none of the columns copies them.\<close>

lemma merge_one_fresh:
  assumes "sc_operation sc \<noteq> UndefAggregateOperation"
    and "map_of (fvalues t) (field_storage sc) = None" and "map_of (svalues t) (field_storage sc) = None"
  shows "\<exists>t'. merge_one t other sc = Inr t' \<and> samples t' = samples t \<and>
    (sc_operation sc \<noteq> Last \<longrightarrow> fvalue t' (field_storage sc) = fvalue other (field_storage sc)) \<and>
    (sc_operation sc = Last \<or> sc_operation sc = Len \<longrightarrow> svalue t' (field_storage sc) = svalue other (field_storage sc)) \<and>
    (\<forall>k. k \<noteq> field_storage sc \<longrightarrow> map_of (fvalues t') k = map_of (fvalues t) k \<and> map_of (svalues t') k = map_of (svalues t) k)"
  using assms
  by (cases "sc_operation sc")
    (auto simp: merge_one_def Let_def add_float_def add_float_min_def add_float_max_def fvalue_def svalue_def lookup_zero_def)

lemma merge_loop_fresh:
  assumes "\<forall>sc\<in>set scs. sc_operation sc \<noteq> UndefAggregateOperation" and "distinct (storages scs)"
    and "\<forall>sc\<in>set scs. map_of (fvalues t) (field_storage sc) = None \<and> map_of (svalues t) (field_storage sc) = None"
  shows "\<exists>t'. merge_loop t other scs = (t', None) \<and> samples t' = samples t \<and>
    (\<forall>sc\<in>set scs.
      (sc_operation sc \<noteq> Last \<longrightarrow> fvalue t' (field_storage sc) = fvalue other (field_storage sc)) \<and>
      (sc_operation sc = Last \<or> sc_operation sc = Len \<longrightarrow> svalue t' (field_storage sc) = svalue other (field_storage sc))) \<and>
    (\<forall>k. k \<notin> set (storages scs) \<longrightarrow> map_of (fvalues t') k = map_of (fvalues t) k \<and> map_of (svalues t') k = map_of (svalues t) k)"
  using assms
proof (induction scs arbitrary: t)
  case (Cons sc scs)
  let ?k = "field_storage sc"
  have nk: "?k \<notin> set (storages scs)" using Cons.prems(2) by (simp add: storages_def)
  from merge_one_fresh[of sc t other] Cons.prems obtain t1 where
    m: "merge_one t other sc = Inr t1" and t1: "samples t1 = samples t"
      "sc_operation sc \<noteq> Last \<longrightarrow> fvalue t1 ?k = fvalue other ?k"
      "sc_operation sc = Last \<or> sc_operation sc = Len \<longrightarrow> svalue t1 ?k = svalue other ?k"
    and o: "\<forall>k. k \<noteq> ?k \<longrightarrow> map_of (fvalues t1) k = map_of (fvalues t) k \<and> map_of (svalues t1) k = map_of (svalues t) k"
    by auto
  have fresh: "\<forall>sc\<in>set scs. map_of (fvalues t1) (field_storage sc) = None \<and> map_of (svalues t1) (field_storage sc) = None"
    using Cons.prems nk o by (metis image_eqI list.set_intros(2) list.set_map storages_def)
  from Cons.IH[OF _ _ fresh] Cons.prems obtain t' where
    t': "merge_loop t1 other scs = (t', None)" "samples t' = samples t1"
      "\<forall>sc\<in>set scs. (sc_operation sc \<noteq> Last \<longrightarrow> fvalue t' (field_storage sc) = fvalue other (field_storage sc)) \<and>
        (sc_operation sc = Last \<or> sc_operation sc = Len \<longrightarrow> svalue t' (field_storage sc) = svalue other (field_storage sc))"
      "\<forall>k. k \<notin> set (storages scs) \<longrightarrow> map_of (fvalues t') k = map_of (fvalues t1) k \<and> map_of (svalues t') k = map_of (svalues t1) k"
    by (auto simp: storages_def)
  have "fvalue t' ?k = fvalue t1 ?k" "svalue t' ?k = svalue t1 ?k"
    using t'(4) nk by (auto simp: fvalue_def svalue_def lookup_zero_def)
  then show ?case
    by (intro exI[of _ t']) (use m t' t1 o nk in \<open>auto simp: storages_def\<close>)
qed simp

lemma column_ok_defined: "column_ok s sc \<Longrightarrow> sc_operation sc \<noteq> UndefAggregateOperation"
  by (auto simp: column_ok_def Let_def)

text \<open>
  A set that a server serializes arrives in the global group set of the client with the
  same values: the message is parsed without an error, the group key and the number of
  samples are kept, every numeric column reads back to the same floating point number, and
  every text column to the same text, provided that the texts do not contain the delimiters
  of the message.
\<close>

theorem transmitted_set_arrives:
  assumes "set_ok s" and "clean_set s" and "\<not> contains key aggregate_delimiter"
    and "- (2 ^ 63) \<le> samples s" and "samples s < 2 ^ 63"
    and "ss_query st = Some q" and "ss_global st = Some new_global_group_set" and "ca_group a = []"
    and "distinct (storages (q_select q))" and "\<forall>sc\<in>set (q_select q). column_ok s sc"
    and "\<exists>sc\<in>set (q_select q). column_present s sc"
  shows "\<exists>st' a' g t. client_aggregate_message st a (serialize_set s key) = (st', a', None) \<and> ca_group a' = [] \<and>
    ss_global st' = Some g \<and> g_sets g = [(key, t)] \<and> samples t = samples s \<and>
    (\<forall>sc\<in>set (q_select q).
      (sc_operation sc \<noteq> Last \<longrightarrow> fvalue t (field_storage sc) = fvalue s (field_storage sc)) \<and>
      (sc_operation sc = Last \<or> sc_operation sc = Len \<longrightarrow> svalue t (field_storage sc) = svalue s (field_storage sc)))"
proof -
  let ?parts = "split aggregate_delimiter (serialize_set s key)"
  have parts: "?parts = key # itoa (samples s) # map float_part (fvalues s) @ map string_part (svalues s) @ [[]]"
    by (rule split_serialized) fact+
  have "fvalues s \<noteq> [] \<or> svalues s \<noteq> []" using assms(11) by (auto simp: column_present_def)
  then have len: "\<not> length ?parts < 4" by (cases "fvalues s"; cases "svalues s") (auto simp: parts)
  have wf: "gomap_wf (fvalues s)" "gomap_wf (svalues s)" using assms(1) by (auto simp: set_ok_def)
  let ?fs = "client_make_fields (drop 2 ?parts)"
  have fs: "\<forall>k. map_of ?fs k = (case map_of (svalues s) k of Some v \<Rightarrow> Some v
        | None \<Rightarrow> map_option format_float (map_of (fvalues s) k))"
    unfolding parts using client_make_fields_serialized[OF assms(2) wf] by simp
  have empty: "\<forall>sc\<in>set (q_select q). map_of (fvalues new_aggregate_set) (field_storage sc) = None \<and>
      map_of (svalues new_aggregate_set) (field_storage sc) = None"
    by (simp add: new_aggregate_set_def)
  from client_columns_transmitted[OF assms(1,10,9) fs empty, of False] assms(11) obtain t1 where
    t1: "client_columns ?fs (q_select q) new_aggregate_set False = (t1, True)" "samples t1 = 0"
      "\<forall>sc\<in>set (q_select q). map_of (fvalues t1) (field_storage sc) = map_of (fvalues s) (field_storage sc) \<and>
         map_of (svalues t1) (field_storage sc) = map_of (svalues s) (field_storage sc)"
    by (auto simp: new_aggregate_set_def)
  define t2 where "t2 = t1\<lparr>samples := samples s\<rparr>"
  have t2: "fvalue t2 (field_storage sc) = fvalue s (field_storage sc)" "svalue t2 (field_storage sc) = svalue s (field_storage sc)"
    if "sc \<in> set (q_select q)" for sc
    using t1(3) that by (auto simp: t2_def fvalue_def svalue_def lookup_zero_def)
  define n where "n = new_aggregate_set\<lparr>samples := samples s\<rparr>"
  have fresh: "\<forall>sc\<in>set (q_select q). map_of (fvalues n) (field_storage sc) = None \<and> map_of (svalues n) (field_storage sc) = None"
    by (simp add: n_def new_aggregate_set_def)
  have def': "\<forall>sc\<in>set (q_select q). sc_operation sc \<noteq> UndefAggregateOperation"
    using assms(10) column_ok_defined by blast
  from merge_loop_fresh[OF def' assms(9) fresh, of t2] obtain t where
    t: "merge_loop n t2 (q_select q) = (t, None)" "samples t = samples s"
      "\<forall>sc\<in>set (q_select q). (sc_operation sc \<noteq> Last \<longrightarrow> fvalue t (field_storage sc) = fvalue t2 (field_storage sc)) \<and>
         (sc_operation sc = Last \<or> sc_operation sc = Len \<longrightarrow> svalue t (field_storage sc) = svalue t2 (field_storage sc))"
    by (auto simp: n_def)
  have wrap: "wrap64 (samples s) = samples s" using assms(4,5) by (rule wrap64_id)
  have merge: "merge_set q new_aggregate_set t2 = (t, None)"
    using t(1) wrap by (simp add: merge_set_def n_def t2_def new_aggregate_set_def)
  define a1 where "a1 = (current_group st a)\<lparr>ca_group := []\<rparr>"
  define g where "g = \<lparr>g_sets = [(key, t)], sem_held = False\<rparr>"
  have p01: "?parts ! 0 = key" "?parts ! Suc 0 = itoa (samples s)" by (simp_all add: parts)
  have cg: "ca_group (current_group st a) = []" using assms(8) by (simp add: current_group_def)
  have "client_aggregate_message st a (serialize_set s key) = (st\<lparr>ss_global := Some g\<rparr>, a1, None)"
    using assms(6,7) len atoi_itoa[OF assms(4,5)] t1(1,2) merge wrap
    unfolding client_aggregate_message_def
    by (simp add: p01 cg get_set_def merge_noblock_def global_merge_def new_global_group_set_def Let_def a1_def g_def t2_def)
  then show ?thesis
    by (intro exI[of _ "st\<lparr>ss_global := Some g\<rparr>"] exI[of _ a1] exI[of _ g] exI[of _ t])
      (use t t2 in \<open>auto simp: g_def a1_def\<close>)
qed

lemma transmitted_set_arrives_witness:
  "\<exists>st' a'. client_aggregate_message
     (new_session_state (Some ((initial_query ''q'')\<lparr>q_select := [\<lparr>sc_field = ''x'', field_storage = ''sum(x)'', sc_operation = Sum\<rparr>]\<rparr>)))
     (new_client_aggregate ''srv'' None)
     (serialize_set \<lparr>samples = 2, fvalues = [(''sum(x)'', Fin 5)], svalues = []\<rparr> ''k'') = (st', a', None)"
proof -
  have f: "is_f64 (Fin 5)" using is_f64_int[of 5] by simp
  have c: "\<not> contains ''sum(x)'' aggregate_delimiter" "\<not> contains ''sum(x)'' aggregate_kv_delimiter"
    "\<not> contains ''k'' aggregate_delimiter"
    by (simp_all add: aggregate_delimiter_def aggregate_kv_delimiter_def contains_Cons)
  show ?thesis
    using transmitted_set_arrives[of "\<lparr>samples = 2, fvalues = [(''sum(x)'', Fin 5)], svalues = []\<rparr>" "''k''"
        "new_session_state (Some ((initial_query ''q'')\<lparr>q_select := [\<lparr>sc_field = ''x'', field_storage = ''sum(x)'', sc_operation = Sum\<rparr>]\<rparr>))"
        "(initial_query ''q'')\<lparr>q_select := [\<lparr>sc_field = ''x'', field_storage = ''sum(x)'', sc_operation = Sum\<rparr>]\<rparr>"
        "new_client_aggregate ''srv'' None"] f c
    by (auto simp: set_ok_def clean_set_def new_session_state_def new_client_aggregate_def storages_def
        column_ok_def column_present_def)
qed

end
