(* ===== verification/Group_Result.thy ===== *)
theory Group_Result
  imports Aggregates "HOL-Library.Multiset"
begin

text \<open>
  The result of a query (\<open>groupset.go\<close>, \<open>groupsetresult.go\<close>, \<open>result_renderer.go\<close>): the rows
  of a group set, their values and order, the table for the terminal and the CSV file. The
  files written are a map from paths to contents on which every operation succeeds.
\<close>

subsection \<open>Sorting and searching\<close>

fun insert_by :: "('a \<Rightarrow> 'a \<Rightarrow> bool) \<Rightarrow> 'a \<Rightarrow> 'a list \<Rightarrow> 'a list" where
  "insert_by lt x [] = [x]"
| "insert_by lt x (y # ys) = (if lt y x then y # insert_by lt x ys else x # y # ys)"

definition stable_sort :: "('a \<Rightarrow> 'a \<Rightarrow> bool) \<Rightarrow> 'a list \<Rightarrow> 'a list" where
  "stable_sort lt xs = foldr (insert_by lt) xs []"

lemma mset_insert_by [simp]: "mset (insert_by lt x ys) = add_mset x (mset ys)"
  by (induction ys) auto

lemma mset_stable_sort [simp]: "mset (stable_sort lt xs) = mset xs"
  by (induction xs) (simp_all add: stable_sort_def)

lemma length_stable_sort [simp]: "length (stable_sort lt xs) = length xs"
  using mset_stable_sort[of lt xs] by (metis size_mset)

lemma set_stable_sort [simp]: "set (stable_sort lt xs) = set xs"
  using mset_stable_sort[of lt xs] by (metis set_mset_mset)

lemma set_insert_by [simp]: "set (insert_by lt x ys) = insert x (set ys)"
  by (induction ys) auto

lemma sorted_insert_by:
  assumes "\<And>a b. lt a b \<Longrightarrow> \<not> lt b a"
    and "\<And>a b c. b \<in> insert x (set ys) \<Longrightarrow> \<not> lt a b \<Longrightarrow> \<not> lt b c \<Longrightarrow> \<not> lt a c"
    and "sorted_wrt (\<lambda>a b. \<not> lt b a) ys"
  shows "sorted_wrt (\<lambda>a b. \<not> lt b a) (insert_by lt x ys)"
  using assms(2,3)
proof (induction ys)
  case (Cons y ys)
  show ?case
  proof (cases "lt y x")
    case True
    then have "\<not> lt x y" using assms(1) by blast
    moreover have "sorted_wrt (\<lambda>a b. \<not> lt b a) (insert_by lt x ys)"
    proof (rule Cons.IH)
      fix a b c assume "b \<in> insert x (set ys)" "\<not> lt a b" "\<not> lt b c"
      then show "\<not> lt a c" using Cons.prems(1)[of b a c] by auto
    qed (use Cons.prems(2) in simp)
    ultimately show ?thesis using True Cons.prems(2) by simp
  next
    case False
    have "\<not> lt z x" if "z \<in> set ys" for z
      using Cons.prems(1)[of y z x] Cons.prems(2) that False by auto
    then show ?thesis using False Cons.prems(2) by auto
  qed
qed simp

lemma sorted_stable_sort:
  assumes "\<And>a b. lt a b \<Longrightarrow> \<not> lt b a"
    and "\<And>a b c. b \<in> set xs \<Longrightarrow> \<not> lt a b \<Longrightarrow> \<not> lt b c \<Longrightarrow> \<not> lt a c"
  shows "sorted_wrt (\<lambda>a b. \<not> lt b a) (stable_sort lt xs)"
  using assms(2)
proof (induction xs)
  case Nil
  then show ?case by (simp add: stable_sort_def)
next
  case (Cons x xs)
  have e: "stable_sort lt (x # xs) = insert_by lt x (stable_sort lt xs)" by (simp add: stable_sort_def)
  have srt: "sorted_wrt (\<lambda>a b. \<not> lt b a) (stable_sort lt xs)"
    using Cons by (metis list.set_intros(2))
  show ?case unfolding e
  proof (rule sorted_insert_by)
    show "\<And>a b. lt a b \<Longrightarrow> \<not> lt b a" by (fact assms(1))
    show "\<not> lt a c" if "b \<in> insert x (set (stable_sort lt xs))" "\<not> lt a b" "\<not> lt b c" for a b c
      using Cons.prems[of b a c] that by simp
  qed (fact srt)
qed

text \<open>Elements that the order does not separate keep their order.\<close>

lemma filter_insert_by:
  assumes "\<And>y. P y \<Longrightarrow> \<not> lt y x"
  shows "filter P (insert_by lt x ys) = (if P x then x # filter P ys else filter P ys)"
proof (induction ys)
  case (Cons y ys)
  then show ?case using assms[of y] by auto
qed simp

lemma stable_sort_ties:
  assumes "\<And>x y. x \<in> set xs \<Longrightarrow> P x \<Longrightarrow> P y \<Longrightarrow> \<not> lt y x"
    and "\<And>x y ys. \<not> P x \<Longrightarrow> filter P (insert_by lt x ys) = filter P ys"
  shows "filter P (stable_sort lt xs) = filter P xs"
  using assms(1)
proof (induction xs)
  case (Cons x xs)
  then have ih: "filter P (stable_sort lt xs) = filter P xs" by auto
  show ?case
  proof (cases "P x")
    case True
    then have "filter P (insert_by lt x (stable_sort lt xs)) = x # filter P (stable_sort lt xs)"
      using Cons.prems by (subst filter_insert_by) auto
    with ih True show ?thesis by (simp add: stable_sort_def)
  next
    case False
    then show ?thesis using ih assms(2)[OF False] by (simp add: stable_sort_def)
  qed
qed (simp add: stable_sort_def)

lemma filter_insert_by_skip: "\<not> P x \<Longrightarrow> filter P (insert_by lt x ys) = filter P ys"
  by (induction ys) auto

text \<open>\<open>sort.Search\<close>: the least index from which the condition holds.\<close>

function search :: "(nat \<Rightarrow> bool) \<Rightarrow> nat \<Rightarrow> nat \<Rightarrow> nat" where
  "search f i j =
     (if i < j then let h = (i + j) div 2 in if \<not> f h then search f (h + 1) j else search f i h else i)"
  by pat_completeness auto
termination
  by (relation "measure (\<lambda>(f, i, j). j - i)") auto

declare search.simps [simp del]

lemma search_spec:
  assumes "\<And>a b. a \<le> b \<Longrightarrow> b < n \<Longrightarrow> f a \<Longrightarrow> f b" and "i \<le> j" "j \<le> n"
    and "\<And>a. a < i \<Longrightarrow> \<not> f a" and "\<And>a. j \<le> a \<Longrightarrow> a < n \<Longrightarrow> f a"
  shows "(\<forall>a < search f i j. \<not> f a) \<and> (\<forall>a. search f i j \<le> a \<and> a < n \<longrightarrow> f a) \<and> search f i j \<le> n"
  using assms(2-5)
proof (induction "j - i" arbitrary: i j rule: less_induct)
  case less
  show ?case
  proof (cases "i < j")
    case True
    define h where "h = (i + j) div 2"
    have h: "i \<le> h" "h < j" "h < n" using True less.prems by (auto simp: h_def)
    show ?thesis
    proof (cases "f h")
      case True
      then have e: "search f i j = search f i h" using \<open>i < j\<close> by (subst search.simps) (simp add: h_def Let_def)
      have "\<And>a. h \<le> a \<Longrightarrow> a < n \<Longrightarrow> f a" using True assms(1) by blast
      then show ?thesis unfolding e using h less.prems by (intro less.hyps) auto
    next
      case False
      then have e: "search f i j = search f (h + 1) j" using \<open>i < j\<close> by (subst search.simps) (simp add: h_def Let_def)
      have "\<And>a. a < h + 1 \<Longrightarrow> \<not> f a" using False assms(1) h(3) by (metis less_Suc_eq_le Suc_eq_plus1)
      then show ?thesis unfolding e using h less.prems by (intro less.hyps) auto
    qed
  next
    case False
    then have "search f i j = i" by (subst search.simps) simp
    then show ?thesis using False less.prems by auto
  qed
qed

subsection \<open>Rows\<close>

record result_row =
  row_key :: gostr
  row_values :: "gostr list"
  row_order_by :: float64

record result_stats =
  percentage_totals :: "(gostr, float64) gomap"
  percentile_values :: "(gostr, float64 list) gomap"

definition sorted_group_keys :: "group_set \<Rightarrow> gostr list" where
  "sorted_group_keys g = sort (map fst g)"

text \<open>\<open>sort.Float64s\<close> puts NaN first.\<close>

definition float_less :: "float64 \<Rightarrow> float64 \<Rightarrow> bool" where
  "float_less a b = (f_lt a b \<or> a = NaN \<and> b \<noteq> NaN)"

definition stats_step :: "aggregate_set \<Rightarrow> result_stats \<Rightarrow> select_condition \<Rightarrow> result_stats" where
  "stats_step s st sc =
     (let k = field_storage sc; v = fvalue s k in
      case sc_operation sc of
        Percentage \<Rightarrow> st\<lparr>percentage_totals :=
          AList.update k (f_add (lookup_zero (Fin 0) (percentage_totals st) k) v) (percentage_totals st)\<rparr>
      | Percentile \<Rightarrow> st\<lparr>percentile_values :=
          AList.update k (lookup_zero [] (percentile_values st) k @ [v]) (percentile_values st)\<rparr>
      | _ \<Rightarrow> st)"

definition make_result_stats :: "group_set \<Rightarrow> query \<Rightarrow> result_stats" where
  "make_result_stats g q =
     (let st = foldl (\<lambda>st kv. foldl (stats_step (snd kv)) st (q_select q))
                \<lparr>percentage_totals = [], percentile_values = []\<rparr> g
      in st\<lparr>percentile_values := map (\<lambda>(k, vs). (k, stable_sort float_less vs)) (percentile_values st)\<rparr>)"

definition percentile_rank :: "float64 \<Rightarrow> float64 list \<Rightarrow> float64" where
  "percentile_rank v vs =
     (if vs = [] then Fin 0
      else f_mul (f_div (f_of_int (int (search (\<lambda>i. f_lt v (vs ! i)) 0 (length vs)))) (f_of_int (int (length vs)))) (Fin 100))"

definition select_value :: "select_condition \<Rightarrow> aggregate_set \<Rightarrow> result_stats \<Rightarrow> aggregate_error + float64 \<times> gostr" where
  "select_value sc s st =
     (let k = field_storage sc; f = fvalue s k in
      case sc_operation sc of
        Count \<Rightarrow> Inr (f, itoa (f_to_int f))
      | Len \<Rightarrow> Inr (f, format_fixed f)
      | Sum \<Rightarrow> Inr (f, format_fixed f)
      | Min \<Rightarrow> Inr (f, format_fixed f)
      | Max \<Rightarrow> Inr (f, format_fixed f)
      | Last \<Rightarrow> Inr (fst (parse_float (svalue s k)), svalue s k)
      | Avg \<Rightarrow>
          (let v = (if samples s = 0 then Fin 0 else f_div f (f_of_int (samples s))) in Inr (v, format_fixed v))
      | Percentage \<Rightarrow>
          (let total = lookup_zero (Fin 0) (percentage_totals st) k;
               v = (if f_eq total (Fin 0) then Fin 0 else f_mul (f_div f total) (Fin 100))
           in Inr (v, format_fixed v))
      | Percentile \<Rightarrow>
          (let v = percentile_rank f (lookup_zero [] (percentile_values st) k) in Inr (v, format_fixed v))
      | UndefAggregateOperation \<Rightarrow> Inl (UnknownMethod (sc_operation sc)))"

definition result_select :: "query \<Rightarrow> select_condition \<Rightarrow> aggregate_set \<Rightarrow> result_row \<Rightarrow> result_stats \<Rightarrow>
    aggregate_error + result_row \<times> nat" where
  "result_select q sc s row st =
     and_then (select_value sc s st) (\<lambda>(v, str).
       let row = (if field_storage sc = order_by q then row\<lparr>row_order_by := v\<rparr> else row)
       in Inr (row\<lparr>row_values := row_values row @ [str]\<rparr>, length str))"

definition widen :: "bool \<Rightarrow> nat list \<Rightarrow> nat \<Rightarrow> select_condition \<Rightarrow> nat \<Rightarrow> nat list" where
  "widen gather widths i sc len =
     (if \<not> gather then widths else widths[i := max (max (widths ! i) (length (field_storage sc))) len])"

fun result_columns :: "query \<Rightarrow> bool \<Rightarrow> aggregate_set \<Rightarrow> result_stats \<Rightarrow> nat \<Rightarrow> select_condition list \<Rightarrow>
    result_row \<times> nat list \<Rightarrow> aggregate_error + result_row \<times> nat list" where
  "result_columns q gather s st i [] acc = Inr acc"
| "result_columns q gather s st i (sc # scs) (row, widths) =
     and_then (result_select q sc s row st) (\<lambda>(row', len).
       result_columns q gather s st (i + 1) scs (row', widen gather widths i sc len))"

fun result_rows :: "query \<Rightarrow> bool \<Rightarrow> group_set \<Rightarrow> result_stats \<Rightarrow> gostr list \<Rightarrow> nat list \<Rightarrow>
    aggregate_error + result_row list \<times> nat list" where
  "result_rows q gather g st [] widths = Inr ([], widths)"
| "result_rows q gather g st (k # ks) widths =
     and_then (result_columns q gather (lookup_zero new_aggregate_set g k) st 0 (q_select q)
         (\<lparr>row_key = k, row_values = [], row_order_by = Fin 0\<rparr>, widths))
       (\<lambda>(row, widths'). and_then (result_rows q gather g st ks widths')
         (\<lambda>(rows, widths''). Inr (row # rows, widths'')))"

definition order_rows :: "query \<Rightarrow> result_row list \<Rightarrow> result_row list" where
  "order_rows q rows =
     (if order_by q = [] then rows
      else if reverse_order q then stable_sort (\<lambda>a b. f_lt (row_order_by a) (row_order_by b)) rows
      else stable_sort (\<lambda>a b. f_lt (row_order_by b) (row_order_by a)) rows)"

definition group_result :: "query \<Rightarrow> bool \<Rightarrow> group_set \<Rightarrow> aggregate_error + result_row list \<times> nat list" where
  "group_result q gather g =
     and_then (result_rows q gather g (make_result_stats g q) (sorted_group_keys g) (replicate (length (q_select q)) 0))
       (\<lambda>(rows, widths). Inr (order_rows q rows, widths))"

subsection \<open>The table for the terminal\<close>

text \<open>The runes of a string: a byte that starts no well-formed sequence is a rune by itself.\<close>

definition cont_byte :: "nat \<Rightarrow> nat \<Rightarrow> char \<Rightarrow> bool" where
  "cont_byte lo hi c = (lo \<le> of_char c \<and> of_char c \<le> hi)"

definition rune_size :: "gostr \<Rightarrow> nat" where
  "rune_size s =
     (case s of [] \<Rightarrow> 0
      | c # r \<Rightarrow>
        let n = of_char c :: nat; any = cont_byte 128 191 in
        if 194 \<le> n \<and> n \<le> 223 then
          (case r of d # _ \<Rightarrow> if any d then 2 else 1 | _ \<Rightarrow> 1)
        else if 224 \<le> n \<and> n \<le> 239 then
          (case r of d # e # _ \<Rightarrow>
             if cont_byte (if n = 224 then 160 else 128) (if n = 237 then 159 else 191) d \<and> any e then 3 else 1
           | _ \<Rightarrow> 1)
        else if 240 \<le> n \<and> n \<le> 244 then
          (case r of d # e # f # _ \<Rightarrow>
             if cont_byte (if n = 240 then 144 else 128) (if n = 244 then 143 else 191) d \<and> any e \<and> any f then 4 else 1
           | _ \<Rightarrow> 1)
        else 1)"

function rune_count :: "gostr \<Rightarrow> nat" where
  "rune_count s = (if s = [] then 0 else Suc (rune_count (drop (max 1 (rune_size s)) s)))"
  by pat_completeness auto
termination
  by (relation "measure length") auto

declare rune_count.simps [simp del]

text \<open>The verb \<open>%ns\<close> pads with blanks on the left.\<close>

definition pad_left :: "nat \<Rightarrow> gostr \<Rightarrow> gostr" where
  "pad_left n s = replicate (n - rune_count s) CHR '' '' @ s"

text \<open>A renderer gives the text that each of its methods appends.\<close>

record result_renderer =
  header_entry :: "gostr \<Rightarrow> bool \<Rightarrow> bool \<Rightarrow> gostr"
  header_delimiter :: "gostr \<Rightarrow> gostr"
  data_entry :: "gostr \<Rightarrow> gostr"
  data_delimiter :: "gostr \<Rightarrow> gostr"

definition plain_renderer :: result_renderer where
  "plain_renderer = \<lparr>header_entry = (\<lambda>t sort_key group_key. t), header_delimiter = (\<lambda>t. t),
     data_entry = (\<lambda>t. t), data_delimiter = (\<lambda>t. t)\<rparr>"

definition newline :: gostr where "newline = [CHR 0x0A]"

definition table_cell :: "nat \<Rightarrow> gostr \<Rightarrow> gostr" where
  "table_cell w s = '' '' @ pad_left w s @ '' ''"

definition write_header :: "query \<Rightarrow> result_renderer \<Rightarrow> nat list \<Rightarrow> gostr" where
  "write_header q r widths =
     join (header_delimiter r ''|'')
       (map (\<lambda>(w, sc). header_entry r (table_cell w (field_storage sc)) (field_storage sc = order_by q)
                (field_storage sc \<in> set (group_by q))) (zip widths (q_select q))) @ newline"

definition write_separator :: "query \<Rightarrow> result_renderer \<Rightarrow> nat list \<Rightarrow> gostr" where
  "write_separator q r widths =
     join (header_delimiter r ''|'') (map (\<lambda>w. header_delimiter r (''-'' @ replicate w CHR ''-'' @ ''-'')) widths) @ newline"

definition limit_rows :: "int \<Rightarrow> 'a list \<Rightarrow> 'a list" where
  "limit_rows n rows = (if n < 0 then rows else take (nat n) rows)"

definition write_row :: "result_renderer \<Rightarrow> nat list \<Rightarrow> gostr list \<Rightarrow> gostr" where
  "write_row r widths vs =
     join (data_delimiter r ''|'') (map (\<lambda>(w, v). data_entry r (table_cell w v)) (zip widths vs)) @ newline"

definition result_table :: "query \<Rightarrow> int \<Rightarrow> result_renderer option \<Rightarrow> group_set \<Rightarrow> aggregate_error + gostr \<times> nat" where
  "result_table q rows_limit renderer g =
     and_then (group_result q True g) (\<lambda>(rows, widths).
       let rows_limit = (if limit q \<noteq> - 1 then limit q else rows_limit);
           r = (case renderer of None \<Rightarrow> plain_renderer | Some r \<Rightarrow> r)
       in Inr (write_header q r widths @ write_separator q r widths @
               concat (map (\<lambda>row. write_row r widths (row_values row)) (limit_rows rows_limit rows)), length rows))"

subsection \<open>The CSV file\<close>

type_synonym file_system = "(gostr, gostr) gomap"

definition csv_line :: "gostr list \<Rightarrow> gostr" where
  "csv_line vs = join '','' vs @ newline"

definition csv_text :: "query \<Rightarrow> bool \<Rightarrow> result_row list \<Rightarrow> gostr" where
  "csv_text q header rows =
     (if header then csv_line (map field_storage (q_select q)) else []) @
     concat (map (\<lambda>r. csv_line (row_values r)) (limit_rows (limit q) rows))"

definition rename_file :: "gostr \<Rightarrow> gostr \<Rightarrow> file_system \<Rightarrow> file_system" where
  "rename_file from to fs =
     (case map_of fs from of None \<Rightarrow> fs | Some c \<Rightarrow> AList.update to c (AList.delete from fs))"

definition write_query_file :: "query \<Rightarrow> outfile \<Rightarrow> file_system \<Rightarrow> file_system" where
  "write_query_file q out fs =
     (let file = file_path out @ ''.query''; tmp = file @ ''.tmp''
      in rename_file tmp file (AList.update tmp (raw_query q) fs))"

datatype write_error = NoOutfile | ResultError aggregate_error

definition write_result :: "query \<Rightarrow> group_set \<Rightarrow> file_system \<Rightarrow> file_system \<times> write_error option" where
  "write_result q g fs =
     (case q_outfile q of None \<Rightarrow> (fs, Some NoOutfile)
      | Some out \<Rightarrow>
          let fs = write_query_file q out fs; path = file_path out in
          case group_result q False g of Inl e \<Rightarrow> (fs, Some (ResultError e))
          | Inr (rows, _) \<Rightarrow>
              let header = (if append_mode out then (case map_of fs path of Some c \<Rightarrow> c = [] | None \<Rightarrow> True) else True);
                  text = csv_text q header rows
              in if append_mode out
                 then (AList.update path (lookup_zero [] fs path @ text) fs, None)
                 else (rename_file (path @ ''.tmp'') path (AList.update (path @ ''.tmp'') text fs), None))"

subsection \<open>Properties\<close>

lemma float_less_asym: "float_less a b \<Longrightarrow> \<not> float_less b a"
  using f_lt_asym[of a b] f_lt_not_NaN[of a b] f_lt_not_NaN[of b a] by (auto simp: float_less_def)

lemma float_less_neg_trans: "\<not> float_less a b \<Longrightarrow> \<not> float_less b c \<Longrightarrow> \<not> float_less a c"
  using f_not_lt_trans[of b a c] by (auto simp: float_less_def f_lt_def split: if_splits)

lemma sorted_floats: "sorted_wrt (\<lambda>a b. \<not> float_less b a) (stable_sort float_less vs)"
  by (rule sorted_stable_sort) (use float_less_asym float_less_neg_trans in blast)+

lemma search_filter:
  assumes "\<And>a b. a \<le> b \<Longrightarrow> b < length xs \<Longrightarrow> P (xs ! a) \<Longrightarrow> P (xs ! b)"
  shows "search (\<lambda>i. P (xs ! i)) 0 (length xs) = length (filter (\<lambda>x. \<not> P x) xs)"
proof -
  define n where "n = search (\<lambda>i. P (xs ! i)) 0 (length xs)"
  have "(\<forall>a<n. \<not> P (xs ! a)) \<and> (\<forall>a. n \<le> a \<and> a < length xs \<longrightarrow> P (xs ! a)) \<and> n \<le> length xs"
    unfolding n_def by (rule search_spec) (use assms in simp_all)
  then have n: "\<forall>a<n. \<not> P (xs ! a)" "\<forall>a. n \<le> a \<and> a < length xs \<longrightarrow> P (xs ! a)" "n \<le> length xs"
    by blast+
  have "filter (\<lambda>x. \<not> P x) (take n xs) = take n xs"
    using n(1,3) by (auto simp: filter_id_conv in_set_conv_nth)
  moreover have "filter (\<lambda>x. \<not> P x) (drop n xs) = []"
    using n(2) by (auto simp: filter_empty_conv in_set_conv_nth)
  ultimately have "filter (\<lambda>x. \<not> P x) xs = take n xs"
    by (metis append_Nil2 append_take_drop_id filter_append)
  then show ?thesis using n(3) by (simp add: n_def)
qed

lemma percentile_search:
  "search (\<lambda>i. f_lt v (stable_sort float_less vs ! i)) 0 (length vs) = length (filter (\<lambda>x. \<not> f_lt v x) vs)"
proof -
  let ?s = "stable_sort float_less vs"
  have mono: "f_lt v (?s ! b)" if "a \<le> b" "b < length ?s" "f_lt v (?s ! a)" for a b
  proof (cases "a = b")
    case False
    then have "\<not> float_less (?s ! b) (?s ! a)"
      using sorted_floats[of vs] that by (simp add: sorted_wrt_iff_nth_less)
    then show ?thesis using that(3) by (auto simp: float_less_def f_lt_def split: if_splits)
  qed (use that in simp)
  have "search (\<lambda>i. f_lt v (?s ! i)) 0 (length ?s) = length (filter (\<lambda>x. \<not> f_lt v x) ?s)"
    by (rule search_filter) (use mono in blast)
  also have "\<dots> = size (filter_mset (\<lambda>x. \<not> f_lt v x) (mset ?s))" by (metis mset_filter size_mset)
  also have "\<dots> = length (filter (\<lambda>x. \<not> f_lt v x) vs)"
    by (metis mset_stable_sort mset_filter size_mset)
  finally show ?thesis by simp
qed

lemma stable_sort_Nil_iff [simp]: "stable_sort lt xs = [] \<longleftrightarrow> xs = []"
  using length_stable_sort[of lt xs] by (metis length_0_conv)

lemma percentile_rank_sorted:
  "percentile_rank v (stable_sort float_less vs) =
     (if vs = [] then Fin 0
      else f_mul (f_div (f_of_int (int (length (filter (\<lambda>x. \<not> f_lt v x) vs)))) (f_of_int (int (length vs)))) (Fin 100))"
  by (simp add: percentile_rank_def percentile_search)

text \<open>
  The percentile of a group is the share, in percent, of the groups whose value does not
  exceed its own: the binary search over the sorted values counts them.
\<close>

theorem percentile_rank_counts:
  "percentile_rank v (stable_sort float_less vs) =
     (if vs = [] then Fin 0
      else f_mul (f_div (f_of_int (int (length (filter (\<lambda>x. \<not> f_lt v x) vs)))) (f_of_int (int (length vs)))) (Fin 100))"
  by (fact percentile_rank_sorted)

lemma percentile_rank_mset:
  assumes "mset vs = mset ws"
  shows "percentile_rank v (stable_sort float_less vs) = percentile_rank v (stable_sort float_less ws)"
proof -
  have "length (filter P vs) = length (filter P ws)" for P
    using assms by (metis mset_filter size_mset)
  moreover have "vs = [] \<longleftrightarrow> ws = []" using assms by (metis mset_zero_iff)
  moreover have "length vs = length ws" using assms by (metis size_mset)
  ultimately show ?thesis unfolding percentile_rank_sorted by simp
qed

subsubsection \<open>The order of the map\<close>

definition pvalues :: "result_stats \<Rightarrow> gostr \<Rightarrow> float64 list" where
  "pvalues st k = lookup_zero [] (percentile_values st) k"

definition percentile_columns :: "query \<Rightarrow> gostr \<Rightarrow> select_condition list" where
  "percentile_columns q k = filter (\<lambda>sc. sc_operation sc = Percentile \<and> field_storage sc = k) (q_select q)"

lemma pvalues_step:
  "mset (pvalues (foldl (stats_step s) st scs) k) =
     mset (pvalues st k) +
     mset (map (\<lambda>_. fvalue s k) (filter (\<lambda>sc. sc_operation sc = Percentile \<and> field_storage sc = k) scs))"
proof (induction scs arbitrary: st)
  case (Cons sc scs)
  have "mset (pvalues (stats_step s st sc) k) = mset (pvalues st k) +
      (if sc_operation sc = Percentile \<and> field_storage sc = k then {#fvalue s k#} else {#})"
    by (cases "sc_operation sc") (auto simp: stats_step_def pvalues_def Let_def lookup_zero_update)
  with Cons show ?case by simp
qed simp

lemma pvalues_fold:
  "mset (pvalues (foldl (\<lambda>st kv. foldl (stats_step (snd kv)) st (q_select q)) st g) k) =
     mset (pvalues st k) + (\<Sum>kv\<in>#mset g. mset (map (\<lambda>_. fvalue (snd kv) k) (percentile_columns q k)))"
proof (induction g arbitrary: st)
  case (Cons kv g)
  then show ?case by (simp add: pvalues_step percentile_columns_def)
qed simp

lemma pvalues_result:
  "\<exists>vs. pvalues (make_result_stats g q) k = stable_sort float_less vs \<and>
     mset vs = (\<Sum>kv\<in>#mset g. mset (map (\<lambda>_. fvalue (snd kv) k) (percentile_columns q k)))"
proof -
  define st where "st = foldl (\<lambda>st kv. foldl (stats_step (snd kv)) st (q_select q))
      \<lparr>percentage_totals = [], percentile_values = []\<rparr> g"
  have "pvalues (make_result_stats g q) k = stable_sort float_less (pvalues st k)"
    unfolding make_result_stats_def st_def[symmetric]
    by (simp add: pvalues_def lookup_zero_def map_of_map stable_sort_def split: option.splits)
  moreover have "mset (pvalues st k) = (\<Sum>kv\<in>#mset g. mset (map (\<lambda>_. fvalue (snd kv) k) (percentile_columns q k)))"
    unfolding st_def by (subst pvalues_fold) (simp add: pvalues_def)
  ultimately show ?thesis by blast
qed

lemma select_value_order:
  assumes "mset g = mset g'" and "sc_operation sc \<noteq> Percentage"
  shows "select_value sc s (make_result_stats g q) = select_value sc s (make_result_stats g' q)"
proof -
  obtain vs where vs: "pvalues (make_result_stats g q) (field_storage sc) = stable_sort float_less vs"
    "mset vs = (\<Sum>kv\<in>#mset g. mset (map (\<lambda>_. fvalue (snd kv) (field_storage sc)) (percentile_columns q (field_storage sc))))"
    using pvalues_result by blast
  obtain ws where ws: "pvalues (make_result_stats g' q) (field_storage sc) = stable_sort float_less ws"
    "mset ws = (\<Sum>kv\<in>#mset g'. mset (map (\<lambda>_. fvalue (snd kv) (field_storage sc)) (percentile_columns q (field_storage sc))))"
    using pvalues_result by blast
  have "mset vs = mset ws" using vs(2) ws(2) assms(1) by simp
  then have "percentile_rank v (stable_sort float_less vs) = percentile_rank v (stable_sort float_less ws)" for v
    by (rule percentile_rank_mset)
  then show ?thesis
    using assms(2) vs(1) ws(1) by (cases "sc_operation sc") (simp_all add: select_value_def Let_def pvalues_def)
qed

lemma result_columns_order:
  assumes "\<forall>sc\<in>set scs. \<forall>s. select_value sc s st = select_value sc s st'"
  shows "result_columns q gather s st i scs acc = result_columns q gather s st' i scs acc"
  using assms
proof (induction scs arbitrary: i acc)
  case (Cons sc scs)
  have "result_select q sc s row st = result_select q sc s row st'" for row
    using Cons.prems by (simp add: result_select_def)
  then show ?case using Cons by (cases acc) simp
qed simp

lemma result_rows_order:
  assumes "map_of g = map_of g'" and "\<forall>sc\<in>set (q_select q). \<forall>s. select_value sc s st = select_value sc s st'"
  shows "result_rows q gather g st ks widths = result_rows q gather g' st' ks widths"
proof (induction ks arbitrary: widths)
  case (Cons k ks)
  have "lookup_zero new_aggregate_set g k = lookup_zero new_aggregate_set g' k" using assms(1) by (simp add: lookup_zero_def)
  then show ?case using Cons result_columns_order[OF assms(2)] by simp
qed simp



lemma result_columns_key: "result_columns q gather s st i scs (row, w) = Inr (row', w') \<Longrightarrow> row_key row' = row_key row"
proof (induction scs arbitrary: i row w)
  case (Cons sc scs)
  then show ?case
    by (fastforce simp: and_then_Inr result_select_def Let_def split: prod.splits if_splits)
qed simp

lemma result_rows_keys: "result_rows q gather g st ks w = Inr (rows, w') \<Longrightarrow> map row_key rows = ks"
proof (induction ks arbitrary: w rows w')
  case (Cons k ks)
  then show ?case
    by (fastforce simp: and_then_Inr dest: result_columns_key split: prod.splits)
qed simp

lemma mset_order_rows [simp]: "mset (order_rows q rows) = mset rows"
  by (simp add: order_rows_def)



lemma map_of_rename:
  "from \<noteq> to \<Longrightarrow> gomap_wf fs \<Longrightarrow> map_of (rename_file from to (AList.update from c fs)) k =
     (if k = to then Some c else if k = from then None else map_of fs k)"
  by (auto simp: rename_file_def delete_conv')

lemma rename_wf: "gomap_wf fs \<Longrightarrow> gomap_wf (rename_file from to fs)"
  by (simp add: rename_file_def split: option.splits)

text \<open>
  The outfile is replaced as a whole: after a write the file holds exactly the CSV text
  (in append mode the old text followed by the new one, with a header only where the file
  was empty or missing), no temporary file is left, and no file but the outfile and the
  query file has changed.
\<close>

theorem write_result_replaces:
  assumes "gomap_wf fs" and "q_outfile q = Some out" and "group_result q False g = Inr (rows, w)"
    and "write_result q g fs = (fs', e)"
  shows "e = None \<and>
    map_of fs' (file_path out) =
      Some (if append_mode out then lookup_zero [] fs (file_path out) @ csv_text q (lookup_zero [] fs (file_path out) = []) rows
            else csv_text q True rows) \<and>
    map_of fs' (file_path out @ ''.query'') = Some (raw_query q) \<and>
    map_of fs' (file_path out @ ''.query.tmp'') = None \<and>
    (\<not> append_mode out \<longrightarrow> map_of fs' (file_path out @ ''.tmp'') = None) \<and>
    (\<forall>k. k \<notin> {file_path out, file_path out @ ''.query'', file_path out @ ''.query.tmp'', file_path out @ ''.tmp''} \<longrightarrow>
      map_of fs' k = map_of fs k)"
proof -
  define fs1 where "fs1 = write_query_file q out fs"
  have k1: "map_of fs1 k = (if k = file_path out @ ''.query'' then Some (raw_query q)
      else if k = file_path out @ ''.query.tmp'' then None else map_of fs k)" for k
    using map_of_rename[OF _ assms(1), of "file_path out @ ''.query.tmp''" "file_path out @ ''.query''" "raw_query q" k]
    by (simp add: fs1_def write_query_file_def Let_def)
  have wf1: "gomap_wf fs1" using assms(1) by (simp add: fs1_def write_query_file_def Let_def rename_wf)
  show ?thesis
  proof (cases "append_mode out")
    case True
    have "lookup_zero [] fs1 (file_path out) = lookup_zero [] fs (file_path out)"
      by (simp add: lookup_zero_def k1)
    moreover have "(case map_of fs1 (file_path out) of Some c \<Rightarrow> c = [] | None \<Rightarrow> True) =
        (lookup_zero [] fs (file_path out) = [])"
      by (simp add: lookup_zero_def k1 split: option.splits)
    ultimately show ?thesis
      using assms(2-4) True by (auto simp: write_result_def Let_def fs1_def[symmetric] k1)
  next
    case False
    have fs': "fs' = rename_file (file_path out @ ''.tmp'') (file_path out)
          (AList.update (file_path out @ ''.tmp'') (csv_text q True rows) fs1)" and e: "e = None"
      using assms(2-4) False by (auto simp: write_result_def Let_def fs1_def[symmetric])
    have "map_of fs' k = (if k = file_path out then Some (csv_text q True rows)
        else if k = file_path out @ ''.tmp'' then None else map_of fs1 k)" for k
      unfolding fs' by (rule map_of_rename) (use wf1 in simp_all)
    then show ?thesis using False e by (simp add: k1)
  qed
qed

lemma write_result_replaces_witness:
  "\<exists>fs'. write_result (sample_plan_query\<lparr>q_outfile := Some \<lparr>file_path = ''o'', append_mode = False\<rparr>\<rparr>) [] [(''o.tmp'', ''x'')] = (fs', None) \<and>
     map_of fs' ''o.tmp'' = None"
proof -
  define q where "q = sample_plan_query\<lparr>q_outfile := Some \<lparr>file_path = ''o'', append_mode = False\<rparr>\<rparr>"
  have r: "group_result q False [] = Inr ([], [0])"
    by (simp add: group_result_def sorted_group_keys_def order_rows_def q_def sample_plan_query_def initial_query_def)
  obtain fs' e where w: "write_result q [] [(''o.tmp'', ''x'')] = (fs', e)" by fastforce
  have o: "q_outfile q = Some \<lparr>file_path = ''o'', append_mode = False\<rparr>" by (simp add: q_def)
  from write_result_replaces[OF _ o r w] show ?thesis using w by (auto simp: q_def)
qed

end
