(* ===== verification/Regex.thy ===== *)
theory Regex
  imports GoStrings
begin

text \<open>
  The filter expressions of \<open>internal/regex\<close>, the line context of \<open>internal/lcontext\<close> and the
  modes of \<open>internal/omode\<close>. The regular expression engine of Go is a parameter:
  \<open>compile\<close> gives a program or an error, \<open>rmatch\<close> searches a text for it. What the code relies
  on is that a pattern without metacharacters is found exactly where it occurs as a text.
\<close>

subsection \<open>Flags and expressions\<close>

datatype flag = Undefined | Default | Invert | Noop

definition new_flag :: "gostr \<Rightarrow> flag option" where
  "new_flag s =
     (if s = ''default'' then Some Default else if s = ''invert'' then Some Invert
      else if s = ''noop'' then Some Noop else None)"

definition flag_string :: "flag \<Rightarrow> gostr" where
  "flag_string f =
     (case f of Default \<Rightarrow> ''default'' | Invert \<Rightarrow> ''invert'' | Noop \<Rightarrow> ''noop'' | Undefined \<Rightarrow> ''undefined'')"

record 'r regex =
  regex_str :: gostr
  re :: "'r option"
  flags :: "flag list"
  initialized :: bool
  is_literal :: bool
  literal_str :: gostr

definition meta_chars :: gostr where
  "meta_chars = ''.+*?^$[]{}()|'' @ [CHR 0x5C]"

definition is_literal_pattern :: "gostr \<Rightarrow> bool" where
  "is_literal_pattern p = (\<forall>c\<in>set p. c \<notin> set meta_chars)"

definition zero_regex :: "'r regex" where
  "zero_regex = \<lparr>regex_str = [], re = None, flags = [], initialized = False, is_literal = False, literal_str = []\<rparr>"

definition new_noop :: "'r regex" where
  "new_noop = zero_regex\<lparr>flags := [Noop], initialized := True\<rparr>"

datatype regex_error =
    CompileError gostr
  | NotInitialized
  | NotARegex gostr
  | UnknownFlag gostr

definition new_with_flags :: "(gostr \<Rightarrow> 'r option) \<Rightarrow> gostr \<Rightarrow> flag list \<Rightarrow> regex_error + 'r regex" where
  "new_with_flags compile s fs =
     (let fs = (if fs = [] then [Default] else fs);
          r = zero_regex\<lparr>regex_str := s, flags := fs\<rparr> in
      if is_literal_pattern s then
        (case compile s of None \<Rightarrow> Inl (CompileError s)
         | Some prog \<Rightarrow> Inr (r\<lparr>is_literal := True, literal_str := s, initialized := True, re := Some prog\<rparr>))
      else
        (case compile s of None \<Rightarrow> Inl (CompileError s)
         | Some prog \<Rightarrow> Inr (r\<lparr>re := Some prog, initialized := True\<rparr>)))"

definition new_regex :: "(gostr \<Rightarrow> 'r option) \<Rightarrow> gostr \<Rightarrow> flag \<Rightarrow> regex_error + 'r regex" where
  "new_regex compile s f =
     (if s = [] \<or> s = ''.'' \<or> s = ''.*'' then Inr new_noop else new_with_flags compile s [f])"

text \<open>
  \<open>Match\<close> and \<open>MatchString\<close> are the same function on bytes. \<open>None\<close> is the call of a method of
  a nil program.
\<close>

definition match :: "('r \<Rightarrow> gostr \<Rightarrow> bool) \<Rightarrow> 'r regex \<Rightarrow> gostr \<Rightarrow> bool option" where
  "match rmatch r b =
     (case flags r of [] \<Rightarrow> Some True
      | f # _ \<Rightarrow>
          if is_literal r then
            (case f of Default \<Rightarrow> Some (contains b (literal_str r))
             | Invert \<Rightarrow> Some (\<not> contains b (literal_str r))
             | Noop \<Rightarrow> Some True
             | Undefined \<Rightarrow> Some False)
          else
            (case f of Default \<Rightarrow> map_option (\<lambda>prog. rmatch prog b) (re r)
             | Invert \<Rightarrow> map_option (\<lambda>prog. \<not> rmatch prog b) (re r)
             | Noop \<Rightarrow> Some True
             | Undefined \<Rightarrow> Some False))"

definition serialize_regex :: "'r regex \<Rightarrow> regex_error + gostr" where
  "serialize_regex r =
     (let fs = map flag_string (flags r) in
      if \<not> initialized r then Inl NotInitialized
      else Inr (''regex:'' @ join '','' (fs @ (if is_literal r then [''literal''] else [])) @ '' '' @ regex_str r))"

text \<open>The flags of a serialized expression and whether the literal hint is among them.\<close>

fun parse_flags :: "gostr list \<Rightarrow> regex_error + flag list \<times> bool" where
  "parse_flags [] = Inr ([], False)"
| "parse_flags (s # ss) =
     (if s = ''literal'' then and_then (parse_flags ss) (\<lambda>(fs, l). Inr (fs, True))
      else case new_flag s of None \<Rightarrow> Inl (UnknownFlag s)
        | Some f \<Rightarrow> and_then (parse_flags ss) (\<lambda>(fs, l). Inr (f # fs, l)))"

definition deserialize_regex :: "(gostr \<Rightarrow> 'r option) \<Rightarrow> gostr \<Rightarrow> regex_error + 'r regex" where
  "deserialize_regex compile str =
     (case split_n '' '' 2 str of
        [flags_str, s] \<Rightarrow>
          if \<not> has_prefix flags_str ''regex'' then Inl (NotARegex str)
          else
            and_then
              (if contains flags_str '':'' then parse_flags (split '','' (split_n '':'' 2 flags_str ! 1))
               else Inr ([], False))
              (\<lambda>(fs, force_literal).
                 and_then (new_with_flags compile s fs) (\<lambda>r.
                   Inr (if force_literal \<and> \<not> is_literal r then r\<lparr>is_literal := True, literal_str := s\<rparr> else r)))
      | _ \<Rightarrow> Inr new_noop)"

subsection \<open>Line context and mode\<close>

record lcontext =
  after_context :: int
  before_context :: int
  ltx_max_count :: int

definition ltx_has :: "lcontext \<Rightarrow> bool" where
  "ltx_has c =
     (if after_context c > 0 then True
      else if before_context c > 0 then True
      else if ltx_max_count c > 0 then True else False)"

datatype mode = UnknownMode | ServerMode | TailClient | CatClient | GrepClient | MapClient | HealthClient

definition mode_string :: "mode \<Rightarrow> gostr" where
  "mode_string m =
     (case m of ServerMode \<Rightarrow> ''server'' | TailClient \<Rightarrow> ''tail'' | CatClient \<Rightarrow> ''cat'' | GrepClient \<Rightarrow> ''grep''
      | MapClient \<Rightarrow> ''map'' | HealthClient \<Rightarrow> ''health'' | UnknownMode \<Rightarrow> ''unknown'')"

subsection \<open>Properties\<close>

lemma new_flag_string: "f \<noteq> Undefined \<Longrightarrow> new_flag (flag_string f) = Some f"
  by (cases f) (simp_all add: new_flag_def flag_string_def)

lemma flag_string_clean: "\<not> contains (flag_string f) '',''" "flag_string f \<noteq> ''literal''"
  by (cases f; simp add: flag_string_def)+

text \<open>
  The shortcut for literal patterns is sound. For an engine that finds a pattern without
  metacharacters exactly where it occurs as a text, matching an expression gives the same
  answer as running the engine on its pattern, inverted for an inverting expression; and no
  expression made by \<open>New\<close> ever reaches a nil program.
\<close>

theorem literal_match_sound:
  assumes "\<And>p prog b. is_literal_pattern p \<Longrightarrow> compile p = Some prog \<Longrightarrow> rmatch prog b = contains b p"
    and "new_regex compile s f = Inr r" and "f = Default \<or> f = Invert"
  shows "match rmatch r b =
    (if s = [] \<or> s = ''.'' \<or> s = ''.*'' then Some True
     else map_option (\<lambda>prog. if f = Invert then \<not> rmatch prog b else rmatch prog b) (compile s)) \<and>
    match rmatch r b \<noteq> None"
  using assms(2,3)
  by (auto simp: new_regex_def new_with_flags_def match_def new_noop_def zero_regex_def Let_def assms(1)
      split: if_splits option.splits)

text \<open>An engine that understands literal patterns only.\<close>

definition literal_compile :: "gostr \<Rightarrow> gostr option" where
  "literal_compile p = (if is_literal_pattern p then Some p else None)"

definition literal_match :: "gostr \<Rightarrow> gostr \<Rightarrow> bool" where
  "literal_match p b = contains b p"

lemma literal_match_sound_witness:
  "case new_regex literal_compile ''ab'' Invert of Inr r \<Rightarrow> match literal_match r ''xaby'' = Some False | Inl e \<Rightarrow> False"
proof -
  obtain r where r: "new_regex literal_compile ''ab'' Invert = Inr r"
    by (simp add: new_regex_def new_with_flags_def literal_compile_def is_literal_pattern_def meta_chars_def Let_def)
  have c: "contains ''xaby'' ''ab''" by (simp add: contains_Cons)
  have "match literal_match r ''xaby'' =
      map_option (\<lambda>prog. \<not> literal_match prog ''xaby'') (literal_compile ''ab'')"
    using literal_match_sound[of literal_compile literal_match "''ab''" Invert r "''xaby''"] r
    by (auto simp: literal_compile_def literal_match_def split: if_splits)
  then show ?thesis using r c by (simp add: literal_compile_def literal_match_def is_literal_pattern_def meta_chars_def)
qed

lemma regex_parts:
  assumes "\<forall>f\<in>set fs. f \<noteq> Undefined"
  shows "parse_flags (map flag_string fs @ (if l then [''literal''] else [])) = Inr (fs, l)"
  using assms by (induction fs) (auto simp: flag_string_clean new_flag_string)

lemma flags_text_no_blank:
  "CHR '' '' \<notin> set (join '','' (map flag_string fs @ (if l then [''literal''] else [])))"
proof -
  have j: "CHR '' '' \<notin> set (join '','' xs)" if "\<forall>x\<in>set xs. CHR '' '' \<notin> set x" for xs
    using that by (induction "'',''" xs rule: join.induct) auto
  show ?thesis by (rule j) (auto simp: flag_string_def split: flag.splits)
qed

lemma deserialize_serialize:
  assumes "initialized r" and "\<forall>f\<in>set (flags r). f \<noteq> Undefined" and "flags r \<noteq> []"
    and "serialize_regex r = Inr t"
  shows "deserialize_regex compile t =
    and_then (new_with_flags compile (regex_str r) (flags r)) (\<lambda>r'.
      Inr (if is_literal r \<and> \<not> is_literal r' then r'\<lparr>is_literal := True, literal_str := regex_str r\<rparr> else r'))"
proof -
  let ?l = "if is_literal r then [''literal''] else []"
  let ?fs = "join '','' (map flag_string (flags r) @ ?l)"
  have t: "t = (''regex:'' @ ?fs) @ '' '' @ regex_str r"
    using assms(1,4) by (simp add: serialize_regex_def Let_def)
  have "split_n '' '' 2 t = [''regex:'' @ ?fs, regex_str r]"
    unfolding t using split_n_append[of "'' ''" "''regex:'' @ ?fs" 0 "regex_str r"] flags_text_no_blank[of "flags r" "is_literal r"]
    by (simp add: numeral_2_eq_2)
  moreover have "split_n '':'' 2 (''regex:'' @ ?fs) = [''regex'', ?fs]"
    using split_n_append[of "'':''" "''regex''" 0 ?fs] by (simp add: numeral_2_eq_2)
  moreover have "split '','' ?fs = map flag_string (flags r) @ ?l"
    using assms(3) flag_string_clean(1) by (intro split_join) auto
  ultimately show ?thesis
    unfolding deserialize_regex_def
    using regex_parts[OF assms(2), of "is_literal r"] by (simp add: case_prod_beta)
qed

text \<open>
  C7: An expression survives the wire. What the server deserializes from the text the client
  sends matches every line as the expression of the client does, whatever blanks, colons and
  commas the pattern holds.
\<close>

theorem regex_wire_roundtrip:
  assumes "new_regex compile s f = Inr r" and "f = Default \<or> f = Invert \<or> f = Noop" and "compile [] \<noteq> None"
  shows "\<exists>t r'. serialize_regex r = Inr t \<and> deserialize_regex compile t = Inr r' \<and>
    (\<forall>b. match rmatch r' b = match rmatch r b)"
proof -
  have init: "initialized r" and fl: "\<forall>f\<in>set (flags r). f \<noteq> Undefined" "flags r \<noteq> []"
    using assms(1,2)
    by (auto simp: new_regex_def new_with_flags_def new_noop_def zero_regex_def Let_def split: if_splits option.splits)
  obtain t where t: "serialize_regex r = Inr t" using init by (simp add: serialize_regex_def Let_def)
  show ?thesis
  proof (cases "s = [] \<or> s = ''.'' \<or> s = ''.*''")
    case True
    then have r: "r = new_noop" using assms(1) by (simp add: new_regex_def)
    obtain prog where "compile [] = Some prog" using assms(3) by blast
    then show ?thesis
      using deserialize_serialize[OF init fl t, of compile] t
      by (auto simp: r new_with_flags_def match_def new_noop_def zero_regex_def is_literal_pattern_def Let_def)
  next
    case False
    then have n: "new_with_flags compile s [f] = Inr r" using assms(1) by (simp add: new_regex_def)
    then have "regex_str r = s" "flags r = [f]"
      by (auto simp: new_with_flags_def zero_regex_def Let_def split: if_splits option.splits)
    then show ?thesis using deserialize_serialize[OF init fl t, of compile] t n by auto
  qed
qed

lemma regex_wire_roundtrip_witness:
  "\<exists>r t r'. new_regex literal_compile ''a b:c,d'' Invert = Inr r \<and> serialize_regex r = Inr t \<and>
     deserialize_regex literal_compile t = Inr r'"
proof -
  obtain r where r: "new_regex literal_compile ''a b:c,d'' Invert = Inr r"
    by (simp add: new_regex_def new_with_flags_def literal_compile_def is_literal_pattern_def meta_chars_def Let_def)
  have "literal_compile [] \<noteq> None" by (simp add: literal_compile_def is_literal_pattern_def)
  with regex_wire_roundtrip[OF r, of literal_match] r show ?thesis by blast
qed

end
