(* ===== verification/Line_Filter.thy ===== *)
theory Line_Filter
  imports Line_Processor GoFloat Regex
begin

text \<open>
  The filter between a file reader and a line processor (\<open>internal/io/fs/stats.go\<close> and the
  filtering processor of \<open>readfile_processor.go\<close>): the statistics of the last hundred lines,
  the selection of lines with their context, and the proof that the streaming selection is
  the selection that looks at all lines at once.
\<close>

subsection \<open>Statistics\<close>

record stats =
  pos :: int
  line_count :: uint64
  matched :: "bool list"
  match_count :: uint64
  transmitted :: "bool list"
  transmit_count :: int

definition new_stats :: stats where
  "new_stats = \<lparr>pos = 0, line_count = 0, matched = replicate 100 False, match_count = 0,
     transmitted = replicate 100 False, transmit_count = 0\<rparr>"

definition percent_of :: "float64 \<Rightarrow> float64 \<Rightarrow> float64" where
  "percent_of t v =
     (if f_eq t (Fin 0) \<or> f_eq t v then Fin 100 else f_div v (f_div t (Fin 100)))"

definition transmitted_perc :: "stats \<Rightarrow> int" where
  "transmitted_perc f =
     f_to_int (percent_of (round64 (of_nat (unat (match_count f)))) (f_of_int (transmit_count f)))"

definition update_position :: "stats \<Rightarrow> stats" where
  "update_position f = f\<lparr>pos := (pos f + 1) mod 100, line_count := line_count f + 1\<rparr>"

definition update_line_matched :: "stats \<Rightarrow> stats" where
  "update_line_matched f =
     (if \<not> matched f ! nat (pos f)
      then f\<lparr>match_count := match_count f + 1, matched := (matched f)[nat (pos f) := True]\<rparr> else f)"

definition update_line_transmitted :: "stats \<Rightarrow> stats" where
  "update_line_transmitted f =
     (if \<not> transmitted f ! nat (pos f)
      then f\<lparr>transmit_count := wrap64 (transmit_count f + 1), transmitted := (transmitted f)[nat (pos f) := True]\<rparr> else f)"

definition update_line_not_matched :: "stats \<Rightarrow> stats" where
  "update_line_not_matched f =
     (if matched f ! nat (pos f)
      then f\<lparr>match_count := match_count f - 1, matched := (matched f)[nat (pos f) := False]\<rparr> else f)"

definition update_line_not_transmitted :: "stats \<Rightarrow> stats" where
  "update_line_not_transmitted f =
     (if transmitted f ! nat (pos f)
      then f\<lparr>transmit_count := wrap64 (transmit_count f - 1), transmitted := (transmitted f)[nat (pos f) := False]\<rparr> else f)"

text \<open>The counters are the numbers of the set buckets.\<close>

definition count_true :: "bool list \<Rightarrow> nat" where
  "count_true bs = length (filter id bs)"

definition stats_ok :: "stats \<Rightarrow> bool" where
  "stats_ok f =
     (0 \<le> pos f \<and> pos f < 100 \<and> length (matched f) = 100 \<and> length (transmitted f) = 100 \<and>
      match_count f = of_nat (count_true (matched f)) \<and> transmit_count f = int (count_true (transmitted f)))"

lemma count_true_update:
  assumes "i < length bs"
  shows "count_true (bs[i := True]) = (if bs ! i then count_true bs else count_true bs + 1)"
    and "count_true (bs[i := False]) = (if bs ! i then count_true bs - 1 else count_true bs)"
    and "bs ! i \<Longrightarrow> 0 < count_true bs"
proof -
  have bs: "bs = take i bs @ bs ! i # drop (Suc i) bs" using assms by (simp add: id_take_nth_drop)
  have u: "bs[i := x] = take i bs @ x # drop (Suc i) bs" for x using assms by (simp add: upd_conv_take_nth_drop)
  have c: "count_true bs = count_true (take i bs) + (if bs ! i then 1 else 0) + count_true (drop (Suc i) bs)"
    by (subst bs) (simp add: count_true_def del: append_take_drop_id)
  show "count_true (bs[i := True]) = (if bs ! i then count_true bs else count_true bs + 1)"
    and "count_true (bs[i := False]) = (if bs ! i then count_true bs - 1 else count_true bs)"
    by (simp_all add: u c) (simp_all add: count_true_def)
  show "bs ! i \<Longrightarrow> 0 < count_true bs" using c by simp
qed

lemma count_true_le: "count_true bs \<le> length bs"
  by (simp add: count_true_def)

lemma new_stats_ok [simp]: "stats_ok new_stats"
  by (simp add: stats_ok_def new_stats_def count_true_def)

lemma wrap64_small: "0 \<le> i \<Longrightarrow> i \<le> 100 \<Longrightarrow> wrap64 i = i"
  by (rule wrap64_id) simp_all

lemma stats_ok_steps:
  assumes "stats_ok f"
  shows "stats_ok (update_position f)" "stats_ok (update_line_matched f)" "stats_ok (update_line_transmitted f)"
    "stats_ok (update_line_not_matched f)" "stats_ok (update_line_not_transmitted f)"
proof -
  have i: "nat (pos f) < length (matched f)" "nat (pos f) < length (transmitted f)"
    using assms by (auto simp: stats_ok_def)
  note cm = count_true_update[OF i(1)] and ct = count_true_update[OF i(2)]
  have le: "count_true (transmitted f) \<le> 100" "count_true ((transmitted f)[nat (pos f) := True]) \<le> 100"
    using assms count_true_le[of "transmitted f"] count_true_le[of "(transmitted f)[nat (pos f) := True]"]
    by (auto simp: stats_ok_def)
  show "stats_ok (update_position f)" using assms by (simp add: stats_ok_def update_position_def)
  show "stats_ok (update_line_matched f)"
    using assms cm by (auto simp: stats_ok_def update_line_matched_def)
  show "stats_ok (update_line_not_matched f)"
    using assms cm by (auto simp: stats_ok_def update_line_not_matched_def of_nat_diff)
  show "stats_ok (update_line_transmitted f)"
    using assms ct le by (auto simp: stats_ok_def update_line_transmitted_def wrap64_small)
  show "stats_ok (update_line_not_transmitted f)"
    using assms ct le by (auto simp: stats_ok_def update_line_not_transmitted_def wrap64_small of_nat_diff)
qed

subsection \<open>The filtering processor\<close>

text \<open>
  \<open>fp_match\<close> is the \<open>Match\<close> method of the expression of the filter. The processor behind the
  filter is a parameter \<open>process\<close>; the error \<open>Eof\<close> is the filter's own request to stop.
\<close>

datatype 'e filter_error = Eof | ProcessError 'e

record 'p filtering_processor =
  fp_processor :: 'p
  fp_match :: "gostr \<Rightarrow> bool"
  fp_ltx :: lcontext
  fp_stats :: stats
  fp_glob :: gostr
  before_buf :: "gostr list"
  after_count :: int
  fp_max_count :: int
  max_reached :: bool

definition new_filter :: "'p \<Rightarrow> (gostr \<Rightarrow> bool) \<Rightarrow> lcontext \<Rightarrow> stats \<Rightarrow> gostr \<Rightarrow> 'p filtering_processor" where
  "new_filter p m ltx st glob =
     \<lparr>fp_processor = p, fp_match = m, fp_ltx = ltx, fp_stats = st, fp_glob = glob, before_buf = [],
      after_count = 0, fp_max_count = 0, max_reached = False\<rparr>"

type_synonym ('p, 'e) process = "'p \<Rightarrow> gostr \<Rightarrow> uint64 \<Rightarrow> gostr \<Rightarrow> 'p \<times> 'e option"

definition stat :: "(stats \<Rightarrow> stats) \<Rightarrow> 'p filtering_processor \<Rightarrow> 'p filtering_processor" where
  "stat u fp = fp\<lparr>fp_stats := u (fp_stats fp)\<rparr>"

definition forward :: "('p, 'e) process \<Rightarrow> 'p filtering_processor \<Rightarrow> gostr \<Rightarrow> uint64 \<Rightarrow>
    'p filtering_processor \<times> 'e filter_error option" where
  "forward process fp line n =
     (case process (fp_processor fp) line n (fp_glob fp) of
        (p, e) \<Rightarrow> (fp\<lparr>fp_processor := p\<rparr>, map_option ProcessError e))"

text \<open>The loop over the buffered lines: the first of \<open>k\<close> remaining ones is \<open>lineNum - k\<close>.\<close>

fun forward_before :: "('p, 'e) process \<Rightarrow> 'p filtering_processor \<Rightarrow> gostr list \<Rightarrow> uint64 \<Rightarrow>
    'p filtering_processor \<times> 'e filter_error option" where
  "forward_before process fp [] n = (fp, None)"
| "forward_before process fp (b # bs) n =
     (case forward process (stat update_line_transmitted fp) b (n - of_nat (length (b # bs))) of
        (fp', None) \<Rightarrow> forward_before process fp' bs n
      | (fp', Some e) \<Rightarrow> (fp', Some e))"

definition after_match :: "'p filtering_processor \<Rightarrow> 'p filtering_processor \<times> 'e filter_error option" where
  "after_match fp =
     (let ltx = fp_ltx fp;
          fp1 = (if ltx_max_count ltx > 0 then fp\<lparr>fp_max_count := fp_max_count fp + 1\<rparr> else fp);
          full = (ltx_max_count ltx > 0 \<and> ltx_max_count ltx \<le> fp_max_count fp1) in
      if full \<and> after_context ltx = 0 then (fp1, Some Eof)
      else
        let fp2 = (if full then fp1\<lparr>max_reached := True\<rparr> else fp1)
        in (if after_context ltx > 0 then fp2\<lparr>after_count := after_context ltx\<rparr> else fp2, None))"

definition process_with_context :: "('p, 'e) process \<Rightarrow> 'p filtering_processor \<Rightarrow> gostr \<Rightarrow> uint64 \<Rightarrow>
    'p filtering_processor \<times> 'e filter_error option" where
  "process_with_context process fp line n =
     (let ltx = fp_ltx fp in
      if \<not> fp_match fp line then
        (let fp = stat update_line_not_matched fp in
         if after_context ltx > 0 \<and> after_count fp > 0 then
           forward process (stat update_line_transmitted (fp\<lparr>after_count := after_count fp - 1\<rparr>)) line n
         else
           let fp = (if before_context ltx > 0 then
                       fp\<lparr>before_buf := (if before_context ltx \<le> int (length (before_buf fp)) then tl (before_buf fp)
                                          else before_buf fp) @ [line]\<rparr>
                     else fp)
           in (stat update_line_not_transmitted fp, None))
      else
        let fp = stat update_line_matched fp in
        if max_reached fp then (fp, Some Eof)
        else
          let before = (if before_context ltx > 0 then before_buf fp else []) in
          case forward_before process fp before n of
            (fp', Some e) \<Rightarrow> (fp', Some e)
          | (fp', None) \<Rightarrow>
              let fp' = (if before = [] then fp' else fp'\<lparr>before_buf := []\<rparr>) in
              (case forward process (stat update_line_transmitted fp') line n of
                 (fp'', Some e) \<Rightarrow> (fp'', Some e)
               | (fp'', None) \<Rightarrow> after_match fp''))"

definition process_filtered_raw :: "('p, 'e) process \<Rightarrow> 'p filtering_processor \<Rightarrow> gostr \<Rightarrow>
    'p filtering_processor \<times> 'e filter_error option" where
  "process_filtered_raw process fp raw =
     (let n = line_count (fp_stats fp) in
      if \<not> fp_match fp raw then
        (stat update_line_not_transmitted (stat update_line_not_matched fp), None)
      else forward process (stat update_line_transmitted (stat update_line_matched fp)) raw n)"

definition process_filtered_line :: "('p, 'e) process \<Rightarrow> 'p filtering_processor \<Rightarrow> gostr \<Rightarrow>
    'p filtering_processor \<times> 'e filter_error option" where
  "process_filtered_line process fp line =
     (let n = line_count (fp_stats fp) in
      if \<not> ltx_has (fp_ltx fp) then
        (if \<not> fp_match fp line then
           (stat update_line_not_transmitted (stat update_line_not_matched fp), None)
         else forward process (stat update_line_transmitted (stat update_line_matched fp)) line n)
      else process_with_context process fp line n)"

text \<open>A reader moves the position of the statistics before every line and stops at an error.\<close>

fun filter_lines :: "('p, 'e) process \<Rightarrow> 'p filtering_processor \<Rightarrow> gostr list \<Rightarrow>
    'p filtering_processor \<times> 'e filter_error option" where
  "filter_lines process fp [] = (fp, None)"
| "filter_lines process fp (l # ls) =
     (case process_filtered_line process (stat update_position fp) l of
        (fp', None) \<Rightarrow> filter_lines process fp' ls
      | (fp', Some e) \<Rightarrow> (fp', Some e))"

lemma filter_lines_append:
  "filter_lines process fp (xs @ ys) =
     (case filter_lines process fp xs of (fp', None) \<Rightarrow> filter_lines process fp' ys | r \<Rightarrow> r)"
  by (induction process fp xs rule: filter_lines.induct) (auto split: prod.splits option.splits)

subsection \<open>The selection, all lines at once\<close>

text \<open>
  Line \<open>i\<close> is selected when it matches, when it follows a match within \<open>A\<close> lines, or when it
  precedes a match within \<open>B\<close> lines; \<open>h\<close> says which lines match.
\<close>

definition selected :: "(nat \<Rightarrow> bool) \<Rightarrow> nat \<Rightarrow> nat \<Rightarrow> nat \<Rightarrow> bool" where
  "selected h A B i = (h i \<or> (\<exists>j\<in>set [i - A..<i]. h j) \<or> (\<exists>j\<in>set [Suc i..<Suc (i + B)]. h j))"

definition hits :: "(gostr \<Rightarrow> bool) \<Rightarrow> gostr list \<Rightarrow> nat \<Rightarrow> bool" where
  "hits M ls i = (i < length ls \<and> M (ls ! i))"

text \<open>
  What the filter knows after \<open>n\<close> lines: the lines it has passed on, the number \<open>b\<close> of the
  last lines it has buffered, and the number \<open>ac\<close> of lines it will still pass on after the
  last match.
\<close>

definition sel_inv :: "(nat \<Rightarrow> bool) \<Rightarrow> nat \<Rightarrow> nat \<Rightarrow> nat \<Rightarrow> nat list \<Rightarrow> nat \<Rightarrow> nat \<Rightarrow> bool" where
  "sel_inv h A B n out b ac \<longleftrightarrow>
     (\<forall>j\<ge>n. \<not> h j) \<and> out = filter (selected h A B) [0..<n] \<and> b \<le> n \<and> b \<le> B \<and>
     (\<forall>i. n - b \<le> i \<and> i < n \<longrightarrow> \<not> selected h A B i) \<and>
     (\<forall>i<n. \<not> selected h A B i \<longrightarrow> n - b \<le> i \<or> i + B < n) \<and>
     (\<forall>d. d < ac \<longleftrightarrow> (\<exists>j<n. h j \<and> n + d \<le> j + A)) \<and> (ac > 0 \<longrightarrow> b = 0)"

lemma sel_inv_start: "sel_inv (hits M []) A B 0 [] 0 0"
  by (simp add: sel_inv_def hits_def)

lemma selected_iff:
  "selected h A B i \<longleftrightarrow> h i \<or> (\<exists>j<i. h j \<and> i \<le> j + A) \<or> (\<exists>j. i < j \<and> j \<le> i + B \<and> h j)"
  by (auto simp: selected_def le_diff_conv Suc_le_eq less_Suc_eq_le Bex_def)

lemma selected_last:
  assumes "\<forall>j\<ge>n. \<not> h j"
  shows "selected h A B n \<longleftrightarrow> (\<exists>j<n. h j \<and> n \<le> j + A)"
  using assms by (auto simp: selected_iff)

lemma sel_inv_after:
  assumes "sel_inv h A B n out b ac" and "0 < ac"
  shows "sel_inv h A B (Suc n) (out @ [n]) 0 (ac - 1)"
proof -
  have h: "\<forall>j\<ge>n. \<not> h j" and ac: "\<And>d. d < ac \<longleftrightarrow> (\<exists>j<n. h j \<and> n + d \<le> j + A)" and b: "b = 0"
    using assms by (auto simp: sel_inv_def)
  have sel: "selected h A B n" using ac[of 0] assms(2) by (simp add: selected_last[OF h])
  have "d < ac - 1 \<longleftrightarrow> (\<exists>j<Suc n. h j \<and> Suc n + d \<le> j + A)" for d
  proof -
    have "d < ac - 1 \<longleftrightarrow> Suc d < ac" by auto
    also have "\<dots> \<longleftrightarrow> (\<exists>j<n. h j \<and> n + Suc d \<le> j + A)" by (rule ac)
    finally show ?thesis using h by (auto simp: less_Suc_eq)
  qed
  then show ?thesis using assms sel b by (auto simp: sel_inv_def less_Suc_eq)
qed

lemma sel_inv_skip:
  assumes "sel_inv h A B n out b 0"
  shows "sel_inv h A B (Suc n) out (if B = 0 then 0 else if B \<le> b then b else Suc b) 0"
proof -
  have h: "\<forall>j\<ge>n. \<not> h j" and ac: "\<And>d. \<not> (\<exists>j<n. h j \<and> n + d \<le> j + A)"
    using assms by (auto simp: sel_inv_def)
  have sel: "\<not> selected h A B n" using ac[of 0] by (simp add: selected_last[OF h])
  have "\<not> (\<exists>j<Suc n. h j \<and> Suc n + d \<le> j + A)" for d using ac[of "Suc d"] h by (auto simp: less_Suc_eq)
  then show ?thesis using assms sel by (fastforce simp: sel_inv_def less_Suc_eq)
qed

lemma selected_match:
  assumes "\<forall>j\<ge>n. \<not> h j" and "i < n"
  shows "selected (h(n := True)) A B i \<longleftrightarrow> selected h A B i \<or> n \<le> i + B"
  using assms by (auto simp: selected_iff)

lemma sel_inv_match:
  assumes "sel_inv h A B n out b ac"
  shows "sel_inv (h(n := True)) A B (Suc n) (out @ [n - b..<n] @ [n]) 0 A"
proof -
  have h: "\<forall>j\<ge>n. \<not> h j" and out: "out = filter (selected h A B) [0..<n]" and b: "b \<le> n" "b \<le> B"
    and un: "\<And>i. n - b \<le> i \<Longrightarrow> i < n \<Longrightarrow> \<not> selected h A B i"
    and far: "\<And>i. i < n \<Longrightarrow> \<not> selected h A B i \<Longrightarrow> n - b \<le> i \<or> i + B < n"
    using assms by (auto simp: sel_inv_def)
  let ?h = "h(n := True)"
  have sp: "[0..<n] = [0..<n - b] @ [n - b..<n]" using b(1) upt_add_eq_append[of 0 "n - b" b] by simp
  have "filter (selected h A B) [n - b..<n] = []" using un by (auto simp: filter_empty_conv)
  then have o1: "out = filter (selected h A B) [0..<n - b]" by (simp add: out sp)
  have "filter (selected ?h A B) [0..<n - b] = filter (selected h A B) [0..<n - b]"
  proof (rule filter_cong)
    fix i assume "i \<in> set [0..<n - b]"
    then have "i < n - b" "i < n" by auto
    then show "selected ?h A B i = selected h A B i" using selected_match[OF h, of i A B] far[of i]
      by (cases "selected h A B i") auto
  qed simp
  moreover have "filter (selected ?h A B) [n - b..<n] = [n - b..<n]"
    using b(2) selected_match[OF h] by (auto simp: filter_id_conv)
  moreover have "selected ?h A B n" by (simp add: selected_def)
  ultimately have "filter (selected ?h A B) [0..<Suc n] = out @ [n - b..<n] @ [n]" by (simp add: o1 sp)
  moreover have "i + B < Suc n" if "i < n" "\<not> selected ?h A B i" for i using that selected_match[OF h, of i A B] by auto
  moreover have "d < A \<longleftrightarrow> (\<exists>j<Suc n. ?h j \<and> Suc n + d \<le> j + A)" for d by (auto simp: less_Suc_eq)
  ultimately show ?thesis using h \<open>selected ?h A B n\<close> by (auto simp: sel_inv_def less_Suc_eq)
qed

text \<open>The processor that only collects what it is given, for the selection itself.\<close>

definition collect :: "line_event list \<Rightarrow> gostr \<Rightarrow> uint64 \<Rightarrow> gostr \<Rightarrow> line_event list \<times> unit option" where
  "collect evs l n s = (evs @ [(l, n, s)], None)"

definition event_of :: "uint64 \<Rightarrow> gostr \<Rightarrow> gostr list \<Rightarrow> nat \<Rightarrow> line_event" where
  "event_of base glob ls i = (ls ! i, base + of_nat (Suc i), glob)"

lemma forward_collect [simp]:
  "forward collect fp l n = (fp\<lparr>fp_processor := fp_processor fp @ [(l, n, fp_glob fp)]\<rparr>, None)"
  by (simp add: forward_def collect_def)

lemma stat_simps [simp]:
  "fp_processor (stat u fp) = fp_processor fp" "fp_match (stat u fp) = fp_match fp" "fp_ltx (stat u fp) = fp_ltx fp"
  "fp_glob (stat u fp) = fp_glob fp" "before_buf (stat u fp) = before_buf fp" "after_count (stat u fp) = after_count fp"
  "fp_max_count (stat u fp) = fp_max_count fp" "max_reached (stat u fp) = max_reached fp"
  "fp_stats (stat u fp) = u (fp_stats fp)"
  by (simp_all add: stat_def)

lemma line_count_simps [simp]:
  "line_count (update_line_matched f) = line_count f" "line_count (update_line_transmitted f) = line_count f"
  "line_count (update_line_not_matched f) = line_count f" "line_count (update_line_not_transmitted f) = line_count f"
  "line_count (update_position f) = line_count f + 1"
  by (simp_all add: update_line_matched_def update_line_transmitted_def update_line_not_matched_def
      update_line_not_transmitted_def update_position_def)

lemma process_matched:
  assumes "ltx_has (fp_ltx fp)" and "fp_match fp l" and "\<not> max_reached fp"
    and "bs = (if before_context (fp_ltx fp) > 0 then before_buf fp else [])"
  shows "process_filtered_line process fp l =
    (case forward_before process (stat update_line_matched fp) bs (line_count (fp_stats fp)) of
       (f', Some e) \<Rightarrow> (f', Some e)
     | (f', None) \<Rightarrow>
         (case forward process (stat update_line_transmitted (if bs = [] then f' else f'\<lparr>before_buf := []\<rparr>)) l
                 (line_count (fp_stats fp)) of
            (f'', Some e) \<Rightarrow> (f'', Some e) | (f'', None) \<Rightarrow> after_match f''))"
  using assms(1,2,3) unfolding assms(4) process_filtered_line_def process_with_context_def Let_def stat_simps
  by simp

lemma forward_before_collect:
  "\<exists>fp'. forward_before collect fp bs n = (fp', None) \<and>
     fp_processor fp' = fp_processor fp @ map (\<lambda>i. (bs ! i, n - of_nat (length bs - i), fp_glob fp)) [0..<length bs] \<and>
     fp_match fp' = fp_match fp \<and> fp_ltx fp' = fp_ltx fp \<and> fp_glob fp' = fp_glob fp \<and>
     before_buf fp' = before_buf fp \<and> after_count fp' = after_count fp \<and> fp_max_count fp' = fp_max_count fp \<and>
     max_reached fp' = max_reached fp \<and> line_count (fp_stats fp') = line_count (fp_stats fp)"
proof (induction bs arbitrary: fp)
  case (Cons b bs)
  let ?fp = "(stat update_line_transmitted fp)\<lparr>fp_processor := fp_processor fp @ [(b, n - of_nat (Suc (length bs)), fp_glob fp)]\<rparr>"
  have m: "map (\<lambda>i. ((b # bs) ! i, n - of_nat (length (b # bs) - i), fp_glob fp)) [0..<length (b # bs)] =
      (b, n - of_nat (Suc (length bs)), fp_glob fp) #
      map (\<lambda>i. (bs ! i, n - of_nat (length bs - i), fp_glob fp)) [0..<length bs]"
    by (simp add: upt_conv_Cons map_Suc_upt[symmetric] comp_def del: upt_Suc)
  from Cons.IH[of ?fp] show ?case unfolding m by simp
qed simp

subsection \<open>The streaming selection is the selection\<close>

definition filter_inv :: "(gostr \<Rightarrow> bool) \<Rightarrow> nat \<Rightarrow> nat \<Rightarrow> uint64 \<Rightarrow> gostr \<Rightarrow> line_event list \<Rightarrow> gostr list \<Rightarrow>
    line_event list filtering_processor \<Rightarrow> bool" where
  "filter_inv M A B base glob evs ls fp \<longleftrightarrow>
     (\<exists>out. sel_inv (hits M ls) A B (length ls) out (length (before_buf fp)) (nat (after_count fp)) \<and>
        fp_processor fp = evs @ map (event_of base glob ls) out) \<and>
     before_buf fp = drop (length ls - length (before_buf fp)) ls \<and> 0 \<le> after_count fp \<and>
     fp_match fp = M \<and> after_context (fp_ltx fp) = int A \<and> before_context (fp_ltx fp) = int B \<and>
     ltx_max_count (fp_ltx fp) = 0 \<and> fp_glob fp = glob \<and> \<not> max_reached fp \<and>
     line_count (fp_stats fp) = base + of_nat (length ls)"

lemma hits_snoc: "hits M (ls @ [l]) = (if M l then (hits M ls)(length ls := True) else hits M ls)"
  by (auto simp: hits_def fun_eq_iff nth_append less_Suc_eq)

lemma map_event_snoc:
  "\<forall>i\<in>set out. i < length ls \<Longrightarrow> map (event_of base glob (ls @ [l])) out = map (event_of base glob ls) out"
  by (auto simp: event_of_def nth_append)

lemma sel_inv_less: "sel_inv h A B n out b ac \<Longrightarrow> \<forall>i\<in>set out. i < n"
  by (auto simp: sel_inv_def)

lemma filter_inv_step:
  assumes "filter_inv M A B base glob evs ls fp"
  shows "\<exists>fp'. process_filtered_line collect (stat update_position fp) l = (fp', None) \<and>
    filter_inv M A B base glob evs (ls @ [l]) fp'"
proof -
  let ?n = "length ls" and ?b = "length (before_buf fp)" and ?ac = "nat (after_count fp)"
  obtain out where inv: "sel_inv (hits M ls) A B ?n out ?b ?ac" and proc: "fp_processor fp = evs @ map (event_of base glob ls) out"
    and buf: "before_buf fp = drop (?n - ?b) ls" and rest: "0 \<le> after_count fp" "fp_match fp = M"
      "after_context (fp_ltx fp) = int A" "before_context (fp_ltx fp) = int B" "ltx_max_count (fp_ltx fp) = 0"
      "fp_glob fp = glob" "\<not> max_reached fp" "line_count (fp_stats fp) = base + of_nat ?n"
    using assms unfolding filter_inv_def by blast
  have b: "?b \<le> ?n" "?b \<le> B" using inv by (auto simp: sel_inv_def)
  have ev: "map (event_of base glob (ls @ [l])) out = map (event_of base glob ls) out"
    using sel_inv_less[OF inv] by (rule map_event_snoc)
  have has: "ltx_has (fp_ltx fp) \<longleftrightarrow> 0 < A \<or> 0 < B" using rest by (auto simp: ltx_has_def)
  have acA: "A = 0 \<Longrightarrow> ?ac = 0"
  proof -
    assume "A = 0"
    then have "\<not> 0 < ?ac" using inv unfolding sel_inv_def by auto
    then show ?thesis by simp
  qed
  have here: "event_of base glob (ls @ [l]) ?n = (l, base + of_nat ?n + 1, glob)" by (simp add: event_of_def algebra_simps)
  show ?thesis
  proof (cases "M l")
    case False
    then have h: "hits M (ls @ [l]) = hits M ls" by (simp add: hits_snoc)
    show ?thesis
    proof (cases "0 < ?ac")
      case True
      then have pos: "0 < A" "0 < after_count fp" using acA by (cases "A = 0"; simp)+
      have b0: "before_buf fp = []" using inv True by (auto simp: sel_inv_def)
      let ?fp = "(stat update_line_transmitted ((stat update_line_not_matched (stat update_position fp))
          \<lparr>after_count := after_count fp - 1\<rparr>))\<lparr>fp_processor := fp_processor fp @ [(l, base + of_nat ?n + 1, glob)]\<rparr>"
      have "process_filtered_line collect (stat update_position fp) l = (?fp, None)"
        using False pos rest has by (simp add: process_filtered_line_def process_with_context_def Let_def algebra_simps)
      moreover have "sel_inv (hits M (ls @ [l])) A B (Suc ?n) (out @ [?n]) 0 (?ac - 1)"
        unfolding h using inv True by (rule sel_inv_after)
      then have "filter_inv M A B base glob evs (ls @ [l]) ?fp"
        using rest proc b0 pos ev here
        by (auto simp: filter_inv_def nat_diff_distrib algebra_simps intro!: exI[of _ "out @ [?n]"])
      ultimately show ?thesis by blast
    next
      case False
      then have ac0: "after_count fp = 0" using rest(1) by simp
      define buf' where "buf' = (if B > 0 then (if B \<le> ?b then tl (before_buf fp) else before_buf fp) @ [l] else before_buf fp)"
      let ?fp = "stat update_line_not_transmitted ((stat update_line_not_matched (stat update_position fp))\<lparr>before_buf := buf'\<rparr>)"
      have run: "process_filtered_line collect (stat update_position fp) l = (?fp, None)"
        using \<open>\<not> M l\<close> ac0 rest has by (auto simp: buf'_def process_filtered_line_def process_with_context_def Let_def stat_def)
      have len: "length buf' = (if B = 0 then 0 else if B \<le> ?b then ?b else Suc ?b)"
        unfolding buf'_def using b by auto
      have inv': "sel_inv (hits M (ls @ [l])) A B (Suc ?n) out (length buf') 0"
        unfolding h len using inv ac0 by (intro sel_inv_skip) simp
      have drop: "buf' = drop (Suc ?n - length buf') (ls @ [l])"
      proof -
        have d: "before_buf fp = drop (?n - ?b) ls" by (fact buf)
        have t: "tl (before_buf fp) = drop (Suc (?n - ?b)) ls" by (subst d) (simp add: drop_Suc tl_drop)
        show ?thesis
        proof (cases "B = 0")
          case True then show ?thesis using b by (simp add: buf'_def)
        next
          case False
          show ?thesis
          proof (cases "B \<le> ?b")
            case True
            then have "0 < ?b" using False by linarith
            then have ne: "before_buf fp \<noteq> []" by auto
            have z: "Suc 0 - ?b = 0" using \<open>0 < ?b\<close> by linarith
            have "Suc ?n - ?b = Suc (?n - ?b)" using b by auto
            then show ?thesis using True False t ne z b by (simp add: buf'_def Suc_diff_le)
          next
            case False' : False
            then show ?thesis using False d b by (simp add: buf'_def)
          qed
        qed
      qed
      have "filter_inv M A B base glob evs (ls @ [l]) ?fp"
        using rest proc ac0 ev inv' drop
        by (auto simp: filter_inv_def algebra_simps intro!: exI[of _ out])
      with run show ?thesis by blast
    qed
  next
    case True
    then have h: "hits M (ls @ [l]) = (hits M ls)(?n := True)" by (simp add: hits_snoc)
    let ?fp0 = "stat update_line_matched (stat update_position fp)"
    let ?before = "if B > 0 then before_buf fp else []"
    have before: "?before = before_buf fp" using b by auto
    obtain fp1 where f1: "forward_before collect ?fp0 (before_buf fp) (base + of_nat ?n + 1) = (fp1, None)"
      and p1: "fp_processor fp1 = fp_processor fp @
          map (\<lambda>i. (before_buf fp ! i, base + of_nat ?n + 1 - of_nat (?b - i), glob)) [0..<?b]"
      and k1: "fp_match fp1 = M" "fp_ltx fp1 = fp_ltx fp" "fp_glob fp1 = glob" "before_buf fp1 = before_buf fp"
        "after_count fp1 = after_count fp" "fp_max_count fp1 = fp_max_count fp" "\<not> max_reached fp1"
        "line_count (fp_stats fp1) = base + of_nat ?n + 1"
      using forward_before_collect[of ?fp0 "before_buf fp" "base + of_nat ?n + 1"] rest by auto
    let ?fp1 = "if before_buf fp = [] then fp1 else fp1\<lparr>before_buf := []\<rparr>"
    let ?fp2 = "(stat update_line_transmitted ?fp1)\<lparr>fp_processor := fp_processor fp1 @ [(l, base + of_nat ?n + 1, glob)]\<rparr>"
    let ?fp3 = "if 0 < A then ?fp2\<lparr>after_count := int A\<rparr> else ?fp2"
    have evb: "map (\<lambda>i. (before_buf fp ! i, base + of_nat ?n + 1 - of_nat (?b - i), glob)) [0..<?b] =
        map (event_of base glob (ls @ [l])) [?n - ?b..<?n]"
    proof (rule nth_equalityI)
      fix i assume "i < length (map (\<lambda>i. (before_buf fp ! i, base + of_nat ?n + 1 - of_nat (?b - i), glob)) [0..<?b])"
      then have i: "i < ?b" by simp
      have "before_buf fp ! i = ls ! (?n - ?b + i)" using i b by (subst buf) simp
      have lt: "?n + i - ?b < ?n" using i b(1) by linarith
      note \<open>before_buf fp ! i = ls ! (?n - ?b + i)\<close>
      moreover have "base + of_nat ?n + 1 - of_nat (?b - i) = base + of_nat (Suc (?n - ?b + i))"
        using i b by (simp add: of_nat_diff algebra_simps)
      ultimately show "map (\<lambda>i. (before_buf fp ! i, base + of_nat ?n + 1 - of_nat (?b - i), glob)) [0..<?b] ! i =
          map (event_of base glob (ls @ [l])) [?n - ?b..<?n] ! i"
        using i b lt by (simp add: event_of_def nth_append)
    qed (use b in simp)
    have inv': "sel_inv (hits M (ls @ [l])) A B (Suc ?n) (out @ [?n - ?b..<?n] @ [?n]) 0 A"
      unfolding h using inv by (rule sel_inv_match)
    show ?thesis
    proof (cases "0 < A \<or> 0 < B")
      case has': True
      have "process_filtered_line collect (stat update_position fp) l = (?fp3, None)"
        using True has' rest has f1 k1 before
        by (auto simp: process_filtered_line_def process_with_context_def after_match_def Let_def algebra_simps)
      moreover have "filter_inv M A B base glob evs (ls @ [l]) ?fp3"
        using inv' rest k1 p1 proc ev evb here acA
        by (auto simp: filter_inv_def algebra_simps intro!: exI[of _ "out @ [?n - ?b..<?n] @ [?n]"])
      ultimately show ?thesis by blast
    next
      case no: False
      then have b0: "before_buf fp = []" using b by simp
      let ?fp = "(stat update_line_transmitted ?fp0)\<lparr>fp_processor := fp_processor fp @ [(l, base + of_nat ?n + 1, glob)]\<rparr>"
      have "process_filtered_line collect (stat update_position fp) l = (?fp, None)"
        using True no rest has by (simp add: process_filtered_line_def Let_def algebra_simps)
      moreover have "filter_inv M A B base glob evs (ls @ [l]) ?fp"
        using inv' rest proc ev here acA b0 no
        by (auto simp: filter_inv_def algebra_simps intro!: exI[of _ "out @ [?n - ?b..<?n] @ [?n]"])
      ultimately show ?thesis by blast
    qed
  qed
qed

lemma filter_inv_run:
  "filter_inv M A B base glob evs ls fp \<Longrightarrow>
   \<exists>fp'. filter_lines collect fp ls' = (fp', None) \<and> filter_inv M A B base glob evs (ls @ ls') fp'"
proof (induction ls' arbitrary: ls fp)
  case (Cons l ls')
  obtain fp1 where "process_filtered_line collect (stat update_position fp) l = (fp1, None)"
    "filter_inv M A B base glob evs (ls @ [l]) fp1" using filter_inv_step[OF Cons.prems] by blast
  with Cons.IH[of "ls @ [l]" fp1] show ?case by simp
qed simp

subsection \<open>Any processor behind the filter\<close>

definition as_collector :: "line_event list \<Rightarrow> 'p filtering_processor \<Rightarrow> line_event list filtering_processor" where
  "as_collector evs fp =
     \<lparr>fp_processor = evs, fp_match = fp_match fp, fp_ltx = fp_ltx fp, fp_stats = fp_stats fp, fp_glob = fp_glob fp,
      before_buf = before_buf fp, after_count = after_count fp, fp_max_count = fp_max_count fp,
      max_reached = max_reached fp\<rparr>"

lemma as_collector_simps [simp]:
  "fp_processor (as_collector evs fp) = evs" "fp_match (as_collector evs fp) = fp_match fp"
  "fp_ltx (as_collector evs fp) = fp_ltx fp" "fp_stats (as_collector evs fp) = fp_stats fp"
  "fp_glob (as_collector evs fp) = fp_glob fp" "before_buf (as_collector evs fp) = before_buf fp"
  "after_count (as_collector evs fp) = after_count fp" "fp_max_count (as_collector evs fp) = fp_max_count fp"
  "max_reached (as_collector evs fp) = max_reached fp"
  by (simp_all add: as_collector_def)

lemma as_collector_updates:
  "stat u (as_collector evs fp) = as_collector evs (stat u fp)"
  "(as_collector evs fp)\<lparr>before_buf := bs\<rparr> = as_collector evs (fp\<lparr>before_buf := bs\<rparr>)"
  "(as_collector evs fp)\<lparr>after_count := c\<rparr> = as_collector evs (fp\<lparr>after_count := c\<rparr>)"
  "(as_collector evs fp)\<lparr>fp_max_count := k\<rparr> = as_collector evs (fp\<lparr>fp_max_count := k\<rparr>)"
  "(as_collector evs fp)\<lparr>max_reached := r\<rparr> = as_collector evs (fp\<lparr>max_reached := r\<rparr>)"
  "(as_collector evs fp)\<lparr>fp_processor := evs'\<rparr> = as_collector evs' fp"
  "as_collector evs (fp\<lparr>fp_processor := p\<rparr>) = as_collector evs fp"
  by (simp_all add: as_collector_def stat_def)

context line_processor begin

text \<open>What a run of the filter without an error does to the view is what its events do.\<close>

definition seen :: "'p \<Rightarrow> 'p \<Rightarrow> line_event list \<Rightarrow> bool" where
  "seen p p' evs \<longleftrightarrow> (is_open p \<longrightarrow> is_open p' \<and> observe p' = observe_all (observe p) evs)"

lemma seen_refl [simp]: "seen p p []"
  by (simp add: seen_def)

lemma seen_trans: "seen p p' evs \<Longrightarrow> seen p' p'' evs' \<Longrightarrow> seen p p'' (evs @ evs')"
  by (auto simp: seen_def)

lemma forward_seen:
  "forward process fp l n = (fp', None) \<Longrightarrow>
   seen (fp_processor fp) (fp_processor fp') [(l, n, fp_glob fp)] \<and>
   fp' = fp\<lparr>fp_processor := fp_processor fp'\<rparr>"
  by (auto simp: forward_def seen_def process_open process_observe split: prod.splits)

definition simulated :: "'p filtering_processor \<Rightarrow> 'p filtering_processor \<Rightarrow>
    (line_event list filtering_processor \<Rightarrow> line_event list filtering_processor \<times> unit filter_error option) \<Rightarrow> bool" where
  "simulated fp fp' f \<longleftrightarrow>
     (\<exists>evs. seen (fp_processor fp) (fp_processor fp') evs \<and>
        (\<forall>E. f (as_collector E fp) = (as_collector (E @ evs) fp', None)))"

lemma simulated_forward:
  assumes "forward process fp l n = (fp', None)"
  shows "simulated fp fp' (\<lambda>c. forward collect c l n)"
proof -
  have "as_collector E fp' = as_collector E fp" for E
    using forward_seen[OF assms] by (metis as_collector_updates(7))
  then show ?thesis unfolding simulated_def
    using forward_seen[OF assms] by (intro exI[of _ "[(l, n, fp_glob fp)]"]) (auto simp: as_collector_updates)
qed

lemma simulated_forward_before:
  "forward_before process fp bs n = (fp', None) \<Longrightarrow> simulated fp fp' (\<lambda>c. forward_before collect c bs n)"
proof (induction bs arbitrary: fp)
  case Nil
  then show ?case unfolding simulated_def by (intro exI[of _ "[]"]) simp
next
  case (Cons b bs)
  let ?n = "n - of_nat (length (b # bs))"
  obtain fp1 where f: "forward process (stat update_line_transmitted fp) b ?n = (fp1, None)"
    and r: "forward_before process fp1 bs n = (fp', None)"
    using Cons.prems by (auto split: prod.splits option.splits)
  obtain e1 where e1: "seen (fp_processor fp) (fp_processor fp1) e1"
    "\<And>E. forward collect (as_collector E (stat update_line_transmitted fp)) b ?n = (as_collector (E @ e1) fp1, None)"
    using simulated_forward[OF f] by (auto simp: simulated_def)
  obtain e2 where e2: "seen (fp_processor fp1) (fp_processor fp') e2"
    "\<And>E. forward_before collect (as_collector E fp1) bs n = (as_collector (E @ e2) fp', None)"
    using Cons.IH[OF r] by (auto simp: simulated_def)
  show ?case unfolding simulated_def
    using seen_trans[OF e1(1) e2(1)] e1(2) e2(2)
    by (intro exI[of _ "e1 @ e2"]) (simp add: as_collector_updates del: forward_collect)
qed

lemma after_match_collector:
  "after_match fp = (fp', None) \<Longrightarrow> fp_processor fp' = fp_processor fp \<and>
   after_match (as_collector E fp) = (as_collector E fp', None)"
  by (auto simp: after_match_def Let_def as_collector_updates split: if_splits)

lemma simulated_line:
  assumes "process_filtered_line process fp l = (fp', None)"
  shows "simulated fp fp' (\<lambda>c. process_filtered_line collect c l)"
proof (cases "fp_match fp l")
  case False
  show ?thesis
  proof (cases "ltx_has (fp_ltx fp) \<and> after_context (fp_ltx fp) > 0 \<and> after_count fp > 0")
    case True
    let ?fp = "stat update_line_transmitted ((stat update_line_not_matched fp)\<lparr>after_count := after_count fp - 1\<rparr>)"
    have "forward process ?fp l (line_count (fp_stats fp)) = (fp', None)"
      using assms False True by (simp add: process_filtered_line_def process_with_context_def Let_def)
    from simulated_forward[OF this] show ?thesis using False True
      by (simp add: simulated_def process_filtered_line_def process_with_context_def Let_def as_collector_updates
          del: forward_collect)
  next
    case no: False
    then show ?thesis using assms False unfolding simulated_def
      by (intro exI[of _ "[]"])
        (auto simp: process_filtered_line_def process_with_context_def Let_def as_collector_updates split: if_splits)
  qed
next
  case True
  show ?thesis
  proof (cases "ltx_has (fp_ltx fp)")
    case False
    have "forward process (stat update_line_transmitted (stat update_line_matched fp)) l (line_count (fp_stats fp)) = (fp', None)"
      using assms False True by (simp add: process_filtered_line_def Let_def)
    from simulated_forward[OF this] show ?thesis using False True
      by (simp add: simulated_def process_filtered_line_def Let_def as_collector_updates del: forward_collect)
  next
    case has: True
    let ?n = "line_count (fp_stats fp)" and ?fp = "stat update_line_matched fp"
    let ?bs = "if before_context (fp_ltx fp) > 0 then before_buf fp else []"
    have nr: "\<not> max_reached fp" using assms True has
      by (auto simp: process_filtered_line_def process_with_context_def Let_def)
    obtain fp1 x1 where b0: "forward_before process ?fp ?bs ?n = (fp1, x1)" by fastforce
    define fp1' where "fp1' = (if ?bs = [] then fp1 else fp1\<lparr>before_buf := []\<rparr>)"
    obtain fp2 x2 where f0: "forward process (stat update_line_transmitted fp1') l ?n = (fp2, x2)" by fastforce
    have "process_filtered_line process fp l =
        (case x1 of Some e \<Rightarrow> (fp1, Some e) | None \<Rightarrow> (case x2 of Some e \<Rightarrow> (fp2, Some e) | None \<Rightarrow> after_match fp2))"
      using f0 unfolding process_matched[OF has True nr refl] b0 fp1'_def by (cases x1; cases x2) simp_all
    then have r: "(case x1 of Some e \<Rightarrow> (fp1, Some e) | None \<Rightarrow> (case x2 of Some e \<Rightarrow> (fp2, Some e) | None \<Rightarrow> after_match fp2)) = (fp', None)"
      unfolding assms by (rule sym)
    have x: "x1 = None" "x2 = None" using r by (simp_all split: option.splits)
    note a = r[unfolded x option.case]
    from x have b: "forward_before process ?fp ?bs ?n = (fp1, None)"
      and f: "forward process (stat update_line_transmitted fp1') l ?n = (fp2, None)"
      using b0 f0 by simp_all
    obtain e1 where e1: "seen (fp_processor fp) (fp_processor fp1) e1"
      "\<And>E. forward_before collect (as_collector E ?fp) ?bs ?n = (as_collector (E @ e1) fp1, None)"
      using simulated_forward_before[OF b] by (auto simp: simulated_def)
    have p1: "fp_processor fp1' = fp_processor fp1" by (simp add: fp1'_def)
    obtain e2 where e2: "seen (fp_processor fp1) (fp_processor fp2) e2"
      "\<And>E. forward collect (as_collector E (stat update_line_transmitted fp1')) l ?n = (as_collector (E @ e2) fp2, None)"
      using simulated_forward[OF f] unfolding simulated_def stat_simps p1 by blast
    have u: "(if ?bs = [] then as_collector E fp1 else (as_collector E fp1)\<lparr>before_buf := []\<rparr>) = as_collector E fp1'" for E
      by (simp add: fp1'_def as_collector_updates)
    have "process_filtered_line collect (as_collector E fp) l = (as_collector (E @ e1 @ e2) fp', None)" for E
    proof -
      have m: "ltx_has (fp_ltx (as_collector E fp))" "fp_match (as_collector E fp) l" "\<not> max_reached (as_collector E fp)"
        "?bs = (if before_context (fp_ltx (as_collector E fp)) > 0 then before_buf (as_collector E fp) else [])"
        using has True nr by simp_all
      note am = after_match_collector[OF a, THEN conjunct2, of "E @ e1 @ e2"]
      show ?thesis
        unfolding process_matched[OF m] as_collector_simps as_collector_updates(1) e1(2) prod.case option.case u e2(2) append_assoc
        by (rule am)
    qed
    then show ?thesis unfolding simulated_def
      
      using seen_trans[OF e1(1) e2(1)] after_match_collector[OF a, THEN conjunct1]
      by (intro exI[of _ "e1 @ e2"]) (metis (no_types, lifting))
  qed
qed

lemma filter_lines_observed:
  assumes "filter_lines process fp ls = (fp', None)"
  shows "simulated fp fp' (\<lambda>c. filter_lines collect c ls)"
  using assms
proof (induction ls arbitrary: fp)
  case Nil
  then show ?case unfolding simulated_def by (intro exI[of _ "[]"]) simp
next
  case (Cons l ls)
  obtain fp1 where f: "process_filtered_line process (stat update_position fp) l = (fp1, None)"
    and r: "filter_lines process fp1 ls = (fp', None)"
    using Cons.prems by (auto split: prod.splits option.splits)
  obtain e1 where e1: "seen (fp_processor fp) (fp_processor fp1) e1"
    "\<And>E. process_filtered_line collect (as_collector E (stat update_position fp)) l = (as_collector (E @ e1) fp1, None)"
    using simulated_line[OF f] by (auto simp: simulated_def)
  obtain e2 where e2: "seen (fp_processor fp1) (fp_processor fp') e2"
    "\<And>E. filter_lines collect (as_collector E fp1) ls = (as_collector (E @ e2) fp', None)"
    using Cons.IH[OF r] by (auto simp: simulated_def)
  show ?case unfolding simulated_def
    using seen_trans[OF e1(1) e2(1)] e1(2) e2(2) by (intro exI[of _ "e1 @ e2"]) (simp add: as_collector_updates)
qed

end

subsection \<open>Properties\<close>

definition context_of :: "nat \<Rightarrow> nat \<Rightarrow> lcontext" where
  "context_of A B = \<lparr>after_context = int A, before_context = int B, ltx_max_count = 0\<rparr>"

lemma filter_collect_run:
  "\<exists>fp'. filter_lines collect (new_filter [] M (context_of A B) st glob) ls = (fp', None) \<and>
     fp_processor fp' = map (event_of (line_count st) glob ls) (filter (selected (hits M ls) A B) [0..<length ls]) \<and>
     length (before_buf fp') \<le> B"
proof -
  have "filter_inv M A B (line_count st) glob [] [] (new_filter [] M (context_of A B) st glob)"
    using sel_inv_start[of M A B] by (auto simp: filter_inv_def new_filter_def context_of_def)
  from filter_inv_run[OF this, of ls] show ?thesis by (auto simp: filter_inv_def sel_inv_def)
qed

text \<open>A processor that takes every line sees all of the selection.\<close>

context reliable_processor begin

definition ready :: "'a filtering_processor \<Rightarrow> bool" where
  "ready fp \<longleftrightarrow> is_open (fp_processor fp) \<and> ltx_max_count (fp_ltx fp) = 0 \<and> \<not> max_reached fp"

lemma ready_simps [simp]:
  "ready (stat u fp) = ready fp" "ready (fp\<lparr>before_buf := b\<rparr>) = ready fp" "ready (fp\<lparr>after_count := c\<rparr>) = ready fp"
  by (simp_all add: ready_def)

lemma forward_ready: "ready fp \<Longrightarrow> \<exists>fp'. forward process fp l n = (fp', None) \<and> ready fp'"
proof -
  assume r: "ready fp"
  obtain p' x where p: "process (fp_processor fp) l n (fp_glob fp) = (p', x)" by fastforce
  then have "x = None" using process_ok[of "fp_processor fp" l n "fp_glob fp"] r by (simp add: ready_def)
  then show ?thesis using p r process_open[of "fp_processor fp" l n "fp_glob fp" p'] by (simp add: forward_def ready_def)
qed

lemma forward_before_ready: "ready fp \<Longrightarrow> \<exists>fp'. forward_before process fp bs n = (fp', None) \<and> ready fp'"
proof (induction bs arbitrary: fp)
  case (Cons b bs)
  obtain fp1 where "forward process (stat update_line_transmitted fp) b (n - of_nat (length (b # bs))) = (fp1, None)" "ready fp1"
    using forward_ready[of "stat update_line_transmitted fp"] Cons.prems by fastforce
  then show ?case using Cons.IH[of fp1] by simp
qed simp

lemma after_match_ready: "ready fp \<Longrightarrow> \<exists>fp'. after_match fp = (fp', None) \<and> ready fp'"
  by (simp add: after_match_def Let_def ready_def)

lemma line_ready: "ready fp \<Longrightarrow> \<exists>fp'. process_filtered_line process fp l = (fp', None) \<and> ready fp'"
proof (cases "ltx_has (fp_ltx fp) \<and> fp_match fp l")
  case True
  assume r: "ready fp"
  let ?n = "line_count (fp_stats fp)" and ?bs = "if before_context (fp_ltx fp) > 0 then before_buf fp else []"
  obtain fp1 where f1: "forward_before process (stat update_line_matched fp) ?bs ?n = (fp1, None)" "ready fp1"
    using forward_before_ready[of "stat update_line_matched fp"] r by fastforce
  have "ready (stat update_line_transmitted (if ?bs = [] then fp1 else fp1\<lparr>before_buf := []\<rparr>))" using f1(2) by simp
  from forward_ready[OF this, of l ?n] obtain fp2 where
    f2: "forward process (stat update_line_transmitted (if ?bs = [] then fp1 else fp1\<lparr>before_buf := []\<rparr>)) l ?n = (fp2, None)" "ready fp2"
    by (elim exE conjE)
  have "process_filtered_line process fp l = after_match fp2"
    unfolding process_matched[OF True[THEN conjunct1] True[THEN conjunct2] r[unfolded ready_def, THEN conjunct2, THEN conjunct2] refl]
      f1(1) prod.case option.case f2(1) by (rule refl)
  then show ?thesis using after_match_ready[OF f2(2)] by simp
next
  case False
  assume r: "ready fp"
  let ?n = "line_count (fp_stats fp)"
  show ?thesis
  proof (cases "ltx_has (fp_ltx fp)")
    case True
    then show ?thesis using False r forward_ready[of "stat update_line_transmitted ((stat update_line_not_matched fp)\<lparr>after_count := after_count fp - 1\<rparr>)" l ?n]
      by (simp add: process_filtered_line_def process_with_context_def Let_def)
  next
    case no: False
    then show ?thesis using r forward_ready[of "stat update_line_transmitted (stat update_line_matched fp)" l ?n]
      by (simp add: process_filtered_line_def Let_def)
  qed
qed

lemma filter_lines_ready: "ready fp \<Longrightarrow> \<exists>fp'. filter_lines process fp ls = (fp', None) \<and> ready fp'"
proof (induction ls arbitrary: fp)
  case (Cons l ls)
  obtain fp1 where "process_filtered_line process (stat update_position fp) l = (fp1, None)" "ready fp1"
    using line_ready[of "stat update_position fp"] Cons.prems by auto
  then show ?case using Cons.IH[of fp1] by simp
qed simp

text \<open>What the selection without a limit of matches does to the view of a processor.\<close>

lemma selection_seen:
  assumes "is_open p"
  shows "\<exists>fp'. filter_lines process (new_filter p M (context_of A B) st glob) ls = (fp', None) \<and> is_open (fp_processor fp') \<and>
    observe (fp_processor fp') = observe_all (observe p)
      (map (event_of (line_count st) glob ls) (filter (selected (hits M ls) A B) [0..<length ls]))"
proof -
  let ?fp = "new_filter p M (context_of A B) st glob"
  obtain fp' where fp': "filter_lines process ?fp ls = (fp', None)"
    using filter_lines_ready[of ?fp ls] assms by (auto simp: ready_def new_filter_def context_of_def)
  have c: "as_collector [] ?fp = new_filter [] M (context_of A B) st glob" by (simp add: as_collector_def new_filter_def)
  obtain evs where evs: "seen p (fp_processor fp') evs" "filter_lines collect (as_collector [] ?fp) ls = (as_collector evs fp', None)"
    using filter_lines_observed[OF fp'] unfolding simulated_def by (auto simp: new_filter_def)
  obtain fc where "filter_lines collect (new_filter [] M (context_of A B) st glob) ls = (fc, None)"
    "fp_processor fc = map (event_of (line_count st) glob ls) (filter (selected (hits M ls) A B) [0..<length ls])"
    using filter_collect_run[of M A B st glob ls] by blast
  then have "evs = map (event_of (line_count st) glob ls) (filter (selected (hits M ls) A B) [0..<length ls])"
    using evs(2) unfolding c by (metis as_collector_simps(1) fst_conv)
  then show ?thesis using fp' evs(1) assms unfolding seen_def by blast
qed

end

text \<open>
  C8: Selecting lines as they are read, with one counter and one bounded buffer, selects what
  a look at the whole file selects: exactly the matching lines, the \<open>A\<close> lines after a match and
  the \<open>B\<close> lines before one, each once, in order, with its own line number. The buffer never
  holds more than \<open>B\<close> lines.
\<close>

theorem grep_context_exact:
  "\<exists>fp'. filter_lines collect (new_filter [] M (context_of A B) st glob) ls = (fp', None) \<and>
     fp_processor fp' = map (event_of (line_count st) glob ls) (filter (selected (hits M ls) A B) [0..<length ls]) \<and>
     length (before_buf fp') \<le> B"
  by (rule filter_collect_run)

definition count_inv :: "(gostr \<Rightarrow> bool) \<Rightarrow> int \<Rightarrow> line_event list filtering_processor \<Rightarrow> bool" where
  "count_inv M k fp \<longleftrightarrow>
     fp_match fp = M \<and> ltx_max_count (fp_ltx fp) = k \<and> (\<forall>b\<in>set (before_buf fp). \<not> M b) \<and>
     int (length (filter (\<lambda>ev. M (fst ev)) (fp_processor fp))) = fp_max_count fp \<and> fp_max_count fp \<le> k \<and>
     (fp_max_count fp = k \<longrightarrow> max_reached fp)"

lemma count_inv_step:
  assumes "count_inv M k fp" and "0 < k" and "process_filtered_line collect fp l = (fp', e)"
  shows "(e = None \<longrightarrow> count_inv M k fp') \<and> int (length (filter (\<lambda>ev. M (fst ev)) (fp_processor fp'))) \<le> k"
proof -
  have has: "ltx_has (fp_ltx fp)" using assms(1,2) by (simp add: ltx_has_def count_inv_def)
  show ?thesis
  proof (cases "M l")
    case False
    have tl: "x \<in> set (tl (before_buf fp)) \<Longrightarrow> x \<in> set (before_buf fp)" for x
      by (cases "before_buf fp") auto
    have nb: "\<forall>b\<in>set ((if k then tl (before_buf fp) else before_buf fp) @ [l]). \<not> M b" for k
      using assms(1) False tl by (auto simp: count_inv_def)
    have M: "fp_match fp = M" using assms(1) by (simp add: count_inv_def)
    consider (after) "after_context (fp_ltx fp) > 0 \<and> after_count fp > 0"
      | (buffer) "\<not> (after_context (fp_ltx fp) > 0 \<and> after_count fp > 0)" "before_context (fp_ltx fp) > 0"
      | (drop) "\<not> (after_context (fp_ltx fp) > 0 \<and> after_count fp > 0)" "\<not> before_context (fp_ltx fp) > 0"
      by blast
    then show ?thesis
    proof cases
      case after
      then show ?thesis using assms has False M
        by (auto simp: process_filtered_line_def process_with_context_def Let_def count_inv_def)
    next
      case buffer
      have "fp' = stat update_line_not_transmitted ((stat update_line_not_matched fp)\<lparr>before_buf :=
          (if before_context (fp_ltx fp) \<le> int (length (before_buf fp)) then tl (before_buf fp) else before_buf fp) @ [l]\<rparr>)"
        "e = None"
        using assms(3) has False M buffer
        by (auto simp: process_filtered_line_def process_with_context_def Let_def)
      then show ?thesis using assms(1) nb by (simp add: count_inv_def)
    next
      case drop
      then show ?thesis using assms has False M
        by (auto simp: process_filtered_line_def process_with_context_def Let_def count_inv_def)
    qed
  next
    case True
    let ?fp = "stat update_line_matched fp" and ?n = "line_count (fp_stats fp)"
    let ?bs = "if before_context (fp_ltx fp) > 0 then before_buf fp else []"
    show ?thesis
    proof (cases "max_reached fp")
      case True
      then show ?thesis using assms has \<open>M l\<close>
        by (auto simp: process_filtered_line_def process_with_context_def Let_def count_inv_def)
    next
      case nr: False
      then have lt: "fp_max_count fp < k" using assms(1) by (auto simp: count_inv_def)
      have Ml: "fp_match fp l" using \<open>M l\<close> assms(1) by (simp add: count_inv_def)
      obtain fp1 where b: "forward_before collect ?fp ?bs ?n = (fp1, None)"
        and p1: "fp_processor fp1 = fp_processor fp @ map (\<lambda>i. (?bs ! i, ?n - of_nat (length ?bs - i), fp_glob fp)) [0..<length ?bs]"
        and k1: "fp_match fp1 = M" "fp_ltx fp1 = fp_ltx fp" "before_buf fp1 = before_buf fp"
          "fp_max_count fp1 = fp_max_count fp" "\<not> max_reached fp1"
        using forward_before_collect[of ?fp ?bs ?n] assms(1) nr by (auto simp: count_inv_def)
      have nb: "filter (\<lambda>ev. M (fst ev)) (map (\<lambda>i. (?bs ! i, ?n - of_nat (length ?bs - i), fp_glob fp)) [0..<length ?bs]) = []"
        using assms(1) by (auto simp: count_inv_def filter_empty_conv)
      define fp1' where "fp1' = (if ?bs = [] then fp1 else fp1\<lparr>before_buf := []\<rparr>)"
      define fp2 where "fp2 = (stat update_line_transmitted fp1')\<lparr>fp_processor := fp_processor fp1 @ [(l, ?n, fp_glob fp1)]\<rparr>"
      have k2: "fp_match fp2 = M" "fp_ltx fp2 = fp_ltx fp" "fp_max_count fp2 = fp_max_count fp" "\<not> max_reached fp2"
        "\<forall>b\<in>set (before_buf fp2). \<not> M b" "fp_processor fp2 = fp_processor fp1 @ [(l, ?n, fp_glob fp1)]"
        using k1 assms(1) by (auto simp: fp2_def fp1'_def count_inv_def split: if_splits)
      have c2: "int (length (filter (\<lambda>ev. M (fst ev)) (fp_processor fp2))) = fp_max_count fp + 1"
        using assms(1) \<open>M l\<close> nb by (simp add: k2 p1 count_inv_def)
      have e: "(fp', e) = after_match fp2"
        using assms(3) Ml b unfolding process_matched[OF has Ml nr refl] b fp2_def fp1'_def by (simp split: if_splits)
      have mk: "ltx_max_count (fp_ltx fp2) = k" using k2 assms(1) by (simp add: count_inv_def)
      show ?thesis using e c2 lt k2 mk assms(2)
        by (auto simp: after_match_def Let_def count_inv_def split: if_splits)
    qed
  qed
qed

lemma count_inv_run:
  "count_inv M k fp \<Longrightarrow> 0 < k \<Longrightarrow> filter_lines collect fp ls = (fp', e) \<Longrightarrow>
   int (length (filter (\<lambda>ev. M (fst ev)) (fp_processor fp'))) \<le> k"
proof (induction ls arbitrary: fp)
  case Nil
  then show ?case by (auto simp: count_inv_def)
next
  case (Cons l ls)
  obtain fp1 e1 where f: "process_filtered_line collect (stat update_position fp) l = (fp1, e1)" by fastforce
  have "count_inv M k (stat update_position fp)" using Cons.prems(1) by (simp add: count_inv_def)
  from count_inv_step[OF this Cons.prems(2) f] Cons show ?case using f by (cases e1) auto
qed

text \<open>
  A limit on the number of matches is kept: whatever the context, no more than
  \<open>MaxCount\<close> matching lines reach the processor.
\<close>

theorem max_count_kept:
  assumes "0 < ltx_max_count ltx" and "filter_lines collect (new_filter [] M ltx st glob) ls = (fp', e)"
  shows "int (length (filter (\<lambda>ev. M (fst ev)) (fp_processor fp'))) \<le> ltx_max_count ltx"
  by (rule count_inv_run[OF _ assms]) (use assms(1) in \<open>simp add: count_inv_def new_filter_def\<close>)

lemma max_count_kept_witness:
  "length (fp_processor (fst (filter_lines collect
     (new_filter [] (\<lambda>l. True) \<lparr>after_context = 0, before_context = 0, ltx_max_count = 1\<rparr> new_stats ''f'') [''a'', ''b'']))) \<le> 1"
proof -
  let ?ltx = "\<lparr>after_context = 0, before_context = 0, ltx_max_count = 1\<rparr>"
  obtain fp' e where r: "filter_lines collect (new_filter [] (\<lambda>l. True) ?ltx new_stats ''f'') [''a'', ''b''] = (fp', e)"
    by fastforce
  have "0 < ltx_max_count ?ltx" by simp
  from max_count_kept[OF this r] r show ?thesis by simp
qed

lemma forward_stats: "forward process fp l n = (fp', e) \<Longrightarrow> fp_stats fp' = fp_stats fp"
  by (auto simp: forward_def split: prod.splits)

lemma forward_before_stats:
  "forward_before process fp bs n = (fp', e) \<Longrightarrow> stats_ok (fp_stats fp) \<Longrightarrow> stats_ok (fp_stats fp')"
proof (induction bs arbitrary: fp)
  case (Cons b bs)
  obtain fp1 e1 where f: "forward process (stat update_line_transmitted fp) b (n - of_nat (length (b # bs))) = (fp1, e1)"
    by fastforce
  have "stats_ok (fp_stats fp1)" using forward_stats[OF f] stats_ok_steps(3)[OF Cons.prems(2)] by simp
  then show ?case using Cons f by (cases e1) auto
qed simp

lemma after_match_stats: "after_match fp = (fp', e) \<Longrightarrow> fp_stats fp' = fp_stats fp"
  by (auto simp: after_match_def Let_def split: if_splits)

lemma process_with_context_stats:
  assumes "process_with_context process fp l n = (fp', e)" and "stats_ok (fp_stats fp)"
  shows "stats_ok (fp_stats fp')"
proof (cases "fp_match fp l")
  case False
  then show ?thesis using assms
    by (auto simp: process_with_context_def Let_def stats_ok_steps dest!: forward_stats split: if_splits)
next
  case True
  let ?fp = "stat update_line_matched fp"
  let ?bs = "if before_context (fp_ltx fp) > 0 then before_buf fp else []"
  obtain fp1 e1 where b: "forward_before process ?fp ?bs n = (fp1, e1)" by fastforce
  have 1: "stats_ok (fp_stats fp1)" using forward_before_stats[OF b] stats_ok_steps(2)[OF assms(2)] by simp
  define fp1' where "fp1' = (if ?bs = [] then fp1 else fp1\<lparr>before_buf := []\<rparr>)"
  obtain fp2 e2 where f: "forward process (stat update_line_transmitted fp1') l n = (fp2, e2)" by fastforce
  have 2: "stats_ok (fp_stats fp2)" using forward_stats[OF f] stats_ok_steps(3)[OF 1] by (simp add: fp1'_def)
  have "(fp', e) = (if max_reached fp then (?fp, Some Eof)
      else case e1 of Some x \<Rightarrow> (fp1, Some x) | None \<Rightarrow> (case e2 of Some x \<Rightarrow> (fp2, Some x) | None \<Rightarrow> after_match fp2))"
    using assms(1) True b f
    by (auto simp: process_with_context_def Let_def fp1'_def split: option.splits if_splits)
  then show ?thesis using 1 2 stats_ok_steps(2)[OF assms(2)] after_match_stats[of fp2 fp' e]
    by (auto split: if_splits option.splits)
qed

lemma process_filtered_line_stats:
  assumes "process_filtered_line process fp l = (fp', e)" and "stats_ok (fp_stats fp)"
  shows "stats_ok (fp_stats fp')"
  using assms process_with_context_stats[of process fp l "line_count (fp_stats fp)" fp' e]
  by (auto simp: process_filtered_line_def Let_def stats_ok_steps dest!: forward_stats split: if_splits)

lemma filter_lines_stats:
  "filter_lines process fp ls = (fp', e) \<Longrightarrow> stats_ok (fp_stats fp) \<Longrightarrow> stats_ok (fp_stats fp')"
proof (induction ls arbitrary: fp)
  case (Cons l ls)
  obtain fp1 e1 where f: "process_filtered_line process (stat update_position fp) l = (fp1, e1)" by fastforce
  have "stats_ok (fp_stats fp1)" using process_filtered_line_stats[OF f] stats_ok_steps(1)[OF Cons.prems(2)] by simp
  then show ?case using Cons f by (cases e1) auto
qed simp

text \<open>
  The counters of the statistics stay exact: through any run of the filter the position
  stays in range and both counters are the numbers of set buckets, so neither passes a
  hundred nor wraps around.
\<close>

theorem stats_stay_exact:
  assumes "filter_lines process (new_filter p M ltx new_stats glob) ls = (fp', e)"
  shows "stats_ok (fp_stats fp') \<and> unat (match_count (fp_stats fp')) \<le> 100 \<and>
    0 \<le> transmit_count (fp_stats fp') \<and> transmit_count (fp_stats fp') \<le> 100"
proof -
  have ok: "stats_ok (fp_stats fp')" using filter_lines_stats[OF assms] by (simp add: new_filter_def)
  let ?f = "fp_stats fp'"
  have le: "count_true (matched ?f) \<le> 100" "count_true (transmitted ?f) \<le> 100"
    using ok count_true_le[of "matched ?f"] count_true_le[of "transmitted ?f"] by (auto simp: stats_ok_def)
  then have "unat (match_count ?f) = count_true (matched ?f)"
    using ok by (simp add: stats_ok_def unat_of_nat take_bit_eq_mod)
  then show ?thesis using ok le by (simp add: stats_ok_def)
qed

lemma stats_stay_exact_witness:
  "stats_ok (fp_stats (fst (filter_lines collect (new_filter [] (\<lambda>l. l = ''b'') (context_of 1 1) new_stats ''f'') [''a'', ''b''])))"
  using stats_stay_exact[of collect "[]" "\<lambda>l. l = ''b''" "context_of 1 1" "''f''" "[''a'', ''b'']"]
  by (metis prod.collapse)

end
