(* ===== verification/Line_Reader.thy ===== *)
theory Line_Reader
  imports Line_Filter
begin

text \<open>
  The readers of \<open>internal/io/fs\<close>: the scanner of whole files with its line limit
  (\<open>readWithProcessorOptimized\<close>), the byte by byte reader it replaces
  (\<open>readWithProcessor\<close>) and the reader that follows a file (\<open>tailWithProcessorOptimized\<close>).
  What a system call delivers is an argument: the chunks of the reads, the error at the
  end, the signals of the context and of the truncation check between two lines.
\<close>

subsection \<open>State, limit and the warning about long lines\<close>

definition newline :: char where
  "newline = CHR 0x0A"

record read_file =
  file_name :: gostr
  server_messages :: "gostr list option"
  seek_eof :: bool
  warned_about_long_line :: bool
  max_line_length :: int

definition default_max_line_length :: nat where
  "default_max_line_length = 1024 * 1024"

definition line_limit :: "read_file \<Rightarrow> nat" where
  "line_limit f = (if max_line_length f \<le> 0 then default_max_line_length else nat (max_line_length f))"

text \<open>
  A message stands for the warning about the file it names. \<open>ok\<close> is whether the channel takes
  it; otherwise the context was cancelled while the reader waited.
\<close>

definition warn_about_long_line :: "bool \<Rightarrow> read_file \<Rightarrow> read_file \<times> bool" where
  "warn_about_long_line ok f =
     (if warned_about_long_line f then (f, True)
      else case server_messages f of
          None \<Rightarrow> (f\<lparr>warned_about_long_line := True\<rparr>, True)
        | Some ms \<Rightarrow>
            if ok then (f\<lparr>server_messages := Some (ms @ [file_name f]), warned_about_long_line := True\<rparr>, True)
            else (f, False))"

definition index_byte :: "gostr \<Rightarrow> char \<Rightarrow> nat option" where
  "index_byte s c = (let n = length (takeWhile (\<lambda>x. x \<noteq> c) s) in if n < length s then Some n else None)"

subsection \<open>The split function of the scanner\<close>

datatype split_result = More | Token nat gostr | SplitCancelled

definition split_at_limit :: "bool \<Rightarrow> read_file \<Rightarrow> gostr \<Rightarrow> read_file \<times> split_result" where
  "split_at_limit ok f data =
     (case warn_about_long_line ok f of
        (f', False) \<Rightarrow> (f', SplitCancelled)
      | (f', True) \<Rightarrow> (f', Token (line_limit f) (take (line_limit f) data)))"

definition scan_lines_with_max_length :: "bool \<Rightarrow> read_file \<Rightarrow> gostr \<Rightarrow> bool \<Rightarrow> read_file \<times> split_result" where
  "scan_lines_with_max_length ok f data at_eof =
     (if at_eof \<and> data = [] then (f, More)
      else case index_byte data newline of
          Some i \<Rightarrow>
            if line_limit f < i then split_at_limit ok f data
            else (f\<lparr>warned_about_long_line := False\<rparr>, Token (i + 1) (take (i + 1) data))
        | None \<Rightarrow>
            if at_eof then
              (if line_limit f < length data then split_at_limit ok f data else (f, Token (length data) data))
            else if line_limit f \<le> length data then split_at_limit ok f data
            else (f, More))"

subsection \<open>The scanner\<close>

text \<open>
  \<open>bufio.Scanner\<close>: \<open>sc_buf\<close> is the part of its buffer between \<open>start\<close> and \<open>end\<close>, \<open>sc_chunks\<close> what
  the coming reads deliver, \<open>sc_eof\<close> whether a read has reported the end or an error. A buffer
  of \<open>max_token_size\<close> bytes without a token is the error \<open>ErrTooLong\<close>.
\<close>

record scanner =
  sc_buf :: gostr
  sc_eof :: bool
  sc_chunks :: "gostr list"

definition new_scanner :: "gostr list \<Rightarrow> scanner" where
  "new_scanner chunks = \<lparr>sc_buf = [], sc_eof = False, sc_chunks = chunks\<rparr>"

definition max_token_size :: nat where
  "max_token_size = 1024 * 1024"

definition sc_rest :: "scanner \<Rightarrow> gostr" where
  "sc_rest sc = sc_buf sc @ concat (sc_chunks sc)"

definition read_more :: "nat \<Rightarrow> scanner \<Rightarrow> scanner" where
  "read_more mt sc =
     (case sc_chunks sc of
        [] \<Rightarrow> sc\<lparr>sc_eof := True\<rparr>
      | c # cs \<Rightarrow>
          (let n = mt - length (sc_buf sc)
           in sc\<lparr>sc_buf := sc_buf sc @ take n c,
                 sc_chunks := (if length c \<le> n then cs else drop n c # cs)\<rparr>))"

datatype scan_result = ScanToken gostr | ScanEnd | ScanCancelled | ScanTooLong

function scan :: "nat \<Rightarrow> bool \<Rightarrow> read_file \<Rightarrow> scanner \<Rightarrow> read_file \<times> scanner \<times> scan_result" where
  "scan mt ok f sc =
     (case (if sc_buf sc \<noteq> [] \<or> sc_eof sc then scan_lines_with_max_length ok f (sc_buf sc) (sc_eof sc) else (f, More)) of
        (f', Token n t) \<Rightarrow> (f', sc\<lparr>sc_buf := drop n (sc_buf sc)\<rparr>, ScanToken t)
      | (f', SplitCancelled) \<Rightarrow> (f', sc, ScanCancelled)
      | (f', More) \<Rightarrow>
          if sc_eof sc then (f', sc, ScanEnd)
          else if mt \<le> length (sc_buf sc) then (f', sc, ScanTooLong)
          else scan mt ok f' (read_more mt sc))"
  by pat_completeness auto
termination
proof (relation "measure (\<lambda>(mt, ok, f, sc). (if sc_eof sc then 0 else 1) + length (sc_chunks sc) + length (concat (sc_chunks sc)))")
  fix mt and sc :: scanner
  assume "\<not> sc_eof sc" "\<not> mt \<le> length (sc_buf sc)"
  then have "(if sc_eof (read_more mt sc) then 0 else 1) + length (sc_chunks (read_more mt sc)) +
      length (concat (sc_chunks (read_more mt sc)))
    < (if sc_eof sc then 0 else 1) + length (sc_chunks sc) + length (concat (sc_chunks sc))"
    by (auto simp: read_more_def Let_def split: list.splits)
  then show "((mt, ok, f', read_more mt sc), mt, ok, f, sc) \<in>
      measure (\<lambda>(mt, ok, f, sc). (if sc_eof sc then 0 else 1) + length (sc_chunks sc) + length (concat (sc_chunks sc)))"
    for ok f f' by simp
qed simp

declare scan.simps [simp del]

text \<open>Every token is a part of the data and brings the scan forward.\<close>

lemma index_byte_Some:
  assumes "index_byte s c = Some i"
  shows "i < length s \<and> s ! i = c \<and> c \<notin> set (take i s)"
proof -
  have i: "length (takeWhile (\<lambda>x. x \<noteq> c) s) < length s" "i = length (takeWhile (\<lambda>x. x \<noteq> c) s)"
    using assms by (auto simp: index_byte_def Let_def split: if_splits)
  then show ?thesis using nth_length_takeWhile[OF i(1)]
    by (auto simp: takeWhile_eq_take[symmetric] dest: set_takeWhileD)
qed

lemma index_byte_None: "index_byte s c = None \<longleftrightarrow> c \<notin> set s"
proof
  assume "index_byte s c = None"
  then have "length (takeWhile (\<lambda>x. x \<noteq> c) s) = length s"
    using length_takeWhile_le[of "\<lambda>x. x \<noteq> c" s] by (auto simp: index_byte_def Let_def split: if_splits)
  then have "takeWhile (\<lambda>x. x \<noteq> c) s = s" by (metis takeWhile_eq_take take_all order_refl)
  then show "c \<notin> set s" by (metis set_takeWhileD)
next
  assume "c \<notin> set s"
  then have "takeWhile (\<lambda>x. x \<noteq> c) s = s" by (auto simp: takeWhile_eq_all_conv)
  then show "index_byte s c = None" unfolding index_byte_def Let_def by (simp only: if_False less_irrefl)
qed

lemma line_limit_pos [simp]: "0 < line_limit f"
  by (simp add: line_limit_def default_max_line_length_def)

lemma line_limit_warned [simp]: "line_limit (f\<lparr>warned_about_long_line := w\<rparr>) = line_limit f"
  by (simp add: line_limit_def)

lemma warn_limit [simp]: "line_limit (fst (warn_about_long_line ok f)) = line_limit f"
  by (auto simp: warn_about_long_line_def line_limit_def split: option.splits)

lemma split_at_limit_limit [simp]: "line_limit (fst (split_at_limit ok f data)) = line_limit f"
  using warn_limit[of ok f] by (auto simp: split_at_limit_def simp del: warn_limit split: prod.splits bool.splits)

lemma scan_lines_limit [simp]:
  "line_limit (fst (scan_lines_with_max_length ok f data at_eof)) = line_limit f"
  by (auto simp: scan_lines_with_max_length_def split: option.splits)

lemma split_at_limit_token:
  "split_at_limit ok f data = (f', Token n t) \<Longrightarrow> n = line_limit f \<and> t = take n data"
  by (auto simp: split_at_limit_def split: prod.splits bool.splits)

lemma scan_lines_token:
  assumes "scan_lines_with_max_length ok f data at_eof = (f', Token n t)"
  shows "t = take n data \<and> 0 < n \<and> n \<le> length data \<and> n \<le> line_limit f + 1 \<and> newline \<notin> set (take (n - 1) data)"
proof (cases "index_byte data newline")
  case (Some i)
  have i: "i < length data" "newline \<notin> set (take i data)" using index_byte_Some[OF Some] by auto
  show ?thesis
  proof (cases "line_limit f < i")
    case True
    with assms Some have n: "n = line_limit f" "t = take n data"
      by (auto simp: scan_lines_with_max_length_def dest: split_at_limit_token split: if_splits)
    moreover have "set (take (n - 1) data) \<subseteq> set (take i data)"
      using True n by (intro set_take_subset_set_take) simp
    ultimately show ?thesis using i True line_limit_pos[of f] by auto
  next
    case False
    with assms Some i show ?thesis by (auto simp: scan_lines_with_max_length_def split: if_splits)
  qed
next
  case None
  then have "newline \<notin> set data" by (simp add: index_byte_None)
  then have nn: "newline \<notin> set (take k data)" for k by (meson in_set_takeD)
  show ?thesis
    using assms None nn line_limit_pos[of f]
    by (auto simp: scan_lines_with_max_length_def dest: split_at_limit_token split: if_splits)
qed

lemma read_more_rest [simp]: "length (sc_buf sc) < mt \<Longrightarrow> sc_rest (read_more mt sc) = sc_rest sc"
  by (auto simp: read_more_def sc_rest_def Let_def split: list.splits)

lemma scan_token:
  "scan mt ok f sc = (f', sc', ScanToken t) \<Longrightarrow>
   sc_rest sc = t @ sc_rest sc' \<and> t \<noteq> [] \<and> length t \<le> line_limit f + 1 \<and> newline \<notin> set (butlast t) \<and>
   line_limit f' = line_limit f"
proof (induction mt ok f sc rule: scan.induct)
  case (1 mt ok f sc)
  let ?s = "if sc_buf sc \<noteq> [] \<or> sc_eof sc then scan_lines_with_max_length ok f (sc_buf sc) (sc_eof sc) else (f, More)"
  obtain g r where s: "?s = (g, r)" by fastforce
  have g: "line_limit g = line_limit f" using s by (metis fst_conv scan_lines_limit)
  show ?case
  proof (cases r)
    case More
    with 1 s have "\<not> sc_eof sc" "\<not> mt \<le> length (sc_buf sc)" and r: "scan mt ok g (read_more mt sc) = (f', sc', ScanToken t)"
      by (auto simp: scan.simps[of mt ok f sc] split: if_splits)
    with 1(1)[OF s[symmetric] More this(1,2)] show ?thesis by (simp add: g)
  next
    case (Token n u)
    with 1(2) s have e: "f' = g" "sc' = sc\<lparr>sc_buf := drop n (sc_buf sc)\<rparr>" "t = u"
      by (auto simp: scan.simps[of mt ok f sc])
    have "scan_lines_with_max_length ok f (sc_buf sc) (sc_eof sc) = (g, Token n u)"
      using s Token by (auto split: if_splits)
    from scan_lines_token[OF this] show ?thesis
      by (auto simp: e g sc_rest_def butlast_take)
  next
    case SplitCancelled
    with 1(2) s show ?thesis by (simp add: scan.simps[of mt ok f sc])
  qed
qed

subsection \<open>Reading a whole file\<close>

text \<open>
  What happens beside a token: whether a warning would be taken, and what the two checks
  before the line find. \<open>Quiet\<close> also covers a truncation check that finds the file intact.
\<close>

datatype 'e read_error = Processing 'e | CtxCancelled | TokenTooLong | ReadFailed gostr | FileTruncated gostr

datatype 'e signal = Quiet | CtxDone | Truncation "'e read_error option"

type_synonym 'e environment = "nat \<Rightarrow> bool \<times> 'e signal"

definition hand_over :: "('p, 'e) process \<Rightarrow> 'p filtering_processor \<Rightarrow> gostr \<Rightarrow>
    'p filtering_processor \<times> 'e filter_error option" where
  "hand_over process fp data =
     (let fp = stat update_position fp in
      if \<not> ltx_has (fp_ltx fp) then process_filtered_raw process fp data
      else process_filtered_line process fp data)"

function read_lines :: "nat \<Rightarrow> 'e environment \<Rightarrow> nat \<Rightarrow> ('p, 'e) process \<Rightarrow> 'e read_error option \<Rightarrow>
    read_file \<Rightarrow> scanner \<Rightarrow> 'p filtering_processor \<Rightarrow> read_file \<times> 'p filtering_processor \<times> 'e read_error option" where
  "read_lines mt env i process fin f sc fp =
     (case scan mt (fst (env i)) f sc of
        (f', sc', ScanToken t) \<Rightarrow>
          (case snd (env i) of
             CtxDone \<Rightarrow> (f', fp, None)
           | Truncation e \<Rightarrow> (f', fp, e)
           | Quiet \<Rightarrow>
               (case hand_over process fp t of
                  (fp', Some Eof) \<Rightarrow> (f', fp', None)
                | (fp', Some (ProcessError e)) \<Rightarrow> (f', fp', Some (Processing e))
                | (fp', None) \<Rightarrow> read_lines mt env (Suc i) process fin f' sc' fp'))
      | (f', sc', ScanEnd) \<Rightarrow> (f', fp, fin)
      | (f', sc', ScanCancelled) \<Rightarrow> (f', fp, Some CtxCancelled)
      | (f', sc', ScanTooLong) \<Rightarrow> (f', fp, Some TokenTooLong))"
  by pat_completeness auto
termination
  by (relation "measure (\<lambda>(mt, env, i, process, fin, f, sc, fp). length (sc_rest sc))")
    (auto dest!: scan_token[OF sym])

declare read_lines.simps [simp del]

text \<open>
  \<open>StartWithProcessorOptimized\<close> of a file that is not followed: the flush after the read only
  counts as an error where the read had none.
\<close>

definition start_read :: "'e environment \<Rightarrow> ('p, 'e) process \<Rightarrow> ('p \<Rightarrow> 'p \<times> 'e option) \<Rightarrow> 'e read_error option \<Rightarrow>
    read_file \<Rightarrow> gostr list \<Rightarrow> 'p filtering_processor \<Rightarrow> read_file \<times> 'p \<times> 'e read_error option" where
  "start_read env process flush fin f chunks fp =
     (case read_lines max_token_size env 0 process fin f (new_scanner chunks) fp of
        (f', fp', e) \<Rightarrow>
          (case flush (fp_processor fp') of
             (p, Some x) \<Rightarrow> (f', p, if e = None then Some (Processing x) else e)
           | (p, None) \<Rightarrow> (f', p, e)))"

subsection \<open>The pieces of a file\<close>

text \<open>The reference: what the lines of a file are when all of it is at hand.\<close>

function pieces :: "nat \<Rightarrow> gostr \<Rightarrow> gostr list" where
  "pieces m s =
     (if s = [] \<or> m = 0 then []
      else
        let n = (case index_byte s newline of
                   Some i \<Rightarrow> if m < i then m else i + 1
                 | None \<Rightarrow> if m < length s then m else length s)
        in take n s # pieces m (drop n s))"
  by pat_completeness auto
termination
  by (relation "measure (\<lambda>(m, s). length s)") (auto split: option.splits)

declare pieces.simps [simp del]

lemma pieces_Nil [simp]: "pieces m [] = []"
  by (simp add: pieces.simps)

lemma index_byte_append_Some:
  assumes "index_byte s c = Some i"
  shows "index_byte (s @ t) c = Some i"
proof -
  have "c \<in> set s" using index_byte_Some[OF assms] by (metis nth_mem)
  then have "takeWhile (\<lambda>x. x \<noteq> c) (s @ t) = takeWhile (\<lambda>x. x \<noteq> c) s" by (rule takeWhile_append1) simp
  then show ?thesis using assms unfolding index_byte_def Let_def by (auto split: if_splits)
qed

lemma index_byte_append_None:
  "index_byte s c = None \<Longrightarrow> index_byte (s @ t) c = map_option (\<lambda>i. length s + i) (index_byte t c)"
proof -
  assume "index_byte s c = None"
  then have "\<forall>x\<in>set s. x \<noteq> c" by (auto simp: index_byte_None)
  then have "takeWhile (\<lambda>x. x \<noteq> c) (s @ t) = s @ takeWhile (\<lambda>x. x \<noteq> c) t" by simp
  then show ?thesis unfolding index_byte_def Let_def by simp
qed

lemma pieces_first:
  assumes "s \<noteq> []" and "0 < m"
  shows "pieces m s = hd (pieces m s) # pieces m (drop (length (hd (pieces m s))) s)"
    and "hd (pieces m s) = take (length (hd (pieces m s))) s" and "hd (pieces m s) \<noteq> []"
  using assms index_byte_Some[of s newline] by (auto simp: pieces.simps[of m s] Let_def min_def split: option.splits)

lemma hd_pieces:
  "s \<noteq> [] \<Longrightarrow> 0 < m \<Longrightarrow> hd (pieces m s) =
     (case index_byte s newline of Some i \<Rightarrow> if m < i then take m s else take (i + 1) s
      | None \<Rightarrow> if m < length s then take m s else s)"
  by (auto simp: pieces.simps[of m s] Let_def split: option.splits)

lemma warn_accepted [simp]: "snd (warn_about_long_line True f)"
  by (simp add: warn_about_long_line_def split: option.splits)

lemma split_at_limit_accepted:
  "\<exists>f'. split_at_limit True f data = (f', Token (line_limit f) (take (line_limit f) data))"
proof -
  obtain f' where "warn_about_long_line True f = (f', True)" using warn_accepted[of f] by (metis prod.collapse)
  then show ?thesis by (simp add: split_at_limit_def)
qed

text \<open>One call of the split function finds the first piece of all that is still to come.\<close>

lemma split_piece:
  assumes "at_eof \<longrightarrow> later = []" and "data @ later \<noteq> []"
    and "length (hd (pieces (line_limit f) (data @ later))) \<le> line_limit f"
  shows "(\<exists>f'. scan_lines_with_max_length True f data at_eof =
       (f', Token (length (hd (pieces (line_limit f) (data @ later)))) (hd (pieces (line_limit f) (data @ later)))) \<and>
       length (hd (pieces (line_limit f) (data @ later))) \<le> length data) \<or>
     scan_lines_with_max_length True f data at_eof = (f, More) \<and> \<not> at_eof \<and> length data < line_limit f"
proof (cases "index_byte data newline")
  case (Some i)
  let ?m = "line_limit f"
  have i: "i < length data" using index_byte_Some[OF Some] by simp
  have hd: "hd (pieces ?m (data @ later)) = (if ?m < i then take ?m data else take (i + 1) data)"
    using i hd_pieces[OF assms(2) line_limit_pos[of f]] by (simp add: index_byte_append_Some[OF Some])
  show ?thesis
  proof (cases "?m < i")
    case True
    then show ?thesis using Some i hd split_at_limit_accepted[of f data]
      by (auto simp: scan_lines_with_max_length_def)
  next
    case False
    then show ?thesis using Some i hd by (auto simp: scan_lines_with_max_length_def)
  qed
next
  case None
  let ?m = "line_limit f"
  show ?thesis
  proof (cases "at_eof")
    case True
    then have "hd (pieces ?m (data @ later)) = (if ?m < length data then take ?m data else data)"
      using assms(1,2) None hd_pieces[of data ?m] by simp
    then show ?thesis using None True assms(1,2) split_at_limit_accepted[of f data]
      by (auto simp: scan_lines_with_max_length_def)
  next
    case False
    show ?thesis
    proof (cases "?m \<le> length data")
      case True
      have "hd (pieces ?m (data @ later)) = take ?m data"
        using assms(2,3) True hd_pieces[OF assms(2) line_limit_pos[of f]]
        by (cases later) (auto simp: None index_byte_append_None[OF None] split: option.splits if_splits)
      then show ?thesis using True None False split_at_limit_accepted[of f data]
        by (auto simp: scan_lines_with_max_length_def)
    next
      case False
      then show ?thesis using None \<open>\<not> at_eof\<close> by (simp add: scan_lines_with_max_length_def)
    qed
  qed
qed

text \<open>One \<open>Scan\<close> finds the first piece, however the reads fall, and never runs out of buffer.\<close>

definition scanner_ok :: "nat \<Rightarrow> scanner \<Rightarrow> bool" where
  "scanner_ok mt sc \<longleftrightarrow> length (sc_buf sc) \<le> mt \<and> (sc_eof sc \<longrightarrow> sc_chunks sc = [])"

lemma new_scanner_ok [simp]: "scanner_ok mt (new_scanner chunks)"
  by (simp add: scanner_ok_def new_scanner_def)

lemma read_more_ok: "scanner_ok mt sc \<Longrightarrow> scanner_ok mt (read_more mt sc)"
  by (auto simp: scanner_ok_def read_more_def Let_def split: list.splits)

lemma drop_buf_ok: "scanner_ok mt sc \<Longrightarrow> scanner_ok mt (sc\<lparr>sc_buf := drop k (sc_buf sc)\<rparr>)"
  by (auto simp: scanner_ok_def)

definition reads_piece :: "nat \<Rightarrow> nat \<Rightarrow> gostr \<Rightarrow> read_file \<times> scanner \<times> scan_result \<Rightarrow> bool" where
  "reads_piece mt m s r =
     (case r of (f', sc', x) \<Rightarrow>
        line_limit f' = m \<and> scanner_ok mt sc' \<and>
        (if s = [] then x = ScanEnd \<and> sc_rest sc' = []
         else x = ScanToken (hd (pieces m s)) \<and> s = hd (pieces m s) @ sc_rest sc'))"

lemma scan_piece:
  assumes "scanner_ok mt sc" and "line_limit f \<le> mt"
    and "sc_rest sc \<noteq> [] \<longrightarrow> length (hd (pieces (line_limit f) (sc_rest sc))) \<le> line_limit f"
  shows "reads_piece mt (line_limit f) (sc_rest sc) (scan mt True f sc)"
  using assms
proof (induction mt True f sc rule: scan.induct)
  case (1 mt f sc)
  let ?s = "if sc_buf sc \<noteq> [] \<or> sc_eof sc then scan_lines_with_max_length True f (sc_buf sc) (sc_eof sc) else (f, More)"
  let ?m = "line_limit f" and ?r = "sc_rest sc"
  have e: "sc_eof sc \<longrightarrow> concat (sc_chunks sc) = []" using 1(2) by (simp add: scanner_ok_def)
  consider (token) f' where "?r \<noteq> []" "?s = (f', Token (length (hd (pieces ?m ?r))) (hd (pieces ?m ?r)))"
      "length (hd (pieces ?m ?r)) \<le> length (sc_buf sc)"
    | (again) "?s = (f, More)" "\<not> sc_eof sc" "length (sc_buf sc) < ?m"
    | (finish) "?s = (f, More)" "sc_eof sc" "?r = []"
  proof (cases "sc_buf sc = []")
    case True
    then show ?thesis using again finish e
      by (cases "sc_eof sc") (simp_all add: scan_lines_with_max_length_def sc_rest_def)
  next
    case False
    then have ne: "?r \<noteq> []" by (simp add: sc_rest_def)
    from split_piece[OF e _ , of "sc_buf sc" f] 1(4) ne show ?thesis
      using token again False by (auto simp: sc_rest_def)
  qed
  then show ?case
  proof cases
    case (token f')
    have "line_limit f' = ?m" using token(2) scan_lines_limit by (metis fst_conv)
    moreover have "scan mt True f sc =
        (f', sc\<lparr>sc_buf := drop (length (hd (pieces ?m ?r))) (sc_buf sc)\<rparr>, ScanToken (hd (pieces ?m ?r)))"
      using token(2) by (simp add: scan.simps[of mt True f sc])
    moreover have "?r = hd (pieces ?m ?r) @ drop (length (hd (pieces ?m ?r))) ?r"
      using pieces_first(2)[OF token(1) line_limit_pos[of f]] by (metis append_take_drop_id)
    ultimately show ?thesis using token(1,3) drop_buf_ok[OF 1(2)] by (simp add: reads_piece_def sc_rest_def)
  next
    case again
    have n: "\<not> mt \<le> length (sc_buf sc)" using again(3) 1(3) by simp
    have "scan mt True f sc = scan mt True f (read_more mt sc)"
      using again(1,2) n by (simp add: scan.simps[of mt True f sc])
    with 1(1)[OF again(1)[symmetric] refl again(2) n read_more_ok[OF 1(2)] 1(3)] 1(4) n show ?thesis by simp
  next
    case finish
    then show ?thesis using 1(2) by (simp add: scan.simps[of mt True f sc] reads_piece_def)
  qed
qed

lemma hand_over_filter: "hand_over process fp l = process_filtered_line process (stat update_position fp) l"
  by (simp add: hand_over_def process_filtered_line_def process_filtered_raw_def Let_def)

definition read_outcome :: "'e read_error option \<Rightarrow> 'e filter_error option \<Rightarrow> 'e read_error option" where
  "read_outcome fin e = (case e of None \<Rightarrow> fin | Some Eof \<Rightarrow> None | Some (ProcessError x) \<Rightarrow> Some (Processing x))"

lemma read_lines_pieces:
  assumes "\<forall>i. env i = (True, Quiet)" and "scanner_ok mt sc" and "line_limit f \<le> mt"
    and "\<forall>l\<in>set (pieces (line_limit f) (sc_rest sc)). length l \<le> line_limit f"
  shows "snd (read_lines mt env i process fin f sc fp) =
    (case filter_lines process fp (pieces (line_limit f) (sc_rest sc)) of (fp', e) \<Rightarrow> (fp', read_outcome fin e))"
  using assms(2-4)
proof (induction "length (sc_rest sc)" arbitrary: i f sc fp rule: less_induct)
  case less
  let ?m = "line_limit f" and ?r = "sc_rest sc"
  show ?case
  proof (cases "?r = []")
    case True
    with scan_piece[OF less(2,3)] obtain f' sc' where "scan mt True f sc = (f', sc', ScanEnd)"
      by (auto simp: reads_piece_def split: prod.splits)
    with True show ?thesis using assms(1) by (simp add: read_lines.simps[of mt env i] read_outcome_def)
  next
    case False
    note first = pieces_first[OF False line_limit_pos[of f]]
    have l: "length (hd (pieces ?m ?r)) \<le> ?m" using less(4) first(1) by (metis list.set_intros(1))
    with scan_piece[OF less(2,3)] False obtain f' sc'
      where s: "scan mt True f sc = (f', sc', ScanToken (hd (pieces ?m ?r)))"
        and i: "line_limit f' = ?m" "scanner_ok mt sc'" "?r = hd (pieces ?m ?r) @ sc_rest sc'"
      by (auto simp: reads_piece_def split: prod.splits)
    have "sc_rest sc' = drop (length (hd (pieces ?m ?r))) ?r" using i(3) by (metis append_eq_conv_conj)
    then have p: "pieces ?m ?r = hd (pieces ?m ?r) # pieces ?m (sc_rest sc')" using first(1) by simp
    have lt: "length (sc_rest sc') < length ?r"
      using i(3) first(3) by (metis length_append length_greater_0_conv less_add_same_cancel2)
    obtain fp' e where h: "hand_over process fp (hd (pieces ?m ?r)) = (fp', e)" by fastforce
    have ih: "snd (read_lines mt env (Suc i) process fin f' sc' fp') =
        (case filter_lines process fp' (pieces ?m (sc_rest sc')) of (fp', e) \<Rightarrow> (fp', read_outcome fin e))"
      using less(1)[OF lt i(2), of f' "Suc i" fp'] i(1) less(3,4) p by (metis list.set_intros(2))
    show ?thesis
    proof (cases e)
      case None
      have "read_lines mt env i process fin f sc fp = read_lines mt env (Suc i) process fin f' sc' fp'"
        using assms(1) s h None by (simp add: read_lines.simps[of mt env i])
      moreover have "filter_lines process fp (pieces ?m ?r) = filter_lines process fp' (pieces ?m (sc_rest sc'))"
        using h None by (subst p) (simp add: hand_over_filter)
      ultimately show ?thesis using ih by simp
    next
      case (Some x)
      have "snd (read_lines mt env i process fin f sc fp) = (fp', read_outcome fin (Some x))"
        using assms(1) s h Some by (cases x) (simp_all add: read_lines.simps[of mt env i] read_outcome_def)
      moreover have "filter_lines process fp (pieces ?m ?r) = (fp', Some x)"
        using h Some by (subst p) (simp add: hand_over_filter)
      ultimately show ?thesis by simp
    qed
  qed
qed

subsection \<open>Byte by byte\<close>

text \<open>
  \<open>readWithProcessor\<close>, over the events its reads meet. A processor error stops the read
  without being reported, except for the last line of the file.
\<close>

datatype 'e byte_event = ByteRead char | AtEof "'e signal" | ByteFailed "'e read_error"

datatype read_status = Nothing | AbortReading | ContinueReading

definition handle_read_byte :: "bool \<Rightarrow> ('p, 'e) process \<Rightarrow> char \<Rightarrow> read_file \<Rightarrow> gostr \<Rightarrow> 'p filtering_processor \<Rightarrow>
    read_file \<times> 'p filtering_processor \<times> read_status" where
  "handle_read_byte ok process b f msg fp =
     (if b = newline then
        (case process_filtered_line process (stat update_position fp) msg of
           (fp', Some e) \<Rightarrow> (f, fp', AbortReading)
         | (fp', None) \<Rightarrow> (f\<lparr>warned_about_long_line := False\<rparr>, fp', ContinueReading))
      else if line_limit f \<le> length msg then
        (case warn_about_long_line ok f of
           (f', False) \<Rightarrow> (f', fp, AbortReading)
         | (f', True) \<Rightarrow>
             (case process_filtered_line process (stat update_position fp) (msg @ [newline]) of
                (fp', Some e) \<Rightarrow> (f', fp', AbortReading)
              | (fp', None) \<Rightarrow> (f', fp', ContinueReading)))
      else (f, fp, Nothing))"

definition handle_read_eof :: "'e signal \<Rightarrow> ('p, 'e) process \<Rightarrow> read_file \<Rightarrow> gostr \<Rightarrow> 'p filtering_processor \<Rightarrow>
    'p filtering_processor \<times> read_status \<times> 'e filter_error option \<times> 'e read_error option" where
  "handle_read_eof sig process f msg fp =
     (case sig of
        Truncation e \<Rightarrow> (fp, AbortReading, None, e)
      | CtxDone \<Rightarrow> (fp, AbortReading, None, None)
      | Quiet \<Rightarrow>
          if \<not> seek_eof f then
            (if msg \<noteq> [] then
               (case process_filtered_line process (stat update_position fp) msg of
                  (fp', e) \<Rightarrow> (fp', AbortReading, e, None))
             else (fp, AbortReading, None, None))
          else (fp, Nothing, None, None))"

text \<open>The error of the last line is \<open>io.EOF\<close> where the match limit was reached in it.\<close>

datatype 'e byte_outcome = Running | Stopped "'e read_error option" | StoppedEof

fun read_bytes :: "bool \<Rightarrow> ('p, 'e) process \<Rightarrow> 'e byte_event list \<Rightarrow> read_file \<Rightarrow> gostr \<Rightarrow> 'p filtering_processor \<Rightarrow>
    read_file \<times> gostr \<times> 'p filtering_processor \<times> 'e byte_outcome" where
  "read_bytes ok process [] f msg fp = (f, msg, fp, Running)"
| "read_bytes ok process (ByteFailed e # evs) f msg fp = (f, msg, fp, Stopped (Some e))"
| "read_bytes ok process (AtEof sig # evs) f msg fp =
     (case handle_read_eof sig process f msg fp of
        (fp', Nothing, _, _) \<Rightarrow> read_bytes ok process evs f msg fp'
      | (fp', _, Some Eof, _) \<Rightarrow> (f, msg, fp', StoppedEof)
      | (fp', _, Some (ProcessError e), _) \<Rightarrow> (f, msg, fp', Stopped (Some (Processing e)))
      | (fp', _, None, e) \<Rightarrow> (f, msg, fp', Stopped e))"
| "read_bytes ok process (ByteRead b # evs) f msg fp =
     (case handle_read_byte ok process b f (msg @ [b]) fp of
        (f', fp', AbortReading) \<Rightarrow> (f', [], fp', Stopped None)
      | (f', fp', ContinueReading) \<Rightarrow> read_bytes ok process evs f' [] fp'
      | (f', fp', Nothing) \<Rightarrow> read_bytes ok process evs f' (msg @ [b]) fp')"

subsection \<open>Following a file\<close>

text \<open>
  \<open>tailWithProcessorOptimized\<close>: the lines lose their newline, and empty lines are not passed
  on. An iteration is a read of \<open>data\<close> with its error, and whether the context is cancelled at
  the end of the iteration.
\<close>

datatype 'e tail_error = NoReadError | ReadEof "'e signal" | ReadError "'e read_error"

datatype 'e tail_result = GoOn | Return "'e read_error option"

definition tail_line :: "('p, 'e) process \<Rightarrow> 'p filtering_processor \<Rightarrow> gostr \<Rightarrow> 'p filtering_processor \<times> 'e tail_result" where
  "tail_line process fp part =
     (case hand_over process fp part of
        (fp', None) \<Rightarrow> (fp', GoOn)
      | (fp', Some Eof) \<Rightarrow> (fp', Return None)
      | (fp', Some (ProcessError e)) \<Rightarrow> (fp', Return (Some (Processing e))))"

function tail_data :: "bool \<Rightarrow> ('p, 'e) process \<Rightarrow> gostr \<Rightarrow> read_file \<Rightarrow> gostr \<Rightarrow> 'p filtering_processor \<Rightarrow>
    read_file \<times> gostr \<times> 'p filtering_processor \<times> 'e tail_result" where
  "tail_data ok process data f part fp =
     (if data = [] then (f, part, fp, GoOn)
      else case index_byte data newline of
          Some i \<Rightarrow>
            (case (if part @ take i data \<noteq> [] then tail_line process fp (part @ take i data) else (fp, GoOn)) of
               (fp', Return e) \<Rightarrow> (f, part @ take i data, fp', Return e)
             | (fp', GoOn) \<Rightarrow> tail_data ok process (drop (i + 1) data) (f\<lparr>warned_about_long_line := False\<rparr>) [] fp')
        | None \<Rightarrow>
            if line_limit f \<le> length (part @ data) then
              (case warn_about_long_line ok f of
                 (f', False) \<Rightarrow> (f', part @ data, fp, Return None)
               | (f', True) \<Rightarrow>
                   (case tail_line process fp (part @ data) of
                      (fp', Return e) \<Rightarrow> (f', part @ data, fp', Return e)
                    | (fp', GoOn) \<Rightarrow> (f', [], fp', GoOn)))
            else (f, part @ data, fp, GoOn))"
  by pat_completeness auto
termination by (relation "measure (\<lambda>(ok, process, data, f, part, fp). length data)") auto

declare tail_data.simps [simp del]

definition tail_step :: "bool \<Rightarrow> ('p, 'e) process \<Rightarrow> ('p \<Rightarrow> 'p \<times> 'e option) \<Rightarrow> gostr \<Rightarrow> 'e tail_error \<Rightarrow> bool \<Rightarrow>
    read_file \<Rightarrow> gostr \<Rightarrow> 'p filtering_processor \<Rightarrow> read_file \<times> gostr \<times> 'p filtering_processor \<times> 'e tail_result" where
  "tail_step ok process flush data err cancelled f part fp =
     (case tail_data ok process data f part fp of
        (f1, part1, fp1, Return e) \<Rightarrow> (f1, part1, fp1, Return e)
      | (f1, part1, fp1, GoOn) \<Rightarrow>
          (case (if data \<noteq> [] then flush (fp_processor fp1) else (fp_processor fp1, None)) of
             (p, Some x) \<Rightarrow> (f1, part1, fp1\<lparr>fp_processor := p\<rparr>, Return (Some (Processing x)))
           | (p, None) \<Rightarrow>
               (let fp2 = fp1\<lparr>fp_processor := p\<rparr> in
                case err of
                  ReadError e \<Rightarrow> (f1, part1, fp2, Return (Some e))
                | ReadEof CtxDone \<Rightarrow> (f1, part1, fp2, Return None)
                | ReadEof (Truncation e) \<Rightarrow> (f1, part1, fp2, Return e)
                | _ \<Rightarrow>
                    if cancelled then
                      (if part1 \<noteq> [] then
                         (case tail_line process fp2 part1 of
                            (fp3, Return e) \<Rightarrow> (f1, part1, fp3, Return e)
                          | (fp3, GoOn) \<Rightarrow> (f1, part1, fp3, Return None))
                       else (f1, part1, fp2, Return None))
                    else (f1, part1, fp2, GoOn))))"

fun tail_steps :: "bool \<Rightarrow> ('p, 'e) process \<Rightarrow> ('p \<Rightarrow> 'p \<times> 'e option) \<Rightarrow> (gostr \<times> 'e tail_error \<times> bool) list \<Rightarrow>
    read_file \<Rightarrow> gostr \<Rightarrow> 'p filtering_processor \<Rightarrow> read_file \<times> gostr \<times> 'p filtering_processor \<times> 'e tail_result" where
  "tail_steps ok process flush [] f part fp = (f, part, fp, GoOn)"
| "tail_steps ok process flush ((data, err, cancelled) # evs) f part fp =
     (case tail_step ok process flush data err cancelled f part fp of
        (f', part', fp', GoOn) \<Rightarrow> tail_steps ok process flush evs f' part' fp'
      | r \<Rightarrow> r)"

subsection \<open>Properties of the readers\<close>

lemma scan_progress:
  assumes "scanner_ok mt sc" and "line_limit f \<le> mt"
  shows "case scan mt True f sc of (f', sc', x) \<Rightarrow>
    line_limit f' = line_limit f \<and> scanner_ok mt sc' \<and>
    (x = ScanEnd \<and> sc_rest sc = [] \<or>
     (\<exists>t. x = ScanToken t \<and> sc_rest sc = t @ sc_rest sc' \<and> t \<noteq> [] \<and> length t \<le> line_limit f + 1 \<and> newline \<notin> set (butlast t)))"
  using assms
proof (induction mt True f sc rule: scan.induct)
  case (1 mt f sc)
  let ?s = "if sc_buf sc \<noteq> [] \<or> sc_eof sc then scan_lines_with_max_length True f (sc_buf sc) (sc_eof sc) else (f, More)"
  obtain g r where s: "?s = (g, r)" by fastforce
  have g: "line_limit g = line_limit f" using s by (metis fst_conv scan_lines_limit)
  show ?case
  proof (cases r)
    case (Token n u)
    have e: "scan mt True f sc = (g, sc\<lparr>sc_buf := drop n (sc_buf sc)\<rparr>, ScanToken u)"
      using s Token by (simp add: scan.simps[of mt True f sc])
    show ?thesis using scan_token[OF e] drop_buf_ok[OF 1(2)] by (simp add: e)
  next
    case SplitCancelled
    have "r \<noteq> SplitCancelled"
    proof
      assume "r = SplitCancelled"
      with s obtain "scan_lines_with_max_length True f (sc_buf sc) (sc_eof sc) = (g, SplitCancelled)"
        by (auto split: if_splits)
      then show False using split_at_limit_accepted[of f "sc_buf sc"]
        by (auto simp: scan_lines_with_max_length_def split: if_splits option.splits)
    qed
    with SplitCancelled show ?thesis by simp
  next
    case More
    have m: "if sc_eof sc then sc_buf sc = [] else length (sc_buf sc) < line_limit f"
      using s split_at_limit_accepted[of f "sc_buf sc"] unfolding More
      by (auto simp: scan_lines_with_max_length_def split: if_splits option.splits)
    show ?thesis
    proof (cases "sc_eof sc")
      case True
      then have "scan mt True f sc = (g, sc, ScanEnd)" using s More by (simp add: scan.simps[of mt True f sc])
      then show ?thesis using m True g 1(2) by (simp add: sc_rest_def scanner_ok_def)
    next
      case False
      then have n: "\<not> mt \<le> length (sc_buf sc)" using m 1(3) by simp
      have "scan mt True f sc = scan mt True g (read_more mt sc)"
        using s More False n by (simp add: scan.simps[of mt True f sc])
      with 1(1)[OF s[symmetric] More False n read_more_ok[OF 1(2)]] 1(3) n g show ?thesis by simp
    qed
  qed
qed

lemma hand_over_all:
  assumes "fp_match fp = (\<lambda>l. True)" and "fp_ltx fp = context_of 0 0"
  shows "\<exists>fp' n. hand_over collect fp t = (fp', None) \<and> fp_match fp' = (\<lambda>l. True) \<and> fp_ltx fp' = context_of 0 0 \<and>
    fp_processor fp' = fp_processor fp @ [(t, n, fp_glob fp)]"
  using assms by (simp add: hand_over_def process_filtered_raw_def Let_def ltx_has_def context_of_def)

lemma read_lines_all:
  assumes "\<forall>i. env i = (True, Quiet)" and "scanner_ok mt sc" and "line_limit f \<le> mt"
    and "fp_match fp = (\<lambda>l. True)" and "fp_ltx fp = context_of 0 0"
  shows "\<exists>f' fp' evs. read_lines mt env i collect fin f sc fp = (f', fp', fin) \<and>
    fp_processor fp' = fp_processor fp @ evs \<and> concat (map fst evs) = sc_rest sc \<and>
    (\<forall>(l, n, g)\<in>set evs. l \<noteq> [] \<and> length l \<le> line_limit f + 1 \<and> newline \<notin> set (butlast l))"
  using assms(2-5)
proof (induction "length (sc_rest sc)" arbitrary: i f sc fp rule: less_induct)
  case less
  obtain f' sc' x where s: "scan mt True f sc = (f', sc', x)" by (cases "scan mt True f sc")
  note pr = scan_progress[OF less(2,3), unfolded s, simplified]
  show ?case
  proof (cases "x = ScanEnd")
    case True
    then have "read_lines mt env i collect fin f sc fp = (f', fp, fin)" and "sc_rest sc = []"
      using assms(1) s pr by (simp_all add: read_lines.simps[of mt env i])
    then show ?thesis by (intro exI[of _ f'] exI[of _ fp] exI[of _ "[]"]) simp
  next
    case False
    with pr obtain t where t: "x = ScanToken t" "sc_rest sc = t @ sc_rest sc'" "t \<noteq> []" "length t \<le> line_limit f + 1"
      "newline \<notin> set (butlast t)" and i: "line_limit f' = line_limit f" "scanner_ok mt sc'" by auto
    obtain fp1 n where h: "hand_over collect fp t = (fp1, None)" and k: "fp_match fp1 = (\<lambda>l. True)" "fp_ltx fp1 = context_of 0 0"
      "fp_processor fp1 = fp_processor fp @ [(t, n, fp_glob fp)]"
      using hand_over_all[OF less(4,5), of t] by blast
    have lt: "length (sc_rest sc') < length (sc_rest sc)" using t(2,3) by simp
    from less(1)[OF lt i(2) _ k(1,2), of f' "Suc i"] i(1) less(3)
    obtain f2 fp2 evs where r: "read_lines mt env (Suc i) collect fin f' sc' fp1 = (f2, fp2, fin)"
      "fp_processor fp2 = fp_processor fp1 @ evs" "concat (map fst evs) = sc_rest sc'"
      "\<forall>(l, n, g)\<in>set evs. l \<noteq> [] \<and> length l \<le> line_limit f + 1 \<and> newline \<notin> set (butlast l)"
      by auto
    have "read_lines mt env i collect fin f sc fp = (f2, fp2, fin)"
      using assms(1) s t(1) h r(1) by (simp add: read_lines.simps[of mt env i])
    then show ?thesis using r(2-4) k(3) t
      by (intro exI[of _ f2] exI[of _ fp2] exI[of _ "(t, n, fp_glob fp) # evs"]) simp
  qed
qed

text \<open>
  C9: Reading a file loses nothing and respects the line limit, however the reads divide it.
  With a limit that fits the buffer of the scanner, the texts handed on are the file when put
  together, none is longer than the limit and its newline, and a newline only ends a line.
\<close>

theorem reader_lossless:
  assumes "line_limit f \<le> max_token_size" and "\<forall>i. env i = (True, Quiet)"
  shows "\<exists>f' fp'. read_lines max_token_size env 0 collect fin f (new_scanner chunks)
      (new_filter [] (\<lambda>l. True) (context_of 0 0) st glob) = (f', fp', fin) \<and>
    concat (map fst (fp_processor fp')) = concat chunks \<and>
    (\<forall>(l, n, g)\<in>set (fp_processor fp'). l \<noteq> [] \<and> length l \<le> line_limit f + 1 \<and> newline \<notin> set (butlast l))"
  using read_lines_all[OF assms(2) new_scanner_ok assms(1),
      where fp = "new_filter [] (\<lambda>l. True) (context_of 0 0) st glob" and i = 0 and chunks1 = chunks and fin = fin]
  by (auto simp: new_filter_def new_scanner_def sc_rest_def)

definition sample_file :: read_file where
  "sample_file = \<lparr>file_name = ''f'', server_messages = None, seek_eof = False, warned_about_long_line = False, max_line_length = 4\<rparr>"

lemma sample_limit [simp]: "line_limit sample_file = 4"
  by (simp add: sample_file_def line_limit_def)

lemma reader_lossless_witness:
  "\<exists>f' fp'. read_lines max_token_size (\<lambda>i. (True, Quiet)) 0 collect None sample_file (new_scanner [''ab'', ''cdefg''])
     (new_filter [] (\<lambda>l. True) (context_of 0 0) new_stats ''g'') = (f', fp', None) \<and>
   concat (map fst (fp_processor fp')) = ''abcdefg''"
  using reader_lossless[of sample_file "\<lambda>i. (True, Quiet)" None "[''ab'', ''cdefg'']" new_stats "''g''"]
  by (auto simp: max_token_size_def)

text \<open>
  C10: What a grep finds in a file does not depend on how the reads divide it. As long as no
  line is exactly as long as the limit, reading the file in any chunks hands on exactly the
  lines that the selection with context picks from the pieces of the whole file, each with
  its number, and reports no error.
\<close>

theorem grep_file_exact:
  assumes "line_limit f \<le> max_token_size" and "\<forall>i. env i = (True, Quiet)"
    and "\<forall>l\<in>set (pieces (line_limit f) (concat chunks)). length l \<le> line_limit f"
  shows "\<exists>f' fp'. read_lines max_token_size env 0 collect None f (new_scanner chunks)
      (new_filter [] M (context_of A B) st glob) = (f', fp', None) \<and>
    (let ls = pieces (line_limit f) (concat chunks) in
     fp_processor fp' = map (event_of (line_count st) glob ls) (filter (selected (hits M ls) A B) [0..<length ls]))"
proof -
  let ?ls = "pieces (line_limit f) (concat chunks)"
  have rest: "sc_rest (new_scanner chunks) = concat chunks" by (simp add: sc_rest_def new_scanner_def)
  obtain fp' where fp': "filter_lines collect (new_filter [] M (context_of A B) st glob) ?ls = (fp', None)"
    "fp_processor fp' = map (event_of (line_count st) glob ?ls) (filter (selected (hits M ?ls) A B) [0..<length ?ls])"
    using filter_collect_run[of M A B st glob ?ls] by blast
  have "snd (read_lines max_token_size env 0 collect None f (new_scanner chunks)
      (new_filter [] M (context_of A B) st glob)) = (fp', None)"
    using read_lines_pieces[OF assms(2) new_scanner_ok assms(1), of chunks 0 collect None] assms(3) fp'(1)
    by (simp add: rest read_outcome_def)
  then show ?thesis using fp'(2) by (metis prod.collapse)
qed

lemma grep_file_exact_witness:
  "\<exists>f' fp'. read_lines max_token_size (\<lambda>i. (True, Quiet)) 0 collect None sample_file (new_scanner [''a'', ''b''])
     (new_filter [] (\<lambda>l. l = ''ab'') (context_of 1 1) new_stats ''g'') = (f', fp', None) \<and>
   map fst (fp_processor fp') = [''ab'']"
proof -
  have "pieces 4 ''ab'' = [''ab'']" by code_simp
  moreover have "filter (selected (hits (\<lambda>l. l = ''ab'') [''ab'']) 1 1) [0..<length [''ab'']] = [0]" by code_simp
  ultimately show ?thesis
    using grep_file_exact[of sample_file "\<lambda>i. (True, Quiet)" "[''a'', ''b'']" "\<lambda>l. l = ''ab''" 1 1 new_stats "''g''"]
    by (auto simp: max_token_size_def event_of_def Let_def)
qed

text \<open>
  A line of exactly the limit is the exception: whether its newline stays with it depends on
  where the reads divide the file.
\<close>

lemma exact_limit_depends_on_reads:
  "\<exists>n. scan_lines_with_max_length True sample_file ''abcd'' False = (n, Token 4 ''abcd'') \<and>
   scan_lines_with_max_length True sample_file (''abcd'' @ [newline]) False =
     (sample_file, Token 5 (''abcd'' @ [newline]))"
  by (auto simp: scan_lines_with_max_length_def index_byte_def newline_def split_at_limit_def
      warn_about_long_line_def) (simp_all add: sample_file_def line_limit_def)

text \<open>The byte reader: its message is the beginning of the piece that is being read.\<close>

lemma read_bytes_pieces:
  assumes "newline \<notin> set msg" and "length msg < line_limit f" and "\<not> seek_eof f"
    and "\<forall>l\<in>set (pieces (line_limit f) (msg @ s)). length l < line_limit f"
  shows "case read_bytes True process (map ByteRead s @ [AtEof Quiet]) f msg fp of
    (f', msg', fp', r) \<Rightarrow> fp' = fst (filter_lines process fp (pieces (line_limit f) (msg @ s))) \<and> r \<noteq> Running"
  using assms
proof (induction s arbitrary: f msg fp)
  case Nil
  let ?m = "line_limit f"
  have "pieces ?m msg = (if msg = [] then [] else [msg])"
    using Nil(1,2) by (simp add: pieces.simps[of ?m msg] index_byte_None[THEN iffD2])
  then show ?case using Nil(3)
    by (auto simp: handle_read_eof_def split: prod.splits option.splits filter_error.splits)
next
  case (Cons b s)
  let ?m = "line_limit f" and ?r = "msg @ b # s"
  have ne: "?r \<noteq> []" by simp
  note first = pieces_first[OF ne line_limit_pos[of f]]
  have hd_less: "length (hd (pieces ?m ?r)) < ?m" using Cons.prems(4) first(1) by (metis list.set_intros(1))
  show ?case
  proof (cases "b = newline")
    case True
    have "index_byte msg newline = None" using Cons.prems(1) by (simp add: index_byte_None)
    moreover have "index_byte (b # s) newline = Some 0" using True by (simp add: index_byte_def)
    ultimately have "index_byte ?r newline = Some (length msg)" by (simp add: index_byte_append_None)
    then have p: "pieces ?m ?r = (msg @ [b]) # pieces ?m s"
      using Cons.prems(2) by (simp add: pieces.simps[of ?m ?r])
    obtain fp1 e where h: "process_filtered_line process (stat update_position fp) (msg @ [b]) = (fp1, e)" by fastforce
    have ih: "case read_bytes True process (map ByteRead s @ [AtEof Quiet]) (f\<lparr>warned_about_long_line := False\<rparr>) [] fp1 of
        (f', msg', fp', r) \<Rightarrow> fp' = fst (filter_lines process fp1 (pieces ?m s)) \<and> r \<noteq> Running"
      using Cons.IH[of "[]" "f\<lparr>warned_about_long_line := False\<rparr>" fp1] Cons.prems(3,4) by (simp add: p)
    show ?thesis
    proof (cases e)
      case None
      then show ?thesis using ih h True unfolding p by (simp add: handle_read_byte_def)
    next
      case (Some x)
      then show ?thesis using h True unfolding p by (simp add: handle_read_byte_def)
    qed
  next
    case False
    then have nn: "newline \<notin> set (msg @ [b])" using Cons.prems(1) by auto
    have "length (msg @ [b]) \<le> length (hd (pieces ?m ?r))"
    proof -
      have "index_byte msg newline = None" using Cons.prems(1) by (simp add: index_byte_None)
      then have "index_byte ?r newline = map_option (\<lambda>i. length msg + i) (index_byte (b # s) newline)"
        by (rule index_byte_append_None)
      then show ?thesis using hd_less hd_pieces[OF ne line_limit_pos[of f]] Cons.prems(2)
        by (auto simp: min_def split: option.splits if_splits)
    qed
    then have lt: "length (msg @ [b]) < ?m" using hd_less by simp
    then have h: "handle_read_byte True process b f (msg @ [b]) fp = (f, fp, Nothing)"
      using False by (simp add: handle_read_byte_def)
    have "case read_bytes True process (map ByteRead s @ [AtEof Quiet]) f (msg @ [b]) fp of
        (f', msg', fp', r) \<Rightarrow> fp' = fst (filter_lines process fp (pieces ?m ((msg @ [b]) @ s))) \<and> r \<noteq> Running"
      using Cons.IH[OF nn lt Cons.prems(3), of fp] Cons.prems(4) by simp
    then show ?thesis using h by simp
  qed
qed



subsection \<open>Properties of the follower\<close>

text \<open>The reference: the complete lines of a text and the incomplete rest, after a beginning \<open>part\<close>.\<close>

fun cut_lines :: "gostr \<Rightarrow> gostr \<Rightarrow> gostr list \<times> gostr" where
  "cut_lines part [] = ([], part)"
| "cut_lines part (b # s) =
     (if b = newline then (part # fst (cut_lines [] s), snd (cut_lines [] s)) else cut_lines (part @ [b]) s)"

lemma cut_lines_append:
  "cut_lines part (s @ t) =
     (fst (cut_lines part s) @ fst (cut_lines (snd (cut_lines part s)) t), snd (cut_lines (snd (cut_lines part s)) t))"
  by (induction part s rule: cut_lines.induct) auto

lemma cut_lines_no_newline: "newline \<notin> set s \<Longrightarrow> cut_lines part s = ([], part @ s)"
  by (induction part s rule: cut_lines.induct) auto

lemma cut_lines_index:
  assumes "index_byte s newline = Some i"
  shows "cut_lines part s = ((part @ take i s) # fst (cut_lines [] (drop (i + 1) s)), snd (cut_lines [] (drop (i + 1) s)))"
proof -
  have i: "i < length s" "s ! i = newline" "newline \<notin> set (take i s)" using index_byte_Some[OF assms] by auto
  have "s = take i s @ newline # drop (i + 1) s" using id_take_nth_drop[OF i(1)] i(2) by simp
  then have "cut_lines part s = cut_lines part (take i s @ newline # drop (i + 1) s)" by simp
  also have "\<dots> = ((part @ take i s) # fst (cut_lines [] (drop (i + 1) s)), snd (cut_lines [] (drop (i + 1) s)))"
    using i(3) by (simp add: cut_lines_append cut_lines_no_newline)
  finally show ?thesis .
qed

abbreviation nonempty :: "gostr list \<Rightarrow> gostr list" where
  "nonempty ls \<equiv> filter (\<lambda>l. l \<noteq> []) ls"

lemma tail_data_cut:
  assumes "length (snd (cut_lines part data)) < line_limit f"
    and "filter_lines process fp (nonempty (fst (cut_lines part data))) = (fp', None)"
  shows "\<exists>f'. tail_data True process data f part fp = (f', snd (cut_lines part data), fp', GoOn) \<and>
    line_limit f' = line_limit f"
  using assms
proof (induction True process data f part fp rule: tail_data.induct)
  case (1 process data f part fp)
  show ?case
  proof (cases "data = []")
    case True
    then show ?thesis using 1(2,3) by (simp add: tail_data.simps[of True process "[]"])
  next
    case ne: False
    show ?thesis
    proof (cases "index_byte data newline")
      case None
      then have "cut_lines part data = ([], part @ data)"
        using cut_lines_no_newline by (simp add: index_byte_None)
      then show ?thesis using 1(2,3) ne None by (simp add: tail_data.simps[of True process data])
    next
      case (Some i)
      let ?l = "part @ take i data" and ?f = "f\<lparr>warned_about_long_line := False\<rparr>"
      note cut = cut_lines_index[OF Some, of part]
      obtain fp1 where l: "(if ?l \<noteq> [] then tail_line process fp ?l else (fp, GoOn)) = (fp1, GoOn)"
        and r: "filter_lines process fp1 (nonempty (fst (cut_lines [] (drop (i + 1) data)))) = (fp', None)"
      proof (cases "?l = []")
        case True
        then show ?thesis using 1(3)[unfolded cut] that[of fp] by simp
      next
        case False
        then obtain fp1 where "process_filtered_line process (stat update_position fp) ?l = (fp1, None)"
          "filter_lines process fp1 (nonempty (fst (cut_lines [] (drop (i + 1) data)))) = (fp', None)"
          using 1(3)[unfolded cut] by (auto split: prod.splits option.splits)
        then show ?thesis using that[of fp1] False by (simp add: tail_line_def hand_over_filter)
      qed
      have "tail_data True process data f part fp = tail_data True process (drop (i + 1) data) ?f [] fp1"
        using ne Some l by (subst tail_data.simps) simp
      moreover have "length (snd (cut_lines [] (drop (i + 1) data))) < line_limit ?f" using 1(2) by (simp add: cut)
      ultimately show ?thesis using 1(1)[OF ne Some l[symmetric] refl, OF _ r] by (simp add: cut)
    qed
  qed
qed



end
