(* ===== verification/Permissions.thy ===== *)
theory Permissions
  imports GoStrings
begin

text \<open>
  Who may read what: the users and their permission rules (\<open>internal/user/server/user.go\<close>),
  the validated targets of a read (\<open>internal/io/fs/validatedreadtarget.go\<close>) and the split of a
  path into a parent directory and a leaf (\<open>rootedpath.go\<close>). The regular expression engine
  and the answers of the file system are parameters.
\<close>

subsection \<open>Paths\<close>

text \<open>
  \<open>filepath.Clean\<close> on the components of a path: empty and dot components vanish, a double dot
  takes back the component before it, and at the root it has no effect.
\<close>

definition slash :: gostr where
  "slash = ''/''"

fun clean_parts :: "bool \<Rightarrow> gostr list \<Rightarrow> gostr list \<Rightarrow> gostr list" where
  "clean_parts absolute acc [] = rev acc"
| "clean_parts absolute acc (p # ps) =
     (if p = [] \<or> p = ''.'' then clean_parts absolute acc ps
      else if p = ''..'' then
        (case acc of
           [] \<Rightarrow> clean_parts absolute (if absolute then [] else [p]) ps
         | q # qs \<Rightarrow> clean_parts absolute (if q = ''..'' then p # acc else qs) ps)
      else clean_parts absolute (p # acc) ps)"

definition is_abs :: "gostr \<Rightarrow> bool" where
  "is_abs path = has_prefix path slash"

definition path_parts :: "gostr \<Rightarrow> gostr list" where
  "path_parts path = clean_parts (is_abs path) [] (split slash path)"

definition path_of_parts :: "bool \<Rightarrow> gostr list \<Rightarrow> gostr" where
  "path_of_parts absolute ps =
     (if absolute then slash @ join slash ps else if ps = [] then ''.'' else join slash ps)"

definition clean :: "gostr \<Rightarrow> gostr" where
  "clean path = path_of_parts (is_abs path) (path_parts path)"

text \<open>\<open>filepath.Dir\<close> and \<open>filepath.Base\<close> of a cleaned path that is neither the root nor the dot.\<close>

record rooted_path =
  rp_path :: gostr
  root_dir :: gostr
  root_name :: gostr

datatype path_error = EmptyPath | NotAFilePath gostr | NotAbsolute gostr | LstatFailed gostr | NotRegular gostr
  | NotAJournal gostr | NoUnitName | UnitStartsWithDash | UnitHasControl

definition new_rooted_path :: "gostr \<Rightarrow> path_error + rooted_path" where
  "new_rooted_path path =
     (if path = [] then Inl EmptyPath
      else
        let c = clean path in
        if c = ''.'' \<or> c = slash then Inl (NotAFilePath path)
        else Inr \<lparr>rp_path = path, root_dir = path_of_parts (is_abs c) (butlast (path_parts c)), root_name = last (path_parts c)\<rparr>)"

subsection \<open>Read targets\<close>

datatype read_target_kind = FileKind | JournalKind

record validated_read_target =
  target_kind :: read_target_kind
  resolved_path :: gostr
  target_root :: "rooted_path option"

definition journal_spec_prefix :: gostr where
  "journal_spec_prefix = ''journal:''"

definition is_journal_spec :: "gostr \<Rightarrow> bool" where
  "is_journal_spec spec = has_prefix spec journal_spec_prefix"

text \<open>What \<open>Lstat\<close> says of a path.\<close>

datatype file_mode = RegularFile | SymbolicLink | OtherFile

definition new_validated_read_target :: "(gostr \<Rightarrow> file_mode option) \<Rightarrow> gostr \<Rightarrow> path_error + validated_read_target" where
  "new_validated_read_target lstat path =
     (let c = clean path in
      if \<not> is_abs c then Inl (NotAbsolute c)
      else case lstat c of
          None \<Rightarrow> Inl (LstatFailed c)
        | Some m \<Rightarrow>
            if m \<noteq> RegularFile then Inl (NotRegular c)
            else and_then (new_rooted_path c) (\<lambda>r. Inr \<lparr>target_kind = FileKind, resolved_path = c, target_root = Some r\<rparr>))"

text \<open>\<open>ctl\<close> is whether a character of the unit name is a control character or white space.\<close>

definition validate_journal_spec :: "(gostr \<Rightarrow> bool) \<Rightarrow> gostr \<Rightarrow> path_error option" where
  "validate_journal_spec ctl spec =
     (let source = trim_prefix spec journal_spec_prefix in
      if source = [] then Some NoUnitName
      else if has_prefix source ''-'' then Some UnitStartsWithDash
      else if ctl source then Some UnitHasControl
      else None)"

definition new_validated_journal_target :: "(gostr \<Rightarrow> bool) \<Rightarrow> gostr \<Rightarrow> path_error + validated_read_target" where
  "new_validated_journal_target ctl spec =
     (if \<not> is_journal_spec spec then Inl (NotAJournal spec)
      else case validate_journal_spec ctl spec of
          Some e \<Rightarrow> Inl e
        | None \<Rightarrow> Inr \<lparr>target_kind = JournalKind, resolved_path = spec, target_root = None\<rparr>)"

text \<open>
  \<open>Open\<close> looks at the entry, opens it, looks at what it has opened and looks at the entry again;
  each look may see a file system that has changed. A look gives the mode, or nothing where
  the system call fails.
\<close>

datatype open_error = WrongKind | RootFailed | EntryLstatFailed | EntryIsSymlink | EntryNotRegular | OpenFailed
  | StatFailed | OpenedNotRegular

definition validate_entry :: "file_mode option \<Rightarrow> open_error option" where
  "validate_entry look =
     (case look of
        None \<Rightarrow> Some EntryLstatFailed
      | Some SymbolicLink \<Rightarrow> Some EntryIsSymlink
      | Some RegularFile \<Rightarrow> None
      | Some OtherFile \<Rightarrow> Some EntryNotRegular)"

definition validate_opened_file :: "file_mode option \<Rightarrow> open_error option" where
  "validate_opened_file look =
     (case look of None \<Rightarrow> Some StatFailed | Some RegularFile \<Rightarrow> None | Some _ \<Rightarrow> Some OpenedNotRegular)"

definition open_target :: "validated_read_target \<Rightarrow> bool \<Rightarrow> file_mode option \<Rightarrow> 'fd option \<Rightarrow> file_mode option \<Rightarrow>
    file_mode option \<Rightarrow> open_error + 'fd" where
  "open_target t root_opened look1 fd opened look2 =
     (if target_kind t \<noteq> FileKind then Inl WrongKind
      else if \<not> root_opened then Inl RootFailed
      else case validate_entry look1 of
          Some e \<Rightarrow> Inl e
        | None \<Rightarrow>
            (case fd of
               None \<Rightarrow> Inl OpenFailed
             | Some d \<Rightarrow>
                 (case validate_opened_file opened of
                    Some e \<Rightarrow> Inl e
                  | None \<Rightarrow> (case validate_entry look2 of Some e \<Rightarrow> Inl e | None \<Rightarrow> Inr d))))"

subsection \<open>Users\<close>

record user =
  user_name :: gostr
  remote_address :: gostr
  user_permissions :: "gostr list"

definition new_user :: "gostr \<Rightarrow> gostr \<Rightarrow> (gostr \<Rightarrow> 'e + gostr list) option \<Rightarrow> 'e + user" where
  "new_user name remote lookup =
     (case lookup of
        None \<Rightarrow> Inr \<lparr>user_name = name, remote_address = remote, user_permissions = []\<rparr>
      | Some f \<Rightarrow>
          and_then (f name) (\<lambda>ps. Inr \<lparr>user_name = name, remote_address = remote, user_permissions = ps\<rparr>))"

text \<open>The type of a rule and the rest of it.\<close>

definition typed_rule :: "gostr \<Rightarrow> gostr \<times> gostr" where
  "typed_rule p =
     (case split '':'' p of
        t # r # rs \<Rightarrow> (t, join '':'' (r # rs))
      | _ \<Rightarrow> (''readfiles'', p))"

definition is_deny :: "gostr \<Rightarrow> bool" where
  "is_deny r = has_prefix r ''!''"

definition rule_pattern :: "gostr \<Rightarrow> gostr" where
  "rule_pattern r = (if is_deny r then tl r else r)"

fun iterate_paths :: "(gostr \<Rightarrow> 'r option) \<Rightarrow> ('r \<Rightarrow> gostr \<Rightarrow> bool) \<Rightarrow> gostr \<Rightarrow> gostr \<Rightarrow> bool \<Rightarrow> gostr list \<Rightarrow>
    bool \<times> gostr option" where
  "iterate_paths compile rmatch path ptype granted [] = (granted, None)"
| "iterate_paths compile rmatch path ptype granted (p # ps) =
     (case typed_rule p of
        (t, r) \<Rightarrow>
          if t \<noteq> ptype then iterate_paths compile rmatch path ptype granted ps
          else case compile (rule_pattern r) of
              None \<Rightarrow> (False, Some (rule_pattern r))
            | Some prog \<Rightarrow>
                if is_deny r \<and> rmatch prog path then (False, None)
                else iterate_paths compile rmatch path ptype (if \<not> is_deny r \<and> rmatch prog path then True else granted) ps)"

definition has_file_permission :: "(gostr \<Rightarrow> 'r option) \<Rightarrow> ('r \<Rightarrow> gostr \<Rightarrow> bool) \<Rightarrow> (gostr \<Rightarrow> gostr \<Rightarrow> bool) \<Rightarrow> user \<Rightarrow>
    gostr \<Rightarrow> gostr \<Rightarrow> bool" where
  "has_file_permission compile rmatch to_read u path ptype =
     (if \<not> to_read (user_name u) path then False
      else fst (iterate_paths compile rmatch path ptype False (user_permissions u)))"

definition schedule_user :: gostr where
  "schedule_user = ''DTAIL-SCHEDULE''"

definition continuous_user :: gostr where
  "continuous_user = ''DTAIL-CONTINUOUS''"

definition is_background :: "user \<Rightarrow> bool" where
  "is_background u \<longleftrightarrow> user_name u = schedule_user \<or> user_name u = continuous_user"

definition validate_journal_read_target :: "(gostr \<Rightarrow> 'r option) \<Rightarrow> ('r \<Rightarrow> gostr \<Rightarrow> bool) \<Rightarrow> (gostr \<Rightarrow> bool) \<Rightarrow> user \<Rightarrow>
    gostr \<Rightarrow> gostr \<Rightarrow> validated_read_target option" where
  "validate_journal_read_target compile rmatch ctl u spec ptype =
     (if \<not> is_background u \<and> \<not> fst (iterate_paths compile rmatch spec ptype False (user_permissions u)) then None
      else case new_validated_journal_target ctl spec of Inl _ \<Rightarrow> None | Inr t \<Rightarrow> Some t)"

definition validate_read_target :: "(gostr \<Rightarrow> 'r option) \<Rightarrow> ('r \<Rightarrow> gostr \<Rightarrow> bool) \<Rightarrow> (gostr \<Rightarrow> bool) \<Rightarrow>
    (gostr \<Rightarrow> gostr option) \<Rightarrow> (gostr \<Rightarrow> gostr option) \<Rightarrow> (gostr \<Rightarrow> gostr \<Rightarrow> bool) \<Rightarrow> (gostr \<Rightarrow> file_mode option) \<Rightarrow>
    user \<Rightarrow> gostr \<Rightarrow> gostr \<Rightarrow> validated_read_target option" where
  "validate_read_target compile rmatch ctl eval_symlinks abs_path to_read lstat u path ptype =
     (if is_journal_spec path then validate_journal_read_target compile rmatch ctl u path ptype
      else case Option.bind (eval_symlinks path) abs_path of
          None \<Rightarrow> None
        | Some c \<Rightarrow>
            if \<not> is_background u \<and> \<not> has_file_permission compile rmatch to_read u c ptype then None
            else case new_validated_read_target lstat c of Inl _ \<Rightarrow> None | Inr t \<Rightarrow> Some t)"

subsection \<open>Properties of paths\<close>

definition plain_name :: "gostr \<Rightarrow> bool" where
  "plain_name n \<longleftrightarrow> n \<noteq> [] \<and> n \<noteq> ''.'' \<and> n \<noteq> ''..'' \<and> CHR ''/'' \<notin> set n"

lemma split_slash_no_slash: "x \<in> set (split slash s) \<Longrightarrow> CHR ''/'' \<notin> set x"
  using split_elems[of slash x s] by (auto simp: slash_def)

lemma clean_parts_subset: "set (clean_parts absolute acc ps) \<subseteq> set acc \<union> {q \<in> set ps. q \<noteq> [] \<and> q \<noteq> ''.''}"
proof (induction ps arbitrary: acc)
  case (Cons p ps)
  show ?case
  proof (cases "p = [] \<or> p = ''.''")
    case True
    then show ?thesis using Cons[of acc] by auto
  next
    case p: False
    have A: "set (clean_parts absolute (p # acc) ps) \<subseteq> set acc \<union> {q \<in> set (p # ps). q \<noteq> [] \<and> q \<noteq> ''.''}"
      using Cons[of "p # acc"] p by auto
    show ?thesis
    proof (cases acc)
      case Nil
      then show ?thesis using p A Cons[of "[]"] by (cases absolute) auto
    next
      case (Cons q qs)
      then show ?thesis using p A Cons.IH[of qs] by (cases "p = ''..''"; cases "q = ''..''") auto
    qed
  qed
qed simp

lemma clean_parts_no_dotdot: "''..'' \<notin> set acc \<Longrightarrow> ''..'' \<notin> set (clean_parts True acc ps)"
proof (induction ps arbitrary: acc)
  case (Cons p ps)
  show ?case
  proof (cases acc)
    case Nil
    then show ?thesis using Cons.IH[of "[]"] Cons.IH[of "[p]"] by (cases "p = ''..''") simp_all
  next
    case (Cons q qs)
    then show ?thesis using Cons.prems Cons.IH[of acc] Cons.IH[of qs] Cons.IH[of "p # acc"]
      by (cases "p = ''..''") auto
  qed
qed simp

lemma clean_parts_plain:
  "\<forall>q\<in>set ps. CHR ''/'' \<notin> set q \<Longrightarrow> \<forall>q\<in>set (clean_parts True [] ps). plain_name q"
  using clean_parts_subset[of True "[]" ps] clean_parts_no_dotdot[of "[]" ps] by (fastforce simp: plain_name_def)

lemma clean_parts_id: "\<forall>q\<in>set ps. plain_name q \<Longrightarrow> clean_parts absolute acc ps = rev acc @ ps"
  by (induction ps arbitrary: acc) (auto simp: plain_name_def)

lemma path_parts_abs: "is_abs path \<Longrightarrow> q \<in> set (path_parts path) \<Longrightarrow> plain_name q"
  using clean_parts_plain[of "split slash path"] split_slash_no_slash by (auto simp: path_parts_def)

lemma path_parts_of_parts:
  assumes "\<forall>q\<in>set ps. plain_name q"
  shows "path_parts (path_of_parts True ps) = ps"
proof -
  have "split slash (slash @ join slash ps) = [] # split slash (join slash ps)"
    using split_append[of slash "[]" "join slash ps"] by (simp add: slash_def)
  moreover have "clean_parts True [] (split slash (join slash ps)) = ps"
  proof (cases "ps = []")
    case True
    then show ?thesis by (simp add: split_None slash_def)
  next
    case False
    have "split slash (join slash ps) = ps"
      using assms False by (intro split_join) (auto simp: slash_def plain_name_def)
    then show ?thesis using assms by (simp add: clean_parts_id)
  qed
  ultimately show ?thesis by (simp add: path_parts_def path_of_parts_def is_abs_def)
qed

lemma is_abs_of_parts [simp]: "is_abs (path_of_parts True ps)"
  by (simp add: is_abs_def path_of_parts_def)

lemma clean_abs_idem:
  assumes "is_abs path"
  shows "clean (clean path) = clean path"
  using path_parts_of_parts[of "path_parts path"] path_parts_abs[OF assms] assms
  by (simp add: clean_def)

lemma clean_relative:
  assumes "\<not> is_abs path"
  shows "\<not> is_abs (clean path)"
proof -
  have ns: "CHR ''/'' \<notin> set q \<and> q \<noteq> []" if "q \<in> set (path_parts path)" for q
    using that assms clean_parts_subset[of False "[]" "split slash path"] split_slash_no_slash
    by (fastforce simp: path_parts_def)
  show ?thesis
  proof (cases "path_parts path")
    case Nil
    then show ?thesis using assms by (simp add: clean_def path_of_parts_def is_abs_def slash_def)
  next
    case (Cons q qs)
    then obtain c r where "q = c # r" "c \<noteq> CHR ''/''" using ns[of q] by (cases q) auto
    then show ?thesis using assms Cons
      by (cases qs) (auto simp: clean_def path_of_parts_def is_abs_def slash_def has_prefix_def)
  qed
qed

lemma new_rooted_path_leaf:
  assumes "is_abs path" and "new_rooted_path path = Inr r"
  shows "plain_name (root_name r) \<and> is_abs (root_dir r) \<and> path_parts (root_dir r) @ [root_name r] = path_parts path"
proof -
  let ?c = "clean path" and ?ps = "path_parts path"
  have pl: "\<forall>q\<in>set ?ps. plain_name q" using path_parts_abs[OF assms(1)] by blast
  have c: "is_abs ?c" "path_parts ?c = ?ps" using assms(1) path_parts_of_parts[OF pl] by (simp_all add: clean_def)
  have "?c \<noteq> slash" using assms(2) by (auto simp: new_rooted_path_def Let_def split: if_splits)
  then have ne: "?ps \<noteq> []" using assms(1) by (auto simp: clean_def path_of_parts_def)
  have r: "root_dir r = path_of_parts True (butlast ?ps)" "root_name r = last ?ps"
    using assms(2) c by (auto simp: new_rooted_path_def Let_def split: if_splits)
  have "\<forall>q\<in>set (butlast ?ps). plain_name q" using pl by (auto dest: in_set_butlastD)
  then show ?thesis using r pl ne by (simp add: path_parts_of_parts)
qed

subsection \<open>Properties of the rules\<close>

definition applies :: "gostr \<Rightarrow> gostr \<Rightarrow> bool" where
  "applies ptype p \<longleftrightarrow> fst (typed_rule p) = ptype"

definition rule_matches :: "(gostr \<Rightarrow> 'r option) \<Rightarrow> ('r \<Rightarrow> gostr \<Rightarrow> bool) \<Rightarrow> gostr \<Rightarrow> gostr \<Rightarrow> bool" where
  "rule_matches compile rmatch path p =
     (case compile (rule_pattern (snd (typed_rule p))) of None \<Rightarrow> False | Some prog \<Rightarrow> rmatch prog path)"

definition compiles :: "(gostr \<Rightarrow> 'r option) \<Rightarrow> gostr \<Rightarrow> bool" where
  "compiles compile p \<longleftrightarrow> compile (rule_pattern (snd (typed_rule p))) \<noteq> None"

abbreviation deny_rule :: "gostr \<Rightarrow> bool" where
  "deny_rule p \<equiv> is_deny (snd (typed_rule p))"

lemma iterate_paths_granted:
  "fst (iterate_paths compile rmatch path ptype granted ps) \<longleftrightarrow>
     (\<forall>p\<in>set ps. applies ptype p \<longrightarrow> compiles compile p \<and> \<not> (deny_rule p \<and> rule_matches compile rmatch path p)) \<and>
     (granted \<or> (\<exists>p\<in>set ps. applies ptype p \<and> \<not> deny_rule p \<and> rule_matches compile rmatch path p))"
proof (induction ps arbitrary: granted)
  case (Cons p ps)
  obtain ty r where r: "typed_rule p = (ty, r)" by (cases "typed_rule p")
  show ?case
  proof (cases "ty = ptype")
    case True
    then show ?thesis
      using Cons[of granted] Cons[of True] r
      by (cases "compile (rule_pattern r)") (auto simp: applies_def compiles_def rule_matches_def)
  next
    case False
    then show ?thesis using Cons[of granted] r by (auto simp: applies_def)
  qed
qed simp

text \<open>
  C13: Deny wins, whatever the order of the rules. A path is granted exactly when every rule
  of its type compiles, no deny rule of its type matches it, and some allow rule of its type
  does; without a matching allow rule it is denied.
\<close>

theorem permission_deny_wins:
  "fst (iterate_paths compile rmatch path ptype False ps) \<longleftrightarrow>
     (\<forall>p\<in>set ps. applies ptype p \<longrightarrow> compiles compile p \<and> \<not> (deny_rule p \<and> rule_matches compile rmatch path p)) \<and>
     (\<exists>p\<in>set ps. applies ptype p \<and> \<not> deny_rule p \<and> rule_matches compile rmatch path p)"
  by (simp add: iterate_paths_granted)

definition literal_program :: "gostr \<Rightarrow> gostr option" where
  "literal_program p = Some p"

lemma permission_deny_wins_witness:
  "fst (iterate_paths literal_program (\<lambda>p s. contains s p) ''/var/log/x'' ''readfiles'' False [''/var'', ''readfiles:/log'']) \<and>
   \<not> fst (iterate_paths literal_program (\<lambda>p s. contains s p) ''/var/log/x'' ''readfiles'' False [''/var'', ''!/log''])"
proof -
  have t: "typed_rule ''/var'' = (''readfiles'', ''/var'')" "typed_rule ''readfiles:/log'' = (''readfiles'', ''/log'')"
    "typed_rule ''!/log'' = (''readfiles'', ''!/log'')"
    by code_simp+
  have c: "contains ''/var/log/x'' ''/var''" "contains ''/var/log/x'' ''/log''" by code_simp+
  show ?thesis
    unfolding permission_deny_wins
    using t c by (simp add: applies_def compiles_def rule_matches_def literal_program_def rule_pattern_def is_deny_def has_prefix_def)
qed

text \<open>A deny mark in front of the type, or a colon in an untyped pattern, makes a rule that never applies.\<close>

lemma misplaced_deny_ignored:
  "\<not> applies ''readfiles'' ''!readfiles:^/etc'' \<and> \<not> applies ''readfiles'' ''!^/var/log/a:b''"
proof -
  have "fst (typed_rule ''!readfiles:^/etc'') = ''!readfiles''" "fst (typed_rule ''!^/var/log/a:b'') = ''!^/var/log/a''"
    by code_simp+
  then show ?thesis by (simp add: applies_def)
qed

text \<open>
  C14: Whatever a user other than the two background users gets to read was granted. A target
  is either a journal unit that the rules grant and whose name cannot be taken for an option,
  or a regular file under an absolute path that the rules and the operating system grant; and
  what is opened is a plain name beneath the directory of exactly that path.
\<close>

theorem read_target_authorized:
  assumes "validate_read_target compile rmatch ctl eval_symlinks abs_path to_read lstat u path ptype = Some t"
    and "\<not> is_background u"
  shows "case target_kind t of
    JournalKind \<Rightarrow> resolved_path t = path \<and> fst (iterate_paths compile rmatch path ptype False (user_permissions u)) \<and>
      \<not> has_prefix (trim_prefix path journal_spec_prefix) ''-''
  | FileKind \<Rightarrow>
      (\<exists>c r. Option.bind (eval_symlinks path) abs_path = Some c \<and> to_read (user_name u) c \<and>
         fst (iterate_paths compile rmatch c ptype False (user_permissions u)) \<and>
         resolved_path t = clean c \<and> is_abs c \<and> lstat (clean c) = Some RegularFile \<and> target_root t = Some r \<and>
         plain_name (root_name r) \<and> path_parts (root_dir r) @ [root_name r] = path_parts c)"
proof (cases "is_journal_spec path")
  case True
  then show ?thesis using assms
    by (auto simp: validate_read_target_def validate_journal_read_target_def new_validated_journal_target_def
        validate_journal_spec_def Let_def split: if_splits sum.splits)
next
  case False
  obtain c where c: "Option.bind (eval_symlinks path) abs_path = Some c"
    using assms(1) False by (auto simp: validate_read_target_def split: option.splits)
  have p: "has_file_permission compile rmatch to_read u c ptype"
    using assms c False by (auto simp: validate_read_target_def split: if_splits)
  have v: "new_validated_read_target lstat c = Inr t"
    using assms c False p by (auto simp: validate_read_target_def split: sum.splits)
  have "is_abs (clean c)" and l: "lstat (clean c) = Some RegularFile"
    using v by (auto simp: new_validated_read_target_def Let_def split: if_splits option.splits)
  then have ab: "is_abs c" using clean_relative by blast
  obtain r where r: "new_rooted_path (clean c) = Inr r" and t: "t = \<lparr>target_kind = FileKind, resolved_path = clean c, target_root = Some r\<rparr>"
    using v \<open>is_abs (clean c)\<close> l by (auto simp: new_validated_read_target_def Let_def and_then_def split: sum.splits)
  have "path_parts (clean c) = path_parts c"
    using path_parts_of_parts[of "path_parts c"] path_parts_abs[OF ab] ab by (simp add: clean_def)
  with new_rooted_path_leaf[OF \<open>is_abs (clean c)\<close> r] c p ab l t show ?thesis
    by (auto simp: has_file_permission_def split: if_splits)
qed

lemma read_target_authorized_witness:
  "validate_read_target literal_program (\<lambda>p s. contains s p) (\<lambda>u. False) Some Some (\<lambda>u p. True) (\<lambda>p. Some RegularFile)
     \<lparr>user_name = ''bob'', remote_address = ''h'', user_permissions = [''/log'']\<rparr> ''/log/x'' ''readfiles'' \<noteq> None \<and>
   fst (iterate_paths literal_program (\<lambda>p s. contains s p) ''/log/x'' ''readfiles'' False [''/log''])"
proof -
  let ?u = "\<lparr>user_name = ''bob'', remote_address = ''h'', user_permissions = [''/log'']\<rparr>"
  let ?t = "\<lparr>target_kind = FileKind, resolved_path = ''/log/x'',
     target_root = Some \<lparr>rp_path = ''/log/x'', root_dir = ''/log'', root_name = ''x''\<rparr>\<rparr>"
  have v: "validate_read_target literal_program (\<lambda>p s. contains s p) (\<lambda>u. False) Some Some (\<lambda>u p. True) (\<lambda>p. Some RegularFile)
      ?u ''/log/x'' ''readfiles'' = Some ?t"
    by code_simp
  have "\<not> is_background ?u" by code_simp
  from read_target_authorized[OF v this] v show ?thesis by auto
qed

end
