(* ===== verification/Server_Admission.thy ===== *)
theory Server_Admission
  imports Permissions
begin

text \<open>
  The SSH server of \<open>internal/server\<close>: the connection counters (\<open>stats.go\<close>), the admission of
  connections by the listener loop and their life cycle (\<open>server.go\<close>), the requests of a
  channel, and the password authentication of the background users. The goroutines are steps
  of a transition system: the listener checks the limit in one step and reserves the slot in a
  later one, and the connections change state in between. The SSH handshake, the name lookup and
  the requests a peer sends are chosen by the environment.
\<close>

subsection \<open>Counters\<close>

record server_stats =
  current_connections :: int
  lifetime_connections :: uint64
  max_connections :: int
  pre_auth_connections :: int

definition new_server_stats :: "int \<Rightarrow> server_stats" where
  "new_server_stats m = \<lparr>current_connections = 0, lifetime_connections = 0, max_connections = m, pre_auth_connections = 0\<rparr>"

definition increment_connections :: "server_stats \<Rightarrow> server_stats" where
  "increment_connections s =
     s\<lparr>current_connections := wrap64 (current_connections s + 1), lifetime_connections := lifetime_connections s + 1\<rparr>"

definition decrement_connections :: "server_stats \<Rightarrow> server_stats" where
  "decrement_connections s = s\<lparr>current_connections := wrap64 (current_connections s - 1)\<rparr>"

definition reserve_pre_auth :: "server_stats \<Rightarrow> server_stats" where
  "reserve_pre_auth s = s\<lparr>pre_auth_connections := wrap64 (pre_auth_connections s + 1)\<rparr>"

definition release_pre_auth :: "server_stats \<Rightarrow> server_stats" where
  "release_pre_auth s = s\<lparr>pre_auth_connections := wrap64 (pre_auth_connections s - 1)\<rparr>"

definition promote_pre_auth_to_connection :: "server_stats \<Rightarrow> server_stats" where
  "promote_pre_auth_to_connection s =
     s\<lparr>pre_auth_connections := wrap64 (pre_auth_connections s - 1),
       current_connections := wrap64 (current_connections s + 1),
       lifetime_connections := lifetime_connections s + 1\<rparr>"

definition has_connections :: "server_stats \<Rightarrow> bool" where
  "has_connections s = (0 < current_connections s)"

text \<open>The error carries the limit and the two counters, as its message does.\<close>

definition server_limit_exceeded :: "server_stats \<Rightarrow> (int \<times> int \<times> int) option" where
  "server_limit_exceeded s =
     (if max_connections s \<le> wrap64 (current_connections s + pre_auth_connections s)
      then Some (max_connections s, current_connections s, pre_auth_connections s) else None)"

subsection \<open>The listener and the connections\<close>

datatype phase = Handshaking | Established | Gone

datatype listener_pc = Listening | Admitting

record server_state =
  srv_stats :: server_stats
  listener :: listener_pc
  conns :: "phase list"
  refused :: nat

text \<open>How the part of \<open>handleConnection\<close> before the channels ends.\<close>

datatype handshake = DeadlineFailed | HandshakeFailed | ClearFailed | HandshakeDone

definition handle_connection :: "handshake \<Rightarrow> server_stats \<Rightarrow> server_stats \<times> phase" where
  "handle_connection h s =
     (case h of
        DeadlineFailed \<Rightarrow> (release_pre_auth s, Gone)
      | HandshakeFailed \<Rightarrow> (release_pre_auth s, Gone)
      | ClearFailed \<Rightarrow> (release_pre_auth s, Gone)
      | HandshakeDone \<Rightarrow> (promote_pre_auth_to_connection s, Established))"

definition new_server_state :: "int \<Rightarrow> server_state" where
  "new_server_state m = \<lparr>srv_stats = new_server_stats m, listener = Listening, conns = [], refused = 0\<rparr>"

text \<open>
  A failed \<open>Accept\<close> leaves the state as it is. The deferred \<open>decrementConnections\<close> runs when the
  channels of an established connection are closed.
\<close>

inductive server_step :: "server_state \<Rightarrow> server_state \<Rightarrow> bool" where
  accept_failed: "listener s = Listening \<Longrightarrow> server_step s s"
| refuse: "listener s = Listening \<Longrightarrow> server_limit_exceeded (srv_stats s) = Some e \<Longrightarrow>
    server_step s (s\<lparr>refused := Suc (refused s)\<rparr>)"
| pass: "listener s = Listening \<Longrightarrow> server_limit_exceeded (srv_stats s) = None \<Longrightarrow>
    server_step s (s\<lparr>listener := Admitting\<rparr>)"
| admit: "listener s = Admitting \<Longrightarrow>
    server_step s (s\<lparr>srv_stats := reserve_pre_auth (srv_stats s), listener := Listening, conns := conns s @ [Handshaking]\<rparr>)"
| handshake: "i < length (conns s) \<Longrightarrow> conns s ! i = Handshaking \<Longrightarrow> handle_connection h (srv_stats s) = (st, p) \<Longrightarrow>
    server_step s (s\<lparr>srv_stats := st, conns := (conns s)[i := p]\<rparr>)"
| close: "i < length (conns s) \<Longrightarrow> conns s ! i = Established \<Longrightarrow>
    server_step s (s\<lparr>srv_stats := decrement_connections (srv_stats s), conns := (conns s)[i := Gone]\<rparr>)"

inductive_cases server_step_cases: "server_step s s'"

abbreviation server_reaches :: "server_state \<Rightarrow> server_state \<Rightarrow> bool" where
  "server_reaches \<equiv> server_step\<^sup>*\<^sup>*"

subsection \<open>Every slot is counted\<close>

definition count_phase :: "phase \<Rightarrow> server_state \<Rightarrow> nat" where
  "count_phase p s = count_list (conns s) p"

text \<open>
  The counters are the numbers of connections in the two phases, and a listener that has passed
  the check still finds a free slot.
\<close>

definition server_inv :: "int \<Rightarrow> server_state \<Rightarrow> bool" where
  "server_inv m s \<longleftrightarrow>
     max_connections (srv_stats s) = m \<and>
     current_connections (srv_stats s) = int (count_phase Established s) \<and>
     pre_auth_connections (srv_stats s) = int (count_phase Handshaking s) \<and>
     int (count_phase Established s) + int (count_phase Handshaking s) + (if listener s = Admitting then 1 else 0) \<le> m"

lemma count_list_update:
  "i < length xs \<Longrightarrow> int (count_list (xs[i := y]) z) =
     int (count_list xs z) - (if xs ! i = z then 1 else 0) + (if y = z then 1 else 0)"
proof (induction xs arbitrary: i)
  case (Cons x xs)
  show ?case
  proof (cases i)
    case (Suc j)
    then show ?thesis using Cons.IH[of j] Cons.prems by auto
  qed auto
qed simp

lemma count_list_pos: "i < length xs \<Longrightarrow> xs ! i = z \<Longrightarrow> 0 < count_list xs z"
  by (metis count_list_0_iff gr0I nth_mem)

lemma server_inv_new: "0 \<le> m \<Longrightarrow> server_inv m (new_server_state m)"
  by (simp add: server_inv_def new_server_state_def new_server_stats_def count_phase_def)

lemmas stats_defs = increment_connections_def decrement_connections_def reserve_pre_auth_def release_pre_auth_def
  promote_pre_auth_to_connection_def

lemma server_inv_no_wrap:
  assumes "m < 2 ^ 63" and "server_inv m s"
  shows "0 < count_phase Handshaking s \<Longrightarrow> wrap64 (int (count_phase Handshaking s) - 1) = int (count_phase Handshaking s) - 1"
    and "0 < count_phase Handshaking s \<Longrightarrow> wrap64 (int (count_phase Established s) + 1) = int (count_phase Established s) + 1"
    and "0 < count_phase Established s \<Longrightarrow> wrap64 (int (count_phase Established s) - 1) = int (count_phase Established s) - 1"
    and "listener s = Admitting \<Longrightarrow> wrap64 (int (count_phase Handshaking s) + 1) = int (count_phase Handshaking s) + 1"
    and "wrap64 (int (count_phase Established s) + int (count_phase Handshaking s)) =
      int (count_phase Established s) + int (count_phase Handshaking s)"
proof -
  have "int (count_phase Established s) + int (count_phase Handshaking s) < 2 ^ 63"
    "listener s = Admitting \<Longrightarrow> int (count_phase Established s) + int (count_phase Handshaking s) + 1 < 2 ^ 63"
    using assms by (auto simp: server_inv_def split: if_splits)
  then show "0 < count_phase Handshaking s \<Longrightarrow> wrap64 (int (count_phase Handshaking s) - 1) = int (count_phase Handshaking s) - 1"
    and "0 < count_phase Handshaking s \<Longrightarrow> wrap64 (int (count_phase Established s) + 1) = int (count_phase Established s) + 1"
    and "0 < count_phase Established s \<Longrightarrow> wrap64 (int (count_phase Established s) - 1) = int (count_phase Established s) - 1"
    and "listener s = Admitting \<Longrightarrow> wrap64 (int (count_phase Handshaking s) + 1) = int (count_phase Handshaking s) + 1"
    and "wrap64 (int (count_phase Established s) + int (count_phase Handshaking s)) =
      int (count_phase Established s) + int (count_phase Handshaking s)"
    by (auto intro!: wrap64_id)
qed

lemma server_inv_step:
  assumes m: "m < 2 ^ 63" and inv: "server_inv m s" and step: "server_step s s'"
  shows "server_inv m s'"
  using step
proof (cases rule: server_step.cases)
  case (pass)
  then show ?thesis using inv server_inv_no_wrap(5)[OF m inv]
    by (auto simp: server_inv_def server_limit_exceeded_def count_phase_def split: if_splits)
next
  case (admit)
  then show ?thesis using inv server_inv_no_wrap(4)[OF m inv] by (auto simp: server_inv_def count_phase_def stats_defs)
next
  case (handshake i h st p)
  have "0 < count_list (conns s) Handshaking" by (rule count_list_pos) (use handshake in auto)
  then show ?thesis using inv handshake server_inv_no_wrap(1,2)[OF m inv]
    by (cases h) (auto simp: server_inv_def count_phase_def count_list_update stats_defs handle_connection_def)
next
  case (close i)
  have "0 < count_list (conns s) Established" by (rule count_list_pos) (use close in auto)
  then show ?thesis using inv close server_inv_no_wrap(3)[OF m inv]
    by (auto simp: server_inv_def count_phase_def count_list_update stats_defs)
qed (use inv in \<open>auto simp: server_inv_def count_phase_def\<close>)

lemma server_inv_reaches:
  assumes "m < 2 ^ 63" and "server_inv m s" and "server_reaches s s'"
  shows "server_inv m s'"
  using assms(3,2) by (induction rule: rtranclp_induct) (auto intro: server_inv_step[OF assms(1)])

lemma server_inv_exceeded:
  assumes "m < 2 ^ 63" and "server_inv m s"
  shows "server_limit_exceeded (srv_stats s) \<noteq> None \<longleftrightarrow>
    int (count_phase Established s) + int (count_phase Handshaking s) = m"
  using assms server_inv_no_wrap(5)[OF assms] by (auto simp: server_inv_def server_limit_exceeded_def split: if_splits)

text \<open>
  C15: However the handshakes, the closing of connections and the two steps of the listener
  interleave, the counters equal the numbers of established connections and of handshakes in
  progress, their sum never exceeds the limit, and the listener refuses a connection exactly
  when it has reached the limit.
\<close>

theorem connections_bounded:
  assumes "0 \<le> m" and "m < 2 ^ 63" and "server_reaches (new_server_state m) s"
  shows "current_connections (srv_stats s) = int (count_phase Established s) \<and>
    pre_auth_connections (srv_stats s) = int (count_phase Handshaking s) \<and>
    int (count_phase Established s) + int (count_phase Handshaking s) \<le> m \<and>
    (server_limit_exceeded (srv_stats s) \<noteq> None \<longleftrightarrow>
       int (count_phase Established s) + int (count_phase Handshaking s) = m)"
proof -
  have i: "server_inv m s" using server_inv_reaches[OF assms(2) server_inv_new[OF assms(1)] assms(3)] .
  show ?thesis using server_inv_exceeded[OF assms(2) i] i by (auto simp: server_inv_def split: if_splits)
qed

lemma one_connection:
  "server_reaches (new_server_state 1)
     (new_server_state 1\<lparr>srv_stats := reserve_pre_auth (new_server_stats 1), conns := [Handshaking]\<rparr>)"
proof -
  let ?s = "new_server_state 1"
  have a: "server_step ?s (?s\<lparr>listener := Admitting\<rparr>)"
    by (rule server_step.pass) (simp_all add: new_server_state_def new_server_stats_def server_limit_exceeded_def wrap64_def)
  have "server_step (?s\<lparr>listener := Admitting\<rparr>)
      ((?s\<lparr>listener := Admitting\<rparr>)\<lparr>srv_stats := reserve_pre_auth (srv_stats (?s\<lparr>listener := Admitting\<rparr>)),
         listener := Listening, conns := conns (?s\<lparr>listener := Admitting\<rparr>) @ [Handshaking]\<rparr>)"
    by (rule server_step.admit) simp
  then have b: "server_step (?s\<lparr>listener := Admitting\<rparr>)
      (?s\<lparr>srv_stats := reserve_pre_auth (new_server_stats 1), conns := [Handshaking]\<rparr>)"
    by (simp add: new_server_state_def)
  show ?thesis using a b by (meson converse_rtranclp_into_rtranclp r_into_rtranclp)
qed

lemma connections_bounded_witness:
  "server_limit_exceeded (reserve_pre_auth (new_server_stats 1)) = Some (1, 0, 1)"
  using connections_bounded[OF _ _ one_connection]
  by (auto simp: count_phase_def new_server_state_def server_limit_exceeded_def stats_defs new_server_stats_def wrap64_def
      split: if_splits)

lemma all_gone_counts: "set (conns s) \<subseteq> {Gone} \<Longrightarrow> p \<noteq> Gone \<Longrightarrow> count_phase p s = 0"
  unfolding count_phase_def by (meson count_notin singletonD subset_iff)

lemma drain_reaches:
  "\<exists>s'. server_reaches s s' \<and> set (conns s') \<subseteq> {Gone}"
proof (induction "count_phase Handshaking s + count_phase Established s" arbitrary: s rule: less_induct)
  case less
  show ?case
  proof (cases "set (conns s) \<subseteq> {Gone}")
    case False
    then obtain i where i: "i < length (conns s)" "conns s ! i \<noteq> Gone" by (auto simp: set_conv_nth)
    obtain st where step: "server_step s (s\<lparr>srv_stats := st, conns := (conns s)[i := Gone]\<rparr>)"
    proof (cases "conns s ! i")
      case Handshaking
      then show ?thesis
        using that server_step.handshake[OF i(1) Handshaking, of HandshakeFailed] by (auto simp: handle_connection_def)
    next
      case Established
      then show ?thesis using that server_step.close[OF i(1) Established] by blast
    qed (use i in simp)
    let ?s = "s\<lparr>srv_stats := st, conns := (conns s)[i := Gone]\<rparr>"
    have "0 < count_list (conns s) (conns s ! i)" by (rule count_list_pos) (use i in auto)
    then have "count_phase Handshaking ?s + count_phase Established ?s < count_phase Handshaking s + count_phase Established s"
      using i count_list_update[OF i(1), of Gone Handshaking] count_list_update[OF i(1), of Gone Established]
      by (cases "conns s ! i") (auto simp: count_phase_def)
    from less[OF this] obtain s' where "server_reaches ?s s'" "set (conns s') \<subseteq> {Gone}" by blast
    then show ?thesis using step by (meson converse_rtranclp_into_rtranclp)
  qed auto
qed

text \<open>
  C16: The limit never locks the server up. From every reachable state some sequence of steps
  leads to a state without connections in which a listener with a positive limit admits the
  next one.
\<close>

theorem admission_recovers:
  assumes "0 < m" and "m < 2 ^ 63" and "server_reaches (new_server_state m) s"
  shows "\<exists>s' s''. server_reaches s s' \<and> set (conns s') \<subseteq> {Gone} \<and> \<not> has_connections (srv_stats s') \<and>
    server_reaches s' s'' \<and> conns s'' = conns s' @ [Handshaking]"
proof -
  obtain s' where s': "server_reaches s s'" "set (conns s') \<subseteq> {Gone}" using drain_reaches by blast
  have inv: "server_inv m s'"
    using server_inv_reaches[OF assms(2) server_inv_new] assms(1,3) s'(1) by (meson less_imp_le rtranclp_trans)
  have c: "count_phase Established s' = 0" "count_phase Handshaking s' = 0" using all_gone_counts[OF s'(2)] by simp_all
  have "\<exists>t. server_reaches s' t \<and> listener t = Admitting \<and> conns t = conns s'"
  proof (cases "listener s'")
    case Listening
    have "server_limit_exceeded (srv_stats s') = None" using server_inv_exceeded[OF assms(2) inv] c assms(1) by (simp del: not_None_eq)
    from server_step.pass[OF Listening this] show ?thesis by (intro exI[of _ "s'\<lparr>listener := Admitting\<rparr>"]) auto
  qed auto
  then obtain t where t: "server_reaches s' t" "listener t = Admitting" "conns t = conns s'" by blast
  have "\<exists>s''. server_reaches s' s'' \<and> conns s'' = conns s' @ [Handshaking]"
  proof (intro exI conjI)
    show "server_reaches s' (t\<lparr>srv_stats := reserve_pre_auth (srv_stats t), listener := Listening,
        conns := conns t @ [Handshaking]\<rparr>)"
      using t(1) server_step.admit[OF t(2)] by (rule rtranclp.rtrancl_into_rtrancl)
  qed (simp add: t(3))
  then show ?thesis using s' inv c by (auto simp: has_connections_def server_inv_def)
qed

lemma admission_recovers_witness:
  "\<exists>s' s''. server_reaches (new_server_state 1\<lparr>srv_stats := reserve_pre_auth (new_server_stats 1), conns := [Handshaking]\<rparr>) s' \<and>
    set (conns s') \<subseteq> {Gone} \<and> \<not> has_connections (srv_stats s') \<and>
    server_reaches s' s'' \<and> conns s'' = conns s' @ [Handshaking]"
  using admission_recovers[OF _ _ one_connection] by simp

end
