(* ===== verification/Protocol.thy ===== *)
theory Protocol
  imports Regex GoNumbers
begin

text \<open>
  The wire format between client and server: the delimiters (\<open>internal/protocol\<close>), base64 as
  \<open>base64.StdEncoding\<close> does it, commands and their decoding (\<open>handlers/protocol_codec.go\<close>), the
  messages of the server (\<open>protocol_formatter.go\<close>), the marking of output with the generation of
  its session (\<open>generation_output.go\<close>) and the options of a command (\<open>config/args.go\<close>).
\<close>

subsection \<open>Constants\<close>

definition protocol_compat :: gostr where
  "protocol_compat = ''4.1''"

definition message_delimiter :: char where
  "message_delimiter = CHR 0xAC"

definition field_delimiter :: gostr where
  "field_delimiter = ''|''"

definition aggregate_message_id :: gostr where
  "aggregate_message_id = ''AGGREGATE''"

definition hidden_capabilities_prefix :: gostr where
  "hidden_capabilities_prefix = ''.syn capabilities ''"

definition capability_query_update :: gostr where
  "capability_query_update = ''query-update-v1''"

definition capability_journal :: gostr where
  "capability_journal = ''journal-v1''"

definition hidden_session_start_ok_prefix :: gostr where
  "hidden_session_start_ok_prefix = ''.syn session start ok''"

definition hidden_session_update_ok_prefix :: gostr where
  "hidden_session_update_ok_prefix = ''.syn session update ok''"

definition hidden_session_error_prefix :: gostr where
  "hidden_session_error_prefix = ''.syn session err ''"

subsection \<open>Base64\<close>

definition b64_alphabet :: gostr where
  "b64_alphabet = ''ABCDEFGHIJKLMNOPQRSTUVWXYZabcdefghijklmnopqrstuvwxyz0123456789+/''"

definition b64_char :: "nat \<Rightarrow> char" where
  "b64_char n = b64_alphabet ! n"

definition b64_val :: "char \<Rightarrow> nat option" where
  "b64_val c = map_of (zip b64_alphabet [0..<64]) c"

definition byte :: "char \<Rightarrow> nat" where
  "byte c = of_char c"

fun b64_encode :: "gostr \<Rightarrow> gostr" where
  "b64_encode [] = []"
| "b64_encode [x] =
     (let v = byte x * 65536 in [b64_char (v div 262144), b64_char (v div 4096 mod 64), CHR ''='', CHR ''=''])"
| "b64_encode [x, y] =
     (let v = byte x * 65536 + byte y * 256 in
      [b64_char (v div 262144), b64_char (v div 4096 mod 64), b64_char (v div 64 mod 64), CHR ''=''])"
| "b64_encode (x # y # z # r) =
     (let v = byte x * 65536 + byte y * 256 + byte z in
      [b64_char (v div 262144), b64_char (v div 4096 mod 64), b64_char (v div 64 mod 64), b64_char (v mod 64)] @ b64_encode r)"

text \<open>
  Decoding skips line breaks. A quantum of four characters is three bytes; padding may only end
  the text. The bits of the last quantum beyond its bytes are not checked.
\<close>

fun b64_quanta :: "gostr \<Rightarrow> gostr option" where
  "b64_quanta [] = Some []"
| "b64_quanta (a # b # c # d # r) =
     (case (b64_val a, b64_val b, b64_val c, b64_val d) of
        (Some i, Some j, Some k, Some l) \<Rightarrow>
          (let v = i * 262144 + j * 4096 + k * 64 + l in
           map_option (\<lambda>s. [char_of (v div 65536), char_of (v div 256 mod 256), char_of (v mod 256)] @ s) (b64_quanta r))
      | (Some i, Some j, Some k, None) \<Rightarrow>
          (let v = i * 262144 + j * 4096 + k * 64 in
           if d = CHR ''='' \<and> r = [] then Some [char_of (v div 65536), char_of (v div 256 mod 256)] else None)
      | (Some i, Some j, None, _) \<Rightarrow>
          (let v = i * 262144 + j * 4096 in
           if c = CHR ''='' \<and> d = CHR ''='' \<and> r = [] then Some [char_of (v div 65536)] else None)
      | _ \<Rightarrow> None)"
| "b64_quanta _ = None"

definition b64_decode :: "gostr \<Rightarrow> gostr option" where
  "b64_decode s = b64_quanta (filter (\<lambda>c. c \<noteq> CHR 0x0A \<and> c \<noteq> CHR 0x0D) s)"

lemma b64_table: "map b64_val (map b64_char [0..<64]) = map Some [0..<64]"
  by code_simp

lemma b64_val_char [simp]: "n < 64 \<Longrightarrow> b64_val (b64_char n) = Some n"
  using arg_cong[OF b64_table, of "\<lambda>xs. xs ! n"] by simp

lemma b64_val_pad [simp]: "b64_val (CHR ''='') = None"
  by code_simp

lemma b64_char_alphabet: "n < 64 \<Longrightarrow> b64_char n \<in> set b64_alphabet"
proof -
  have "length b64_alphabet = 64" by code_simp
  then show "n < 64 \<Longrightarrow> b64_char n \<in> set b64_alphabet" by (simp add: b64_char_def)
qed

lemma byte_less [simp]: "byte c < 256"
  by (simp add: byte_def of_char_def)

lemma char_of_byte [simp]: "char_of (byte c) = c"
  by (simp add: byte_def)

text \<open>The three bytes of a quantum and its four digits hold the same number.\<close>

lemma digits_of_quantum:
  fixes v :: nat
  shows "v div 262144 * 262144 + v div 4096 mod 64 * 4096 + v div 64 mod 64 * 64 + v mod 64 = v"
proof -
  have "v mod 64 + v div 64 * 64 = v" "v div 64 mod 64 + v div 64 div 64 * 64 = v div 64"
    "v div 4096 mod 64 + v div 4096 div 64 * 64 = v div 4096"
    by simp_all
  moreover have "v div 64 div 64 = v div 4096" "v div 4096 div 64 = v div 262144" by (simp_all add: div_mult2_eq[symmetric])
  ultimately show ?thesis by linarith
qed

lemma low_part:
  fixes q z b :: nat
  assumes "z < b"
  shows "(q * b + z) div b = q" and "(q * b + z) mod b = z"
  using assms by simp_all

lemma bytes_of_quantum:
  fixes x y z :: nat
  assumes "x < 256" and "y < 256" and "z < 256"
  shows "(x * 65536 + y * 256 + z) div 65536 = x" and "(x * 65536 + y * 256 + z) div 256 mod 256 = y"
    and "(x * 65536 + y * 256 + z) mod 256 = z" and "x * 65536 + y * 256 + z < 16777216"
proof -
  have e: "x * 65536 + y * 256 + z = (x * 256 + y) * 256 + z" by (simp add: algebra_simps)
  have d: "(x * 65536 + y * 256 + z) div 256 = x * 256 + y" unfolding e by (rule low_part(1)[OF assms(3)])
  show "(x * 65536 + y * 256 + z) div 256 mod 256 = y" unfolding d by (rule low_part(2)[OF assms(2)])
  show "(x * 65536 + y * 256 + z) mod 256 = z" unfolding e by (rule low_part(2)[OF assms(3)])
  have "(x * 65536 + y * 256 + z) div 65536 = (x * 65536 + y * 256 + z) div 256 div 256"
    using div_mult2_eq[of "x * 65536 + y * 256 + z" 256 256] by simp
  then show "(x * 65536 + y * 256 + z) div 65536 = x" unfolding d low_part(1)[OF assms(2)] .
  show "x * 65536 + y * 256 + z < 16777216" using assms by linarith
qed

lemma padded_quantum:
  fixes x y :: nat
  shows "(x * 65536) div 64 mod 64 = 0" and "(x * 65536) mod 64 = 0" and "(x * 65536 + y * 256) mod 64 = 0"
proof -
  have "x * 65536 = (x * 16 * 64) * 64" "x * 65536 + y * 256 = (x * 1024 + y * 4) * 64" by (simp_all add: algebra_simps)
  then show "(x * 65536) div 64 mod 64 = 0" and "(x * 65536) mod 64 = 0" and "(x * 65536 + y * 256) mod 64 = 0"
    by (metis mod_mult_self2_is_0 nonzero_mult_div_cancel_right zero_neq_numeral, metis mod_mult_self2_is_0, metis mod_mult_self2_is_0)
qed

lemma quantum_digits_less:
  "v < 16777216 \<Longrightarrow> v div 262144 < 64" for v :: nat
  by (simp add: less_mult_imp_div_less)

lemma byte_quantum:
  "byte x * 65536 + byte y * 256 + byte z < 16777216" "byte x * 65536 + byte y * 256 < 16777216" "byte x * 65536 < 16777216"
  using byte_less[of x] byte_less[of y] byte_less[of z] by linarith+

lemma char_of_low: "n mod 256 = byte y \<Longrightarrow> char_of n = y"
  by (metis char_of_byte char_of_mod_256)

lemma b64_quanta_encode [simp]: "b64_quanta (b64_encode s) = Some s"
proof (induction s rule: b64_encode.induct)
  case (2 x)
  define v where "v = byte x * 65536"
  have v: "v div 65536 = byte x" "v < 16777216" "v div 64 mod 64 = 0" "v mod 64 = 0"
    using bytes_of_quantum(1)[of "byte x" 0 0] padded_quantum(1,2)[of "byte x"] byte_quantum(3)[of x]
    by (simp_all only: v_def byte_less add_0_right mult_0 zero_less_numeral)
  then have d: "v div 262144 * 262144 + v div 4096 mod 64 * 4096 = v" using digits_of_quantum[of v] by simp
  show ?case unfolding b64_encode.simps Let_def v_def[symmetric]
    by (simp add: quantum_digits_less[OF v(2)] Let_def d v)
next
  case (3 x y)
  define v where "v = byte x * 65536 + byte y * 256"
  have v: "v div 65536 = byte x" "v div 256 mod 256 = byte y" "v < 16777216"
    using bytes_of_quantum(1,2)[of "byte x" "byte y" 0] byte_quantum(2)[of x y]
    by (simp_all only: v_def byte_less add_0_right zero_less_numeral)
  have "v mod 64 = 0" unfolding v_def by (rule padded_quantum(3))
  then have d: "v div 262144 * 262144 + v div 4096 mod 64 * 4096 + v div 64 mod 64 * 64 = v"
    using digits_of_quantum[of v] by simp
  show ?case unfolding b64_encode.simps Let_def v_def[symmetric]
    by (simp add: quantum_digits_less[OF v(3)] Let_def d v char_of_low[OF v(2)])
next
  case (4 x y z r)
  define v where "v = byte x * 65536 + byte y * 256 + byte z"
  have v: "v div 65536 = byte x" "v div 256 mod 256 = byte y" "v mod 256 = byte z" "v < 16777216"
    using bytes_of_quantum[of "byte x" "byte y" "byte z", OF byte_less byte_less byte_less] by (simp_all only: v_def)
  show ?case unfolding b64_encode.simps Let_def v_def[symmetric]
    using 4 by (simp add: quantum_digits_less[OF v(4)] Let_def digits_of_quantum v char_of_low[OF v(2)] char_of_low[OF v(3)])
qed simp

lemma b64_encode_chars: "set (b64_encode s) \<subseteq> set b64_alphabet \<union> {CHR ''=''}"
proof (induction s rule: b64_encode.induct)
  case (2 x)
  define v where "v = byte x * 65536"
  have "v < 16777216" using byte_quantum(3) by (simp only: v_def)
  then show ?case unfolding b64_encode.simps Let_def v_def[symmetric] by (simp add: b64_char_alphabet quantum_digits_less)
next
  case (3 x y)
  define v where "v = byte x * 65536 + byte y * 256"
  have "v < 16777216" using byte_quantum(2) by (simp only: v_def)
  then show ?case unfolding b64_encode.simps Let_def v_def[symmetric] by (simp add: b64_char_alphabet quantum_digits_less)
next
  case (4 x y z r)
  define v where "v = byte x * 65536 + byte y * 256 + byte z"
  have "v < 16777216" using byte_quantum(1) by (simp only: v_def)
  then show ?case using 4 unfolding b64_encode.simps Let_def v_def[symmetric] by (simp add: b64_char_alphabet quantum_digits_less)
qed simp

lemma b64_encode_no:
  "c \<notin> set b64_alphabet \<Longrightarrow> c \<noteq> CHR ''='' \<Longrightarrow> c \<notin> set (b64_encode s)"
  using b64_encode_chars[of s] by auto

lemma b64_decode_encode [simp]: "b64_decode (b64_encode s) = Some s"
proof -
  have "CHR 0x0A \<notin> set b64_alphabet" "CHR 0x0D \<notin> set b64_alphabet" by code_simp+
  then have "filter (\<lambda>c. c \<noteq> CHR 0x0A \<and> c \<noteq> CHR 0x0D) (b64_encode s) = b64_encode s"
    using b64_encode_no[of "CHR 0x0A" s] b64_encode_no[of "CHR 0x0D" s] by (auto simp: filter_id_conv)
  then show ?thesis by (simp add: b64_decode_def)
qed

subsection \<open>Commands\<close>

text \<open>\<open>SendMessage\<close> of the client: the frame of a command.\<close>

definition command_frame :: "gostr \<Rightarrow> gostr" where
  "command_frame command = ''protocol '' @ protocol_compat @ '' base64 '' @ b64_encode command @ '';''"

definition parse_protocol_compat :: "gostr \<Rightarrow> int \<times> int" where
  "parse_protocol_compat version =
     (case split_n ''.'' 2 version of
        [] \<Rightarrow> (0, 0)
      | [major] \<Rightarrow> (fst (atoi major), 0)
      | major # minor # _ \<Rightarrow> (fst (atoi major), fst (atoi minor)))"

text \<open>The end to be updated, the version of the client and the text to add to the error.\<close>

datatype codec_error =
    NoProtocolVersion
  | VersionMismatch (update_server: bool) (client_version: gostr) (add_text: gostr)
  | NotBase64

definition handle_protocol_version :: "gostr list \<Rightarrow> codec_error + gostr list" where
  "handle_protocol_version args =
     (if length args \<le> 2 \<or> args ! 0 \<noteq> ''protocol'' then Inl NoProtocolVersion
      else if args ! 1 \<noteq> protocol_compat then
        (case (parse_protocol_compat (args ! 1), parse_protocol_compat protocol_compat) of
           ((client_major, client_minor), (server_major, server_minor)) \<Rightarrow>
             Inl (VersionMismatch
               (server_major < client_major \<or> client_major = server_major \<and> server_minor < client_minor)
               (args ! 1) (if client_major \<le> 3 then [CHR 0x0A] else [])))
      else Inr (drop 2 args))"

definition handle_base64 :: "gostr list \<Rightarrow> codec_error + gostr list" where
  "handle_base64 args =
     (if length args \<noteq> 2 \<or> args ! 0 \<noteq> ''base64'' then Inl NotBase64
      else case b64_decode (args ! 1) of None \<Rightarrow> Inl NotBase64 | Some s \<Rightarrow> Inr (split '' '' s))"

definition decode_command :: "gostr \<Rightarrow> codec_error + gostr list" where
  "decode_command command_str =
     and_then (handle_protocol_version (split '' '' command_str)) handle_base64"

text \<open>An older client of the same major version is told to update itself, a newer one to update the server.\<close>

lemma version_mismatch_examples:
  "handle_protocol_version [''protocol'', ''4.0'', ''base64'', ''eA==''] = Inl (VersionMismatch False ''4.0'' [])"
  "handle_protocol_version [''protocol'', ''4.2'', ''base64'', ''eA==''] = Inl (VersionMismatch True ''4.2'' [])"
  "handle_protocol_version [''protocol'', ''3'', ''base64'', ''eA==''] = Inl (VersionMismatch False ''3'' [CHR 0x0A])"
  by (simp_all add: handle_protocol_version_def parse_protocol_compat_def protocol_compat_def split_n_2 atoi_def
      parse_int_body_def digit_val_def Let_def)

lemma b64_no_blank: "CHR '' '' \<notin> set (b64_encode s)" and b64_no_semicolon: "CHR '';'' \<notin> set (b64_encode s)"
proof -
  have "CHR '' '' \<notin> set b64_alphabet" "CHR '';'' \<notin> set b64_alphabet" by code_simp+
  then show "CHR '' '' \<notin> set (b64_encode s)" "CHR '';'' \<notin> set (b64_encode s)" by (auto dest: b64_encode_no)
qed

lemma decode_command_frame: "decode_command (butlast (command_frame command)) = Inr (split '' '' command)"
proof -
  let ?ws = "[''protocol'', protocol_compat, ''base64'', b64_encode command]"
  have "butlast (command_frame command) = join '' '' ?ws"
    by (simp add: command_frame_def butlast_append)
  moreover have "split '' '' (join '' '' ?ws) = ?ws"
    using b64_no_blank[of command] by (intro split_join) (auto simp: protocol_compat_def)
  ultimately show ?thesis
    by (simp add: decode_command_def handle_protocol_version_def handle_base64_def)
qed

subsection \<open>Messages of the server\<close>

definition pad3 :: "int \<Rightarrow> gostr" where
  "pad3 i = replicate (3 - length (itoa i)) (CHR '' '') @ itoa i"

definition default_transmitted_perc :: gostr where
  "default_transmitted_perc = ''100''"

definition format_remote_header :: "gostr \<Rightarrow> gostr \<Rightarrow> uint64 \<Rightarrow> gostr \<Rightarrow> gostr" where
  "format_remote_header hostname perc line_num source_id =
     ''REMOTE'' @ field_delimiter @ hostname @ field_delimiter @ perc @ field_delimiter @ format_uint line_num @
     field_delimiter @ source_id @ field_delimiter"

definition format_remote_line :: "gostr \<Rightarrow> gostr \<Rightarrow> uint64 \<Rightarrow> gostr \<Rightarrow> gostr \<Rightarrow> gostr" where
  "format_remote_line hostname perc line_num source_id content =
     format_remote_header hostname perc line_num source_id @ content @ [message_delimiter]"

definition format_server_message :: "gostr \<Rightarrow> gostr \<Rightarrow> bool \<Rightarrow> gostr" where
  "format_server_message hostname message plain =
     (if \<not> plain then ''SERVER'' @ field_delimiter @ hostname @ field_delimiter else []) @ message @ [message_delimiter]"

subsection \<open>Generations\<close>

definition generation_mark :: char where
  "generation_mark = CHR 0x1E"

definition generation_output_prefix :: gostr where
  "generation_output_prefix = generation_mark # ''gen:''"

definition encode_generated :: "uint64 \<Rightarrow> gostr \<Rightarrow> gostr" where
  "encode_generated g message =
     (if g = 0 then message else generation_output_prefix @ format_uint g @ [generation_mark] @ message)"

definition decode_generated_message :: "gostr \<Rightarrow> uint64 \<times> gostr" where
  "decode_generated_message message =
     (if \<not> has_prefix message generation_output_prefix then (0, message)
      else
        (case split_n [generation_mark] 2 (trim_prefix message generation_output_prefix) of
           [number, rest] \<Rightarrow>
             (case parse_uint number of (g, None) \<Rightarrow> (g, rest) | (_, Some e) \<Rightarrow> (0, message))
         | _ \<Rightarrow> (0, message)))"

definition decode_generated_bytes :: "gostr \<Rightarrow> uint64 \<times> gostr" where
  "decode_generated_bytes payload =
     (case decode_generated_message payload of (g, m) \<Rightarrow> if g = 0 then (0, payload) else (g, m))"

definition should_drop_generation :: "uint64 option \<Rightarrow> uint64 \<Rightarrow> bool" where
  "should_drop_generation active g =
     (if g = 0 then False
      else case active of None \<Rightarrow> False | Some a \<Rightarrow> if a = 0 then False else a \<noteq> g)"

definition should_write_generation :: "uint64 \<Rightarrow> uint64 option \<Rightarrow> bool" where
  "should_write_generation g active =
     (if g = 0 then True
      else case active of None \<Rightarrow> True | Some a \<Rightarrow> if a = 0 then True else a = g)"

text \<open>What a reader drops is what a writer does not write.\<close>

lemma generation_checks_agree: "should_drop_generation active g \<longleftrightarrow> \<not> should_write_generation g active"
  by (auto simp: should_drop_generation_def should_write_generation_def split: option.splits)

lemma decode_generated_encoded:
  assumes "g \<noteq> 0"
  shows "decode_generated_message (encode_generated g m) = (g, m)"
proof -
  have "\<not> contains (format_uint g) [generation_mark]"
    using format_uint_digits[of generation_mark g] by (auto simp: generation_mark_def digit_val_def)
  then have "split_n [generation_mark] 2 (format_uint g @ [generation_mark] @ m) = [format_uint g, m]"
    using split_n_2_append[of "[generation_mark]" "format_uint g" m] by simp
  then show ?thesis using assms by (simp add: encode_generated_def decode_generated_message_def)
qed

text \<open>
  A payload of a session is read back with its generation. A payload without a generation, as all
  output outside sessions is, comes through unless it looks like one with a generation itself.
\<close>

lemma generation_roundtrip:
  "decode_generated_bytes (encode_generated g m) = (g, m) \<longleftrightarrow> g \<noteq> 0 \<or> fst (decode_generated_message m) = 0"
  by (cases "g = 0")
    (auto simp: decode_generated_bytes_def decode_generated_encoded encode_generated_def[of 0] split: prod.splits)

lemma log_line_taken_for_generation:
  "decode_generated_bytes (encode_generated 0 (generation_mark # ''gen:7'' @ generation_mark # ''text'')) = (7, ''text'')"
proof -
  have "decode_generated_message (encode_generated 7 ''text'') = (7, ''text'')" by (rule decode_generated_encoded) simp
  moreover have "format_uint 7 = ''7''" by code_simp
  ultimately show ?thesis
    by (simp add: decode_generated_bytes_def encode_generated_def generation_output_prefix_def)
qed

subsection \<open>Options of a command\<close>

definition serialize_option_value :: "gostr \<Rightarrow> gostr" where
  "serialize_option_value v =
     (if CHR '':'' \<in> set v \<or> CHR ''='' \<in> set v \<or> CHR ''|'' \<in> set v \<or> has_prefix v ''base64%''
      then ''base64%'' @ b64_encode v else v)"

definition serialize_options :: "(gostr, gostr) gomap \<Rightarrow> gostr" where
  "serialize_options options =
     (if options = [] then []
      else join '':'' (map (\<lambda>k. k @ ''='' @ serialize_option_value (lookup_zero [] options k)) (sort (map fst options))))"

record client_options =
  co_quiet :: bool
  co_plain :: bool
  co_serverless :: bool
  co_context :: lcontext

definition put_if :: "bool \<Rightarrow> gostr \<Rightarrow> gostr \<Rightarrow> (gostr, gostr) gomap \<Rightarrow> (gostr, gostr) gomap" where
  "put_if b k v m = (if b then AList.update k v m else m)"

definition serialize_client_options :: "client_options \<Rightarrow> gostr" where
  "serialize_client_options a =
     serialize_options
       (put_if (after_context (co_context a) \<noteq> 0) ''after'' (itoa (after_context (co_context a)))
       (put_if (before_context (co_context a) \<noteq> 0) ''before'' (itoa (before_context (co_context a)))
       (put_if (ltx_max_count (co_context a) \<noteq> 0) ''max'' (itoa (ltx_max_count (co_context a)))
       (put_if (co_serverless a) ''serverless'' ''true''
       (put_if (co_plain a) ''plain'' ''true''
       (put_if (co_quiet a) ''quiet'' ''true'' []))))))"

datatype option_error = NotKeyValue gostr | BadOptionBase64 gostr | BadNumber gostr

definition zero_context :: lcontext where
  "zero_context = \<lparr>after_context = 0, before_context = 0, ltx_max_count = 0\<rparr>"

definition set_option :: "gostr \<Rightarrow> gostr \<Rightarrow> (gostr, gostr) gomap \<times> lcontext \<Rightarrow> option_error + (gostr, gostr) gomap \<times> lcontext" where
  "set_option key val s =
     (case s of (options, ltx) \<Rightarrow>
        if key = ''before'' then
          (case atoi val of (i, None) \<Rightarrow> Inr (options, ltx\<lparr>before_context := i\<rparr>) | (_, Some e) \<Rightarrow> Inl (BadNumber val))
        else if key = ''after'' then
          (case atoi val of (i, None) \<Rightarrow> Inr (options, ltx\<lparr>after_context := i\<rparr>) | (_, Some e) \<Rightarrow> Inl (BadNumber val))
        else if key = ''max'' then
          (case atoi val of (i, None) \<Rightarrow> Inr (options, ltx\<lparr>ltx_max_count := i\<rparr>) | (_, Some e) \<Rightarrow> Inl (BadNumber val))
        else Inr (AList.update key val options, ltx))"

definition option_value :: "gostr \<Rightarrow> option_error + gostr" where
  "option_value val =
     (if has_prefix val ''base64%'' then
        (case b64_decode (split_n ''%'' 2 val ! 1) of None \<Rightarrow> Inl (BadOptionBase64 val) | Some s \<Rightarrow> Inr s)
      else Inr val)"

fun read_options :: "gostr list \<Rightarrow> (gostr, gostr) gomap \<times> lcontext \<Rightarrow> option_error + (gostr, gostr) gomap \<times> lcontext" where
  "read_options [] s = Inr s"
| "read_options (opt # opts) s =
     (case split_n ''='' 2 opt of
        [key, val] \<Rightarrow> and_then (and_then (option_value val) (\<lambda>v. set_option key v s)) (read_options opts)
      | _ \<Rightarrow> Inl (NotKeyValue opt))"

definition deserialize_options :: "gostr list \<Rightarrow> option_error + (gostr, gostr) gomap \<times> lcontext" where
  "deserialize_options opts =
     (case opts of
        [raw] \<Rightarrow>
          (if trim_space raw = [] then Inr ([], zero_context)
           else read_options (split '':'' (trim_space raw)) ([], zero_context))
      | _ \<Rightarrow> read_options opts ([], zero_context))"

subsection \<open>Options come through\<close>

definition option_text :: "gostr \<times> gostr \<Rightarrow> gostr" where
  "option_text kv = fst kv @ ''='' @ serialize_option_value (snd kv)"

fun apply_options :: "(gostr \<times> gostr) list \<Rightarrow> (gostr, gostr) gomap \<times> lcontext \<Rightarrow> option_error + (gostr, gostr) gomap \<times> lcontext" where
  "apply_options [] s = Inr s"
| "apply_options (kv # kvs) s = and_then (set_option (fst kv) (snd kv) s) (apply_options kvs)"

lemma apply_options_append: "apply_options (xs @ ys) s = and_then (apply_options xs s) (apply_options ys)"
proof (induction xs arbitrary: s)
  case (Cons x xs)
  then show ?case by (cases "set_option (fst x) (snd x) s") simp_all
qed simp

definition clean_key :: "gostr \<Rightarrow> bool" where
  "clean_key k \<longleftrightarrow> CHR '':'' \<notin> set k \<and> CHR ''='' \<notin> set k"

lemma option_value_serialized: "option_value (serialize_option_value v) = Inr v"
proof (cases "CHR '':'' \<in> set v \<or> CHR ''='' \<in> set v \<or> CHR ''|'' \<in> set v \<or> has_prefix v ''base64%''")
  case True
  have "split_n ''%'' 2 (''base64'' @ ''%'' @ b64_encode v) = [''base64'', b64_encode v]"
    by (rule split_n_2_append) simp_all
  then show ?thesis using True by (simp add: option_value_def serialize_option_value_def)
next
  case False
  then show ?thesis by (simp add: option_value_def serialize_option_value_def)
qed

lemma serialized_no_colon: "CHR '':'' \<notin> set (serialize_option_value v)"
proof -
  have "CHR '':'' \<notin> set b64_alphabet" by code_simp
  then show ?thesis by (auto simp: serialize_option_value_def dest: b64_encode_no)
qed

lemma read_options_text:
  "\<forall>kv\<in>set kvs. clean_key (fst kv) \<Longrightarrow> read_options (map option_text kvs) s = apply_options kvs s"
proof (induction kvs arbitrary: s)
  case (Cons kv kvs)
  have "split_n ''='' 2 (option_text kv) = [fst kv, serialize_option_value (snd kv)]"
    unfolding option_text_def by (rule split_n_2_append) (use Cons.prems in \<open>auto simp: clean_key_def\<close>)
  then show ?case using Cons by (cases "set_option (fst kv) (snd kv) s") (simp_all add: option_value_serialized)
qed simp

definition visible_ends :: "gostr \<Rightarrow> bool" where
  "visible_ends s \<longleftrightarrow> s \<noteq> [] \<and> \<not> ascii_space (hd s) \<and> byte (hd s) < 128 \<and> \<not> ascii_space (last s) \<and> byte (last s) < 128"

lemma high_bytes: "byte c < 128 \<Longrightarrow> \<not> space2 c d \<and> \<not> space2 d c \<and> \<not> space3 c d e \<and> \<not> space3 d e c"
  by (auto simp: byte_def space2_def space3_def)

lemma trim_space_visible:
  assumes "visible_ends s"
  shows "trim_space s = s"
proof (rule trim_space_id)
  obtain c r where s: "s = c # r" using assms by (cases s) (auto simp: visible_ends_def)
  show "space_len s = 0" using assms high_bytes[of c]
    by (cases s rule: space_len.cases) (auto simp: visible_ends_def s)
  obtain e q where e: "rev s = e # q" using assms by (cases "rev s") (auto simp: visible_ends_def)
  then have "last s = e" by (metis hd_rev list.sel(1) rev_rev_ident last_rev)
  then show "space_len_rev (rev s) = 0" using assms high_bytes[of e]
    by (cases "rev s" rule: space_len_rev.cases) (auto simp: visible_ends_def e)
qed

lemma deserialize_text:
  assumes "kvs \<noteq> []" and "\<forall>kv\<in>set kvs. clean_key (fst kv)" and "visible_ends (join '':'' (map option_text kvs))"
  shows "deserialize_options [join '':'' (map option_text kvs)] = apply_options kvs ([], zero_context)"
proof -
  have "split '':'' (join '':'' (map option_text kvs)) = map option_text kvs"
    using assms(1,2) serialized_no_colon by (intro split_join) (auto simp: option_text_def clean_key_def)
  moreover have "join '':'' (map option_text kvs) \<noteq> []" using assms(3) by (auto simp: visible_ends_def)
  ultimately show ?thesis
    using assms by (simp add: deserialize_options_def trim_space_visible read_options_text)
qed

definition client_kvs :: "client_options \<Rightarrow> (gostr \<times> gostr) list" where
  "client_kvs a =
     (if after_context (co_context a) \<noteq> 0 then [(''after'', itoa (after_context (co_context a)))] else []) @
     (if before_context (co_context a) \<noteq> 0 then [(''before'', itoa (before_context (co_context a)))] else []) @
     (if ltx_max_count (co_context a) \<noteq> 0 then [(''max'', itoa (ltx_max_count (co_context a)))] else []) @
     (if co_plain a then [(''plain'', ''true'')] else []) @
     (if co_quiet a then [(''quiet'', ''true'')] else []) @
     (if co_serverless a then [(''serverless'', ''true'')] else [])"

lemma option_keys_sorted: "sorted [''after'', ''before'', ''max'', ''plain'', ''quiet'', ''serverless'']"
  by (simp add: less_eq_char_def less_char_def)

lemma keys_put_if [simp]: "fst ` set (put_if b k v m) = (if b then insert k (fst ` set m) else fst ` set m)"
  by (simp add: put_if_def)

lemma gomap_wf_put_if [simp]: "gomap_wf m \<Longrightarrow> gomap_wf (put_if b k v m)"
  by (simp add: put_if_def)

lemma map_of_put_if [simp]: "map_of (put_if b k v m) k' = (if b \<and> k' = k then Some v else map_of m k')"
  by (simp add: put_if_def)

lemma client_keys_sorted: "sorted (map fst (client_kvs a)) \<and> distinct (map fst (client_kvs a))"
proof -
  let ?P = "\<lambda>k. k = ''after'' \<and> after_context (co_context a) \<noteq> 0 \<or> k = ''before'' \<and> before_context (co_context a) \<noteq> 0 \<or>
    k = ''max'' \<and> ltx_max_count (co_context a) \<noteq> 0 \<or> k = ''plain'' \<and> co_plain a \<or> k = ''quiet'' \<and> co_quiet a \<or>
    k = ''serverless'' \<and> co_serverless a"
  have "map fst (client_kvs a) = filter ?P [''after'', ''before'', ''max'', ''plain'', ''quiet'', ''serverless'']"
    by (simp add: client_kvs_def)
  moreover have "distinct [''after'', ''before'', ''max'', ''plain'', ''quiet'', ''serverless'']" by simp
  ultimately show ?thesis
    by (simp only: sorted_wrt_filter[OF option_keys_sorted] distinct_filter simp_thms)
qed

lemma serialize_client_text:
  "serialize_client_options a = join '':'' (map option_text (client_kvs a))"
proof -
  let ?m = "put_if (after_context (co_context a) \<noteq> 0) ''after'' (itoa (after_context (co_context a)))
       (put_if (before_context (co_context a) \<noteq> 0) ''before'' (itoa (before_context (co_context a)))
       (put_if (ltx_max_count (co_context a) \<noteq> 0) ''max'' (itoa (ltx_max_count (co_context a)))
       (put_if (co_serverless a) ''serverless'' ''true''
       (put_if (co_plain a) ''plain'' ''true''
       (put_if (co_quiet a) ''quiet'' ''true'' [])))))"
  have set: "set (map fst ?m) = set (map fst (client_kvs a))" by (auto simp: client_kvs_def)
  have "sort (map fst ?m) = map fst (client_kvs a)"
    using client_keys_sorted[of a] set by (intro sorted_distinct_set_unique) simp_all
  moreover have "lookup_zero [] ?m (fst kv) = snd kv" if "kv \<in> set (client_kvs a)" for kv
  proof -
    have "map_of ?m (fst kv) = Some (snd kv)"
      using that unfolding client_kvs_def set_append Un_iff by (elim disjE) (simp_all split: if_splits)
    then show ?thesis by simp
  qed
  ultimately have "map (\<lambda>k. k @ ''='' @ serialize_option_value (lookup_zero [] ?m k)) (sort (map fst ?m)) = map option_text (client_kvs a)"
    by (auto simp: option_text_def)
  moreover have "?m = [] \<longleftrightarrow> client_kvs a = []"
    using set by (metis list.map_disc_iff set_empty)
  ultimately show ?thesis by (simp add: serialize_client_options_def serialize_options_def)
qed

lemma serialized_itoa [simp]: "serialize_option_value (itoa i) = itoa i"
proof -
  have c: "c \<notin> set (itoa i)" if "c \<in> {CHR '':'', CHR ''='', CHR ''|'', CHR ''b''}" for c
    using that itoa_chars[of c i] by (auto simp: digit_val_def)
  then have "\<not> has_prefix (itoa i) ''base64%''" by (cases "itoa i") auto
  then show ?thesis using c by (simp add: serialize_option_value_def)
qed

lemma visible_join: "xs \<noteq> [] \<Longrightarrow> \<forall>x\<in>set xs. visible_ends x \<Longrightarrow> visible_ends (join '':'' xs)"
proof (induction xs)
  case (Cons x xs)
  then show ?case by (cases "xs = []") (auto simp: join_Cons visible_ends_def)
qed simp

lemma visible_itoa: "itoa i \<noteq> [] \<and> \<not> ascii_space (last (itoa i)) \<and> byte (last (itoa i)) < 128"
proof -
  have "is_digit (last (show_nat n))" for n by (rule show_nat_digits[of _ n]) simp
  then have "is_digit (last (itoa i))" by (auto simp: itoa_def)
  then show ?thesis unfolding is_digit_code by (auto simp: ascii_space_def byte_def)
qed

lemma options_arrive:
  assumes "after_context (co_context a) \<in> {- (2 ^ 63)..<2 ^ 63}" and "before_context (co_context a) \<in> {- (2 ^ 63)..<2 ^ 63}"
    and "ltx_max_count (co_context a) \<in> {- (2 ^ 63)..<2 ^ 63}"
  shows "\<exists>m. deserialize_options [serialize_client_options a] = Inr (m, co_context a) \<and>
    (\<forall>k. map_of m k = (if k = ''plain'' \<and> co_plain a \<or> k = ''quiet'' \<and> co_quiet a \<or> k = ''serverless'' \<and> co_serverless a
       then Some ''true'' else None))"
proof -
  have a: "\<exists>m. apply_options (client_kvs a) ([], zero_context) = Inr (m, co_context a) \<and>
    (\<forall>k. map_of m k = (if k = ''plain'' \<and> co_plain a \<or> k = ''quiet'' \<and> co_quiet a \<or> k = ''serverless'' \<and> co_serverless a
       then Some ''true'' else None))"
  proof -
    have atoi: "atoi (itoa (after_context (co_context a))) = (after_context (co_context a), None)"
      "atoi (itoa (before_context (co_context a))) = (before_context (co_context a), None)"
      "atoi (itoa (ltx_max_count (co_context a))) = (ltx_max_count (co_context a), None)"
      using assms by (auto intro: atoi_itoa)
    have 1: "apply_options (if b then [(k, v)] else []) s = (if b then set_option k v s else Inr s)" for b k v s
      by (cases "set_option k v s") simp_all
    show ?thesis
      by (simp add: client_kvs_def apply_options_append 1 set_option_def atoi zero_context_def)
  qed
  show ?thesis
  proof (cases "client_kvs a = []")
    case True
    then show ?thesis using a by (simp add: serialize_client_text deserialize_options_def)
  next
    case False
    have "\<forall>kv\<in>set (client_kvs a). clean_key (fst kv)" by (auto simp: client_kvs_def clean_key_def)
    moreover have "visible_ends (join '':'' (map option_text (client_kvs a)))"
    proof (rule visible_join)
      have "visible_ends (option_text kv)" if "kv \<in> set (client_kvs a)" for kv
        using that visible_itoa unfolding client_kvs_def set_append Un_iff
        by (elim disjE) (simp_all add: visible_ends_def option_text_def ascii_space_def byte_def
            serialize_option_value_def[of "''true''"] split: if_splits)
      then show "\<forall>x\<in>set (map option_text (client_kvs a)). visible_ends x" by simp
    qed (use False in simp)
    ultimately show ?thesis using a False by (simp add: serialize_client_text deserialize_text)
  qed
qed

text \<open>
  The options of the command line reach the server as they are: it reads back the context of
  the lines and exactly the flags that were set.
\<close>

theorem options_roundtrip:
  assumes "after_context (co_context a) \<in> {- (2 ^ 63)..<2 ^ 63}" and "before_context (co_context a) \<in> {- (2 ^ 63)..<2 ^ 63}"
    and "ltx_max_count (co_context a) \<in> {- (2 ^ 63)..<2 ^ 63}"
  shows "\<exists>m. deserialize_options [serialize_client_options a] = Inr (m, co_context a) \<and>
    (\<forall>k. map_of m k = (if k = ''plain'' \<and> co_plain a \<or> k = ''quiet'' \<and> co_quiet a \<or> k = ''serverless'' \<and> co_serverless a
       then Some ''true'' else None))"
  using assms by (rule options_arrive)

lemma options_roundtrip_witness:
  "\<exists>m. deserialize_options [serialize_client_options \<lparr>co_quiet = True, co_plain = False, co_serverless = False,
      co_context = \<lparr>after_context = 2, before_context = 1, ltx_max_count = 0\<rparr>\<rparr>] =
      Inr (m, \<lparr>after_context = 2, before_context = 1, ltx_max_count = 0\<rparr>) \<and> map_of m ''quiet'' = Some ''true''"
  using options_roundtrip[of "\<lparr>co_quiet = True, co_plain = False, co_serverless = False,
      co_context = \<lparr>after_context = 2, before_context = 1, ltx_max_count = 0\<rparr>\<rparr>"] by fastforce

end
