(* ===== verification/Session_Spec.thy ===== *)
theory Session_Spec
  imports Protocol
begin

text \<open>
  The workload of a session (\<open>internal/session/spec.go\<close>) and the commands that it stands for. The
  encoding of a specification as JSON is a parameter.
\<close>

record spec =
  sp_mode :: mode
  sp_files :: "gostr list"
  sp_options :: gostr
  sp_query :: gostr
  sp_regex :: gostr
  sp_regex_invert :: bool
  sp_timeout :: int

definition zero_spec :: spec where
  "zero_spec = \<lparr>sp_mode = UnknownMode, sp_files = [], sp_options = [], sp_query = [], sp_regex = [], sp_regex_invert = False, sp_timeout = 0\<rparr>"

definition split_files :: "gostr \<Rightarrow> gostr list" where
  "split_files what =
     (if trim_space what = [] then []
      else filter (\<lambda>f. f \<noteq> []) (map trim_space (split '','' what)))"

definition supports_serverless_pipe :: "mode \<Rightarrow> bool" where
  "supports_serverless_pipe m = (m \<in> {TailClient, CatClient, GrepClient, MapClient})"

record client_args = client_options +
  ca_mode :: mode
  ca_what :: gostr
  ca_query :: gostr
  ca_regex :: gostr
  ca_regex_invert :: bool
  ca_timeout :: int

definition new_spec :: "client_args \<Rightarrow> spec" where
  "new_spec a =
     (let files = split_files (ca_what a);
          files = (if co_serverless a \<and> files = [] \<and> supports_serverless_pipe (ca_mode a) then [''-''] else files) in
      \<lparr>sp_mode = ca_mode a, sp_files = files, sp_options = serialize_client_options (client_options.truncate a),
       sp_query = trim_space (ca_query a), sp_regex = ca_regex a, sp_regex_invert = ca_regex_invert a, sp_timeout = ca_timeout a\<rparr>)"

datatype spec_error = QueryMode mode | UnsupportedMode mode | SpecRegex regex_error

definition serialized_regex :: "(gostr \<Rightarrow> 'r option) \<Rightarrow> spec \<Rightarrow> spec_error + gostr" where
  "serialized_regex compile s =
     map_error SpecRegex
       (and_then (new_regex compile (sp_regex s) (if sp_regex_invert s then Invert else Default)) serialize_regex)"

definition blank :: gostr where
  "blank = '' ''"

definition query_commands :: "(gostr \<Rightarrow> 'r option) \<Rightarrow> spec \<Rightarrow> spec_error + gostr list" where
  "query_commands compile s =
     (if sp_mode s \<noteq> MapClient \<and> sp_mode s \<noteq> TailClient then Inl (QueryMode (sp_mode s))
      else and_then (serialized_regex compile s) (\<lambda>r.
        let read_mode = (if sp_mode s = TailClient then ''tail'' else ''cat'') in
        Inr ((''map:'' @ sp_options s @ blank @ sp_query s) #
          map (\<lambda>f. if 0 < sp_timeout s
                    then ''timeout '' @ itoa (sp_timeout s) @ blank @ read_mode @ blank @ f @ blank @ r
                    else read_mode @ '':'' @ sp_options s @ blank @ f @ blank @ r) (sp_files s))))"

definition read_commands :: "(gostr \<Rightarrow> 'r option) \<Rightarrow> spec \<Rightarrow> gostr \<Rightarrow> spec_error + gostr list" where
  "read_commands compile s m =
     (if sp_mode s \<notin> {TailClient, CatClient, GrepClient} then Inl (UnsupportedMode (sp_mode s))
      else and_then (serialized_regex compile s) (\<lambda>r.
        Inr (map (\<lambda>f. m @ '':'' @ sp_options s @ blank @ f @ blank @ r) (sp_files s))))"

definition spec_commands :: "(gostr \<Rightarrow> 'r option) \<Rightarrow> spec \<Rightarrow> spec_error + gostr list" where
  "spec_commands compile s =
     (if sp_mode s = HealthClient then Inr [''health'']
      else if sp_query s \<noteq> [] then query_commands compile s
      else read_commands compile s (mode_string (sp_mode s)))"

definition has_journal_files :: "spec \<Rightarrow> bool" where
  "has_journal_files s = list_ex (\<lambda>f. has_prefix (trim_space f) ''journal:'') (sp_files s)"

text \<open>\<open>json\<close> is \<open>json.Marshal\<close> of a specification.\<close>

definition encoded_payload :: "(spec \<Rightarrow> gostr option) \<Rightarrow> spec \<Rightarrow> gostr option" where
  "encoded_payload json s = map_option b64_encode (json s)"

definition start_command :: "(spec \<Rightarrow> gostr option) \<Rightarrow> spec \<Rightarrow> gostr option" where
  "start_command json s = map_option (\<lambda>p. ''SESSION START '' @ p) (encoded_payload json s)"

definition update_command :: "(spec \<Rightarrow> gostr option) \<Rightarrow> spec \<Rightarrow> uint64 \<Rightarrow> gostr option" where
  "update_command json s g =
     map_option (\<lambda>p. if g = 0 then ''SESSION UPDATE '' @ p else ''SESSION UPDATE '' @ format_uint g @ blank @ p)
       (encoded_payload json s)"

lemma split_files_nonempty: "f \<in> set (split_files what) \<Longrightarrow> f \<noteq> []"
  by (auto simp: split_files_def split: if_splits)

text \<open>The commands of a read session are one for each file, of the same mode.\<close>

lemma spec_commands_read:
  assumes "sp_query s = []" and "sp_mode s \<in> {TailClient, CatClient, GrepClient}" and "serialized_regex compile s = Inr r"
  shows "spec_commands compile s =
    Inr (map (\<lambda>f. mode_string (sp_mode s) @ '':'' @ sp_options s @ blank @ f @ blank @ r) (sp_files s))"
  using assms by (auto simp: spec_commands_def read_commands_def)

end
