(* ===== verification/Server_Auth.thy ===== *)
theory Server_Auth
  imports Permissions GoNumbers
begin

text \<open>
  Who may open a session of the server: the password callback of the background users and the
  requests of a channel (\<open>internal/server/server.go\<close>), the jobs for which those users exist
  (\<open>internal/server/scheduler.go\<close>, \<open>filldates.go\<close>), and the loop over an authorized keys file
  (\<open>internal/ssh/server/publickeycallback.go\<close>). The name service, the parser of a public key
  and the clock are parameters.
\<close>

subsection \<open>Host and port\<close>

text \<open>\<open>net.SplitHostPort\<close>: the host of an address with a port, or an error.\<close>

definition last_index :: "char \<Rightarrow> gostr \<Rightarrow> nat option" where
  "last_index c s = (if c \<in> set s then Some (length s - 1 - length (takeWhile (\<lambda>d. d \<noteq> c) (rev s))) else None)"

definition split_host_port :: "gostr \<Rightarrow> gostr option" where
  "split_host_port a =
     (case last_index (CHR '':'') a of
        None \<Rightarrow> None
      | Some i \<Rightarrow>
          if a \<noteq> [] \<and> hd a = CHR ''['' then
            (let e = length (takeWhile (\<lambda>d. d \<noteq> CHR '']'') a) in
             if e = length a \<or> e + 1 = length a \<or> e + 1 \<noteq> i then None
             else if CHR ''['' \<in> set (drop 1 a) \<or> CHR '']'' \<in> set (drop (e + 1) a) then None
             else Some (drop 1 (take e a)))
          else if CHR '':'' \<in> set (take i a) \<or> CHR ''['' \<in> set a \<or> CHR '']'' \<in> set a then None
          else Some (take i a))"

definition remote_ip :: "gostr \<Rightarrow> gostr" where
  "remote_ip a = (case split_host_port a of None \<Rightarrow> a | Some h \<Rightarrow> h)"

subsection \<open>Passwords\<close>

record job =
  job_name :: gostr
  job_enabled :: bool
  job_files :: gostr
  job_query :: gostr
  job_outfile :: gostr
  job_discovery :: gostr
  job_server_list :: "gostr list"
  allow_from :: "gostr list"
  time_range :: "int \<times> int"

definition health_user :: gostr where
  "health_user = ''DTAIL-HEALTH''"

definition secrets_equal :: "gostr \<Rightarrow> gostr \<Rightarrow> bool" where
  "secrets_equal a b = (a = b)"

fun address_allowed :: "(gostr \<Rightarrow> gostr list option) \<Rightarrow> gostr \<Rightarrow> gostr list \<Rightarrow> bool" where
  "address_allowed lookup_ip ip [] = False"
| "address_allowed lookup_ip ip (a # as) =
     (case lookup_ip a of
        None \<Rightarrow> address_allowed lookup_ip ip as
      | Some ips \<Rightarrow> if ip \<in> set ips then True else address_allowed lookup_ip ip as)"

definition background_can_ssh :: "(gostr \<Rightarrow> gostr list option) \<Rightarrow> gostr \<Rightarrow> gostr \<Rightarrow> gostr \<Rightarrow> gostr list \<Rightarrow> bool" where
  "background_can_ssh lookup_ip auth_info ip allowed_job_name allowed =
     (if \<not> secrets_equal auth_info allowed_job_name then False else address_allowed lookup_ip ip allowed)"

definition authorize_health_user :: "gostr \<Rightarrow> bool" where
  "authorize_health_user auth_info = (if \<not> secrets_equal auth_info health_user then False else True)"

fun authorize_jobs :: "(gostr \<Rightarrow> gostr list option) \<Rightarrow> gostr \<Rightarrow> gostr \<Rightarrow> job list \<Rightarrow> bool" where
  "authorize_jobs lookup_ip auth_info ip [] = False"
| "authorize_jobs lookup_ip auth_info ip (j # js) =
     (if background_can_ssh lookup_ip auth_info ip (job_name j) (allow_from j) then True
      else authorize_jobs lookup_ip auth_info ip js)"

text \<open>The strategies are keyed by the name of the user; any other user has none.\<close>

definition auth_strategy :: "(gostr \<Rightarrow> gostr list option) \<Rightarrow> job list \<Rightarrow> job list \<Rightarrow> gostr \<Rightarrow> (gostr \<Rightarrow> gostr \<Rightarrow> bool) option" where
  "auth_strategy lookup_ip schedule continuous name =
     map_of [(health_user, \<lambda>secret ip. authorize_health_user secret),
             (schedule_user, \<lambda>secret ip. authorize_jobs lookup_ip secret ip schedule),
             (continuous_user, \<lambda>secret ip. authorize_jobs lookup_ip secret ip continuous)] name"

datatype 'e auth_error = LookupFailed 'e | NotAuthorized gostr

definition password_callback :: "(gostr \<Rightarrow> gostr list option) \<Rightarrow> job list \<Rightarrow> job list \<Rightarrow> (gostr \<Rightarrow> 'e + gostr list) \<Rightarrow>
    gostr \<Rightarrow> gostr \<Rightarrow> gostr \<Rightarrow> 'e auth_error + unit" where
  "password_callback lookup_ip schedule continuous lookup name remote_addr payload =
     (case new_user name remote_addr (Some lookup) of
        Inl e \<Rightarrow> Inl (LookupFailed e)
      | Inr u \<Rightarrow>
          (case auth_strategy lookup_ip schedule continuous (user_name u) of
             None \<Rightarrow> Inl (NotAuthorized name)
           | Some strategy \<Rightarrow> if strategy payload (remote_ip remote_addr) then Inr () else Inl (NotAuthorized name)))"

subsection \<open>Requests of a channel\<close>

text \<open>The number of shells that were started, and the type of the request that closed the connection.\<close>

fun handle_requests :: "gostr list \<Rightarrow> nat \<times> gostr option" where
  "handle_requests [] = (0, None)"
| "handle_requests (r # rs) =
     (if r = ''shell'' then (case handle_requests rs of (n, e) \<Rightarrow> (Suc n, e)) else (0, Some r))"

datatype channel_outcome = ProhibitedUser | ProhibitedType | AcceptFailed | Served nat "gostr option"

definition handle_channel :: "'e + user \<Rightarrow> gostr \<Rightarrow> bool \<Rightarrow> gostr list \<Rightarrow> channel_outcome" where
  "handle_channel u channel_type accepted requests =
     (case u of
        Inl e \<Rightarrow> ProhibitedUser
      | Inr u \<Rightarrow>
          if channel_type \<noteq> ''session'' then ProhibitedType
          else if \<not> accepted then AcceptFailed
          else (case handle_requests requests of (n, e) \<Rightarrow> Served n e))"

datatype handler_kind = HealthHandler | ServerHandler

definition handler_of :: "user \<Rightarrow> handler_kind" where
  "handler_of u = (if user_name u = health_user then HealthHandler else ServerHandler)"

subsection \<open>Scheduled and continuous jobs\<close>

text \<open>\<open>strings.ReplaceAll\<close> for a non-empty old text.\<close>

definition replace_all :: "gostr \<Rightarrow> gostr \<Rightarrow> gostr \<Rightarrow> gostr" where
  "replace_all s old repl = join repl (split old s)"

text \<open>\<open>day n\<close> is the date \<open>n\<close> days from now in the format \<open>20060102\<close>.\<close>

definition fill_dates :: "(int \<Rightarrow> gostr) \<Rightarrow> gostr \<Rightarrow> gostr" where
  "fill_dates day s =
     (let s = replace_all s ''$yyyesterday'' (day (- 3));
          s = replace_all s ''$yyesterday'' (day (- 2));
          s = replace_all s ''$yesterday'' (day (- 1));
          s = replace_all s ''$today'' (day 0) in
      replace_all s ''$tomorrow'' (day 1))"

record job_args =
  ja_discovery :: gostr
  ja_servers :: gostr
  ja_what :: gostr
  ja_tail :: bool
  ja_user :: gostr
  ja_secret :: gostr
  ja_query :: gostr

definition job_servers :: "gostr \<Rightarrow> job \<Rightarrow> gostr" where
  "job_servers bind_address j = (let s = join '','' (job_server_list j) in if s = [] then bind_address else s)"

text \<open>
  The world \<open>'w\<close> has the clock and the files: \<open>hour\<close> is the current hour, \<open>exists\<close> answers whether
  \<open>os.Stat\<close> of a path gives anything but \<open>ErrNotExist\<close>, and \<open>start\<close> is the run of the client of a
  job, which changes the world. A run that is started is recorded with its outfile.
\<close>

definition run_job :: "('w \<Rightarrow> int \<Rightarrow> gostr) \<Rightarrow> ('w \<Rightarrow> gostr \<Rightarrow> bool) \<Rightarrow> (job_args \<Rightarrow> 'w \<Rightarrow> 'w) \<Rightarrow> gostr \<Rightarrow> job \<Rightarrow> 'w \<Rightarrow>
    'w \<times> (gostr \<times> job_args) list" where
  "run_job day exists start bind_address j w =
     (let files = fill_dates (day w) (job_files j);
          out = fill_dates (day w) (job_outfile j) in
      if exists w out then (w, [])
      else
        (let a = \<lparr>ja_discovery = job_discovery j, ja_servers = job_servers bind_address j, ja_what = files, ja_tail = False,
           ja_user = schedule_user, ja_secret = job_name j, ja_query = job_query j @ '' outfile '' @ out\<rparr> in
         (start a w, [(out, a)])))"

fun run_jobs :: "('w \<Rightarrow> int \<Rightarrow> gostr) \<Rightarrow> ('w \<Rightarrow> gostr \<Rightarrow> bool) \<Rightarrow> (job_args \<Rightarrow> 'w \<Rightarrow> 'w) \<Rightarrow> ('w \<Rightarrow> int) \<Rightarrow> gostr \<Rightarrow>
    job list \<Rightarrow> 'w \<Rightarrow> 'w \<times> (gostr \<times> job_args) list" where
  "run_jobs day exists start hour bind_address [] w = (w, [])"
| "run_jobs day exists start hour bind_address (j # js) w =
     (if \<not> job_enabled j then run_jobs day exists start hour bind_address js w
      else if hour w < fst (time_range j) \<or> snd (time_range j) \<le> hour w then run_jobs day exists start hour bind_address js w
      else
        (case run_job day exists start bind_address j w of
           (w1, r1) \<Rightarrow>
             (case run_jobs day exists start hour bind_address js w1 of (w2, r2) \<Rightarrow> (w2, r1 @ r2))))"

definition run_continuous_job :: "(int \<Rightarrow> gostr) \<Rightarrow> gostr \<Rightarrow> job \<Rightarrow> job_args" where
  "run_continuous_job day bind_address j =
     \<lparr>ja_discovery = job_discovery j, ja_servers = job_servers bind_address j, ja_what = fill_dates day (job_files j),
       ja_tail = True, ja_user = continuous_user, ja_secret = job_name j,
       ja_query = job_query j @ '' outfile '' @ fill_dates day (job_outfile j)\<rparr>"

subsection \<open>Properties\<close>

lemma address_allowed_iff:
  "address_allowed lookup_ip ip as \<longleftrightarrow> (\<exists>a\<in>set as. \<exists>ips. lookup_ip a = Some ips \<and> ip \<in> set ips)"
  by (induction as) (auto split: option.splits)

lemma authorize_jobs_iff:
  "authorize_jobs lookup_ip secret ip js \<longleftrightarrow>
     (\<exists>j\<in>set js. job_name j = secret \<and> (\<exists>a\<in>set (allow_from j). \<exists>ips. lookup_ip a = Some ips \<and> ip \<in> set ips))"
  by (induction js) (auto simp: background_can_ssh_def secrets_equal_def address_allowed_iff)

lemma background_names_distinct:
  "schedule_user \<noteq> health_user" "continuous_user \<noteq> health_user" "continuous_user \<noteq> schedule_user"
  by (simp_all add: schedule_user_def continuous_user_def health_user_def)

definition job_grants :: "(gostr \<Rightarrow> gostr list option) \<Rightarrow> job list \<Rightarrow> gostr \<Rightarrow> gostr \<Rightarrow> bool" where
  "job_grants lookup_ip js secret ip \<longleftrightarrow>
     (\<exists>j\<in>set js. job_name j = secret \<and> (\<exists>a\<in>set (allow_from j). \<exists>ips. lookup_ip a = Some ips \<and> ip \<in> set ips))"

text \<open>
  C17: A password opens a session only for the three users that the program has for itself: the
  health user with its own name, and a background user with the name of one of its jobs from an
  address that this job allows. No other user can log in with a password.
\<close>

theorem password_grants_iff:
  "password_callback lookup_ip schedule continuous lookup name addr secret = Inr () \<longleftrightarrow>
     (\<exists>ps. lookup name = Inr ps) \<and>
     (name = health_user \<and> secret = health_user \<or>
      name = schedule_user \<and> job_grants lookup_ip schedule secret (remote_ip addr) \<or>
      name = continuous_user \<and> job_grants lookup_ip continuous secret (remote_ip addr))"
proof (cases "lookup name")
  case (Inr ps)
  then have "password_callback lookup_ip schedule continuous lookup name addr secret = Inr () \<longleftrightarrow>
      (\<exists>st. auth_strategy lookup_ip schedule continuous name = Some st \<and> st secret (remote_ip addr))"
    by (auto simp: password_callback_def new_user_def split: option.splits)
  then show ?thesis using Inr background_names_distinct
    by (auto simp: auth_strategy_def authorize_health_user_def secrets_equal_def authorize_jobs_iff job_grants_def)
qed (simp add: password_callback_def new_user_def)

text \<open>Addresses of both families are split, and what cannot be split is compared as it is.\<close>

lemma split_host_port_examples:
  "split_host_port ''10.1.2.3:55'' = Some ''10.1.2.3''"
  "split_host_port ''[::1]:55'' = Some ''::1''"
  "split_host_port ''::1:55'' = None"
  "split_host_port ''pipe'' = None"
  by code_simp+

text \<open>A time range over midnight is empty: its job never runs.\<close>

lemma range_over_midnight_never_runs:
  assumes "\<forall>j\<in>set js. snd (time_range j) \<le> fst (time_range j)"
  shows "run_jobs day exists start hour bind_address js w = (w, [])"
  using assms
proof (induction js)
  case (Cons j js)
  have "hour w < fst (time_range j) \<or> snd (time_range j) \<le> hour w" using Cons.prems by force
  then show ?case using Cons by simp
qed simp

lemma run_job_outfile:
  assumes ex: "\<And>out a w. exists w out \<Longrightarrow> exists (start a w) out"
    and made: "\<And>w w' out a. run_job day exists start bind_address j w = (w', [(out, a)]) \<Longrightarrow> exists w' out"
    and run: "run_job day exists start bind_address j w = (w', r)"
  shows "(\<forall>x\<in>set r. \<not> exists w (fst x) \<and> exists w' (fst x)) \<and> distinct (map fst r) \<and> (\<forall>out. exists w out \<longrightarrow> exists w' out)"
proof (cases "exists w (fill_dates (day w) (job_outfile j))")
  case True
  then show ?thesis using run by (simp add: run_job_def Let_def)
next
  case False
  obtain a where a: "r = [(fill_dates (day w) (job_outfile j), a)]" "w' = start a w"
    using run False by (auto simp: run_job_def Let_def)
  show ?thesis using made[OF run[unfolded a(1)]] False ex by (simp add: a)
qed

text \<open>
  A scheduled job writes a file that is not there: no job is started whose outfile exists,
  whatever the run of another job left behind, and in one round no two jobs are started for the
  same outfile, as long as a run writes its outfile and removes none.
\<close>

theorem scheduled_outfiles_fresh:
  assumes ex: "\<And>out a w. exists w out \<Longrightarrow> exists (start a w) out"
    and made: "\<And>j w w' out a. j \<in> set js \<Longrightarrow> run_job day exists start bind_address j w = (w', [(out, a)]) \<Longrightarrow> exists w' out"
    and run: "run_jobs day exists start hour bind_address js w = (w', r)"
  shows "(\<forall>x\<in>set r. \<not> exists w (fst x) \<and> exists w' (fst x)) \<and> distinct (map fst r) \<and> (\<forall>out. exists w out \<longrightarrow> exists w' out)"
  using run made
proof (induction js arbitrary: w r)
  case (Cons j js)
  have made_j: "\<And>w w' out a. run_job day exists start bind_address j w = (w', [(out, a)]) \<Longrightarrow> exists w' out"
    and made_js: "\<And>j w w' out a. j \<in> set js \<Longrightarrow> run_job day exists start bind_address j w = (w', [(out, a)]) \<Longrightarrow> exists w' out"
    using Cons.prems(2) by (meson list.set_intros)+
  show ?case
  proof (cases "\<not> job_enabled j \<or> hour w < fst (time_range j) \<or> snd (time_range j) \<le> hour w")
    case True
    then have e: "run_jobs day exists start hour bind_address (j # js) w = run_jobs day exists start hour bind_address js w"
      by auto
    have "run_jobs day exists start hour bind_address js w = (w', r)" using Cons.prems(1) unfolding e .
    from Cons.IH[OF this made_js] show ?thesis .
  next
    case False
    obtain w1 r1 where 1: "run_job day exists start bind_address j w = (w1, r1)" by fastforce
    obtain w2 r2 where 2: "run_jobs day exists start hour bind_address js w1 = (w2, r2)" by fastforce
    have "run_jobs day exists start hour bind_address (j # js) w = (w2, r1 @ r2)" using False by (simp add: 1 2)
    then have 3: "w2 = w'" "r = r1 @ r2" using Cons.prems(1) by simp_all
    note 2 = 2[unfolded 3(1)] 3(2)
    have i: "(\<forall>x\<in>set r2. \<not> exists w1 (fst x) \<and> exists w' (fst x)) \<and> distinct (map fst r2) \<and> (\<forall>out. exists w1 out \<longrightarrow> exists w' out)"
      using Cons.IH[OF 2(1) made_js] .
    have o: "(\<forall>x\<in>set r1. \<not> exists w (fst x) \<and> exists w1 (fst x)) \<and> distinct (map fst r1) \<and> (\<forall>out. exists w out \<longrightarrow> exists w1 out)"
      using run_job_outfile[OF ex made_j 1] .
    have kept: "exists w' x" if "exists w x \<or> exists w1 x" for x using i o that by blast
    have new: "\<not> exists w (fst x) \<and> exists w' (fst x)" if "x \<in> set r1 \<or> x \<in> set r2" for x
    proof (cases "x \<in> set r1")
      case False
      then have "\<not> exists w1 (fst x)" "exists w' (fst x)" using i that by blast+
      then show ?thesis using o by blast
    qed (use o kept in blast)
    have "fst ` set r1 \<inter> fst ` set r2 = {}"
    proof (rule ccontr)
      assume "fst ` set r1 \<inter> fst ` set r2 \<noteq> {}"
      then obtain x y where "x \<in> set r1" "y \<in> set r2" "fst x = fst y" by blast
      then show False using i o by metis
    qed
    then have "distinct (map fst r)" using i o by (simp add: 2(2))
    then show ?thesis using new kept by (simp add: 2(2))
  qed
qed simp

definition sample_job :: "gostr \<Rightarrow> job" where
  "sample_job name = \<lparr>job_name = name, job_enabled = True, job_files = ''/log/a'', job_query = ''q'', job_outfile = ''/out'', job_discovery = [],
    job_server_list = [], allow_from = [], time_range = (0, 24)\<rparr>"

text \<open>The files of the world are a set, and a run adds what follows the query text \<open>q outfile\<close>.\<close>

lemma contains_set: "contains s d \<Longrightarrow> set d \<subseteq> set s"
  by (auto simp: contains_def sublist_def)

lemma fill_dates_plain: "fill_dates day ''/out'' = ''/out''" "fill_dates day ''/log/a'' = ''/log/a''"
proof -
  have "split d ''/out'' = [''/out'']" "split d ''/log/a'' = [''/log/a'']" if "CHR ''$'' \<in> set d" for d
  proof -
    have "\<not> contains ''/out'' d" "\<not> contains ''/log/a'' d" using that contains_set by fastforce+
    then show "split d ''/out'' = [''/out'']" "split d ''/log/a'' = [''/log/a'']" by (simp_all add: split_None)
  qed
  then show "fill_dates day ''/out'' = ''/out''" "fill_dates day ''/log/a'' = ''/log/a''"
    by (simp_all add: fill_dates_def replace_all_def Let_def)
qed

lemma scheduled_outfiles_fresh_witness:
  "distinct (map fst (snd (run_jobs (\<lambda>w n. []) (\<lambda>w f. f \<in> w) (\<lambda>a w. insert (drop 10 (ja_query a)) w) (\<lambda>w. 3) ''h''
     [sample_job ''a'', sample_job ''b''] {}))) \<and>
   length (snd (run_jobs (\<lambda>w n. []) (\<lambda>w f. f \<in> w) (\<lambda>a w. insert (drop 10 (ja_query a)) w) (\<lambda>w. 3) ''h''
     [sample_job ''a'', sample_job ''b''] {})) = 1"
proof -
  let ?run = "run_jobs (\<lambda>w n. []) (\<lambda>w f. f \<in> w) (\<lambda>a w. insert (drop 10 (ja_query a)) w) (\<lambda>w. 3) ''h''"
  have e: "run_job (\<lambda>w n. []) (\<lambda>w f. f \<in> w) (\<lambda>a w. insert (drop 10 (ja_query a)) w) ''h'' (sample_job n) w =
      (if ''/out'' \<in> w then (w, []) else
        (insert ''/out'' w, [(''/out'', \<lparr>ja_discovery = [], ja_servers = ''h'', ja_what = ''/log/a'', ja_tail = False,
           ja_user = schedule_user, ja_secret = n, ja_query = ''q outfile /out''\<rparr>)]))" for n w
    by (simp add: run_job_def sample_job_def fill_dates_plain Let_def job_servers_def)
  have en: "job_enabled (sample_job n)" "time_range (sample_job n) = (0, 24)" for n by (simp_all add: sample_job_def)
  obtain w' r where r: "?run [sample_job ''a'', sample_job ''b''] {} = (w', r)" by fastforce
  have made: "out \<in> w'" if j: "j \<in> set [sample_job ''a'', sample_job ''b'']"
    and run: "run_job (\<lambda>w n. []) (\<lambda>w f. f \<in> w) (\<lambda>a w. insert (drop 10 (ja_query a)) w) ''h'' j w = (w', [(out, a)])" for j w w' out a
  proof -
    obtain n where n: "j = sample_job n" using j by auto
    show ?thesis using run unfolding n e by (auto split: if_splits)
  qed
  have "distinct (map fst r)" using scheduled_outfiles_fresh[OF _ made r] by simp
  moreover have "length r = 1" using r[symmetric] by (simp add: e en)
  ultimately show ?thesis by (simp only: r snd_conv simp_thms)
qed

end
