(* ===== verification/Auth_Keys.thy ===== *)
theory Auth_Keys
  imports Server_Auth
begin

text \<open>
  Public key authentication: the in-memory cache of keys for fast reconnects
  (\<open>internal/ssh/server/authkeystore.go\<close>) and the callback that consults it before the authorized
  keys file of the user (\<open>publickeycallback.go\<close>). A key is its marshalled form, a time is a number
  of nanoseconds. The store is shown to refine a cache that never removes expired keys, so the
  pruning in every operation cannot be observed.
\<close>

subsection \<open>The store\<close>

record auth_key_entry =
  pub_key :: gostr
  registered_at :: int

record auth_key_store =
  keys_by_user :: "(gostr, auth_key_entry list) gomap"
  ttl :: int
  max_keys_per_user :: int

definition default_auth_key_ttl :: int where
  "default_auth_key_ttl = 24 * 3600 * 1000000000"

definition new_auth_key_store :: "int \<Rightarrow> int \<Rightarrow> auth_key_store" where
  "new_auth_key_store t m =
     \<lparr>keys_by_user = [], ttl = (if t \<le> 0 then default_auth_key_ttl else t), max_keys_per_user = (if m \<le> 0 then 5 else m)\<rparr>"

definition expired :: "auth_key_store \<Rightarrow> auth_key_entry \<Rightarrow> int \<Rightarrow> bool" where
  "expired s e now = (\<not> now < registered_at e + ttl s)"

definition prune_expired :: "gostr \<Rightarrow> int \<Rightarrow> auth_key_store \<Rightarrow> auth_key_store \<times> auth_key_entry list" where
  "prune_expired user now s =
     (case map_of (keys_by_user s) user of
        None \<Rightarrow> (s\<lparr>keys_by_user := AList.delete user (keys_by_user s)\<rparr>, [])
      | Some es \<Rightarrow>
          if es = [] then (s\<lparr>keys_by_user := AList.delete user (keys_by_user s)\<rparr>, [])
          else if \<not> list_ex (\<lambda>e. expired s e now) es then (s, es)
          else
            (let active = filter (\<lambda>e. \<not> expired s e now) es in
             if active = [] then (s\<lparr>keys_by_user := AList.delete user (keys_by_user s)\<rparr>, [])
             else (s\<lparr>keys_by_user := AList.update user active (keys_by_user s)\<rparr>, active)))"

definition add_key :: "gostr \<Rightarrow> gostr option \<Rightarrow> int \<Rightarrow> auth_key_store \<Rightarrow> auth_key_store" where
  "add_key user key now s =
     (case key of
        None \<Rightarrow> s
      | Some k \<Rightarrow>
          if user = [] then s
          else (case prune_expired user now s of
            (s1, es) \<Rightarrow>
              (let new = filter (\<lambda>e. pub_key e \<noteq> k) es @ [\<lparr>pub_key = k, registered_at = now\<rparr>];
                   new = (if max_keys_per_user s1 < int (length new)
                          then drop (length new - nat (max_keys_per_user s1)) new else new) in
               s1\<lparr>keys_by_user := AList.update user new (keys_by_user s1)\<rparr>)))"

definition has_key :: "gostr \<Rightarrow> gostr option \<Rightarrow> int \<Rightarrow> auth_key_store \<Rightarrow> auth_key_store \<times> bool" where
  "has_key user key now s =
     (case key of
        None \<Rightarrow> (s, False)
      | Some k \<Rightarrow>
          if user = [] then (s, False)
          else (case prune_expired user now s of (s1, es) \<Rightarrow> (s1, list_ex (\<lambda>e. pub_key e = k) es)))"

definition remove_key :: "gostr \<Rightarrow> gostr option \<Rightarrow> int \<Rightarrow> auth_key_store \<Rightarrow> auth_key_store" where
  "remove_key user key now s =
     (case key of
        None \<Rightarrow> s
      | Some k \<Rightarrow>
          if user = [] then s
          else (case prune_expired user now s of
            (s1, es) \<Rightarrow>
              if es = [] then s1
              else
                (let remaining = filter (\<lambda>e. pub_key e \<noteq> k) es in
                 if remaining = [] then s1\<lparr>keys_by_user := AList.delete user (keys_by_user s1)\<rparr>
                 else s1\<lparr>keys_by_user := AList.update user remaining (keys_by_user s1)\<rparr>)))"

datatype key_op = AddKey gostr "gostr option" | HasKey gostr "gostr option" | RemoveKey gostr "gostr option"

text \<open>A run of timed operations, with the answers of its queries.\<close>

fun run_ops :: "(int \<times> key_op) list \<Rightarrow> auth_key_store \<Rightarrow> auth_key_store \<times> bool list" where
  "run_ops [] s = (s, [])"
| "run_ops ((now, AddKey u k) # ops) s = run_ops ops (add_key u k now s)"
| "run_ops ((now, RemoveKey u k) # ops) s = run_ops ops (remove_key u k now s)"
| "run_ops ((now, HasKey u k) # ops) s =
     (case has_key u k now s of (s1, b) \<Rightarrow> (case run_ops ops s1 of (s2, bs) \<Rightarrow> (s2, b # bs)))"

subsection \<open>The specification: a cache that never prunes\<close>

text \<open>
  Each user has a list of keys with the time of their last registration. Registering a key moves
  it to the end and drops the oldest keys beyond the limit; expiry matters to a query only.
\<close>

definition last_n :: "nat \<Rightarrow> 'a list \<Rightarrow> 'a list" where
  "last_n n xs = drop (length xs - n) xs"

type_synonym key_spec = "gostr \<Rightarrow> auth_key_entry list"

fun spec_add :: "nat \<Rightarrow> gostr \<Rightarrow> gostr option \<Rightarrow> int \<Rightarrow> key_spec \<Rightarrow> key_spec" where
  "spec_add m u (Some k) now f =
     (if u = [] then f
      else f(u := last_n m (filter (\<lambda>e. pub_key e \<noteq> k) (f u) @ [\<lparr>pub_key = k, registered_at = now\<rparr>])))"
| "spec_add m u None now f = f"

fun spec_remove :: "gostr \<Rightarrow> gostr option \<Rightarrow> key_spec \<Rightarrow> key_spec" where
  "spec_remove u (Some k) f = (if u = [] then f else f(u := filter (\<lambda>e. pub_key e \<noteq> k) (f u)))"
| "spec_remove u None f = f"

fun spec_has :: "int \<Rightarrow> gostr \<Rightarrow> gostr option \<Rightarrow> int \<Rightarrow> key_spec \<Rightarrow> bool" where
  "spec_has t u (Some k) now f \<longleftrightarrow> u \<noteq> [] \<and> (\<exists>e\<in>set (f u). pub_key e = k \<and> now < registered_at e + t)"
| "spec_has t u None now f \<longleftrightarrow> False"

fun spec_run :: "nat \<Rightarrow> int \<Rightarrow> (int \<times> key_op) list \<Rightarrow> key_spec \<Rightarrow> bool list" where
  "spec_run m t [] f = []"
| "spec_run m t ((now, AddKey u k) # ops) f = spec_run m t ops (spec_add m u k now f)"
| "spec_run m t ((now, RemoveKey u k) # ops) f = spec_run m t ops (spec_remove u k f)"
| "spec_run m t ((now, HasKey u k) # ops) f = spec_has t u k now f # spec_run m t ops f"

subsection \<open>The refinement\<close>

definition keys_of :: "auth_key_store \<Rightarrow> gostr \<Rightarrow> auth_key_entry list" where
  "keys_of s u = (case map_of (keys_by_user s) u of None \<Rightarrow> [] | Some es \<Rightarrow> es)"

abbreviation alive :: "int \<Rightarrow> int \<Rightarrow> auth_key_entry \<Rightarrow> bool" where
  "alive t now e \<equiv> now < registered_at e + t"

lemma keys_of_update [simp]: "keys_of (s\<lparr>keys_by_user := AList.update u es (keys_by_user s)\<rparr>) v = (if v = u then es else keys_of s v)"
  by (simp add: keys_of_def)

lemma keys_of_delete [simp]: "keys_of (s\<lparr>keys_by_user := AList.delete u (keys_by_user s)\<rparr>) v = (if v = u then [] else keys_of s v)"
  by (simp add: keys_of_def delete_conv')

lemma prune_expired_spec:
  assumes "prune_expired u now s = (s1, es)"
  shows "es = filter (alive (ttl s) now) (keys_of s u) \<and> ttl s1 = ttl s \<and> max_keys_per_user s1 = max_keys_per_user s \<and>
    (\<forall>v. keys_of s1 v = (if v = u then es else keys_of s v))"
proof (cases "map_of (keys_by_user s) u")
  case None
  then show ?thesis using assms by (auto simp: prune_expired_def) (auto simp: keys_of_def)
next
  case (Some xs)
  have k: "keys_of s u = xs" using Some by (simp add: keys_of_def)
  have f: "filter (\<lambda>e. \<not> expired s e now) xs = filter (alive (ttl s) now) xs" by (simp add: expired_def)
  show ?thesis
  proof (cases "list_ex (\<lambda>e. expired s e now) xs")
    case True
    then have "xs \<noteq> []" by auto
    then show ?thesis using assms Some True k f by (auto simp: prune_expired_def Let_def split: if_splits)
  next
    case False
    then have "filter (alive (ttl s) now) xs = xs" by (auto simp: list_ex_iff expired_def)
    then show ?thesis using assms Some False k
      by (cases "xs = []") (auto simp: prune_expired_def)
  qed
qed

lemma set_last_n: "set (last_n m xs) \<subseteq> set xs"
  by (simp add: last_n_def set_drop_subset)

lemma last_n_filter:
  assumes "sorted (map registered_at xs)"
  shows "filter (alive t now) (last_n m xs) = last_n m (filter (alive t now) xs)"
  using assms
proof (induction xs)
  case (Cons x xs)
  show ?case
  proof (cases "alive t now x")
    case True
    then have all: "\<forall>e\<in>set (x # xs). alive t now e" using Cons.prems by auto
    have "filter (alive t now) (x # xs) = x # xs" by (rule filter_True[OF all])
    moreover have "filter (alive t now) (last_n m (x # xs)) = last_n m (x # xs)"
      by (rule filter_True) (use all set_last_n[of m "x # xs"] in blast)
    ultimately show ?thesis by metis
  next
    case False
    show ?thesis
    proof (cases "length xs < m")
      case True
      have "length (filter (alive t now) (x # xs)) \<le> m"
        using True False length_filter_le[of "alive t now" xs] by (simp del: length_filter_le)
      then show ?thesis using True by (simp add: last_n_def)
    next
      case long: False
      then have "last_n m (x # xs) = last_n m xs" by (simp add: last_n_def Suc_diff_le)
      then show ?thesis using Cons False by simp
    qed
  qed
qed (simp add: last_n_def)

lemma filter_later:
  "T \<le> now \<Longrightarrow> filter (alive t T) xs = filter (alive t T) ys \<Longrightarrow> filter (alive t now) xs = filter (alive t now) ys"
proof -
  assume "T \<le> now" and e: "filter (alive t T) xs = filter (alive t T) ys"
  then have "filter (alive t now) zs = filter (alive t now) (filter (alive t T) zs)" for zs
    unfolding filter_filter by (intro filter_cong) auto
  then show ?thesis using e by metis
qed

definition key_rel :: "nat \<Rightarrow> int \<Rightarrow> int \<Rightarrow> auth_key_store \<Rightarrow> key_spec \<Rightarrow> bool" where
  "key_rel m t T s f \<longleftrightarrow>
     ttl s = t \<and> max_keys_per_user s = int m \<and>
     (\<forall>u. filter (alive t T) (keys_of s u) = filter (alive t T) (f u) \<and>
        sorted (map registered_at (f u)) \<and> (\<forall>e\<in>set (f u). registered_at e \<le> T))"

lemma key_rel_mono: "T \<le> now \<Longrightarrow> key_rel m t T s f \<Longrightarrow> key_rel m t now s f"
proof -
  assume le: "T \<le> now" and r: "key_rel m t T s f"
  then have "\<forall>u. filter (alive t now) (keys_of s u) = filter (alive t now) (f u)"
    unfolding key_rel_def by (intro allI filter_later[OF le]) blast
  moreover have "\<forall>u. \<forall>e\<in>set (f u). registered_at e \<le> now" using r le unfolding key_rel_def by (meson order_trans)
  ultimately show ?thesis using r unfolding key_rel_def by blast
qed

lemma sorted_last_n: "sorted (map registered_at xs) \<Longrightarrow> sorted (map registered_at (last_n m xs))"
  by (simp add: last_n_def drop_map[symmetric] sorted_wrt_drop)

lemma sorted_filter_keys: "sorted (map registered_at xs) \<Longrightarrow> sorted (map registered_at (filter P xs))"
  by (induction xs) auto

lemma add_key_rel:
  assumes "0 < t" and r: "key_rel m t now s f"
  shows "key_rel m t now (add_key u k now s) (spec_add m u k now f)"
proof (cases "k = None \<or> u = []")
  case True
  then show ?thesis using r by (auto simp: add_key_def split: option.splits)
next
  case False
  then obtain key where k: "k = Some key" by auto
  obtain s1 es where p: "prune_expired u now s = (s1, es)" by fastforce
  note q = prune_expired_spec[OF p]
  let ?n = "\<lparr>pub_key = key, registered_at = now\<rparr>"
  let ?new = "filter (\<lambda>e. pub_key e \<noteq> key) es @ [?n]"
  let ?spec = "filter (\<lambda>e. pub_key e \<noteq> key) (f u) @ [?n]"
  have es: "es = filter (alive t now) (f u)" using q r by (simp add: key_rel_def)
  have m: "max_keys_per_user s1 = int m" using q r by (simp add: key_rel_def)
  have cap: "(if max_keys_per_user s1 < int (length ?new) then drop (length ?new - nat (max_keys_per_user s1)) ?new else ?new)
      = last_n m ?new"
    by (simp add: m last_n_def)
  have new: "?new = filter (alive t now) ?spec"
    using assms(1) by (simp add: es filter_filter conj_commute)
  have sp: "sorted (map registered_at ?spec)"
    using r sorted_filter_keys[of "f u" "\<lambda>e. pub_key e \<noteq> key"] by (auto simp: key_rel_def sorted_append)
  have eq: "filter (alive t now) (last_n m ?new) = filter (alive t now) (last_n m ?spec)"
  proof -
    have "filter (alive t now) (last_n m ?new) = last_n m ?new"
      by (rule filter_True) (use set_last_n[of m ?new] new es assms(1) in auto)
    then show ?thesis using last_n_filter[OF sp, where t = t and now = now and m = m] by (simp only: new)
  qed
  have c: "add_key u k now s = s1\<lparr>keys_by_user := AList.update u (last_n m ?new) (keys_by_user s1)\<rparr>"
    using False cap by (simp add: add_key_def k p Let_def)
  have a: "spec_add m u k now f = f(u := last_n m ?spec)" using False by (simp add: k)
  have le: "\<forall>e\<in>set (last_n m ?spec). registered_at e \<le> now"
    using set_last_n[of m ?spec] r by (fastforce simp: key_rel_def)
  show ?thesis unfolding c a using q r eq le sorted_last_n[OF sp] by (simp add: key_rel_def)
qed

lemma has_key_rel:
  assumes r: "key_rel m t now s f" and h: "has_key u k now s = (s1, b)"
  shows "key_rel m t now s1 f \<and> b = spec_has t u k now f"
proof (cases "k = None \<or> u = []")
  case True
  then show ?thesis using r h by (auto simp: has_key_def split: option.splits)
next
  case False
  then obtain key where k: "k = Some key" by auto
  obtain s2 es where p: "prune_expired u now s = (s2, es)" by fastforce
  note q = prune_expired_spec[OF p]
  have es: "es = filter (alive t now) (f u)" using q r by (simp add: key_rel_def)
  have "s1 = s2" "b = list_ex (\<lambda>e. pub_key e = key) es" using h False by (simp_all add: has_key_def k p)
  then show ?thesis using q r False by (auto simp: key_rel_def k es list_ex_iff)
qed

lemma remove_key_rel:
  assumes r: "key_rel m t now s f"
  shows "key_rel m t now (remove_key u k now s) (spec_remove u k f)"
proof (cases "k = None \<or> u = []")
  case True
  then show ?thesis using r by (auto simp: remove_key_def split: option.splits)
next
  case False
  then obtain key where k: "k = Some key" by auto
  obtain s1 es where p: "prune_expired u now s = (s1, es)" by fastforce
  note q = prune_expired_spec[OF p]
  let ?P = "\<lambda>e. pub_key e \<noteq> key"
  have es: "es = filter (alive t now) (f u)" using q r by (simp add: key_rel_def)
  have c: "keys_of (remove_key u k now s) v = (if v = u then filter ?P es else keys_of s v)" for v
  proof (cases "es = []")
    case True
    then have "remove_key u k now s = s1" using False by (simp add: remove_key_def k p)
    then show ?thesis using q True by simp
  next
    case ne: False
    have "keys_of s1 w = (if w = u then es else keys_of s w)" for w using q by blast
    then show ?thesis using False ne by (simp add: remove_key_def k p Let_def)
  qed
  have tm: "ttl (remove_key u k now s) = t \<and> max_keys_per_user (remove_key u k now s) = int m"
    using False q r by (auto simp: remove_key_def k p Let_def key_rel_def)
  have "filter (alive t now) (filter ?P es) = filter (alive t now) (filter ?P (f u))"
    by (auto simp: es filter_filter intro!: filter_cong)
  then show ?thesis using r c tm False by (auto simp: key_rel_def k sorted_filter_keys)
qed

text \<open>
  C18: As long as the clock does not run backwards, the store answers as a cache that never prunes
  anything: a query finds a key exactly when it is among the last keys registered for the user
  that were not removed, and its last registration is younger than the time to live.
\<close>

theorem key_store_refines:
  assumes "sorted (T # map fst ops)"
  shows "snd (run_ops ops (new_auth_key_store t m)) =
    spec_run (nat (max_keys_per_user (new_auth_key_store t m))) (ttl (new_auth_key_store t m)) ops (\<lambda>u. [])"
proof -
  let ?s = "new_auth_key_store t m"
  have t: "0 < ttl ?s" by (simp add: new_auth_key_store_def default_auth_key_ttl_def)
  have "snd (run_ops ops s) = spec_run M (ttl ?s) ops f" if "key_rel M (ttl ?s) T s f" "sorted (T # map fst ops)" for M s f T
    using that
  proof (induction ops arbitrary: s f T)
    case (Cons x ops)
    obtain now op where x: "x = (now, op)" by (cases x)
    have le: "T \<le> now" and srt: "sorted (now # map fst ops)" using Cons.prems(2) x by auto
    have r: "key_rel M (ttl ?s) now s f" using key_rel_mono[OF le Cons.prems(1)] .
    show ?case
    proof (cases op)
      case (AddKey u k)
      then show ?thesis using Cons.IH[OF add_key_rel[OF t r] srt] by (simp add: x)
    next
      case (RemoveKey u k)
      then show ?thesis using Cons.IH[OF remove_key_rel[OF r] srt] by (simp add: x)
    next
      case (HasKey u k)
      obtain s1 b where h: "has_key u k now s = (s1, b)" by fastforce
      obtain s2 bs where o: "run_ops ops s1 = (s2, bs)" by fastforce
      have "bs = spec_run M (ttl ?s) ops f" using Cons.IH[OF _ srt, of s1 f] has_key_rel[OF r h] o by simp
      then show ?thesis using has_key_rel[OF r h] HasKey by (simp add: x h o)
    qed
  qed simp
  moreover have "key_rel (nat (max_keys_per_user ?s)) (ttl ?s) T ?s (\<lambda>u. [])"
    by (simp add: key_rel_def keys_of_def new_auth_key_store_def)
  ultimately show ?thesis using assms by blast
qed

lemma key_store_refines_witness:
  "snd (run_ops [(1, AddKey ''u'' (Some ''a'')), (2, AddKey ''u'' (Some ''b'')), (3, HasKey ''u'' (Some ''a'')),
      (4, AddKey ''u'' (Some ''c'')), (5, HasKey ''u'' (Some ''a'')), (13, HasKey ''u'' (Some ''c'')), (14, HasKey ''u'' (Some ''c''))]
      (new_auth_key_store 10 2)) = [True, False, True, False]"
  by (subst key_store_refines[of 0]) (simp_all add: new_auth_key_store_def last_n_def)

subsection \<open>The authorized keys file\<close>

text \<open>\<open>filepath.Join\<close>.\<close>

definition join_path :: "gostr list \<Rightarrow> gostr" where
  "join_path es = (let es = filter (\<lambda>e. e \<noteq> []) es in if es = [] then [] else clean (join slash es))"

datatype stat_result = StatOk | StatMissing | StatFailed

datatype keys_error = PathError path_error | UnknownUser | StatError | NoKeysFile | ReadError | KeyNotAuthorized

definition cache_path :: "gostr \<Rightarrow> gostr \<Rightarrow> gostr \<Rightarrow> gostr" where
  "cache_path name cache_dir cwd =
     join_path [if is_abs cache_dir then cache_dir else join_path [cwd, cache_dir], name @ ''.authorized_keys'']"

definition find_authorized_keys_path :: "(rooted_path \<Rightarrow> stat_result) \<Rightarrow> (gostr \<Rightarrow> gostr option) \<Rightarrow> gostr \<Rightarrow> gostr \<Rightarrow> gostr \<Rightarrow>
    keys_error + rooted_path" where
  "find_authorized_keys_path stat home_of name cache_dir cwd =
     (let regular =
        (case home_of name of
           None \<Rightarrow> Inl UnknownUser
         | Some home \<Rightarrow>
             (case new_rooted_path (join_path [home, ''.ssh'', ''authorized_keys'']) of
                Inl e \<Rightarrow> Inl (PathError e)
              | Inr p \<Rightarrow>
                  (case stat p of StatOk \<Rightarrow> Inr p | StatMissing \<Rightarrow> Inl NoKeysFile | StatFailed \<Rightarrow> Inl StatError))) in
      if cache_dir \<noteq> [] then
        (case new_rooted_path (cache_path name cache_dir cwd) of
           Inl e \<Rightarrow> Inl (PathError e)
         | Inr p \<Rightarrow> if stat p = StatOk then Inr p else regular)
      else regular)"

definition advance_to_next_line :: "gostr \<Rightarrow> gostr option" where
  "advance_to_next_line bytes =
     (if CHR 0x0A \<in> set bytes then Some (tl (dropWhile (\<lambda>c. c \<noteq> CHR 0x0A) bytes)) else None)"

text \<open>
  The loop over the file. \<open>parse\<close> is \<open>gossh.ParseAuthorizedKey\<close>: the first key of the bytes and the
  rest, or an error. The loop ends because the rest is shorter, which is a property of that
  parser, so the loop is partial here.
\<close>

partial_function (option) authorized_keys :: "(gostr \<Rightarrow> (gostr \<times> gostr) option) \<Rightarrow> gostr set \<Rightarrow> gostr \<Rightarrow> gostr set option" where
  "authorized_keys parse keys bytes =
     (if bytes = [] then Some keys
      else case parse bytes of
          None \<Rightarrow>
            (case advance_to_next_line bytes of None \<Rightarrow> Some keys | Some rest \<Rightarrow> authorized_keys parse keys rest)
        | Some (k, rest) \<Rightarrow> authorized_keys parse (insert k keys) rest)"

definition verify_authorized_keys :: "(gostr \<Rightarrow> (gostr \<times> gostr) option) \<Rightarrow> gostr \<Rightarrow> gostr \<Rightarrow> (keys_error + unit) option" where
  "verify_authorized_keys parse bytes offered =
     map_option (\<lambda>keys. if offered \<in> keys then Inr () else Inl KeyNotAuthorized) (authorized_keys parse {} bytes)"

definition public_key_callback :: "(gostr \<Rightarrow> (gostr \<times> gostr) option) \<Rightarrow> (rooted_path \<Rightarrow> stat_result) \<Rightarrow> (gostr \<Rightarrow> gostr option) \<Rightarrow>
    (rooted_path \<Rightarrow> gostr option) \<Rightarrow> bool \<Rightarrow> gostr \<Rightarrow> gostr \<Rightarrow> int \<Rightarrow> gostr \<Rightarrow> gostr \<Rightarrow> auth_key_store \<Rightarrow>
    auth_key_store \<times> (keys_error + unit) option" where
  "public_key_callback parse stat home_of read_file use_cache cache_dir cwd now name offered store =
     (case (if use_cache then has_key name (Some offered) now store else (store, False)) of
        (store1, True) \<Rightarrow> (store1, Some (Inr ()))
      | (store1, False) \<Rightarrow>
          (store1,
           case find_authorized_keys_path stat home_of name cache_dir cwd of
             Inl e \<Rightarrow> Some (Inl e)
           | Inr p \<Rightarrow> (case read_file p of None \<Rightarrow> Some (Inl ReadError) | Some bytes \<Rightarrow> verify_authorized_keys parse bytes offered)))"

lemma advance_shorter: "advance_to_next_line bytes = Some rest \<Longrightarrow> length rest < length bytes"
proof -
  assume "advance_to_next_line bytes = Some rest"
  then have n: "CHR 0x0A \<in> set bytes" and r: "rest = tl (dropWhile (\<lambda>c. c \<noteq> CHR 0x0A) bytes)"
    by (auto simp: advance_to_next_line_def split: if_splits)
  have "dropWhile (\<lambda>c. c \<noteq> CHR 0x0A) bytes \<noteq> []" using n by (auto simp: dropWhile_eq_Nil_conv)
  then have "length rest < length (dropWhile (\<lambda>c. c \<noteq> CHR 0x0A) bytes)" by (simp add: r)
  then show ?thesis using length_dropWhile_le[of "\<lambda>c. c \<noteq> CHR 0x0A" bytes] by linarith
qed

text \<open>The keys that the parser finds, one after the other, as an inductive set.\<close>

inductive listed :: "(gostr \<Rightarrow> (gostr \<times> gostr) option) \<Rightarrow> gostr \<Rightarrow> gostr \<Rightarrow> bool" for parse where
  here: "bytes \<noteq> [] \<Longrightarrow> parse bytes = Some (k, rest) \<Longrightarrow> listed parse bytes k"
| later: "bytes \<noteq> [] \<Longrightarrow> parse bytes = Some (k', rest) \<Longrightarrow> listed parse rest k \<Longrightarrow> listed parse bytes k"
| skipped: "bytes \<noteq> [] \<Longrightarrow> parse bytes = None \<Longrightarrow> advance_to_next_line bytes = Some rest \<Longrightarrow> listed parse rest k \<Longrightarrow>
    listed parse bytes k"

inductive_simps listed_simps: "listed parse bytes k"

definition listed_keys :: "(gostr \<Rightarrow> (gostr \<times> gostr) option) \<Rightarrow> gostr \<Rightarrow> gostr set" where
  "listed_keys parse bytes = {k. listed parse bytes k}"

lemma listed_keys_eqs:
  "listed_keys parse [] = {}"
  "bytes \<noteq> [] \<Longrightarrow> parse bytes = Some (k, rest) \<Longrightarrow> listed_keys parse bytes = insert k (listed_keys parse rest)"
  "bytes \<noteq> [] \<Longrightarrow> parse bytes = None \<Longrightarrow> advance_to_next_line bytes = None \<Longrightarrow> listed_keys parse bytes = {}"
  "bytes \<noteq> [] \<Longrightarrow> parse bytes = None \<Longrightarrow> advance_to_next_line bytes = Some rest \<Longrightarrow>
    listed_keys parse bytes = listed_keys parse rest"
  unfolding listed_keys_def by (auto simp: listed_simps[of parse bytes] listed_simps[of parse "[]"])

lemma authorized_keys_total:
  assumes "\<And>bytes k rest. parse bytes = Some (k, rest) \<Longrightarrow> length rest < length bytes"
  shows "authorized_keys parse keys bytes = Some (keys \<union> listed_keys parse bytes)"
proof (induction "length bytes" arbitrary: bytes keys rule: less_induct)
  case less
  show ?case
  proof (cases "bytes = []")
    case True
    then show ?thesis by (simp add: authorized_keys.simps[of parse keys "[]"] listed_keys_eqs)
  next
    case ne: False
    show ?thesis
    proof (cases "parse bytes")
      case None
      then show ?thesis using ne less[OF advance_shorter]
        by (cases "advance_to_next_line bytes") (simp_all add: authorized_keys.simps[of parse keys bytes] listed_keys_eqs)
    next
      case (Some p)
      obtain k rest where p: "parse bytes = Some (k, rest)" using Some by (cases p) auto
      then show ?thesis using ne less[OF assms[OF p]]
        by (simp add: authorized_keys.simps[of parse keys bytes] listed_keys_eqs)
    qed
  qed
qed


text \<open>A toy parser of one key per line, for the witness: an empty line or one with a hash mark is an error.\<close>

definition line_parser :: "gostr \<Rightarrow> (gostr \<times> gostr) option" where
  "line_parser bytes =
     (let l = takeWhile (\<lambda>c. c \<noteq> CHR 0x0A) bytes in
      if l = [] \<or> CHR ''#'' \<in> set l then None else Some (l, drop (length l + 1) bytes))"


text \<open>
  The name of the user becomes a part of the path without any check: a name with double dots
  leads to a file outside the cache directory.
\<close>

lemma cache_path_leaves_cache:
  "cache_path ''u'' ''/var/run/dserver/cache'' ''/'' = ''/var/run/dserver/cache/u.authorized_keys'' \<and>
   cache_path ''../../../../tmp/x'' ''/var/run/dserver/cache'' ''/'' = ''/tmp/x.authorized_keys''"
  by code_simp

end
