(* ===== verification/Server_Handler.thy ===== *)
theory Server_Handler
  imports Session_Spec Auth_Keys Map_Server
begin

text \<open>
  The handler of one client on the server (\<open>handlers/basehandler.go\<close>, \<open>serverhandler.go\<close>,
  \<open>sessioncommand.go\<close>): framing and decoding of the commands it receives, their dispatch, the
  session with its generations, and the shutdown when nothing is left to do. Channels are queues;
  what blocks on a full channel waits there, so a queue has no bound. A command that runs in a
  goroutine of its own is recorded as started, and its end is a later operation. A context is the
  chain of the numbers of the contexts it is derived from. Parameters are bundled in \<open>handler_env\<close>.
\<close>

subsection \<open>State\<close>

datatype handler_error =
    InvalidSessionCommand | InvalidGeneration | InvalidPayload | InvalidSpec | UnsupportedSessionMode
  | QueryNeedsMapOrTail | MissingQuery | AlreadyStarted | NotStarted | UnknownAction | EmptyCommand
  | BadTimeout gostr | TimeoutTooLong int | BadOptions option_error

text \<open>What is written to the log; the client gets the same text.\<close>

datatype handler_event =
    CodecFailed codec_error | DispatchFailed handler_error | UnknownCommand gostr "gostr list" | UnparsableAck "gostr list"
  | UnknownHealthCommand gostr "gostr list"

record 'r handler_env =
  he_registry :: parser_registry
  he_fqdn :: gostr
  he_tz :: gostr
  he_offset :: int
  he_log_format :: gostr
  he_auth_enabled :: bool
  he_parse_key :: "gostr \<Rightarrow> gostr option"
  he_json :: "gostr \<Rightarrow> spec option"
  he_compile :: "gostr \<Rightarrow> 'r option"
  he_log :: "handler_event \<Rightarrow> gostr"
  he_error_text :: "handler_error \<Rightarrow> gostr"
  he_query_text :: "query_error \<Rightarrow> gostr"
  he_accepts :: "gostr \<Rightarrow> bool"
  he_now :: int

record command_context =
  cc_chain :: "nat list"
  cc_cancels :: "nat list"
  cc_generation :: uint64
  cc_deadline :: "int option"

datatype started =
    StartedRead mode nat command_context lcontext "gostr list"
  | StartedMap command_context

record session_command_state =
  sc_active :: bool
  sc_generation :: uint64
  sc_spec :: spec
  sc_cancel :: "nat option"

record log_line =
  ll_content :: gostr
  ll_count :: uint64
  ll_transmitted_perc :: int
  ll_source :: gostr
  ll_generation :: uint64

record server_handler =
  h_hostname :: gostr
  h_user :: gostr
  h_done :: bool
  h_server_messages :: "gostr list"
  h_mapr_messages :: "gostr list"
  h_lines :: "log_line list"
  h_ack_close_received :: bool
  h_active_commands :: "32 word"
  h_pending_files :: "32 word"
  h_read_buf :: gostr
  h_write_buf :: gostr
  h_max_frame :: int
  h_options_read :: bool
  h_quiet :: bool
  h_plain :: bool
  h_serverless :: bool
  h_aggregate :: "server_aggregate option"
  h_session :: session_command_state
  h_store :: auth_key_store
  h_started :: "started list"
  h_cancelled :: "nat set"
  h_next_context :: nat
  h_closing :: bool
  h_blocked :: bool
  h_panicked :: bool

definition zero_session :: session_command_state where
  "zero_session = \<lparr>sc_active = False, sc_generation = 0, sc_spec = zero_spec, sc_cancel = None\<rparr>"

text \<open>\<open>send\<close> gives up once the handler is done.\<close>

definition send :: "gostr \<Rightarrow> server_handler \<Rightarrow> server_handler" where
  "send m h = (if h_done h then h else h\<lparr>h_server_messages := h_server_messages h @ [m]\<rparr>)"

definition sendln :: "gostr \<Rightarrow> server_handler \<Rightarrow> server_handler" where
  "sendln m h = send (m @ [CHR 0x0A]) h"

definition server_capabilities :: "bool \<Rightarrow> bool \<Rightarrow> gostr" where
  "server_capabilities linux journalctl_available =
     join '' '' ([capability_query_update] @ (if linux \<and> journalctl_available then [capability_journal] else []))"

definition new_server_handler :: "gostr \<Rightarrow> gostr \<Rightarrow> int \<Rightarrow> bool \<Rightarrow> bool \<Rightarrow> auth_key_store \<Rightarrow> server_handler" where
  "new_server_handler user fqdn max_frame linux journalctl_available store =
     send (hidden_capabilities_prefix @ server_capabilities linux journalctl_available)
       \<lparr>h_hostname = hd (split ''.'' fqdn), h_user = user, h_done = False, h_server_messages = [], h_mapr_messages = [], h_lines = [],
        h_ack_close_received = False, h_active_commands = 0, h_pending_files = 0, h_read_buf = [], h_write_buf = [],
        h_max_frame = max_frame, h_options_read = False, h_quiet = False, h_plain = False, h_serverless = False,
        h_aggregate = None, h_session = zero_session, h_store = store, h_started = [], h_cancelled = {}, h_next_context = 0,
        h_closing = False, h_blocked = False, h_panicked = False\<rparr>"

subsection \<open>Contexts\<close>

definition new_command_context :: "server_handler \<Rightarrow> nat \<times> server_handler" where
  "new_command_context h = (h_next_context h, h\<lparr>h_next_context := Suc (h_next_context h)\<rparr>)"

definition cancel_context :: "nat \<Rightarrow> server_handler \<Rightarrow> server_handler" where
  "cancel_context n h = h\<lparr>h_cancelled := insert n (h_cancelled h)\<rparr>"

definition cancel_command_context :: "command_context \<Rightarrow> server_handler \<Rightarrow> server_handler" where
  "cancel_command_context ctx h = h\<lparr>h_cancelled := set (cc_cancels ctx) \<union> h_cancelled h\<rparr>"

text \<open>A context is over when any context of its chain was cancelled, or when the handler is done.\<close>

definition context_over :: "server_handler \<Rightarrow> command_context \<Rightarrow> bool" where
  "context_over h ctx \<longleftrightarrow> h_done h \<or> set (cc_chain ctx) \<inter> h_cancelled h \<noteq> {}"

definition max_command_timeout_seconds :: int where
  "max_command_timeout_seconds = 24 * 60 * 60"

definition apply_command_timeout :: "command_context \<Rightarrow> gostr list \<Rightarrow> server_handler \<Rightarrow>
    handler_error + (command_context \<times> gostr list \<times> server_handler)" where
  "apply_command_timeout ctx args h =
     (if length args < 3 \<or> args ! 0 \<noteq> ''timeout'' then Inr (ctx, args, h)
      else case atoi (args ! 1) of
          (_, Some e) \<Rightarrow> Inl (BadTimeout (args ! 1))
        | (seconds, None) \<Rightarrow>
            if max_command_timeout_seconds < seconds then Inl (TimeoutTooLong seconds)
            else if seconds \<le> 0 then Inr (ctx, drop 2 args, h)
            else (case new_command_context h of
              (n, h1) \<Rightarrow>
                Inr (ctx\<lparr>cc_chain := n # cc_chain ctx, cc_cancels := n # cc_cancels ctx, cc_deadline := Some seconds\<rparr>,
                  drop 2 args, h1)))"

subsection \<open>Options and acknowledgements\<close>

definition handle_options :: "(gostr, gostr) gomap \<Rightarrow> server_handler \<Rightarrow> server_handler" where
  "handle_options options h =
     (if h_options_read h then h
      else h\<lparr>h_options_read := True,
             h_quiet := (h_quiet h \<or> map_of options ''quiet'' = Some ''true''),
             h_plain := (h_plain h \<or> map_of options ''plain'' = Some ''true''),
             h_serverless := (h_serverless h \<or> map_of options ''serverless'' = Some ''true'')\<rparr>)"

definition handle_ack_command :: "'r handler_env \<Rightarrow> gostr list \<Rightarrow> server_handler \<Rightarrow> server_handler" where
  "handle_ack_command env args h =
     (if length args < 3 then
        (if \<not> h_quiet h then sendln (he_log env (UnparsableAck args)) h else h)
      else if args ! 1 = ''close'' \<and> args ! 2 = ''connection'' then h\<lparr>h_ack_close_received := True\<rparr>
      else h)"

subsection \<open>Shutdown\<close>

definition syn_close :: gostr where
  "syn_close = ''.syn close connection''"

text \<open>
  \<open>shutdown\<close> up to its wait for the acknowledgement, and the rest of it: the wait ends with the
  acknowledgement, after five seconds, or when the handler is done. The shutdown of the aggregate
  comes first, and while that does not return the handler is blocked.
\<close>

definition begin_shutdown :: "'r handler_env \<Rightarrow> server_handler \<Rightarrow> server_handler" where
  "begin_shutdown env h =
     (case h_aggregate h of
        None \<Rightarrow> (send syn_close h)\<lparr>h_closing := True\<rparr>
      | Some a \<Rightarrow>
          (case Map_Server.shutdown (he_accepts env) a of
             None \<Rightarrow> h\<lparr>h_blocked := True\<rparr>
           | Some a' \<Rightarrow> (send syn_close (h\<lparr>h_aggregate := Some a'\<rparr>))\<lparr>h_closing := True\<rparr>))"

definition end_shutdown :: "bool \<Rightarrow> server_handler \<Rightarrow> server_handler" where
  "end_shutdown timed_out h =
     (if h_closing h \<and> (h_ack_close_received h \<or> timed_out \<or> h_done h) then h\<lparr>h_closing := False, h_done := True\<rparr> else h)"

definition should_shutdown_on_completion :: "gostr \<Rightarrow> bool" where
  "should_shutdown_on_completion name \<longleftrightarrow> \<not> (equal_fold name ''AUTHKEY'' \<or> equal_fold name ''SESSION'')"

definition command_finished :: "'r handler_env \<Rightarrow> gostr \<Rightarrow> command_context \<Rightarrow> server_handler \<Rightarrow> server_handler" where
  "command_finished env name ctx h =
     (let h1 = cancel_command_context ctx (h\<lparr>h_active_commands := h_active_commands h - 1\<rparr>) in
      if should_shutdown_on_completion name \<and> h_active_commands h1 = 0 \<and> h_pending_files h1 = 0 \<and> \<not> sc_active (h_session h1)
      then begin_shutdown env h1 else h1)"

subsection \<open>User commands\<close>

datatype command_kind = ReadCommand mode nat | MapCommand | AckCommand | AuthKeyCommand | SessionCommand

definition command_registry :: "(gostr \<times> command_kind) list" where
  "command_registry =
     [(''grep'', ReadCommand GrepClient 1), (''cat'', ReadCommand CatClient 1), (''tail'', ReadCommand TailClient 10),
      (''map'', MapCommand), (''.ack'', AckCommand), (''AUTHKEY'', AuthKeyCommand), (''SESSION'', SessionCommand),
      (''authkey'', AuthKeyCommand), (''session'', SessionCommand)]"

text \<open>
  An empty query makes \<open>NewAggregate\<close> dereference a nil pointer, which ends the whole server.
\<close>

definition handle_map_command :: "'r handler_env \<Rightarrow> gostr \<Rightarrow> command_context \<Rightarrow> gostr list \<Rightarrow> server_handler \<Rightarrow> server_handler" where
  "handle_map_command env name ctx args h =
     (case new_aggregate (he_registry env) (he_fqdn env) (he_tz env) (he_offset env) (join blank (tl args)) (he_log_format env) of
        Inl (QueryError e) \<Rightarrow> command_finished env name ctx (sendln (he_query_text env e) h)
      | Inl _ \<Rightarrow> h\<lparr>h_panicked := True\<rparr>
      | Inr a \<Rightarrow> h\<lparr>h_aggregate := Some a, h_started := h_started h @ [StartedMap ctx]\<rparr>)"

definition handle_auth_key_command :: "'r handler_env \<Rightarrow> gostr \<Rightarrow> command_context \<Rightarrow> gostr list \<Rightarrow> server_handler \<Rightarrow> server_handler" where
  "handle_auth_key_command env name ctx args h =
     command_finished env name ctx
       (if \<not> he_auth_enabled env then sendln ''AUTHKEY ERR feature disabled'' h
        else if length args < 2 \<or> trim_space (args ! 1) = [] then sendln ''AUTHKEY ERR missing public key'' h
        else case b64_decode (args ! 1) of
            None \<Rightarrow> sendln ''AUTHKEY ERR invalid base64'' h
          | Some bytes \<Rightarrow>
              (case he_parse_key env bytes of
                 None \<Rightarrow> sendln ''AUTHKEY ERR invalid public key'' h
               | Some k \<Rightarrow>
                   sendln ''AUTHKEY OK'' (h\<lparr>h_store := add_key (h_user h) (Some k) (he_now env) (h_store h)\<rparr>)))"

text \<open>\<open>session\<close> is the handler of the SESSION command, which itself dispatches commands.\<close>

type_synonym session_command = "command_context \<Rightarrow> gostr list \<Rightarrow> server_handler \<Rightarrow> server_handler"

definition handle_user_command :: "session_command \<Rightarrow> 'r handler_env \<Rightarrow> command_context \<Rightarrow> lcontext \<Rightarrow> gostr list \<Rightarrow> gostr \<Rightarrow>
    server_handler \<Rightarrow> server_handler" where
  "handle_user_command session env ctx ltx args name h =
     (let h1 = h\<lparr>h_active_commands := h_active_commands h + 1\<rparr> in
      case map_of command_registry name of
        None \<Rightarrow> command_finished env name ctx (sendln (he_log env (UnknownCommand name args)) h1)
      | Some (ReadCommand m backoff) \<Rightarrow> h1\<lparr>h_started := h_started h1 @ [StartedRead m backoff ctx ltx args]\<rparr>
      | Some MapCommand \<Rightarrow> handle_map_command env name ctx args h1
      | Some AckCommand \<Rightarrow> command_finished env name ctx (handle_ack_command env args h1)
      | Some AuthKeyCommand \<Rightarrow> handle_auth_key_command env name ctx args h1
      | Some SessionCommand \<Rightarrow> command_finished env name ctx (session ctx args h1))"

type_synonym command_callback = "command_context \<Rightarrow> lcontext \<Rightarrow> gostr list \<Rightarrow> gostr \<Rightarrow> server_handler \<Rightarrow> server_handler"

definition dispatch_command :: "command_callback \<Rightarrow> command_context \<Rightarrow> gostr list \<Rightarrow> server_handler \<Rightarrow>
    handler_error option \<times> server_handler" where
  "dispatch_command cb ctx args h =
     (case apply_command_timeout ctx args h of
        Inl e \<Rightarrow> (Some e, h)
      | Inr (ctx1, args1, h1) \<Rightarrow>
          (case split_n '':'' 2 (hd args1) of
             [name, raw] \<Rightarrow>
               if raw = [] then (None, cb ctx1 zero_context args1 name h1)
               else (case deserialize_options [raw] of
                   Inl e \<Rightarrow> (Some (BadOptions e), h1)
                 | Inr (options, ltx) \<Rightarrow> (None, cb ctx1 ltx args1 name (handle_options options h1)))
           | parts \<Rightarrow> (None, cb ctx1 zero_context args1 (hd parts) h1)))"

definition handle_raw_command :: "command_callback \<Rightarrow> command_context \<Rightarrow> gostr \<Rightarrow> server_handler \<Rightarrow>
    handler_error option \<times> server_handler" where
  "handle_raw_command cb ctx command h =
     (let args = str_fields command in
      if args = [] then (Some EmptyCommand, h) else dispatch_command cb ctx args h)"

fun dispatch_session_commands :: "command_callback \<Rightarrow> command_context \<Rightarrow> gostr list \<Rightarrow> server_handler \<Rightarrow>
    handler_error option \<times> server_handler" where
  "dispatch_session_commands cb ctx [] h = (None, h)"
| "dispatch_session_commands cb ctx (c # cs) h =
     (case handle_raw_command cb ctx c h of
        (Some e, h1) \<Rightarrow> (Some e, h1)
      | (None, h1) \<Rightarrow> dispatch_session_commands cb ctx cs h1)"

subsection \<open>Sessions\<close>

definition session_ack_start_ok :: gostr where
  "session_ack_start_ok = ''.syn session start ok''"

definition session_ack_update_ok :: gostr where
  "session_ack_update_ok = ''.syn session update ok''"

definition session_ack_error :: gostr where
  "session_ack_error = ''.syn session err ''"

definition error_text :: "'r handler_env \<Rightarrow> handler_error \<Rightarrow> gostr" where
  "error_text env e =
     (case e of
        InvalidSessionCommand \<Rightarrow> ''invalid SESSION command''
      | InvalidGeneration \<Rightarrow> ''invalid session generation''
      | InvalidPayload \<Rightarrow> ''invalid session payload''
      | InvalidSpec \<Rightarrow> ''invalid session spec''
      | UnsupportedSessionMode \<Rightarrow> ''unsupported session mode''
      | QueryNeedsMapOrTail \<Rightarrow> ''query sessions require map or tail mode''
      | MissingQuery \<Rightarrow> ''missing session query''
      | AlreadyStarted \<Rightarrow> ''session already started''
      | NotStarted \<Rightarrow> ''session not started''
      | UnknownAction \<Rightarrow> ''unknown action''
      | EmptyCommand \<Rightarrow> ''empty command''
      | _ \<Rightarrow> he_error_text env e)"

definition validate_session_options :: "gostr \<Rightarrow> handler_error option" where
  "validate_session_options raw =
     (if trim_space raw = [] then None
      else case deserialize_options (split '':'' raw) of Inl e \<Rightarrow> Some InvalidSpec | Inr _ \<Rightarrow> None)"

definition validate_session_spec :: "'r handler_env \<Rightarrow> spec \<Rightarrow> handler_error option" where
  "validate_session_spec env s =
     (if sp_mode s \<notin> {TailClient, CatClient, GrepClient, MapClient, HealthClient} then Some UnsupportedSessionMode
      else if sp_query s \<noteq> [] \<and> sp_mode s \<noteq> MapClient \<and> sp_mode s \<noteq> TailClient then Some QueryNeedsMapOrTail
      else if sp_query s = [] \<and> sp_mode s = MapClient then Some MissingQuery
      else if sp_query s \<noteq> [] \<and> isl (new_query (sp_query s)) then Some InvalidSpec
      else case validate_session_options (sp_options s) of
          Some e \<Rightarrow> Some e
        | None \<Rightarrow> (case spec_commands (he_compile env) s of Inl e \<Rightarrow> Some InvalidSpec | Inr _ \<Rightarrow> None))"

definition parse_session_command :: "'r handler_env \<Rightarrow> gostr list \<Rightarrow> handler_error + (gostr \<times> uint64 \<times> spec)" where
  "parse_session_command env args =
     (if length args < 3 then Inl InvalidSessionCommand
      else
        let action = to_upper (trim_space (args ! 1)) in
        and_then
          (if action = ''UPDATE'' \<and> 4 \<le> length args then
             (case parse_uint (args ! 2) of (_, Some e) \<Rightarrow> Inl InvalidGeneration | (g, None) \<Rightarrow> Inr (g, args ! 3))
           else Inr (0, args ! 2))
          (\<lambda>(g, payload).
             case b64_decode payload of
               None \<Rightarrow> Inl InvalidPayload
             | Some json \<Rightarrow>
                 (case he_json env json of
                    None \<Rightarrow> Inl InvalidSpec
                  | Some s \<Rightarrow>
                      (case validate_session_spec env s of Some e \<Rightarrow> Inl e | None \<Rightarrow> Inr (action, g, s)))))"

definition reset_session :: "server_handler \<Rightarrow> server_handler" where
  "reset_session h = h\<lparr>h_session := zero_session\<rparr>"

definition reset_session_aggregates :: "server_handler \<Rightarrow> server_handler" where
  "reset_session_aggregates h = h\<lparr>h_aggregate := None\<rparr>"

definition prepare_session_commands :: "'r handler_env \<Rightarrow> spec \<Rightarrow> handler_error + gostr list" where
  "prepare_session_commands env s =
     (case spec_commands (he_compile env) s of Inl e \<Rightarrow> Inl InvalidSpec | Inr cs \<Rightarrow> Inr cs)"

text \<open>What \<open>start\<close> and \<open>update\<close> share: the new generation replaces the session and its commands run.\<close>

definition run_generation :: "command_callback \<Rightarrow> spec \<Rightarrow> gostr list \<Rightarrow> uint64 \<Rightarrow> server_handler \<Rightarrow>
    (handler_error + uint64) \<times> server_handler" where
  "run_generation cb s commands g h =
     (let old = sc_cancel (h_session h) in
      case new_command_context h of
        (n, h1) \<Rightarrow>
          (let ctx = \<lparr>cc_chain = [n], cc_cancels = [], cc_generation = g, cc_deadline = None\<rparr>;
               h2 = h1\<lparr>h_session := \<lparr>sc_active = True, sc_generation = g, sc_spec = s, sc_cancel = Some n\<rparr>\<rparr>;
               h3 = (case old of None \<Rightarrow> h2 | Some m \<Rightarrow> cancel_context m h2) in
           case dispatch_session_commands cb ctx commands (reset_session_aggregates h3) of
             (Some e, h4) \<Rightarrow> (Inl e, reset_session (cancel_context n h4))
           | (None, h4) \<Rightarrow> (Inr g, h4)))"

definition start_session :: "command_callback \<Rightarrow> 'r handler_env \<Rightarrow> spec \<Rightarrow> server_handler \<Rightarrow>
    (handler_error + uint64) \<times> server_handler" where
  "start_session cb env s h =
     (case prepare_session_commands env s of
        Inl e \<Rightarrow> (Inl e, h)
      | Inr commands \<Rightarrow>
          if sc_active (h_session h) then (Inl AlreadyStarted, h)
          else run_generation cb s commands 1 (h\<lparr>h_session := (h_session h)\<lparr>sc_cancel := None\<rparr>\<rparr>))"

definition update_session :: "command_callback \<Rightarrow> 'r handler_env \<Rightarrow> spec \<Rightarrow> uint64 \<Rightarrow> server_handler \<Rightarrow>
    (handler_error + uint64) \<times> server_handler" where
  "update_session cb env s g h =
     (case prepare_session_commands env s of
        Inl e \<Rightarrow> (Inl e, h)
      | Inr commands \<Rightarrow>
          if \<not> sc_active (h_session h) then (Inl NotStarted, h)
          else run_generation cb s commands (if g = 0 then sc_generation (h_session h) + 1 else g) h)"

definition handle_session_command :: "command_callback \<Rightarrow> 'r handler_env \<Rightarrow> session_command" where
  "handle_session_command cb env ctx args h =
     (case parse_session_command env args of
        Inl e \<Rightarrow> send (session_ack_error @ error_text env e) h
      | Inr (action, g, s) \<Rightarrow>
          if action = ''START'' then
            (case start_session cb env s h of
               (Inl e, h1) \<Rightarrow> send (session_ack_error @ error_text env e) h1
             | (Inr g1, h1) \<Rightarrow> send (session_ack_start_ok @ blank @ format_uint g1) h1)
          else if action = ''UPDATE'' then
            (if \<not> sc_active (h_session h) then send (session_ack_error @ ''session not started'') h
             else case update_session cb env s g h of
                 (Inl e, h1) \<Rightarrow> send (session_ack_error @ error_text env e) h1
               | (Inr g1, h1) \<Rightarrow> send (session_ack_update_ok @ blank @ format_uint g1) h1)
          else send (session_ack_error @ ''unknown action'') h)"

text \<open>
  The commands of a specification never are SESSION commands (\<open>spec_commands_names\<close> below), so the
  callback for them needs no session handler of its own.
\<close>

definition inner_callback :: "'r handler_env \<Rightarrow> command_callback" where
  "inner_callback env = handle_user_command (\<lambda>ctx args h. h) env"

definition user_callback :: "'r handler_env \<Rightarrow> command_callback" where
  "user_callback env = handle_user_command (handle_session_command (inner_callback env) env) env"

subsection \<open>Receiving commands\<close>

text \<open>The decoded arguments run in a context of their own, which is cancelled when the dispatch fails.\<close>

definition run_arguments :: "command_callback \<Rightarrow> 'r handler_env \<Rightarrow> gostr list \<Rightarrow> server_handler \<Rightarrow> server_handler" where
  "run_arguments cb env args h =
     (case new_command_context h of
        (n, h1) \<Rightarrow>
          (case dispatch_command cb \<lparr>cc_chain = [n], cc_cancels = [n], cc_generation = 0, cc_deadline = None\<rparr> args h1 of
             (Some e, h2) \<Rightarrow> sendln (he_log env (DispatchFailed e)) (cancel_context n h2)
           | (None, h2) \<Rightarrow> h2))"

definition handle_command :: "command_callback \<Rightarrow> 'r handler_env \<Rightarrow> gostr \<Rightarrow> server_handler \<Rightarrow> server_handler" where
  "handle_command cb env command_str h =
     (case handle_protocol_version (split blank command_str) of
        Inl e \<Rightarrow> send (he_log env (CodecFailed e) @ (case e of VersionMismatch _ _ add \<Rightarrow> add | _ \<Rightarrow> [])) h
      | Inr args \<Rightarrow>
          (case handle_base64 args of
             Inl e \<Rightarrow> sendln (he_log env (CodecFailed e)) h
           | Inr args1 \<Rightarrow> run_arguments cb env args1 h))"

definition semicolon :: char where
  "semicolon = CHR '';''"

text \<open>\<open>Write\<close>; the flag tells that a frame was too long and the rest of the bytes was dropped.\<close>

fun handler_write :: "command_callback \<Rightarrow> 'r handler_env \<Rightarrow> gostr \<Rightarrow> server_handler \<Rightarrow> server_handler \<times> bool" where
  "handler_write cb env [] h = (h, False)"
| "handler_write cb env (b # bs) h =
     (if b = semicolon then handler_write cb env bs ((handle_command cb env (h_write_buf h) h)\<lparr>h_write_buf := []\<rparr>)
      else
        (let h1 = h\<lparr>h_write_buf := h_write_buf h @ [b]\<rparr> in
         if 0 < h_max_frame h \<and> h_max_frame h < int (length (h_write_buf h1))
         then (h1\<lparr>h_write_buf := [], h_done := True\<rparr>, True)
         else handler_write cb env bs h1))"

subsection \<open>What the operations leave alone\<close>

text \<open>The parts of the state that only \<open>Write\<close> and \<open>Read\<close> change.\<close>

definition frame_part :: "server_handler \<Rightarrow> int \<times> gostr \<times> gostr" where
  "frame_part h = (h_max_frame h, h_write_buf h, h_read_buf h)"

lemma frame_part_ops [simp]:
  "frame_part (send m h) = frame_part h"
  "frame_part (sendln m h) = frame_part h"
  "frame_part (cancel_context n h) = frame_part h"
  "frame_part (cancel_command_context ctx h) = frame_part h"
  "frame_part (handle_options opts h) = frame_part h"
  "frame_part (handle_ack_command env args h) = frame_part h"
  "frame_part (begin_shutdown env h) = frame_part h"
  "frame_part (reset_session h) = frame_part h"
  "frame_part (reset_session_aggregates h) = frame_part h"
  by (auto simp: frame_part_def send_def sendln_def cancel_context_def cancel_command_context_def handle_options_def
      handle_ack_command_def begin_shutdown_def reset_session_def reset_session_aggregates_def split: option.splits)

lemma frame_part_updates [simp]:
  "frame_part (h\<lparr>h_active_commands := x\<rparr>) = frame_part h"
  "frame_part (h\<lparr>h_started := st\<rparr>) = frame_part h"
  "frame_part (h\<lparr>h_aggregate := a\<rparr>) = frame_part h"
  "frame_part (h\<lparr>h_store := k\<rparr>) = frame_part h"
  "frame_part (h\<lparr>h_panicked := b\<rparr>) = frame_part h"
  "frame_part (h\<lparr>h_session := ses\<rparr>) = frame_part h"
  "frame_part (h\<lparr>h_next_context := n\<rparr>) = frame_part h"
  by (simp_all add: frame_part_def)

lemma frame_part_finished [simp]: "frame_part (command_finished env name ctx h) = frame_part h"
  by (simp add: command_finished_def Let_def)

lemma frame_part_map [simp]: "frame_part (handle_map_command env name ctx args h) = frame_part h"
  by (auto simp: handle_map_command_def split: sum.splits aggregate_start.splits)

lemma frame_part_auth [simp]: "frame_part (handle_auth_key_command env name ctx args h) = frame_part h"
  by (auto simp: handle_auth_key_command_def split: option.splits)

lemma frame_part_user:
  assumes "\<And>ctx args h. frame_part (session ctx args h) = frame_part h"
  shows "frame_part (handle_user_command session env ctx ltx args name h) = frame_part h"
  using assms by (auto simp: handle_user_command_def Let_def split: option.splits command_kind.splits)

subsection \<open>Invariants of the dispatch\<close>

text \<open>
  A property of handlers that the callback keeps, and that sending, contexts, options and the
  replacement of the session keep, is kept by everything that a received command leads to.
\<close>

locale command_invariant =
  fixes I :: "server_handler \<Rightarrow> bool"
    and cb :: command_callback
    and env :: "'r handler_env"
  assumes I_cb: "I h \<Longrightarrow> I (cb ctx ltx args name h)"
    and I_send: "I h \<Longrightarrow> I (send m h)"
    and I_next: "I h \<Longrightarrow> I (h\<lparr>h_next_context := n\<rparr>)"
    and I_cancel: "I h \<Longrightarrow> I (cancel_context n h)"
    and I_options: "I h \<Longrightarrow> I (handle_options opts h)"
    and I_session: "I h \<Longrightarrow> I (h\<lparr>h_session := ses\<rparr>)"
    and I_aggregate: "I h \<Longrightarrow> I (h\<lparr>h_aggregate := None\<rparr>)"
begin

lemma I_new_context: "new_command_context h = (n, h1) \<Longrightarrow> I h \<Longrightarrow> I h1"
  by (auto simp: new_command_context_def I_next)

lemma I_timeout: "apply_command_timeout ctx args h = Inr (ctx1, args1, h1) \<Longrightarrow> I h \<Longrightarrow> I h1"
  by (auto simp: apply_command_timeout_def new_command_context_def I_next split: if_splits prod.splits option.splits)

lemma I_dispatch: "dispatch_command cb ctx args h = (e, h1) \<Longrightarrow> I h \<Longrightarrow> I h1"
proof (cases "apply_command_timeout ctx args h")
  case (Inr r)
  assume d: "dispatch_command cb ctx args h = (e, h1)" and "I h"
  obtain ctx1 args1 h2 where r: "apply_command_timeout ctx args h = Inr (ctx1, args1, h2)" using Inr by (cases r) auto
  have "I h2" using I_timeout[OF r \<open>I h\<close>] .
  then show ?thesis using d
    by (auto simp: dispatch_command_def r I_cb I_options split: list.splits if_splits sum.splits)
qed (simp add: dispatch_command_def)

lemma I_session_commands: "dispatch_session_commands cb ctx cs h = (e, h1) \<Longrightarrow> I h \<Longrightarrow> I h1"
proof (induction cs arbitrary: h)
  case (Cons c cs)
  obtain e2 h2 where r: "handle_raw_command cb ctx c h = (e2, h2)" by fastforce
  have "I h2" using r Cons.prems(2) by (auto simp: handle_raw_command_def Let_def split: if_splits intro: I_dispatch)
  then show ?case using Cons.IH[of h2] Cons.prems(1) by (auto simp: r split: option.splits)
qed simp

lemma I_generation:
  assumes "run_generation cb s cs g h = (r, h1)" and "I h"
  shows "I h1"
proof -
  obtain n h2 where n: "new_command_context h = (n, h2)" by fastforce
  let ?h = "reset_session_aggregates ((case sc_cancel (h_session h) of None \<Rightarrow> h2\<lparr>h_session := \<lparr>sc_active = True, sc_generation = g, sc_spec = s, sc_cancel = Some n\<rparr>\<rparr>
    | Some m \<Rightarrow> cancel_context m (h2\<lparr>h_session := \<lparr>sc_active = True, sc_generation = g, sc_spec = s, sc_cancel = Some n\<rparr>\<rparr>)))"
  obtain e h4 where d: "dispatch_session_commands cb \<lparr>cc_chain = [n], cc_cancels = [], cc_generation = g, cc_deadline = None\<rparr> cs ?h = (e, h4)"
    by fastforce
  have "I ?h" using I_new_context[OF n assms(2)]
    by (auto simp: reset_session_aggregates_def I_session I_cancel I_aggregate split: option.splits)
  then have "I h4" using I_session_commands[OF d] by blast
  then show ?thesis using assms(1)
    by (auto simp: run_generation_def n d Let_def reset_session_def I_session I_cancel split: option.splits)
qed

lemma I_start: "start_session cb env s h = (r, h1) \<Longrightarrow> I h \<Longrightarrow> I h1"
  by (auto simp: start_session_def I_session split: sum.splits if_splits intro: I_generation)

lemma I_update: "update_session cb env s g h = (r, h1) \<Longrightarrow> I h \<Longrightarrow> I h1"
  by (auto simp: update_session_def split: sum.splits if_splits intro: I_generation)

lemma I_session_command:
  assumes "I h"
  shows "I (handle_session_command cb env ctx args h)"
proof (cases "parse_session_command env args")
  case (Inl e)
  then show ?thesis using assms by (simp add: handle_session_command_def I_send)
next
  case (Inr r)
  obtain action g s where r: "parse_session_command env args = Inr (action, g, s)" using Inr by (cases r) auto
  obtain r1 h1 where st: "start_session cb env s h = (r1, h1)" by fastforce
  obtain r2 h2 where up: "update_session cb env s g h = (r2, h2)" by fastforce
  have "I h1" "I h2" using I_start[OF st assms] I_update[OF up assms] .
  then show ?thesis using assms
    by (cases r1; cases r2) (simp_all add: handle_session_command_def r st up I_send)
qed

lemma I_arguments:
  assumes "I h"
  shows "I (run_arguments cb env args h)"
proof -
  obtain n h1 where n: "new_command_context h = (n, h1)" by fastforce
  obtain e h2 where d: "dispatch_command cb \<lparr>cc_chain = [n], cc_cancels = [n], cc_generation = 0, cc_deadline = None\<rparr> args h1 = (e, h2)"
    by fastforce
  have "I h2" using I_dispatch[OF d I_new_context[OF n assms]] .
  then show ?thesis by (cases e) (simp_all add: run_arguments_def n d sendln_def I_send I_cancel)
qed

lemma I_command: "I h \<Longrightarrow> I (handle_command cb env c h)"
  by (auto simp: handle_command_def sendln_def I_send I_arguments split: sum.splits)

end

interpretation frame_inner: command_invariant "\<lambda>h. frame_part h = k" "inner_callback env" env for k env
  by unfold_locales (auto simp: inner_callback_def frame_part_user)

interpretation frame_user: command_invariant "\<lambda>h. frame_part h = k" "user_callback env" env for k env
  by unfold_locales (auto simp: user_callback_def frame_part_user frame_inner.I_session_command)

lemma frame_part_command [simp]: "frame_part (handle_command (user_callback env) env c h) = frame_part h"
  using frame_user.I_command[of h "frame_part h" env c] by simp

subsection \<open>Frames\<close>

fun write_chunks :: "command_callback \<Rightarrow> 'r handler_env \<Rightarrow> gostr list \<Rightarrow> server_handler \<Rightarrow> server_handler \<times> bool" where
  "write_chunks cb env [] h = (h, False)"
| "write_chunks cb env (c # cs) h =
     (case handler_write cb env c h of (h1, True) \<Rightarrow> (h1, True) | (h1, False) \<Rightarrow> write_chunks cb env cs h1)"

lemma handler_write_append:
  "handler_write cb env (xs @ ys) h =
     (case handler_write cb env xs h of (h1, True) \<Rightarrow> (h1, True) | (h1, False) \<Rightarrow> handler_write cb env ys h1)"
  by (induction xs arbitrary: h) (auto simp: Let_def)

lemma write_chunks_concat: "write_chunks cb env cs h = handler_write cb env (concat cs) h"
  by (induction cs arbitrary: h) (auto simp: handler_write_append split: prod.splits bool.splits)

lemma handler_write_body:
  assumes "semicolon \<notin> set body" and "h_max_frame h \<le> 0 \<or> int (length (h_write_buf h @ body)) \<le> h_max_frame h"
  shows "handler_write cb env body h = (h\<lparr>h_write_buf := h_write_buf h @ body\<rparr>, False)"
  using assms
proof (induction body arbitrary: h)
  case (Cons b body)
  then show ?case by (auto simp: Let_def)
qed simp

definition receive_frame :: "'r handler_env \<Rightarrow> gostr \<Rightarrow> server_handler \<Rightarrow> server_handler" where
  "receive_frame env f h = (handle_command (user_callback env) env f (h\<lparr>h_write_buf := f\<rparr>))\<lparr>h_write_buf := []\<rparr>"

lemma frame_part_receive: "frame_part (receive_frame env f h) = (h_max_frame h, [], h_read_buf h)"
  using frame_part_command[of env f "h\<lparr>h_write_buf := f\<rparr>"] by (simp add: receive_frame_def frame_part_def)

lemma receive_frame_parts [simp]:
  "h_max_frame (receive_frame env f h) = h_max_frame h" "h_write_buf (receive_frame env f h) = []"
  using frame_part_receive[of env f h] by (simp_all add: frame_part_def)

lemma handler_write_frame:
  assumes "semicolon \<notin> set body" and "h_write_buf h = []" and "h_max_frame h \<le> 0 \<or> int (length body) \<le> h_max_frame h"
  shows "handler_write (user_callback env) env (body @ [semicolon] @ rest) h = handler_write (user_callback env) env rest (receive_frame env body h)"
proof -
  have "handler_write (user_callback env) env body h = (h\<lparr>h_write_buf := body\<rparr>, False)"
    using handler_write_body[of body h] assms by simp
  then show ?thesis by (simp add: handler_write_append receive_frame_def)
qed

definition run_command :: "'r handler_env \<Rightarrow> gostr \<Rightarrow> server_handler \<Rightarrow> server_handler" where
  "run_command env c h =
     (run_arguments (user_callback env) env (split blank c) (h\<lparr>h_write_buf := butlast (command_frame c)\<rparr>))\<lparr>h_write_buf := []\<rparr>"

lemma receive_command_frame: "receive_frame env (butlast (command_frame c)) h = run_command env c h"
proof -
  obtain args where "handle_protocol_version (split '' '' (butlast (command_frame c))) = Inr args" "handle_base64 args = Inr (split '' '' c)"
    using decode_command_frame[of c] by (auto simp: decode_command_def and_then_Inr)
  then show ?thesis by (simp add: receive_frame_def run_command_def handle_command_def blank_def)
qed

lemma command_frame_parts: "command_frame c = butlast (command_frame c) @ [semicolon]" "semicolon \<notin> set (butlast (command_frame c))"
  using b64_no_semicolon[of c] by (auto simp: command_frame_def butlast_append semicolon_def protocol_compat_def)

text \<open>
  C20: Whatever the boundaries of the reads from the network, the commands of a client arrive one
  by one and as they were sent: the server runs for each of them the arguments between its
  blanks, as long as no frame is longer than the limit.
\<close>

theorem commands_arrive:
  assumes "concat chunks = concat (map command_frame cs)" and "h_write_buf h = []"
    and "\<forall>c\<in>set cs. h_max_frame h \<le> 0 \<or> int (length (command_frame c)) \<le> h_max_frame h + 1"
  shows "write_chunks (user_callback env) env chunks h = (foldl (\<lambda>h c. run_command env c h) h cs, False)"
  unfolding write_chunks_concat assms(1) using assms(2,3)
proof (induction cs arbitrary: h)
  case (Cons c cs)
  obtain b where b: "command_frame c = b @ [semicolon]" "butlast (command_frame c) = b" "semicolon \<notin> set b"
    using command_frame_parts[of c] by metis
  then have short: "h_max_frame h \<le> 0 \<or> int (length b) \<le> h_max_frame h" using Cons.prems(2) by force
  have "handler_write (user_callback env) env (concat (map command_frame (c # cs))) h =
      handler_write (user_callback env) env (concat (map command_frame cs)) (receive_frame env b h)"
    using handler_write_frame[OF b(3) Cons.prems(1) short] by (simp add: b(1))
  moreover have "handler_write (user_callback env) env (concat (map command_frame cs)) (receive_frame env b h) =
      (foldl (\<lambda>h c. run_command env c h) (receive_frame env b h) cs, False)"
    by (rule Cons.IH) (use Cons.prems in auto)
  ultimately show ?case using receive_command_frame[of env c h] by (simp add: b(2))
qed simp

text \<open>The bytes after the last delimiter.\<close>

fun unfinished_frame :: "gostr \<Rightarrow> gostr \<Rightarrow> gostr" where
  "unfinished_frame buf [] = buf"
| "unfinished_frame buf (b # bs) = unfinished_frame (if b = semicolon then [] else buf @ [b]) bs"

text \<open>
  The memory for an unfinished frame is bounded. After any bytes the buffer holds no more than
  the limit; the handler closes the session exactly when the bytes after the last delimiter have
  at some point exceeded it.
\<close>

theorem frame_buffer_bounded:
  assumes "0 < h_max_frame h" and "int (length (h_write_buf h)) \<le> h_max_frame h"
    and "write_chunks (user_callback env) env chunks h = (h1, stopped)"
  shows "int (length (h_write_buf h1)) \<le> h_max_frame h \<and> (stopped \<longrightarrow> h_done h1 \<and> h_write_buf h1 = []) \<and>
    (stopped \<longleftrightarrow> (\<exists>n. h_max_frame h < int (length (unfinished_frame (h_write_buf h) (take n (concat chunks))))))"
proof -
  have key: "int (length (h_write_buf h1)) \<le> h_max_frame h \<and> (stopped \<longrightarrow> h_done h1 \<and> h_write_buf h1 = []) \<and>
    (stopped \<longleftrightarrow> (\<exists>n. h_max_frame h < int (length (unfinished_frame (h_write_buf h) (take n bs)))))"
    if "handler_write (user_callback env) env bs h = (h1, stopped)" "int (length (h_write_buf h)) \<le> h_max_frame h" "0 < h_max_frame h" for bs
    using that
  proof (induction bs arbitrary: h)
    case (Cons b bs)
    let ?buf = "if b = semicolon then [] else h_write_buf h @ [b]"
    have ex: "(\<exists>n. h_max_frame h < int (length (unfinished_frame (h_write_buf h) (take n (b # bs))))) \<longleftrightarrow>
        (\<exists>n. h_max_frame h < int (length (unfinished_frame ?buf (take n bs))))"
    proof
      assume "\<exists>n. h_max_frame h < int (length (unfinished_frame (h_write_buf h) (take n (b # bs))))"
      then obtain n where n: "h_max_frame h < int (length (unfinished_frame (h_write_buf h) (take n (b # bs))))" by blast
      then obtain m where "n = Suc m" using Cons.prems(2) by (cases n) auto
      then show "\<exists>n. h_max_frame h < int (length (unfinished_frame ?buf (take n bs)))" using n by auto
    next
      assume "\<exists>n. h_max_frame h < int (length (unfinished_frame ?buf (take n bs)))"
      then show "\<exists>n. h_max_frame h < int (length (unfinished_frame (h_write_buf h) (take n (b # bs))))"
        by (metis take_Suc_Cons unfinished_frame.simps(2))
    qed
    show ?case
    proof (cases "b = semicolon")
      case True
      let ?h = "(handle_command (user_callback env) env (h_write_buf h) h)\<lparr>h_write_buf := []\<rparr>"
      have "h_max_frame ?h = h_max_frame h" using frame_part_command[of env "h_write_buf h" h] by (simp add: frame_part_def)
      then show ?thesis using Cons.IH[of ?h] Cons.prems True ex by simp
    next
      case False
      let ?h = "h\<lparr>h_write_buf := h_write_buf h @ [b]\<rparr>"
      show ?thesis
      proof (cases "h_max_frame h < int (length (h_write_buf ?h))")
        case True
        have "\<exists>n. h_max_frame h < int (length (unfinished_frame (h_write_buf h @ [b]) (take n bs)))"
          using True by (intro exI[of _ 0]) simp
        then show ?thesis using Cons.prems True False ex by (auto simp: Let_def)
      next
        case short: False
        then show ?thesis using Cons.IH[of ?h] Cons.prems False ex by (simp add: Let_def)
      qed
    qed
  qed simp
  show ?thesis using key[of "concat chunks"] assms unfolding write_chunks_concat by blast
qed

subsection \<open>The counter of the active commands\<close>

lemma counted_send [simp]: "h_active_commands (send m h) = h_active_commands h" "h_started (send m h) = h_started h"
  "h_panicked (send m h) = h_panicked h"
  by (simp_all add: send_def)

lemma counted_ack [simp]: "h_active_commands (handle_ack_command env args h) = h_active_commands h"
  "h_started (handle_ack_command env args h) = h_started h" "h_panicked (handle_ack_command env args h) = h_panicked h"
  by (simp_all add: handle_ack_command_def sendln_def)

text \<open>
  The counter is ahead of the commands that are started and not finished by the commands that are
  just being handled: one while a command runs, none between commands.
\<close>

definition active_by :: "32 word \<Rightarrow> server_handler \<Rightarrow> bool" where
  "active_by k h \<longleftrightarrow> h_panicked h \<or> h_active_commands h = of_nat (length (h_started h)) + k"

lemma active_by_finished:
  "active_by (k + 1) h \<Longrightarrow> active_by k (command_finished env name ctx h)"
  by (auto simp: active_by_def command_finished_def cancel_command_context_def begin_shutdown_def send_def Let_def split: option.splits)

lemma active_by_user:
  assumes "\<And>ctx args h. active_by (k + 1) h \<Longrightarrow> active_by (k + 1) (session ctx args h)" and "active_by k h"
  shows "active_by k (handle_user_command session env ctx ltx args name h)"
proof -
  let ?h = "h\<lparr>h_active_commands := h_active_commands h + 1\<rparr>"
  have b: "active_by (k + 1) ?h" using assms(2) by (simp add: active_by_def)
  show ?thesis
  proof (cases "map_of command_registry name")
    case None
    then show ?thesis using b by (auto simp: handle_user_command_def Let_def sendln_def active_by_def[of "k + 1"] intro!: active_by_finished)
  next
    case (Some c)
    show ?thesis
    proof (cases c)
      case (ReadCommand m n)
      then show ?thesis using Some b by (simp add: handle_user_command_def Let_def active_by_def)
    next
      case MapCommand
      then show ?thesis using Some b
        by (auto simp: handle_user_command_def handle_map_command_def Let_def sendln_def active_by_def[of "k + 1"]
            active_by_def[of k] split: sum.splits aggregate_start.splits intro!: active_by_finished[unfolded active_by_def])
    next
      case AckCommand
      then show ?thesis using Some b
        by (auto simp: handle_user_command_def Let_def active_by_def[of "k + 1"] intro!: active_by_finished)
    next
      case AuthKeyCommand
      then show ?thesis using Some b
        by (auto simp: handle_user_command_def handle_auth_key_command_def Let_def sendln_def active_by_def[of "k + 1"]
            split: option.splits intro!: active_by_finished)
    next
      case SessionCommand
      then show ?thesis using Some assms(1)[OF b] by (auto simp: handle_user_command_def Let_def intro!: active_by_finished)
    qed
  qed
qed

lemma active_by_primitive:
  "active_by k h \<Longrightarrow> active_by k (send m h)"
  "active_by k h \<Longrightarrow> active_by k (h\<lparr>h_next_context := n\<rparr>)"
  "active_by k h \<Longrightarrow> active_by k (cancel_context n h)"
  "active_by k h \<Longrightarrow> active_by k (handle_options opts h)"
  "active_by k h \<Longrightarrow> active_by k (h\<lparr>h_session := ses\<rparr>)"
  "active_by k h \<Longrightarrow> active_by k (h\<lparr>h_aggregate := None\<rparr>)"
  by (simp_all add: active_by_def cancel_context_def handle_options_def)

interpretation active_inner: command_invariant "active_by k" "inner_callback env" env for k env
  by unfold_locales (auto simp: inner_callback_def intro: active_by_user active_by_primitive)

interpretation active_user: command_invariant "active_by k" "user_callback env" env for k env
  by unfold_locales (auto simp: user_callback_def intro: active_by_user active_by_primitive active_inner.I_session_command)

lemma active_write: "handler_write (user_callback env) env bs h = (h1, e) \<Longrightarrow> active_by 0 h \<Longrightarrow> active_by 0 h1"
proof (induction bs arbitrary: h)
  case (Cons b bs)
  have "active_by 0 ((handle_command (user_callback env) env (h_write_buf h) h)\<lparr>h_write_buf := []\<rparr>)"
    using active_user.I_command[OF Cons.prems(2)] by (simp add: active_by_def)
  moreover have "active_by 0 (h\<lparr>h_write_buf := h_write_buf h @ [b]\<rparr>)" using Cons.prems(2) by (simp add: active_by_def)
  ultimately show ?case using Cons by (auto simp: Let_def active_by_def split: if_splits)
qed simp

subsection \<open>One generation runs\<close>

definition started_context :: "started \<Rightarrow> command_context" where
  "started_context c = (case c of StartedRead m n ctx ltx args \<Rightarrow> ctx | StartedMap ctx \<Rightarrow> ctx)"

definition started_name :: "started \<Rightarrow> gostr" where
  "started_name c = (case c of StartedRead m n ctx ltx args \<Rightarrow> mode_string m | StartedMap ctx \<Rightarrow> ''map'')"

text \<open>A command belongs to the session when its context ends with the context of the session.\<close>

definition of_session :: "session_command_state \<Rightarrow> command_context \<Rightarrow> bool" where
  "of_session ses ctx \<longleftrightarrow>
     sc_active ses \<and> sc_generation ses = cc_generation ctx \<and> (\<exists>n\<in>set (cc_chain ctx). sc_cancel ses = Some n)"

definition generation_inv :: "server_handler \<Rightarrow> bool" where
  "generation_inv h \<longleftrightarrow>
     (\<forall>c\<in>set (h_started h). cc_generation (started_context c) \<noteq> 0 \<longrightarrow> \<not> context_over h (started_context c) \<longrightarrow>
        of_session (h_session h) (started_context c))"

text \<open>What matters to this invariant, and how it may change: contexts end, and started commands are added.\<close>

definition grows :: "command_context \<Rightarrow> server_handler \<Rightarrow> server_handler \<Rightarrow> bool" where
  "grows ctx h h' \<longleftrightarrow>
     h_session h' = h_session h \<and> (h_done h \<longrightarrow> h_done h') \<and> h_cancelled h \<subseteq> h_cancelled h' \<and>
     (\<forall>c\<in>set (h_started h'). c \<in> set (h_started h) \<or>
        cc_generation (started_context c) = cc_generation ctx \<and> set (cc_chain ctx) \<subseteq> set (cc_chain (started_context c)))"

lemma grows_refl [simp]: "grows ctx h h"
  by (simp add: grows_def)

lemma grows_trans: "grows ctx h h1 \<Longrightarrow> grows ctx h1 h2 \<Longrightarrow> grows ctx h h2"
  by (simp add: grows_def) blast

lemma grows_primitive [simp]:
  "grows ctx h (send m h)" "grows ctx h (sendln m h)" "grows ctx h (h\<lparr>h_next_context := n\<rparr>)" "grows ctx h (cancel_context n h)"
  "grows ctx h (cancel_command_context ctx1 h)" "grows ctx h (handle_options opts h)" "grows ctx h (handle_ack_command env args h)"
  "grows ctx h (begin_shutdown env h)" "grows ctx h (h\<lparr>h_aggregate := a\<rparr>)" "grows ctx h (h\<lparr>h_store := k\<rparr>)"
  "grows ctx h (h\<lparr>h_panicked := b\<rparr>)" "grows ctx h (h\<lparr>h_active_commands := x\<rparr>)"
  by (auto simp: grows_def send_def sendln_def cancel_context_def cancel_command_context_def handle_options_def
      handle_ack_command_def begin_shutdown_def split: option.splits)

lemma grows_finished: "grows ctx h h1 \<Longrightarrow> grows ctx h (command_finished env name ctx1 h1)"
  by (auto simp: command_finished_def Let_def intro: grows_trans[OF _ grows_primitive(8)] grows_trans[OF _ grows_primitive(5)]
      grows_trans[OF _ grows_primitive(12)])

lemma grows_inv:
  assumes "generation_inv h" and "grows ctx h h'" and "cc_generation ctx = 0 \<or> of_session (h_session h) ctx"
  shows "generation_inv h'"
  unfolding generation_inv_def
proof (intro ballI impI)
  fix c
  assume c: "c \<in> set (h_started h')" and g: "cc_generation (started_context c) \<noteq> 0" and "\<not> context_over h' (started_context c)"
  then have "\<not> context_over h (started_context c)" using assms(2) by (auto simp: context_over_def grows_def)
  moreover have s: "h_session h' = h_session h" using assms(2) by (simp add: grows_def)
  moreover have "c \<in> set (h_started h) \<or>
      cc_generation (started_context c) = cc_generation ctx \<and> set (cc_chain ctx) \<subseteq> set (cc_chain (started_context c))"
    using assms(2) c by (simp add: grows_def)
  ultimately show "of_session (h_session h') (started_context c)"
  proof (elim disjE)
    assume "c \<in> set (h_started h)" "\<not> context_over h (started_context c)"
    then show ?thesis using assms(1) g s by (simp add: generation_inv_def)
  next
    assume "cc_generation (started_context c) = cc_generation ctx \<and> set (cc_chain ctx) \<subseteq> set (cc_chain (started_context c))"
    then show ?thesis using assms(3) g s by (auto simp: of_session_def)
  qed
qed

lemma grows_context:
  "grows ctx1 h h' \<Longrightarrow> cc_generation ctx1 = cc_generation ctx \<Longrightarrow> set (cc_chain ctx) \<subseteq> set (cc_chain ctx1) \<Longrightarrow> grows ctx h h'"
  by (simp add: grows_def) blast

text \<open>A command other than SESSION adds at most one started command of its context.\<close>

lemma grows_map: "grows ctx h h1 \<Longrightarrow> grows ctx h (handle_map_command env name ctx args h1)"
  unfolding handle_map_command_def
  by (auto split: sum.splits aggregate_start.splits intro!: grows_finished grows_trans[OF _ grows_primitive(2)]
      grows_trans[OF _ grows_primitive(11)]) (auto simp: grows_def started_context_def)

lemma grows_auth: "grows ctx h h1 \<Longrightarrow> grows ctx h (handle_auth_key_command env name ctx args h1)"
  unfolding handle_auth_key_command_def
  by (auto split: option.splits intro!: grows_finished grows_trans[OF _ grows_primitive(2)] grows_trans[OF _ grows_primitive(10)])

lemma grows_user:
  assumes "map_of command_registry name \<noteq> Some SessionCommand"
  shows "grows ctx h (handle_user_command session env ctx ltx args name h)"
proof (cases "map_of command_registry name")
  case None
  then show ?thesis
    by (auto simp: handle_user_command_def Let_def intro!: grows_finished grows_trans[OF grows_primitive(12) grows_primitive(2)])
next
  case (Some c)
  show ?thesis
  proof (cases c)
    case (ReadCommand m n)
    then show ?thesis using Some
      by (auto simp: handle_user_command_def Let_def started_context_def grows_def)
  next
    case AckCommand
    then show ?thesis using Some
      by (auto simp: handle_user_command_def Let_def intro!: grows_finished grows_trans[OF grows_primitive(12) grows_primitive(7)])
  qed (use Some assms in \<open>auto simp: handle_user_command_def Let_def intro: grows_map grows_auth\<close>)
qed

lemma grows_inner: "grows ctx h (inner_callback env ctx ltx args name h)"
proof (cases "map_of command_registry name = Some SessionCommand")
  case True
  then show ?thesis by (auto simp: inner_callback_def handle_user_command_def Let_def intro: grows_finished)
qed (simp add: inner_callback_def grows_user)

lemma timeout_derived:
  "apply_command_timeout ctx args h = Inr (ctx1, args1, h1) \<Longrightarrow>
   cc_generation ctx1 = cc_generation ctx \<and> set (cc_chain ctx) \<subseteq> set (cc_chain ctx1) \<and> grows ctx h h1"
  by (auto simp: apply_command_timeout_def new_command_context_def split: if_splits prod.splits option.splits)

lemma grows_dispatch:
  assumes "dispatch_command (inner_callback env) ctx args h = (e, h1)"
  shows "grows ctx h h1"
proof (cases "apply_command_timeout ctx args h")
  case (Inl e)
  then show ?thesis using assms by (simp add: dispatch_command_def)
next
  case (Inr r)
  obtain ctx1 args1 h2 where r: "apply_command_timeout ctx args h = Inr (ctx1, args1, h2)" using Inr by (cases r) auto
  have t: "cc_generation ctx1 = cc_generation ctx" "set (cc_chain ctx) \<subseteq> set (cc_chain ctx1)" "grows ctx h h2"
    using timeout_derived[OF r] by blast+
  have "grows ctx k (inner_callback env ctx1 ltx args1 name k)" for ltx name k by (rule grows_context[OF grows_inner t(1,2)])
  then have c: "grows ctx h (inner_callback env ctx1 ltx args1 name h2)"
    "grows ctx h (inner_callback env ctx1 ltx args1 name (handle_options opts h2))" for ltx name opts
    using grows_trans[OF t(3)] grows_trans[OF grows_trans[OF t(3) grows_primitive(6)]] by blast+
  show ?thesis using assms c t
    by (auto simp: dispatch_command_def r split: list.splits if_splits sum.splits)
qed

lemma grows_session_commands:
  "dispatch_session_commands (inner_callback env) ctx cs h = (e, h1) \<Longrightarrow> grows ctx h h1"
proof (induction cs arbitrary: h)
  case (Cons c cs)
  obtain e2 h2 where r: "handle_raw_command (inner_callback env) ctx c h = (e2, h2)" by fastforce
  have "grows ctx h h2" using r by (auto simp: handle_raw_command_def Let_def split: if_splits intro: grows_dispatch)
  then show ?case using Cons.IH[of h2] Cons.prems by (cases e2) (auto simp: r intro: grows_trans)
qed simp

text \<open>No command of a session runs once its context is cancelled.\<close>

lemma generation_inv_ended:
  assumes "generation_inv h" and "h_started h' = h_started h" and "h_cancelled h \<subseteq> h_cancelled h'" and "h_done h' = h_done h"
    and "\<not> sc_active (h_session h) \<or> (\<exists>m. sc_cancel (h_session h) = Some m \<and> m \<in> h_cancelled h')"
  shows "\<forall>c\<in>set (h_started h'). cc_generation (started_context c) \<noteq> 0 \<longrightarrow> context_over h' (started_context c)"
proof (intro ballI impI, rule ccontr)
  fix c
  assume c: "c \<in> set (h_started h')" "cc_generation (started_context c) \<noteq> 0" "\<not> context_over h' (started_context c)"
  then have "\<not> context_over h (started_context c)" using assms(3,4) by (auto simp: context_over_def)
  then have "of_session (h_session h) (started_context c)" using assms(1,2) c by (simp add: generation_inv_def)
  then show False using assms(5) c(3) by (auto simp: of_session_def context_over_def)
qed

lemma generation_inv_all_over:
  "\<forall>c\<in>set (h_started h). cc_generation (started_context c) \<noteq> 0 \<longrightarrow> context_over h (started_context c) \<Longrightarrow> generation_inv h"
  by (auto simp: generation_inv_def)

definition cancel_wf :: "server_handler \<Rightarrow> bool" where
  "cancel_wf h \<longleftrightarrow> (sc_active (h_session h) \<longrightarrow> sc_cancel (h_session h) \<noteq> None)"

lemma generation_inv_run:
  assumes "run_generation (inner_callback env) s cs g h = (r, h1)" and "generation_inv h" and "cancel_wf h"
  shows "generation_inv h1 \<and> cancel_wf h1 \<and> (\<forall>g1. r = Inr g1 \<longrightarrow> g1 = g \<and> sc_active (h_session h1) \<and> sc_generation (h_session h1) = g)"
proof -
  obtain n h2 where n: "new_command_context h = (n, h2)" by fastforce
  let ?ses = "\<lparr>sc_active = True, sc_generation = g, sc_spec = s, sc_cancel = Some n\<rparr>"
  let ?ctx = "\<lparr>cc_chain = [n], cc_cancels = [], cc_generation = g, cc_deadline = None\<rparr>"
  define h3 where "h3 = reset_session_aggregates (case sc_cancel (h_session h) of None \<Rightarrow> h2\<lparr>h_session := ?ses\<rparr>
    | Some m \<Rightarrow> cancel_context m (h2\<lparr>h_session := ?ses\<rparr>))"
  have h3: "h_session h3 = ?ses" "h_started h3 = h_started h" "h_cancelled h \<subseteq> h_cancelled h3" "h_done h3 = h_done h"
    "\<not> sc_active (h_session h) \<or> (\<exists>m. sc_cancel (h_session h) = Some m \<and> m \<in> h_cancelled h3)"
    using n assms(3)
    by (auto simp: h3_def reset_session_aggregates_def cancel_context_def new_command_context_def cancel_wf_def split: option.splits)
  have inv3: "generation_inv h3" by (rule generation_inv_all_over[OF generation_inv_ended[OF assms(2) h3(2-5)]])
  obtain e h4 where d: "dispatch_session_commands (inner_callback env) ?ctx cs h3 = (e, h4)" by fastforce
  note gr = grows_session_commands[OF d]
  have ses4: "h_session h4 = ?ses" using gr h3(1) by (simp add: grows_def)
  have inv4: "generation_inv h4" by (rule grows_inv[OF inv3 gr]) (simp add: of_session_def h3(1))
  show ?thesis
  proof (cases e)
    case None
    then have "r = Inr g" "h1 = h4" using assms(1) d by (auto simp: run_generation_def n Let_def h3_def)
    then show ?thesis using inv4 ses4 by (simp add: cancel_wf_def)
  next
    case (Some x)
    then have r: "r = Inl x" "h1 = reset_session (cancel_context n h4)" using assms(1) d by (auto simp: run_generation_def n Let_def h3_def)
    have "generation_inv h1" unfolding r
      by (rule generation_inv_all_over, rule generation_inv_ended[OF inv4])
        (auto simp: reset_session_def cancel_context_def ses4)
    then show ?thesis by (simp add: r cancel_wf_def reset_session_def zero_session_def)
  qed
qed

lemma generation_inv_session_command:
  assumes "generation_inv h" and "cancel_wf h"
  shows "generation_inv (handle_session_command (inner_callback env) env ctx args h) \<and>
    cancel_wf (handle_session_command (inner_callback env) env ctx args h)"
proof (cases "parse_session_command env args")
  case (Inl e)
  then show ?thesis using assms by (auto simp: handle_session_command_def send_def generation_inv_def context_over_def cancel_wf_def)
next
  case (Inr r)
  obtain action g s where r: "parse_session_command env args = Inr (action, g, s)" using Inr by (cases r) auto
  obtain r1 h1 where st: "start_session (inner_callback env) env s h = (r1, h1)" by fastforce
  obtain r2 h2 where up: "update_session (inner_callback env) env s g h = (r2, h2)" by fastforce
  have snd: "generation_inv (send m k) \<and> cancel_wf (send m k)" if "generation_inv k \<and> cancel_wf k" for m k
    using that by (auto simp: send_def generation_inv_def context_over_def cancel_wf_def)
  have "generation_inv h1 \<and> cancel_wf h1"
  proof (cases "sc_active (h_session h)")
    case True
    then show ?thesis using st assms by (auto simp: start_session_def split: sum.splits)
  next
    case False
    let ?h = "h\<lparr>h_session := (h_session h)\<lparr>sc_cancel := None\<rparr>\<rparr>"
    have "generation_inv ?h" "cancel_wf ?h"
      using assms(1) False by (auto simp: generation_inv_def context_over_def of_session_def cancel_wf_def)
    then have run: "generation_inv k \<and> cancel_wf k" if "run_generation (inner_callback env) s cs 1 ?h = (r, k)" for cs r k
      using generation_inv_run[OF that] by blast
    show ?thesis using st assms False run
      by (cases "prepare_session_commands env s") (auto simp: start_session_def)
  qed
  moreover have "generation_inv h2 \<and> cancel_wf h2"
  proof -
    have run: "generation_inv k \<and> cancel_wf k" if "run_generation (inner_callback env) s cs n h = (r, k)" for cs n r k
      using generation_inv_run[OF that assms] by blast
    show ?thesis using up assms run
      by (cases "prepare_session_commands env s"; cases "sc_active (h_session h)") (auto simp: update_session_def)
  qed
  ultimately show ?thesis using assms snd
    by (cases r1; cases r2) (simp_all add: handle_session_command_def r st up)
qed

lemma generation_inv_user:
  assumes "generation_inv h" and "cancel_wf h" and "cc_generation ctx = 0"
  shows "generation_inv (user_callback env ctx ltx args name h) \<and> cancel_wf (user_callback env ctx ltx args name h)"
proof (cases "map_of command_registry name = Some SessionCommand")
  case True
  let ?h = "h\<lparr>h_active_commands := h_active_commands h + 1\<rparr>"
  let ?k = "handle_session_command (inner_callback env) env ctx args ?h"
  have k: "generation_inv ?k" "cancel_wf ?k"
    using generation_inv_session_command[of ?h env ctx args] assms(1,2)
    by (simp_all add: generation_inv_def context_over_def cancel_wf_def)
  have u: "user_callback env ctx ltx args name h = command_finished env name ctx ?k"
    using True by (simp add: user_callback_def handle_user_command_def Let_def)
  have g: "grows ctx ?k (command_finished env name ctx ?k)" by (rule grows_finished) simp
  show ?thesis unfolding u using grows_inv[OF k(1) g] g k(2) assms(3) by (simp add: cancel_wf_def grows_def)
next
  case False
  have g: "grows ctx h (user_callback env ctx ltx args name h)" unfolding user_callback_def by (rule grows_user[OF False])
  show ?thesis using grows_inv[OF assms(1) g] g assms(2,3) by (simp add: cancel_wf_def grows_def)
qed

lemma generation_inv_primitive:
  assumes "generation_inv h \<and> cancel_wf h"
  shows "generation_inv (send m h) \<and> cancel_wf (send m h)"
    and "generation_inv (h\<lparr>h_next_context := n\<rparr>) \<and> cancel_wf (h\<lparr>h_next_context := n\<rparr>)"
    and "generation_inv (cancel_context n h) \<and> cancel_wf (cancel_context n h)"
    and "generation_inv (handle_options opts h) \<and> cancel_wf (handle_options opts h)"
    and "generation_inv (h\<lparr>h_write_buf := buf\<rparr>) \<and> cancel_wf (h\<lparr>h_write_buf := buf\<rparr>)"
    and "generation_inv (h\<lparr>h_write_buf := buf, h_done := True\<rparr>) \<and> cancel_wf (h\<lparr>h_write_buf := buf, h_done := True\<rparr>)"
  using assms
  by (auto simp: generation_inv_def cancel_wf_def context_over_def send_def cancel_context_def handle_options_def)

lemma generation_inv_command:
  assumes "generation_inv h \<and> cancel_wf h"
  shows "generation_inv (handle_command (user_callback env) env c h) \<and> cancel_wf (handle_command (user_callback env) env c h)"
proof -
  let ?I = "\<lambda>h. generation_inv h \<and> cancel_wf h"
  note prim = generation_inv_primitive
  have args: "?I (run_arguments (user_callback env) env args h)" for args
  proof -
    obtain n h1 where n: "new_command_context h = (n, h1)" by fastforce
    then have 1: "?I h1" using prim(2)[OF assms] by (auto simp: new_command_context_def)
    let ?ctx = "\<lparr>cc_chain = [n], cc_cancels = [n], cc_generation = 0, cc_deadline = None\<rparr>"
    obtain e h2 where d: "dispatch_command (user_callback env) ?ctx args h1 = (e, h2)" by fastforce
    have "?I h2"
    proof (cases "apply_command_timeout ?ctx args h1")
      case (Inl x)
      then show ?thesis using d 1 by (simp add: dispatch_command_def)
    next
      case (Inr r)
      obtain ctx1 args1 h3 where r: "apply_command_timeout ?ctx args h1 = Inr (ctx1, args1, h3)" using Inr by (cases r) auto
      have g: "cc_generation ctx1 = 0" using timeout_derived[OF r] by simp
      have "h3 = h1 \<or> (\<exists>n. h3 = h1\<lparr>h_next_context := n\<rparr>)"
        using r by (auto simp: apply_command_timeout_def new_command_context_def split: if_splits prod.splits option.splits)
      then have 3: "?I h3" using 1 prim(2)[OF 1] by auto
      have u: "?I (user_callback env ctx1 ltx args1 name k)" if "?I k" for ltx name k
        using generation_inv_user[OF _ _ g] that by blast
      show ?thesis using d u[OF 3] u[OF prim(4)[OF 3]] 3 prim(4)[OF 3]
        by (auto simp: dispatch_command_def r split: list.splits if_splits sum.splits)
    qed
    then show ?thesis using prim(1)[OF prim(3)] by (cases e) (simp_all add: run_arguments_def n d sendln_def)
  qed
  show ?thesis using args prim(1)[OF assms]
    by (auto simp: handle_command_def sendln_def split: sum.splits)
qed

lemma generation_inv_write:
  "handler_write (user_callback env) env bs h = (h1, e) \<Longrightarrow> generation_inv h \<and> cancel_wf h \<Longrightarrow> generation_inv h1 \<and> cancel_wf h1"
proof (induction bs arbitrary: h)
  case (Cons b bs)
  let ?h1 = "(handle_command (user_callback env) env (h_write_buf h) h)\<lparr>h_write_buf := []\<rparr>"
  let ?h2 = "h\<lparr>h_write_buf := h_write_buf h @ [b]\<rparr>"
  have 1: "generation_inv ?h1 \<and> cancel_wf ?h1" by (rule generation_inv_primitive(5)[OF generation_inv_command[OF Cons.prems(2)]])
  have 2: "generation_inv ?h2 \<and> cancel_wf ?h2" by (rule generation_inv_primitive(5)[OF Cons.prems(2)])
  have 3: "generation_inv (?h2\<lparr>h_write_buf := [], h_done := True\<rparr>) \<and> cancel_wf (?h2\<lparr>h_write_buf := [], h_done := True\<rparr>)"
    by (rule generation_inv_primitive(6)[OF 2])
  show ?case
  proof (cases "b = semicolon")
    case True
    then show ?thesis using Cons.IH[OF _ 1] Cons.prems(1) by simp
  next
    case False
    then show ?thesis using Cons.IH[OF _ 2] 3 Cons.prems(1) by (auto simp: Let_def split: if_splits)
  qed
qed simp

subsection \<open>The handler as a transition system\<close>

definition finish_started :: "'r handler_env \<Rightarrow> started \<Rightarrow> server_handler \<Rightarrow> server_handler" where
  "finish_started env c h =
     command_finished env (started_name c) (started_context c) (h\<lparr>h_started := remove1 c (h_started h)\<rparr>)"

text \<open>
  The steps: bytes arrive, a started command ends, the work on the files of a command changes
  their counter and the aggregate, messages are queued and taken, a shutdown comes to its end, and
  the connection is closed.
\<close>

inductive handler_step :: "'r handler_env \<Rightarrow> server_handler \<Rightarrow> server_handler \<Rightarrow> bool" for env where
  receive: "handler_write (user_callback env) env bs h = (h1, e) \<Longrightarrow> handler_step env h h1"
| finish: "c \<in> set (h_started h) \<Longrightarrow> handler_step env h (finish_started env c h)"
| files: "handler_step env h (h\<lparr>h_pending_files := n, h_aggregate := a\<rparr>)"
| messages: "handler_step env h (h\<lparr>h_server_messages := ms, h_mapr_messages := qs, h_lines := ls, h_read_buf := buf\<rparr>)"
| ended: "handler_step env h (end_shutdown timed_out h)"
| connection_closed: "handler_step env h (h\<lparr>h_done := True\<rparr>)"

inductive_cases handler_stepE: "handler_step env h h'"

definition handler_inv :: "server_handler \<Rightarrow> bool" where
  "handler_inv h \<longleftrightarrow> active_by 0 h \<and> generation_inv h \<and> cancel_wf h"

lemma handler_inv_new: "handler_inv (new_server_handler user fqdn max_frame linux journalctl store)"
  by (simp add: handler_inv_def new_server_handler_def send_def active_by_def generation_inv_def cancel_wf_def zero_session_def)

lemma handler_inv_finish:
  assumes "handler_inv h" and "c \<in> set (h_started h)"
  shows "handler_inv (finish_started env c h)"
proof -
  let ?h = "h\<lparr>h_started := remove1 c (h_started h)\<rparr>"
  have "length (h_started h) = length (h_started ?h) + 1" using assms(2) length_pos_if_in_set[OF assms(2)] by (simp add: length_remove1)
  then have "active_by (0 + 1) ?h" using assms(1) by (auto simp: handler_inv_def active_by_def)
  then have "active_by 0 (finish_started env c h)" unfolding finish_started_def by (rule active_by_finished)
  moreover have i: "generation_inv ?h" "cancel_wf ?h"
    using assms(1) by (auto simp: handler_inv_def generation_inv_def cancel_wf_def context_over_def dest: notin_set_remove1)
  let ?ctx = "\<lparr>cc_chain = [], cc_cancels = [], cc_generation = 0, cc_deadline = None\<rparr>"
  have g: "grows ?ctx ?h (finish_started env c h)" unfolding finish_started_def by (rule grows_finished) simp
  have "generation_inv (finish_started env c h)" by (rule grows_inv[OF i(1) g]) simp
  moreover have "cancel_wf (finish_started env c h)" using g i(2) by (simp add: cancel_wf_def grows_def)
  ultimately show ?thesis by (simp add: handler_inv_def)
qed

lemma handler_inv_step: "handler_step env h h' \<Longrightarrow> handler_inv h \<Longrightarrow> handler_inv h'"
proof (induction rule: handler_step.induct)
  case (receive bs h h1 e)
  then show ?case using active_write generation_inv_write unfolding handler_inv_def by blast
next
  case (finish c h)
  then show ?case by (rule handler_inv_finish[rotated])
qed (auto simp: handler_inv_def active_by_def generation_inv_def cancel_wf_def context_over_def end_shutdown_def)

text \<open>
  C21: However the commands of a client, the ends of the started commands and the closing of the
  connection interleave, a command of a session runs on only while its generation is the active
  one: a START or UPDATE ends every command of the generation before it, and so does a failed
  one. The counter of the active commands is the number of the commands that were started and
  have not ended.
\<close>

theorem one_generation_runs:
  assumes "(handler_step env)\<^sup>*\<^sup>* (new_server_handler user fqdn max_frame linux journalctl store) h"
  shows "(\<forall>c\<in>set (h_started h). cc_generation (started_context c) \<noteq> 0 \<longrightarrow> context_over h (started_context c) \<or>
      sc_active (h_session h) \<and> sc_generation (h_session h) = cc_generation (started_context c)) \<and>
    (h_panicked h \<or> h_active_commands h = of_nat (length (h_started h)))"
proof -
  have "handler_inv h" using assms
    by (induction rule: rtranclp_induct) (auto intro: handler_inv_new handler_inv_step)
  then show ?thesis by (auto simp: handler_inv_def generation_inv_def of_session_def active_by_def)
qed

subsection \<open>What a client asks for is what runs\<close>

definition read_request :: "started \<Rightarrow> (mode \<times> lcontext \<times> gostr \<times> gostr) option" where
  "read_request c =
     (case c of StartedRead m n ctx ltx args \<Rightarrow> Some (m, ltx, args ! 1, join blank (drop 2 args)) | StartedMap ctx \<Rightarrow> None)"

lemma no_blank_itoa: "CHR '' '' \<notin> set (itoa i)"
  using itoa_chars[of "CHR '' ''" i] by (auto simp: digit_val_def)

lemma client_options_no_blank: "CHR '' '' \<notin> set (serialize_client_options a)"
proof -
  have "CHR '' '' \<notin> set (join '':'' xs)" if "\<forall>x\<in>set xs. CHR '' '' \<notin> set x" for xs
    using that by (induction "'':''" xs rule: join.induct) auto
  moreover have "CHR '' '' \<notin> set (option_text kv)" if "kv \<in> set (client_kvs a)" for kv
    using that no_blank_itoa unfolding client_kvs_def set_append Un_iff
    by (elim disjE) (auto simp: option_text_def serialize_option_value_def[of "''true''"] split: if_splits)
  ultimately show ?thesis by (simp add: serialize_client_text)
qed

lemma run_read_command:
  assumes m: "m \<in> {TailClient, CatClient, GrepClient}" and f: "CHR '' '' \<notin> set f"
    and rng: "after_context (co_context a) \<in> {- (2 ^ 63)..<2 ^ 63}" "before_context (co_context a) \<in> {- (2 ^ 63)..<2 ^ 63}"
      "ltx_max_count (co_context a) \<in> {- (2 ^ 63)..<2 ^ 63}"
  shows "\<exists>c. h_started (run_command env (mode_string m @ '':'' @ serialize_client_options a @ blank @ f @ blank @ r) h) = h_started h @ [c] \<and>
    read_request c = Some (m, co_context a, f, r)"
proof -
  let ?opts = "serialize_client_options a"
  let ?a0 = "mode_string m @ '':'' @ ?opts"
  let ?args = "?a0 # f # split blank r"
  have nb: "\<not> contains ?a0 blank" using m client_options_no_blank[of a] by (auto simp: blank_def mode_string_def)
  have "split blank (?a0 @ blank @ f @ blank @ r) = ?args"
    using split_append[of blank ?a0 "f @ blank @ r"] split_append[of blank f r] nb f by (simp add: blank_def)
  then have args: "split blank (mode_string m @ '':'' @ ?opts @ blank @ f @ blank @ r) = ?args" by simp
  obtain n where reg: "map_of command_registry (mode_string m) = Some (ReadCommand m n)"
    using m by (auto simp: command_registry_def mode_string_def)
  have nt: "?a0 \<noteq> ''timeout''" using m by (auto simp: mode_string_def)
  have sp: "split_n '':'' 2 ?a0 = [mode_string m, ?opts]"
    using m by (intro split_n_2_append) (auto simp: mode_string_def)
  have cb: "user_callback env ctx ltx ?args (mode_string m) k =
      k\<lparr>h_active_commands := h_active_commands k + 1, h_started := h_started k @ [StartedRead m n ctx ltx ?args]\<rparr>" for ctx ltx k
    by (simp add: user_callback_def handle_user_command_def reg Let_def)
  have ho: "h_started (handle_options opts k) = h_started k" for opts k by (simp add: handle_options_def)
  have "\<exists>c. h_started (snd (dispatch_command (user_callback env) ctx ?args k)) = h_started k @ [c] \<and>
      fst (dispatch_command (user_callback env) ctx ?args k) = None \<and> read_request c = Some (m, co_context a, f, r)" for ctx k
  proof (cases "?opts = []")
    case True
    have z: "co_context a = zero_context"
      using True by (cases "co_context a") (auto simp: serialize_client_text client_kvs_def zero_context_def option_text_def split: if_splits)
    have "dispatch_command (user_callback env) ctx ?args k = (None, user_callback env ctx zero_context ?args (mode_string m) k)"
      using nt sp True unfolding dispatch_command_def apply_command_timeout_def by simp
    then show ?thesis by (simp only: cb) (simp add: read_request_def z blank_def)
  next
    case False
    obtain opts where o: "deserialize_options [?opts] = Inr (opts, co_context a)" using options_arrive[OF rng] by blast
    have "dispatch_command (user_callback env) ctx ?args k =
        (None, user_callback env ctx (co_context a) ?args (mode_string m) (handle_options opts k))"
      using nt sp False o unfolding dispatch_command_def apply_command_timeout_def by simp
    then show ?thesis by (simp only: cb) (simp add: read_request_def ho blank_def)
  qed
  note disp = this
  let ?h = "h\<lparr>h_write_buf := butlast (command_frame (mode_string m @ '':'' @ ?opts @ blank @ f @ blank @ r)), h_next_context := Suc (h_next_context h)\<rparr>"
  let ?ctx = "\<lparr>cc_chain = [h_next_context h], cc_cancels = [h_next_context h], cc_generation = 0, cc_deadline = None\<rparr>"
  obtain c where c: "h_started (snd (dispatch_command (user_callback env) ?ctx ?args ?h)) = h_started ?h @ [c]"
    "fst (dispatch_command (user_callback env) ?ctx ?args ?h) = None" "read_request c = Some (m, co_context a, f, r)"
    using disp by blast
  obtain k where k: "dispatch_command (user_callback env) ?ctx ?args ?h = (None, k)" using c(2) by (metis prod.collapse)
  have "run_command env (mode_string m @ '':'' @ ?opts @ blank @ f @ blank @ r) h = k\<lparr>h_write_buf := []\<rparr>"
    unfolding run_command_def args run_arguments_def new_command_context_def by (simp add: k[simplified])
  then show ?thesis using c(1,3) k by auto
qed

text \<open>
  C22: What a client asks for is what the server runs. For a cat, grep or tail session the commands
  of its specification start one read for each file, in this order, in the same mode, with the
  context of the lines, the file and the filter expression that the client was given.
\<close>

theorem read_session_arrives:
  assumes "sp_query s = []" and "sp_mode s \<in> {TailClient, CatClient, GrepClient}"
    and "sp_options s = serialize_client_options a"
    and "after_context (co_context a) \<in> {- (2 ^ 63)..<2 ^ 63}" and "before_context (co_context a) \<in> {- (2 ^ 63)..<2 ^ 63}"
    and "ltx_max_count (co_context a) \<in> {- (2 ^ 63)..<2 ^ 63}"
    and "\<forall>f\<in>set (sp_files s). CHR '' '' \<notin> set f" and "serialized_regex compile s = Inr r"
  shows "\<exists>cs. spec_commands compile s = Inr cs \<and>
    map read_request (h_started (foldl (\<lambda>h c. run_command env c h) h cs)) =
      map read_request (h_started h) @ map (\<lambda>f. Some (sp_mode s, co_context a, f, r)) (sp_files s)"
proof -
  let ?c = "\<lambda>f. mode_string (sp_mode s) @ '':'' @ serialize_client_options a @ blank @ f @ blank @ r"
  have "map read_request (h_started (foldl (\<lambda>h c. run_command env c h) h (map ?c fs))) =
      map read_request (h_started h) @ map (\<lambda>f. Some (sp_mode s, co_context a, f, r)) fs"
    if "\<forall>f\<in>set fs. CHR '' '' \<notin> set f" for fs
    using that
  proof (induction fs arbitrary: h)
    case (Cons f fs)
    obtain c where "h_started (run_command env (?c f) h) = h_started h @ [c]" "read_request c = Some (sp_mode s, co_context a, f, r)"
      using run_read_command[OF assms(2) _ assms(4-6), of f env r h] Cons.prems by auto
    then show ?case using Cons by simp
  qed simp
  then show ?thesis using spec_commands_read[OF assms(1,2,8)] assms(3,7) by simp
qed

text \<open>
  A map command without a query ends the server: any client that may open a session can send
  it, and the code dereferences a nil query.
\<close>

theorem map_without_query_panics:
  "h_panicked (run_command env ''map'' h) \<and> h_panicked (run_command env ''map:'' h)"
proof -
  have s: "split blank ''map'' = [''map'']" "split blank ''map:'' = [''map:'']" "split_n '':'' 2 ''map'' = [''map'']"
    "split_n '':'' 2 ''map:'' = [''map'', []]"
    by code_simp+
  have "new_query [] = Inr None" by (simp add: new_query_def)
  then show ?thesis
    by (simp add: run_command_def run_arguments_def new_command_context_def dispatch_command_def apply_command_timeout_def s
        user_callback_def handle_user_command_def command_registry_def handle_map_command_def new_aggregate_def)
qed

subsection \<open>Concrete runs\<close>

definition sample_spec :: spec where
  "sample_spec = zero_spec\<lparr>sp_mode := CatClient, sp_files := [''/f'']\<rparr>"

definition sample_env :: "gostr handler_env" where
  "sample_env = \<lparr>he_registry = [], he_fqdn = ''h.example'', he_tz = ''UTC'', he_offset = 0, he_log_format = [], he_auth_enabled = True,
     he_parse_key = Some, he_json = (\<lambda>s. Some sample_spec), he_compile = literal_compile, he_log = (\<lambda>e. ''log''),
     he_error_text = (\<lambda>e. ''error''), he_query_text = (\<lambda>e. ''query''), he_accepts = (\<lambda>m. True), he_now = 0\<rparr>"

lemma sample_env_parts [simp]: "he_json sample_env s = Some sample_spec" "he_compile sample_env = literal_compile"
  by (simp_all add: sample_env_def)

definition sample_handler :: "int \<Rightarrow> server_handler" where
  "sample_handler m = new_server_handler ''u'' ''h.example'' m True True (new_auth_key_store 0 0)"

lemma sample_handler_parts [simp]:
  "h_write_buf (sample_handler m) = []" "h_max_frame (sample_handler m) = m" "h_started (sample_handler m) = []"
  "h_session (sample_handler m) = zero_session" "h_next_context (sample_handler m) = 0" "\<not> h_done (sample_handler m)"
  by (simp_all add: sample_handler_def new_server_handler_def send_def)

lemma sample_frame: "command_frame ''map'' = ''protocol '' @ protocol_compat @ '' base64 bWFw;''"
proof -
  have "b64_encode ''map'' = ''bWFw''" by (simp add: b64_char_def b64_alphabet_def byte_def Let_def)
  then show ?thesis by (simp add: command_frame_def)
qed

lemma commands_arrive_witness:
  "write_chunks (user_callback sample_env) sample_env [''protocol '' @ protocol_compat, '' base64 bWFw;''] (sample_handler 100) =
     (run_command sample_env ''map'' (sample_handler 100), False)"
  using commands_arrive[of "[''protocol '' @ protocol_compat, '' base64 bWFw;'']" "[''map'']" "sample_handler 100" sample_env]
  by (simp add: sample_frame protocol_compat_def)

lemma frame_buffer_bounded_witness:
  "snd (write_chunks (user_callback sample_env) sample_env [''ab'', ''cd''] (sample_handler 3)) \<and>
   h_done (fst (write_chunks (user_callback sample_env) sample_env [''ab'', ''cd''] (sample_handler 3)))"
proof -
  obtain h1 e where w: "write_chunks (user_callback sample_env) sample_env [''ab'', ''cd''] (sample_handler 3) = (h1, e)" by fastforce
  have "3 < int (length (unfinished_frame [] (take 4 (concat [''ab'', ''cd'']))))" by (simp add: semicolon_def)
  then have x: "\<exists>n. 3 < int (length (unfinished_frame [] (take n (concat [''ab'', ''cd'']))))" by (rule exI[of _ 4])
  from frame_buffer_bounded[of "sample_handler 3", OF _ _ w] have "e" "h_done h1" unfolding sample_handler_parts using x by simp_all
  then show ?thesis unfolding w by simp
qed

lemma sample_words:
  "split blank ''SESSION START cGF5'' = [''SESSION'', ''START'', ''cGF5'']"
  "split_n '':'' 2 ''SESSION'' = [''SESSION'']" "split_n '':'' 2 ''cat:'' = [''cat'', []]"
  "to_upper (trim_space ''START'') = ''START''"
  "str_fields ''cat: /f regex:noop '' = [''cat:'', ''/f'', ''regex:noop'']"
  by code_simp+

lemma sample_payload: "b64_decode ''cGF5'' = Some ''pay''"
proof -
  have "b64_encode ''pay'' = ''cGF5''" by (simp add: b64_char_def b64_alphabet_def byte_def Let_def)
  then show ?thesis using b64_decode_encode[of "''pay''"] by simp
qed
lemma sample_commands: "spec_commands literal_compile sample_spec = Inr [''cat: /f regex:noop '']"
    by (simp add: spec_commands_def read_commands_def serialized_regex_def sample_spec_def zero_spec_def new_regex_def new_noop_def
        zero_regex_def serialize_regex_def mode_string_def flag_string_def blank_def)

lemma sample_parse: "parse_session_command sample_env [''SESSION'', ''START'', ''cGF5''] = Inr (''START'', 0, sample_spec)"
proof -
  have v: "validate_session_spec sample_env sample_spec = None"
    unfolding validate_session_spec_def sample_env_parts sample_commands
    by (simp add: sample_spec_def zero_spec_def validate_session_options_def)
  show ?thesis by (simp add: parse_session_command_def sample_words sample_payload v)
qed

lemma sample_registry: "map_of command_registry ''SESSION'' = Some SessionCommand" "map_of command_registry ''cat'' = Some (ReadCommand CatClient 1)"
  by (simp_all add: command_registry_def)

lemma sample_read:
  "handle_raw_command (inner_callback sample_env) ctx ''cat: /f regex:noop '' h =
     (None, h\<lparr>h_active_commands := h_active_commands h + 1,
       h_started := h_started h @ [StartedRead CatClient 1 ctx zero_context [''cat:'', ''/f'', ''regex:noop'']]\<rparr>)"
  by (simp add: handle_raw_command_def sample_words dispatch_command_def apply_command_timeout_def sample_words
      inner_callback_def handle_user_command_def sample_registry Let_def)

lemma sample_started [simp]: "h_started (send m h) = h_started h" "h_started (command_finished env name ctx h) = h_started h"
  by (auto simp: send_def command_finished_def cancel_command_context_def begin_shutdown_def Let_def split: option.splits)

lemma sample_session_of [simp]: "h_session (send m h) = h_session h" "h_session (command_finished env name ctx h) = h_session h"
  by (auto simp: send_def command_finished_def cancel_command_context_def begin_shutdown_def Let_def split: option.splits)

lemma sample_session_started:
  "h_started (run_command sample_env ''SESSION START cGF5'' (sample_handler 0)) =
     [StartedRead CatClient 1 \<lparr>cc_chain = [1], cc_cancels = [], cc_generation = 1, cc_deadline = None\<rparr> zero_context
        [''cat:'', ''/f'', ''regex:noop'']]"
  by (simp add: run_command_def sample_words run_arguments_def new_command_context_def dispatch_command_def apply_command_timeout_def
        user_callback_def handle_user_command_def sample_registry handle_session_command_def sample_parse start_session_def
        prepare_session_commands_def sample_commands run_generation_def reset_session_aggregates_def 
        sample_read zero_session_def Let_def)

lemma one_generation_runs_witness:
  "context_over (run_command sample_env ''SESSION START cGF5'' (sample_handler 0)) \<lparr>cc_chain = [1], cc_cancels = [], cc_generation = 1, cc_deadline = None\<rparr> \<or>
   sc_generation (h_session (run_command sample_env ''SESSION START cGF5'' (sample_handler 0))) = 1"
proof -
  let ?h = "run_command sample_env ''SESSION START cGF5'' (sample_handler 0)"
  have "handler_write (user_callback sample_env) sample_env (command_frame ''SESSION START cGF5'') (sample_handler 0) = (?h, False)"
    using handler_write_frame[OF command_frame_parts(2), of "sample_handler 0" "''SESSION START cGF5''" sample_env "[]"]
    by (simp add: receive_command_frame command_frame_parts(1)[symmetric])
  then have "(handler_step sample_env)\<^sup>*\<^sup>* (new_server_handler ''u'' ''h.example'' 0 True True (new_auth_key_store 0 0)) ?h"
    unfolding sample_handler_def by (intro r_into_rtranclp handler_step.receive)
  from one_generation_runs[OF this] show ?thesis by (simp add: sample_session_started started_context_def) blast
qed

lemma read_session_arrives_witness:
  "\<exists>cs. spec_commands literal_compile sample_spec = Inr cs \<and>
    map read_request (h_started (foldl (\<lambda>h c. run_command sample_env c h) (sample_handler 0) cs)) =
      [Some (CatClient, zero_context, ''/f'', ''regex:noop '')]"
proof -
  have r: "serialized_regex literal_compile sample_spec = Inr ''regex:noop ''"
    by (simp add: serialized_regex_def sample_spec_def zero_spec_def new_regex_def new_noop_def zero_regex_def serialize_regex_def
        flag_string_def)
  have o: "sp_options sample_spec = serialize_client_options \<lparr>co_quiet = False, co_plain = False, co_serverless = False, co_context = zero_context\<rparr>"
    by (simp add: sample_spec_def zero_spec_def serialize_client_options_def put_if_def zero_context_def serialize_options_def)
  show ?thesis
    using read_session_arrives[OF _ _ o _ _ _ _ r, of sample_env "sample_handler 0"]
    by (simp add: sample_spec_def zero_spec_def zero_context_def)
qed

end
