(* ===== verification/Client_Handler.thy ===== *)
theory Client_Handler
  imports Protocol Map_Client
begin

text \<open>
  The handlers of one server connection on the client (\<open>internal/clients/handlers\<close>): the messages
  of the server are cut out of the bytes that arrive, shown, aggregated or taken as control
  messages, and the frames of commands are handed out in pieces. The channel of the commands is
  unbuffered: what became of a send to it is part of the argument \<open>client_env\<close>, beside the choice of
  a \<open>select\<close> where the end of the handler is ready as well. The channel of the acknowledgements has
  room for four. What goes to the logger is a list of events.
\<close>

subsection \<open>State\<close>

datatype send_outcome = Taken | SendTimedOut | HandlerDone

record client_env =
  ce_send :: send_outcome
  ce_done_wins :: bool

record session_ack =
  ack_action :: gostr
  ack_generation :: uint64
  ack_error :: gostr

datatype client_event =
    Printed gostr
  | Reported gostr
  | AuthKeyAccepted
  | AuthKeyFailed gostr
  | BadSessionAck gostr
  | AckQueueFull gostr
  | CloseNotAcknowledged
  | BadAggregateMessage gostr
  | AggregateFailed client_error
  | FlushFailed client_error

record client_handler =
  ch_server :: gostr
  ch_commands :: "gostr list"
  ch_receive_buf :: gostr
  ch_pending_command :: gostr
  ch_status :: int
  ch_capabilities :: "gostr list"
  ch_capabilities_known :: bool
  ch_acks :: "session_ack list"
  ch_done :: bool
  ch_events :: "client_event list"

definition new_client_handler :: "gostr \<Rightarrow> client_handler" where
  "new_client_handler server =
     \<lparr>ch_server = server, ch_commands = [], ch_receive_buf = [], ch_pending_command = [], ch_status = - 1, ch_capabilities = [],
       ch_capabilities_known = False, ch_acks = [], ch_done = False, ch_events = []\<rparr>"

text \<open>The status of a health check is critical until the server says otherwise.\<close>

definition new_health_handler :: "gostr \<Rightarrow> client_handler" where
  "new_health_handler server = (new_client_handler server)\<lparr>ch_status := 2\<rparr>"

record mapr_handler = client_handler +
  mh_session :: "session_state option"
  mh_aggregate :: client_aggregate
  mh_removed_nl :: bool

definition new_mapr_handler :: "gostr \<Rightarrow> session_state option \<Rightarrow> mapr_handler" where
  "new_mapr_handler server s =
     client_handler.extend (new_client_handler server)
       (mapr_handler.fields s (new_client_aggregate server s) False)"

definition event :: "client_event \<Rightarrow> 'a client_handler_scheme \<Rightarrow> 'a client_handler_scheme" where
  "event e h = h\<lparr>ch_events := ch_events h @ [e]\<rparr>"

subsection \<open>Commands\<close>

text \<open>The flag tells that the send timed out.\<close>

definition send_message :: "send_outcome \<Rightarrow> gostr \<Rightarrow> 'a client_handler_scheme \<Rightarrow> 'a client_handler_scheme \<times> bool" where
  "send_message outcome command h =
     (case outcome of
        Taken \<Rightarrow> (h\<lparr>ch_commands := ch_commands h @ [command_frame command]\<rparr>, False)
      | SendTimedOut \<Rightarrow> (h, True)
      | HandlerDone \<Rightarrow> (h, False))"

definition consume_command :: "nat \<Rightarrow> gostr \<Rightarrow> 'a client_handler_scheme \<Rightarrow> gostr \<times> 'a client_handler_scheme" where
  "consume_command n command h =
     (take n command, if n < length command then h\<lparr>ch_pending_command := drop n command\<rparr> else h)"

text \<open>
  \<open>Read\<close> into a buffer of \<open>n\<close> bytes: the bytes, and whether it was the end. It blocks, which is
  \<open>None\<close>, while there is no command and the handler is not done.
\<close>

definition client_read :: "nat \<Rightarrow> 'a client_handler_scheme \<Rightarrow> (gostr \<times> bool \<times> 'a client_handler_scheme) option" where
  "client_read n h =
     (if ch_pending_command h \<noteq> [] then
        Some (take n (ch_pending_command h), False, h\<lparr>ch_pending_command := drop n (ch_pending_command h)\<rparr>)
      else case ch_commands h of
          command # commands \<Rightarrow>
            (case consume_command n command (h\<lparr>ch_commands := commands\<rparr>) of (bs, h1) \<Rightarrow> Some (bs, False, h1))
        | [] \<Rightarrow> if ch_done h then Some ([], True, h) else None)"

subsection \<open>Messages of the server\<close>

text \<open>\<open>None\<close> is a message that is not about keys.\<close>

datatype auth_key_result = KeyAccepted | KeyRejected gostr

definition parse_auth_key_message :: "gostr \<Rightarrow> auth_key_result option" where
  "parse_auth_key_message message =
     (if message = [] then None
      else
        let payload = trim_space (last (split field_delimiter (trim_space message))) in
        if payload = ''AUTHKEY OK'' then Some KeyAccepted
        else if has_prefix payload ''AUTHKEY ERR'' then Some (KeyRejected (trim_space (trim_prefix payload ''AUTHKEY ERR'')))
        else None)"

definition handle_auth_key_message :: "gostr \<Rightarrow> 'a client_handler_scheme \<Rightarrow> 'a client_handler_scheme \<times> bool" where
  "handle_auth_key_message message h =
     (case parse_auth_key_message message of
        None \<Rightarrow> (h, False)
      | Some KeyAccepted \<Rightarrow> (event AuthKeyAccepted h, True)
      | Some (KeyRejected detail) \<Rightarrow> (event (AuthKeyFailed detail) h, True))"

definition handle_capabilities_message :: "gostr \<Rightarrow> 'a client_handler_scheme \<Rightarrow> 'a client_handler_scheme" where
  "handle_capabilities_message message h =
     h\<lparr>ch_capabilities := foldl (\<lambda>cs c. if c = [] then cs else List.insert c cs) (ch_capabilities h)
         (str_fields (trim_prefix message hidden_capabilities_prefix)),
       ch_capabilities_known := True\<rparr>"

definition parse_session_ok_ack :: "gostr \<Rightarrow> gostr \<Rightarrow> session_ack option" where
  "parse_session_ok_ack payload action =
     (let generation = trim_space payload in
      if generation = [] then None
      else case parse_uint generation of
          (_, Some e) \<Rightarrow> None
        | (g, None) \<Rightarrow> Some \<lparr>ack_action = action, ack_generation = g, ack_error = []\<rparr>)"

definition parse_session_ack_message :: "gostr \<Rightarrow> session_ack option" where
  "parse_session_ack_message message =
     (let payload = trim_space message in
      if payload = [] then None
      else if has_prefix payload hidden_session_start_ok_prefix then
        parse_session_ok_ack (trim_prefix payload hidden_session_start_ok_prefix) ''start''
      else if has_prefix payload hidden_session_update_ok_prefix then
        parse_session_ok_ack (trim_prefix payload hidden_session_update_ok_prefix) ''update''
      else if has_prefix payload hidden_session_error_prefix then
        Some \<lparr>ack_action = ''error'', ack_generation = 0, ack_error = trim_space (trim_prefix payload hidden_session_error_prefix)\<rparr>
      else None)"

definition ack_queue_size :: nat where
  "ack_queue_size = 4"

definition handle_session_ack_message :: "client_env \<Rightarrow> gostr \<Rightarrow> 'a client_handler_scheme \<Rightarrow> 'a client_handler_scheme" where
  "handle_session_ack_message env message h =
     (case parse_session_ack_message message of
        None \<Rightarrow> event (BadSessionAck message) h
      | Some ack \<Rightarrow>
          if ch_done h \<and> (ce_done_wins env \<or> ack_queue_size \<le> length (ch_acks h)) then h
          else if length (ch_acks h) < ack_queue_size then h\<lparr>ch_acks := ch_acks h @ [ack]\<rparr>
          else event (AckQueueFull message) h)"

definition client_shutdown :: "'a client_handler_scheme \<Rightarrow> 'a client_handler_scheme" where
  "client_shutdown h = h\<lparr>ch_done := True\<rparr>"

definition handle_hidden_message :: "client_env \<Rightarrow> gostr \<Rightarrow> 'a client_handler_scheme \<Rightarrow> 'a client_handler_scheme" where
  "handle_hidden_message env message h =
     (if has_prefix message hidden_capabilities_prefix then handle_capabilities_message message h
      else if has_prefix message hidden_session_start_ok_prefix \<or> has_prefix message hidden_session_update_ok_prefix \<or>
          has_prefix message hidden_session_error_prefix then handle_session_ack_message env message h
      else if has_prefix message ''.syn close connection'' then
        (case send_message (ce_send env) ''.ack close connection'' h of
           (h1, timed_out) \<Rightarrow> client_shutdown (if timed_out then event CloseNotAcknowledged h1 else h1))
      else h)"

definition with_newline :: "gostr \<Rightarrow> gostr" where
  "with_newline message = (if message \<noteq> [] \<and> last message = CHR 0x0A then message else message @ [CHR 0x0A])"

definition handle_message :: "client_env \<Rightarrow> gostr \<Rightarrow> 'a client_handler_scheme \<Rightarrow> 'a client_handler_scheme" where
  "handle_message env message h =
     (if message \<noteq> [] \<and> hd message = CHR ''.'' then handle_hidden_message env message h
      else case handle_auth_key_message message h of
          (h1, True) \<Rightarrow> h1
        | (h1, False) \<Rightarrow> event (Printed (with_newline message)) h1)"

fun client_write :: "client_env \<Rightarrow> gostr \<Rightarrow> 'a client_handler_scheme \<Rightarrow> 'a client_handler_scheme" where
  "client_write env [] h = h"
| "client_write env (b # bs) h =
     (if b = message_delimiter
      then client_write env bs ((handle_message env (ch_receive_buf h) h)\<lparr>ch_receive_buf := []\<rparr>)
      else client_write env bs (h\<lparr>ch_receive_buf := ch_receive_buf h @ [b]\<rparr>))"

definition format_server_error_message :: "gostr \<Rightarrow> gostr \<Rightarrow> gostr" where
  "format_server_error_message server message =
     ''SERVER'' @ field_delimiter @ server @ field_delimiter @ ''ERROR'' @ field_delimiter @ message"

definition report_server_error :: "gostr \<Rightarrow> 'a client_handler_scheme \<Rightarrow> 'a client_handler_scheme" where
  "report_server_error message h =
     event (Reported (format_server_error_message (ch_server h) message)) (h\<lparr>ch_status := 1\<rparr>)"

subsection \<open>Waiting\<close>

text \<open>
  With a positive timeout the wait also ends when the handler is done. Nothing ready at the end of
  the wait is the timeout.
\<close>

definition wait_for_session_ack :: "client_env \<Rightarrow> int \<Rightarrow> 'a client_handler_scheme \<Rightarrow> session_ack option \<times> 'a client_handler_scheme" where
  "wait_for_session_ack env timeout h =
     (if 0 < timeout \<and> ch_done h \<and> ce_done_wins env then (None, h)
      else case ch_acks h of [] \<Rightarrow> (None, h) | ack # acks \<Rightarrow> (Some ack, h\<lparr>ch_acks := acks\<rparr>))"

definition wait_for_capabilities :: "client_env \<Rightarrow> int \<Rightarrow> 'a client_handler_scheme \<Rightarrow> bool" where
  "wait_for_capabilities env timeout h =
     (if 0 < timeout \<and> ch_done h \<and> ce_done_wins env then False else ch_capabilities_known h)"

definition capabilities :: "'a client_handler_scheme \<Rightarrow> gostr list" where
  "capabilities h = sort (ch_capabilities h)"

definition has_capability :: "gostr \<Rightarrow> 'a client_handler_scheme \<Rightarrow> bool" where
  "has_capability name h = (name \<in> set (ch_capabilities h))"

subsection \<open>Health checks\<close>

definition handle_health_message :: "client_env \<Rightarrow> gostr \<Rightarrow> 'a client_handler_scheme \<Rightarrow> 'a client_handler_scheme" where
  "handle_health_message env message h =
     (if message \<noteq> [] \<and> hd message = CHR ''.'' then handle_hidden_message env message h
      else if last (split field_delimiter message) = ''OK'' then h\<lparr>ch_status := 0\<rparr>
      else h)"

fun health_write :: "client_env \<Rightarrow> gostr \<Rightarrow> 'a client_handler_scheme \<Rightarrow> 'a client_handler_scheme" where
  "health_write env [] h = h"
| "health_write env (b # bs) h =
     (if b = CHR 0x0A \<or> b = message_delimiter
      then health_write env bs ((handle_health_message env (ch_receive_buf h) h)\<lparr>ch_receive_buf := []\<rparr>)
      else health_write env bs (h\<lparr>ch_receive_buf := ch_receive_buf h @ [b]\<rparr>))"

subsection \<open>Map-reduce\<close>

definition is_aggregate_message :: "gostr \<Rightarrow> bool" where
  "is_aggregate_message message = has_prefix message (aggregate_message_id @ field_delimiter)"

definition handle_aggregate_message :: "gostr \<Rightarrow> mapr_handler \<Rightarrow> mapr_handler" where
  "handle_aggregate_message message h =
     (case split_n field_delimiter 3 message of
        [_, _, payload] \<Rightarrow>
          (case client_aggregate_call (mh_session h) (mh_aggregate h) payload of
             (s, a, e) \<Rightarrow>
               let h1 = h\<lparr>mh_session := s, mh_aggregate := a\<rparr> in
               (case e of None \<Rightarrow> h1 | Some e \<Rightarrow> event (AggregateFailed e) h1))
      | _ \<Rightarrow> event (BadAggregateMessage message) h)"

text \<open>A message between two delimiters; the newlines in it were taken out.\<close>

definition handle_mapr_message :: "client_env \<Rightarrow> gostr \<Rightarrow> mapr_handler \<Rightarrow> mapr_handler" where
  "handle_mapr_message env message h =
     (if message = [] then h
      else if is_aggregate_message message then handle_aggregate_message message h
      else handle_message env (if mh_removed_nl h then message @ [CHR 0x0A] else message) h)"

fun mapr_write :: "client_env \<Rightarrow> gostr \<Rightarrow> mapr_handler \<Rightarrow> mapr_handler" where
  "mapr_write env [] h = h"
| "mapr_write env (b # bs) h =
     (if b = CHR 0x0A then mapr_write env bs (h\<lparr>mh_removed_nl := True\<rparr>)
      else if b = message_delimiter
      then mapr_write env bs ((handle_mapr_message env (ch_receive_buf h) h)\<lparr>ch_receive_buf := [], mh_removed_nl := False\<rparr>)
      else mapr_write env bs (h\<lparr>ch_receive_buf := ch_receive_buf h @ [b]\<rparr>))"

definition mapr_shutdown :: "mapr_handler \<Rightarrow> mapr_handler" where
  "mapr_shutdown h =
     (case client_flush (mh_session h) (mh_aggregate h) of
        (s, a, e) \<Rightarrow>
          let h1 = h\<lparr>mh_session := s, mh_aggregate := a\<rparr> in
          client_shutdown (case e of None \<Rightarrow> h1 | Some e \<Rightarrow> event (FlushFailed e) h1))"

subsection \<open>The bytes do not depend on the reads\<close>

lemma ch_update_simps [simp]:
  "ch_done (event e h) = ch_done h" "ch_acks (event e h) = ch_acks h" "ch_commands (event e h) = ch_commands h"
  "ch_receive_buf (event e h) = ch_receive_buf h" "ch_status (event e h) = ch_status h"
  by (simp_all add: event_def)

lemma handle_capabilities_buf:
  "handle_capabilities_message m (h\<lparr>ch_receive_buf := b\<rparr>) = (handle_capabilities_message m h)\<lparr>ch_receive_buf := b\<rparr>"
  by (simp add: handle_capabilities_message_def)

lemma handle_session_ack_buf:
  "handle_session_ack_message env m (h\<lparr>ch_receive_buf := b\<rparr>) = (handle_session_ack_message env m h)\<lparr>ch_receive_buf := b\<rparr>"
  by (cases "parse_session_ack_message m") (simp_all add: handle_session_ack_message_def event_def)

lemma handle_hidden_buf:
  "handle_hidden_message env m (h\<lparr>ch_receive_buf := b\<rparr>) = (handle_hidden_message env m h)\<lparr>ch_receive_buf := b\<rparr>"
proof (cases "ce_send env")
qed (simp_all add: handle_hidden_message_def handle_capabilities_buf handle_session_ack_buf send_message_def client_shutdown_def event_def)

lemma handle_message_buf:
  "handle_message env m (h\<lparr>ch_receive_buf := b\<rparr>) = (handle_message env m h)\<lparr>ch_receive_buf := b\<rparr>"
proof (cases "parse_auth_key_message m")
  case (Some r)
  then show ?thesis by (cases r; cases "m = []") (simp_all add: handle_message_def handle_hidden_buf handle_auth_key_message_def event_def)
next
  case None
  then show ?thesis by (cases "m = []") (simp_all add: handle_message_def handle_hidden_buf handle_auth_key_message_def event_def)
qed

lemma client_write_append: "client_write env (xs @ ys) h = client_write env ys (client_write env xs h)"
  by (induction xs arbitrary: h) auto

lemma client_write_chunks: "foldl (\<lambda>h c. client_write env c h) h chunks = client_write env (concat chunks) h"
  by (induction chunks arbitrary: h) (simp_all add: client_write_append)

lemma client_write_text: "message_delimiter \<notin> set m \<Longrightarrow> client_write env m h = h\<lparr>ch_receive_buf := ch_receive_buf h @ m\<rparr>"
  by (induction m arbitrary: h) auto

lemma client_write_message:
  assumes "message_delimiter \<notin> set m" and "ch_receive_buf h = []"
  shows "client_write env (m @ [message_delimiter] @ rest) h = client_write env rest (handle_message env m h)"
proof -
  have "h\<lparr>ch_receive_buf := []\<rparr> = h" unfolding assms(2)[symmetric] by simp
  then have e: "(handle_message env m h)\<lparr>ch_receive_buf := []\<rparr> = handle_message env m h"
    using handle_message_buf[of env m "[]" h] by simp
  show ?thesis using assms by (simp add: client_write_append client_write_text handle_message_buf e)
qed

lemma handle_message_keeps_buf [simp]: "ch_receive_buf (handle_message env m h) = ch_receive_buf h"
proof -
  have "handle_message env m h = (handle_message env m h)\<lparr>ch_receive_buf := ch_receive_buf h\<rparr>"
    using handle_message_buf[of env m "ch_receive_buf h" h] by simp
  then show ?thesis by (rule trans[OF arg_cong[where f = ch_receive_buf]]) simp
qed

lemma messages_received:
  assumes "concat chunks = concat (map (\<lambda>m. m @ [message_delimiter]) ms)" and "\<forall>m\<in>set ms. message_delimiter \<notin> set m"
    and "ch_receive_buf h = []"
  shows "foldl (\<lambda>h c. client_write env c h) h chunks = foldl (\<lambda>h m. handle_message env m h) h ms"
  unfolding client_write_chunks assms(1) using assms(2,3)
proof (induction ms arbitrary: h)
  case (Cons m ms)
  then have "client_write env (concat (map (\<lambda>m. m @ [message_delimiter]) (m # ms))) h =
      client_write env (concat (map (\<lambda>m. m @ [message_delimiter]) ms)) (handle_message env m h)"
    using client_write_message[of m h env "concat (map (\<lambda>m. m @ [message_delimiter]) ms)"] by simp
  then show ?case using Cons by simp
qed simp

subsection \<open>Frames come through in pieces\<close>

text \<open>What is still to be read.\<close>

definition unread :: "'a client_handler_scheme \<Rightarrow> gostr" where
  "unread h = ch_pending_command h @ concat (ch_commands h)"

lemma client_read_unread: "client_read n h = Some (bs, e, h1) \<Longrightarrow> bs @ unread h1 = unread h"
  by (auto simp: client_read_def consume_command_def unread_def split: if_splits list.splits)

lemma client_read_progress:
  "client_read n h = Some (bs, e, h1) \<Longrightarrow> 0 < n \<Longrightarrow> unread h \<noteq> [] \<Longrightarrow> [] \<notin> set (ch_commands h) \<Longrightarrow> bs \<noteq> [] \<and> \<not> e \<and> [] \<notin> set (ch_commands h1)"
  by (auto simp: client_read_def consume_command_def unread_def split: if_splits list.splits)

subsection \<open>Acknowledgements\<close>

text \<open>A character that \<open>trim_space\<close> leaves at the ends of a text.\<close>

definition solid :: "char \<Rightarrow> bool" where
  "solid c \<longleftrightarrow> (of_char c :: nat) < 128 \<and> \<not> ascii_space c"

lemma space2_wide: "space2 c d \<Longrightarrow> \<not> (of_char c :: nat) < 128 \<and> \<not> (of_char d :: nat) < 128"
  unfolding space2_def by (elim conjE disjE) simp_all

lemma space3_wide: "space3 c d e \<Longrightarrow> \<not> (of_char c :: nat) < 128 \<and> \<not> (of_char e :: nat) < 128"
  unfolding space3_def insert_iff empty_iff by (elim conjE disjE) simp_all

lemma space_len_solid: "solid c \<Longrightarrow> space_len (c # s) = 0"
  using space2_wide space3_wide by (cases "c # s" rule: space_len.cases) (auto simp: solid_def simp del: of_char_eq_iff)

lemma space_len_rev_solid: "solid c \<Longrightarrow> space_len_rev (c # s) = 0"
  using space2_wide space3_wide by (cases "c # s" rule: space_len_rev.cases) (auto simp: solid_def simp del: of_char_eq_iff)

lemma trim_space_solid: "s \<noteq> [] \<Longrightarrow> solid (hd s) \<Longrightarrow> solid (last s) \<Longrightarrow> trim_space s = s"
  by (rule trim_space_id) (metis list.collapse space_len_solid, metis hd_rev list.collapse rev_is_Nil_conv space_len_rev_solid)

lemma trim_space_blank: "s \<noteq> [] \<Longrightarrow> solid (hd s) \<Longrightarrow> solid (last s) \<Longrightarrow> trim_space (CHR '' '' # s) = s"
proof -
  assume s: "s \<noteq> []" "solid (hd s)" "solid (last s)"
  have b: "space_len (CHR '' '' # s) = 1" by (cases "CHR '' '' # s" rule: space_len.cases) (simp_all add: ascii_space_def)
  have "trim_left (CHR '' '' # s) = trim_left s" using b by (subst trim_left.simps) simp
  then have "trim_space (CHR '' '' # s) = trim_space s" by (simp add: trim_space_def)
  then show ?thesis using trim_space_solid[OF s] by simp
qed

lemma solid_digit: "is_digit c \<Longrightarrow> solid c"
proof -
  assume d: "is_digit c"
  have "\<not> ascii_space c"
  proof
    assume "ascii_space c"
    then have "(of_char c :: nat) \<le> 32" unfolding ascii_space_def insert_iff empty_iff by (elim disjE) simp_all
    then show False using d unfolding is_digit_code by linarith
  qed
  then show ?thesis using d unfolding is_digit_code by (simp add: solid_def)
qed

lemma solid_uint: "solid (hd (format_uint g))" "solid (last (format_uint g))"
proof -
  have "solid c" if "c \<in> set (format_uint g)" for c using that format_uint_digits solid_digit by blast
  then show "solid (hd (format_uint g))" "solid (last (format_uint g))" by simp_all
qed

lemma has_prefix_append [simp]: "has_prefix (p @ s) p"
  by (simp add: has_prefix_def)

lemma session_ok_ack: "parse_session_ok_ack (CHR '' '' # format_uint g) action =
    Some \<lparr>ack_action = action, ack_generation = g, ack_error = []\<rparr>"
  by (simp add: parse_session_ok_ack_def trim_space_blank solid_uint)

lemma session_ok_payload: "p \<noteq> [] \<Longrightarrow> solid (hd p) \<Longrightarrow> trim_space (p @ CHR '' '' # format_uint g) = p @ CHR '' '' # format_uint g"
  by (rule trim_space_solid) (simp_all add: solid_uint)

lemma solid_dot: "solid (CHR ''.'')"
  by (simp add: solid_def ascii_space_def)

lemma start_ack_parses:
  "parse_session_ack_message (hidden_session_start_ok_prefix @ CHR '' '' # format_uint g) =
     Some \<lparr>ack_action = ''start'', ack_generation = g, ack_error = []\<rparr>"
proof -
  let ?m = "hidden_session_start_ok_prefix @ CHR '' '' # format_uint g"
  have "trim_space ?m = ?m" by (rule session_ok_payload) (simp_all add: hidden_session_start_ok_prefix_def solid_dot)
  then show ?thesis by (simp add: parse_session_ack_message_def Let_def session_ok_ack)
qed

lemma update_ack_parses:
  "parse_session_ack_message (hidden_session_update_ok_prefix @ CHR '' '' # format_uint g) =
     Some \<lparr>ack_action = ''update'', ack_generation = g, ack_error = []\<rparr>"
proof -
  let ?m = "hidden_session_update_ok_prefix @ CHR '' '' # format_uint g"
  have "trim_space ?m = ?m" by (rule session_ok_payload) (simp_all add: hidden_session_update_ok_prefix_def solid_dot)
  moreover have "\<not> has_prefix ?m hidden_session_start_ok_prefix"
    by (simp add: hidden_session_update_ok_prefix_def hidden_session_start_ok_prefix_def has_prefix_def)
  ultimately show ?thesis by (simp add: parse_session_ack_message_def Let_def session_ok_ack)
qed

lemma error_ack_parses:
  assumes "t \<noteq> []" and "solid (hd t)" and "solid (last t)"
  shows "parse_session_ack_message (hidden_session_error_prefix @ t) =
     Some \<lparr>ack_action = ''error'', ack_generation = 0, ack_error = t\<rparr>"
proof -
  let ?m = "hidden_session_error_prefix @ t"
  have "trim_space ?m = ?m" by (rule trim_space_solid) (use assms in \<open>simp_all add: hidden_session_error_prefix_def solid_dot\<close>)
  moreover have "\<not> has_prefix ?m hidden_session_start_ok_prefix" "\<not> has_prefix ?m hidden_session_update_ok_prefix"
    by (simp_all add: hidden_session_update_ok_prefix_def hidden_session_start_ok_prefix_def hidden_session_error_prefix_def has_prefix_def)
  ultimately show ?thesis using assms by (simp add: parse_session_ack_message_def Let_def trim_space_solid)
qed

subsection \<open>Health\<close>

lemma health_write_text:
  "message_delimiter \<notin> set m \<Longrightarrow> CHR 0x0A \<notin> set m \<Longrightarrow> health_write env m h = h\<lparr>ch_receive_buf := ch_receive_buf h @ m\<rparr>"
  by (induction m arbitrary: h) auto

lemma health_write_append: "health_write env (xs @ ys) h = health_write env ys (health_write env xs h)"
  by (induction xs arbitrary: h) auto

lemma health_write_message:
  assumes "message_delimiter \<notin> set m" and "CHR 0x0A \<notin> set m" and "ch_receive_buf h = []"
  shows "health_write env (m @ [message_delimiter]) h =
    (handle_health_message env m (h\<lparr>ch_receive_buf := m\<rparr>))\<lparr>ch_receive_buf := []\<rparr>"
  using assms by (simp add: health_write_append health_write_text)

subsection \<open>Aggregates\<close>

lemma mapr_write_append: "mapr_write env (xs @ ys) h = mapr_write env ys (mapr_write env xs h)"
  by (induction xs arbitrary: h) auto

lemma mapr_write_text:
  "message_delimiter \<notin> set m \<Longrightarrow> CHR 0x0A \<notin> set m \<Longrightarrow> mapr_write env m h = h\<lparr>ch_receive_buf := ch_receive_buf h @ m\<rparr>"
  by (induction m arbitrary: h) auto

lemma aggregate_message_parts:
  assumes "CHR ''|'' \<notin> set host"
  shows "split_n field_delimiter 3 (aggregate_message_id @ field_delimiter @ host @ field_delimiter @ payload) =
    [aggregate_message_id, host, payload]"
proof -
  have 1: "\<not> contains aggregate_message_id field_delimiter" by (simp add: aggregate_message_id_def field_delimiter_def)
  have 2: "\<not> contains host field_delimiter" using assms by (simp add: field_delimiter_def)
  have s: "simple_sep field_delimiter" by (simp add: field_delimiter_def)
  show ?thesis
    using split_n_append[of field_delimiter aggregate_message_id] split_n_append[of field_delimiter host] 1 2 s 
    by (simp add: numeral_3_eq_3)
qed

text \<open>A message of an aggregate reaches the aggregate of the client, and nothing else happens.\<close>

lemma aggregate_message_arrives:
  assumes "CHR ''|'' \<notin> set host" and "message_delimiter \<notin> set (host @ payload)" and "CHR 0x0A \<notin> set (host @ payload)"
    and "ch_receive_buf h = []" and "\<not> mh_removed_nl h"
    and "client_aggregate_call (mh_session h) (mh_aggregate h) payload = (s, a, None)"
  shows "mapr_write env (aggregate_message_id @ field_delimiter @ host @ field_delimiter @ payload @ [message_delimiter]) h =
    h\<lparr>mh_session := s, mh_aggregate := a\<rparr>"
proof -
  let ?m = "aggregate_message_id @ field_delimiter @ host @ field_delimiter @ payload"
  have free: "message_delimiter \<notin> set ?m" "CHR 0x0A \<notin> set ?m"
    using assms(2,3) by (auto simp: aggregate_message_id_def field_delimiter_def message_delimiter_def)
  have "mapr_write env (?m @ [message_delimiter]) h =
      (handle_mapr_message env ?m (h\<lparr>ch_receive_buf := ?m\<rparr>))\<lparr>ch_receive_buf := [], mh_removed_nl := False\<rparr>"
    using free assms(4) by (simp add: mapr_write_append mapr_write_text message_delimiter_def)
  moreover have "is_aggregate_message ?m" by (simp add: is_aggregate_message_def has_prefix_def)
  moreover have "aggregate_message_id \<noteq> []" by (simp add: aggregate_message_id_def)
  moreover have "h\<lparr>mh_session := s, mh_aggregate := a, ch_receive_buf := [], mh_removed_nl := False\<rparr> = h\<lparr>mh_session := s, mh_aggregate := a\<rparr>"
    using assms(4,5) by (cases h) simp
  ultimately show ?thesis
    using assms(6) aggregate_message_parts[OF assms(1), of payload]
    by (simp add: handle_mapr_message_def handle_aggregate_message_def Let_def)
qed

end
