(* ===== verification/Output_Manager.thy ===== *)
theory Output_Manager
  imports Protocol
begin

text \<open>
  The output manager of a handler (\<open>handlers/output_manager.go\<close>): the queue of payloads between the
  commands that read files and the one reader that sends to the client, and the handshake by which
  the last command learns that everything was sent. A handshake is a number that stands for its
  two channels; those that were closed are kept in sets. Times are in nanoseconds.

  The manager is used by many goroutines. Every function here is what one of them does while it
  holds the lock; \<open>session_step\<close> puts them together in any order, with the files of the commands and
  the counter of the pending files around them, as \<open>readcommand.go\<close> uses them.
\<close>

subsection \<open>State\<close>

record output_config =
  oc_channel_buffer_size :: int
  oc_flush_timeout :: int
  oc_flush_poll_interval :: int
  oc_read_retry_interval :: int
  oc_eof_ack_quiet_period :: int

definition millisecond :: int where
  "millisecond = 1000000"

definition default_output_config :: output_config where
  "default_output_config =
     \<lparr>oc_channel_buffer_size = 1000, oc_flush_timeout = 2000 * millisecond, oc_flush_poll_interval = 10 * millisecond,
       oc_read_retry_interval = millisecond, oc_eof_ack_quiet_period = 50 * millisecond\<rparr>"

definition default_eof_ack_timeout :: int where
  "default_eof_ack_timeout = 2000 * millisecond"

definition positive_or :: "int \<Rightarrow> int \<Rightarrow> int" where
  "positive_or value fallback = (if 0 < value then value else fallback)"

text \<open>A zero value, which is the state before \<open>configure\<close>, stands for the default.\<close>

definition zero_output_config :: output_config where
  "zero_output_config =
     \<lparr>oc_channel_buffer_size = 0, oc_flush_timeout = 0, oc_flush_poll_interval = 0, oc_read_retry_interval = 0,
       oc_eof_ack_quiet_period = 0\<rparr>"

record output_manager =
  om_mode :: bool
  om_lines :: "gostr list option"
  om_buffer :: gostr
  om_handshake :: "nat option"
  om_eofs :: "nat set"
  om_acks :: "nat set"
  om_epoch :: uint64
  om_config :: output_config
  om_empty_since :: "int option"

definition new_output_manager :: output_manager where
  "new_output_manager =
     \<lparr>om_mode = False, om_lines = None, om_buffer = [], om_handshake = None, om_eofs = {}, om_acks = {}, om_epoch = 0,
       om_config = zero_output_config, om_empty_since = None\<rparr>"

definition configure :: "output_config \<Rightarrow> output_manager \<Rightarrow> output_manager" where
  "configure cfg t =
     (let c = om_config t in
      t\<lparr>om_config :=
         \<lparr>oc_channel_buffer_size = positive_or (oc_channel_buffer_size cfg) (oc_channel_buffer_size c),
          oc_flush_timeout = positive_or (oc_flush_timeout cfg) (oc_flush_timeout c),
          oc_flush_poll_interval = positive_or (oc_flush_poll_interval cfg) (oc_flush_poll_interval c),
          oc_read_retry_interval = positive_or (oc_read_retry_interval cfg) (oc_read_retry_interval c),
          oc_eof_ack_quiet_period = positive_or (oc_eof_ack_quiet_period cfg) (oc_eof_ack_quiet_period c)\<rparr>\<rparr>)"

definition resolved_config :: "output_manager \<Rightarrow> output_config" where
  "resolved_config t =
     (let c = om_config t; d = default_output_config in
      \<lparr>oc_channel_buffer_size = positive_or (oc_channel_buffer_size c) (oc_channel_buffer_size d),
       oc_flush_timeout = positive_or (oc_flush_timeout c) (oc_flush_timeout d),
       oc_flush_poll_interval = positive_or (oc_flush_poll_interval c) (oc_flush_poll_interval d),
       oc_read_retry_interval = positive_or (oc_read_retry_interval c) (oc_read_retry_interval d),
       oc_eof_ack_quiet_period = positive_or (oc_eof_ack_quiet_period c) (oc_eof_ack_quiet_period d)\<rparr>)"

definition queued :: "output_manager \<Rightarrow> gostr list" where
  "queued t = (case om_lines t of None \<Rightarrow> [] | Some ls \<Rightarrow> ls)"

definition channel_len :: "output_manager \<Rightarrow> nat" where
  "channel_len t = length (queued t)"

definition has_eof :: "output_manager \<Rightarrow> bool" where
  "has_eof t = (om_handshake t \<noteq> None)"

subsection \<open>The handshake\<close>

definition eof_signaled :: "output_manager \<Rightarrow> bool" where
  "eof_signaled t = (case om_handshake t of None \<Rightarrow> False | Some n \<Rightarrow> n \<in> om_eofs t)"

definition signal_eof_ack :: "output_manager \<Rightarrow> output_manager" where
  "signal_eof_ack t = (case om_handshake t of None \<Rightarrow> t | Some n \<Rightarrow> t\<lparr>om_acks := insert n (om_acks t)\<rparr>)"

definition reset_eof_handshake :: "output_manager \<Rightarrow> output_manager" where
  "reset_eof_handshake t =
     t\<lparr>om_handshake := Some (case om_handshake t of None \<Rightarrow> 0 | Some n \<Rightarrow> Suc n), om_empty_since := None\<rparr>"

definition enable :: "output_manager \<Rightarrow> output_manager \<times> bool" where
  "enable t0 =
     (let t = t0\<lparr>om_epoch := om_epoch t0 + 1\<rparr> in
      if om_mode t then ((if eof_signaled t then reset_eof_handshake (signal_eof_ack t) else t), False)
      else
        (let t1 = t\<lparr>om_mode := True\<rparr>;
             t2 = (if om_lines t1 = None then t1\<lparr>om_lines := Some []\<rparr> else t1) in
         (reset_eof_handshake t2, True)))"

definition signal_eof :: "uint64 \<Rightarrow> output_manager \<Rightarrow> output_manager" where
  "signal_eof epoch t =
     (if epoch \<noteq> om_epoch t then t
      else case om_handshake t of None \<Rightarrow> t | Some n \<Rightarrow> t\<lparr>om_eofs := insert n (om_eofs t)\<rparr>)"

text \<open>
  What the wait for the acknowledgement returns, for the handshake \<open>n\<close> that was current when it
  began and the manager when it ends, which is with the acknowledgement or after the timeout.
\<close>

definition wait_for_eof_ack :: "nat option \<Rightarrow> output_manager \<Rightarrow> bool" where
  "wait_for_eof_ack snapshot t = (case snapshot of None \<Rightarrow> True | Some n \<Rightarrow> n \<in> om_acks t)"

definition eof_ack_timeout :: "int \<Rightarrow> int" where
  "eof_ack_timeout timeout = (if timeout \<le> 0 then default_eof_ack_timeout else timeout)"

text \<open>\<open>flush\<close> waits for this or its timeout and changes nothing.\<close>

definition flushed :: "output_manager \<Rightarrow> bool" where
  "flushed t = (case om_lines t of None \<Rightarrow> True | Some ls \<Rightarrow> ls = [])"

subsection \<open>Reading\<close>

text \<open>\<open>None\<close> is a payload that was dropped. \<open>active\<close> is the generation of the session at the call.\<close>

definition consume :: "nat \<Rightarrow> uint64 option \<Rightarrow> gostr \<Rightarrow> output_manager \<Rightarrow> gostr option \<times> output_manager" where
  "consume n active payload t =
     (case decode_generated_bytes payload of
        (g, bs) \<Rightarrow>
          if should_drop_generation active g then (None, t\<lparr>om_empty_since := None\<rparr>)
          else (Some (take n bs),
                if n < length bs then t\<lparr>om_empty_since := None, om_buffer := drop n bs\<rparr> else t\<lparr>om_empty_since := None\<rparr>))"

fun take_lines :: "nat \<Rightarrow> uint64 option \<Rightarrow> gostr list \<Rightarrow> output_manager \<Rightarrow> gostr option \<times> output_manager" where
  "take_lines n active [] t = (None, t\<lparr>om_lines := Some []\<rparr>)"
| "take_lines n active (p # ps) t =
     (case consume n active p (t\<lparr>om_lines := Some ps\<rparr>) of
        (Some bs, t1) \<Rightarrow> (Some bs, t1)
      | (None, t1) \<Rightarrow> take_lines n active ps t1)"

definition maybe_ack_eof :: "int \<Rightarrow> output_manager \<Rightarrow> output_manager" where
  "maybe_ack_eof now t =
     (if \<not> eof_signaled t then t
      else if queued t \<noteq> [] then t\<lparr>om_empty_since := None\<rparr>
      else case om_empty_since t of
          None \<Rightarrow> t\<lparr>om_empty_since := Some now\<rparr>
        | Some since \<Rightarrow>
            if oc_eof_ack_quiet_period (resolved_config t) \<le> now - since then signal_eof_ack (t\<lparr>om_mode := False\<rparr>) else t)"

text \<open>
  \<open>tryRead\<close> runs under the lock but for the sleep before a retry, where it pauses. The channel needs
  no lock: \<open>late\<close> are the payloads that came after it was found empty and before its length was
  looked at, \<open>later\<close> those that came before the length was looked at once more.
\<close>

datatype read_answer = Served gostr | Declined | Paused

definition receive_lines :: "nat \<Rightarrow> uint64 option \<Rightarrow> gostr list \<Rightarrow> gostr list \<Rightarrow> int \<Rightarrow> output_manager \<Rightarrow> read_answer \<times> output_manager" where
  "receive_lines n active late later now t =
     (case take_lines n active (queued t) t of
        (Some bs, t1) \<Rightarrow> (Served bs, t1)
      | (None, t1) \<Rightarrow>
          if late \<noteq> [] then (Paused, t1\<lparr>om_lines := Some late\<rparr>)
          else (Declined, maybe_ack_eof now (t1\<lparr>om_lines := Some later\<rparr>)))"

definition try_read :: "nat \<Rightarrow> uint64 option \<Rightarrow> gostr list \<Rightarrow> gostr list \<Rightarrow> int \<Rightarrow> output_manager \<Rightarrow> read_answer \<times> output_manager" where
  "try_read n active late later now t =
     (if om_buffer t \<noteq> [] then (Served (take n (om_buffer t)), t\<lparr>om_buffer := drop n (om_buffer t)\<rparr>)
      else if \<not> om_mode t then (Declined, t)
      else if om_lines t = None then (Declined, t)
      else receive_lines n active late later now t)"

text \<open>After the pause the reader receives again, and goes on with the loop or past it.\<close>

definition retry_read :: "nat \<Rightarrow> uint64 option \<Rightarrow> gostr list \<Rightarrow> gostr list \<Rightarrow> int \<Rightarrow> output_manager \<Rightarrow> read_answer \<times> output_manager" where
  "retry_read n active late later now t =
     (if queued t = [] then (Declined, maybe_ack_eof now (t\<lparr>om_lines := Some later\<rparr>))
      else receive_lines n active late later now t)"

subsection \<open>The files of a session\<close>

text \<open>
  A file is pending from the start of its command on; it enables the output, writes payloads, and is
  finished. The end of a command captures the epoch, looks whether no file is pending, and signals
  the end of the output: other goroutines may do anything in between. The conditions that it reads
  before may be outdated by then and are left out. \<open>os_made\<close> and \<open>os_enables\<close> record all payloads and
  the number of calls of \<open>enable\<close>; \<open>os_sent\<close> is what the reader handed out.
\<close>

datatype file_phase = Waiting | Writing | Finished

record output_session =
  os_om :: output_manager
  os_paused :: "nat option"
  os_files :: "file_phase list"
  os_pending :: "32 word"
  os_signals :: "(uint64 \<times> bool) list"
  os_made :: "gostr list"
  os_sent :: gostr
  os_enables :: nat

definition new_output_session :: "output_config \<Rightarrow> output_session" where
  "new_output_session cfg =
     \<lparr>os_om = configure cfg new_output_manager, os_paused = None, os_files = [], os_pending = 0, os_signals = [], os_made = [],
       os_sent = [], os_enables = 0\<rparr>"

definition answered :: "nat \<Rightarrow> read_answer \<Rightarrow> output_manager \<Rightarrow> gostr list \<Rightarrow> output_session \<Rightarrow> output_session" where
  "answered n a t arrived s =
     s\<lparr>os_om := t, os_made := os_made s @ arrived,
       os_sent := os_sent s @ (case a of Served bs \<Rightarrow> bs | _ \<Rightarrow> []),
       os_paused := (if a = Paused then Some n else None)\<rparr>"

text \<open>Payloads arrive during a read from a file that is being written only, and are queued after it.\<close>

definition arrivals_ok :: "read_answer \<Rightarrow> output_manager \<Rightarrow> gostr list \<Rightarrow> output_session \<Rightarrow> bool" where
  "arrivals_ok a t arrived s \<longleftrightarrow>
     (arrived \<noteq> [] \<longrightarrow> (\<forall>bs. a \<noteq> Served bs) \<and> queued t = arrived \<and> Writing \<in> set (os_files s))"

inductive session_step :: "output_session \<Rightarrow> output_session \<Rightarrow> bool" where
  add_files: "session_step s (s\<lparr>os_files := os_files s @ replicate k Waiting, os_pending := os_pending s + of_nat k\<rparr>)"
| skip_file: "i < length (os_files s) \<Longrightarrow> os_files s ! i = Waiting \<Longrightarrow>
    session_step s (s\<lparr>os_files := (os_files s)[i := Finished], os_pending := os_pending s - 1\<rparr>)"
| start_file: "i < length (os_files s) \<Longrightarrow> os_files s ! i = Waiting \<Longrightarrow>
    session_step s (s\<lparr>os_files := (os_files s)[i := Writing], os_om := fst (enable (os_om s)), os_enables := Suc (os_enables s)\<rparr>)"
| write_payload: "Writing \<in> set (os_files s) \<Longrightarrow> om_lines (os_om s) = Some ls \<Longrightarrow>
    session_step s (s\<lparr>os_om := (os_om s)\<lparr>om_lines := Some (ls @ [p])\<rparr>, os_made := os_made s @ [p]\<rparr>)"
| finish_file: "i < length (os_files s) \<Longrightarrow> os_files s ! i = Writing \<Longrightarrow>
    session_step s (s\<lparr>os_files := (os_files s)[i := Finished], os_pending := os_pending s - 1\<rparr>)"
| capture_epoch: "session_step s (s\<lparr>os_signals := os_signals s @ [(om_epoch (os_om s), False)]\<rparr>)"
| check_pending: "i < length (os_signals s) \<Longrightarrow> os_signals s ! i = (e, False) \<Longrightarrow> os_pending s = 0 \<Longrightarrow>
    session_step s (s\<lparr>os_signals := (os_signals s)[i := (e, True)]\<rparr>)"
| send_eof: "(e, True) \<in> set (os_signals s) \<Longrightarrow> session_step s (s\<lparr>os_om := signal_eof e (os_om s)\<rparr>)"
| read: "os_paused s = None \<Longrightarrow> try_read n active late later now (os_om s) = (a, t) \<Longrightarrow> arrivals_ok a t (late @ later) s \<Longrightarrow>
    session_step s (answered n a t (late @ later) s)"
| retry: "os_paused s = Some n \<Longrightarrow> retry_read n active late later now (os_om s) = (a, t) \<Longrightarrow> arrivals_ok a t (late @ later) s \<Longrightarrow>
    session_step s (answered n a t (late @ later) s)"

inductive_cases session_stepE: "session_step s s'"

abbreviation session_reaches :: "output_session \<Rightarrow> output_session \<Rightarrow> bool" where
  "session_reaches \<equiv> session_step\<^sup>*\<^sup>*"

subsection \<open>Payloads come out once and in order\<close>

text \<open>What a payload that was taken contributes, given the generation that was active.\<close>

definition kept :: "gostr \<times> uint64 option \<Rightarrow> gostr" where
  "kept x = (case decode_generated_bytes (fst x) of (g, bs) \<Rightarrow> if should_drop_generation (snd x) g then [] else bs)"

definition handed_out :: "read_answer \<Rightarrow> gostr" where
  "handed_out a = (case a of Served bs \<Rightarrow> bs | _ \<Rightarrow> [])"

lemma consume_kept:
  "consume n active p t = (r, t1) \<Longrightarrow> om_buffer t = [] \<Longrightarrow>
     (case r of None \<Rightarrow> [] | Some bs \<Rightarrow> bs) @ om_buffer t1 = kept (p, active) \<and> (r = None \<longrightarrow> om_buffer t1 = []) \<and>
     om_lines t1 = om_lines t \<and> om_mode t1 = om_mode t \<and> om_handshake t1 = om_handshake t \<and> om_eofs t1 = om_eofs t \<and>
     om_acks t1 = om_acks t \<and> om_epoch t1 = om_epoch t"
  by (auto simp: consume_def kept_def split: prod.splits if_splits)

text \<open>The parts that reading leaves alone until the end was acknowledged.\<close>

definition handshake_part :: "output_manager \<Rightarrow> nat option \<times> nat set \<times> uint64" where
  "handshake_part t = (om_handshake t, om_eofs t, om_epoch t)"

lemma take_lines_kept:
  "take_lines n active ps t = (r, t1) \<Longrightarrow> om_buffer t = [] \<Longrightarrow>
     \<exists>qs rs. ps = qs @ rs \<and> om_lines t1 = Some rs \<and> (r = None \<longrightarrow> rs = [] \<and> om_buffer t1 = []) \<and>
       (case r of None \<Rightarrow> [] | Some bs \<Rightarrow> bs) @ om_buffer t1 = concat (map (\<lambda>p. kept (p, active)) qs) \<and>
       om_mode t1 = om_mode t \<and> om_acks t1 = om_acks t \<and> handshake_part t1 = handshake_part t"
proof (induction n active ps t arbitrary: r t1 rule: take_lines.induct)
  case (1 n active t)
  then show ?case by (auto simp: handshake_part_def)
next
  case (2 n active p ps t)
  obtain r0 t0 where c: "consume n active p (t\<lparr>om_lines := Some ps\<rparr>) = (r0, t0)" by fastforce
  note k = consume_kept[OF c, simplified, OF 2(3)]
  show ?case
  proof (cases r0)
    case None
    then have "take_lines n active ps t0 = (r, t1)" using 2(2) c by simp
    from 2(1)[OF c[symmetric] None this] obtain qs rs where
      "ps = qs @ rs" "om_lines t1 = Some rs" "r = None \<longrightarrow> rs = [] \<and> om_buffer t1 = []"
      "(case r of None \<Rightarrow> [] | Some bs \<Rightarrow> bs) @ om_buffer t1 = concat (map (\<lambda>p. kept (p, active)) qs)"
      "om_mode t1 = om_mode t0" "om_acks t1 = om_acks t0" "handshake_part t1 = handshake_part t0"
      using k None by auto
    then show ?thesis using k None by (intro exI[of _ "p # qs"] exI[of _ rs]) (auto simp: handshake_part_def)
  next
    case (Some bs)
    then have "r = Some bs" "t1 = t0" using 2(2) c by simp_all
    then show ?thesis using k Some by (intro exI[of _ "[p]"] exI[of _ ps]) (auto simp: handshake_part_def)
  qed
qed

lemma maybe_ack_effect:
  "maybe_ack_eof now t = t1 \<Longrightarrow> om_lines t1 = om_lines t \<and> om_buffer t1 = om_buffer t \<and> handshake_part t1 = handshake_part t \<and>
     (om_mode t1 = om_mode t \<and> om_acks t1 = om_acks t \<or>
      eof_signaled t \<and> queued t = [] \<and> \<not> om_mode t1 \<and> om_acks t1 = insert (the (om_handshake t)) (om_acks t))"
  by (auto simp: maybe_ack_eof_def signal_eof_ack_def handshake_part_def eof_signaled_def split: option.splits if_splits)

lemma eof_signaled_part: "handshake_part t1 = handshake_part t \<Longrightarrow> eof_signaled t1 = eof_signaled t"
  by (auto simp: handshake_part_def eof_signaled_def split: option.splits)

text \<open>The effect of a read, whatever way it goes.\<close>

definition read_effect :: "uint64 option \<Rightarrow> read_answer \<Rightarrow> gostr list \<Rightarrow> output_manager \<Rightarrow> output_manager \<Rightarrow> bool" where
  "read_effect active a arrived t t1 \<longleftrightarrow>
     (\<exists>qs rs. queued t = qs @ rs \<and> queued t1 = rs @ arrived \<and>
        handed_out a @ om_buffer t1 = om_buffer t @ concat (map (\<lambda>p. kept (p, active)) qs)) \<and>
     handshake_part t1 = handshake_part t \<and> (om_lines t1 = None \<longleftrightarrow> om_lines t = None) \<and>
     (om_mode t1 = om_mode t \<and> om_acks t1 = om_acks t \<or>
      eof_signaled t \<and> queued t1 = [] \<and> om_buffer t1 = [] \<and> \<not> om_mode t1 \<and> om_acks t1 = insert (the (om_handshake t)) (om_acks t)) \<and>
     (a = Paused \<longrightarrow> om_mode t1 = om_mode t \<and> om_buffer t1 = [] \<and> om_lines t1 \<noteq> None)"

lemma declined_effect:
  assumes "om_buffer t = []" and "om_lines t = Some rs" and "queued t0 = qs @ rs" and "rs = []"
    and "maybe_ack_eof now (t\<lparr>om_lines := Some later\<rparr>) = t1" and "om_mode t = om_mode t0" and "om_acks t = om_acks t0"
    and "handshake_part t = handshake_part t0" and "om_lines t0 \<noteq> None" and "om_buffer t0 = []"
    and "concat (map (\<lambda>p. kept (p, active)) qs) = []"
  shows "read_effect active Declined later t0 t1"
proof -
  note e = maybe_ack_effect[OF assms(5)]
  have s: "eof_signaled (t\<lparr>om_lines := Some later\<rparr>) = eof_signaled t0" "handshake_part (t\<lparr>om_lines := Some later\<rparr>) = handshake_part t0"
    "om_handshake t = om_handshake t0"
    using assms(8) by (auto simp: handshake_part_def eof_signaled_def split: option.splits)
  have q: "queued t1 = later" using e by (simp add: queued_def)
  have ql: "queued (t\<lparr>om_lines := Some later\<rparr>) = later" by (simp add: queued_def)
  have "\<exists>qs rs. queued t0 = qs @ rs \<and> queued t1 = rs @ later \<and>
      handed_out Declined @ om_buffer t1 = om_buffer t0 @ concat (map (\<lambda>p. kept (p, active)) qs)"
    using assms(1,3,4,10,11) e q by (intro exI[of _ qs] exI[of _ rs]) (simp add: handed_out_def)
  then show ?thesis unfolding read_effect_def using e assms(1,6,7,9) s q ql by auto
qed

lemma receive_lines_effect:
  assumes r: "receive_lines n active late later now t = (a, t1)" and b: "om_buffer t = []" and l: "om_lines t \<noteq> None"
    and arr: "late @ later \<noteq> [] \<Longrightarrow> (\<forall>bs. a \<noteq> Served bs) \<and> queued t1 = late @ later"
  shows "read_effect active a (late @ later) t t1"
proof -
  obtain r0 t0 where tk: "take_lines n active (queued t) t = (r0, t0)" by fastforce
  from take_lines_kept[OF tk b] obtain qs rs where
    k: "queued t = qs @ rs" "om_lines t0 = Some rs" "r0 = None \<longrightarrow> rs = [] \<and> om_buffer t0 = []"
      "(case r0 of None \<Rightarrow> [] | Some bs \<Rightarrow> bs) @ om_buffer t0 = concat (map (\<lambda>p. kept (p, active)) qs)"
      "om_mode t0 = om_mode t" "om_acks t0 = om_acks t" "handshake_part t0 = handshake_part t" by blast
  show ?thesis
  proof (cases r0)
    case (Some bs)
    then have a: "a = Served bs" "t1 = t0" using r tk by (simp_all add: receive_lines_def)
    then have "late @ later = []" using arr by blast
    then show ?thesis unfolding read_effect_def using a k Some b l
      by (auto simp: handed_out_def queued_def intro!: exI[of _ qs])
  next
    case None
    then have n: "rs = []" "om_buffer t0 = []" "concat (map (\<lambda>p. kept (p, active)) qs) = []" using k by auto
    show ?thesis
    proof (cases "late = []")
      case True
      then have a: "a = Declined" "maybe_ack_eof now (t0\<lparr>om_lines := Some later\<rparr>) = t1"
        using r tk None by (simp_all add: receive_lines_def)
      show ?thesis using declined_effect[OF n(2) k(2,1) n(1) a(2) k(5,6,7) l b n(3)] True a(1) by simp
    next
      case False
      then have a: "a = Paused" "t1 = t0\<lparr>om_lines := Some late\<rparr>" using r tk None by (simp_all add: receive_lines_def)
      then have "later = []" using arr False by (simp add: queued_def)
      moreover have "\<exists>qs' rs'. queued t = qs' @ rs' \<and> queued t1 = rs' @ late \<and> om_buffer t1 = concat (map (\<lambda>p. kept (p, active)) qs')"
        using a k n by (intro exI[of _ qs] exI[of _ rs]) (simp add: queued_def)
      ultimately show ?thesis unfolding read_effect_def using a k n b l by (simp add: handed_out_def handshake_part_def)
    qed
  qed
qed

lemma try_read_effect:
  assumes r: "try_read n active late later now t = (a, t1)" and l: "om_mode t \<Longrightarrow> om_lines t \<noteq> None"
    and arr: "late @ later \<noteq> [] \<Longrightarrow> (\<forall>bs. a \<noteq> Served bs) \<and> queued t1 = late @ later \<and> om_mode t"
  shows "read_effect active a (late @ later) t t1"
proof (cases "om_buffer t = []")
  case False
  then have a: "a = Served (take n (om_buffer t))" "t1 = t\<lparr>om_buffer := drop n (om_buffer t)\<rparr>"
    using r by (simp_all add: try_read_def)
  then have "late @ later = []" using arr by blast
  then show ?thesis unfolding read_effect_def using a
    by (auto simp: handed_out_def queued_def handshake_part_def intro!: exI[of _ "[]"])
next
  case b: True
  show ?thesis
  proof (cases "om_mode t")
    case True
    then have "receive_lines n active late later now t = (a, t1)" using r b l by (simp add: try_read_def)
    then show ?thesis using receive_lines_effect b l[OF True] arr by blast
  next
    case False
    then have "a = Declined" "t1 = t" "late @ later = []" using r b arr by (auto simp: try_read_def)
    then show ?thesis unfolding read_effect_def by (auto simp: handed_out_def intro!: exI[of _ "[]"])
  qed
qed

lemma retry_read_effect:
  assumes r: "retry_read n active late later now t = (a, t1)" and b: "om_buffer t = []" and l: "om_lines t \<noteq> None"
    and arr: "late @ later \<noteq> [] \<Longrightarrow> (\<forall>bs. a \<noteq> Served bs) \<and> queued t1 = late @ later"
  shows "read_effect active a (late @ later) t t1"
proof (cases "queued t = []")
  case False
  then show ?thesis using receive_lines_effect[OF _ b l arr] r by (simp add: retry_read_def)
next
  case True
  then have a: "a = Declined" "maybe_ack_eof now (t\<lparr>om_lines := Some later\<rparr>) = t1" using r by (simp_all add: retry_read_def)
  have "queued t1 = later" using maybe_ack_effect[OF a(2)] by (simp add: queued_def)
  then have "late @ later = later" using arr by (cases "late @ later = []") auto
  moreover have "om_lines t = Some []" using True l by (auto simp: queued_def split: option.splits)
  ultimately show ?thesis using declined_effect[of t "[]" t "[]" now later t1 active] a b True l by simp
qed

subsection \<open>The invariant\<close>

definition unfinished :: "file_phase list \<Rightarrow> nat" where
  "unfinished fs = length (filter (\<lambda>f. f \<noteq> Finished) fs)"

definition delivered :: "output_session \<Rightarrow> bool" where
  "delivered s \<longleftrightarrow>
     (\<exists>taken. os_made s = map fst taken @ queued (os_om s) \<and> os_sent s @ om_buffer (os_om s) = concat (map kept taken))"

definition manager_inv :: "output_manager \<Rightarrow> bool" where
  "manager_inv t \<longleftrightarrow>
     (om_mode t \<longrightarrow> om_lines t \<noteq> None) \<and> (\<not> om_mode t \<longrightarrow> queued t = [] \<and> om_buffer t = []) \<and>
     (\<forall>n\<in>om_eofs t. \<exists>m. om_handshake t = Some m \<and> n \<le> m) \<and>
     (\<forall>m. om_handshake t = Some m \<longrightarrow> (\<forall>n<m. n \<in> om_acks t) \<and> (\<not> om_mode t \<longrightarrow> m \<in> om_acks t))"

definition signals_inv :: "output_session \<Rightarrow> bool" where
  "signals_inv s \<longleftrightarrow>
     (\<forall>(e, c)\<in>set (os_signals s). (\<exists>k\<le>os_enables s. e = of_nat k) \<and>
        (c \<and> e = om_epoch (os_om s) \<longrightarrow> Writing \<notin> set (os_files s)))"

definition output_inv :: "output_session \<Rightarrow> bool" where
  "output_inv s \<longleftrightarrow>
     os_pending s = of_nat (unfinished (os_files s)) \<and> om_epoch (os_om s) = of_nat (os_enables s) \<and>
     (eof_signaled (os_om s) \<or> \<not> om_mode (os_om s) \<longrightarrow> Writing \<notin> set (os_files s)) \<and>
     (os_paused s \<noteq> None \<longrightarrow> om_mode (os_om s) \<and> om_buffer (os_om s) = []) \<and>
     manager_inv (os_om s) \<and> signals_inv s \<and> delivered s"

definition in_bounds :: "output_session \<Rightarrow> bool" where
  "in_bounds s \<longleftrightarrow> os_enables s < 2 ^ 64 \<and> length (os_files s) < 2 ^ 32"

lemma unfinished_Cons [simp]: "unfinished (f # fs) = (if f = Finished then 0 else 1) + unfinished fs"
  by (simp add: unfinished_def)

lemma unfinished_append [simp]: "unfinished (fs @ gs) = unfinished fs + unfinished gs"
  by (simp add: unfinished_def)

lemma unfinished_waiting [simp]: "unfinished (replicate k Waiting) = k"
  by (induction k) (simp_all add: unfinished_def)

lemma unfinished_update:
  assumes "i < length fs"
  shows "unfinished (fs[i := f]) + (if fs ! i = Finished then 0 else 1) = unfinished fs + (if f = Finished then 0 else 1)"
  using assms
proof (induction fs arbitrary: i)
  case (Cons g fs)
  show ?case
  proof (cases i)
    case (Suc k)
    then show ?thesis using Cons.IH[of k] Cons.prems by simp
  qed simp
qed simp

lemma unfinished_0: "unfinished fs = 0 \<longleftrightarrow> set fs \<subseteq> {Finished}"
  by (auto simp: unfinished_def filter_empty_conv)

lemma writing_update: "i < length fs \<Longrightarrow> Writing \<in> set (fs[i := Finished]) \<Longrightarrow> Writing \<in> set fs"
  using set_update_subset_insert[of fs i Finished] by auto

text \<open>After \<open>enable\<close> the mode is on and the end is not signaled, and no waiter is left behind.\<close>

lemma enable_cases:
  obtains (fresh) "om_mode t" "eof_signaled t" "fst (enable t) = reset_eof_handshake (signal_eof_ack (t\<lparr>om_epoch := om_epoch t + 1\<rparr>))"
  | (join) "om_mode t" "\<not> eof_signaled t" "fst (enable t) = t\<lparr>om_epoch := om_epoch t + 1\<rparr>"
  | (on) "\<not> om_mode t" "fst (enable t) = reset_eof_handshake (t\<lparr>om_epoch := om_epoch t + 1, om_mode := True, om_lines := Some (queued t)\<rparr>)"
proof -
  have e: "eof_signaled (t\<lparr>om_epoch := om_epoch t + 1\<rparr>) = eof_signaled t" by (auto simp: eof_signaled_def split: option.splits)
  have l: "t\<lparr>om_lines := Some ls\<rparr> = t" if "om_lines t = Some ls" for ls using that by (cases t) simp
  show ?thesis
  proof (cases "om_mode t")
    case True
    then show ?thesis using that(1,2) e by (cases "eof_signaled t") (simp_all add: enable_def Let_def)
  next
    case False
    then show ?thesis
    proof (cases "om_lines t")
      case None
      then show ?thesis using that(3) False by (simp add: enable_def Let_def queued_def)
    next
      case (Some ls)
      have "fst (enable t) = reset_eof_handshake (t\<lparr>om_epoch := om_epoch t + 1, om_mode := True, om_lines := Some ls\<rparr>)"
        using False Some by (cases t) (simp add: enable_def Let_def)
      then show ?thesis using that(3) False Some by (simp add: queued_def)
    qed
  qed
qed

lemma enable_effect:
  "om_mode (fst (enable t))" "om_epoch (fst (enable t)) = om_epoch t + 1"
  "queued (fst (enable t)) = queued t" "om_buffer (fst (enable t)) = om_buffer t"
  by (rule enable_cases[of t]; auto simp: reset_eof_handshake_def signal_eof_ack_def queued_def split: option.splits)+

lemma reset_not_signaled:
  "\<forall>n\<in>om_eofs t. \<exists>m. om_handshake t = Some m \<and> n \<le> m \<Longrightarrow> \<not> eof_signaled (reset_eof_handshake t)"
  by (auto simp: eof_signaled_def reset_eof_handshake_def split: option.splits)

lemma enable_not_signaled:
  assumes "manager_inv t"
  shows "\<not> eof_signaled (fst (enable t))"
proof -
  have b: "\<forall>n\<in>om_eofs t. \<exists>m. om_handshake t = Some m \<and> n \<le> m" using assms by (simp add: manager_inv_def)
  show ?thesis
  proof (cases rule: enable_cases[of t])
    case fresh
    show ?thesis unfolding fresh(3) by (rule reset_not_signaled) (use b in \<open>auto simp: signal_eof_ack_def split: option.splits\<close>)
  next
    case join
    then show ?thesis by (auto simp: eof_signaled_def split: option.splits)
  next
    case on
    show ?thesis unfolding on(2) by (rule reset_not_signaled) (use b in auto)
  qed
qed

lemma enable_manager_inv:
  assumes "manager_inv t"
  shows "manager_inv (fst (enable t))"
proof (cases rule: enable_cases[of t])
  case fresh
  then obtain m where m: "om_handshake t = Some m" by (auto simp: eof_signaled_def split: option.splits)
  then have "\<forall>n\<in>om_eofs t. n \<le> Suc m" using assms by (auto simp: manager_inv_def)
  then show ?thesis using assms fresh(1) m unfolding fresh(3)
    by (auto simp: manager_inv_def reset_eof_handshake_def signal_eof_ack_def less_Suc_eq)
next
  case join
  then show ?thesis using assms by (auto simp: manager_inv_def queued_def)
next
  case on
  show ?thesis
  proof (cases "om_handshake t")
    case None
    then show ?thesis using assms on by (auto simp: manager_inv_def reset_eof_handshake_def)
  next
    case (Some m)
    then have "\<forall>n\<in>om_eofs t. n \<le> Suc m" using assms by (auto simp: manager_inv_def)
    then show ?thesis using assms on Some by (auto simp: manager_inv_def reset_eof_handshake_def less_Suc_eq)
  qed
qed

lemma read_manager_inv:
  assumes "read_effect active a arrived t t1" and "manager_inv t" and "arrived \<noteq> [] \<longrightarrow> om_mode t"
  shows "manager_inv t1"
proof -
  have h: "om_handshake t1 = om_handshake t" "om_eofs t1 = om_eofs t" using assms(1) by (auto simp: read_effect_def handshake_part_def)
  consider (same) "om_mode t1 = om_mode t" "om_acks t1 = om_acks t"
    | (ended) "eof_signaled t" "queued t1 = []" "om_buffer t1 = []" "\<not> om_mode t1" "om_acks t1 = insert (the (om_handshake t)) (om_acks t)"
    using assms(1) by (auto simp: read_effect_def)
  then show ?thesis
  proof cases
    case same
    moreover have "queued t1 = [] \<and> om_buffer t1 = []" if "\<not> om_mode t"
      using that assms by (auto simp: read_effect_def manager_inv_def)
    ultimately show ?thesis using assms(1,2) h by (auto simp: manager_inv_def read_effect_def)
  next
    case ended
    then obtain m where "om_handshake t = Some m" by (auto simp: eof_signaled_def split: option.splits)
    then show ?thesis using ended assms(2) h by (auto simp: manager_inv_def)
  qed
qed

lemma read_delivered:
  assumes "read_effect active a arrived (os_om s) t" and "delivered s"
  shows "delivered (answered n a t arrived s)"
proof -
  obtain taken where d: "os_made s = map fst taken @ queued (os_om s)" "os_sent s @ om_buffer (os_om s) = concat (map kept taken)"
    using assms(2) by (auto simp: delivered_def)
  obtain qs rs where q: "queued (os_om s) = qs @ rs" "queued t = rs @ arrived"
    "handed_out a @ om_buffer t = om_buffer (os_om s) @ concat (map (\<lambda>p. kept (p, active)) qs)"
    using assms(1) by (auto simp: read_effect_def)
  let ?taken = "taken @ map (\<lambda>p. (p, active)) qs"
  have "os_made s @ arrived = map fst ?taken @ queued t" using d q by (simp add: comp_def)
  moreover have "(os_sent s @ handed_out a) @ om_buffer t = concat (map kept ?taken)"
    using d(2) q(3) by (simp add: comp_def flip: append.assoc)
  ultimately show ?thesis unfolding delivered_def answered_def handed_out_def[symmetric]
    by (intro exI[of _ ?taken] conjI) simp_all
qed

lemma signal_eof_effect:
  "om_mode (signal_eof e t) = om_mode t" "om_lines (signal_eof e t) = om_lines t" "om_buffer (signal_eof e t) = om_buffer t"
  "om_epoch (signal_eof e t) = om_epoch t" "om_handshake (signal_eof e t) = om_handshake t" "om_acks (signal_eof e t) = om_acks t"
  "eof_signaled (signal_eof e t) \<longleftrightarrow> eof_signaled t \<or> e = om_epoch t \<and> om_handshake t \<noteq> None"
  "om_eofs (signal_eof e t) \<subseteq> om_eofs t \<union> (case om_handshake t of None \<Rightarrow> {} | Some n \<Rightarrow> {n})"
  by (auto simp: signal_eof_def eof_signaled_def split: option.splits)

lemma signal_eof_manager_inv: "manager_inv t \<Longrightarrow> manager_inv (signal_eof e t)"
  by (cases "om_handshake t") (auto simp: manager_inv_def signal_eof_def queued_def)

lemma in_bounds_before: "session_step s s' \<Longrightarrow> in_bounds s' \<Longrightarrow> in_bounds s"
  by (erule session_stepE) (auto simp: in_bounds_def answered_def)

lemma delivered_files: "delivered (s\<lparr>os_files := fs, os_pending := p\<rparr>) = delivered s"
  by (simp add: delivered_def)

lemma answered_inv:
  assumes e: "read_effect active a arrived (os_om s) t" and i: "output_inv s" and arr: "arrivals_ok a t arrived s"
    and p: "a = Paused \<longrightarrow> om_mode (os_om s)"
  shows "output_inv (answered n a t arrived s)"
proof -
  let ?s = "answered n a t arrived s"
  have w: "arrived \<noteq> [] \<longrightarrow> om_mode (os_om s)" using arr i by (auto simp: arrivals_ok_def output_inv_def)
  have h: "handshake_part t = handshake_part (os_om s)" using e by (simp add: read_effect_def)
  have m: "manager_inv t" by (rule read_manager_inv[OF e _ w]) (use i in \<open>simp add: output_inv_def\<close>)
  have d: "delivered ?s" by (rule read_delivered[OF e]) (use i in \<open>simp add: output_inv_def\<close>)
  have sig: "signals_inv ?s" using i h by (auto simp: output_inv_def signals_inv_def answered_def handshake_part_def)
  have on: "om_mode t" if "om_mode (os_om s)" "\<not> eof_signaled (os_om s)" using e that by (auto simp: read_effect_def)
  show ?thesis unfolding output_inv_def
  proof (intro conjI)
    show "eof_signaled (os_om ?s) \<or> \<not> om_mode (os_om ?s) \<longrightarrow> Writing \<notin> set (os_files ?s)"
      using i on eof_signaled_part[OF h] by (auto simp: answered_def output_inv_def)
    show "os_paused ?s \<noteq> None \<longrightarrow> om_mode (os_om ?s) \<and> om_buffer (os_om ?s) = []"
      using e p by (auto simp: answered_def read_effect_def)
  qed (use i m d sig h in \<open>auto simp: answered_def output_inv_def handshake_part_def\<close>)
qed

lemma arrivals_okD:
  "arrivals_ok a t arrived s \<Longrightarrow> output_inv s \<Longrightarrow> arrived \<noteq> [] \<Longrightarrow> (\<forall>bs. a \<noteq> Served bs) \<and> queued t = arrived \<and> om_mode (os_om s)"
  by (auto simp: arrivals_ok_def output_inv_def)

lemma paused_mode: "try_read n active late later now t = (Paused, t1) \<Longrightarrow> om_mode t"
  by (auto simp: try_read_def split: if_splits)

lemma signals_invD:
  assumes "signals_inv s" and "(e, c) \<in> set (os_signals s)"
  shows "\<exists>k\<le>os_enables s. e = of_nat k" and "c \<Longrightarrow> e = om_epoch (os_om s) \<Longrightarrow> Writing \<notin> set (os_files s)"
  using bspec[OF assms(1)[unfolded signals_inv_def] assms(2)] by simp_all

lemma signals_invI:
  assumes "\<And>e c. (e, c) \<in> set (os_signals s) \<Longrightarrow> \<exists>k\<le>os_enables s. e = of_nat k"
    and "\<And>e. (e, True) \<in> set (os_signals s) \<Longrightarrow> e = om_epoch (os_om s) \<Longrightarrow> Writing \<notin> set (os_files s)"
  shows "signals_inv s"
  unfolding signals_inv_def
proof (intro ballI, clarify)
  fix e c
  assume x: "(e, c) \<in> set (os_signals s)"
  show "(\<exists>k\<le>os_enables s. e = of_nat k) \<and> (c \<and> e = om_epoch (os_om s) \<longrightarrow> Writing \<notin> set (os_files s))"
  proof (intro conjI impI, rule assms(1)[OF x], elim conjE)
    assume "c" "e = om_epoch (os_om s)"
    then show "Writing \<notin> set (os_files s)" using assms(2)[of e] x by simp
  qed
qed

lemma signals_inv_mono:
  assumes i: "signals_inv s" and s: "set (os_signals s') \<subseteq> set (os_signals s)" and n: "os_enables s' = os_enables s"
    and e: "om_epoch (os_om s') = om_epoch (os_om s)" and w: "Writing \<in> set (os_files s') \<Longrightarrow> Writing \<in> set (os_files s)"
  shows "signals_inv s'"
proof (rule signals_invI)
  show "\<exists>k\<le>os_enables s'. e = of_nat k" if "(e, c) \<in> set (os_signals s')" for e c
    unfolding n by (rule signals_invD(1)[OF i subsetD[OF s that]])
  show "Writing \<notin> set (os_files s')" if "(e, True) \<in> set (os_signals s')" "e = om_epoch (os_om s')" for e
    using signals_invD(2)[OF i subsetD[OF s that(1)]] that(2) w unfolding e by blast
qed

lemma output_invD: "output_inv s \<Longrightarrow> signals_inv s"
  by (simp add: output_inv_def)

lemma of_nat_below:
  assumes "k < n" and "n < 2 ^ 64"
  shows "(of_nat k :: uint64) \<noteq> of_nat n"
proof
  define N :: nat where "N = 2 ^ 64"
  assume "(of_nat k :: uint64) = of_nat n"
  then have "unat (of_nat k :: uint64) = unat (of_nat n :: uint64)" by (rule arg_cong)
  then have "k mod N = n mod N" by (simp add: unat_of_nat N_def)
  moreover have "n < N" using assms(2) by (simp only: N_def)
  ultimately show False using assms(1) by simp
qed

lemma output_inv_start:
  assumes i: "output_inv s" and b: "Suc (os_enables s) < 2 ^ 64" and l: "k < length (os_files s)" "os_files s ! k = Waiting"
  shows "output_inv (s\<lparr>os_files := (os_files s)[k := Writing], os_om := fst (enable (os_om s)), os_enables := Suc (os_enables s)\<rparr>)"
    (is "output_inv ?s")
proof -
  have m: "manager_inv (os_om s)" using i by (simp add: output_inv_def)
  note en = enable_effect[of "os_om s"] enable_not_signaled[OF m] enable_manager_inv[OF m]
  have ep: "om_epoch (os_om s) = of_nat (os_enables s)" using i by (simp add: output_inv_def)
  have fresh: "(of_nat k' :: uint64) \<noteq> of_nat (Suc (os_enables s))" if "k' \<le> os_enables s" for k'
    by (rule of_nat_below[OF le_imp_less_Suc[OF that] b])
  have old: "\<exists>k\<le>os_enables s. e = of_nat k" if "(e, c) \<in> set (os_signals ?s)" for e c
    using that signals_invD(1)[OF output_invD[OF i], of e c] by simp
  have "signals_inv ?s"
  proof (rule signals_invI)
    fix e c
    assume "(e, c) \<in> set (os_signals ?s)"
    then obtain k' where "k' \<le> os_enables s" "e = of_nat k'" using old by blast
    then show "\<exists>k\<le>os_enables ?s. e = of_nat k" by (intro exI[of _ k']) simp
  next
    fix e
    assume "(e, True) \<in> set (os_signals ?s)" and e: "e = om_epoch (os_om ?s)"
    then obtain k' where k': "k' \<le> os_enables s" "e = of_nat k'" using old by blast
    have "om_epoch (os_om ?s) = of_nat (Suc (os_enables s))" using en(2) ep by simp
    then have False using fresh[OF k'(1)] e unfolding k'(2) by metis
    then show "Writing \<notin> set (os_files ?s)" ..
  qed
  moreover have "unfinished ((os_files s)[k := Writing]) = unfinished (os_files s)"
    using unfinished_update[OF l(1), of Writing] l(2) by simp
  moreover have "delivered ?s" using i en by (simp add: output_inv_def delivered_def)
  ultimately show ?thesis using i en ep by (simp add: output_inv_def)
qed

lemma output_inv_step:
  assumes "session_step s s'" and b: "in_bounds s'" and i: "output_inv s"
  shows "output_inv s'"
  using assms(1)
proof (cases rule: session_step.cases)
  case (add_files k)
  have w: "(Writing \<in> set (os_files s @ replicate k Waiting)) = (Writing \<in> set (os_files s))" by auto
  have "signals_inv s'" unfolding add_files(1) by (rule signals_inv_mono[OF output_invD[OF i]]) (use w in auto)
  moreover have "delivered s'" using i unfolding add_files(1) output_inv_def by (simp add: delivered_files)
  ultimately show ?thesis using i w unfolding add_files(1) output_inv_def by simp
next
  case (skip_file k)
  have u: "Suc (unfinished ((os_files s)[k := Finished])) = unfinished (os_files s)"
    using unfinished_update[OF skip_file(2), of Finished] skip_file(3) by simp
  have p: "(of_nat (unfinished (os_files s)) :: 32 word) - 1 = of_nat (unfinished ((os_files s)[k := Finished]))"
    unfolding u[symmetric] by simp
  note w = writing_update[OF skip_file(2)]
  have "signals_inv s'" unfolding skip_file(1) by (rule signals_inv_mono[OF output_invD[OF i]]) (use w in auto)
  moreover have "delivered s'" using i unfolding skip_file(1) output_inv_def by (simp add: delivered_files)
  ultimately show ?thesis using i w p unfolding skip_file(1) output_inv_def by auto
next
  case (finish_file k)
  have u: "Suc (unfinished ((os_files s)[k := Finished])) = unfinished (os_files s)"
    using unfinished_update[OF finish_file(2), of Finished] finish_file(3) by simp
  have p: "(of_nat (unfinished (os_files s)) :: 32 word) - 1 = of_nat (unfinished ((os_files s)[k := Finished]))"
    unfolding u[symmetric] by simp
  note w = writing_update[OF finish_file(2)]
  have "signals_inv s'" unfolding finish_file(1) by (rule signals_inv_mono[OF output_invD[OF i]]) (use w in auto)
  moreover have "delivered s'" using i unfolding finish_file(1) output_inv_def by (simp add: delivered_files)
  ultimately show ?thesis using i w p unfolding finish_file(1) output_inv_def by auto
next
  case (start_file k)
  then show ?thesis using output_inv_start[OF i _ start_file(2,3)] b by (simp add: in_bounds_def)
next
  case (write_payload ls p)
  have on: "om_mode (os_om s)" using i write_payload(2) by (auto simp: output_inv_def)
  have e: "eof_signaled ((os_om s)\<lparr>om_lines := Some (ls @ [p])\<rparr>) = eof_signaled (os_om s)"
    by (rule eof_signaled_part) (simp add: handshake_part_def)
  have "manager_inv (os_om s')" using i on unfolding write_payload(1) output_inv_def manager_inv_def by simp
  moreover have "delivered s'" using i write_payload(3) unfolding write_payload(1) output_inv_def delivered_def
    by (simp add: queued_def)
  moreover have "signals_inv s'" unfolding write_payload(1) by (rule signals_inv_mono[OF output_invD[OF i]]) (simp_all add: signal_eof_effect)
  ultimately show ?thesis using i on e unfolding write_payload(1) output_inv_def by simp
next
  case capture_epoch
  have ep: "om_epoch (os_om s) = of_nat (os_enables s)" using i by (simp add: output_inv_def)
  have "signals_inv s'"
  proof (rule signals_invI)
    fix e c
    assume "(e, c) \<in> set (os_signals s')"
    then have "e = om_epoch (os_om s) \<or> (e, c) \<in> set (os_signals s)" unfolding capture_epoch by auto
    then show "\<exists>k\<le>os_enables s'. e = of_nat k"
      using signals_invD(1)[OF output_invD[OF i], of e c] ep unfolding capture_epoch by auto
  next
    fix e
    assume "(e, True) \<in> set (os_signals s')" "e = om_epoch (os_om s')"
    then show "Writing \<notin> set (os_files s')" using signals_invD(2)[OF output_invD[OF i], of e] unfolding capture_epoch by auto
  qed
  moreover have "delivered s'" using i unfolding capture_epoch output_inv_def by (simp add: delivered_def)
  ultimately show ?thesis using i unfolding capture_epoch output_inv_def by simp
next
  case (check_pending k e)
  define N :: nat where "N = 2 ^ 32"
  have "(of_nat (unfinished (os_files s)) :: 32 word) = 0" using i check_pending(4) by (simp add: output_inv_def)
  then have "unat (of_nat (unfinished (os_files s)) :: 32 word) = 0" by simp
  then have "unfinished (os_files s) mod N = 0" by (simp add: unat_of_nat N_def)
  moreover have "unfinished (os_files s) < N"
  proof -
    have "unfinished (os_files s) \<le> length (os_files s)" by (simp add: unfinished_def)
    moreover have "length (os_files s) < N" using b unfolding check_pending(1) in_bounds_def N_def by simp
    ultimately show ?thesis by (rule le_less_trans)
  qed
  ultimately have "unfinished (os_files s) = 0" by simp
  then have nw: "Writing \<notin> set (os_files s)" by (auto simp: unfinished_0)
  have sub: "set (os_signals s') \<subseteq> insert (e, True) (set (os_signals s))"
    unfolding check_pending(1) by (simp add: set_update_subset_insert)
  have e: "(e, False) \<in> set (os_signals s)" using check_pending(2,3) by (metis nth_mem)
  have "signals_inv s'"
  proof (rule signals_invI)
    fix e' c
    assume "(e', c) \<in> set (os_signals s')"
    then have "e' = e \<or> (e', c) \<in> set (os_signals s)" using sub by blast
    then show "\<exists>k\<le>os_enables s'. e' = of_nat k"
      using signals_invD(1)[OF output_invD[OF i] e] signals_invD(1)[OF output_invD[OF i], of e' c] unfolding check_pending(1) by auto
  qed (use nw in \<open>simp add: check_pending(1)\<close>)
  moreover have "delivered s'" using i unfolding check_pending(1) output_inv_def by (simp add: delivered_def)
  ultimately show ?thesis using i unfolding check_pending(1) output_inv_def by simp
next
  case (send_eof e)
  have nw: "Writing \<notin> set (os_files s)" if "e = om_epoch (os_om s)"
    using signals_invD(2)[OF output_invD[OF i] send_eof(2)] that by simp
  have "manager_inv (os_om s')" using i unfolding send_eof(1) output_inv_def by (simp add: signal_eof_manager_inv)
  moreover have "delivered s'" using i unfolding send_eof(1) output_inv_def by (simp add: delivered_def queued_def signal_eof_effect)
  moreover have "signals_inv s'" unfolding send_eof(1) by (rule signals_inv_mono[OF output_invD[OF i]]) (simp_all add: signal_eof_effect)
  ultimately show ?thesis using i nw unfolding send_eof(1) output_inv_def by (auto simp: signal_eof_effect)
next
  case (read n active late later now a t)
  have l: "om_mode (os_om s) \<Longrightarrow> om_lines (os_om s) \<noteq> None" using i by (simp add: output_inv_def manager_inv_def)
  have "read_effect active a (late @ later) (os_om s) t"
    by (rule try_read_effect[OF read(3) l]) (use arrivals_okD[OF read(4) i] in auto)
  from answered_inv[OF this i read(4)] show ?thesis unfolding read(1) using paused_mode read(3) by blast
next
  case (retry n active late later now a t)
  have m: "om_mode (os_om s)" "om_buffer (os_om s) = []" using i retry(2) by (auto simp: output_inv_def)
  then have l: "om_lines (os_om s) \<noteq> None" using i by (simp add: output_inv_def manager_inv_def)
  have "read_effect active a (late @ later) (os_om s) t"
    by (rule retry_read_effect[OF retry(3) m(2) l]) (use arrivals_okD[OF retry(4) i] in auto)
  from answered_inv[OF this i retry(4)] show ?thesis unfolding retry(1) using m by blast
qed

lemma output_inv_new: "output_inv (new_output_session cfg)"
  by (simp add: output_inv_def new_output_session_def configure_def new_output_manager_def unfinished_def manager_inv_def queued_def
      signals_inv_def delivered_def Let_def)

lemma output_inv_reaches: "session_reaches (new_output_session cfg) s \<Longrightarrow> in_bounds s \<Longrightarrow> output_inv s"
  by (induction rule: rtranclp_induct) (auto intro: output_inv_new output_inv_step in_bounds_before)


definition sample_added :: output_session where
  "sample_added = (new_output_session default_output_config)\<lparr>os_files := [] @ replicate 2 Waiting, os_pending := 0 + of_nat 2\<rparr>"

definition sample_output :: output_session where
  "sample_output = sample_added\<lparr>os_files := (os_files sample_added)[0 := Writing], os_om := fst (enable (os_om sample_added)),
     os_enables := Suc (os_enables sample_added)\<rparr>"


end
