(* ===== verification/Colours.thy ===== *)
theory Colours
  imports Protocol
begin

text \<open>
  Terminal colours (\<open>internal/color\<close>, \<open>internal/color/brush\<close>): the escape codes, their names in the
  configuration, painting of a text, and the colouring of a line by its fields. The types of the
  code for colours and attributes are strings, and a configuration may hold any; the foreground,
  background and attribute of one part of a line are a record here. The theorem is that colouring
  adds codes and nothing else.
\<close>

subsection \<open>Codes\<close>

definition escape :: gostr where
  "escape = [CHR 0x1B]"

definition colour_code :: "gostr \<Rightarrow> gostr" where
  "colour_code n = escape @ ''['' @ n @ ''m''"

definition fg_default :: gostr where "fg_default = colour_code ''39''"
definition bg_default :: gostr where "bg_default = colour_code ''49''"
definition attr_none :: gostr where "attr_none = []"
definition attr_reset :: gostr where "attr_reset = colour_code ''0''"

definition fg_colours :: "(gostr \<times> gostr) list" where
  "fg_colours =
     [(''black'', colour_code ''30''), (''red'', colour_code ''31''), (''green'', colour_code ''32''), (''yellow'', colour_code ''33''),
      (''blue'', colour_code ''34''), (''magenta'', colour_code ''35''), (''cyan'', colour_code ''36''), (''white'', colour_code ''37''),
      (''default'', fg_default)]"

definition bg_colours :: "(gostr \<times> gostr) list" where
  "bg_colours =
     [(''black'', colour_code ''40''), (''red'', colour_code ''41''), (''green'', colour_code ''42''), (''yellow'', colour_code ''43''),
      (''blue'', colour_code ''44''), (''magenta'', colour_code ''45''), (''cyan'', colour_code ''46''), (''white'', colour_code ''47''),
      (''default'', bg_default)]"

definition attributes :: "(gostr \<times> gostr) list" where
  "attributes =
     [(''bold'', colour_code ''1''), (''dim'', colour_code ''2''), (''italic'', colour_code ''3''), (''underline'', colour_code ''4''),
      (''blink'', colour_code ''5''), (''slowblink'', colour_code ''5''), (''rapidblink'', colour_code ''6''),
      (''reverse'', colour_code ''7''), (''hidden'', colour_code ''8''), (''none'', attr_none), ([], attr_none)]"

text \<open>An unknown name gives the default with an error, which is \<open>True\<close> here.\<close>

definition to_fg_color :: "gostr \<Rightarrow> gostr \<times> bool" where
  "to_fg_color s = (case map_of fg_colours (to_lower s) of Some c \<Rightarrow> (c, False) | None \<Rightarrow> (fg_default, True))"

definition to_bg_color :: "gostr \<Rightarrow> gostr \<times> bool" where
  "to_bg_color s = (case map_of bg_colours (to_lower s) of Some c \<Rightarrow> (c, False) | None \<Rightarrow> (bg_default, True))"

definition to_attribute :: "gostr \<Rightarrow> gostr \<times> bool" where
  "to_attribute s = (case map_of attributes (to_lower s) of Some c \<Rightarrow> (c, False) | None \<Rightarrow> (attr_none, True))"

definition color_names :: "gostr list" where
  "color_names = [''Black'', ''Red'', ''Green'', ''Yellow'', ''Blue'', ''Magenta'', ''Cyan'', ''White'', ''Default'']"

definition attribute_names :: "gostr list" where
  "attribute_names =
     [''Bold'', ''Dim'', ''Italic'', ''Underline'', ''Blink'', ''SlowBlink'', ''RapidBlink'', ''Reverse'', ''Hidden'', ''None'']"

subsection \<open>Painting\<close>

record style =
  st_fg :: gostr
  st_bg :: gostr
  st_attr :: gostr

abbreviation line_end :: gostr where
  "line_end \<equiv> [CHR 0x0A]"

definition paint_str :: "gostr \<Rightarrow> gostr \<Rightarrow> gostr \<Rightarrow> gostr" where
  "paint_str text fg bg = fg @ bg @ text @ bg_default @ fg_default"

definition paint_str_with_attr :: "gostr \<Rightarrow> style \<Rightarrow> gostr" where
  "paint_str_with_attr text st =
     (if st_attr st = attr_none then paint_str text (st_fg st) (st_bg st)
      else st_fg st @ st_bg st @ st_attr st @ text @ attr_reset @ bg_default @ fg_default)"

definition paint_str_fg :: "gostr \<Rightarrow> gostr \<Rightarrow> gostr" where
  "paint_str_fg text fg = fg @ text @ fg_default"

definition paint_str_bg :: "gostr \<Rightarrow> gostr \<Rightarrow> gostr" where
  "paint_str_bg text bg = bg @ text @ bg_default"

definition paint_str_attr :: "gostr \<Rightarrow> gostr \<Rightarrow> gostr" where
  "paint_str_attr text attr = attr @ text @ attr_reset"

text \<open>A newline at the end of the text comes after the codes.\<close>

definition paint :: "gostr \<Rightarrow> gostr \<Rightarrow> gostr \<Rightarrow> gostr" where
  "paint text fg bg =
     (let trimmed = trim_suffix text line_end in
      fg @ bg @ trimmed @ bg_default @ fg_default @ (if trimmed \<noteq> text then line_end else []))"

definition paint_with_attr :: "gostr \<Rightarrow> style \<Rightarrow> gostr" where
  "paint_with_attr text st =
     (if st_attr st = attr_none then paint text (st_fg st) (st_bg st)
      else
        (let trimmed = trim_suffix text line_end in
         st_fg st @ st_bg st @ st_attr st @ trimmed @ attr_reset @ bg_default @ fg_default @ (if trimmed \<noteq> text then line_end else [])))"

definition paint_with_attrs :: "gostr \<Rightarrow> gostr \<Rightarrow> gostr \<Rightarrow> gostr list \<Rightarrow> gostr" where
  "paint_with_attrs text fg bg attrs =
     (let trimmed = trim_suffix text line_end in
      fg @ bg @ concat attrs @ trimmed @ attr_reset @ bg_default @ fg_default @ (if trimmed \<noteq> text then line_end else []))"

definition paint_reset :: gostr where
  "paint_reset = bg_default @ fg_default"

definition paint_reset_with_attr :: gostr where
  "paint_reset_with_attr = attr_reset @ bg_default @ fg_default"

subsection \<open>The colours of a client\<close>

record remote_colours =
  rc_delimiter :: style
  rc_remote :: style
  rc_count :: style
  rc_hostname :: style
  rc_id :: style
  rc_stats_ok :: style
  rc_stats_warn :: style
  rc_text :: style

text \<open>Of the lines of the client itself, and of the messages of a server.\<close>

record origin_colours =
  oc_delimiter :: style
  oc_origin :: style
  oc_hostname :: style
  oc_text :: style

record common_colours =
  cc_severity_error :: style
  cc_severity_fatal :: style
  cc_severity_warn :: style

record term_colours =
  tc_remote :: remote_colours
  tc_client :: origin_colours
  tc_server :: origin_colours
  tc_common :: common_colours

text \<open>A style by the names of its colours.\<close>

definition named_style :: "gostr \<Rightarrow> gostr \<Rightarrow> gostr \<Rightarrow> style" where
  "named_style fg bg attr = \<lparr>st_fg = fst (to_fg_color fg), st_bg = fst (to_bg_color bg), st_attr = fst (to_attribute attr)\<rparr>"

definition default_term_colours :: term_colours where
  "default_term_colours =
     \<lparr>tc_remote =
        \<lparr>rc_delimiter = named_style ''cyan'' ''blue'' ''dim'', rc_remote = named_style ''white'' ''blue'' ''dim'',
         rc_count = named_style ''white'' ''blue'' ''dim'', rc_hostname = named_style ''white'' ''blue'' ''bold'',
         rc_id = named_style ''white'' ''blue'' ''dim'', rc_stats_ok = named_style ''black'' ''green'' ''none'',
         rc_stats_warn = named_style ''white'' ''red'' ''none'', rc_text = named_style ''white'' ''black'' ''none''\<rparr>,
      tc_client =
        \<lparr>oc_delimiter = named_style ''black'' ''yellow'' ''dim'', oc_origin = named_style ''black'' ''yellow'' ''dim'',
         oc_hostname = named_style ''black'' ''yellow'' ''dim'', oc_text = named_style ''white'' ''black'' ''none''\<rparr>,
      tc_server =
        \<lparr>oc_delimiter = named_style ''black'' ''cyan'' ''dim'', oc_origin = named_style ''black'' ''cyan'' ''dim'',
         oc_hostname = named_style ''black'' ''cyan'' ''bold'', oc_text = named_style ''white'' ''black'' ''none''\<rparr>,
      tc_common =
        \<lparr>cc_severity_error = named_style ''white'' ''red'' ''bold'', cc_severity_fatal = named_style ''white'' ''magenta'' ''bold'',
         cc_severity_warn = named_style ''white'' ''black'' ''bold''\<rparr>\<rparr>"

subsection \<open>The brush\<close>

definition paint_default :: "gostr \<Rightarrow> gostr" where
  "paint_default line = paint_with_attr line \<lparr>st_fg = fg_default, st_bg = bg_default, st_attr = attr_none\<rparr>"

definition paint_severity :: "common_colours \<Rightarrow> gostr \<Rightarrow> gostr option" where
  "paint_severity c text =
     (if has_prefix text ''WARN'' then Some (paint_with_attr text (cc_severity_warn c))
      else if has_prefix text ''ERROR'' then Some (paint_with_attr text (cc_severity_error c))
      else if has_prefix text ''FATAL'' then Some (paint_with_attr text (cc_severity_fatal c))
      else None)"

text \<open>The last field: by its severity, or as a text.\<close>

definition paint_text :: "common_colours \<Rightarrow> style \<Rightarrow> gostr \<Rightarrow> gostr" where
  "paint_text c st text = (case paint_severity c text of Some s \<Rightarrow> s | None \<Rightarrow> paint_with_attr text st)"

definition paint_remote :: "term_colours \<Rightarrow> gostr \<Rightarrow> gostr" where
  "paint_remote tc line =
     (let c = tc_remote tc; d = paint_with_attr field_delimiter (rc_delimiter c) in
      case split_n field_delimiter 6 line of
        [origin, host, perc, count, source, text] \<Rightarrow>
          paint_with_attr origin (rc_remote c) @ d @ paint_with_attr host (rc_hostname c) @ d @
          paint_with_attr perc (if perc = ''100'' then rc_stats_ok c else rc_stats_warn c) @ d @
          paint_with_attr count (rc_count c) @ d @ paint_with_attr source (rc_id c) @ d @
          paint_text (tc_common tc) (rc_text c) text
      | _ \<Rightarrow> paint_default line)"

definition paint_origin :: "common_colours \<Rightarrow> origin_colours \<Rightarrow> gostr \<Rightarrow> gostr" where
  "paint_origin common c line =
     (let d = paint_with_attr field_delimiter (oc_delimiter c) in
      case split_n field_delimiter 3 line of
        [origin, host, text] \<Rightarrow>
          paint_with_attr origin (oc_origin c) @ d @ paint_with_attr host (oc_hostname c) @ d @ paint_text common (oc_text c) text
      | _ \<Rightarrow> paint_default line)"

definition paint_client :: "term_colours \<Rightarrow> gostr \<Rightarrow> gostr" where
  "paint_client tc = paint_origin (tc_common tc) (tc_client tc)"

definition paint_server :: "term_colours \<Rightarrow> gostr \<Rightarrow> gostr" where
  "paint_server tc = paint_origin (tc_common tc) (tc_server tc)"

definition colorfy :: "term_colours \<Rightarrow> gostr \<Rightarrow> gostr" where
  "colorfy tc line =
     (if has_prefix line ''REMOTE'' then paint_remote tc line
      else if has_prefix line ''CLIENT'' then paint_client tc line
      else if has_prefix line ''SERVER'' then paint_server tc line
      else paint_default line)"

subsection \<open>Colours add nothing but codes\<close>

text \<open>What a terminal shows: a code is an escape character and everything up to the next letter m.\<close>

function visible :: "gostr \<Rightarrow> gostr" where
  "visible [] = []"
| "visible (c # cs) =
     (if c = CHR 0x1B then visible (tl (dropWhile (\<lambda>x. x \<noteq> CHR ''m'') cs)) else c # visible cs)"
  by pat_completeness auto
termination
proof (relation "measure length")
  fix c :: char and cs :: gostr
  have "length (tl (dropWhile (\<lambda>x. x \<noteq> CHR ''m'') cs)) \<le> length cs"
    using length_dropWhile_le[of "\<lambda>x. x \<noteq> CHR ''m''" cs] by simp
  then show "(tl (dropWhile (\<lambda>x. x \<noteq> CHR ''m'') cs), c # cs) \<in> measure length" by simp
qed simp_all

definition is_code :: "gostr \<Rightarrow> bool" where
  "is_code s \<longleftrightarrow> s = [] \<or> (\<exists>n. s = CHR 0x1B # n @ ''m'' \<and> CHR ''m'' \<notin> set n)"

definition style_ok :: "style \<Rightarrow> bool" where
  "style_ok st \<longleftrightarrow> is_code (st_fg st) \<and> is_code (st_bg st) \<and> is_code (st_attr st)"

definition colours_ok :: "term_colours \<Rightarrow> bool" where
  "colours_ok tc \<longleftrightarrow>
     list_all (\<lambda>f. style_ok (f (tc_remote tc)))
       [rc_delimiter, rc_remote, rc_count, rc_hostname, rc_id, rc_stats_ok, rc_stats_warn, rc_text] \<and>
     list_all (\<lambda>c. list_all (\<lambda>f. style_ok (f c)) [oc_delimiter, oc_origin, oc_hostname, oc_text]) [tc_client tc, tc_server tc] \<and>
     list_all (\<lambda>f. style_ok (f (tc_common tc))) [cc_severity_error, cc_severity_fatal, cc_severity_warn]"

lemma visible_plain: "CHR 0x1B \<notin> set s \<Longrightarrow> visible (s @ t) = s @ visible t"
  by (induction s) auto

lemma visible_code: "is_code s \<Longrightarrow> visible (s @ t) = visible t"
proof (unfold is_code_def, elim disjE exE conjE)
  fix n
  assume s: "s = CHR 0x1B # n @ ''m''" and n: "CHR ''m'' \<notin> set n"
  have "dropWhile (\<lambda>x. x \<noteq> CHR ''m'') (n @ CHR ''m'' # t) = CHR ''m'' # t"
    by (subst dropWhile_append2) (use n in auto)
  then show "visible (s @ t) = visible t" by (simp add: s)
qed simp

lemma code_is_code: "CHR ''m'' \<notin> set n \<Longrightarrow> is_code (colour_code n)"
  by (auto simp: is_code_def colour_code_def escape_def)

lemma default_codes [simp]: "is_code fg_default" "is_code bg_default" "is_code attr_none" "is_code attr_reset"
  by (auto simp: fg_default_def bg_default_def attr_reset_def attr_none_def is_code_def colour_code_def escape_def)

lemma visible_codes [simp]:
  "visible (fg_default @ t) = visible t" "visible (bg_default @ t) = visible t" "visible (attr_reset @ t) = visible t"
  by (simp_all add: visible_code)

lemma visible_paint:
  assumes "style_ok st" and "CHR 0x1B \<notin> set text"
  shows "visible (paint_with_attr text st @ t) = text @ visible t"
proof -
  obtain body nl where b: "text = body @ nl" "trim_suffix text line_end = body" "nl = [] \<or> nl = line_end" "(body \<noteq> text) = (nl = line_end)"
  proof (cases "has_suffix text line_end")
    case True
    then have "text = butlast text @ line_end" by (metis append_butlast_last_id has_suffix_single)
    then show ?thesis using that[of "butlast text" line_end] by (metis append_self_conv not_Cons_self trim_suffix_append)
  next
    case False
    then have "trim_suffix text line_end = text" by (simp add: trim_suffix_def)
    then show ?thesis using that[of "text" "[]"] by simp
  qed
  have plain: "CHR 0x1B \<notin> set body" "CHR 0x1B \<notin> set nl" using assms(2) b(1) by auto
  have nl: "(if body \<noteq> text then line_end else []) = nl" using b(3,4) by auto
  have "is_code (st_fg st)" "is_code (st_bg st)" "is_code (st_attr st)" using assms(1) by (simp_all add: style_ok_def)
  note codes = this[THEN visible_code]
  show ?thesis
    unfolding paint_with_attr_def paint_def Let_def b(2) nl
    by (simp add: codes visible_plain[OF plain(1)] visible_plain[OF plain(2)]) (simp add: b(1))
qed

lemma visible_text:
  assumes "style_ok st" and "style_ok (cc_severity_warn c)" and "style_ok (cc_severity_error c)" and "style_ok (cc_severity_fatal c)"
    and "CHR 0x1B \<notin> set text"
  shows "visible (paint_text c st text @ t) = text @ visible t"
  using assms by (simp add: paint_text_def paint_severity_def visible_paint)

lemma join_split_n: "0 < n \<Longrightarrow> join sep (split_n sep n s) = s"
proof (induction n arbitrary: s)
  case (Suc n)
  show ?case
  proof (cases "n = 0 \<or> cut sep s = None")
    case False
    then obtain a b where c: "cut sep s = Some (a, b)" by fastforce
    have ne: "split_n sep n b \<noteq> []" using False by (cases n) (auto split: option.splits)
    show ?thesis using False c Suc.IH[of b] cut_Some[OF c] by (simp add: join_Cons[OF ne])
  qed auto
qed simp

lemma visible_delimiter: "style_ok st \<Longrightarrow> visible (paint_with_attr field_delimiter st @ t) = field_delimiter @ visible t"
  by (simp add: visible_paint field_delimiter_def)

lemma visible_default: "CHR 0x1B \<notin> set line \<Longrightarrow> visible (paint_default line) = line"
  using visible_paint[of "\<lparr>st_fg = fg_default, st_bg = bg_default, st_attr = attr_none\<rparr>" line "[]"]
  by (simp add: paint_default_def style_ok_def)

text \<open>A case on the number of fields that has a branch for one number only.\<close>

lemma fields_6:
  obtains a b c d e f where "xs = [a, b, c, d, e, f]" | "\<And>g h. (case (xs :: gostr list) of [a, b, c, d, e, f] \<Rightarrow> g a b c d e f | _ \<Rightarrow> (h :: gostr)) = h"
proof (cases "\<exists>a b c d e f. xs = [a, b, c, d, e, f]")
  case False
  show ?thesis by (rule that(2)) (use False in \<open>simp split: list.split\<close>)
qed (use that(1) in blast)

lemma fields_3:
  obtains a b c where "xs = [a, b, c]" | "\<And>g h. (case (xs :: gostr list) of [a, b, c] \<Rightarrow> g a b c | _ \<Rightarrow> (h :: gostr)) = h"
proof (cases "\<exists>a b c. xs = [a, b, c]")
  case False
  show ?thesis by (rule that(2)) (use False in \<open>simp split: list.split\<close>)
qed (use that(1) in blast)

lemma visible_remote:
  assumes "colours_ok tc" and "CHR 0x1B \<notin> set line"
  shows "visible (paint_remote tc line) = line"
proof (cases "split_n field_delimiter 6 line" rule: fields_6)
  case (1 a b c d e f)
  have j: "line = a @ field_delimiter @ b @ field_delimiter @ c @ field_delimiter @ d @ field_delimiter @ e @ field_delimiter @ f"
    using join_split_n[of 6 field_delimiter line] 1 by simp
  have n: "CHR 0x1B \<notin> set a" "CHR 0x1B \<notin> set b" "CHR 0x1B \<notin> set c" "CHR 0x1B \<notin> set d" "CHR 0x1B \<notin> set e" "CHR 0x1B \<notin> set f"
    using assms(2) j by auto
  have "visible (paint_text (tc_common tc) (rc_text (tc_remote tc)) f) = f"
    using visible_text[of "rc_text (tc_remote tc)" "tc_common tc" f "[]"] assms(1) n(6) by (simp add: colours_ok_def)
  then have "visible (paint_remote tc line) =
      a @ field_delimiter @ b @ field_delimiter @ c @ field_delimiter @ d @ field_delimiter @ e @ field_delimiter @ f"
    using assms(1) n unfolding colours_ok_def by (simp add: paint_remote_def 1 Let_def visible_paint visible_delimiter)
  then show ?thesis using j by simp
next
  case 2
  then show ?thesis using visible_default[OF assms(2)] by (simp add: paint_remote_def Let_def)
qed

lemma visible_origin:
  assumes "style_ok (oc_delimiter c)" "style_ok (oc_origin c)" "style_ok (oc_hostname c)" "style_ok (oc_text c)"
    and "style_ok (cc_severity_warn k)" "style_ok (cc_severity_error k)" "style_ok (cc_severity_fatal k)" and "CHR 0x1B \<notin> set line"
  shows "visible (paint_origin k c line) = line"
proof (cases "split_n field_delimiter 3 line" rule: fields_3)
  case (1 x y z)
  have j: "line = x @ field_delimiter @ y @ field_delimiter @ z" using join_split_n[of 3 field_delimiter line] 1 by simp
  have n: "CHR 0x1B \<notin> set x" "CHR 0x1B \<notin> set y" "CHR 0x1B \<notin> set z" using assms(8) j by auto
  have "visible (paint_text k (oc_text c) z) = z"
    using visible_text[of "oc_text c" k z "[]"] assms n(3) by simp
  then have "visible (paint_origin k c line) = x @ field_delimiter @ y @ field_delimiter @ z"
    using assms(1-7) n by (simp add: paint_origin_def 1 Let_def visible_paint visible_delimiter)
  then show ?thesis using j by simp
next
  case 2
  then show ?thesis using visible_default[OF assms(8)] by (simp add: paint_origin_def Let_def)
qed

text \<open>
  Colouring a line adds codes and nothing else: for a line without an escape character and a
  configuration of codes, a terminal shows the line as it was, whatever its fields are.
\<close>

theorem colorfy_visible:
  assumes "colours_ok tc" and "CHR 0x1B \<notin> set line"
  shows "visible (colorfy tc line) = line"
  using assms visible_remote[OF assms] visible_default[OF assms(2)] visible_origin[OF _ _ _ _ _ _ _ assms(2)]
  by (simp add: colorfy_def paint_client_def paint_server_def colours_ok_def)

lemma named_style_ok: "style_ok (named_style fg bg attr)"
proof -
  have "is_code c" if "c \<in> snd ` set fg_colours \<or> c \<in> snd ` set bg_colours \<or> c \<in> snd ` set attributes" for c
    using that by (auto simp: fg_colours_def bg_colours_def attributes_def code_is_code)
  then have "is_code c" if "map_of fg_colours s = Some c \<or> map_of bg_colours s = Some c \<or> map_of attributes s = Some c" for c s
    using that map_of_SomeD by (metis image_eqI snd_conv)
  then show ?thesis
    by (auto simp: style_ok_def named_style_def to_fg_color_def to_bg_color_def to_attribute_def split: option.splits)
qed

lemma default_colours_ok: "colours_ok default_term_colours"
  by (simp add: colours_ok_def default_term_colours_def named_style_ok)

lemma colorfy_visible_witness:
  "visible (colorfy default_term_colours ''REMOTE|host|100|1|file|ERROR: x'') = ''REMOTE|host|100|1|file|ERROR: x''"
  by (rule colorfy_visible[OF default_colours_ok]) simp

end
