(* ===== verification/Line_Writer.thy ===== *)
theory Line_Writer
  imports Colours Line_Filter
begin

text \<open>
  The writers of lines on the server (\<open>handlers/line_writer.go\<close>, \<open>handlers/lineprocessor.go\<close>): they
  format a line and collect the bytes up to the size of a buffer, then hand them on, to an
  \<open>io.Writer\<close>, or as a payload to the channel of the output manager. Writing and sending are done by
  the environment and are arguments. The mutex of a writer makes each call atomic; the channel send
  of a network writer is outside of it, in \<open>send_to_channel\<close>.
\<close>

subsection \<open>State\<close>

record line_writer =
  lw_hostname :: gostr
  lw_plain :: bool
  lw_serverless :: bool
  lw_generation :: uint64
  lw_buf :: gostr
  lw_buf_size :: nat
  lw_sending :: bool
  lw_lines_written :: uint64
  lw_bytes_written :: uint64

definition write_buffer_size :: nat where
  "write_buffer_size = 64 * 1024"

definition new_line_writer :: "gostr \<Rightarrow> bool \<Rightarrow> bool \<Rightarrow> uint64 \<Rightarrow> line_writer" where
  "new_line_writer hostname plain serverless generation =
     \<lparr>lw_hostname = hostname, lw_plain = plain, lw_serverless = serverless, lw_generation = generation, lw_buf = [],
       lw_buf_size = write_buffer_size, lw_sending = False, lw_lines_written = 0, lw_bytes_written = 0\<rparr>"

text \<open>A line is added to the buffer and counted.\<close>

definition append_line :: "gostr \<Rightarrow> line_writer \<Rightarrow> line_writer" where
  "append_line bs w =
     w\<lparr>lw_buf := lw_buf w @ bs, lw_lines_written := lw_lines_written w + 1,
       lw_bytes_written := lw_bytes_written w + of_nat (length bs)\<rparr>"

definition writer_stats :: "line_writer \<Rightarrow> uint64 \<times> uint64" where
  "writer_stats w = (lw_lines_written w, lw_bytes_written w)"

subsection \<open>Writing to an \<open>io.Writer\<close>\<close>

text \<open>
  \<open>write data s\<close> is the call of the writer: how many bytes it took, or its error, and its state
  after it. More bytes than there were would be a slice out of range.
\<close>

datatype 'e write_error = WriteFailed 'e | ShortWrite | WriteOutOfRange

type_synonym ('e, 's) io_writer = "gostr \<Rightarrow> 's \<Rightarrow> ('e + int) \<times> 's"

function write_all :: "('e, 's) io_writer \<Rightarrow> gostr \<Rightarrow> 's \<Rightarrow> 'e write_error option \<times> 's" where
  "write_all write [] s = (None, s)"
| "write_all write (d # ds) s =
     (case write (d # ds) s of
        (Inl e, s1) \<Rightarrow> (Some (WriteFailed e), s1)
      | (Inr n, s1) \<Rightarrow>
          if n \<le> 0 then (Some ShortWrite, s1)
          else if int (length (d # ds)) < n then (Some WriteOutOfRange, s1)
          else write_all write (drop (nat n) (d # ds)) s1)"
  by pat_completeness auto
termination by (relation "measure (\<lambda>(write, ds, s). length ds)") auto

definition flush_buffer :: "('e, 's) io_writer \<Rightarrow> line_writer \<times> 's \<Rightarrow> 'e write_error option \<times> line_writer \<times> 's" where
  "flush_buffer write ws =
     (case ws of (w, s) \<Rightarrow>
        if lw_buf w = [] then (None, w, s)
        else case write_all write (lw_buf w) s of (e, s1) \<Rightarrow> (e, w\<lparr>lw_buf := []\<rparr>, s1))"

definition flush_when_full :: "('e, 's) io_writer \<Rightarrow> line_writer \<times> 's \<Rightarrow> 'e write_error option \<times> line_writer \<times> 's" where
  "flush_when_full write ws =
     (if lw_buf_size (fst ws) \<le> length (lw_buf (fst ws)) then flush_buffer write ws else (None, ws))"

definition without_newline :: "gostr \<Rightarrow> gostr" where
  "without_newline s = (if s \<noteq> [] \<and> last s = CHR 0x0A then butlast s else s)"

definition ensure_newline :: "gostr \<Rightarrow> gostr" where
  "ensure_newline s = (if s \<noteq> [] \<and> last s \<noteq> CHR 0x0A then s @ line_end else s)"

definition serverless_line :: "term_colours \<Rightarrow> line_writer \<Rightarrow> gostr \<Rightarrow> uint64 \<Rightarrow> gostr \<Rightarrow> gostr" where
  "serverless_line tc w content line_num source =
     (if lw_plain w then ensure_newline content
      else colorfy tc (format_remote_header (lw_hostname w) default_transmitted_perc line_num source @ without_newline content) @ line_end)"

definition write_serverless_line :: "term_colours \<Rightarrow> ('e, 's) io_writer \<Rightarrow> gostr \<Rightarrow> uint64 \<Rightarrow> gostr \<Rightarrow> line_writer \<times> 's \<Rightarrow>
    'e write_error option \<times> line_writer \<times> 's" where
  "write_serverless_line tc write content line_num source ws =
     flush_when_full write (append_line (serverless_line tc (fst ws) content line_num source) (fst ws), snd ws)"

definition network_line :: "line_writer \<Rightarrow> gostr \<Rightarrow> uint64 \<Rightarrow> gostr \<Rightarrow> gostr" where
  "network_line w content line_num source =
     (if lw_plain w then ensure_newline content
      else format_remote_line (lw_hostname w) default_transmitted_perc line_num source content)"

definition write_network_line :: "('e, 's) io_writer \<Rightarrow> gostr \<Rightarrow> uint64 \<Rightarrow> gostr \<Rightarrow> line_writer \<times> 's \<Rightarrow>
    'e write_error option \<times> line_writer \<times> 's" where
  "write_network_line write content line_num source ws =
     flush_when_full write (append_line (network_line (fst ws) content line_num source) (fst ws), snd ws)"

text \<open>\<open>active\<close> is the generation of the session at the call, if the writer was given one.\<close>

definition direct_write_line :: "term_colours \<Rightarrow> ('e, 's) io_writer \<Rightarrow> uint64 option \<Rightarrow> gostr \<Rightarrow> uint64 \<Rightarrow> gostr \<Rightarrow> line_writer \<times> 's \<Rightarrow>
    'e write_error option \<times> line_writer \<times> 's" where
  "direct_write_line tc write active content line_num source ws =
     (if \<not> should_write_generation (lw_generation (fst ws)) active then (None, ws)
      else if lw_serverless (fst ws) then write_serverless_line tc write content line_num source ws
      else write_network_line write content line_num source ws)"

text \<open>A message of the server as bytes; \<open>None\<close> where it is left out.\<close>

definition message_bytes :: "gostr \<Rightarrow> bool \<Rightarrow> gostr \<Rightarrow> gostr option" where
  "message_bytes hostname plain message =
     (if plain \<and> (message = [] \<or> message = line_end) then None
      else if message \<noteq> [] \<and> hd message = CHR ''.'' then Some (message @ [message_delimiter])
      else Some (format_server_message hostname message plain))"

definition direct_write_message :: "('e, 's) io_writer \<Rightarrow> uint64 option \<Rightarrow> gostr \<Rightarrow> line_writer \<times> 's \<Rightarrow>
    'e write_error option \<times> line_writer \<times> 's" where
  "direct_write_message write active message ws =
     (if \<not> should_write_generation (lw_generation (fst ws)) active \<or> lw_serverless (fst ws) then (None, ws)
      else case message_bytes (lw_hostname (fst ws)) (lw_plain (fst ws)) message of
          None \<Rightarrow> (None, ws)
        | Some bs \<Rightarrow> flush_buffer write ((fst ws)\<lparr>lw_buf := lw_buf (fst ws) @ bs\<rparr>, snd ws))"

subsection \<open>The processor of grep\<close>

text \<open>Its writer is called once for a buffer, and what it does not take is lost.\<close>

definition grep_flush :: "('e, 's) io_writer \<Rightarrow> line_writer \<times> 's \<Rightarrow> 'e option \<times> line_writer \<times> 's" where
  "grep_flush write ws =
     (case ws of (w, s) \<Rightarrow>
        if lw_buf w = [] then (None, w, s)
        else case write (lw_buf w) s of (r, s1) \<Rightarrow> (case r of Inl e \<Rightarrow> Some e | Inr n \<Rightarrow> None, w\<lparr>lw_buf := []\<rparr>, s1))"

definition delimited_line :: "line_writer \<Rightarrow> gostr \<Rightarrow> uint64 \<Rightarrow> gostr \<Rightarrow> gostr" where
  "delimited_line w content line_num source =
     (if \<not> lw_plain w \<and> \<not> lw_serverless w then format_remote_line (lw_hostname w) default_transmitted_perc line_num source content
      else content @ [message_delimiter])"

definition grep_process_line :: "('e, 's) io_writer \<Rightarrow> gostr \<Rightarrow> uint64 \<Rightarrow> gostr \<Rightarrow> line_writer \<times> 's \<Rightarrow> 'e option \<times> line_writer \<times> 's" where
  "grep_process_line write content line_num source ws =
     (let w1 = append_line (delimited_line (fst ws) content line_num source) (fst ws) in
      if lw_buf_size w1 \<le> length (lw_buf w1) then grep_flush write (w1, snd ws) else (None, w1, snd ws))"

definition send_server_message :: "('e, 's) io_writer \<Rightarrow> gostr \<Rightarrow> bool \<Rightarrow> bool \<Rightarrow> gostr \<Rightarrow> 's \<Rightarrow> 'e option \<times> 's" where
  "send_server_message write hostname plain serverless message s =
     (if serverless then (None, s)
      else case message_bytes hostname plain message of
          None \<Rightarrow> (None, s)
        | Some bs \<Rightarrow> (case write bs s of (Inl e, s1) \<Rightarrow> (Some e, s1) | (Inr n, s1) \<Rightarrow> (None, s1)))"

subsection \<open>Writing to a channel\<close>

text \<open>The channel is given as the number of payloads it still has room for, and what it got.\<close>

definition channel_write_line :: "nat \<Rightarrow> uint64 option \<Rightarrow> gostr \<Rightarrow> uint64 \<Rightarrow> gostr \<Rightarrow> line_writer \<times> gostr list \<Rightarrow>
    bool \<times> line_writer \<times> gostr list" where
  "channel_write_line room active content line_num source wq =
     (case wq of (w, q) \<Rightarrow>
        if \<not> should_write_generation (lw_generation w) active then (False, w, q)
        else
          (let w1 = append_line (delimited_line w content line_num source) w;
               w2 = w1\<lparr>lw_buf := []\<rparr> in
           if 0 < room then (False, w2, q @ [encode_generated (lw_generation w) (lw_buf w1)]) else (True, w2, q)))"

definition channel_write_message :: "nat \<Rightarrow> uint64 option \<Rightarrow> gostr \<Rightarrow> line_writer \<times> gostr list \<Rightarrow> bool \<times> line_writer \<times> gostr list" where
  "channel_write_message room active message wq =
     (case wq of (w, q) \<Rightarrow>
        if \<not> should_write_generation (lw_generation w) active \<or> lw_serverless w then (False, w, q)
        else case message_bytes (lw_hostname w) (lw_plain w) message of
            None \<Rightarrow> (False, w, q)
          | Some bs \<Rightarrow> if 0 < room then (False, w, q @ [encode_generated (lw_generation w) bs]) else (True, w, q))"

subsection \<open>The network writer\<close>

text \<open>
  A send that finds the channel full tries again, each time after a wait. An attempt has the
  generation that is active before and after the wait, whether the context was cancelled by then,
  and what \<open>select\<close> took.
\<close>

datatype send_try = TrySent | TryCancelled | TryFull

record attempt =
  at_before :: "uint64 option"
  at_cancelled :: bool
  at_after :: "uint64 option"
  at_try :: send_try

datatype send_result = SendDelivered | SendDropped | SendFailed

text \<open>No result is a send that still waits when the attempts end.\<close>

fun send_loop :: "uint64 \<Rightarrow> attempt list \<Rightarrow> send_result option" where
  "send_loop g [] = None"
| "send_loop g (a # as) =
     (if \<not> should_write_generation g (at_before a) \<or> at_cancelled a \<or> \<not> should_write_generation g (at_after a) then
        Some (if at_cancelled a then SendFailed else SendDropped)
      else case at_try a of TrySent \<Rightarrow> Some SendDelivered | TryCancelled \<Rightarrow> Some SendFailed | TryFull \<Rightarrow> send_loop g as)"

text \<open>The first attempt does not wait, and asks for the generation before it looks at the context.\<close>

definition send_to_channel :: "bool \<Rightarrow> uint64 \<Rightarrow> attempt \<Rightarrow> attempt list \<Rightarrow> send_result option" where
  "send_to_channel has_channel g a as =
     (if \<not> has_channel then Some SendDropped
      else if \<not> should_write_generation g (at_before a) then Some SendDropped
      else if at_cancelled a then Some SendFailed
      else case at_try a of TrySent \<Rightarrow> Some SendDelivered | TryCancelled \<Rightarrow> Some SendFailed | TryFull \<Rightarrow> send_loop g as)"

definition mark_sending :: "line_writer \<Rightarrow> line_writer" where
  "mark_sending w = w\<lparr>lw_sending := True\<rparr>"

definition finish_sending :: "line_writer \<Rightarrow> line_writer" where
  "finish_sending w = w\<lparr>lw_sending := False\<rparr>"

text \<open>What a writer has to send, if anything, and the writer when the mutex is released.\<close>

definition network_append :: "gostr \<Rightarrow> uint64 \<Rightarrow> gostr \<Rightarrow> line_writer \<Rightarrow> gostr option \<times> line_writer" where
  "network_append content line_num source w =
     (let w1 = append_line (delimited_line w content line_num source) w in
      if length (lw_buf w1) < lw_buf_size w1 \<or> lw_sending w1 then (None, w1)
      else (Some (lw_buf w1), mark_sending (w1\<lparr>lw_buf := []\<rparr>)))"

text \<open>\<open>sends\<close> is the result of a send of its data, and \<open>q\<close> what the channel got.\<close>

definition send_buffered :: "(gostr \<Rightarrow> send_result option) \<Rightarrow> gostr \<Rightarrow> line_writer \<times> gostr list \<Rightarrow>
    (bool \<times> line_writer \<times> gostr list) option" where
  "send_buffered sends data wq =
     (case wq of (w, q) \<Rightarrow>
        (case sends data of
           None \<Rightarrow> None
         | Some SendDelivered \<Rightarrow> Some (False, finish_sending w, q @ [encode_generated (lw_generation w) data])
         | Some SendDropped \<Rightarrow> Some (False, finish_sending w, q)
         | Some SendFailed \<Rightarrow> Some (True, finish_sending w, q)))"

definition network_write_line :: "(gostr \<Rightarrow> send_result option) \<Rightarrow> uint64 option \<Rightarrow> gostr \<Rightarrow> uint64 \<Rightarrow> gostr \<Rightarrow> line_writer \<times> gostr list \<Rightarrow>
    (bool \<times> line_writer \<times> gostr list) option" where
  "network_write_line sends active content line_num source wq =
     (if \<not> should_write_generation (lw_generation (fst wq)) active then Some (False, wq)
      else case network_append content line_num source (fst wq) of
          (None, w1) \<Rightarrow> Some (False, w1, snd wq)
        | (Some data, w1) \<Rightarrow> send_buffered sends data (w1, snd wq))"

text \<open>
  \<open>Flush\<close> for a writer that no other goroutine is sending with: after the buffer was sent it is
  empty, and the loop ends.
\<close>

definition network_flush :: "(gostr \<Rightarrow> send_result option) \<Rightarrow> line_writer \<times> gostr list \<Rightarrow> (bool \<times> line_writer \<times> gostr list) option" where
  "network_flush sends wq =
     (case wq of (w, q) \<Rightarrow>
        if lw_sending w then None
        else if lw_buf w = [] then Some (False, w, q)
        else send_buffered sends (lw_buf w) (mark_sending (w\<lparr>lw_buf := []\<rparr>), q))"

text \<open>The flag is the error of a full channel.\<close>

definition network_write_message :: "bool \<Rightarrow> nat \<Rightarrow> uint64 option \<Rightarrow> gostr \<Rightarrow> line_writer \<Rightarrow> gostr list \<Rightarrow> bool \<times> gostr list" where
  "network_write_message has_channel room active message w q =
     (if \<not> should_write_generation (lw_generation w) active then (False, q)
      else if \<not> has_channel then (False, q)
      else if 0 < room then (False, q @ [encode_generated (lw_generation w) message])
      else (True, q))"

subsection \<open>The line processor on a network writer\<close>

record direct_processor =
  dp_writer :: line_writer
  dp_queue :: "gostr list"
  dp_line_count :: uint64

definition new_direct_processor :: "line_writer \<Rightarrow> gostr list \<Rightarrow> direct_processor" where
  "new_direct_processor w q = \<lparr>dp_writer = w, dp_queue = q, dp_line_count = 0\<rparr>"

definition dp_process_line :: "(gostr \<Rightarrow> send_result option) \<Rightarrow> uint64 option \<Rightarrow> direct_processor \<Rightarrow> gostr \<Rightarrow> uint64 \<Rightarrow> gostr \<Rightarrow>
    (bool \<times> direct_processor) option" where
  "dp_process_line sends active p content line_num source =
     (case network_write_line sends active content line_num source (dp_writer p, dp_queue p) of
        None \<Rightarrow> None
      | Some (e, w, q) \<Rightarrow> Some (e, \<lparr>dp_writer = w, dp_queue = q, dp_line_count = dp_line_count p + 1\<rparr>))"

definition dp_flush :: "(gostr \<Rightarrow> send_result option) \<Rightarrow> direct_processor \<Rightarrow> (bool \<times> direct_processor) option" where
  "dp_flush sends p =
     (case network_flush sends (dp_writer p, dp_queue p) of
        None \<Rightarrow> None
      | Some (e, w, q) \<Rightarrow> Some (e, p\<lparr>dp_writer := w, dp_queue := q\<rparr>))"

subsection \<open>A buffer that is sent loses nothing\<close>

text \<open>
  A network writer whose sends either reach the channel or fail looks like a writer that never
  sends: a view of it has everything that is in the channel or in the buffer as its buffer.
\<close>

definition delivering :: "(gostr \<Rightarrow> bool) \<Rightarrow> gostr \<Rightarrow> send_result option" where
  "delivering accepts data = Some (if accepts data then SendDelivered else SendFailed)"

definition writer_process :: "(gostr \<Rightarrow> bool) \<Rightarrow> uint64 option \<Rightarrow> direct_processor \<Rightarrow> gostr \<Rightarrow> uint64 \<Rightarrow> gostr \<Rightarrow>
    direct_processor \<times> unit option" where
  "writer_process accepts active p l n s =
     (case dp_process_line (delivering accepts) active p l n s of
        None \<Rightarrow> (p, Some ())
      | Some (e, p1) \<Rightarrow> (p1, if e then Some () else None))"

definition payload_text :: "uint64 \<Rightarrow> gostr \<Rightarrow> gostr" where
  "payload_text g payload = drop (length (encode_generated g [])) payload"

lemma payload_text_encoded [simp]: "payload_text g (encode_generated g bs) = bs"
  by (simp add: payload_text_def encode_generated_def)

text \<open>Bytes that are lines, each with its header and its delimiter.\<close>

definition whole_lines :: "line_writer \<Rightarrow> gostr \<Rightarrow> bool" where
  "whole_lines w bs \<longleftrightarrow> (\<exists>evs. bs = concat (map (\<lambda>(l, n, s). delimited_line w l n s) evs))"

definition writer_open :: "uint64 option \<Rightarrow> direct_processor \<Rightarrow> bool" where
  "writer_open active p \<longleftrightarrow>
     (let w = dp_writer p in
      \<not> lw_sending w \<and> should_write_generation (lw_generation w) active \<and> whole_lines w (lw_buf w) \<and>
      (\<forall>q\<in>set (dp_queue p). \<exists>bs. q = encode_generated (lw_generation w) bs \<and> bs \<noteq> [] \<and> whole_lines w bs))"

definition writer_view :: "direct_processor \<Rightarrow> line_writer" where
  "writer_view p =
     (let w = dp_writer p in w\<lparr>lw_buf := concat (map (payload_text (lw_generation w)) (dp_queue p)) @ lw_buf w\<rparr>)"

definition view_append :: "line_writer \<Rightarrow> gostr \<Rightarrow> uint64 \<Rightarrow> gostr \<Rightarrow> line_writer" where
  "view_append w l n s = append_line (delimited_line w l n s) w"

lemma append_line_simps [simp]:
  "lw_generation (append_line bs w) = lw_generation w" "lw_sending (append_line bs w) = lw_sending w"
  "lw_buf (append_line bs w) = lw_buf w @ bs" "lw_hostname (append_line bs w) = lw_hostname w"
  "lw_plain (append_line bs w) = lw_plain w" "lw_serverless (append_line bs w) = lw_serverless w"
  by (simp_all add: append_line_def)

lemma delimited_line_buf [simp]:
  "delimited_line (w\<lparr>lw_buf := b\<rparr>) = delimited_line w" "delimited_line (append_line bs w) = delimited_line w"
  by (intro ext; simp add: delimited_line_def)+

lemma whole_lines_buf [simp]:
  "whole_lines (w\<lparr>lw_buf := b\<rparr>) = whole_lines w" "whole_lines (append_line bs w) = whole_lines w" "whole_lines w []"
  by (auto simp: whole_lines_def fun_eq_iff intro: exI[of _ "[]"])

lemma delimited_line_nonempty [simp]: "delimited_line w l n s \<noteq> []"
  by (simp add: delimited_line_def format_remote_line_def)

lemma whole_lines_append: "whole_lines w bs \<Longrightarrow> whole_lines w (bs @ delimited_line w l n s)"
proof -
  assume "whole_lines w bs"
  then obtain evs where "bs = concat (map (\<lambda>(l, n, s). delimited_line w l n s) evs)" by (auto simp: whole_lines_def)
  then show ?thesis unfolding whole_lines_def by (intro exI[of _ "evs @ [(l, n, s)]"]) simp
qed

lemma view_append_line:
  "view_append (w\<lparr>lw_buf := b @ lw_buf w\<rparr>) l n s = (append_line (delimited_line w l n s) w)\<lparr>lw_buf := b @ lw_buf w @ delimited_line w l n s\<rparr>"
  by (simp add: view_append_def append_line_def)

lemma writer_process_cases:
  assumes "writer_open active p" and "writer_process accepts active p l n s = (p1, x)"
  defines "w1 \<equiv> append_line (delimited_line (dp_writer p) l n s) (dp_writer p)"
  shows "p1 = p\<lparr>dp_writer := w1, dp_line_count := dp_line_count p + 1\<rparr> \<and> x = None \<or>
    accepts (lw_buf w1) \<and> x = None \<and>
      p1 = \<lparr>dp_writer = w1\<lparr>lw_buf := []\<rparr>, dp_queue = dp_queue p @ [encode_generated (lw_generation w1) (lw_buf w1)],
            dp_line_count = dp_line_count p + 1\<rparr> \<or>
    \<not> accepts (lw_buf w1) \<and> x = Some ()"
proof -
  have o: "\<not> lw_sending w1" "should_write_generation (lw_generation (dp_writer p)) active"
    using assms(1) by (simp_all add: w1_def writer_open_def Let_def)
  have f: "finish_sending (mark_sending (w1\<lparr>lw_buf := []\<rparr>)) = w1\<lparr>lw_buf := []\<rparr>"
    using o(1) by (cases w1) (simp add: finish_sending_def mark_sending_def)
  show ?thesis
  proof (cases "length (lw_buf w1) < lw_buf_size w1")
    case True
    then have "network_append l n s (dp_writer p) = (None, w1)" by (simp add: network_append_def w1_def)
    then show ?thesis using assms(2) o(2)
      by (cases p) (simp add: writer_process_def dp_process_line_def network_write_line_def)
  next
    case False
    then have "network_append l n s (dp_writer p) = (Some (lw_buf w1), mark_sending (w1\<lparr>lw_buf := []\<rparr>))"
      using o(1) by (simp add: network_append_def w1_def)
    then show ?thesis using assms(2) o(2) f
      by (cases "accepts (lw_buf w1)")
        (auto simp: writer_process_def dp_process_line_def network_write_line_def send_buffered_def delivering_def mark_sending_def)
  qed
qed

interpretation writer_lines: line_processor "writer_process accepts active" "writer_open active" writer_view view_append for accepts active
proof
  fix p l n s p'
  assume o: "writer_open active p" and p: "writer_process accepts active p l n s = (p', None)"
  show "writer_open active p'"
  proof -
    let ?bs = "lw_buf (dp_writer p) @ delimited_line (dp_writer p) l n s"
    have "?bs \<noteq> [] \<and> whole_lines (dp_writer p) ?bs" using o by (simp add: writer_open_def Let_def whole_lines_append)
    then have "\<exists>bs. encode_generated (lw_generation (dp_writer p)) ?bs = encode_generated (lw_generation (dp_writer p)) bs \<and>
        bs \<noteq> [] \<and> whole_lines (dp_writer p) bs" by blast
    then show ?thesis using o writer_process_cases[OF o p] by (auto simp: writer_open_def Let_def whole_lines_append)
  qed
  show "writer_view p' = view_append (writer_view p) l n s"
    using o writer_process_cases[OF o p] by (auto simp: writer_view_def view_append_line Let_def)
qed

interpretation writer_takes: reliable_processor "writer_process (\<lambda>bs. True) active" "writer_open active" writer_view view_append for active
proof
  fix p l n s
  assume "writer_open active p"
  then show "snd (writer_process (\<lambda>bs. True) active p l n s) = None"
    using writer_process_cases[of active p "\<lambda>bs. True" l n s] by (metis prod.collapse)
qed

lemma observe_lines:
  "writer_lines.observe_all w evs =
     w\<lparr>lw_buf := lw_buf w @ concat (map (\<lambda>(l, n, s). delimited_line w l n s) evs),
       lw_lines_written := lw_lines_written w + of_nat (length evs),
       lw_bytes_written := lw_bytes_written w + of_nat (length (concat (map (\<lambda>(l, n, s). delimited_line w l n s) evs)))\<rparr>"
proof (induction evs arbitrary: w)
  case (Cons e evs)
  obtain l n s where e: "e = (l, n, s)" by (cases e)
  have d: "delimited_line (view_append w l n s) = delimited_line w"
    by (intro ext) (simp add: view_append_def delimited_line_def)
  show ?case by (simp add: Cons.IH d e) (simp add: view_append_def append_line_def)
qed simp

lemma dp_flush_sends:
  assumes "writer_open active p"
  shows "\<exists>p1. dp_flush (delivering (\<lambda>bs. True)) p = Some (False, p1) \<and> writer_open active p1 \<and>
    writer_view p1 = writer_view p \<and> lw_buf (dp_writer p1) = []"
proof (cases "lw_buf (dp_writer p) = []")
  case True
  then show ?thesis using assms
    by (cases p) (simp add: dp_flush_def network_flush_def writer_open_def Let_def writer_view_def)
next
  case False
  let ?w = "dp_writer p"
  have f: "finish_sending (mark_sending (?w\<lparr>lw_buf := []\<rparr>)) = ?w\<lparr>lw_buf := []\<rparr>"
    using assms by (cases ?w) (simp add: finish_sending_def mark_sending_def writer_open_def Let_def)
  let ?p = "p\<lparr>dp_writer := ?w\<lparr>lw_buf := []\<rparr>, dp_queue := dp_queue p @ [encode_generated (lw_generation ?w) (lw_buf ?w)]\<rparr>"
  have "dp_flush (delivering (\<lambda>bs. True)) p = Some (False, ?p)"
    using assms False f
    by (simp add: dp_flush_def network_flush_def send_buffered_def delivering_def writer_open_def Let_def) (simp add: mark_sending_def)
  moreover have "\<exists>bs. encode_generated (lw_generation ?w) (lw_buf ?w) = encode_generated (lw_generation ?w) bs \<and> bs \<noteq> [] \<and> whole_lines ?w bs"
    using assms False by (auto simp: writer_open_def Let_def)
  ultimately show ?thesis using assms by (auto simp: writer_open_def Let_def writer_view_def)
qed

text \<open>The payloads of a flushed writer are its whole output, cut into pieces.\<close>

lemma flushed_payloads:
  assumes "writer_open active p" and "lw_buf (dp_writer p) = []"
  shows "\<exists>parts. dp_queue p = map (encode_generated (lw_generation (dp_writer p))) parts \<and> concat parts = lw_buf (writer_view p) \<and>
    (\<forall>part\<in>set parts. part \<noteq> [] \<and> whole_lines (dp_writer p) part)"
proof -
  have "dp_queue p = map (encode_generated (lw_generation (dp_writer p))) (map (payload_text (lw_generation (dp_writer p))) (dp_queue p))"
    using assms(1) by (auto simp: writer_open_def Let_def intro!: map_idI[symmetric])
  moreover have "\<forall>part\<in>set (map (payload_text (lw_generation (dp_writer p))) (dp_queue p)). part \<noteq> [] \<and> whole_lines (dp_writer p) part"
    using assms(1) by (auto simp: writer_open_def Let_def)
  ultimately show ?thesis
    using assms(2) by (intro exI conjI) (assumption, simp add: writer_view_def Let_def, assumption)
qed

end
