(* ===== verification/Server_Read.thy ===== *)
theory Server_Read
  imports Server_Handler Output_Manager
begin

text \<open>
  The output side of a handler: \<open>Read\<close> of \<open>handlers/basehandler.go\<close>, which the SSH channel calls with
  a buffer of its own size for the next bytes to the client. It takes them from a message it has
  begun, from the output manager, or from the queues of messages and lines.
\<close>

subsection \<open>One read\<close>

text \<open>
  A round of the loop: the generation that is active, what the reader of the output manager sees
  (the payloads that come while it looks, and the clock), and the case that \<open>select\<close> takes. The case
  of a queue is taken only when the queue has something; the timer always runs out in the end.
\<close>

datatype ready = FromServer | FromMapr | FromLines | FromDone | FromPoll

record read_round =
  rr_active :: "uint64 option"
  rr_late :: "gostr list"
  rr_later :: "gostr list"
  rr_now :: int
  rr_ready :: ready

text \<open>The frame of a message; \<open>None\<close> where a stale message is skipped, and no bytes where it is left out.\<close>

definition server_frame :: "uint64 option \<Rightarrow> gostr \<Rightarrow> server_handler \<Rightarrow> gostr option" where
  "server_frame active raw h =
     (case decode_generated_message raw of
        (g, m) \<Rightarrow>
          if should_drop_generation active g then None
          else if m \<noteq> [] \<and> hd m = CHR ''.'' then Some (m @ [message_delimiter])
          else if h_serverless h then Some []
          else if h_plain h \<and> (m = [] \<or> m = [CHR 0x0A]) then Some []
          else Some (format_server_message (h_hostname h) m (h_plain h)))"

definition mapr_frame :: "uint64 option \<Rightarrow> gostr \<Rightarrow> server_handler \<Rightarrow> gostr option" where
  "mapr_frame active raw h =
     (case decode_generated_message raw of
        (g, m) \<Rightarrow>
          if should_drop_generation active g then None
          else Some (aggregate_message_id @ field_delimiter @ h_hostname h @ field_delimiter @ m @ [message_delimiter]))"

definition padded_perc :: "int \<Rightarrow> gostr" where
  "padded_perc n = (let s = itoa n in replicate (3 - length s) (CHR '' '') @ s)"

definition line_frame :: "uint64 option \<Rightarrow> log_line \<Rightarrow> server_handler \<Rightarrow> gostr option" where
  "line_frame active l h =
     (if should_drop_generation active (ll_generation l) then None
      else if h_plain h then Some (ll_content l @ [message_delimiter])
      else Some (format_remote_line (h_hostname h) (padded_perc (ll_transmitted_perc l)) (ll_count l) (ll_source l) (ll_content l)))"

text \<open>The next message of the case that was taken, as its frame, and the handler without it.\<close>

datatype selected = Frame "gostr option" | Closed | Woken

definition select_message :: "uint64 option \<Rightarrow> ready \<Rightarrow> server_handler \<Rightarrow> selected \<times> server_handler" where
  "select_message active r h =
     (let woken = (if h_done h then Closed else Woken, h) in
      case r of
        FromServer \<Rightarrow> (case h_server_messages h of [] \<Rightarrow> woken | m # ms \<Rightarrow> (Frame (server_frame active m h), h\<lparr>h_server_messages := ms\<rparr>))
      | FromMapr \<Rightarrow> (case h_mapr_messages h of [] \<Rightarrow> woken | m # ms \<Rightarrow> (Frame (mapr_frame active m h), h\<lparr>h_mapr_messages := ms\<rparr>))
      | FromLines \<Rightarrow> (case h_lines h of [] \<Rightarrow> woken | l # ls \<Rightarrow> (Frame (line_frame active l h), h\<lparr>h_lines := ls\<rparr>))
      | FromDone \<Rightarrow> woken
      | FromPoll \<Rightarrow> woken)"

definition drain_read_buf :: "nat \<Rightarrow> server_handler \<Rightarrow> gostr \<times> server_handler" where
  "drain_read_buf n h = (take n (h_read_buf h), h\<lparr>h_read_buf := drop n (h_read_buf h)\<rparr>)"

text \<open>
  The loop. The flag says that the output manager has paused in its reader. No answer is a read that
  still waits when the rounds end; the flag of an answer is \<open>io.EOF\<close>.
\<close>

fun read_loop :: "nat \<Rightarrow> bool \<Rightarrow> read_round list \<Rightarrow> server_handler \<times> output_manager \<Rightarrow>
    (gostr \<times> bool) option \<times> server_handler \<times> output_manager" where
  "read_loop n paused [] (h, t) = (None, h, t)"
| "read_loop n paused (r # rs) (h, t) =
     (case (if paused then retry_read else try_read) n (rr_active r) (rr_late r) (rr_later r) (rr_now r) t of
        (Paused, t1) \<Rightarrow> read_loop n True rs (h, t1)
      | (Served bs, t1) \<Rightarrow> if bs = [] then read_loop n False rs (h, t1) else (Some (bs, False), h, t1)
      | (Declined, t1) \<Rightarrow>
          (case select_message (rr_active r) (rr_ready r) h of
             (Closed, h1) \<Rightarrow> (Some ([], True), h1, t1)
           | (Woken, h1) \<Rightarrow> (Some ([], False), h1, t1)
           | (Frame None, h1) \<Rightarrow> read_loop n False rs (h1, t1)
           | (Frame (Some bs), h1) \<Rightarrow>
               (case drain_read_buf n (h1\<lparr>h_read_buf := h_read_buf h1 @ bs\<rparr>) of (out, h2) \<Rightarrow> (Some (out, False), h2, t1))))"

definition handler_read :: "nat \<Rightarrow> read_round list \<Rightarrow> server_handler \<times> output_manager \<Rightarrow>
    (gostr \<times> bool) option \<times> server_handler \<times> output_manager" where
  "handler_read n rs s =
     (case s of (h, t) \<Rightarrow>
        if h_read_buf h \<noteq> [] then (case drain_read_buf n h of (out, h1) \<Rightarrow> (Some (out, False), h1, t))
        else read_loop n False rs (h, t))"

subsection \<open>Reads one after the other\<close>

text \<open>What other goroutines put into the queues before a read.\<close>

record arrivals =
  ar_server :: "gostr list"
  ar_mapr :: "gostr list"
  ar_lines :: "log_line list"
  ar_payloads :: "gostr list"

definition arrive :: "arrivals \<Rightarrow> server_handler \<times> output_manager \<Rightarrow> server_handler \<times> output_manager" where
  "arrive a s =
     (case s of (h, t) \<Rightarrow>
        (h\<lparr>h_server_messages := h_server_messages h @ ar_server a, h_mapr_messages := h_mapr_messages h @ ar_mapr a,
           h_lines := h_lines h @ ar_lines a\<rparr>,
         t\<lparr>om_lines := map_option (\<lambda>ls. ls @ ar_payloads a) (om_lines t)\<rparr>))"

fun read_session :: "(arrivals \<times> nat \<times> read_round list) list \<Rightarrow> server_handler \<times> output_manager \<Rightarrow>
    (gostr \<times> server_handler \<times> output_manager) option" where
  "read_session [] s = Some ([], s)"
| "read_session ((a, n, rs) # steps) s =
     (case handler_read n rs (arrive a s) of
        (None, s1) \<Rightarrow> None
      | (Some (bs, eof), s1) \<Rightarrow>
          (case read_session steps s1 of None \<Rightarrow> None | Some (out, s2) \<Rightarrow> Some (bs @ out, s2)))"

text \<open>What a read takes, with the generation that was active then, and the bytes it stands for.\<close>

datatype read_item = ServerItem gostr | MaprItem gostr | LineItem log_line | PayloadItem gostr

definition frame_bytes :: "gostr option \<Rightarrow> gostr" where
  "frame_bytes f = (case f of None \<Rightarrow> [] | Some bs \<Rightarrow> bs)"

definition item_bytes :: "server_handler \<Rightarrow> uint64 option \<times> read_item \<Rightarrow> gostr" where
  "item_bytes h x =
     (case snd x of
        ServerItem m \<Rightarrow> frame_bytes (server_frame (fst x) m h)
      | MaprItem m \<Rightarrow> frame_bytes (mapr_frame (fst x) m h)
      | LineItem l \<Rightarrow> frame_bytes (line_frame (fst x) l h)
      | PayloadItem p \<Rightarrow> kept (p, fst x))"

definition server_items :: "(uint64 option \<times> read_item) list \<Rightarrow> gostr list" where
  "server_items xs = List.map_filter (\<lambda>x. case snd x of ServerItem m \<Rightarrow> Some m | _ \<Rightarrow> None) xs"

definition mapr_items :: "(uint64 option \<times> read_item) list \<Rightarrow> gostr list" where
  "mapr_items xs = List.map_filter (\<lambda>x. case snd x of MaprItem m \<Rightarrow> Some m | _ \<Rightarrow> None) xs"

definition line_items :: "(uint64 option \<times> read_item) list \<Rightarrow> log_line list" where
  "line_items xs = List.map_filter (\<lambda>x. case snd x of LineItem l \<Rightarrow> Some l | _ \<Rightarrow> None) xs"

definition payload_items :: "(uint64 option \<times> read_item) list \<Rightarrow> gostr list" where
  "payload_items xs = List.map_filter (\<lambda>x. case snd x of PayloadItem p \<Rightarrow> Some p | _ \<Rightarrow> None) xs"

lemmas items_defs = server_items_def mapr_items_def line_items_def payload_items_def

lemma map_filter_append: "List.map_filter f (xs @ ys) = List.map_filter f xs @ List.map_filter f ys"
  by (induction xs) (simp_all add: List.map_filter_simps split: option.splits)

lemma items_append [simp]:
  "server_items (xs @ ys) = server_items xs @ server_items ys" "mapr_items (xs @ ys) = mapr_items xs @ mapr_items ys"
  "line_items (xs @ ys) = line_items xs @ line_items ys" "payload_items (xs @ ys) = payload_items xs @ payload_items ys"
  by (simp_all add: items_defs map_filter_append)

lemma items_Nil [simp]: "server_items [] = []" "mapr_items [] = []" "line_items [] = []" "payload_items [] = []"
  by (simp_all add: items_defs List.map_filter_simps)

lemma items_single [simp]:
  "server_items [(a, ServerItem m)] = [m]" "server_items [(a, MaprItem m)] = []" "server_items [(a, LineItem l)] = []"
  "mapr_items [(a, ServerItem m)] = []" "mapr_items [(a, MaprItem m)] = [m]" "mapr_items [(a, LineItem l)] = []"
  "line_items [(a, ServerItem m)] = []" "line_items [(a, MaprItem m)] = []" "line_items [(a, LineItem l)] = [l]"
  "payload_items [(a, ServerItem m)] = []" "payload_items [(a, MaprItem m)] = []" "payload_items [(a, LineItem l)] = []"
  by (simp_all add: items_defs List.map_filter_simps)

lemma items_payloads [simp]:
  "server_items (map (\<lambda>p. (a, PayloadItem p)) ps) = []" "mapr_items (map (\<lambda>p. (a, PayloadItem p)) ps) = []"
  "line_items (map (\<lambda>p. (a, PayloadItem p)) ps) = []" "payload_items (map (\<lambda>p. (a, PayloadItem p)) ps) = ps"
  by (induction ps) (simp_all add: items_defs List.map_filter_simps)

text \<open>The part of a handler that reads leave alone and that frames depend on.\<close>

definition frame_style :: "server_handler \<Rightarrow> gostr \<times> bool \<times> bool" where
  "frame_style h = (h_hostname h, h_plain h, h_serverless h)"

lemma item_bytes_style:
  assumes "frame_style h1 = frame_style h"
  shows "item_bytes h1 = item_bytes h"
proof -
  have e: "h_hostname h1 = h_hostname h" "h_plain h1 = h_plain h" "h_serverless h1 = h_serverless h"
    using assms by (simp_all add: frame_style_def)
  show ?thesis by (intro ext) (simp only: item_bytes_def server_frame_def mapr_frame_def line_frame_def e)
qed

text \<open>
  A step from one state to another that hands out \<open>bs\<close> and takes the items \<open>xs\<close>, while a generation
  of \<open>A\<close> was active. Not both of the two
  buffers for bytes of something that was begun are in use.
\<close>

definition one_begun :: "server_handler \<times> output_manager \<Rightarrow> bool" where
  "one_begun s \<longleftrightarrow> om_lines (snd s) \<noteq> None \<and> (h_read_buf (fst s) = [] \<or> om_buffer (snd s) = [])"

definition begun :: "server_handler \<times> output_manager \<Rightarrow> gostr" where
  "begun s = h_read_buf (fst s) @ om_buffer (snd s)"

definition hands_out :: "uint64 option set \<Rightarrow> server_handler \<times> output_manager \<Rightarrow> gostr \<Rightarrow> (uint64 option \<times> read_item) list \<Rightarrow>
    server_handler \<times> output_manager \<Rightarrow> bool" where
  "hands_out A s bs xs s1 \<longleftrightarrow>
     fst ` set xs \<subseteq> A \<and> one_begun s1 \<and> frame_style (fst s1) = frame_style (fst s) \<and>
     bs @ begun s1 = begun s @ concat (map (item_bytes (fst s)) xs) \<and>
     h_server_messages (fst s) = server_items xs @ h_server_messages (fst s1) \<and>
     h_mapr_messages (fst s) = mapr_items xs @ h_mapr_messages (fst s1) \<and>
     h_lines (fst s) = line_items xs @ h_lines (fst s1) \<and>
     queued (snd s) = payload_items xs @ queued (snd s1)"

lemma hands_out_trans:
  assumes "hands_out A s bs xs s1" and "hands_out A s1 cs ys s2"
  shows "hands_out A s (bs @ cs) (xs @ ys) s2"
  using assms item_bytes_style[of "fst s1" "fst s"] unfolding hands_out_def by (simp add: image_Un)

lemma hands_out_refl: "one_begun s \<Longrightarrow> hands_out A s [] [] s"
  by (simp add: hands_out_def)

text \<open>A round without payloads that come in during it.\<close>

definition quiet_round :: "read_round \<Rightarrow> bool" where
  "quiet_round r \<longleftrightarrow> rr_late r = [] \<and> rr_later r = []"

lemma try_read_hands_out:
  assumes "active \<in> A" and "try_read n active [] [] now t = (a, t1)" and "one_begun (h, t)" and "h_read_buf h = []"
  shows "a \<noteq> Paused \<and> (\<exists>ps. hands_out A (h, t) (handed_out a) (map (\<lambda>p. (active, PayloadItem p)) ps) (h, t1)) \<and>
    (a = Declined \<longrightarrow> om_buffer t1 = [])"
proof -
  have l: "om_lines t \<noteq> None" using assms(3) by (simp add: one_begun_def)
  have e: "read_effect active a [] t t1" using try_read_effect[OF assms(2)] l by simp
  then obtain qs rs where q: "queued t = qs @ rs" "queued t1 = rs" "handed_out a @ om_buffer t1 = om_buffer t @ concat (map (\<lambda>p. kept (p, active)) qs)"
    and l1: "om_lines t1 \<noteq> None" using l unfolding read_effect_def by auto
  have "hands_out A (h, t) (handed_out a) (map (\<lambda>p. (active, PayloadItem p)) qs) (h, t1)"
    using q l1 assms(1,4) by (auto simp: hands_out_def one_begun_def begun_def item_bytes_def o_def)
  moreover have "a \<noteq> Paused \<and> (a = Declined \<longrightarrow> om_buffer t1 = [])"
    using assms(2) l
    by (auto simp: try_read_def receive_lines_def maybe_ack_eof_def signal_eof_ack_def dest: take_lines_kept split: if_splits prod.splits option.splits)
  ultimately show ?thesis by blast
qed

lemma drain_hands_out:
  assumes "drain_read_buf n h = (out, h1)" and "om_buffer t = []" and "om_lines t \<noteq> None"
  shows "hands_out A (h, t) out [] (h1, t)"
  using assms by (auto simp: drain_read_buf_def hands_out_def one_begun_def begun_def frame_style_def)

lemma select_hands_out:
  assumes "active \<in> A" and "select_message active r h = (f, h1)" and "h_read_buf h = []" and "om_buffer t = []" and "om_lines t \<noteq> None"
  shows "\<exists>xs. case f of
      Frame fr \<Rightarrow> hands_out A (h, t) [] xs (h1\<lparr>h_read_buf := h_read_buf h1 @ frame_bytes fr\<rparr>, t)
    | _ \<Rightarrow> hands_out A (h, t) [] xs (h1, t)"
proof -
  have nil: "hands_out A (h, t) [] [] (h, t)" using assms(3-5) by (intro hands_out_refl) (simp add: one_begun_def)
  have one: "hands_out A (h, t) [] [(active, x)] (h1\<lparr>h_read_buf := h_read_buf h1 @ frame_bytes fr\<rparr>, t)"
    if "frame_style h1 = frame_style h" "item_bytes h (active, x) = frame_bytes fr" "h_read_buf h1 = []"
      "h_server_messages h = server_items [(active, x)] @ h_server_messages h1"
      "h_mapr_messages h = mapr_items [(active, x)] @ h_mapr_messages h1"
      "h_lines h = line_items [(active, x)] @ h_lines h1" "payload_items [(active, x)] = []" for x fr
    using that assms(1,3-5) by (simp add: hands_out_def one_begun_def begun_def frame_style_def)
  show ?thesis
  proof (cases r)
    case FromServer
    show ?thesis
    proof (cases "h_server_messages h")
      case Nil
      then show ?thesis using assms(2) nil FromServer by (auto simp: select_message_def Let_def)
    next
      case (Cons m ms)
      then have f: "f = Frame (server_frame active m h)" "h1 = h\<lparr>h_server_messages := ms\<rparr>"
        using assms(2) FromServer by (simp_all add: select_message_def Let_def)
      have "hands_out A (h, t) [] [(active, ServerItem m)] (h1\<lparr>h_read_buf := h_read_buf h1 @ frame_bytes (server_frame active m h)\<rparr>, t)"
        by (rule one) (use Cons f assms(3) in \<open>simp_all add: frame_style_def item_bytes_def\<close>)
      then show ?thesis unfolding f(1) selected.case by blast
    qed
  next
    case FromMapr
    show ?thesis
    proof (cases "h_mapr_messages h")
      case Nil
      then show ?thesis using assms(2) nil FromMapr by (auto simp: select_message_def Let_def)
    next
      case (Cons m ms)
      then have f: "f = Frame (mapr_frame active m h)" "h1 = h\<lparr>h_mapr_messages := ms\<rparr>"
        using assms(2) FromMapr by (simp_all add: select_message_def Let_def)
      have "hands_out A (h, t) [] [(active, MaprItem m)] (h1\<lparr>h_read_buf := h_read_buf h1 @ frame_bytes (mapr_frame active m h)\<rparr>, t)"
        by (rule one) (use Cons f assms(3) in \<open>simp_all add: frame_style_def item_bytes_def\<close>)
      then show ?thesis unfolding f(1) selected.case by blast
    qed
  next
    case FromLines
    show ?thesis
    proof (cases "h_lines h")
      case Nil
      then show ?thesis using assms(2) nil FromLines by (auto simp: select_message_def Let_def)
    next
      case (Cons l ls)
      then have f: "f = Frame (line_frame active l h)" "h1 = h\<lparr>h_lines := ls\<rparr>"
        using assms(2) FromLines by (simp_all add: select_message_def Let_def)
      have "hands_out A (h, t) [] [(active, LineItem l)] (h1\<lparr>h_read_buf := h_read_buf h1 @ frame_bytes (line_frame active l h)\<rparr>, t)"
        by (rule one) (use Cons f assms(3) in \<open>simp_all add: frame_style_def item_bytes_def\<close>)
      then show ?thesis unfolding f(1) selected.case by blast
    qed
  qed (use assms(2) nil in \<open>auto simp: select_message_def Let_def\<close>)
qed

lemma select_keeps_buf: "h_read_buf (snd (select_message active r h)) = h_read_buf h"
  by (cases r) (simp_all add: select_message_def Let_def split: list.splits)

lemma read_loop_hands_out:
  assumes "read_loop n False rs (h, t) = (r, s1)" and "\<forall>r\<in>set rs. quiet_round r \<and> rr_active r \<in> A" and "one_begun (h, t)" and "h_read_buf h = []"
  shows "\<exists>xs. hands_out A (h, t) (case r of None \<Rightarrow> [] | Some (bs, eof) \<Rightarrow> bs) xs s1"
  using assms
proof (induction rs arbitrary: h t)
  case Nil
  then show ?case using hands_out_refl by auto
next
  case (Cons q rs)
  obtain a t1 where tr: "try_read n (rr_active q) [] [] (rr_now q) t = (a, t1)" by fastforce
  have q: "rr_late q = []" "rr_later q = []" using Cons.prems(2) by (simp_all add: quiet_round_def)
  have inA: "rr_active q \<in> A" using Cons.prems(2) by simp
  from try_read_hands_out[OF inA tr Cons.prems(3,4)] obtain ps where
    a: "a \<noteq> Paused" "hands_out A (h, t) (handed_out a) (map (\<lambda>p. (rr_active q, PayloadItem p)) ps) (h, t1)"
      "a = Declined \<longrightarrow> om_buffer t1 = []" by blast
  have o1: "one_begun (h, t1)" using a(2) by (simp add: hands_out_def)
  then have l1: "om_lines t1 \<noteq> None" by (simp add: one_begun_def)
  have more: "\<exists>xs. hands_out A (h, t) (case r of None \<Rightarrow> [] | Some (bs, eof) \<Rightarrow> bs) xs s1"
    if "hands_out A (h, t) [] ys (h2, t1)" "read_loop n False rs (h2, t1) = (r, s1)" "h_read_buf h2 = []" for ys h2
  proof -
    note th = that
    have "one_begun (h2, t1)" using that(1) by (simp add: hands_out_def)
    then obtain xs where "hands_out A (h2, t1) (case r of None \<Rightarrow> [] | Some (bs, eof) \<Rightarrow> bs) xs s1"
      using Cons.IH[OF th(2) _ _ th(3)] Cons.prems(2) by auto
    from hands_out_trans[OF th(1) this] show ?thesis by auto
  qed
  show ?case
  proof (cases a)
    case (Served bs)
    show ?thesis
    proof (cases "bs = []")
      case True
      then have "read_loop n False rs (h, t1) = (r, s1)" using Cons.prems(1) tr Served q by simp
      then show ?thesis using more[of _ h] a(2) Served True Cons.prems(4) by (simp add: handed_out_def)
    next
      case False
      then have "r = Some (bs, False)" "s1 = (h, t1)" using Cons.prems(1) tr Served q by simp_all
      then show ?thesis using a(2) Served by (auto simp: handed_out_def)
    qed
  next
    case Declined
    then have a0: "hands_out A (h, t) [] (map (\<lambda>p. (rr_active q, PayloadItem p)) ps) (h, t1)" "om_buffer t1 = []"
      using a(2,3) by (simp_all add: handed_out_def)
    obtain f h1 where s: "select_message (rr_active q) (rr_ready q) h = (f, h1)" by fastforce
    note sel = select_hands_out[OF inA s Cons.prems(4) a0(2) l1]
    have loop: "(case f of Closed \<Rightarrow> (Some ([], True), h1, t1) | Woken \<Rightarrow> (Some ([], False), h1, t1)
        | Frame None \<Rightarrow> read_loop n False rs (h1, t1)
        | Frame (Some bs) \<Rightarrow> (case drain_read_buf n (h1\<lparr>h_read_buf := h_read_buf h1 @ bs\<rparr>) of (out, h2) \<Rightarrow> (Some (out, False), h2, t1))) = (r, s1)"
      using Cons.prems(1) tr Declined q s by (simp split: selected.splits option.splits)
    show ?thesis
    proof (cases f)
      case (Frame fr)
      obtain xs where xs: "hands_out A (h, t1) [] xs (h1\<lparr>h_read_buf := h_read_buf h1 @ frame_bytes fr\<rparr>, t1)"
        using sel Frame by auto
      note ho = hands_out_trans[OF a0(1) xs, simplified]
      show ?thesis
      proof (cases fr)
        case None
        then have e: "h1\<lparr>h_read_buf := h_read_buf h1 @ frame_bytes fr\<rparr> = h1" by (simp add: frame_bytes_def)
        have "h_read_buf h1 = []" using select_keeps_buf[of "rr_active q" "rr_ready q" h] s Cons.prems(4) by simp
        then show ?thesis using more[OF ho[unfolded e]] loop Frame None by simp
      next
        case (Some bs)
        obtain out h2 where d: "drain_read_buf n (h1\<lparr>h_read_buf := h_read_buf h1 @ bs\<rparr>) = (out, h2)" by fastforce
        have "r = Some (out, False)" "s1 = (h2, t1)" using loop Frame Some d by simp_all
        then show ?thesis using hands_out_trans[OF ho, of out "[]" "(h2, t1)"] drain_hands_out[OF d a0(2) l1] Some
          by (auto simp: frame_bytes_def)
      qed
    qed (use sel a0 hands_out_trans loop in fastforce)+
  qed (use a(1) in simp)
qed

lemma handler_read_hands_out:
  assumes "handler_read n rs (h, t) = (r, s1)" and "\<forall>r\<in>set rs. quiet_round r \<and> rr_active r \<in> A" and "one_begun (h, t)"
  shows "\<exists>xs. hands_out A (h, t) (case r of None \<Rightarrow> [] | Some (bs, eof) \<Rightarrow> bs) xs s1"
proof (cases "h_read_buf h = []")
  case True
  then show ?thesis using read_loop_hands_out[OF _ assms(2,3)] assms(1) by (simp add: handler_read_def)
next
  case False
  then have b: "om_buffer t = []" "om_lines t \<noteq> None" using assms(3) by (simp_all add: one_begun_def)
  obtain out h1 where d: "drain_read_buf n h = (out, h1)" by fastforce
  then have "r = Some (out, False)" "s1 = (h1, t)" using assms(1) False by (simp_all add: handler_read_def)
  then show ?thesis using drain_hands_out[OF d b] by auto
qed

lemma arrive_simps:
  assumes "om_lines t \<noteq> None"
  shows "frame_style (fst (arrive a (h, t))) = frame_style h" "begun (arrive a (h, t)) = begun (h, t)"
    "one_begun (arrive a (h, t)) = one_begun (h, t)"
    "h_server_messages (fst (arrive a (h, t))) = h_server_messages h @ ar_server a"
    "h_mapr_messages (fst (arrive a (h, t))) = h_mapr_messages h @ ar_mapr a"
    "h_lines (fst (arrive a (h, t))) = h_lines h @ ar_lines a"
    "queued (snd (arrive a (h, t))) = queued t @ ar_payloads a"
  using assms by (auto simp: arrive_def frame_style_def begun_def one_begun_def queued_def)

lemma read_session_hands_out:
  assumes "read_session steps (h, t) = Some (out, h1, t1)" and "\<forall>(a, n, rs)\<in>set steps. \<forall>r\<in>set rs. quiet_round r \<and> rr_active r \<in> A"
    and "one_begun (h, t)"
  shows "\<exists>xs. fst ` set xs \<subseteq> A \<and> out @ begun (h1, t1) = begun (h, t) @ concat (map (item_bytes h) xs) \<and> one_begun (h1, t1) \<and>
    h_server_messages h @ concat (map (\<lambda>(a, _). ar_server a) steps) = server_items xs @ h_server_messages h1 \<and>
    h_mapr_messages h @ concat (map (\<lambda>(a, _). ar_mapr a) steps) = mapr_items xs @ h_mapr_messages h1 \<and>
    h_lines h @ concat (map (\<lambda>(a, _). ar_lines a) steps) = line_items xs @ h_lines h1 \<and>
    queued t @ concat (map (\<lambda>(a, _). ar_payloads a) steps) = payload_items xs @ queued t1"
  using assms
proof (induction steps arbitrary: h t out)
  case Nil
  then show ?case by (intro exI[of _ "[]"]) simp
next
  case (Cons st steps)
  obtain a n rs where st: "st = (a, n, rs)" by (cases st)
  obtain r h2 t2 where r: "handler_read n rs (arrive a (h, t)) = (r, h2, t2)" by (metis prod.collapse)
  obtain bs eof out2 where s: "r = Some (bs, eof)" "read_session steps (h2, t2) = Some (out2, h1, t1)" "out = bs @ out2"
    using Cons.prems(1) r by (auto simp: st split: option.splits prod.splits)
  have lt: "om_lines t \<noteq> None" using Cons.prems(3) by (simp add: one_begun_def)
  obtain h0 t0 where ar: "arrive a (h, t) = (h0, t0)" by fastforce
  note ars = arrive_simps[OF lt, of a h, unfolded ar fst_conv snd_conv]
  have q: "\<forall>r\<in>set rs. quiet_round r \<and> rr_active r \<in> A" "\<forall>(a, n, rs)\<in>set steps. \<forall>r\<in>set rs. quiet_round r \<and> rr_active r \<in> A"
    using Cons.prems(2) by (simp_all add: st)
  obtain xs where xs: "hands_out A (h0, t0) bs xs (h2, t2)"
    using handler_read_hands_out[OF r[unfolded ar] q(1)] ars(3) Cons.prems(3) s(1) by auto
  have sty: "item_bytes h0 = item_bytes h" "item_bytes h2 = item_bytes h0"
    using item_bytes_style[of h0 h] item_bytes_style[of h2 h0] ars(1) xs by (simp_all add: hands_out_def)
  have "one_begun (h2, t2)" using xs by (simp add: hands_out_def)
  from Cons.IH[OF s(2) q(2) this] obtain ys where yA: "fst ` set ys \<subseteq> A" and ys:
    "out2 @ begun (h1, t1) = begun (h2, t2) @ concat (map (item_bytes h2) ys)" "one_begun (h1, t1)"
    "h_server_messages h2 @ concat (map (\<lambda>(a, _). ar_server a) steps) = server_items ys @ h_server_messages h1"
    "h_mapr_messages h2 @ concat (map (\<lambda>(a, _). ar_mapr a) steps) = mapr_items ys @ h_mapr_messages h1"
    "h_lines h2 @ concat (map (\<lambda>(a, _). ar_lines a) steps) = line_items ys @ h_lines h1"
    "queued t2 @ concat (map (\<lambda>(a, _). ar_payloads a) steps) = payload_items ys @ queued t1" by blast
  have x: "bs @ begun (h2, t2) = begun (h, t) @ concat (map (item_bytes h) xs)"
    "h_server_messages h @ ar_server a = server_items xs @ h_server_messages h2"
    "h_mapr_messages h @ ar_mapr a = mapr_items xs @ h_mapr_messages h2"
    "h_lines h @ ar_lines a = line_items xs @ h_lines h2" "queued t @ ar_payloads a = payload_items xs @ queued t2"
    using xs ars sty by (simp_all add: hands_out_def)
  have out: "out @ begun (h1, t1) = begun (h, t) @ concat (map (item_bytes h) (xs @ ys))"
    using arg_cong[OF x(1), of "\<lambda>z. z @ concat (map (item_bytes h) ys)"] ys(1) s(3) sty by simp
  have "fst ` set (xs @ ys) \<subseteq> A" using xs yA by (auto simp: hands_out_def)
  then show ?case
    using out ys(2) arg_cong[OF x(2), of "\<lambda>z. z @ concat (map (\<lambda>(a, _). ar_server a) steps)"]
      arg_cong[OF x(3), of "\<lambda>z. z @ concat (map (\<lambda>(a, _). ar_mapr a) steps)"]
      arg_cong[OF x(4), of "\<lambda>z. z @ concat (map (\<lambda>(a, _). ar_lines a) steps)"]
      arg_cong[OF x(5), of "\<lambda>z. z @ concat (map (\<lambda>(a, _). ar_payloads a) steps)"] ys(3-6)
    by (intro exI[of _ "xs @ ys"]) (simp add: st)
qed

subsection \<open>Properties\<close>

text \<open>
  C24: What a client is sent is a sequence of whole frames: whatever the sizes of the buffers and
  whichever source each read takes, the bytes are the frames of the messages, aggregates, lines and
  payloads that were taken one after the other, and from every source they are taken in the order
  they came, each once. Only at the end part of one of them may be still to come.
\<close>

theorem reads_hand_out_frames:
  assumes "read_session steps (h, t) = Some (out, h1, t1)" and "\<forall>(a, n, rs)\<in>set steps. \<forall>r\<in>set rs. quiet_round r"
    and "om_lines t \<noteq> None" and "h_read_buf h = []" and "om_buffer t = []"
  shows "\<exists>xs. out @ h_read_buf h1 @ om_buffer t1 = concat (map (item_bytes h) xs) \<and>
    (h_read_buf h1 = [] \<or> om_buffer t1 = []) \<and>
    h_server_messages h @ concat (map (\<lambda>(a, _). ar_server a) steps) = server_items xs @ h_server_messages h1 \<and>
    h_mapr_messages h @ concat (map (\<lambda>(a, _). ar_mapr a) steps) = mapr_items xs @ h_mapr_messages h1 \<and>
    h_lines h @ concat (map (\<lambda>(a, _). ar_lines a) steps) = line_items xs @ h_lines h1 \<and>
    queued t @ concat (map (\<lambda>(a, _). ar_payloads a) steps) = payload_items xs @ queued t1"
  using read_session_hands_out[OF assms(1), of UNIV] assms(2-5) by (simp add: one_begun_def begun_def) blast

definition sample_round :: read_round where
  "sample_round = \<lparr>rr_active = None, rr_late = [], rr_later = [], rr_now = 0, rr_ready = FromPoll\<rparr>"

definition sample_manager :: output_manager where
  "sample_manager = new_output_manager\<lparr>om_mode := True, om_lines := Some [''abc'']\<rparr>"

lemma sample_abc_payload: "decode_generated_bytes ''abc'' = (0, ''abc'')"
  by (simp add: decode_generated_bytes_def decode_generated_message_def has_prefix_def generation_output_prefix_def generation_mark_def)

lemma reads_hand_out_frames_witness:
  "\<exists>xs. ''abc'' = concat (map (item_bytes (sample_handler 0)) xs) \<and> payload_items xs = [''abc'']"
proof -
  let ?a = "\<lparr>ar_server = [], ar_mapr = [], ar_lines = [], ar_payloads = []\<rparr>"
  let ?t = "sample_manager\<lparr>om_lines := Some []\<rparr>"
  let ?h = "sample_handler 0"
  have b: "h_read_buf ?h = []" "om_buffer sample_manager = []" "om_lines sample_manager = Some [''abc'']" "om_mode sample_manager"
    by (simp_all add: sample_handler_def new_server_handler_def send_def sample_manager_def new_output_manager_def)
  have ar: "arrive ?a (?h, t) = (?h, t)" for t by (cases "om_lines t") (simp_all add: arrive_def)
  have 1: "handler_read 2 [sample_round] (?h, sample_manager) =
      (Some (''ab'', False), ?h, sample_manager\<lparr>om_lines := Some [], om_empty_since := None, om_buffer := ''c''\<rparr>)"
    using b sample_abc_payload
    by (simp add: handler_read_def sample_round_def try_read_def receive_lines_def queued_def consume_def should_drop_generation_def)
  have 2: "handler_read 2 [sample_round] (?h, sample_manager\<lparr>om_lines := Some [], om_empty_since := None, om_buffer := ''c''\<rparr>) =
      (Some (''c'', False), ?h, sample_manager\<lparr>om_lines := Some [], om_empty_since := None, om_buffer := []\<rparr>)"
    using b by (simp add: handler_read_def sample_round_def try_read_def)
  have r: "read_session [(?a, 2, [sample_round]), (?a, 2, [sample_round])] (?h, sample_manager) =
      Some (''abc'', ?h, sample_manager\<lparr>om_lines := Some [], om_empty_since := None, om_buffer := []\<rparr>)"
    by (simp add: ar 1 2)
  show ?thesis
    using reads_hand_out_frames[OF r] b by (auto simp: quiet_round_def sample_round_def queued_def)
qed

end
