(* ===== verification/File_Source.thy ===== *)
theory File_Source
  imports Line_Reader Permissions
begin

text \<open>
  The sources of lines on a server that are files: the readers of \<open>internal/io/fs\<close> as \<open>catfile.go\<close> and
  \<open>tailfile.go\<close> set them up, the opening and the decompression of \<open>readfile.go\<close>, and the start of a read.
  The file system is a parameter: what an open file holds, and the decompressors, which are libraries.
\<close>

subsection \<open>Readers\<close>

record file_reader =
  fr_file :: read_file
  fr_glob_id :: gostr
  fr_retry :: bool
  fr_can_skip_lines :: bool
  fr_stats :: stats
  fr_target :: "validated_read_target option"

definition new_cat_file :: "gostr \<Rightarrow> gostr \<Rightarrow> gostr list option \<Rightarrow> int \<Rightarrow> file_reader" where
  "new_cat_file path glob_id messages max_line =
     \<lparr>fr_file = \<lparr>file_name = path, server_messages = messages, seek_eof = False, warned_about_long_line = False, max_line_length = max_line\<rparr>,
      fr_glob_id = glob_id, fr_retry = False, fr_can_skip_lines = False, fr_stats = new_stats, fr_target = None\<rparr>"

definition new_validated_cat_file :: "gostr \<Rightarrow> validated_read_target \<Rightarrow> gostr \<Rightarrow> gostr list option \<Rightarrow> int \<Rightarrow> file_reader" where
  "new_validated_cat_file path target glob_id messages max_line =
     (new_cat_file path glob_id messages max_line)\<lparr>fr_target := Some target\<rparr>"

definition new_tail_file :: "gostr \<Rightarrow> gostr \<Rightarrow> gostr list option \<Rightarrow> int \<Rightarrow> file_reader" where
  "new_tail_file path glob_id messages max_line =
     \<lparr>fr_file = \<lparr>file_name = path, server_messages = messages, seek_eof = True, warned_about_long_line = False, max_line_length = max_line\<rparr>,
      fr_glob_id = glob_id, fr_retry = True, fr_can_skip_lines = True, fr_stats = new_stats, fr_target = None\<rparr>"

definition new_validated_tail_file :: "gostr \<Rightarrow> validated_read_target \<Rightarrow> gostr \<Rightarrow> gostr list option \<Rightarrow> int \<Rightarrow> file_reader" where
  "new_validated_tail_file path target glob_id messages max_line =
     (new_tail_file path glob_id messages max_line)\<lparr>fr_target := Some target\<rparr>"

subsection \<open>Opening\<close>

text \<open>A file that is open is the bytes that it delivers from its start; a decompressor may fail at once.\<close>

record 'e file_system =
  fs_open :: "gostr \<Rightarrow> 'e + gostr"
  fs_open_target :: "validated_read_target \<Rightarrow> 'e + gostr"
  fs_seek_end :: "'e option"
  fs_gunzip :: "gostr \<Rightarrow> 'e + gostr"
  fs_unzstd :: "gostr \<Rightarrow> gostr \<Rightarrow> 'e + gostr"
  fs_stdin :: gostr

definition open_file :: "'e file_system \<Rightarrow> file_reader \<Rightarrow> 'e + gostr" where
  "open_file fs f = (case fr_target f of Some t \<Rightarrow> fs_open_target fs t | None \<Rightarrow> fs_open fs (file_name (fr_file f)))"

definition make_compressed_reader :: "'e file_system \<Rightarrow> gostr \<Rightarrow> gostr \<Rightarrow> 'e + gostr" where
  "make_compressed_reader fs path bytes =
     (if has_suffix path ''.gz'' \<or> has_suffix path ''.gzip'' then fs_gunzip fs bytes
      else if has_suffix path ''.zst'' then fs_unzstd fs path bytes
      else Inr bytes)"

definition make_file_reader :: "'e file_system \<Rightarrow> file_reader \<Rightarrow> 'e + gostr" where
  "make_file_reader fs f =
     (case open_file fs f of
        Inl e \<Rightarrow> Inl e
      | Inr bytes \<Rightarrow>
          if seek_eof (fr_file f) then
            (case fs_seek_end fs of
               Some e \<Rightarrow> Inl e
             | None \<Rightarrow> make_compressed_reader fs (file_name (fr_file f)) [])
          else make_compressed_reader fs (file_name (fr_file f)) bytes)"

definition make_reader :: "'e file_system \<Rightarrow> file_reader \<Rightarrow> 'e + gostr" where
  "make_reader fs f =
     (if file_name (fr_file f) = [] \<and> fr_glob_id f = ''-'' then Inr (fs_stdin fs) else make_file_reader fs f)"

text \<open>
  The check for truncation: the position in the open file and the length of the file that is at the
  path now, each absent where its system call fails. Without a file, for standard input, nothing is
  truncated.
\<close>

datatype truncation = PositionFailed | ReopenFailed | EndFailed | GotTruncated

definition truncated :: "int option option \<Rightarrow> int option option \<Rightarrow> truncation option" where
  "truncated fd reopened =
     (case fd of
        None \<Rightarrow> None
      | Some None \<Rightarrow> Some PositionFailed
      | Some (Some position) \<Rightarrow>
          (case reopened of
             None \<Rightarrow> Some ReopenFailed
           | Some None \<Rightarrow> Some EndFailed
           | Some (Some len) \<Rightarrow> if len < position then Some GotTruncated else None))"

subsection \<open>Reading\<close>

text \<open>
  \<open>StartWithProcessorOptimized\<close>. The reads divide the bytes into \<open>chunks\<close>; in follow mode the bytes
  that come later are in \<open>later\<close>, with the error of their read and whether the context is over.
\<close>

datatype 'e start_error = OpenError 'e | StartFailed "'e read_error"

definition start_with_processor :: "'e file_system \<Rightarrow> 'e environment \<Rightarrow> (gostr \<Rightarrow> gostr list) \<Rightarrow> 'e read_error option \<Rightarrow>
    (gostr \<times> 'e tail_error \<times> bool) list \<Rightarrow> ('p, 'e) process \<Rightarrow> ('p \<Rightarrow> 'p \<times> 'e option) \<Rightarrow> (gostr \<Rightarrow> bool) \<Rightarrow> lcontext \<Rightarrow>
    file_reader \<Rightarrow> 'p \<Rightarrow> file_reader \<times> 'p \<times> 'e start_error option" where
  "start_with_processor fs env chunks fin later process flush m ltx f p =
     (case make_reader fs f of
        Inl e \<Rightarrow> (f, p, Some (OpenError e))
      | Inr bytes \<Rightarrow>
          (let fp = new_filter p m ltx (fr_stats f) (fr_glob_id f) in
           if seek_eof (fr_file f) then
             (case tail_steps True process flush later (fr_file f) [] fp of
                (rf, part, fp1, r) \<Rightarrow>
                  (f\<lparr>fr_file := rf, fr_stats := fp_stats fp1\<rparr>, fp_processor fp1, case r of Return (Some e) \<Rightarrow> Some (StartFailed e) | _ \<Rightarrow> None))
           else
             (case start_read env process flush fin (fr_file f) (chunks bytes) fp of
                (rf, p1, e) \<Rightarrow>
                  (f\<lparr>fr_file := rf,
                     fr_stats := fp_stats (fst (snd (read_lines max_token_size env 0 process fin (fr_file f) (new_scanner (chunks bytes)) fp)))\<rparr>,
                   p1, map_option StartFailed e))))"

text \<open>A file that is read once delivers all of itself, one that is followed only what is new.\<close>

lemma reads_from_start:
  assumes "fs_open_target fs t = Inr bytes" and "\<not> has_suffix path ''.gz''" and "\<not> has_suffix path ''.gzip''"
    and "\<not> has_suffix path ''.zst''" and "path \<noteq> [] \<or> glob_id \<noteq> ''-''"
  shows "make_reader fs (new_validated_cat_file path t glob_id ms n) = Inr bytes"
  using assms
  by (auto simp: make_reader_def make_file_reader_def new_validated_cat_file_def new_cat_file_def open_file_def make_compressed_reader_def)

lemma follows_from_end:
  assumes "fs_open_target fs t = Inr bytes" and "fs_seek_end fs = None" and "\<not> has_suffix path ''.gz''"
    and "\<not> has_suffix path ''.gzip''" and "\<not> has_suffix path ''.zst''" and "path \<noteq> [] \<or> glob_id \<noteq> ''-''"
  shows "make_reader fs (new_validated_tail_file path t glob_id ms n) = Inr []"
  using assms
  by (auto simp: make_reader_def make_file_reader_def new_validated_tail_file_def new_tail_file_def open_file_def make_compressed_reader_def)

text \<open>To follow a compressed file is to decompress nothing, which a decompressor refuses.\<close>

lemma compressed_file_not_followed:
  assumes "fs_open_target fs t = Inr bytes" and "fs_seek_end fs = None" and "fs_gunzip fs [] = Inl e" and "has_suffix path ''.gz''"
    and "path \<noteq> []"
  shows "start_with_processor fs env chunks fin later process flush m ltx (new_validated_tail_file path t glob_id ms n) p =
    (new_validated_tail_file path t glob_id ms n, p, Some (OpenError e))"
  using assms
  by (auto simp: start_with_processor_def make_reader_def make_file_reader_def new_validated_tail_file_def new_tail_file_def
      open_file_def make_compressed_reader_def)

end
