(* ===== verification/Read_Command.thy ===== *)
theory Read_Command
  imports File_Source Server_Read Line_Writer
begin

text \<open>
  The cat, grep and tail commands of the server (\<open>handlers/readcommand.go\<close>, \<open>readcommand_server.go\<close>,
  \<open>shutdown_coordinator.go\<close>): what a command reads, how many of its files are read at a time, the
  reading of one file into a writer or an aggregate, and what happens when a file and when the
  command is done. A command is a goroutine with one more for each file; the functions here are what
  one of them does between two points where it waits.
\<close>

subsection \<open>Times and limits\<close>

text \<open>The settings in milliseconds; durations are in nanoseconds, in 64 bits.\<close>

record read_config =
  rf_max_line_length :: int
  rf_max_glob_targets :: int
  rf_read_glob_retry_interval_ms :: int
  rf_read_retry_interval_ms :: int
  rf_output_transmission_delay_ms :: int
  rf_output_eof_wait_base_ms :: int
  rf_output_eof_wait_per_file_ms :: int
  rf_output_eof_wait_max_ms :: int
  rf_shutdown_output_serialize_wait_ms :: int
  rf_shutdown_idle_recheck_wait_ms :: int
  rf_output_eof_ack_timeout_ms :: int
  rf_output_channel_buffer_size :: int
  rf_output_flush_timeout_ms :: int
  rf_output_flush_poll_interval_ms :: int
  rf_output_read_retry_interval_ms :: int

definition duration_from_milliseconds :: "int \<Rightarrow> int \<Rightarrow> int" where
  "duration_from_milliseconds value fallback = (if value \<le> 0 then fallback else wrap64 (value * millisecond))"

definition positive_int_or_default :: "int \<Rightarrow> int \<Rightarrow> int" where
  "positive_int_or_default value fallback = (if value \<le> 0 then fallback else value)"

definition output_eof_ack_timeout :: "read_config \<Rightarrow> int" where
  "output_eof_ack_timeout c = duration_from_milliseconds (rf_output_eof_ack_timeout_ms c) (2000 * millisecond)"

definition read_glob_retry_interval :: "read_config \<Rightarrow> int" where
  "read_glob_retry_interval c = duration_from_milliseconds (rf_read_glob_retry_interval_ms c) (5000 * millisecond)"

definition read_retry_interval :: "read_config \<Rightarrow> int" where
  "read_retry_interval c = duration_from_milliseconds (rf_read_retry_interval_ms c) (2000 * millisecond)"

definition max_line_length_of :: "read_config \<Rightarrow> int" where
  "max_line_length_of c = positive_int_or_default (rf_max_line_length c) (1024 * 1024)"

definition output_transmission_delay :: "read_config \<Rightarrow> int" where
  "output_transmission_delay c = duration_from_milliseconds (rf_output_transmission_delay_ms c) (50 * millisecond)"

definition output_eof_wait_duration :: "read_config \<Rightarrow> int \<Rightarrow> int" where
  "output_eof_wait_duration c files =
     (let base = duration_from_milliseconds (rf_output_eof_wait_base_ms c) (500 * millisecond) in
      if files \<le> 10 then base
      else
        let per_file = duration_from_milliseconds (rf_output_eof_wait_per_file_ms c) (10 * millisecond);
            longest = duration_from_milliseconds (rf_output_eof_wait_max_ms c) (2000 * millisecond);
            wait = wrap64 (files * per_file) in
        if longest < wait then longest else wait)"

definition shutdown_serialize_wait :: "read_config \<Rightarrow> int" where
  "shutdown_serialize_wait c = duration_from_milliseconds (rf_shutdown_output_serialize_wait_ms c) (500 * millisecond)"

definition shutdown_idle_recheck_wait :: "read_config \<Rightarrow> int" where
  "shutdown_idle_recheck_wait c = duration_from_milliseconds (rf_shutdown_idle_recheck_wait_ms c) (10 * millisecond)"

definition max_glob_targets :: "read_config \<Rightarrow> int" where
  "max_glob_targets c = positive_int_or_default (rf_max_glob_targets c) 1000"

definition output_manager_config :: "read_config \<Rightarrow> output_config" where
  "output_manager_config c =
     \<lparr>oc_channel_buffer_size = positive_int_or_default (rf_output_channel_buffer_size c) (oc_channel_buffer_size default_output_config),
      oc_flush_timeout = duration_from_milliseconds (rf_output_flush_timeout_ms c) (oc_flush_timeout default_output_config),
      oc_flush_poll_interval = duration_from_milliseconds (rf_output_flush_poll_interval_ms c) (oc_flush_poll_interval default_output_config),
      oc_read_retry_interval = duration_from_milliseconds (rf_output_read_retry_interval_ms c) (oc_read_retry_interval default_output_config),
      oc_eof_ack_quiet_period = duration_from_milliseconds (rf_output_transmission_delay_ms c) (oc_eof_ack_quiet_period default_output_config)\<rparr>"

subsection \<open>The start of a command\<close>

text \<open>What is logged and sent to the client; the text of it is a parameter.\<close>

datatype read_event =
    BadRegex regex_error | BadCommand "gostr list" | NoSuchFiles | TooManyFiles int nat | GivingUp | NoPermission | NoJournal

record 'r read_env =
  re_log :: "read_event \<Rightarrow> gostr"
  re_compile :: "gostr \<Rightarrow> 'r option"
  re_config :: read_config

text \<open>A message waits for room in the queue; \<open>taken\<close> is whether it found it before the context was over.\<close>

definition send_read_message :: "bool \<Rightarrow> uint64 \<Rightarrow> gostr \<Rightarrow> server_handler \<Rightarrow> server_handler" where
  "send_read_message taken g message h =
     (if taken then h\<lparr>h_server_messages := h_server_messages h @ [encode_generated g (message @ [CHR 0x0A])]\<rparr> else h)"

datatype 'r read_plan = RejectRead read_event | ReadPipe "'r regex" | ReadJournal gostr "'r regex" | ReadGlob gostr "'r regex"

definition plan_read :: "'r read_env \<Rightarrow> bool \<Rightarrow> gostr list \<Rightarrow> 'r read_plan" where
  "plan_read env input_from_pipe args =
     (case (if 4 \<le> length args then deserialize_regex (re_compile env) (join '' '' (drop 2 args)) else Inr new_noop) of
        Inl e \<Rightarrow> RejectRead (BadRegex e)
      | Inr r \<Rightarrow>
          if length args < 3 then RejectRead (BadCommand args)
          else if input_from_pipe \<and> (args ! 1 = [] \<or> args ! 1 = ''-'') then ReadPipe r
          else if is_journal_spec (args ! 1) then ReadJournal (args ! 1) r
          else ReadGlob (args ! 1) r)"

subsection \<open>The expansion of a glob\<close>

text \<open>
  An attempt: what the glob matches, or its error; whether the context is over after the message; and
  whether the sleep ended before the context.
\<close>

record glob_attempt =
  ga_paths :: "gostr list option"
  ga_taken :: bool
  ga_over :: bool
  ga_slept :: bool

datatype glob_outcome = ReadFiles "gostr list" | GaveUp | GlobCancelled

definition cap_paths :: "int \<Rightarrow> gostr list \<Rightarrow> gostr list" where
  "cap_paths cap paths = (if cap < int (length paths) then take (nat cap) paths else paths)"

fun read_glob_loop :: "'r read_env \<Rightarrow> uint64 \<Rightarrow> (nat \<Rightarrow> glob_attempt) \<Rightarrow> nat \<Rightarrow> nat \<Rightarrow> server_handler \<Rightarrow> glob_outcome \<times> server_handler" where
  "read_glob_loop env g attempts i 0 h = (GaveUp, send_read_message (ga_taken (attempts i)) g (re_log env GivingUp) h)"
| "read_glob_loop env g attempts i (Suc n) h =
     (let a = attempts i in
      case ga_paths a of
        None \<Rightarrow> if \<not> ga_slept a then (GlobCancelled, h) else read_glob_loop env g attempts (Suc i) n h
      | Some [] \<Rightarrow>
          (let h1 = send_read_message (ga_taken a) g (re_log env NoSuchFiles) h in
           if ga_over a \<or> \<not> ga_slept a then (GlobCancelled, h1) else read_glob_loop env g attempts (Suc i) n h1)
      | Some paths \<Rightarrow>
          (let cap = max_glob_targets (re_config env) in
           (ReadFiles (cap_paths cap paths),
            if cap < int (length paths) then send_read_message (ga_taken a) g (re_log env (TooManyFiles cap (length paths))) h else h)))"

definition read_glob :: "'r read_env \<Rightarrow> uint64 \<Rightarrow> (gostr \<Rightarrow> nat \<Rightarrow> glob_attempt) \<Rightarrow> gostr \<Rightarrow> int \<Rightarrow> server_handler \<Rightarrow>
    glob_outcome \<times> server_handler" where
  "read_glob env g attempts glob retries h = read_glob_loop env g (attempts (clean glob)) 0 (nat retries) h"

text \<open>
  The identifier of a file: its parts where the glob has a star, or its last part. \<open>None\<close> is an index
  out of range, in a path with fewer parts than the glob.
\<close>

fun starred_parts :: "gostr list \<Rightarrow> gostr list \<Rightarrow> gostr list option" where
  "starred_parts [] ps = Some []"
| "starred_parts (g # gs) ps =
     (if contains g ''*'' then (case ps of [] \<Rightarrow> None | p # qs \<Rightarrow> map_option (Cons p) (starred_parts gs qs))
      else starred_parts gs (tl ps))"

definition make_glob_id :: "gostr \<Rightarrow> gostr \<Rightarrow> gostr option" where
  "make_glob_id path glob =
     (case starred_parts (split slash glob) (split slash path) of
        None \<Rightarrow> None
      | Some [] \<Rightarrow> Some (last (split slash path))
      | Some ids \<Rightarrow> Some (join slash ids))"

subsection \<open>One file\<close>

definition journal_args :: "gostr \<Rightarrow> gostr list" where
  "journal_args spec = (let source = trim_prefix spec journal_spec_prefix in if source = [] then [] else [''-u'', source])"

text \<open>The reader of a file and the limiter it waits for, by the mode of the command.\<close>

datatype limiter_kind = CatLimiter | TailLimiter

datatype line_source = FileSource file_reader | JournalSource "gostr list" gostr bool

definition source_of :: "read_config \<Rightarrow> mode \<Rightarrow> gostr \<Rightarrow> validated_read_target option \<Rightarrow> gostr \<Rightarrow> line_source" where
  "source_of c m path target glob_id =
     (let follow = (m \<noteq> GrepClient \<and> m \<noteq> CatClient); n = max_line_length_of c in
      case target of
        Some t \<Rightarrow>
          if target_kind t = JournalKind then JournalSource (journal_args path) path follow
          else FileSource ((if follow then new_validated_tail_file else new_validated_cat_file) path t glob_id (Some []) n)
      | None \<Rightarrow> FileSource ((if follow then new_tail_file else new_cat_file) path glob_id (Some []) n))"

definition limiter_of :: "mode \<Rightarrow> limiter_kind" where
  "limiter_of m = (if m = GrepClient \<or> m = CatClient then CatLimiter else TailLimiter)"

text \<open>
  What \<open>readFileIfPermissions\<close> does with a path: \<open>validate\<close> is the permission of the user, and the
  identifier is made first. \<open>None\<close> is the panic of the identifier.
\<close>

datatype file_plan = Denied | ReadFrom line_source

definition plan_file :: "'r read_env \<Rightarrow> (gostr \<Rightarrow> validated_read_target option) \<Rightarrow> mode \<Rightarrow> gostr \<Rightarrow> gostr \<Rightarrow> file_plan option" where
  "plan_file env validate m path glob =
     (case make_glob_id path glob of
        None \<Rightarrow> None
      | Some glob_id \<Rightarrow>
          (case validate path of
             None \<Rightarrow> Some Denied
           | Some t \<Rightarrow> Some (ReadFrom (source_of (re_config env) m path (Some t) glob_id))))"

text \<open>The pipe has no target, and an identifier of its own.\<close>

definition plan_pipe :: "'r read_env \<Rightarrow> mode \<Rightarrow> line_source" where
  "plan_pipe env m = source_of (re_config env) m [] None ''-''"

definition is_input_from_pipe :: "bool \<Rightarrow> bool \<Rightarrow> bool" where
  "is_input_from_pipe serverless stdin_is_device = (serverless \<and> \<not> stdin_is_device)"

subsection \<open>The limiter\<close>

text \<open>
  A limiter is a channel whose capacity is the number of reads at a time. A read waits until it gets
  a slot or its context is over, and gives back a slot only where it has one.
\<close>

datatype read_phase = Queued | Reading | Ended

record read_limiter =
  rl_capacity :: nat
  rl_slots :: nat
  rl_reads :: "read_phase list"

inductive limiter_step :: "read_limiter \<Rightarrow> read_limiter \<Rightarrow> bool" where
  arrives: "limiter_step l (l\<lparr>rl_reads := rl_reads l @ [Queued]\<rparr>)"
| acquires: "i < length (rl_reads l) \<Longrightarrow> rl_reads l ! i = Queued \<Longrightarrow> rl_slots l < rl_capacity l \<Longrightarrow>
    limiter_step l (l\<lparr>rl_slots := Suc (rl_slots l), rl_reads := (rl_reads l)[i := Reading]\<rparr>)"
| cancelled: "i < length (rl_reads l) \<Longrightarrow> rl_reads l ! i = Queued \<Longrightarrow> limiter_step l (l\<lparr>rl_reads := (rl_reads l)[i := Ended]\<rparr>)"
| releases: "i < length (rl_reads l) \<Longrightarrow> rl_reads l ! i = Reading \<Longrightarrow>
    limiter_step l (l\<lparr>rl_slots := rl_slots l - 1, rl_reads := (rl_reads l)[i := Ended]\<rparr>)"

definition new_limiter :: "nat \<Rightarrow> read_limiter" where
  "new_limiter n = \<lparr>rl_capacity = n, rl_slots = 0, rl_reads = []\<rparr>"

definition readings :: "read_phase list \<Rightarrow> nat" where
  "readings ps = length (filter (\<lambda>p. p = Reading) ps)"

subsection \<open>Reading into a processor\<close>

text \<open>The first file switches the output on and wakes a reader that may be waiting for messages.\<close>

definition ensure_output_enabled :: "bool \<Rightarrow> uint64 \<Rightarrow> server_handler \<times> output_manager \<Rightarrow> server_handler \<times> output_manager" where
  "ensure_output_enabled taken g s =
     (case s of (h, t) \<Rightarrow>
        (case enable t of
           (t1, True) \<Rightarrow> (send_read_message taken g ''.output wake'' h, t1)
         | (t1, False) \<Rightarrow> (h, t1)))"

text \<open>Serverless it is a direct writer to standard output, else a network writer.\<close>

definition make_writer :: "uint64 \<Rightarrow> server_handler \<Rightarrow> line_writer" where
  "make_writer g h = new_line_writer (h_hostname h) (h_plain h) (h_serverless h) g"

definition writer_flush :: "(gostr \<Rightarrow> bool) \<Rightarrow> direct_processor \<Rightarrow> direct_processor \<times> unit option" where
  "writer_flush accepts p =
     (case dp_flush (delivering accepts) p of None \<Rightarrow> (p, Some ()) | Some (e, p1) \<Rightarrow> (p1, if e then Some () else None))"

text \<open>One iteration: the read, then the flush and the close of the processor, whose errors are logged.\<close>

definition read_via_processor :: "'e file_system \<Rightarrow> 'e environment \<Rightarrow> (gostr \<Rightarrow> gostr list) \<Rightarrow> 'e read_error option \<Rightarrow>
    (gostr \<times> 'e tail_error \<times> bool) list \<Rightarrow> ('p, 'e) process \<Rightarrow> ('p \<Rightarrow> 'p \<times> 'e option) \<Rightarrow> (gostr \<Rightarrow> bool) \<Rightarrow> lcontext \<Rightarrow>
    file_reader \<Rightarrow> 'p \<Rightarrow> file_reader \<times> 'p \<times> 'e start_error option" where
  "read_via_processor fs env chunks fin later process flush m ltx f p =
     (case start_with_processor fs env chunks fin later process flush m ltx f p of
        (f1, p1, e) \<Rightarrow> (f1, fst (flush (fst (flush p1))), e))"

text \<open>
  The loop around it. A round is the input of an iteration, whether the context is over after it, and
  whether the sleep before the next one ended before the context. The flag says that the loop was left.
\<close>

fun execute_read_loop :: "bool \<Rightarrow> ('i \<Rightarrow> 's \<Rightarrow> 's) \<Rightarrow> ('i \<times> bool \<times> bool) list \<Rightarrow> 's \<Rightarrow> 's \<times> bool" where
  "execute_read_loop retry strategy [] s = (s, False)"
| "execute_read_loop retry strategy ((i, over, slept) # rounds) s =
     (let s1 = strategy i s in
      if over \<or> \<not> retry \<or> \<not> slept then (s1, True) else execute_read_loop retry strategy rounds s1)"

text \<open>
  A file that is read once into the output of the client: the payloads of its writer go to the channel
  of the output manager.
\<close>

definition read_into_output :: "unit file_system \<Rightarrow> unit environment \<Rightarrow> (gostr \<Rightarrow> gostr list) \<Rightarrow> unit read_error option \<Rightarrow>
    (gostr \<Rightarrow> bool) \<Rightarrow> uint64 option \<Rightarrow> uint64 \<Rightarrow> (gostr \<Rightarrow> bool) \<Rightarrow> lcontext \<Rightarrow> file_reader \<Rightarrow>
    server_handler \<times> output_manager \<Rightarrow> server_handler \<times> output_manager" where
  "read_into_output fs env chunks fin accepts active g m ltx f s =
     (case ensure_output_enabled True g s of
        (h, t) \<Rightarrow>
          (case read_via_processor fs env chunks fin [] (writer_process accepts active) (writer_flush accepts) m ltx f
              (new_direct_processor (make_writer g h) []) of
             (f1, p, e) \<Rightarrow> (h, t\<lparr>om_lines := map_option (\<lambda>ls. ls @ dp_queue p) (om_lines t)\<rparr>)))"

subsection \<open>The end of a command\<close>

text \<open>
  After all files of a command: no handshake when the context is over, in other modes or when the output
  is off, none when other files are pending, and else the end of the output in the epoch that was current.
\<close>

datatype epilogue = NoHandshake | NotLast | SignalEof uint64

definition read_epilogue :: "mode \<Rightarrow> bool \<Rightarrow> output_manager \<Rightarrow> 32 word \<Rightarrow> epilogue" where
  "read_epilogue m over t pending =
     (if over \<or> m \<notin> {CatClient, GrepClient, TailClient} \<or> \<not> (om_mode t \<and> has_eof t) then NoHandshake
      else if pending \<noteq> 0 then NotLast
      else SignalEof (om_epoch t))"

definition finish_read_files :: "mode \<Rightarrow> bool \<Rightarrow> 32 word \<Rightarrow> output_manager \<Rightarrow> output_manager" where
  "finish_read_files m over pending t =
     (case read_epilogue m over t pending of SignalEof epoch \<Rightarrow> signal_eof epoch t | _ \<Rightarrow> t)"

subsection \<open>The shutdown coordinator\<close>

definition add_pending_files :: "nat \<Rightarrow> server_handler \<Rightarrow> server_handler" where
  "add_pending_files n h = h\<lparr>h_pending_files := h_pending_files h + of_nat n\<rparr>"

definition complete_pending_file :: "server_handler \<Rightarrow> 32 word \<times> 32 word \<times> server_handler" where
  "complete_pending_file h =
     (let h1 = h\<lparr>h_pending_files := h_pending_files h - 1\<rparr> in (h_pending_files h1, h_active_commands h1, h1))"

text \<open>
  What other goroutines do to the handler during the two sleeps is \<open>grace\<close> and \<open>idle\<close>; \<open>same\<close> is
  whether the aggregate is the same object after the first.
\<close>

definition one_shot_input :: "mode \<Rightarrow> bool" where
  "one_shot_input m = (m = CatClient \<or> m = GrepClient)"

definition maybe_finish_aggregate_input :: "bool \<Rightarrow> (server_handler \<Rightarrow> server_handler) \<Rightarrow> bool \<Rightarrow> server_handler \<Rightarrow> server_handler" where
  "maybe_finish_aggregate_input one_shot grace same h =
     (if \<not> one_shot \<or> h_aggregate h = None then h
      else
        let h1 = grace h in
        if h_pending_files h1 \<noteq> 0 \<or> \<not> same then h1 else h1\<lparr>h_aggregate := map_option finish_input (h_aggregate h1)\<rparr>)"

definition finalize_when_idle :: "'r handler_env \<Rightarrow> (server_handler \<Rightarrow> server_handler) \<Rightarrow> server_handler \<Rightarrow> server_handler" where
  "finalize_when_idle env idle h =
     (case (case h_aggregate h of
              None \<Rightarrow> Some h
            | Some a \<Rightarrow> map_option (\<lambda>a1. h\<lparr>h_aggregate := Some a1\<rparr>) (do_serialize (he_accepts env) [] a)) of
        None \<Rightarrow> h\<lparr>h_blocked := True\<rparr>
      | Some h1 \<Rightarrow>
          (let h2 = idle h1 in
           if h_pending_files h2 = 0 \<and> h_active_commands h2 = 0 then begin_shutdown env h2 else h2))"

definition on_file_processed :: "'r handler_env \<Rightarrow> bool \<Rightarrow> (server_handler \<Rightarrow> server_handler) \<Rightarrow> bool \<Rightarrow>
    (server_handler \<Rightarrow> server_handler) \<Rightarrow> server_handler \<Rightarrow> server_handler" where
  "on_file_processed env one_shot grace same idle h =
     (case complete_pending_file h of
        (remaining, active, h1) \<Rightarrow>
          if remaining \<noteq> 0 then h1
          else
            let h2 = maybe_finish_aggregate_input one_shot grace same h1 in
            if active \<noteq> 0 then h2 else finalize_when_idle env idle h2)"

subsection \<open>Identifiers of files\<close>

text \<open>A file that a glob finds whose only wildcard is the star.\<close>

definition star_matches :: "gostr \<Rightarrow> gostr \<Rightarrow> bool" where
  "star_matches glob path \<longleftrightarrow> list_all2 (\<lambda>g p. \<not> contains g ''*'' \<longrightarrow> p = g) (split slash glob) (split slash path)"

lemma starred_parts_total: "length gs \<le> length ps \<Longrightarrow> \<exists>ids. starred_parts gs ps = Some ids"
proof (induction gs arbitrary: ps)
  case (Cons g gs)
  obtain p qs where ps: "ps = p # qs" using Cons.prems by (cases ps) auto
  then show ?case using Cons by auto
qed simp

lemma starred_parts_inj:
  assumes "list_all2 R gs ps" and "list_all2 R gs qs" and "starred_parts gs ps = starred_parts gs qs"
    and "R = (\<lambda>g p. \<not> contains g ''*'' \<longrightarrow> p = g)"
  shows "ps = qs"
  using assms(1-3)
proof (induction gs arbitrary: ps qs)
  case (Cons g gs)
  obtain p ps' q qs' where e: "ps = p # ps'" "qs = q # qs'" "R g p" "R g q" "list_all2 R gs ps'" "list_all2 R gs qs'"
    using Cons.prems(1,2) by (auto simp: list_all2_Cons1)
  obtain a b where ab: "starred_parts gs ps' = Some a" "starred_parts gs qs' = Some b"
    using starred_parts_total[OF eq_refl[OF list_all2_lengthD[OF e(5)]]] starred_parts_total[OF eq_refl[OF list_all2_lengthD[OF e(6)]]]
    by (elim exE)
  have "p = q \<and> a = b" using Cons.prems(3) e(1-4) ab assms(4) by (cases "contains g ''*''") auto
  then show ?case using Cons.IH[OF e(5,6)] e(1,2) ab by simp
qed simp

lemma starred_parts_sub: "starred_parts gs ps = Some ids \<Longrightarrow> set ids \<subseteq> set ps"
proof (induction gs arbitrary: ps ids)
  case (Cons g gs)
  show ?case
  proof (cases "contains g ''*''")
    case True
    then obtain p qs js where "ps = p # qs" "starred_parts gs qs = Some js" "ids = p # js"
      using Cons.prems by (auto split: list.splits)
    then show ?thesis using Cons.IH by auto
  next
    case False
    then show ?thesis using Cons.IH[of "tl ps" ids] Cons.prems list.set_sel(2)[of ps] by (cases ps) auto
  qed
qed simp

lemma starred_parts_empty: "starred_parts gs ps = Some [] \<Longrightarrow> list_all (\<lambda>g. \<not> contains g ''*'') gs"
proof (induction gs arbitrary: ps)
  case (Cons g gs)
  then show ?case by (cases "contains g ''*''") (auto split: list.splits)
qed simp

lemma starred_parts_length: "starred_parts gs ps = Some ids \<Longrightarrow> length ids = length (filter (\<lambda>g. contains g ''*'') gs)"
  by (induction gs arbitrary: ps ids) (auto split: if_splits list.splits)

lemma no_slash_contains: "CHR ''/'' \<notin> set x \<Longrightarrow> \<not> contains x slash"
  by (simp add: slash_def)

lemma join_starred_inj:
  assumes "set xs \<subseteq> set (split slash p)" and "set ys \<subseteq> set (split slash q)" and "xs \<noteq> []" and "ys \<noteq> []" and "join slash xs = join slash ys"
  shows "xs = ys"
proof -
  have "split slash (join slash zs) = zs" if "set zs \<subseteq> set (split slash r)" "zs \<noteq> []" for zs r
    using that split_slash_no_slash no_slash_contains by (intro split_join) (auto simp: slash_def)
  then show ?thesis using assms by metis
qed

text \<open>
  No two files that a glob finds, one whose only wildcard is the star, get the same identifier,
  and none of them makes the server panic.
\<close>

theorem glob_ids_distinct:
  assumes "star_matches glob path" and "star_matches glob path2"
  shows "make_glob_id path glob \<noteq> None \<and> (make_glob_id path glob = make_glob_id path2 glob \<longrightarrow> path = path2)"
proof -
  let ?R = "\<lambda>g p. \<not> contains g ''*'' \<longrightarrow> p = g" and ?g = "split slash glob"
  have m: "list_all2 ?R ?g (split slash path)" "list_all2 ?R ?g (split slash path2)"
    using assms by (simp_all add: star_matches_def)
  obtain xs ys where ids: "starred_parts ?g (split slash path) = Some xs" "starred_parts ?g (split slash path2) = Some ys"
    using starred_parts_total[OF eq_refl[OF list_all2_lengthD[OF m(1)]]] starred_parts_total[OF eq_refl[OF list_all2_lengthD[OF m(2)]]]
    by (elim exE)
  have l: "length xs = length ys" using starred_parts_length[OF ids(1)] starred_parts_length[OF ids(2)] by simp
  have inj: "path = path2" if "xs = ys"
    using starred_parts_inj[OF m _ refl] ids that by (metis join_split)
  show ?thesis
  proof (cases "xs = []")
    case True
    then have "ys = []" using l by simp
    then show ?thesis using True inj ids by (simp add: make_glob_id_def)
  next
    case False
    then have ne: "ys \<noteq> []" using l by auto
    have "make_glob_id path glob = Some (join slash xs)" "make_glob_id path2 glob = Some (join slash ys)"
      using ids False ne by (auto simp: make_glob_id_def split: list.splits)
    then show ?thesis
      using join_starred_inj[OF starred_parts_sub[OF ids(1)] starred_parts_sub[OF ids(2)] False ne] inj by auto
  qed
qed

lemma glob_ids_distinct_witness:
  "make_glob_id ''/v/a/x.log'' ''/v/*/x.log'' \<noteq> make_glob_id ''/v/b/x.log'' ''/v/*/x.log''"
proof -
  have "star_matches ''/v/*/x.log'' ''/v/a/x.log''" "star_matches ''/v/*/x.log'' ''/v/b/x.log''" by code_simp+
  from glob_ids_distinct[OF this] show ?thesis by auto
qed

text \<open>With another wildcard two files can get one identifier.\<close>

lemma glob_ids_collide:
  "make_glob_id ''/v/a/x1.log'' ''/v/?/x*.log'' = make_glob_id ''/v/b/x1.log'' ''/v/?/x*.log''"
  by code_simp

subsection \<open>The limiter gives back every slot\<close>

definition limiter_inv :: "read_limiter \<Rightarrow> bool" where
  "limiter_inv l \<longleftrightarrow> rl_slots l = readings (rl_reads l) \<and> rl_slots l \<le> rl_capacity l"

lemma readings_simps [simp]: "readings [] = 0" "readings (p # ps) = (if p = Reading then 1 else 0) + readings ps"
  "readings (ps @ qs) = readings ps + readings qs"
  by (simp_all add: readings_def)

lemma readings_update:
  "i < length ps \<Longrightarrow> readings (ps[i := p]) + (if ps ! i = Reading then 1 else 0) = readings ps + (if p = Reading then 1 else 0)"
proof (induction ps arbitrary: i)
  case (Cons q qs)
  then show ?case by (cases i) auto
qed simp

lemma limiter_inv_step: "limiter_step l l1 \<Longrightarrow> limiter_inv l \<Longrightarrow> limiter_inv l1 \<and> rl_capacity l1 = rl_capacity l"
proof (induction rule: limiter_step.induct)
  case (arrives l)
  then show ?case by (simp add: limiter_inv_def readings_def)
next
  case (acquires i l)
  then show ?case using readings_update[OF acquires(1), of Reading] by (simp add: limiter_inv_def)
next
  case (cancelled i l)
  then show ?case using readings_update[OF cancelled(1), of Ended] by (simp add: limiter_inv_def)
next
  case (releases i l)
  then show ?case using readings_update[OF releases(1), of Ended] by (simp add: limiter_inv_def) linarith
qed

lemma limiter_inv_reaches: "limiter_step\<^sup>*\<^sup>* (new_limiter n) l \<Longrightarrow> limiter_inv l \<and> rl_capacity l = n"
  by (induction rule: rtranclp_induct) (auto simp: limiter_inv_def new_limiter_def dest: limiter_inv_step)

lemma limiter_bounded:
  "limiter_step\<^sup>*\<^sup>* (new_limiter n) l \<Longrightarrow> readings (rl_reads l) \<le> n \<and> rl_slots l = readings (rl_reads l)"
  using limiter_inv_reaches[of n l] by (auto simp: limiter_inv_def)

text \<open>A read that is queued can always get its turn once the reads before it are done.\<close>

lemma limiter_serves:
  assumes "limiter_step\<^sup>*\<^sup>* (new_limiter n) l" and "0 < n" and "readings (rl_reads l) = 0" and "i < length (rl_reads l)"
    and "rl_reads l ! i = Queued"
  shows "limiter_step l (l\<lparr>rl_slots := 1, rl_reads := (rl_reads l)[i := Reading]\<rparr>)"
  using limiter_inv_reaches[OF assms(1)] limiter_step.acquires[of i l] assms by (simp add: limiter_inv_def)

lemma limiter_bounded_witness: "readings (rl_reads (\<lparr>rl_capacity = 1, rl_slots = 1, rl_reads = [Reading]\<rparr>)) \<le> (1::nat)"
proof -
  have a: "limiter_step (new_limiter 1) ((new_limiter 1)\<lparr>rl_reads := [Queued]\<rparr>)"
    using limiter_step.arrives[of "new_limiter 1"] by (simp add: new_limiter_def)
  have b: "limiter_step ((new_limiter 1)\<lparr>rl_reads := [Queued]\<rparr>) \<lparr>rl_capacity = 1, rl_slots = 1, rl_reads = [Reading]\<rparr>"
    using limiter_step.acquires[of 0 "(new_limiter 1)\<lparr>rl_reads := [Queued]\<rparr>"] by (simp add: new_limiter_def)
  have "limiter_step\<^sup>*\<^sup>* (new_limiter 1) \<lparr>rl_capacity = 1, rl_slots = 1, rl_reads = [Reading]\<rparr>"
    using a b by (meson rtranclp.rtrancl_into_rtrancl rtranclp.rtrancl_refl)
  from limiter_bounded[OF this] show ?thesis by simp
qed

subsection \<open>What a glob and a last file lead to\<close>

text \<open>The files of a command: those of the first attempt that finds some, up to the limit.\<close>

lemma read_glob_capped:
  assumes "read_glob_loop env g attempts i n h = (ReadFiles paths, h1)"
  shows "paths \<noteq> [] \<and> int (length paths) \<le> max_glob_targets (re_config env) \<and>
    (\<exists>j. i \<le> j \<and> j < i + n \<and> (\<forall>k. i \<le> k \<longrightarrow> k < j \<longrightarrow> ga_paths (attempts k) = None \<or> ga_paths (attempts k) = Some []) \<and>
      (\<exists>found. ga_paths (attempts j) = Some found \<and> prefix paths found))"
  using assms
proof (induction n arbitrary: i h)
  case (Suc n)
  let ?a = "attempts i" and ?cap = "max_glob_targets (re_config env)"
  have cap: "0 < ?cap" by (simp add: max_glob_targets_def positive_int_or_default_def)
  have rest: ?case if r: "read_glob_loop env g attempts (Suc i) n h' = (ReadFiles paths, h1)"
    "ga_paths ?a = None \<or> ga_paths ?a = Some []" for h'
  proof -
    from Suc.IH[OF r(1)] obtain j where j: "Suc i \<le> j" "j < Suc i + n"
      "\<forall>k. Suc i \<le> k \<longrightarrow> k < j \<longrightarrow> ga_paths (attempts k) = None \<or> ga_paths (attempts k) = Some []"
      "\<exists>found. ga_paths (attempts j) = Some found \<and> prefix paths found" by blast
    have "\<forall>k. i \<le> k \<longrightarrow> k < j \<longrightarrow> ga_paths (attempts k) = None \<or> ga_paths (attempts k) = Some []"
      using j(3) r(2) by (metis Suc_leI le_neq_implies_less)
    then show ?thesis using Suc.IH[OF r(1)] j by (intro conjI exI[of _ j]) auto
  qed
  show ?case
  proof (cases "ga_paths ?a")
    case None
    then show ?thesis using Suc.prems rest by (auto simp: Let_def split: if_splits)
  next
    case (Some found)
    show ?thesis
    proof (cases found)
      case Nil
      then show ?thesis using Suc.prems Some rest by (auto simp: Let_def split: if_splits)
    next
      case (Cons p ps)
      then have p: "paths = cap_paths ?cap found" using Suc.prems Some by (simp add: Let_def)
      have "cap_paths ?cap found \<noteq> []" "int (length (cap_paths ?cap found)) \<le> ?cap" "prefix (cap_paths ?cap found) found"
        using cap Cons by (auto simp: cap_paths_def take_is_prefix)
      then show ?thesis using Some p by (intro conjI exI[of _ i]) auto
    qed
  qed
qed (simp)

text \<open>When nothing else happens meanwhile, the last file of a handler without active commands ends it.\<close>

lemma last_file_shuts_down:
  assumes "h_pending_files h = 1" and "h_active_commands h = 0" and "h_aggregate h = None"
  shows "on_file_processed env one_shot (\<lambda>h. h) same (\<lambda>h. h) h = begin_shutdown env (h\<lparr>h_pending_files := 0\<rparr>)"
  using assms by (simp add: on_file_processed_def complete_pending_file_def maybe_finish_aggregate_input_def finalize_when_idle_def Let_def)

end
