(* ===== verification/Journal.thy ===== *)
theory Journal
  imports Line_Reader Permissions
begin

text \<open>
  The reader of the systemd journal (\<open>internal/io/journal/reader.go\<close>, \<open>filter.go\<close>): the arguments of
  \<open>journalctl\<close>, the division of its output into lines, and a filter of its own, which is shown to
  select what the filter of files selects. The process and its pipes are parameters: what it writes,
  how it ends, and when the context is over.
\<close>

subsection \<open>The reader\<close>

record journal_reader =
  jr_path :: gostr
  jr_args :: "gostr list"
  jr_source :: gostr
  jr_messages :: "gostr list option"
  jr_follow :: bool

definition new_journal_reader :: "gostr option \<Rightarrow> gostr list \<Rightarrow> gostr \<Rightarrow> bool \<Rightarrow> gostr list option \<Rightarrow> journal_reader option" where
  "new_journal_reader look_path args source follow messages =
     map_option (\<lambda>path. \<lparr>jr_path = path, jr_args = args, jr_source = (if source = [] then ''journal'' else source),
       jr_messages = messages, jr_follow = follow\<rparr>) look_path"

definition journal_file_path :: "journal_reader \<Rightarrow> gostr" where
  "journal_file_path r = (if jr_args r = [] then ''journalctl'' else ''journalctl '' @ join '' '' (jr_args r))"

definition journal_retry :: "journal_reader \<Rightarrow> bool" where
  "journal_retry r = jr_follow r"

definition command_args :: "journal_reader \<Rightarrow> gostr list" where
  "command_args r = jr_args r @ (if jr_follow r then [''-f'', ''-n'', ''0''] else [])"

subsection \<open>Statistics\<close>

text \<open>The type is a copy of the one for files, operation by operation.\<close>

type_synonym journal_stats = stats

definition journal_position :: "journal_stats \<Rightarrow> journal_stats" where
  "journal_position s = s\<lparr>pos := (pos s + 1) mod 100, line_count := line_count s + 1\<rparr>"

definition journal_matched :: "journal_stats \<Rightarrow> journal_stats" where
  "journal_matched s =
     (if matched s ! nat (pos s) then s
      else s\<lparr>match_count := match_count s + 1, matched := (matched s)[nat (pos s) := True]\<rparr>)"

definition journal_transmitted :: "journal_stats \<Rightarrow> journal_stats" where
  "journal_transmitted s =
     (if transmitted s ! nat (pos s) then s
      else s\<lparr>transmit_count := wrap64 (transmit_count s + 1), transmitted := (transmitted s)[nat (pos s) := True]\<rparr>)"

definition journal_not_matched :: "journal_stats \<Rightarrow> journal_stats" where
  "journal_not_matched s =
     (if matched s ! nat (pos s) then s\<lparr>match_count := match_count s - 1, matched := (matched s)[nat (pos s) := False]\<rparr> else s)"

definition journal_not_transmitted :: "journal_stats \<Rightarrow> journal_stats" where
  "journal_not_transmitted s =
     (if transmitted s ! nat (pos s)
      then s\<lparr>transmit_count := wrap64 (transmit_count s - 1), transmitted := (transmitted s)[nat (pos s) := False]\<rparr> else s)"

subsection \<open>The filter\<close>

datatype 'e journal_stop = StopReading | SinkFailed 'e

record 'p journal_filter =
  jf_sink :: 'p
  jf_match :: "gostr \<Rightarrow> bool"
  jf_ltx :: lcontext
  jf_source :: gostr
  jf_stats :: journal_stats
  jf_before :: "(gostr \<times> uint64) list"
  jf_after :: int
  jf_max_count :: int
  jf_max_hit :: int
  jf_max_closed :: bool

definition new_journal_filter :: "lcontext \<Rightarrow> 'p \<Rightarrow> (gostr \<Rightarrow> bool) \<Rightarrow> gostr \<Rightarrow> 'p journal_filter" where
  "new_journal_filter ltx sink m source =
     \<lparr>jf_sink = sink, jf_match = m, jf_ltx = ltx, jf_source = source, jf_stats = new_stats, jf_before = [], jf_after = 0,
      jf_max_count = ltx_max_count ltx, jf_max_hit = 0, jf_max_closed = False\<rparr>"

definition jstat :: "(journal_stats \<Rightarrow> journal_stats) \<Rightarrow> 'p journal_filter \<Rightarrow> 'p journal_filter" where
  "jstat u f = f\<lparr>jf_stats := u (jf_stats f)\<rparr>"

text \<open>The sink is a processor, which is never full.\<close>

definition emit :: "('p, 'e) process \<Rightarrow> 'p journal_filter \<Rightarrow> gostr \<Rightarrow> uint64 \<Rightarrow> 'p journal_filter \<times> 'e journal_stop option" where
  "emit process f raw count =
     (case process (jf_sink f) raw count (jf_source f) of (p, e) \<Rightarrow> (f\<lparr>jf_sink := p\<rparr>, map_option SinkFailed e))"

definition process_without_context :: "('p, 'e) process \<Rightarrow> 'p journal_filter \<Rightarrow> gostr \<Rightarrow> 'p journal_filter \<times> 'e journal_stop option" where
  "process_without_context process f raw =
     (if \<not> jf_match f raw then (jstat journal_not_transmitted (jstat journal_not_matched f), None)
      else let f1 = jstat journal_transmitted (jstat journal_matched f) in emit process f1 raw (line_count (jf_stats f1)))"

definition remember_before :: "gostr \<Rightarrow> 'p journal_filter \<Rightarrow> 'p journal_filter" where
  "remember_before raw f =
     f\<lparr>jf_before := (if before_context (jf_ltx f) \<le> int (length (jf_before f)) then tl (jf_before f) else jf_before f) @
         [(raw, line_count (jf_stats f))]\<rparr>"

definition process_context_miss :: "('p, 'e) process \<Rightarrow> 'p journal_filter \<Rightarrow> gostr \<Rightarrow> 'p journal_filter \<times> 'e journal_stop option" where
  "process_context_miss process f raw =
     (let f1 = jstat journal_not_matched f in
      if jf_max_closed f1 \<and> jf_after f1 = 0 then (f1, Some StopReading)
      else if 0 < jf_after f1 then
        (let f2 = jstat journal_transmitted (f1\<lparr>jf_after := jf_after f1 - 1\<rparr>) in
         case emit process f2 raw (line_count (jf_stats f2)) of
           (f3, None) \<Rightarrow> (f3, if jf_max_closed f3 \<and> jf_after f3 = 0 then Some StopReading else None)
         | (f3, Some e) \<Rightarrow> (f3, Some e))
      else if 0 < before_context (jf_ltx f1) then (jstat journal_not_transmitted (remember_before raw f1), None)
      else (jstat journal_not_transmitted f1, None))"

text \<open>The loop over the remembered lines; they are forgotten in any case.\<close>

fun emit_lines :: "('p, 'e) process \<Rightarrow> 'p journal_filter \<Rightarrow> (gostr \<times> uint64) list \<Rightarrow> 'p journal_filter \<times> 'e journal_stop option" where
  "emit_lines process f [] = (f, None)"
| "emit_lines process f ((raw, count) # ls) =
     (case emit process (jstat journal_transmitted f) raw count of
        (f1, None) \<Rightarrow> emit_lines process f1 ls
      | (f1, Some e) \<Rightarrow> (f1, Some e))"

definition emit_before :: "('p, 'e) process \<Rightarrow> 'p journal_filter \<Rightarrow> 'p journal_filter \<times> 'e journal_stop option" where
  "emit_before process f = (case emit_lines process f (jf_before f) of (f1, e) \<Rightarrow> (f1\<lparr>jf_before := []\<rparr>, e))"

definition journal_with_context :: "('p, 'e) process \<Rightarrow> 'p journal_filter \<Rightarrow> gostr \<Rightarrow> 'p journal_filter \<times> 'e journal_stop option" where
  "journal_with_context process f raw =
     (if \<not> jf_match f raw then process_context_miss process f raw
      else
        let f1 = jstat journal_matched f in
        if jf_max_closed f1 then (f1, Some StopReading)
        else case emit_before process f1 of
            (f2, Some e) \<Rightarrow> (f2, Some e)
          | (f2, None) \<Rightarrow>
              (case emit process (jstat journal_transmitted f2) raw (line_count (jf_stats f2)) of
                 (f3, Some e) \<Rightarrow> (f3, Some e)
               | (f3, None) \<Rightarrow>
                   (let f4 = (if 0 < jf_max_count f3 then f3\<lparr>jf_max_hit := jf_max_hit f3 + 1\<rparr> else f3);
                        full = (0 < jf_max_count f3 \<and> jf_max_count f3 \<le> jf_max_hit f4);
                        after = after_context (jf_ltx f4) in
                    if full \<and> after = 0 then (f4, Some StopReading)
                    else
                      let f5 = (if full then f4\<lparr>jf_max_closed := True\<rparr> else f4) in
                      (if 0 < after then f5\<lparr>jf_after := after\<rparr> else f5, None))))"

definition journal_process :: "('p, 'e) process \<Rightarrow> 'p journal_filter \<Rightarrow> gostr \<Rightarrow> 'p journal_filter \<times> 'e journal_stop option" where
  "journal_process process f raw =
     (let f1 = jstat journal_position f in
      if \<not> ltx_has (jf_ltx f1) then process_without_context process f1 raw else journal_with_context process f1 raw)"

fun journal_lines :: "('p, 'e) process \<Rightarrow> 'p journal_filter \<Rightarrow> gostr list \<Rightarrow> 'p journal_filter \<times> 'e journal_stop option" where
  "journal_lines process f [] = (f, None)"
| "journal_lines process f (l # ls) =
     (case journal_process process f l of
        (f1, None) \<Rightarrow> journal_lines process f1 ls
      | (f1, Some e) \<Rightarrow> (f1, Some e))"

subsection \<open>The division into lines\<close>

text \<open>A line that the end of the output leaves without its newline is skipped.\<close>

datatype journal_split = NeedMore | Skip nat | LineToken nat gostr

definition scan_lines_preserve_endings :: "gostr \<Rightarrow> bool \<Rightarrow> journal_split" where
  "scan_lines_preserve_endings data at_eof =
     (if at_eof \<and> data = [] then NeedMore
      else case index_byte data newline of
          Some i \<Rightarrow> LineToken (i + 1) (take (i + 1) data)
        | None \<Rightarrow> if at_eof then Skip (length data) else NeedMore)"

datatype journal_scan = ScannedLine gostr | ScannedAll | LineTooLong

function jscan :: "nat \<Rightarrow> scanner \<Rightarrow> scanner \<times> journal_scan" where
  "jscan mt sc =
     (case (if sc_buf sc \<noteq> [] \<or> sc_eof sc then scan_lines_preserve_endings (sc_buf sc) (sc_eof sc) else NeedMore) of
        LineToken n t \<Rightarrow> (sc\<lparr>sc_buf := drop n (sc_buf sc)\<rparr>, ScannedLine t)
      | Skip n \<Rightarrow> (sc\<lparr>sc_buf := drop n (sc_buf sc)\<rparr>, ScannedAll)
      | NeedMore \<Rightarrow>
          if sc_eof sc then (sc, ScannedAll)
          else if mt \<le> length (sc_buf sc) then (sc, LineTooLong)
          else jscan mt (read_more mt sc))"
  by pat_completeness auto
termination
proof (relation "measure (\<lambda>(mt, sc). (if sc_eof sc then 0 else 1) + length (sc_chunks sc) + length (concat (sc_chunks sc)))")
  fix mt and sc :: scanner
  assume "\<not> sc_eof sc" "\<not> mt \<le> length (sc_buf sc)"
  then show "((mt, read_more mt sc), mt, sc) \<in>
      measure (\<lambda>(mt, sc). (if sc_eof sc then 0 else 1) + length (sc_chunks sc) + length (concat (sc_chunks sc)))"
    by (auto simp: read_more_def Let_def split: list.splits)
qed simp

declare jscan.simps [simp del]

lemma jscan_line: "jscan mt sc = (sc1, ScannedLine t) \<Longrightarrow> sc_rest sc = t @ sc_rest sc1 \<and> t \<noteq> []"
proof (induction mt sc rule: jscan.induct)
  case (1 mt sc)
  show ?case
  proof (cases "if sc_buf sc \<noteq> [] \<or> sc_eof sc then scan_lines_preserve_endings (sc_buf sc) (sc_eof sc) else NeedMore")
    case NeedMore
    then have n: "\<not> sc_eof sc" "\<not> mt \<le> length (sc_buf sc)" "jscan mt (read_more mt sc) = (sc1, ScannedLine t)"
      using 1(2) by (simp_all add: jscan.simps[of mt sc] split: if_splits)
    from 1(1)[OF NeedMore n] show ?thesis using n(2) by simp
  next
    case (Skip n)
    then show ?thesis using 1(2) by (simp add: jscan.simps[of mt sc])
  next
    case (LineToken n u)
    then have e: "sc1 = sc\<lparr>sc_buf := drop n (sc_buf sc)\<rparr>" "t = u" using 1(2) by (simp_all add: jscan.simps[of mt sc])
    have u: "u = take n (sc_buf sc)" "u \<noteq> []"
      using LineToken by (auto simp: scan_lines_preserve_endings_def index_byte_def Let_def split: if_splits option.splits)
    show ?thesis using e u by (simp add: sc_rest_def)
  qed
qed

function journal_tokens :: "nat \<Rightarrow> scanner \<Rightarrow> gostr list \<times> bool" where
  "journal_tokens mt sc =
     (case jscan mt sc of
        (sc1, ScannedLine t) \<Rightarrow> (case journal_tokens mt sc1 of (ts, e) \<Rightarrow> (t # ts, e))
      | (sc1, ScannedAll) \<Rightarrow> ([], False)
      | (sc1, LineTooLong) \<Rightarrow> ([], True))"
  by pat_completeness auto
termination
proof (relation "measure (\<lambda>(mt, sc). length (sc_rest sc))")
  fix mt and sc sc1 :: scanner and t x y
  assume "(sc1, y) = jscan mt sc" "y = ScannedLine t"
  then have "sc_rest sc = t @ sc_rest sc1" "t \<noteq> []" using jscan_line[of mt sc sc1 t] by simp_all
  then show "((mt, sc1), mt, sc) \<in> measure (\<lambda>(mt, sc). length (sc_rest sc))" by simp
qed simp

declare journal_tokens.simps [simp del]

subsection \<open>A run of journalctl\<close>

text \<open>
  \<open>over i\<close> is whether the context is over when line \<open>i\<close> was scanned. While the journal is followed
  every line is flushed.
\<close>

datatype 'e journal_error = JournalStopped "'e journal_stop" | FlushError 'e | ScanTooLong | StderrFailed gostr | ProcessFailed gostr | NotStarted gostr

fun scan_stdout :: "('p, 'e) process \<Rightarrow> ('p \<Rightarrow> 'p \<times> 'e option) option \<Rightarrow> (nat \<Rightarrow> bool) \<Rightarrow> nat \<Rightarrow> gostr list \<Rightarrow> bool \<Rightarrow>
    'p journal_filter \<Rightarrow> 'p journal_filter \<times> 'e journal_error option" where
  "scan_stdout process flush over i [] too_long f = (f, if too_long then Some ScanTooLong else None)"
| "scan_stdout process flush over i (l # ls) too_long f =
     (if over i then (f, None)
      else case journal_process process f l of
          (f1, Some e) \<Rightarrow> (f1, Some (JournalStopped e))
        | (f1, None) \<Rightarrow>
            (case flush of
               None \<Rightarrow> scan_stdout process flush over (Suc i) ls too_long f1
             | Some fl \<Rightarrow>
                 (case fl (jf_sink f1) of
                    (p, Some e) \<Rightarrow> (f1\<lparr>jf_sink := p\<rparr>, Some (FlushError e))
                  | (p, None) \<Rightarrow> scan_stdout process flush over (Suc i) ls too_long (f1\<lparr>jf_sink := p\<rparr>))))"

text \<open>The lines of the error output become messages, until the context is over.\<close>

definition forward_stderr :: "nat \<Rightarrow> gostr list \<Rightarrow> journal_reader \<Rightarrow> journal_reader" where
  "forward_stderr taken texts r =
     r\<lparr>jr_messages := map_option (\<lambda>ms. ms @ map (\<lambda>t. ''journalctl stderr: '' @ t @ [newline]) (take taken texts)) (jr_messages r)\<rparr>"

text \<open>
  What the process leads to: the bytes of its output in the chunks of the reads, its error output and
  how much of that was taken, the errors of the error output and of the process, and whether the
  context is over at the end.
\<close>

record journal_run =
  ju_start_error :: "gostr option"
  ju_chunks :: "gostr list"
  ju_over :: "nat \<Rightarrow> bool"
  ju_stderr :: "gostr list"
  ju_taken :: nat
  ju_stderr_error :: "gostr option"
  ju_wait_error :: "gostr option"
  ju_over_at_end :: bool

definition max_scanner_token_size :: nat where
  "max_scanner_token_size = 1024 * 1024"

definition journal_run_result :: "journal_run \<Rightarrow> 'e journal_error option \<Rightarrow> 'e journal_error option" where
  "journal_run_result u scan_error =
     (if ju_over_at_end u \<or> scan_error = Some (JournalStopped StopReading) then None
      else if scan_error \<noteq> None then scan_error
      else if ju_stderr_error u \<noteq> None then map_option StderrFailed (ju_stderr_error u)
      else map_option ProcessFailed (ju_wait_error u))"

definition run_journal :: "journal_run \<Rightarrow> ('p, 'e) process \<Rightarrow> ('p \<Rightarrow> 'p \<times> 'e option) option \<Rightarrow> lcontext \<Rightarrow> (gostr \<Rightarrow> bool) \<Rightarrow>
    journal_reader \<Rightarrow> 'p \<Rightarrow> journal_reader \<times> 'p \<times> 'e journal_error option" where
  "run_journal u process flush ltx m r p =
     (case ju_start_error u of
        Some e \<Rightarrow> (r, p, Some (NotStarted e))
      | None \<Rightarrow>
          (case journal_tokens max_scanner_token_size (new_scanner (ju_chunks u)) of
             (ls, too_long) \<Rightarrow>
               (case scan_stdout process flush (ju_over u) 0 ls too_long (new_journal_filter ltx p m (jr_source r)) of
                  (f, e) \<Rightarrow> (forward_stderr (ju_taken u) (ju_stderr u) r, jf_sink f, journal_run_result u e))))"

definition journal_start :: "journal_run \<Rightarrow> ('p, 'e) process \<Rightarrow> ('p \<Rightarrow> 'p \<times> 'e option) \<Rightarrow> lcontext \<Rightarrow> (gostr \<Rightarrow> bool) \<Rightarrow>
    journal_reader \<Rightarrow> 'p \<Rightarrow> journal_reader \<times> 'p \<times> 'e journal_error option" where
  "journal_start u process flush ltx m r p =
     (case run_journal u process (if jr_follow r then Some flush else None) ltx m r p of
        (r1, p1, e) \<Rightarrow>
          (case flush p1 of (p2, x) \<Rightarrow> (r1, p2, if x \<noteq> None \<and> e = None then map_option FlushError x else e)))"

subsection \<open>The lines of the output\<close>

function ended_lines :: "gostr \<Rightarrow> gostr list" where
  "ended_lines s = (case index_byte s newline of None \<Rightarrow> [] | Some i \<Rightarrow> take (i + 1) s # ended_lines (drop (i + 1) s))"
  by pat_completeness auto
termination
  by (relation "measure length") (auto simp: index_byte_def Let_def split: if_splits)

declare ended_lines.simps [simp del]

function unended :: "gostr \<Rightarrow> gostr" where
  "unended s = (case index_byte s newline of None \<Rightarrow> s | Some i \<Rightarrow> unended (drop (i + 1) s))"
  by pat_completeness auto
termination
  by (relation "measure length") (auto simp: index_byte_def Let_def split: if_splits)

declare unended.simps [simp del]

lemma jscan_ended:
  assumes "index_byte (sc_rest sc) newline = Some i" and "i < mt" and "length (sc_buf sc) \<le> mt" and "sc_eof sc \<longrightarrow> sc_chunks sc = []"
  shows "\<exists>sc1. jscan mt sc = (sc1, ScannedLine (take (i + 1) (sc_rest sc))) \<and> sc_rest sc1 = drop (i + 1) (sc_rest sc) \<and>
    length (sc_buf sc1) \<le> mt \<and> (sc_eof sc1 \<longrightarrow> sc_chunks sc1 = [])"
  using assms
proof (induction mt sc rule: jscan.induct)
  case (1 mt sc)
  show ?case
  proof (cases "index_byte (sc_buf sc) newline")
    case (Some j)
    have ij: "j = i" using 1(2) index_byte_append_Some[OF Some, of "concat (sc_chunks sc)"] by (simp add: sc_rest_def)
    have lt: "i < length (sc_buf sc)" using index_byte_Some[OF Some] ij by simp
    then have "jscan mt sc = (sc\<lparr>sc_buf := drop (i + 1) (sc_buf sc)\<rparr>, ScannedLine (take (i + 1) (sc_buf sc)))"
      using Some ij by (subst jscan.simps) (auto simp: scan_lines_preserve_endings_def)
    then show ?thesis using lt 1(4,5) by (simp add: sc_rest_def)
  next
    case None
    have ne: "\<not> sc_eof sc" 
    proof
      assume "sc_eof sc"
      then have "sc_rest sc = sc_buf sc" using 1(5) by (simp add: sc_rest_def)
      then show False using None 1(2) by simp
    qed
    have sp: "(if sc_buf sc \<noteq> [] \<or> sc_eof sc then scan_lines_preserve_endings (sc_buf sc) (sc_eof sc) else NeedMore) = NeedMore"
      using None ne by (simp add: scan_lines_preserve_endings_def)
    have short: "\<not> mt \<le> length (sc_buf sc)"
    proof
      assume "mt \<le> length (sc_buf sc)"
      then have "i < length (sc_buf sc)" using 1(3) by simp
      moreover have "sc_rest sc ! i = newline" using index_byte_Some[OF 1(2)] by simp
      ultimately have "newline \<in> set (sc_buf sc)" by (metis nth_append nth_mem sc_rest_def)
      then show False using None index_byte_None[of "sc_buf sc" newline] by simp
    qed
    have "jscan mt sc = jscan mt (read_more mt sc)" using sp ne short by (subst jscan.simps) simp
    moreover have "sc_rest (read_more mt sc) = sc_rest sc" using short by simp
    moreover have "length (sc_buf (read_more mt sc)) \<le> mt" "sc_eof (read_more mt sc) \<longrightarrow> sc_chunks (read_more mt sc) = []"
      using short ne by (auto simp: read_more_def Let_def split: list.splits)
    ultimately show ?thesis using 1(1)[OF sp ne short] 1(2,3) by simp
  qed
qed

lemma jscan_unended:
  assumes "newline \<notin> set (sc_rest sc)" and "length (sc_rest sc) < mt"
  shows "\<exists>sc1. jscan mt sc = (sc1, ScannedAll)"
  using assms
proof (induction mt sc rule: jscan.induct)
  case (1 mt sc)
  have n: "index_byte (sc_buf sc) newline = None" using 1(2) index_byte_None[of "sc_buf sc" newline] by (simp add: sc_rest_def)
  show ?case
  proof (cases "sc_eof sc")
    case True
    then show ?thesis using n by (cases "sc_buf sc = []") (simp_all add: jscan.simps[of mt sc] scan_lines_preserve_endings_def)
  next
    case False
    have sp: "(if sc_buf sc \<noteq> [] \<or> sc_eof sc then scan_lines_preserve_endings (sc_buf sc) (sc_eof sc) else NeedMore) = NeedMore"
      using n False by (simp add: scan_lines_preserve_endings_def)
    have short: "\<not> mt \<le> length (sc_buf sc)" using 1(3) by (simp add: sc_rest_def)
    have "jscan mt sc = jscan mt (read_more mt sc)" using sp False short by (subst jscan.simps) simp
    then show ?thesis using 1(1)[OF sp False short] 1(2,3) short by simp
  qed
qed

lemma journal_tokens_lines:
  assumes "\<forall>l\<in>set (ended_lines (sc_rest sc)). length l \<le> mt" and "length (unended (sc_rest sc)) < mt"
    and "length (sc_buf sc) \<le> mt" and "sc_eof sc \<longrightarrow> sc_chunks sc = []"
  shows "journal_tokens mt sc = (ended_lines (sc_rest sc), False)"
  using assms
proof (induction "length (sc_rest sc)" arbitrary: sc rule: less_induct)
  case less
  show ?case
  proof (cases "index_byte (sc_rest sc) newline")
    case None
    then have "unended (sc_rest sc) = sc_rest sc" "ended_lines (sc_rest sc) = []"
      by (simp_all add: unended.simps[of "sc_rest sc"] ended_lines.simps[of "sc_rest sc"])
    moreover have "newline \<notin> set (sc_rest sc)" using None index_byte_None by blast
    ultimately show ?thesis using jscan_unended[of sc mt] less(3) by (auto simp: journal_tokens.simps[of mt sc])
  next
    case (Some i)
    have lt: "i < length (sc_rest sc)" using index_byte_Some[OF Some] by simp
    have el: "ended_lines (sc_rest sc) = take (i + 1) (sc_rest sc) # ended_lines (drop (i + 1) (sc_rest sc))"
      and un: "unended (sc_rest sc) = unended (drop (i + 1) (sc_rest sc))"
      using Some by (simp_all add: ended_lines.simps[of "sc_rest sc"] unended.simps[of "sc_rest sc"])
    have "i < mt" using less(2) lt by (simp add: el)
    from jscan_ended[OF Some this less(4,5)] obtain sc1 where sc1:
      "jscan mt sc = (sc1, ScannedLine (take (i + 1) (sc_rest sc)))" "sc_rest sc1 = drop (i + 1) (sc_rest sc)"
      "length (sc_buf sc1) \<le> mt" "sc_eof sc1 \<longrightarrow> sc_chunks sc1 = []" by blast
    have "journal_tokens mt sc1 = (ended_lines (sc_rest sc1), False)"
      using less(1)[of sc1] sc1 less(2,3) el un lt by simp
    then show ?thesis using sc1(1,2) el by (subst journal_tokens.simps) simp
  qed
qed

subsection \<open>The filters agree\<close>

text \<open>The copies of the statistics.\<close>

lemma journal_stats_same [simp]:
  "journal_position = update_position" "journal_matched = update_line_matched" "journal_transmitted = update_line_transmitted"
  "journal_not_matched = update_line_not_matched" "journal_not_transmitted = update_line_not_transmitted"
  by (intro ext; simp add: journal_position_def update_position_def journal_matched_def update_line_matched_def
      journal_transmitted_def update_line_transmitted_def journal_not_matched_def update_line_not_matched_def
      journal_not_transmitted_def update_line_not_transmitted_def)+

text \<open>
  The remembered lines carry the numbers that the other filter computes from the number of the line
  that matches.
\<close>

fun numbered :: "uint64 \<Rightarrow> gostr list \<Rightarrow> (gostr \<times> uint64) list" where
  "numbered n [] = []"
| "numbered n (l # ls) = (l, n - of_nat (length ls)) # numbered n ls"

definition core_agrees :: "'p filtering_processor \<Rightarrow> 'p journal_filter \<Rightarrow> bool" where
  "core_agrees fp f \<longleftrightarrow>
     jf_sink f = fp_processor fp \<and> jf_match f = fp_match fp \<and> jf_ltx f = fp_ltx fp \<and> jf_source f = fp_glob fp \<and>
     jf_max_count f = ltx_max_count (fp_ltx fp) \<and> line_count (jf_stats f) = line_count (fp_stats fp) \<and>
     jf_after f = after_count fp \<and> jf_max_hit f = fp_max_count fp \<and> jf_max_closed f = max_reached fp"

definition filters_agree :: "'p filtering_processor \<Rightarrow> 'p journal_filter \<Rightarrow> bool" where
  "filters_agree fp f \<longleftrightarrow>
     core_agrees fp f \<and> jf_before f = numbered (line_count (fp_stats fp)) (before_buf fp) \<and>
     (before_buf fp \<noteq> [] \<longrightarrow> after_count fp = 0 \<and> 0 < before_context (fp_ltx fp)) \<and> 0 \<le> after_count fp \<and>
     (0 < after_count fp \<longrightarrow> 0 < after_context (fp_ltx fp))"

lemma numbered_snoc: "numbered (n + 1) (ls @ [l]) = numbered n ls @ [(l, n + 1)]"
  by (induction ls) (simp_all add: algebra_simps)

lemma numbered_tl: "numbered n (tl ls) = tl (numbered n ls)"
  by (cases ls) simp_all

lemma length_numbered [simp]: "length (numbered n ls) = length ls"
  by (induction ls) simp_all

lemma core_agrees_updates [simp]:
  "line_count (u (fp_stats fp)) = line_count (fp_stats fp) \<Longrightarrow> line_count (v (jf_stats f)) = line_count (jf_stats f) \<Longrightarrow>
     core_agrees (stat u fp) (jstat v f) = core_agrees fp f"
  "core_agrees (fp\<lparr>before_buf := bs\<rparr>) f = core_agrees fp f" "core_agrees fp (f\<lparr>jf_before := cs\<rparr>) = core_agrees fp f"
  by (simp_all add: core_agrees_def jstat_def)

lemma jstat_simps [simp]:
  "jf_before (jstat v f) = jf_before f" "jf_match (jstat v f) = jf_match f" "jf_ltx (jstat v f) = jf_ltx f"
  "jf_after (jstat v f) = jf_after f" "jf_max_closed (jstat v f) = jf_max_closed f" "jf_sink (jstat v f) = jf_sink f"
  "jf_stats (jstat v f) = v (jf_stats f)" "jf_source (jstat v f) = jf_source f" "jf_max_count (jstat v f) = jf_max_count f"
  "jf_max_hit (jstat v f) = jf_max_hit f"
  by (simp_all add: jstat_def)

lemma emit_core:
  assumes "core_agrees fp f"
  shows "\<exists>p e. forward process fp l n = (fp\<lparr>fp_processor := p\<rparr>, map_option ProcessError e) \<and>
    emit process f l n = (f\<lparr>jf_sink := p\<rparr>, map_option SinkFailed e) \<and> core_agrees (fp\<lparr>fp_processor := p\<rparr>) (f\<lparr>jf_sink := p\<rparr>)"
proof -
  obtain p e where "process (fp_processor fp) l n (fp_glob fp) = (p, e)" by fastforce
  then show ?thesis using assms by (intro exI[of _ p] exI[of _ e]) (simp add: forward_def emit_def core_agrees_def)
qed

lemma emit_lines_core:
  assumes "core_agrees fp f"
  shows "\<exists>fp1 f1 e. forward_before process fp bs (n + 1) = (fp1, map_option ProcessError e) \<and>
    emit_lines process f (numbered n bs) = (f1, map_option SinkFailed e) \<and> core_agrees fp1 f1 \<and>
    before_buf fp1 = before_buf fp \<and> after_count fp1 = after_count fp \<and> fp_ltx fp1 = fp_ltx fp \<and>
    line_count (fp_stats fp1) = line_count (fp_stats fp)"
  using assms
proof (induction bs arbitrary: fp f)
  case Nil
  then show ?case by (intro exI[of _ fp] exI[of _ f] exI[of _ None]) simp
next
  case (Cons b bs)
  let ?fp = "stat update_line_transmitted fp" and ?f = "jstat update_line_transmitted f" and ?n = "n - of_nat (length bs)"
  have "core_agrees ?fp ?f" using Cons.prems by simp
  from emit_core[OF this] obtain p e where pe:
    "forward process ?fp b ?n = (?fp\<lparr>fp_processor := p\<rparr>, map_option ProcessError e)"
    "emit process ?f b ?n = (?f\<lparr>jf_sink := p\<rparr>, map_option SinkFailed e)" "core_agrees (?fp\<lparr>fp_processor := p\<rparr>) (?f\<lparr>jf_sink := p\<rparr>)" by blast
  have n: "n + 1 - of_nat (length (b # bs)) = ?n" by simp
  note unf = forward_before.simps(2) n pe(1) numbered.simps(2) emit_lines.simps(2) journal_stats_same pe(2) prod.case
  show ?case
  proof (cases e)
    case None
    from Cons.IH[OF pe(3)] obtain fp1 f1 e1 where
      "forward_before process (?fp\<lparr>fp_processor := p\<rparr>) bs (n + 1) = (fp1, map_option ProcessError e1)"
      "emit_lines process (?f\<lparr>jf_sink := p\<rparr>) (numbered n bs) = (f1, map_option SinkFailed e1)" "core_agrees fp1 f1"
      "before_buf fp1 = before_buf (?fp\<lparr>fp_processor := p\<rparr>)" "after_count fp1 = after_count (?fp\<lparr>fp_processor := p\<rparr>)"
      "fp_ltx fp1 = fp_ltx (?fp\<lparr>fp_processor := p\<rparr>)" "line_count (fp_stats fp1) = line_count (fp_stats (?fp\<lparr>fp_processor := p\<rparr>))" by blast
    then show ?thesis unfolding unf None option.map option.case by (intro exI[of _ fp1] exI[of _ f1] exI[of _ e1]) simp
  next
    case (Some x)
    then show ?thesis unfolding unf Some option.map option.case
      by (intro exI[of _ "?fp\<lparr>fp_processor := p\<rparr>"] exI[of _ "?f\<lparr>jf_sink := p\<rparr>"] exI[of _ "Some x"]) (simp add: pe(3)[simplified])
  qed
qed

text \<open>A filter that has found the last match and its context passes nothing on.\<close>

definition finished_filter :: "'p filtering_processor \<Rightarrow> bool" where
  "finished_filter fp \<longleftrightarrow> max_reached fp \<and> after_count fp = 0 \<and> ltx_has (fp_ltx fp)"

lemma finished_line:
  "finished_filter fp \<Longrightarrow> process_filtered_line process (stat update_position fp) l = (fp1, e) \<Longrightarrow>
     fp_processor fp1 = fp_processor fp \<and> (e = None \<and> finished_filter fp1 \<or> e = Some Eof)"
  by (auto simp: finished_filter_def process_filtered_line_def process_with_context_def Let_def split: if_splits)

lemma finished_lines:
  "finished_filter fp \<Longrightarrow> filter_lines process fp ls = (fp1, e) \<Longrightarrow> fp_processor fp1 = fp_processor fp \<and> (e = None \<or> e = Some Eof)"
proof (induction ls arbitrary: fp)
  case (Cons l ls)
  obtain fp0 x where l: "process_filtered_line process (stat update_position fp) l = (fp0, x)" by fastforce
  note f = finished_line[OF Cons.prems(1) l]
  show ?case using f Cons.IH[of fp0] Cons.prems(2) l by (cases x) auto
qed simp

text \<open>How the results of a line relate.\<close>

definition results_agree :: "'p filtering_processor \<times> 'e filter_error option \<Rightarrow> 'p journal_filter \<times> 'e journal_stop option \<Rightarrow> bool" where
  "results_agree r s \<longleftrightarrow>
     (case (snd r, snd s) of
        (None, None) \<Rightarrow> filters_agree (fst r) (fst s)
      | (Some (ProcessError x), Some (SinkFailed y)) \<Rightarrow> x = y \<and> jf_sink (fst s) = fp_processor (fst r)
      | (Some Eof, Some StopReading) \<Rightarrow> jf_sink (fst s) = fp_processor (fst r)
      | (None, Some StopReading) \<Rightarrow> jf_sink (fst s) = fp_processor (fst r) \<and> finished_filter (fst r)
      | _ \<Rightarrow> False)"

lemma core_agreesD:
  "core_agrees fp f \<Longrightarrow> jf_sink f = fp_processor fp \<and> jf_match f = fp_match fp \<and> jf_ltx f = fp_ltx fp \<and>
     jf_max_count f = ltx_max_count (fp_ltx fp) \<and> line_count (jf_stats f) = line_count (fp_stats fp) \<and>
     jf_after f = after_count fp \<and> jf_max_hit f = fp_max_count fp \<and> jf_max_closed f = max_reached fp"
  by (simp add: core_agrees_def)

lemma plain_line_agrees:
  assumes "filters_agree fp f" and "\<not> ltx_has (fp_ltx fp)"
  shows "results_agree (process_filtered_line process (stat update_position fp) l) (journal_process process f l)"
proof -
  let ?fp = "stat update_position fp" and ?f = "jstat update_position f"
  have ca: "core_agrees ?fp ?f" using assms(1) by (simp add: filters_agree_def core_agrees_def)
  note d = core_agreesD[OF ca]
  have b: "before_buf fp = []" using assms by (auto simp: filters_agree_def ltx_has_def split: if_splits)
  show ?thesis
  proof (cases "fp_match fp l")
    case False
    then show ?thesis using d ca b assms
      by (simp add: process_filtered_line_def journal_process_def process_without_context_def Let_def results_agree_def filters_agree_def)
  next
    case True
    let ?g = "stat update_line_transmitted (stat update_line_matched ?fp)" and ?j = "jstat update_line_transmitted (jstat update_line_matched ?f)"
    have "core_agrees ?g ?j" using ca by simp
    from emit_core[OF this, of process l "line_count (fp_stats ?fp)"] obtain p e where pe:
      "forward process ?g l (line_count (fp_stats ?fp)) = (?g\<lparr>fp_processor := p\<rparr>, map_option ProcessError e)"
      "emit process ?j l (line_count (fp_stats ?fp)) = (?j\<lparr>jf_sink := p\<rparr>, map_option SinkFailed e)"
      "core_agrees (?g\<lparr>fp_processor := p\<rparr>) (?j\<lparr>jf_sink := p\<rparr>)" by blast
    have l: "process_filtered_line process ?fp l = (?g\<lparr>fp_processor := p\<rparr>, map_option ProcessError e)"
      "journal_process process f l = (?j\<lparr>jf_sink := p\<rparr>, map_option SinkFailed e)"
      using True d pe(1,2) assms(2)
      by (simp_all add: process_filtered_line_def journal_process_def process_without_context_def Let_def)
    show ?thesis unfolding l using pe(3) b assms(1) by (cases e) (simp_all add: results_agree_def filters_agree_def)
  qed
qed

lemma missed_line_agrees:
  assumes "filters_agree fp f" and "ltx_has (fp_ltx fp)" and "\<not> fp_match fp l"
  shows "results_agree (process_filtered_line process (stat update_position fp) l) (journal_process process f l)"
proof -
  let ?fp = "stat update_line_not_matched (stat update_position fp)" and ?f = "jstat update_line_not_matched (jstat update_position f)"
  have ca: "core_agrees ?fp ?f" using assms(1) by (simp add: filters_agree_def core_agrees_def)
  note d = core_agreesD[OF ca, simplified]
  have jb: "jf_before f = numbered (line_count (fp_stats fp)) (before_buf fp)"
    and bb: "before_buf fp \<noteq> [] \<longrightarrow> after_count fp = 0 \<and> 0 < before_context (fp_ltx fp)"
    and ac: "0 \<le> after_count fp" "0 < after_count fp \<longrightarrow> 0 < after_context (fp_ltx fp)"
    using assms(1) by (simp_all add: filters_agree_def)
  have jp: "journal_process process f l = process_context_miss process (jstat update_position f) l"
    using assms d by (simp add: journal_process_def journal_with_context_def Let_def)
  have fp: "process_filtered_line process (stat update_position fp) l = process_with_context process (stat update_position fp) l (line_count (fp_stats fp) + 1)"
    using assms by (simp add: process_filtered_line_def Let_def)
  show ?thesis
  proof (cases "0 < after_count fp")
    case True
    then have b: "before_buf fp = []" using bb by auto
    let ?g = "stat update_line_transmitted (?fp\<lparr>after_count := after_count fp - 1\<rparr>)"
      and ?j = "jstat update_line_transmitted (?f\<lparr>jf_after := after_count fp - 1\<rparr>)"
    have "core_agrees ?g ?j" using ca by (simp add: core_agrees_def jstat_def)
    from emit_core[OF this, of process l "line_count (fp_stats fp) + 1"] obtain p e where pe:
      "forward process ?g l (line_count (fp_stats fp) + 1) = (?g\<lparr>fp_processor := p\<rparr>, map_option ProcessError e)"
      "emit process ?j l (line_count (fp_stats fp) + 1) = (?j\<lparr>jf_sink := p\<rparr>, map_option SinkFailed e)"
      "core_agrees (?g\<lparr>fp_processor := p\<rparr>) (?j\<lparr>jf_sink := p\<rparr>)" by blast
    have l: "process_filtered_line process (stat update_position fp) l = (?g\<lparr>fp_processor := p\<rparr>, map_option ProcessError e)"
      using fp True ac pe(1) assms(3) by (simp add: process_with_context_def Let_def)
    have j: "journal_process process f l =
        (?j\<lparr>jf_sink := p\<rparr>, case e of None \<Rightarrow> if max_reached fp \<and> after_count fp - 1 = 0 then Some StopReading else None | Some x \<Rightarrow> Some (SinkFailed x))"
      using jp True pe(2) d by (cases e) (simp_all add: process_context_miss_def Let_def jstat_def)
    show ?thesis unfolding l j using pe(3) b jb ac assms(2) True core_agreesD[OF pe(3)]
      by (cases e) (simp_all add: results_agree_def filters_agree_def finished_filter_def)
  next
    case False
    then have a0: "after_count fp = 0" using ac by simp
    let ?g = "if 0 < before_context (fp_ltx fp) then
        ?fp\<lparr>before_buf := (if before_context (fp_ltx fp) \<le> int (length (before_buf fp)) then tl (before_buf fp) else before_buf fp) @ [l]\<rparr> else ?fp"
    have l: "process_filtered_line process (stat update_position fp) l = (stat update_line_not_transmitted ?g, None)"
      using fp a0 assms(3) by (simp add: process_with_context_def Let_def)
    show ?thesis
    proof (cases "max_reached fp")
      case True
      then have j: "journal_process process f l = (?f, Some StopReading)"
        using jp d a0 by (simp add: process_context_miss_def Let_def)
      show ?thesis unfolding l j using d True a0 assms(2) by (simp add: results_agree_def finished_filter_def)
    next
      case nr: False
      let ?j = "if 0 < before_context (fp_ltx fp) then remember_before l ?f else ?f"
      have j: "journal_process process f l = (jstat update_line_not_transmitted ?j, None)"
        using jp d a0 nr by (simp add: process_context_miss_def Let_def)
      have "jf_before (jstat update_line_not_transmitted ?j) = numbered (line_count (fp_stats fp) + 1) (before_buf ?g)"
        using jb d bb by (auto simp: remember_before_def numbered_snoc numbered_tl)
      then show ?thesis unfolding l j using ca a0 bb d
        by (cases "0 < before_context (fp_ltx fp)") (simp_all add: results_agree_def filters_agree_def remember_before_def)
    qed
  qed
qed

lemma matched_line_agrees:
  assumes "filters_agree fp f" and "ltx_has (fp_ltx fp)" and "fp_match fp l"
  shows "results_agree (process_filtered_line process (stat update_position fp) l) (journal_process process f l)"
proof -
  let ?fp = "stat update_position fp" and ?f = "jstat update_line_matched (jstat update_position f)" and ?n = "line_count (fp_stats fp) + 1"
  let ?bs = "if 0 < before_context (fp_ltx fp) then before_buf fp else []"
  have ca: "core_agrees (stat update_line_matched ?fp) ?f" using assms(1) by (simp add: filters_agree_def core_agrees_def)
  note d = core_agreesD[OF ca, simplified]
  have jb: "jf_before f = numbered (line_count (fp_stats fp)) ?bs" and bs: "before_buf fp \<noteq> [] \<longrightarrow> 0 < before_context (fp_ltx fp)"
    and ac: "0 \<le> after_count fp" "0 < after_count fp \<longrightarrow> 0 < after_context (fp_ltx fp)"
    using assms(1) by (auto simp: filters_agree_def)
  have jp: "journal_process process f l = journal_with_context process (jstat update_position f) l"
    using assms d by (simp add: journal_process_def Let_def)
  show ?thesis
  proof (cases "max_reached fp")
    case True
    then show ?thesis using assms d jp
      by (simp add: process_filtered_line_def process_with_context_def journal_with_context_def Let_def results_agree_def)
  next
    case nr: False
    have m: "ltx_has (fp_ltx ?fp)" "fp_match ?fp l" "\<not> max_reached ?fp" "?bs = (if 0 < before_context (fp_ltx ?fp) then before_buf ?fp else [])"
      using assms nr by simp_all
    from emit_lines_core[OF ca, of process ?bs "line_count (fp_stats fp)"] obtain fp1 f1 e1 where e1:
      "forward_before process (stat update_line_matched ?fp) ?bs ?n = (fp1, map_option ProcessError e1)"
      "emit_lines process ?f (numbered (line_count (fp_stats fp)) ?bs) = (f1, map_option SinkFailed e1)" "core_agrees fp1 f1"
      "before_buf fp1 = before_buf (stat update_line_matched ?fp)" "after_count fp1 = after_count (stat update_line_matched ?fp)"
      "fp_ltx fp1 = fp_ltx (stat update_line_matched ?fp)" "line_count (fp_stats fp1) = line_count (fp_stats (stat update_line_matched ?fp))" by blast
    have eb: "emit_before process ?f = (f1\<lparr>jf_before := []\<rparr>, map_option SinkFailed e1)"
      using e1(2) jb by (simp add: emit_before_def)
    have nc: "\<not> jf_max_closed ?f" "jf_match (jstat update_position f) l" using d nr assms(3) by simp_all
    note pm = process_matched[OF m, of process]
    show ?thesis
    proof (cases e1)
      case (Some x)
      have "process_filtered_line process ?fp l = (fp1, Some (ProcessError x))" unfolding pm using e1(1) Some by simp
      moreover have "journal_process process f l = (f1\<lparr>jf_before := []\<rparr>, Some (SinkFailed x))"
        unfolding jp journal_with_context_def Let_def journal_stats_same using nc eb Some by simp
      ultimately show ?thesis using core_agreesD[OF e1(3)] by (simp add: results_agree_def)
    next
      case None
      define fp2 where "fp2 = (if ?bs = [] then fp1 else fp1\<lparr>before_buf := []\<rparr>)"
      have b2: "before_buf fp2 = []" using e1(4) bs by (auto simp: fp2_def)
      let ?g = "stat update_line_transmitted fp2" and ?j = "jstat update_line_transmitted (f1\<lparr>jf_before := []\<rparr>)"
      have "core_agrees ?g ?j" using e1(3) by (auto simp: fp2_def)
      from emit_core[OF this, of process l ?n] obtain p e where pe:
        "forward process ?g l ?n = (?g\<lparr>fp_processor := p\<rparr>, map_option ProcessError e)"
        "emit process ?j l ?n = (?j\<lparr>jf_sink := p\<rparr>, map_option SinkFailed e)" "core_agrees (?g\<lparr>fp_processor := p\<rparr>) (?j\<lparr>jf_sink := p\<rparr>)" by blast
      have lc: "line_count (jf_stats (f1\<lparr>jf_before := []\<rparr>)) = ?n" using core_agreesD[OF e1(3)] e1(7) by simp
      have l: "process_filtered_line process ?fp l =
          (case map_option ProcessError e of Some x \<Rightarrow> (?g\<lparr>fp_processor := p\<rparr>, Some x) | None \<Rightarrow> after_match (?g\<lparr>fp_processor := p\<rparr>))"
        unfolding pm using e1(1) None pe(1) by (simp add: fp2_def split: option.splits)
      let ?F = "?j\<lparr>jf_sink := p\<rparr>" and ?G = "?g\<lparr>fp_processor := p\<rparr>"
      have j: "journal_process process f l =
          (case map_option SinkFailed e of Some x \<Rightarrow> (?F, Some x)
           | None \<Rightarrow>
              (let f4 = (if 0 < jf_max_count ?F then ?F\<lparr>jf_max_hit := jf_max_hit ?F + 1\<rparr> else ?F);
                   full = (0 < jf_max_count ?F \<and> jf_max_count ?F \<le> jf_max_hit f4);
                   after = after_context (jf_ltx f4) in
               if full \<and> after = 0 then (f4, Some StopReading)
               else
                 let f5 = (if full then f4\<lparr>jf_max_closed := True\<rparr> else f4) in
                 (if 0 < after then f5\<lparr>jf_after := after\<rparr> else f5, None)))"
        unfolding jp journal_with_context_def Let_def journal_stats_same using nc eb None pe(2) lc
        by (cases e) (simp_all add: Let_def)
      show ?thesis
      proof (cases e)
        case (Some x)
        then show ?thesis unfolding l j using core_agreesD[OF pe(3)] by (simp add: results_agree_def)
      next
        case None
        then show ?thesis unfolding l j after_match_def Let_def using pe(3) b2 e1(5,6) ac
          by (auto simp: results_agree_def filters_agree_def core_agrees_def fp2_def)
      qed
    qed
  qed
qed

lemma line_agrees:
  "filters_agree fp f \<Longrightarrow> results_agree (process_filtered_line process (stat update_position fp) l) (journal_process process f l)"
  using plain_line_agrees missed_line_agrees matched_line_agrees by metis

lemma lines_agree:
  assumes "filters_agree fp f" and "filter_lines process fp ls = (fp1, e1)" and "journal_lines process f ls = (f1, e2)"
  shows "jf_sink f1 = fp_processor fp1 \<and> (\<forall>x. e1 = Some (ProcessError x) \<longleftrightarrow> e2 = Some (SinkFailed x))"
  using assms
proof (induction ls arbitrary: fp f)
  case Nil
  then show ?case by (auto simp: filters_agree_def core_agrees_def)
next
  case (Cons l ls)
  obtain g x h y where g: "process_filtered_line process (stat update_position fp) l = (g, x)" "journal_process process f l = (h, y)"
    by (metis prod.collapse)
  have r: "results_agree (g, x) (h, y)" using line_agrees[OF Cons.prems(1), of process l] g by simp
  show ?case
  proof (cases y)
    case None
    then have "x = None" "filters_agree g h" using r by (simp_all add: results_agree_def split: option.splits filter_error.splits)
    then show ?thesis using Cons.IH[of g h] Cons.prems(2,3) g None by simp
  next
    case (Some s)
    then have j: "f1 = h" "e2 = Some s" using Cons.prems(3) g by simp_all
    show ?thesis
    proof (cases x)
      case None
      then have "s = StopReading" "jf_sink h = fp_processor g" "finished_filter g" "filter_lines process g ls = (fp1, e1)"
        using r Some Cons.prems(2) g by (simp_all add: results_agree_def split: journal_stop.splits)
      then show ?thesis using j finished_lines[of g process ls fp1 e1] by auto
    next
      case (Some z)
      then have "fp1 = g" "e1 = Some z" using Cons.prems(2) g by simp_all
      then show ?thesis using r j Some \<open>y = Some s\<close>
        by (cases z; cases s) (simp_all add: results_agree_def)
    qed
  qed
qed

lemma new_filters_agree: "filters_agree (new_filter p m ltx new_stats src) (new_journal_filter ltx p m src)"
  by (simp add: filters_agree_def core_agrees_def new_filter_def new_journal_filter_def)

lemma scan_stdout_lines:
  assumes "\<forall>i. \<not> over i"
  shows "\<exists>e2. journal_lines process f ls = (fst (scan_stdout process None over i ls False f), e2) \<and>
    snd (scan_stdout process None over i ls False f) = map_option JournalStopped e2"
  using assms
proof (induction ls arbitrary: f i)
  case (Cons l ls)
  obtain g x where "journal_process process f l = (g, x)" by fastforce
  then show ?case using Cons.IH[of g "Suc i"] Cons.prems by (cases x) auto
qed simp

subsection \<open>Properties\<close>

text \<open>
  C25: The journal is filtered as files are: a snapshot of the journal puts into the processor exactly
  what the filter of files puts into it for the lines of the same text, with context, limit and
  numbers, and fails on the same error of the processor, however the reads divide the text. Only a
  last line without its newline is left out.
\<close>

theorem journal_selects_like_files:
  assumes "ju_start_error u = None" and "\<forall>i. \<not> ju_over u i"
    and "\<forall>l\<in>set (ended_lines (concat (ju_chunks u))). length l \<le> max_scanner_token_size"
    and "length (unended (concat (ju_chunks u))) < max_scanner_token_size"
    and "filter_lines process (new_filter p m ltx new_stats (jr_source r)) (ended_lines (concat (ju_chunks u))) = (fp, e)"
  shows "\<exists>r1 e2. run_journal u process None ltx m r p = (r1, fp_processor fp, e2) \<and>
    (\<not> ju_over_at_end u \<longrightarrow> (\<forall>x. e = Some (ProcessError x) \<longleftrightarrow> e2 = Some (JournalStopped (SinkFailed x))))"
proof -
  let ?ls = "ended_lines (concat (ju_chunks u))" and ?f = "new_journal_filter ltx p m (jr_source r)"
  have "sc_rest (new_scanner (ju_chunks u)) = concat (ju_chunks u)" by (simp add: sc_rest_def new_scanner_def)
  then have t: "journal_tokens max_scanner_token_size (new_scanner (ju_chunks u)) = (?ls, False)"
    using journal_tokens_lines[of "new_scanner (ju_chunks u)" max_scanner_token_size] assms(3,4) by (simp add: new_scanner_def)
  obtain f1 x where s: "scan_stdout process None (ju_over u) 0 ?ls False ?f = (f1, x)" by fastforce
  obtain e2 where e2: "journal_lines process ?f ?ls = (f1, e2)" "x = map_option JournalStopped e2"
    using scan_stdout_lines[of "ju_over u" process ?f ?ls 0] assms(2) s by auto
  have a: "jf_sink f1 = fp_processor fp" "\<forall>x. e = Some (ProcessError x) \<longleftrightarrow> e2 = Some (SinkFailed x)"
    using lines_agree[OF new_filters_agree assms(5) e2(1)] by simp_all
  have "run_journal u process None ltx m r p = (forward_stderr (ju_taken u) (ju_stderr u) r, fp_processor fp, journal_run_result u x)"
    using assms(1) t s a(1) by (simp add: run_journal_def)
  moreover have "\<forall>y. e = Some (ProcessError y) \<longleftrightarrow> journal_run_result u x = Some (JournalStopped (SinkFailed y))" if "\<not> ju_over_at_end u"
    using that a(2) e2(2) by (cases e2) (auto simp: journal_run_result_def)
  ultimately show ?thesis by blast
qed

definition sample_journal :: journal_run where
  "sample_journal =
     \<lparr>ju_start_error = None, ju_chunks = [''on'', ''e'' @ [newline] @ ''tw'', ''o'' @ [newline] @ ''rest''], ju_over = (\<lambda>i. False),
      ju_stderr = [], ju_taken = 0, ju_stderr_error = None, ju_wait_error = None, ju_over_at_end = False\<rparr>"

lemma journal_selects_like_files_witness:
  "\<exists>r1 e2. run_journal sample_journal collect None (context_of 0 1) (\<lambda>l. l = ''two'' @ [newline])
     \<lparr>jr_path = ''j'', jr_args = [], jr_source = ''s'', jr_messages = None, jr_follow = False\<rparr> [] =
   (r1, [(''one'' @ [newline], 1, ''s''), (''two'' @ [newline], 2, ''s'')], e2)"
proof -
  let ?r = "\<lparr>jr_path = ''j'', jr_args = [], jr_source = ''s'', jr_messages = None, jr_follow = False\<rparr>"
  let ?f = "new_filter [] (\<lambda>l. l = ''two'' @ [newline]) (context_of 0 1) new_stats ''s'' :: line_event list filtering_processor"
  have c: "concat (ju_chunks sample_journal) = ''one'' @ [newline] @ ''two'' @ [newline] @ ''rest''" by (simp add: sample_journal_def)
  have el: "ended_lines (''one'' @ [newline] @ ''two'' @ [newline] @ ''rest'') = [''one'' @ [newline], ''two'' @ [newline]]"
    "unended (''one'' @ [newline] @ ''two'' @ [newline] @ ''rest'') = ''rest''" by code_simp+
  obtain fp e where f: "filter_lines collect ?f [''one'' @ [newline], ''two'' @ [newline]] = (fp, e)" by fastforce
  have "fp_processor (fst (filter_lines collect ?f [''one'' @ [newline], ''two'' @ [newline]])) =
      [(''one'' @ [newline], 1, ''s''), (''two'' @ [newline], 2, ''s'')]" by code_simp
  then have p: "fp_processor fp = [(''one'' @ [newline], 1, ''s''), (''two'' @ [newline], 2, ''s'')]" using f by simp
  show ?thesis
    using journal_selects_like_files[of sample_journal collect "[]" "\<lambda>l. l = ''two'' @ [newline]" "context_of 0 1" ?r fp e] f p
    unfolding c el by (auto simp: sample_journal_def max_scanner_token_size_def)
qed

end
