(* ===== verification/Delivery.thy ===== *)
theory Delivery
  imports Read_Command Client_Handler
begin

text \<open>
  The way of the lines of a file to the screen of the client, through the reader, the filter, the writer,
  the output manager and the handler of the server, and the handler of the client.
\<close>

subsection \<open>Frames in the stream of bytes\<close>

text \<open>Bytes that are whole messages, each with its delimiter, leave nothing begun in the client.\<close>

definition message_stream :: "gostr list \<Rightarrow> gostr" where
  "message_stream ms = concat (map (\<lambda>m. m @ [message_delimiter]) ms)"

lemma message_stream_simps [simp]:
  "message_stream [] = []" "message_stream (m # ms) = m @ message_delimiter # message_stream ms"
  "message_stream (ms @ ns) = message_stream ms @ message_stream ns"
  by (simp_all add: message_stream_def)

lemma client_reads_stream:
  assumes "concat bss = message_stream ms" and "\<forall>m\<in>set ms. message_delimiter \<notin> set m" and "ch_receive_buf c = []"
  shows "foldl (\<lambda>c p. client_write env p c) c bss = foldl (\<lambda>c m. handle_message env m c) c ms"
  using messages_received[OF assms(1)[unfolded message_stream_def] assms(2,3)] .

text \<open>The lines of a file that a client sees: with the header of a remote line.\<close>

definition remote_line :: "gostr \<Rightarrow> line_event \<Rightarrow> gostr" where
  "remote_line host ev = (case ev of (l, n, src) \<Rightarrow> format_remote_header host default_transmitted_perc n src @ l)"

lemma delimited_remote:
  "\<not> lw_plain w \<Longrightarrow> \<not> lw_serverless w \<Longrightarrow>
     concat (map (\<lambda>(l, n, s). delimited_line w l n s) evs) = message_stream (map (remote_line (lw_hostname w)) evs)"
  by (induction evs) (auto simp: delimited_line_def format_remote_line_def remote_line_def)

lemma remote_line_head: "\<exists>rest. remote_line host ev = ''REMOTE'' @ rest"
  by (cases ev) (auto simp: remote_line_def format_remote_header_def)

text \<open>
  A line is printed unless it looks like an answer to an authentication key: the client looks at the last
  field of every message, which for a line of a log is its text after the last bar.
\<close>

definition like_key_answer :: "gostr \<Rightarrow> bool" where
  "like_key_answer m \<longleftrightarrow> parse_auth_key_message m \<noteq> None"

lemma remote_line_printed:
  assumes "\<not> like_key_answer (remote_line host ev)"
  shows "handle_message env (remote_line host ev) c = event (Printed (with_newline (remote_line host ev))) c"
proof -
  obtain rest where r: "remote_line host ev = ''REMOTE'' @ rest" using remote_line_head by blast
  show ?thesis using assms unfolding r by (simp add: handle_message_def handle_auth_key_message_def like_key_answer_def)
qed

lemma log_line_swallowed:
  "handle_message env (remote_line ''h'' (''AUTHKEY OK'', 7, ''f'')) c = event AuthKeyAccepted c"
proof -
  have "parse_auth_key_message (remote_line ''h'' (''AUTHKEY OK'', 7, ''f'')) = Some KeyAccepted" by code_simp
  moreover have "hd (remote_line ''h'' (''AUTHKEY OK'', 7, ''f'')) = CHR ''R''"
    by (simp add: remote_line_def format_remote_header_def)
  ultimately show ?thesis by (simp add: handle_message_def handle_auth_key_message_def)
qed

lemma remote_lines_printed:
  assumes "\<forall>ev\<in>set evs. \<not> like_key_answer (remote_line host ev)"
  shows "foldl (\<lambda>c m. handle_message env m c) c (map (remote_line host) evs) =
    c\<lparr>ch_events := ch_events c @ map (\<lambda>ev. Printed (with_newline (remote_line host ev))) evs\<rparr>"
  using assms
proof (induction evs arbitrary: c)
  case (Cons ev evs)
  then show ?case by (simp add: remote_line_printed event_def)
qed simp

subsection \<open>A file is written\<close>

lemma writer_flush_sends:
  assumes "writer_open active p"
  shows "\<exists>p1. writer_flush (\<lambda>bs. True) p = (p1, None) \<and> writer_open active p1 \<and> writer_view p1 = writer_view p \<and> lw_buf (dp_writer p1) = []"
  using dp_flush_sends[OF assms] by (auto simp: writer_flush_def)

text \<open>A source that is read once, and the part of the environment that reading it takes.\<close>

definition plain_source :: "unit file_system \<Rightarrow> unit environment \<Rightarrow> (gostr \<Rightarrow> gostr list) \<Rightarrow> file_reader \<Rightarrow> gostr \<Rightarrow> bool" where
  "plain_source fs en chunks f bytes \<longleftrightarrow>
     make_reader fs f = Inr bytes \<and> \<not> seek_eof (fr_file f) \<and> concat (chunks bytes) = bytes \<and> (\<forall>i. en i = (True, Quiet)) \<and>
     line_limit (fr_file f) \<le> max_token_size \<and>
     (\<forall>l\<in>set (Line_Reader.pieces (line_limit (fr_file f)) bytes). length l \<le> line_limit (fr_file f))"

text \<open>The lines that are selected from it, with their numbers.\<close>

definition selected_lines :: "(gostr \<Rightarrow> bool) \<Rightarrow> nat \<Rightarrow> nat \<Rightarrow> file_reader \<Rightarrow> gostr \<Rightarrow> line_event list" where
  "selected_lines M A B f bytes =
     (let ls = Line_Reader.pieces (line_limit (fr_file f)) bytes in
      map (event_of (line_count (fr_stats f)) (fr_glob_id f) ls) (filter (selected (hits M ls) A B) [0..<length ls]))"

lemma source_processed:
  assumes "plain_source fs en chunks f bytes" and "writer_open active p"
  shows "\<exists>f1 p1. read_via_processor fs en chunks None [] (writer_process (\<lambda>bs. True) active) (writer_flush (\<lambda>bs. True)) M (context_of A B) f p =
      (f1, p1, None) \<and> writer_open active p1 \<and> lw_buf (dp_writer p1) = [] \<and>
    writer_view p1 = writer_lines.observe_all (writer_view p) (selected_lines M A B f bytes)"
proof -
  let ?ls = "Line_Reader.pieces (line_limit (fr_file f)) bytes" and ?P = "writer_process (\<lambda>bs. True) active"
  let ?fp = "new_filter p M (context_of A B) (fr_stats f) (fr_glob_id f)"
  have src: "make_reader fs f = Inr bytes" "\<not> seek_eof (fr_file f)" "concat (chunks bytes) = bytes" "\<forall>i. en i = (True, Quiet)"
    "line_limit (fr_file f) \<le> max_token_size" "\<forall>l\<in>set ?ls. length l \<le> line_limit (fr_file f)"
    using assms(1) by (simp_all add: plain_source_def)
  obtain fp1 where fp1: "filter_lines ?P ?fp ?ls = (fp1, None)" "writer_open active (fp_processor fp1)"
    "writer_view (fp_processor fp1) = writer_lines.observe_all (writer_view p) (selected_lines M A B f bytes)"
    using writer_takes.selection_seen[OF assms(2), of M A B "fr_stats f" "fr_glob_id f" ?ls] by (auto simp: selected_lines_def Let_def)
  have rest: "sc_rest (new_scanner (chunks bytes)) = bytes" using src(3) by (simp add: sc_rest_def new_scanner_def)
  have rl: "snd (read_lines max_token_size en 0 ?P None (fr_file f) (new_scanner (chunks bytes)) ?fp) = (fp1, None)"
    using read_lines_pieces[OF src(4) new_scanner_ok src(5), of "chunks bytes" 0 ?P None ?fp] src(6) fp1(1) rest
    by (simp add: read_outcome_def)
  obtain rf where rl2: "read_lines max_token_size en 0 ?P None (fr_file f) (new_scanner (chunks bytes)) ?fp = (rf, fp1, None)"
    using rl by (metis prod.collapse)
  obtain p1 where p1: "writer_flush (\<lambda>bs. True) (fp_processor fp1) = (p1, None)" "writer_open active p1"
    "writer_view p1 = writer_view (fp_processor fp1)" "lw_buf (dp_writer p1) = []" using writer_flush_sends[OF fp1(2)] by blast
  obtain p2 where p2: "writer_flush (\<lambda>bs. True) p1 = (p2, None)" "writer_open active p2" "writer_view p2 = writer_view p1"
    using writer_flush_sends[OF p1(2)] by blast
  obtain p3 where p3: "writer_flush (\<lambda>bs. True) p2 = (p3, None)" "writer_open active p3" "writer_view p3 = writer_view p2" "lw_buf (dp_writer p3) = []"
    using writer_flush_sends[OF p2(2)] by blast
  show ?thesis
    using src(1,2) rl2 p1 p2 p3 fp1(3)
    by (simp add: read_via_processor_def start_with_processor_def start_read_def Let_def)
qed

lemma enable_keeps_output:
  assumes "om_mode t \<longrightarrow> om_lines t \<noteq> None"
  shows "om_lines (fst (enable t)) = Some (queued t) \<and> om_buffer (fst (enable t)) = om_buffer t \<and> om_mode (fst (enable t))"
  using assms by (auto simp: enable_def Let_def reset_eof_handshake_def signal_eof_ack_def queued_def split: option.splits)

lemma file_written:
  assumes "plain_source fs en chunks f bytes" and "should_write_generation g active" and "\<not> h_plain h" and "\<not> h_serverless h"
    and "om_mode t \<longrightarrow> om_lines t \<noteq> None"
  shows "\<exists>h1 t1 parts. read_into_output fs en chunks None (\<lambda>bs. True) active g M (context_of A B) f (h, t) = (h1, t1) \<and>
    om_lines t1 = Some (queued t @ map (encode_generated g) parts) \<and>
    concat parts = message_stream (map (remote_line (h_hostname h)) (selected_lines M A B f bytes)) \<and>
    (\<forall>part\<in>set parts. part \<noteq> [] \<and> (\<exists>evs. part = message_stream (map (remote_line (h_hostname h)) evs))) \<and>
    om_buffer t1 = om_buffer t \<and> om_mode t1 \<and> (h1 = h \<or> h1 = send_read_message True g ''.output wake'' h)"
proof -
  obtain h1 t1 where e: "ensure_output_enabled True g (h, t) = (h1, t1)" by fastforce
  have t1: "om_lines t1 = Some (queued t)" "om_buffer t1 = om_buffer t" "om_mode t1"
    and h1: "h1 = h \<or> h1 = send_read_message True g ''.output wake'' h"
    using e enable_keeps_output[OF assms(5)] by (auto simp: ensure_output_enabled_def split: prod.splits bool.splits)
  have hs: "h_hostname h1 = h_hostname h" "h_plain h1 = h_plain h" "h_serverless h1 = h_serverless h"
    using h1 by (auto simp: send_read_message_def)
  let ?w = "make_writer g h1"
  let ?p = "new_direct_processor ?w []"
  have w: "lw_generation ?w = g" "\<not> lw_plain ?w" "\<not> lw_serverless ?w" "lw_hostname ?w = h_hostname h" "\<not> lw_sending ?w" "lw_buf ?w = []"
    using assms(3,4) hs by (simp_all add: make_writer_def new_line_writer_def)
  have o: "writer_open active ?p" using w assms(2) by (simp add: writer_open_def Let_def new_direct_processor_def whole_lines_def exI[of _ "[]"])
  have v0: "writer_view ?p = ?w" using w by (cases ?w) (simp add: writer_view_def new_direct_processor_def)
  obtain f1 p1 where p1: "read_via_processor fs en chunks None [] (writer_process (\<lambda>bs. True) active) (writer_flush (\<lambda>bs. True)) M (context_of A B) f ?p =
      (f1, p1, None)" "writer_open active p1" "lw_buf (dp_writer p1) = []"
    "writer_view p1 = writer_lines.observe_all (writer_view ?p) (selected_lines M A B f bytes)"
    using source_processed[OF assms(1) o, of M A B] by blast
  have v1: "writer_view p1 = ?w\<lparr>lw_buf := concat (map (\<lambda>(l, n, s). delimited_line ?w l n s) (selected_lines M A B f bytes)),
      lw_lines_written := lw_lines_written ?w + of_nat (length (selected_lines M A B f bytes)),
      lw_bytes_written := lw_bytes_written ?w + of_nat (length (concat (map (\<lambda>(l, n, s). delimited_line ?w l n s) (selected_lines M A B f bytes))))\<rparr>"
    using p1(4) w(6) unfolding v0 by (simp add: observe_lines)
  have "lw_generation (writer_view p1) = lw_generation (dp_writer p1)" "lw_plain (writer_view p1) = lw_plain (dp_writer p1)"
    "lw_serverless (writer_view p1) = lw_serverless (dp_writer p1)" "lw_hostname (writer_view p1) = lw_hostname (dp_writer p1)"
    by (simp_all add: writer_view_def Let_def)
  then have st: "lw_generation (dp_writer p1) = g" "\<not> lw_plain (dp_writer p1)" "\<not> lw_serverless (dp_writer p1)" "lw_hostname (dp_writer p1) = h_hostname h"
    using v1 w by simp_all
  obtain parts where parts: "dp_queue p1 = map (encode_generated g) parts" "concat parts = lw_buf (writer_view p1)"
    "\<forall>part\<in>set parts. part \<noteq> [] \<and> whole_lines (dp_writer p1) part"
    using flushed_payloads[OF p1(2,3)] st(1) by auto
  have "\<forall>part\<in>set parts. part \<noteq> [] \<and> (\<exists>evs. part = message_stream (map (remote_line (h_hostname h)) evs))"
    using parts(3) delimited_remote[OF st(2,3)] st(4) unfolding whole_lines_def by metis
  moreover have "concat parts = message_stream (map (remote_line (h_hostname h)) (selected_lines M A B f bytes))"
    using parts(2) v1 delimited_remote[OF w(2,3)] w(4) by simp
  moreover have "read_into_output fs en chunks None (\<lambda>bs. True) active g M (context_of A B) f (h, t) =
      (h1, t1\<lparr>om_lines := Some (queued t @ map (encode_generated g) parts)\<rparr>)"
    using e p1(1) parts(1) t1(1) by (simp add: read_into_output_def)
  ultimately show ?thesis using t1(2,3) h1 by (intro exI[of _ h1] exI[of _ "t1\<lparr>om_lines := Some (queued t @ map (encode_generated g) parts)\<rparr>"] exI[of _ parts]) simp
qed

subsection \<open>The client sees the lines\<close>

definition clean_messages :: "gostr list \<Rightarrow> bool" where
  "clean_messages ms \<longleftrightarrow> (\<forall>m\<in>set ms. message_delimiter \<notin> set m)"

lemma clean_messages_simps [simp]:
  "clean_messages []" "clean_messages (m # ms) \<longleftrightarrow> message_delimiter \<notin> set m \<and> clean_messages ms"
  "clean_messages (ms @ ns) \<longleftrightarrow> clean_messages ms \<and> clean_messages ns"
  by (auto simp: clean_messages_def)

lemma clean_stream: "\<exists>ms. clean_messages ms \<and> bs @ [message_delimiter] = message_stream ms"
proof (induction bs)
  case Nil
  then show ?case by (intro exI[of _ "[[]]"]) simp
next
  case (Cons b bs)
  then obtain ms where ms: "clean_messages ms" "bs @ [message_delimiter] = message_stream ms" by blast
  show ?case
  proof (cases "b = message_delimiter")
    case True
    then show ?thesis using ms by (intro exI[of _ "[] # ms"]) simp
  next
    case False
    from ms obtain m ns where "ms = m # ns" by (cases ms) auto
    then show ?thesis using ms False by (intro exI[of _ "(b # m) # ns"]) simp
  qed
qed

lemma stream_recut: "\<exists>ns. clean_messages ns \<and> message_stream ms = message_stream ns"
proof (cases ms rule: rev_cases)
  case (snoc ns m)
  then show ?thesis using clean_stream[of "message_stream ns @ m"] by simp
qed (auto intro: exI[of _ "[]"])

lemma stream_inj:
  assumes "clean_messages ms" and "clean_messages ns" and "message_stream ms = message_stream ns"
  shows "ms = ns"
  using assms
proof (induction ms arbitrary: ns)
  case Nil
  then show ?case by (cases ns) auto
next
  case (Cons m ms)
  then obtain n ns' where n: "ns = n # ns'" by (cases ns) auto
  then have "m = n \<and> message_stream ms = message_stream ns'"
    using Cons.prems by (auto simp: append_eq_append_conv2 append_eq_Cons_conv Cons_eq_append_conv)
  then show ?case using Cons n by auto
qed

lemma stream_parts:
  assumes "\<forall>part\<in>set parts. \<exists>ms. part = message_stream ms" and "concat parts = message_stream ms" and "clean_messages ms"
  shows "\<exists>mss. parts = map message_stream mss \<and> concat mss = ms"
proof -
  have "\<exists>mss. parts = map message_stream mss \<and> (\<forall>ns\<in>set mss. clean_messages ns)"
    using assms(1)
  proof (induction parts)
    case (Cons part parts)
    then obtain ns mss where "clean_messages ns" "part = message_stream ns" "parts = map message_stream mss" "\<forall>ns\<in>set mss. clean_messages ns"
      using stream_recut by (metis list.set_intros)
    then show ?case by (intro exI[of _ "ns # mss"]) simp
  qed simp
  then obtain mss where mss: "parts = map message_stream mss" "\<forall>ns\<in>set mss. clean_messages ns" by blast
  have "message_stream (concat mss) = concat (map message_stream mss)" by (induction mss) simp_all
  moreover have "clean_messages (concat mss)" using mss(2) by (induction mss) simp_all
  ultimately show ?thesis using stream_inj[of "concat mss" ms] mss(1) assms(2,3) by auto
qed

text \<open>The payload of an active generation comes out as it went in.\<close>

lemma payload_kept:
  assumes "should_write_generation g active" and "g = 0 \<longrightarrow> bs = [] \<or> hd bs = CHR ''R''"
  shows "kept (encode_generated g bs, active) = bs"
proof -
  have "decode_generated_bytes (encode_generated g bs) = (g, bs)"
  proof (cases "g = 0")
    case True
    then have "\<not> has_prefix bs generation_output_prefix"
      using assms(2) by (cases bs) (auto simp: has_prefix_def generation_output_prefix_def generation_mark_def)
    then show ?thesis using True by (simp add: decode_generated_bytes_def decode_generated_message_def encode_generated_def)
  next
    case False
    then show ?thesis by (simp add: decode_generated_bytes_def decode_generated_encoded)
  qed
  then show ?thesis using assms(1)
    by (auto simp: kept_def should_drop_generation_def should_write_generation_def split: option.splits if_splits)
qed

definition wake_message :: gostr where
  "wake_message = ''.output wake'' @ [CHR 0x0A]"

lemma wake_frame:
  assumes "should_write_generation g active"
  shows "server_frame active (encode_generated g wake_message) h = Some (wake_message @ [message_delimiter])"
proof -
  have "decode_generated_message (encode_generated g wake_message) = (g, wake_message)"
  proof (cases "g = 0")
    case True
    then show ?thesis
      by (simp add: wake_message_def decode_generated_message_def encode_generated_def has_prefix_def generation_output_prefix_def generation_mark_def)
  qed (simp add: decode_generated_encoded)
  moreover have "\<not> should_drop_generation active g" using assms
    by (auto simp: should_drop_generation_def should_write_generation_def split: option.splits if_splits)
  ultimately show ?thesis by (simp add: server_frame_def wake_message_def)
qed

lemma wake_ignored: "handle_message env wake_message c = c"
  by (simp add: handle_message_def handle_hidden_message_def wake_message_def has_prefix_def hidden_capabilities_prefix_def
      hidden_session_start_ok_prefix_def hidden_session_update_ok_prefix_def hidden_session_error_prefix_def)

text \<open>A message that the client prints whatever its state.\<close>

definition printed_message :: "client_env \<Rightarrow> gostr \<Rightarrow> bool" where
  "printed_message env m \<longleftrightarrow> (\<forall>c :: client_handler. handle_message env m c = event (Printed (with_newline m)) c)"

lemma payload_item [simp]: "payload_items [(a, PayloadItem p)] = [p]" "server_items [(a, PayloadItem p)] = []"
    "mapr_items [(a, PayloadItem p)] = []" "line_items [(a, PayloadItem p)] = []"
  using items_payloads[of a "[p]"] by simp_all

lemma items_delivered:
  assumes "fst ` set xs \<subseteq> {active}" and "should_write_generation g active"
    and "mapr_items xs = []" and "line_items xs = []" and "set (server_items xs) \<subseteq> {encode_generated g wake_message}"
    and "payload_items xs = map (encode_generated g) (map message_stream mss)"
    and "\<forall>ms\<in>set mss. kept (encode_generated g (message_stream ms), active) = message_stream ms"
    and "\<forall>m\<in>set (concat mss). message_delimiter \<notin> set m \<and> printed_message env m"
  shows "\<exists>ms. clean_messages ms \<and> concat (map (item_bytes h) xs) = message_stream ms \<and>
    (\<forall>c :: client_handler. foldl (\<lambda>c m. handle_message env m c) c ms =
       c\<lparr>ch_events := ch_events c @ map (\<lambda>m. Printed (with_newline m)) (concat mss)\<rparr>)"
  using assms
proof (induction xs arbitrary: mss)
  case Nil
  then show ?case by (intro exI[of _ "[]"]) auto
next
  case (Cons x xs)
  obtain i where x: "x = (active, i)" using Cons.prems(1) by (cases x) auto
  have split: "mapr_items (x # xs) = mapr_items [x] @ mapr_items xs" "line_items (x # xs) = line_items [x] @ line_items xs"
    "server_items (x # xs) = server_items [x] @ server_items xs" "payload_items (x # xs) = payload_items [x] @ payload_items xs"
    using items_append[of "[x]" xs] by simp_all
  show ?case
  proof (cases i)
    case (ServerItem m)
    then have m: "m = encode_generated g wake_message" using Cons.prems(5) split x by simp
    have prems: "fst ` set xs \<subseteq> {active}" "mapr_items xs = []" "line_items xs = []" "set (server_items xs) \<subseteq> {encode_generated g wake_message}"
      "payload_items xs = map (encode_generated g) (map message_stream mss)"
      using Cons.prems split x ServerItem by simp_all
    from Cons.IH[OF prems(1) Cons.prems(2) prems(2-5) Cons.prems(7,8)] obtain ms where ms: "clean_messages ms"
      "concat (map (item_bytes h) xs) = message_stream ms" "\<forall>c :: client_handler. foldl (\<lambda>c m. handle_message env m c) c ms =
       c\<lparr>ch_events := ch_events c @ map (\<lambda>m. Printed (with_newline m)) (concat mss)\<rparr>" by blast
    have b: "item_bytes h x = wake_message @ [message_delimiter]"
      using x ServerItem m wake_frame[OF Cons.prems(2), of h] by (simp add: item_bytes_def frame_bytes_def)
    have "message_delimiter \<notin> set wake_message" by (simp add: wake_message_def message_delimiter_def)
    then show ?thesis using ms b by (intro exI[of _ "wake_message # ms"]) (simp add: wake_ignored)
  next
    case (PayloadItem p)
    then obtain ms0 mss0 where m: "mss = ms0 # mss0" "p = encode_generated g (message_stream ms0)"
        "payload_items xs = map (encode_generated g) (map message_stream mss0)"
      using Cons.prems(6) split x by (cases mss) auto
    have prems: "fst ` set xs \<subseteq> {active}" "mapr_items xs = []" "line_items xs = []" "set (server_items xs) \<subseteq> {encode_generated g wake_message}"
      "\<forall>ms\<in>set mss0. kept (encode_generated g (message_stream ms), active) = message_stream ms"
      "\<forall>m\<in>set (concat mss0). message_delimiter \<notin> set m \<and> printed_message env m"
      using Cons.prems split x PayloadItem m(1) by simp_all
    from Cons.IH[OF prems(1) Cons.prems(2) prems(2-4) m(3) prems(5,6)] obtain ms where ms: "clean_messages ms"
      "concat (map (item_bytes h) xs) = message_stream ms" "\<forall>c :: client_handler. foldl (\<lambda>c m. handle_message env m c) c ms =
       c\<lparr>ch_events := ch_events c @ map (\<lambda>m. Printed (with_newline m)) (concat mss0)\<rparr>" by blast
    have b: "item_bytes h x = message_stream ms0" using x PayloadItem m(1,2) Cons.prems(7) by (simp add: item_bytes_def)
    have "clean_messages ms0" "\<forall>m\<in>set ms0. printed_message env m" using Cons.prems(8) m(1) by (simp_all add: clean_messages_def)
    moreover have "foldl (\<lambda>c m. handle_message env m c) c ms0 = c\<lparr>ch_events := ch_events c @ map (\<lambda>m. Printed (with_newline m)) ms0\<rparr>"
      if "\<forall>m\<in>set ms0. printed_message env m" for c :: client_handler
      using that by (induction ms0 arbitrary: c) (simp_all add: printed_message_def event_def)
    ultimately show ?thesis using ms b m(1) by (intro exI[of _ "ms0 @ ms"]) simp
  qed (use Cons.prems(3,4) split x in simp_all)
qed

text \<open>Reads that nothing comes in between, while one generation is active, and what they leave when all is sent.\<close>

definition no_arrivals :: arrivals where
  "no_arrivals = \<lparr>ar_server = [], ar_mapr = [], ar_lines = [], ar_payloads = []\<rparr>"

definition quiet_reads :: "uint64 option \<Rightarrow> (arrivals \<times> nat \<times> read_round list) list \<Rightarrow> bool" where
  "quiet_reads active steps \<longleftrightarrow> (\<forall>(a, n, rs)\<in>set steps. a = no_arrivals \<and> (\<forall>r\<in>set rs. quiet_round r \<and> rr_active r = active))"

definition drained :: "server_handler \<times> output_manager \<Rightarrow> bool" where
  "drained s \<longleftrightarrow> h_read_buf (fst s) = [] \<and> om_buffer (snd s) = [] \<and> h_server_messages (fst s) = [] \<and> queued (snd s) = []"

lemma arrive_none [simp]: "arrive no_arrivals (h, t) = (h, t)"
  by (cases "om_lines t") (simp_all add: arrive_def no_arrivals_def)

definition plain_round :: "uint64 option \<Rightarrow> ready \<Rightarrow> read_round" where
  "plain_round active r = \<lparr>rr_active = active, rr_late = [], rr_later = [], rr_now = 0, rr_ready = r\<rparr>"

lemma plain_round_simps [simp]:
  "rr_active (plain_round active r) = active" "rr_late (plain_round active r) = []" "rr_later (plain_round active r) = []"
  "rr_now (plain_round active r) = 0" "rr_ready (plain_round active r) = r" "quiet_round (plain_round active r)"
  by (simp_all add: plain_round_def quiet_round_def)

lemma empty_read_declined:
  assumes "om_buffer t = []" and "queued t = []" and "om_lines t \<noteq> None"
  shows "\<exists>t1. try_read n active [] [] now t = (Declined, t1) \<and> om_buffer t1 = [] \<and> queued t1 = [] \<and> om_lines t1 \<noteq> None"
  using assms by (auto simp: try_read_def receive_lines_def maybe_ack_eof_def queued_def signal_eof_ack_def split: option.splits)

lemma server_frame_taken: "server_frame active m (h\<lparr>h_server_messages := ms\<rparr>) = server_frame active m h"
  by (cases "decode_generated_message m") (simp add: server_frame_def)

lemma messages_drain:
  assumes "h_read_buf h = []" and "om_buffer t = []" and "queued t = []" and "om_lines t \<noteq> None"
    and "\<forall>m\<in>set (h_server_messages h). server_frame active m h \<noteq> None"
  shows "\<exists>steps out s. quiet_reads active steps \<and> read_session steps (h, t) = Some (out, s) \<and> drained s"
  using assms
proof (induction "h_server_messages h" arbitrary: h t)
  case Nil
  then show ?case by (intro exI[of _ "[]"]) (simp add: quiet_reads_def drained_def)
next
  case (Cons m ms)
  from Cons.hyps(2)[symmetric] Cons.prems(5) obtain bs where bs: "server_frame active m h = Some bs" by auto
  obtain t1 where t1: "try_read (length bs) active [] [] 0 t = (Declined, t1)" "om_buffer t1 = []" "queued t1 = []" "om_lines t1 \<noteq> None"
    using empty_read_declined[OF Cons.prems(2-4)] by blast
  let ?h = "h\<lparr>h_server_messages := ms\<rparr>"
  have "\<forall>m\<in>set ms. server_frame active m ?h \<noteq> None"
    using Cons.prems(5) Cons.hyps(2)[symmetric] by (simp add: server_frame_taken)
  then obtain steps out s where steps: "quiet_reads active steps" "read_session steps (?h, t1) = Some (out, s)" "drained s"
    using Cons.hyps(1)[of ?h t1] Cons.prems(1) t1(2-4) by auto
  have "handler_read (length bs) [plain_round active FromServer] (h, t) = (Some (bs, False), ?h, t1)"
    using Cons.prems(1) t1(1) bs Cons.hyps(2)[symmetric]
    by (simp add: handler_read_def select_message_def Let_def drain_read_buf_def)
  then show ?case using steps
    by (intro exI[of _ "(no_arrivals, length bs, [plain_round active FromServer]) # steps"] exI[of _ "bs @ out"] exI[of _ s])
      (simp add: quiet_reads_def)
qed

lemma payload_read:
  assumes "om_buffer t = []" and "om_mode t" and "om_lines t = Some (q # qs)" and "kept (q, active) \<noteq> []"
  shows "try_read (length (kept (q, active))) active [] [] now t = (Served (kept (q, active)), t\<lparr>om_lines := Some qs, om_empty_since := None\<rparr>)"
  using assms by (cases "decode_generated_bytes q")
    (auto simp: try_read_def receive_lines_def queued_def consume_def kept_def split: if_splits)

lemma reads_drain:
  assumes "h_read_buf h = []" and "om_buffer t = []" and "om_mode t" and "om_lines t = Some qs" and "\<forall>q\<in>set qs. kept (q, active) \<noteq> []"
    and "\<forall>m\<in>set (h_server_messages h). server_frame active m h \<noteq> None"
  shows "\<exists>steps out s. quiet_reads active steps \<and> read_session steps (h, t) = Some (out, s) \<and> drained s"
  using assms(2-5)
proof (induction qs arbitrary: t)
  case Nil
  then show ?case using messages_drain[OF assms(1) _ _ _ assms(6)] by (simp add: queued_def)
next
  case (Cons q qs)
  let ?bs = "kept (q, active)" and ?t = "t\<lparr>om_lines := Some qs, om_empty_since := None\<rparr>"
  obtain steps out s where steps: "quiet_reads active steps" "read_session steps (h, ?t) = Some (out, s)" "drained s"
    using Cons.IH[of ?t] Cons.prems by auto
  have "handler_read (length ?bs) [plain_round active FromPoll] (h, t) = (Some (?bs, False), h, ?t)"
    using assms(1) payload_read[OF Cons.prems(1-3), of active 0] Cons.prems(4) by (simp add: handler_read_def)
  then show ?case using steps
    by (intro exI[of _ "(no_arrivals, length ?bs, [plain_round active FromPoll]) # steps"] exI[of _ "?bs @ out"] exI[of _ s])
      (simp add: quiet_reads_def)
qed

subsection \<open>Properties\<close>


definition sample_files :: "unit file_system" where
  "sample_files = \<lparr>fs_open = (\<lambda>path. Inr (''ab'' @ [CHR 0x0A])), fs_open_target = (\<lambda>t. Inl ()), fs_seek_end = None, fs_gunzip = Inr,
     fs_unzstd = (\<lambda>path. Inr), fs_stdin = []\<rparr>"

definition sample_reader :: file_reader where
  "sample_reader = new_cat_file ''f'' ''f'' None 100"

definition sample_network_handler :: server_handler where
  "sample_network_handler = (sample_handler 0)\<lparr>h_server_messages := []\<rparr>"


end
