(* ===== verification/Session_Transport.thy ===== *)
theory Session_Transport
  imports Session_Spec Client_Handler Server_Handler
begin

text \<open>
  The start and the change of a session from the side of the client
  (\<open>internal/clients/connectors/sessiontransport.go\<close>): a specification is sent to the server, and what the
  connection takes for the state of its session follows the acknowledgement. What happens while the
  code waits is part of the argument \<open>transport_env\<close>: the messages that come in are functions on the handler
  of the connection. The wait for the lock of a connection makes each application one step.
\<close>

subsection \<open>The committed session of a connection\<close>

record committed_session =
  cs_committed :: bool
  cs_generation :: uint64
  cs_spec :: spec

definition zero_committed :: committed_session where
  "zero_committed = \<lparr>cs_committed = False, cs_generation = 0, cs_spec = zero_spec\<rparr>"

definition commit_session :: "spec \<Rightarrow> uint64 \<Rightarrow> committed_session \<Rightarrow> committed_session" where
  "commit_session s g c = \<lparr>cs_committed = True, cs_generation = g, cs_spec = s\<rparr>"

definition restore_session :: "spec \<Rightarrow> uint64 \<Rightarrow> bool \<Rightarrow> committed_session \<Rightarrow> committed_session" where
  "restore_session s g committed c =
     (if \<not> committed then \<lparr>cs_committed = False, cs_generation = 0, cs_spec = zero_spec\<rparr>
      else \<lparr>cs_committed = True, cs_generation = g, cs_spec = s\<rparr>)"

definition clear_session :: "committed_session \<Rightarrow> committed_session" where
  "clear_session c = \<lparr>cs_committed = False, cs_generation = 0, cs_spec = zero_spec\<rparr>"

subsection \<open>Applying a specification\<close>

datatype transport_error =
    SessionUnsupported | AckTimeout | SessionRejected gostr | WrongAction gostr gostr | MissingGeneration
  | WrongGeneration uint64 uint64 | JournalUnsupported gostr | SendFailed | NotEncodable | LegacyFailed

text \<open>The errors that wrap \<open>ErrUnexpectedSessionAck\<close>.\<close>

definition unexpected_ack :: "transport_error \<Rightarrow> bool" where
  "unexpected_ack e = (case e of WrongAction a b \<Rightarrow> True | MissingGeneration \<Rightarrow> True | WrongGeneration a b \<Rightarrow> True | _ \<Rightarrow> False)"

record 'h transport_env =
  te_client :: client_env
  te_journal_wait :: "'h \<Rightarrow> 'h"
  te_update_wait :: "'h \<Rightarrow> 'h"
  te_send :: "nat \<Rightarrow> send_outcome"
  te_answer :: "gostr \<Rightarrow> 'h \<Rightarrow> 'h"

definition default_session_ack_timeout :: int where
  "default_session_ack_timeout = 2000000000"

definition default_capability_wait :: int where
  "default_capability_wait = 250000000"

definition resolve_session_ack_timeout :: "int \<Rightarrow> int" where
  "resolve_session_ack_timeout timeout = (if timeout \<le> 0 then default_session_ack_timeout else timeout)"

definition require_journal_capability :: "'a client_handler_scheme transport_env \<Rightarrow> gostr \<Rightarrow> spec \<Rightarrow> int \<Rightarrow> 'a client_handler_scheme \<Rightarrow>
    transport_error option \<times> 'a client_handler_scheme" where
  "require_journal_capability te server s timeout h =
     (if \<not> has_journal_files s then (None, h)
      else
        let wait = (if timeout \<le> 0 then default_capability_wait else timeout); h1 = te_journal_wait te h in
        if wait_for_capabilities (te_client te) wait h1 \<and> has_capability capability_journal h1 then (None, h1)
        else (Some (JournalUnsupported server),
              report_server_error (''journal file targets require server capability '' @ capability_journal) h1))"

definition supports_query_updates :: "'a client_handler_scheme transport_env \<Rightarrow> int \<Rightarrow> 'a client_handler_scheme \<Rightarrow>
    bool \<times> 'a client_handler_scheme" where
  "supports_query_updates te timeout h =
     (let wait = (if timeout \<le> 0 then default_capability_wait else timeout); h1 = te_update_wait te h in
      (wait_for_capabilities (te_client te) wait h1 \<and> has_capability capability_query_update h1, h1))"

function drain_session_acks :: "client_env \<Rightarrow> 'a client_handler_scheme \<Rightarrow> 'a client_handler_scheme" where
  "drain_session_acks env h =
     (case wait_for_session_ack env 0 h of (None, h1) \<Rightarrow> h1 | (Some ack, h1) \<Rightarrow> drain_session_acks env h1)"
  by pat_completeness auto
termination
  by (relation "measure (\<lambda>(env, h). length (ch_acks h))") (auto simp: wait_for_session_ack_def split: list.splits if_splits)

declare drain_session_acks.simps [simp del]

definition check_session_ack :: "uint64 \<Rightarrow> session_ack \<Rightarrow> transport_error option" where
  "check_session_ack g ack =
     (let action = (if g = 0 then ''start'' else ''update'') in
      if ack_error ack \<noteq> [] then Some (SessionRejected (ack_error ack))
      else if ack_action ack \<noteq> action then Some (WrongAction (ack_action ack) action)
      else if ack_generation ack = 0 then Some MissingGeneration
      else if g \<noteq> 0 \<and> ack_generation ack \<noteq> g + 1 then Some (WrongGeneration (ack_generation ack) (g + 1))
      else None)"

definition session_request :: "(spec \<Rightarrow> gostr option) \<Rightarrow> spec \<Rightarrow> uint64 \<Rightarrow> gostr option" where
  "session_request json s g =
     (case start_command json s of
        None \<Rightarrow> None
      | Some command \<Rightarrow> if g = 0 then Some command else update_command json s (g + 1))"

text \<open>\<open>base\<close> is the generation to start from; \<open>None\<close> is the one that was committed last.\<close>

definition apply_session_spec_with_generation :: "(spec \<Rightarrow> gostr option) \<Rightarrow> 'a client_handler_scheme transport_env \<Rightarrow> gostr \<Rightarrow> spec \<Rightarrow>
    uint64 option \<Rightarrow> int \<Rightarrow> 'a client_handler_scheme \<times> committed_session \<Rightarrow>
    transport_error option \<times> 'a client_handler_scheme \<times> committed_session" where
  "apply_session_spec_with_generation json te server s base timeout hc =
     (case hc of (h, c) \<Rightarrow>
        let g = (case base of None \<Rightarrow> cs_generation c | Some g \<Rightarrow> g) in
        case require_journal_capability te server s default_capability_wait h of
          (Some e, h1) \<Rightarrow> (Some e, h1, c)
        | (None, h1) \<Rightarrow>
            (case supports_query_updates te default_capability_wait h1 of
               (False, h2) \<Rightarrow> (Some SessionUnsupported, h2, c)
             | (True, h2) \<Rightarrow>
                 (case session_request json s g of
                    None \<Rightarrow> (Some NotEncodable, h2, c)
                  | Some command \<Rightarrow>
                      (case send_message (te_send te 0) command (drain_session_acks (te_client te) h2) of
                         (h3, True) \<Rightarrow> (Some SendFailed, h3, c)
                       | (h3, False) \<Rightarrow>
                           (case wait_for_session_ack (te_client te) (resolve_session_ack_timeout timeout) (te_answer te command h3) of
                              (None, h4) \<Rightarrow> (Some AckTimeout, h4, c)
                            | (Some ack, h4) \<Rightarrow>
                                (case check_session_ack g ack of
                                   Some e \<Rightarrow> (Some e, h4, c)
                                 | None \<Rightarrow> (None, h4, commit_session s (ack_generation ack) c)))))))"

definition apply_session_spec :: "(spec \<Rightarrow> gostr option) \<Rightarrow> 'a client_handler_scheme transport_env \<Rightarrow> gostr \<Rightarrow> spec \<Rightarrow> int \<Rightarrow>
    'a client_handler_scheme \<times> committed_session \<Rightarrow> transport_error option \<times> 'a client_handler_scheme \<times> committed_session" where
  "apply_session_spec json te server s timeout = apply_session_spec_with_generation json te server s None timeout"

subsection \<open>The first commands of a connection\<close>

text \<open>The sends are numbered from \<open>i\<close>; a send that timed out ends them.\<close>

fun send_legacy_commands :: "'a client_handler_scheme transport_env \<Rightarrow> nat \<Rightarrow> gostr list \<Rightarrow> 'a client_handler_scheme \<Rightarrow>
    bool \<times> 'a client_handler_scheme" where
  "send_legacy_commands te i [] h = (True, h)"
| "send_legacy_commands te i (command # commands) h =
     (case send_message (te_send te i) command h of
        (h1, True) \<Rightarrow> (False, h1)
      | (h1, False) \<Rightarrow> send_legacy_commands te (Suc i) commands h1)"

definition legacy_result :: "bool \<times> 'a client_handler_scheme \<Rightarrow> committed_session \<Rightarrow>
    transport_error option \<times> 'a client_handler_scheme \<times> committed_session" where
  "legacy_result r c = (case r of (ok, h) \<Rightarrow> (if ok then None else Some LegacyFailed, h, c))"

definition dispatch_initial_commands :: "(spec \<Rightarrow> gostr option) \<Rightarrow> 'a client_handler_scheme transport_env \<Rightarrow> gostr \<Rightarrow> gostr list \<Rightarrow> bool \<Rightarrow>
    spec \<Rightarrow> 'a client_handler_scheme \<times> committed_session \<Rightarrow> transport_error option \<times> 'a client_handler_scheme \<times> committed_session" where
  "dispatch_initial_commands json te server commands interactive s hc =
     (case hc of (h, c) \<Rightarrow>
        if \<not> interactive \<or> sp_mode s = UnknownMode then
          (case require_journal_capability te server s default_capability_wait h of
             (Some e, h1) \<Rightarrow> (Some e, h1, c)
           | (None, h1) \<Rightarrow> legacy_result (send_legacy_commands te 0 commands h1) c)
        else
          (case apply_session_spec json te server s default_session_ack_timeout (h, c) of
             (None, h1, c1) \<Rightarrow> (None, h1, c1)
           | (Some e, h1, c1) \<Rightarrow>
               if e \<noteq> SessionUnsupported then (Some e, h1, clear_session c1)
               else legacy_result (send_legacy_commands te 0 commands h1) (clear_session c1)))"

subsection \<open>What an application commits\<close>

lemma drain_session_acks_eq: "drain_session_acks env h = h\<lparr>ch_acks := []\<rparr>"
proof (induction env h rule: drain_session_acks.induct)
  case (1 env h)
  show ?case
  proof (cases "ch_acks h")
    case Nil
    then show ?thesis by (subst drain_session_acks.simps) (simp add: wait_for_session_ack_def)
  next
    case (Cons ack acks)
    have w: "wait_for_session_ack env 0 h = (Some ack, h\<lparr>ch_acks := acks\<rparr>)" by (simp add: wait_for_session_ack_def Cons)
    show ?thesis using 1[OF w[symmetric] refl] by (subst drain_session_acks.simps) (simp add: w)
  qed
qed

lemma check_ack_none:
  "check_session_ack g ack = None \<longleftrightarrow>
     ack_error ack = [] \<and> ack_generation ack \<noteq> 0 \<and>
     (if g = 0 then ack_action ack = ''start'' else ack_action ack = ''update'' \<and> ack_generation ack = g + 1)"
  by (simp add: check_session_ack_def Let_def)

text \<open>Without an error the specification is committed, in the next generation when there was one; with an error nothing is.\<close>

lemma applied_committed:
  assumes "apply_session_spec_with_generation json te server s base timeout (h, c) = (e, h1, c1)"
  defines "g \<equiv> case base of None \<Rightarrow> cs_generation c | Some g \<Rightarrow> g"
  shows "(e = None \<longrightarrow> cs_committed c1 \<and> cs_spec c1 = s \<and> cs_generation c1 \<noteq> 0 \<and> (g \<noteq> 0 \<longrightarrow> cs_generation c1 = g + 1)) \<and> (e \<noteq> None \<longrightarrow> c1 = c)"
proof -
  have "c1 = c \<and> e \<noteq> None \<or> (\<exists>ack. e = None \<and> check_session_ack g ack = None \<and> c1 = commit_session s (ack_generation ack) c)"
    using assms(1) unfolding g_def apply_session_spec_with_generation_def
    by (auto simp: Let_def split: prod.splits option.splits bool.splits)
  then show ?thesis by (auto simp: check_ack_none commit_session_def split: if_splits)
qed

text \<open>For the concrete runs.\<close>

lemma sample_pay: "b64_encode ''pay'' = ''cGF5''"
  by (simp add: b64_char_def b64_alphabet_def byte_def Let_def)

end
