(* ===== verification/Session_Agreement.thy ===== *)
theory Session_Agreement
  imports Session_Transport Server_Read
begin

text \<open>
  The two ends of an interactive session put together: the transport of the client
  (\<open>Session_Transport\<close>), the commands and sessions of the server (\<open>Server_Handler\<close>), and the frames between
  them. What a client takes for the session of the server is what the server runs.
\<close>

subsection \<open>What a server says while it runs the commands of a session\<close>

text \<open>Messages that are not for the control of the client.\<close>

definition quiet_message :: "gostr \<Rightarrow> bool" where
  "quiet_message m \<longleftrightarrow> m \<noteq> [] \<and> hd m \<noteq> CHR ''.'' \<and> hd m \<noteq> generation_mark \<and> message_delimiter \<notin> set m"

definition quiet_texts :: "'r handler_env \<Rightarrow> bool" where
  "quiet_texts env \<longleftrightarrow>
     (\<forall>e. quiet_message (he_log env e)) \<and> (\<forall>e. quiet_message (he_query_text env e)) \<and>
     (\<forall>e. message_delimiter \<notin> set (error_text env e))"

definition says :: "server_handler \<Rightarrow> server_handler \<Rightarrow> bool" where
  "says h h' \<longleftrightarrow>
     h_done h' = h_done h \<and> h_hostname h' = h_hostname h \<and>
     (\<exists>ms. h_server_messages h' = h_server_messages h @ ms \<and> (\<forall>m\<in>set ms. quiet_message m))"

definition speaks :: "server_handler \<Rightarrow> server_handler \<Rightarrow> bool" where
  "speaks h h' \<longleftrightarrow> h_session h' = h_session h \<and> says h h'"

lemma says_refl [simp]: "says h h"
  by (simp add: says_def)

lemma speaks_refl [simp]: "speaks h h"
  by (simp add: speaks_def)

lemma says_trans:
  assumes "says h h1" and "says h1 h2"
  shows "says h h2"
proof -
  obtain ms ns where "h_server_messages h1 = h_server_messages h @ ms" "h_server_messages h2 = h_server_messages h1 @ ns"
    "\<forall>m\<in>set ms. quiet_message m" "\<forall>m\<in>set ns. quiet_message m"
    using assms unfolding says_def by blast
  then have "h_server_messages h2 = h_server_messages h @ (ms @ ns) \<and> (\<forall>m\<in>set (ms @ ns). quiet_message m)" by auto
  then show ?thesis using assms unfolding says_def by metis
qed

lemma speaks_trans: "speaks h h1 \<Longrightarrow> speaks h1 h2 \<Longrightarrow> speaks h h2"
  using says_trans by (auto simp: speaks_def)

lemma speaks_send: "quiet_message m \<Longrightarrow> speaks h (send m h)"
  by (auto simp: speaks_def says_def send_def)

lemma quiet_newline [simp]: "quiet_message m \<Longrightarrow> quiet_message (m @ [CHR 0x0A])"
  by (auto simp: quiet_message_def message_delimiter_def)

lemma speaks_sendln: "quiet_message m \<Longrightarrow> speaks h (sendln m h)"
  by (simp add: sendln_def speaks_send)

lemma speaks_primitive [simp]:
  "speaks h (h\<lparr>h_next_context := n\<rparr>)" "speaks h (cancel_context n h)" "speaks h (cancel_command_context ctx1 h)"
  "speaks h (handle_options opts h)" "speaks h (h\<lparr>h_aggregate := a\<rparr>)" "speaks h (h\<lparr>h_store := k\<rparr>)" "speaks h (h\<lparr>h_panicked := b\<rparr>)"
  "speaks h (h\<lparr>h_active_commands := x\<rparr>)" "speaks h (h\<lparr>h_started := cs\<rparr>)" "speaks h (h\<lparr>h_ack_close_received := b\<rparr>)"
  "speaks h (h\<lparr>h_write_buf := w\<rparr>)"
  by (auto simp: speaks_def says_def cancel_context_def cancel_command_context_def handle_options_def)

text \<open>While a session is active, the end of a command does not close the connection.\<close>

lemma speaks_finished:
  assumes "sc_active (h_session h)"
  shows "speaks h (command_finished env name ctx h)"
proof -
  have "command_finished env name ctx h = cancel_command_context ctx (h\<lparr>h_active_commands := h_active_commands h - 1\<rparr>)"
    using assms by (simp add: command_finished_def Let_def cancel_command_context_def)
  then show ?thesis using speaks_trans[OF speaks_primitive(8) speaks_primitive(3)] by metis
qed

lemma speaks_active: "speaks h h1 \<Longrightarrow> sc_active (h_session h) \<Longrightarrow> sc_active (h_session h1)"
  by (simp add: speaks_def)

lemma speaks_and_finished: "speaks h h1 \<Longrightarrow> sc_active (h_session h) \<Longrightarrow> speaks h (command_finished env name ctx h1)"
  using speaks_trans speaks_finished speaks_active by blast

lemma quiet_auth_texts:
  "quiet_message ''AUTHKEY ERR feature disabled''" "quiet_message ''AUTHKEY ERR missing public key''"
  "quiet_message ''AUTHKEY ERR invalid base64''" "quiet_message ''AUTHKEY ERR invalid public key''" "quiet_message ''AUTHKEY OK''"
  by (simp_all add: quiet_message_def message_delimiter_def generation_mark_def)

lemma speaks_inner:
  assumes "quiet_texts env" and "sc_active (h_session h)"
  shows "speaks h (inner_callback env ctx ltx args name h)"
proof -
  let ?h1 = "h\<lparr>h_active_commands := h_active_commands h + 1\<rparr>"
  have q: "quiet_message (he_log env e)" "quiet_message (he_query_text env d)" for e d using assms(1) by (simp_all add: quiet_texts_def)
  have s1: "speaks h ?h1" by (rule speaks_primitive(8))
  have said: "speaks h (sendln m ?h1)" if "quiet_message m" for m using speaks_trans[OF s1 speaks_sendln[OF that]] .
  have fin: "speaks h (command_finished env name ctx k)" if "speaks h k" for k using speaks_and_finished[OF that assms(2)] .
  show ?thesis
  proof (cases "map_of command_registry name")
    case None
    then show ?thesis using fin[OF said[OF q(1)]] by (simp add: inner_callback_def handle_user_command_def Let_def)
  next
    case (Some k)
    show ?thesis
    proof (cases k)
      case (ReadCommand m n)
      then show ?thesis using Some speaks_trans[OF s1 speaks_primitive(9)] by (simp add: inner_callback_def handle_user_command_def Let_def)
    next
      case MapCommand
      show ?thesis
      proof (cases "new_aggregate (he_registry env) (he_fqdn env) (he_tz env) (he_offset env) (join blank (tl args)) (he_log_format env)")
        case (Inl e)
        then show ?thesis using Some MapCommand fin[OF said[OF q(2)]] speaks_trans[OF s1 speaks_primitive(7)]
          by (cases e) (simp_all add: inner_callback_def handle_user_command_def Let_def handle_map_command_def)
      next
        case (Inr a)
        then show ?thesis using Some MapCommand speaks_trans[OF speaks_trans[OF s1 speaks_primitive(5)] speaks_primitive(9)]
          by (simp add: inner_callback_def handle_user_command_def Let_def handle_map_command_def)
      qed
    next
      case AckCommand
      have "speaks h (handle_ack_command env args ?h1)"
        using said[OF q(1)] s1 speaks_trans[OF s1 speaks_primitive(10)] by (simp add: handle_ack_command_def)
      then show ?thesis using Some AckCommand fin by (simp add: inner_callback_def handle_user_command_def Let_def)
    next
      case AuthKeyCommand
      have "speaks h (sendln ''AUTHKEY OK'' (?h1\<lparr>h_store := st\<rparr>))" for st
        using speaks_trans[OF speaks_trans[OF s1 speaks_primitive(6)] speaks_sendln[OF quiet_auth_texts(5)]] .
      then show ?thesis using Some AuthKeyCommand fin said[OF quiet_auth_texts(1)] said[OF quiet_auth_texts(2)] said[OF quiet_auth_texts(3)]
          said[OF quiet_auth_texts(4)]
        by (simp add: inner_callback_def handle_user_command_def Let_def handle_auth_key_command_def split: option.split)
    next
      case SessionCommand
      then show ?thesis using Some fin[OF s1] by (simp add: inner_callback_def handle_user_command_def Let_def)
    qed
  qed
qed

lemma speaks_dispatch:
  assumes "quiet_texts env" and "sc_active (h_session h)" and "dispatch_command (inner_callback env) ctx args h = (e, h1)"
  shows "speaks h h1"
proof (cases "apply_command_timeout ctx args h")
  case (Inl x)
  then show ?thesis using assms(3) by (simp add: dispatch_command_def)
next
  case (Inr r)
  obtain ctx1 args1 h2 where r: "apply_command_timeout ctx args h = Inr (ctx1, args1, h2)" using Inr by (cases r) auto
  have t: "speaks h h2" using r
    by (auto simp: apply_command_timeout_def new_command_context_def split: if_splits prod.splits option.splits)
  have "speaks h (inner_callback env ctx1 ltx args1 name k)" if "speaks h k" for ltx name k
    using speaks_trans[OF that speaks_inner[OF assms(1) speaks_active[OF that assms(2)]]] .
  then have c: "speaks h (inner_callback env ctx1 ltx args1 name h2)" "speaks h (inner_callback env ctx1 ltx args1 name (handle_options opts h2))"
    for ltx name opts using t speaks_trans[OF t speaks_primitive(4)] by blast+
  show ?thesis using assms(3) c t by (auto simp: dispatch_command_def r split: list.splits if_splits sum.splits)
qed

lemma speaks_commands:
  assumes "quiet_texts env" and "sc_active (h_session h)" and "dispatch_session_commands (inner_callback env) ctx cs h = (e, h1)"
  shows "speaks h h1"
  using assms(2,3)
proof (induction cs arbitrary: h)
  case (Cons c cs)
  obtain e2 h2 where r: "handle_raw_command (inner_callback env) ctx c h = (e2, h2)" by fastforce
  have "speaks h h2" using r speaks_dispatch[OF assms(1) Cons.prems(1)] by (auto simp: handle_raw_command_def Let_def split: if_splits)
  then show ?case using Cons.IH[of h2] Cons.prems speaks_active[of h h2] speaks_trans[of h h2] by (cases e2) (auto simp: r)
qed simp

subsection \<open>The answer to a request\<close>

lemma run_generation_says:
  assumes "quiet_texts env" and "run_generation (inner_callback env) s commands g h = (r, h1)"
  shows "says h h1 \<and> (case r of Inl e \<Rightarrow> \<not> sc_active (h_session h1)
    | Inr g1 \<Rightarrow> g1 = g \<and> sc_active (h_session h1) \<and> sc_generation (h_session h1) = g \<and> sc_spec (h_session h1) = s)"
proof -
  define n where "n = h_next_context h"
  define h3 where "h3 = (case sc_cancel (h_session h) of None \<Rightarrow> h\<lparr>h_next_context := Suc n, h_session := \<lparr>sc_active = True, sc_generation = g, sc_spec = s, sc_cancel = Some n\<rparr>\<rparr>
    | Some m \<Rightarrow> cancel_context m (h\<lparr>h_next_context := Suc n, h_session := \<lparr>sc_active = True, sc_generation = g, sc_spec = s, sc_cancel = Some n\<rparr>\<rparr>))"
  have h3: "says h (reset_session_aggregates h3)" "h_session (reset_session_aggregates h3) = \<lparr>sc_active = True, sc_generation = g, sc_spec = s, sc_cancel = Some n\<rparr>"
    by (auto simp: h3_def says_def reset_session_aggregates_def cancel_context_def split: option.splits)
  obtain e h4 where d: "dispatch_session_commands (inner_callback env) \<lparr>cc_chain = [n], cc_cancels = [], cc_generation = g, cc_deadline = None\<rparr> commands
      (reset_session_aggregates h3) = (e, h4)" by fastforce
  have sp: "speaks (reset_session_aggregates h3) h4" using speaks_commands[OF assms(1) _ d] h3(2) by simp
  then have h4: "says h h4" "h_session h4 = \<lparr>sc_active = True, sc_generation = g, sc_spec = s, sc_cancel = Some n\<rparr>"
    using says_trans[OF h3(1)] h3(2) by (simp_all add: speaks_def)
  have "(r, h1) = (case e of Some e \<Rightarrow> (Inl e, reset_session (cancel_context n h4)) | None \<Rightarrow> (Inr g, h4))"
    using assms(2) d unfolding run_generation_def new_command_context_def Let_def n_def[symmetric] h3_def
    by (simp split: option.splits)
  moreover have "says h (reset_session (cancel_context n h4))"
    using h4(1) by (rule says_trans) (simp add: says_def reset_session_def cancel_context_def)
  ultimately show ?thesis using h4 by (cases e) (auto simp: reset_session_def zero_session_def)
qed

text \<open>An answer that is a refusal leaves the session of the server or ends it, one that is not tells what runs.\<close>

definition refuses :: "'r handler_env \<Rightarrow> server_handler \<Rightarrow> server_handler \<Rightarrow> gostr \<Rightarrow> bool" where
  "refuses env h h' m \<longleftrightarrow>
     (\<exists>t. m = session_ack_error @ t \<and> message_delimiter \<notin> set t) \<and> (h_session h' = h_session h \<or> \<not> sc_active (h_session h'))"

definition accepts_session :: "uint64 \<Rightarrow> spec \<Rightarrow> server_handler \<Rightarrow> gostr \<Rightarrow> bool" where
  "accepts_session g s h' m \<longleftrightarrow>
     sc_active (h_session h') \<and> sc_generation (h_session h') = g + 1 \<and> sc_spec (h_session h') = s \<and>
     m = (if g = 0 then session_ack_start_ok else session_ack_update_ok) @ blank @ format_uint (g + 1)"

lemma session_command_answers:
  assumes "quiet_texts env" and "\<not> h_done h"
    and p: "parse_session_command env args = (case validate_session_spec env s of Some e \<Rightarrow> Inl e
      | None \<Rightarrow> Inr (if g = 0 then ''START'' else ''UPDATE'', if g = 0 then 0 else g + 1, s))"
    and "g + 1 \<noteq> 0"
  shows "\<exists>h1 m. handle_session_command (inner_callback env) env ctx args h = send m h1 \<and> says h h1 \<and> (refuses env h h1 m \<or> accepts_session g s h1 m)"
proof -
  have t: "message_delimiter \<notin> set (error_text env e)" for e using assms(1) by (simp add: quiet_texts_def)
  have ref: "refuses env h h1 (session_ack_error @ error_text env e)" if "h_session h1 = h_session h \<or> \<not> sc_active (h_session h1)" for h1 e
    using that t by (auto simp: refuses_def)
  have ns: "message_delimiter \<notin> set ''session not started''" by (simp add: message_delimiter_def)
  show ?thesis
  proof (cases "validate_session_spec env s")
    case (Some e)
    then show ?thesis using p ref[of h e] by (intro exI[of _ h] exI[of _ "session_ack_error @ error_text env e"]) (simp add: handle_session_command_def)
  next
    case None
    show ?thesis
    proof (cases "g = 0")
      case True
      note p1 = p[unfolded None option.case if_P[OF True]]
      obtain r h1 where r: "start_session (inner_callback env) env s h = (r, h1)" by fastforce
      have a: "handle_session_command (inner_callback env) env ctx args h =
          (case r of Inl e \<Rightarrow> send (session_ack_error @ error_text env e) h1 | Inr g1 \<Rightarrow> send (session_ack_start_ok @ blank @ format_uint g1) h1)"
        using p1 r by (simp add: handle_session_command_def split: sum.split)
      show ?thesis
      proof (cases "isl (prepare_session_commands env s) \<or> sc_active (h_session h)")
        case True
        then obtain e where "r = Inl e" "h1 = h" using r
          by (auto simp: start_session_def split: sum.splits if_splits)
        then show ?thesis using a ref[of h e] by (intro exI[of _ h] exI[of _ "session_ack_error @ error_text env e"]) simp
      next
        case False
        then obtain commands where "run_generation (inner_callback env) s commands 1 (h\<lparr>h_session := (h_session h)\<lparr>sc_cancel := None\<rparr>\<rparr>) = (r, h1)"
          using r by (cases "prepare_session_commands env s") (auto simp: start_session_def)
        note run = run_generation_says[OF assms(1) this]
        have sy: "says h h1" using run says_trans[of h "h\<lparr>h_session := (h_session h)\<lparr>sc_cancel := None\<rparr>\<rparr>" h1] by (simp add: says_def)
        show ?thesis
        proof (cases r)
          case (Inl e)
          then show ?thesis using a run sy ref[of h1 e] by (intro exI[of _ h1] exI[of _ "session_ack_error @ error_text env e"]) simp
        next
          case (Inr g1)
          then show ?thesis using a run sy \<open>g = 0\<close>
            by (intro exI[of _ h1] exI[of _ "session_ack_start_ok @ blank @ format_uint 1"]) (simp add: accepts_session_def)
        qed
      qed
    next
      case False
      note p1 = p[unfolded None option.case if_not_P[OF False]]
      show ?thesis
      proof (cases "sc_active (h_session h)")
        case False
        then show ?thesis using p1 ns
          by (intro exI[of _ h] exI[of _ "session_ack_error @ ''session not started''"]) (simp add: handle_session_command_def refuses_def)
      next
        case True
        obtain r h1 where r: "update_session (inner_callback env) env s (g + 1) h = (r, h1)" by fastforce
        have a: "handle_session_command (inner_callback env) env ctx args h =
            (case r of Inl e \<Rightarrow> send (session_ack_error @ error_text env e) h1 | Inr g1 \<Rightarrow> send (session_ack_update_ok @ blank @ format_uint g1) h1)"
          using p1 r True by (simp add: handle_session_command_def split: sum.split)
        show ?thesis
        proof (cases "prepare_session_commands env s")
          case (Inl e)
          then have "r = Inl e" "h1 = h" using r by (simp_all add: update_session_def)
          then show ?thesis using a ref[of h e] by (intro exI[of _ h] exI[of _ "session_ack_error @ error_text env e"]) simp
        next
          case (Inr commands)
          then have "run_generation (inner_callback env) s commands (g + 1) h = (r, h1)" using r True assms(4) by (simp add: update_session_def)
          note run = run_generation_says[OF assms(1) this]
          show ?thesis
          proof (cases r)
            case (Inl e)
            then show ?thesis using a run ref[of h1 e] by (intro exI[of _ h1] exI[of _ "session_ack_error @ error_text env e"]) simp
          next
            case (Inr g1)
            then show ?thesis using a run \<open>g \<noteq> 0\<close>
              by (intro exI[of _ h1] exI[of _ "session_ack_update_ok @ blank @ format_uint (g + 1)"]) (simp add: accepts_session_def)
          qed
        qed
      qed
    qed
  qed
qed

text \<open>The request of a client, parsed: what it says is what the client meant.\<close>

definition json_codec :: "(spec \<Rightarrow> gostr option) \<Rightarrow> 'r handler_env \<Rightarrow> bool" where
  "json_codec json env \<longleftrightarrow> (\<forall>s t. json s = Some t \<longrightarrow> he_json env t = Some s)"

lemma request_words:
  assumes "session_request json s g = Some command"
  shows "\<exists>t. json s = Some t \<and> split blank command =
    (if g = 0 then [''SESSION'', ''START'', b64_encode t]
     else if g + 1 = 0 then [''SESSION'', ''UPDATE'', b64_encode t]
     else [''SESSION'', ''UPDATE'', format_uint (g + 1), b64_encode t])"
proof -
  obtain t where t: "json s = Some t" using assms
    by (auto simp: session_request_def start_command_def encoded_payload_def split: option.splits)
  have b: "split blank (b64_encode t) = [b64_encode t]"
    using split_None[of "b64_encode t" blank] b64_no_blank[of t] by (auto simp: blank_def)
  have d: "\<not> contains (format_uint (g + 1)) blank"
    using format_uint_digits[of "CHR '' ''" "g + 1"] by (auto simp: blank_def digit_val_def)
  have sb: "simple_sep blank" by (simp add: blank_def)
  have w: "\<not> contains ''SESSION'' blank" "\<not> contains ''START'' blank" "\<not> contains ''UPDATE'' blank" by (simp_all add: blank_def)
  have u: "split blank (format_uint (g + 1) @ blank @ b64_encode t) = [format_uint (g + 1), b64_encode t]"
    using split_append[OF sb d] b by simp
  have "split blank (''SESSION'' @ blank @ ''START'' @ blank @ b64_encode t) = [''SESSION'', ''START'', b64_encode t]"
    "split blank (''SESSION'' @ blank @ ''UPDATE'' @ blank @ b64_encode t) = [''SESSION'', ''UPDATE'', b64_encode t]"
    "split blank (''SESSION'' @ blank @ ''UPDATE'' @ blank @ format_uint (g + 1) @ blank @ b64_encode t) =
      [''SESSION'', ''UPDATE'', format_uint (g + 1), b64_encode t]"
    by (simp_all only: split_append[OF sb w(1)] split_append[OF sb w(2)] split_append[OF sb w(3)] b u)
  then show ?thesis using assms t
    by (auto simp: session_request_def start_command_def update_command_def encoded_payload_def blank_def)
qed

lemma request_parsed:
  assumes "session_request json s g = Some command" and "json_codec json env" and "g + 1 \<noteq> 0"
  shows "parse_session_command env (split blank command) = (case validate_session_spec env s of Some e \<Rightarrow> Inl e
      | None \<Rightarrow> Inr (if g = 0 then ''START'' else ''UPDATE'', if g = 0 then 0 else g + 1, s))"
proof -
  obtain t where t: "json s = Some t" "split blank command =
    (if g = 0 then [''SESSION'', ''START'', b64_encode t] else [''SESSION'', ''UPDATE'', format_uint (g + 1), b64_encode t])"
    using request_words[OF assms(1)] assms(3) by auto
  have j: "he_json env t = Some s" using assms(2) t(1) by (simp add: json_codec_def)
  have u: "to_upper (trim_space ''START'') = ''START''" "to_upper (trim_space ''UPDATE'') = ''UPDATE''" by code_simp+
  show ?thesis
  proof (cases "g = 0")
    case True
    then show ?thesis using t(2) j u by (simp add: parse_session_command_def Let_def split: option.split)
  next
    case False
    then show ?thesis using t(2) j u by (simp add: parse_session_command_def Let_def split: option.split)
  qed
qed

lemma server_answers:
  assumes "quiet_texts env" and "\<not> h_done h" and "session_request json s g = Some command" and "json_codec json env" and "g + 1 \<noteq> 0"
  shows "\<exists>ms m. h_server_messages (run_command env command h) = h_server_messages h @ ms @ [m] \<and> (\<forall>m\<in>set ms. quiet_message m) \<and>
    \<not> h_done (run_command env command h) \<and> h_hostname (run_command env command h) = h_hostname h \<and>
    (refuses env h (run_command env command h) m \<or> accepts_session g s (run_command env command h) m)"
proof -
  let ?args = "split blank command" and ?n = "h_next_context h"
  let ?ctx = "\<lparr>cc_chain = [?n], cc_cancels = [?n], cc_generation = 0, cc_deadline = None\<rparr>"
  let ?k = "h\<lparr>h_write_buf := butlast (command_frame command), h_next_context := Suc ?n, h_active_commands := h_active_commands h + 1\<rparr>"
  obtain a rest where args: "?args = ''SESSION'' # a # rest" using request_words[OF assms(3)] by (auto split: if_splits)
  obtain h1 m where r: "handle_session_command (inner_callback env) env ?ctx ?args ?k = send m h1" "says ?k h1"
    "refuses env ?k h1 m \<or> accepts_session g s h1 m"
    using session_command_answers[OF assms(1) _ request_parsed[OF assms(3,4,5)] assms(5), of ?k ?ctx] assms(2) by auto
  have s: "split_n '':'' 2 ''SESSION'' = [''SESSION'']" by code_simp
  have nt: "apply_command_timeout ?ctx ?args k = Inr (?ctx, ?args, k)" for k by (simp add: apply_command_timeout_def args)
  have d: "dispatch_command (user_callback env) ?ctx ?args (h\<lparr>h_write_buf := butlast (command_frame command), h_next_context := Suc ?n\<rparr>) =
      (None, command_finished env ''SESSION'' ?ctx (send m h1))"
    unfolding dispatch_command_def nt by (simp add: args s user_callback_def handle_user_command_def command_registry_def)
      (simp add: r(1)[unfolded args])
  have ef: "equal_fold ''SESSION'' ''SESSION''" by code_simp
  let ?r = "command_finished env ''SESSION'' ?ctx (send m h1)"
  have fin: "h_server_messages ?r = h_server_messages (send m h1)" "h_session ?r = h_session h1" "h_done ?r = h_done h1" "h_hostname ?r = h_hostname h1"
    using ef by (simp_all add: command_finished_def Let_def should_shutdown_on_completion_def cancel_command_context_def send_def)
  have run: "run_command env command h = ?r\<lparr>h_write_buf := []\<rparr>"
    unfolding run_command_def run_arguments_def new_command_context_def by (simp add: d[simplified])
  obtain ms where ms: "h_server_messages h1 = h_server_messages h @ ms" "\<forall>m\<in>set ms. quiet_message m" "\<not> h_done h1" "h_hostname h1 = h_hostname h"
    using r(2) assms(2) by (auto simp: says_def)
  have "h_server_messages (run_command env command h) = h_server_messages h @ ms @ [m]"
    unfolding run using fin(1) ms(1,3) by (simp add: send_def)
  moreover have "refuses env h (run_command env command h) m \<or> accepts_session g s (run_command env command h) m"
    using r(3) fin(2) unfolding run by (auto simp: refuses_def accepts_session_def)
  ultimately show ?thesis using ms fin(3,4) unfolding run by auto
qed

subsection \<open>The connection\<close>

text \<open>
  The handler of a connection together with the server at the other end: a request that is sent is run
  by the server, and all it says reaches the client before the client stops waiting.
\<close>

record linked_handler = client_handler +
  ln_server :: server_handler

definition deliver :: "client_env \<Rightarrow> server_handler \<Rightarrow> gostr list \<Rightarrow> linked_handler \<Rightarrow> linked_handler" where
  "deliver cenv sh ms l =
     foldl (\<lambda>l m. client_write cenv (frame_bytes (server_frame (Some (sc_generation (h_session sh))) m sh)) l) l ms"

definition server_reply :: "'r handler_env \<Rightarrow> client_env \<Rightarrow> gostr \<Rightarrow> linked_handler \<Rightarrow> linked_handler" where
  "server_reply env cenv command l =
     (let sh = run_command env command (ln_server l) in
      deliver cenv sh (h_server_messages sh) (l\<lparr>ln_server := sh\<lparr>h_server_messages := []\<rparr>\<rparr>))"

definition link_env :: "'r handler_env \<Rightarrow> client_env \<Rightarrow> linked_handler transport_env" where
  "link_env env cenv = \<lparr>te_client = cenv, te_journal_wait = id, te_update_wait = id, te_send = (\<lambda>i. Taken), te_answer = server_reply env cenv\<rparr>"

lemma quiet_not_generated:
  assumes "m \<noteq> []" and "hd m \<noteq> generation_mark"
  shows "decode_generated_message m = (0, m)"
  using assms by (cases m) (auto simp: decode_generated_message_def has_prefix_def generation_output_prefix_def)

lemma one_message:
  assumes "message_delimiter \<notin> set m" and "ch_receive_buf l = []"
  shows "client_write env (m @ [message_delimiter]) l = handle_message env m l"
  using client_write_message[OF assms, of env "[]"] by simp

lemma visible_message:
  assumes "m = [] \<or> hd m \<noteq> CHR ''.''"
  shows "\<exists>evs. handle_message env m l = l\<lparr>ch_events := evs\<rparr>"
proof -
  have n: "\<not> (m \<noteq> [] \<and> hd m = CHR ''.'')" using assms by auto
  show ?thesis unfolding handle_message_def if_not_P[OF n] handle_auth_key_message_def
    by (cases "parse_auth_key_message m"; (cases "the (parse_auth_key_message m)")?) (auto simp: event_def)
qed

lemma quiet_delivered:
  assumes "quiet_message m" and "message_delimiter \<notin> set (h_hostname sh)" and "ch_receive_buf l = []"
  shows "\<exists>evs. client_write cenv (frame_bytes (server_frame active m sh)) l = l\<lparr>ch_events := evs\<rparr>"
proof -
  have m: "m \<noteq> []" "hd m \<noteq> CHR ''.''" "message_delimiter \<notin> set m" "decode_generated_message m = (0, m)"
    using assms(1) quiet_not_generated by (simp_all add: quiet_message_def)
  have same: "\<exists>evs. l = l\<lparr>ch_events := evs\<rparr>" by (intro exI[of _ "ch_events l"]) simp
  let ?head = "if \<not> h_plain sh then ''SERVER'' @ field_delimiter @ h_hostname sh @ field_delimiter else []"
  have f: "frame_bytes (server_frame active m sh) = [] \<or> frame_bytes (server_frame active m sh) = (?head @ m) @ [message_delimiter]"
    using m by (simp add: server_frame_def should_drop_generation_def frame_bytes_def format_server_message_def)
  have fd: "message_delimiter \<notin> set field_delimiter" "message_delimiter \<notin> set ''SERVER''"
    by (simp_all add: field_delimiter_def message_delimiter_def)
  have d: "message_delimiter \<notin> set (?head @ m)" using assms(2) m(3) fd by simp
  have h: "hd (?head @ m) \<noteq> CHR ''.''" using m(1,2) by simp
  show ?thesis
    using f same visible_message[of "?head @ m" cenv l] h one_message[OF d assms(3), of cenv] by auto
qed

lemma deliver_quiet:
  assumes "\<forall>m\<in>set ms. quiet_message m" and "message_delimiter \<notin> set (h_hostname sh)" and "ch_receive_buf l = []"
  shows "\<exists>evs. deliver cenv sh ms l = l\<lparr>ch_events := evs\<rparr>"
  using assms(1,3)
proof (induction ms arbitrary: l)
  case Nil
  then show ?case by (intro exI[of _ "ch_events l"]) (simp add: deliver_def)
next
  case (Cons m ms)
  obtain evs where e: "client_write cenv (frame_bytes (server_frame (Some (sc_generation (h_session sh))) m sh)) l = l\<lparr>ch_events := evs\<rparr>"
    using quiet_delivered[OF _ assms(2) Cons.prems(2)] Cons.prems(1) by (meson list.set_intros(1))
  obtain evs2 where "deliver cenv sh ms (l\<lparr>ch_events := evs\<rparr>) = l\<lparr>ch_events := evs\<rparr>\<lparr>ch_events := evs2\<rparr>"
    using Cons.IH[of "l\<lparr>ch_events := evs\<rparr>"] Cons.prems by auto
  then show ?case using e by (auto simp: deliver_def)
qed

lemma deliver_append: "deliver cenv sh (ms @ ns) l = deliver cenv sh ns (deliver cenv sh ms l)"
  by (simp add: deliver_def)

text \<open>The control message at the end.\<close>

lemma control_delivered:
  assumes "m = ''.syn session '' @ rest" and "message_delimiter \<notin> set m" and "ch_receive_buf l = []"
  shows "deliver cenv sh [m] l = handle_hidden_message cenv m l"
proof -
  have h: "m \<noteq> []" "hd m = CHR ''.''" "hd m \<noteq> generation_mark" by (simp_all add: assms(1) generation_mark_def)
  have "frame_bytes (server_frame active m sh) = m @ [message_delimiter]" for active
    using quiet_not_generated[OF h(1,3)] h(1,2) by (simp add: server_frame_def should_drop_generation_def frame_bytes_def)
  then have "deliver cenv sh [m] l = client_write cenv (m @ [message_delimiter]) l" by (simp add: deliver_def)
  moreover have "handle_message cenv m l = handle_hidden_message cenv m l" unfolding handle_message_def using h(1,2) by simp
  ultimately show ?thesis using one_message[OF assms(2,3), of cenv] by simp
qed

lemma trim_left_rev_suffix: "suffix (trim_left_rev s) s"
  by (induction s rule: trim_left_rev.induct)
    (subst trim_left_rev.simps, auto intro: suffix_drop suffix_order.trans)

lemma trim_space_prefix: "s \<noteq> [] \<Longrightarrow> solid (hd s) \<Longrightarrow> prefix (trim_space s) s"
proof -
  assume s: "s \<noteq> []" "solid (hd s)"
  have "trim_left s = s" using space_len_solid[of "hd s" "tl s"] s by (subst trim_left.simps) simp
  then show ?thesis using trim_left_rev_suffix[of "rev s"] by (simp add: trim_space_def suffix_to_prefix)
qed

lemma error_answer:
  "parse_session_ack_message (session_ack_error @ t) = None \<or>
   (\<exists>ack. parse_session_ack_message (session_ack_error @ t) = Some ack \<and> ack_action ack = ''error'')"
proof -
  let ?m = "session_ack_error @ t"
  have p: "prefix (trim_space ?m) ?m" by (rule trim_space_prefix) (simp_all add: session_ack_error_def solid_dot)
  have n: "\<not> prefix hidden_session_start_ok_prefix ?m" "\<not> prefix hidden_session_update_ok_prefix ?m"
    by (simp_all add: hidden_session_start_ok_prefix_def hidden_session_update_ok_prefix_def session_ack_error_def)
  have "\<not> has_prefix (trim_space ?m) hidden_session_start_ok_prefix" "\<not> has_prefix (trim_space ?m) hidden_session_update_ok_prefix"
    using prefix_order.trans[OF _ p] n unfolding has_prefix_def by blast+
  then show ?thesis by (simp add: parse_session_ack_message_def Let_def)
qed

lemma answer_arrives:
  assumes "refuses env h h' m \<or> accepts_session g s h' m" and "ch_receive_buf l = []" and "ch_acks l = []" and "\<not> ch_done l"
  shows "\<exists>evs acks. deliver cenv sh [m] l = l\<lparr>ch_events := evs, ch_acks := acks\<rparr> \<and>
    (acks = [] \<and> refuses env h h' m \<or> (\<exists>a. acks = [a] \<and> ack_action a = ''error'' \<and> refuses env h h' m) \<or>
     acks = [\<lparr>ack_action = if g = 0 then ''start'' else ''update'', ack_generation = g + 1, ack_error = []\<rparr>] \<and> accepts_session g s h' m)"
  using assms(1)
proof
  assume r: "refuses env h h' m"
  then obtain t where t: "m = session_ack_error @ t" "message_delimiter \<notin> set t" by (auto simp: refuses_def)
  have d: "message_delimiter \<notin> set m" using t by (simp add: session_ack_error_def message_delimiter_def)
  have "deliver cenv sh [m] l = handle_hidden_message cenv m l"
    by (rule control_delivered[OF _ d assms(2), of "''err '' @ t"]) (simp add: t(1) session_ack_error_def)
  also have "\<dots> = handle_session_ack_message cenv m l"
    by (simp add: handle_hidden_message_def t(1) session_ack_error_def hidden_session_error_prefix_def has_prefix_def
        hidden_capabilities_prefix_def)
  finally have e: "deliver cenv sh [m] l = handle_session_ack_message cenv m l" .
  have x: "l\<lparr>ch_events := evs, ch_acks := []\<rparr> = l\<lparr>ch_events := evs\<rparr>" for evs using assms(3) by (cases l) simp
  show ?thesis
  proof (cases "parse_session_ack_message m")
    case None
    then have "deliver cenv sh [m] l = l\<lparr>ch_events := ch_events l @ [BadSessionAck m], ch_acks := []\<rparr>"
      using e x by (simp add: handle_session_ack_message_def event_def)
    then show ?thesis using r by blast
  next
    case (Some a)
    then have a: "ack_action a = ''error''" using error_answer[of t] t(1) by simp
    have "deliver cenv sh [m] l = l\<lparr>ch_events := ch_events l, ch_acks := [a]\<rparr>"
      using e Some assms(3,4) by (simp add: handle_session_ack_message_def ack_queue_size_def)
    then show ?thesis using r a by blast
  qed
next
  assume a: "accepts_session g s h' m"
  let ?a = "\<lparr>ack_action = if g = 0 then ''start'' else ''update'', ack_generation = g + 1, ack_error = []\<rparr>"
  have m: "m = (if g = 0 then session_ack_start_ok else session_ack_update_ok) @ blank @ format_uint (g + 1)" using a by (simp add: accepts_session_def)
  have nd: "message_delimiter \<notin> set (format_uint (g + 1))" using format_uint_digits[of message_delimiter "g + 1"] by (auto simp: message_delimiter_def digit_val_def)
  have d: "message_delimiter \<notin> set m" using m nd by (simp add: session_ack_start_ok_def session_ack_update_ok_def blank_def message_delimiter_def)
  have "deliver cenv sh [m] l = handle_hidden_message cenv m l"
    by (rule control_delivered[OF _ d assms(2), of "drop (length ''.syn session '') m"])
      (simp add: m session_ack_start_ok_def session_ack_update_ok_def)
  also have "\<dots> = handle_session_ack_message cenv m l"
    by (simp add: handle_hidden_message_def m session_ack_start_ok_def session_ack_update_ok_def hidden_session_start_ok_prefix_def
        hidden_session_update_ok_prefix_def has_prefix_def hidden_capabilities_prefix_def)
  finally have e: "deliver cenv sh [m] l = handle_session_ack_message cenv m l" .
  have eq: "m = (if g = 0 then hidden_session_start_ok_prefix @ CHR '' '' # format_uint (g + 1)
      else hidden_session_update_ok_prefix @ CHR '' '' # format_uint (g + 1))"
    by (simp add: m session_ack_start_ok_def session_ack_update_ok_def hidden_session_start_ok_prefix_def hidden_session_update_ok_prefix_def blank_def)
  have "parse_session_ack_message m = Some ?a"
    unfolding eq by (cases "g = 0") (simp_all only: simp_thms if_True if_False start_ack_parses update_ack_parses)
  then have "deliver cenv sh [m] l = l\<lparr>ch_events := ch_events l, ch_acks := [?a]\<rparr>"
    using e assms(3,4) by (simp add: handle_session_ack_message_def ack_queue_size_def)
  then show ?thesis using a by blast
qed

text \<open>What both ends know of the session.\<close>

definition session_agrees :: "committed_session \<Rightarrow> session_command_state \<Rightarrow> bool" where
  "session_agrees c sc \<longleftrightarrow>
     (cs_committed c \<longleftrightarrow> cs_generation c \<noteq> 0) \<and> (sc_active sc \<longrightarrow> cs_committed c \<and> sc_generation sc = cs_generation c \<and> sc_spec sc = cs_spec c)"

definition link_inv :: "linked_handler \<times> committed_session \<Rightarrow> bool" where
  "link_inv lc \<longleftrightarrow>
     (case lc of (l, c) \<Rightarrow>
        \<not> ch_done l \<and> ch_receive_buf l = [] \<and> ch_capabilities_known l \<and> has_capability capability_query_update l \<and>
        \<not> h_done (ln_server l) \<and> h_server_messages (ln_server l) = [] \<and> message_delimiter \<notin> set (h_hostname (ln_server l)) \<and>
        session_agrees c (h_session (ln_server l)))"

lemma link_apply:
  assumes "quiet_texts env" and "json_codec json env" and "link_inv (l, c)" and "cs_generation c + 1 \<noteq> 0"
    and "apply_session_spec json (link_env env cenv) server s timeout (l, c) = (e, l1, c1)"
  shows "link_inv (l1, c1) \<and>
    (e = None \<longrightarrow> c1 = \<lparr>cs_committed = True, cs_generation = cs_generation c + 1, cs_spec = s\<rparr> \<and>
      sc_active (h_session (ln_server l1)) \<and> sc_generation (h_session (ln_server l1)) = cs_generation c + 1 \<and> sc_spec (h_session (ln_server l1)) = s) \<and>
    (e \<noteq> None \<longrightarrow> c1 = c \<and> (h_session (ln_server l1) = h_session (ln_server l) \<or> \<not> sc_active (h_session (ln_server l1)))) \<and>
    (\<forall>command. \<not> has_journal_files s \<and> session_request json s (cs_generation c) = Some command \<longrightarrow>
       h_session (ln_server l1) = h_session (run_command env command (ln_server l)))"
proof -
  let ?te = "link_env env cenv" and ?g = "cs_generation c"
  have te: "te_client ?te = cenv" "te_journal_wait ?te = id" "te_update_wait ?te = id" "te_send ?te = (\<lambda>i. Taken)" "te_answer ?te = server_reply env cenv"
    by (simp_all add: link_env_def)
  have inv: "\<not> ch_done l" "ch_receive_buf l = []" "ch_capabilities_known l" "has_capability capability_query_update l" "\<not> h_done (ln_server l)"
    "h_server_messages (ln_server l) = []" "message_delimiter \<notin> set (h_hostname (ln_server l))" "session_agrees c (h_session (ln_server l))"
    using assms(3) by (simp_all add: link_inv_def)
  obtain je l2 where j: "require_journal_capability ?te server s default_capability_wait l = (je, l2)" by fastforce
  have l2: "je = None \<longrightarrow> l2 = l" "link_inv (l2, c)" "ln_server l2 = ln_server l"
    using j inv by (auto simp: require_journal_capability_def te Let_def link_inv_def report_server_error_def event_def has_capability_def split: if_splits)
  have up: "supports_query_updates ?te default_capability_wait l = (True, l)"
    using inv(1,3,4) by (simp add: supports_query_updates_def te Let_def wait_for_capabilities_def)
  have ap: "(e, l1, c1) = (case je of Some x \<Rightarrow> (Some x, l2, c) | None \<Rightarrow>
      (case session_request json s ?g of None \<Rightarrow> (Some NotEncodable, l, c)
       | Some command \<Rightarrow>
          (case wait_for_session_ack cenv (resolve_session_ack_timeout timeout)
              (server_reply env cenv command (l\<lparr>ch_acks := [], ch_commands := ch_commands l @ [command_frame command]\<rparr>)) of
             (None, l4) \<Rightarrow> (Some AckTimeout, l4, c)
           | (Some ack, l4) \<Rightarrow> (case check_session_ack ?g ack of Some x \<Rightarrow> (Some x, l4, c)
               | None \<Rightarrow> (None, l4, commit_session s (ack_generation ack) c)))))"
  proof (cases je)
    case None
    then show ?thesis using assms(5) j l2(1) up
      by (simp add: apply_session_spec_def apply_session_spec_with_generation_def Let_def te send_message_def drain_session_acks_eq cong: option.case_cong)
  next
    case (Some x)
    have "(e, l1, c1) = (Some x, l2, c)" using assms(5) j Some
      by (simp add: apply_session_spec_def apply_session_spec_with_generation_def Let_def)
    then show ?thesis unfolding Some option.case .
  qed
  show ?thesis
  proof (cases "je = None \<and> session_request json s ?g \<noteq> None")
    case False
    then have "e \<noteq> None" "c1 = c" "l1 = l2 \<or> l1 = l" using ap by (auto split: option.splits)
    moreover have "je = None \<or> has_journal_files s" using j by (auto simp: require_journal_capability_def split: if_splits)
    ultimately show ?thesis using l2(2,3) assms(3) False by auto
  next
    case True
    then obtain command where command: "session_request json s ?g = Some command" by blast
    let ?sh = "run_command env command (ln_server l)"
    let ?l = "l\<lparr>ch_acks := [], ch_commands := ch_commands l @ [command_frame command]\<rparr>"
    obtain ms m where ms: "h_server_messages ?sh = ms @ [m]" "\<forall>m\<in>set ms. quiet_message m" "\<not> h_done ?sh" "h_hostname ?sh = h_hostname (ln_server l)"
      "refuses env (ln_server l) ?sh m \<or> accepts_session ?g s ?sh m"
      using server_answers[OF assms(1) inv(5) command assms(2,4)] inv(6) by auto
    let ?l3 = "?l\<lparr>ln_server := ?sh\<lparr>h_server_messages := []\<rparr>\<rparr>"
    have hn: "message_delimiter \<notin> set (h_hostname ?sh)" using ms(4) inv(7) by simp
    obtain evs where evs: "deliver cenv ?sh ms ?l3 = ?l3\<lparr>ch_events := evs\<rparr>"
      using deliver_quiet[OF ms(2) hn, of ?l3 cenv] inv(2) by auto
    obtain evs2 acks where acks: "deliver cenv ?sh [m] (?l3\<lparr>ch_events := evs\<rparr>) = ?l3\<lparr>ch_events := evs\<rparr>\<lparr>ch_events := evs2, ch_acks := acks\<rparr>"
      "acks = [] \<and> refuses env (ln_server l) ?sh m \<or> (\<exists>a. acks = [a] \<and> ack_action a = ''error'' \<and> refuses env (ln_server l) ?sh m) \<or>
       acks = [\<lparr>ack_action = if ?g = 0 then ''start'' else ''update'', ack_generation = ?g + 1, ack_error = []\<rparr>] \<and> accepts_session ?g s ?sh m"
      using answer_arrives[OF ms(5), of "?l3\<lparr>ch_events := evs\<rparr>" cenv ?sh] inv(1,2) by auto
    let ?l4 = "?l3\<lparr>ch_events := evs2, ch_acks := acks\<rparr>"
    have rep: "server_reply env cenv command ?l = ?l4"
      unfolding server_reply_def Let_def using ms(1) evs acks(1) by (simp add: deliver_append)
    have li: "link_inv (?l4\<lparr>ch_acks := as\<rparr>, c2) \<longleftrightarrow> session_agrees c2 (h_session ?sh)" for as c2
      using inv ms(3) hn by (simp add: link_inv_def has_capability_def)
    have li0: "link_inv (?l4, c2) \<longleftrightarrow> session_agrees c2 (h_session ?sh)" for c2
      using inv ms(3) hn by (simp add: link_inv_def has_capability_def)
    have w: "wait_for_session_ack cenv (resolve_session_ack_timeout timeout) ?l4 = (case acks of [] \<Rightarrow> (None, ?l4) | a # as \<Rightarrow> (Some a, ?l4\<lparr>ch_acks := as\<rparr>))"
      using inv(1) by (cases acks) (simp_all add: wait_for_session_ack_def)
    have kept: "session_agrees c (h_session ?sh)" "h_session ?sh = h_session (ln_server l) \<or> \<not> sc_active (h_session ?sh)"
      if "refuses env (ln_server l) ?sh m"
      using that inv(8) by (auto simp: refuses_def session_agrees_def)
    from acks(2) show ?thesis
    proof (elim disjE exE conjE)
      assume a: "acks = []" "refuses env (ln_server l) ?sh m"
      then have "e = Some AckTimeout" "l1 = ?l4" "c1 = c" using ap True command rep w by simp_all
      then show ?thesis using kept[OF a(2)] li0 command by simp
    next
      fix a
      assume a: "acks = [a]" "ack_action a = ''error''" "refuses env (ln_server l) ?sh m"
      then have "check_session_ack ?g a \<noteq> None" by (auto simp: check_ack_none split: if_splits)
      then obtain x where "check_session_ack ?g a = Some x" by blast
      then have "e = Some x" "l1 = ?l4\<lparr>ch_acks := []\<rparr>" "c1 = c" using ap True command rep w a(1) by simp_all
      then show ?thesis using kept[OF a(3)] li command by simp
    next
      assume a: "acks = [\<lparr>ack_action = if ?g = 0 then ''start'' else ''update'', ack_generation = ?g + 1, ack_error = []\<rparr>]" "accepts_session ?g s ?sh m"
      have ck: "check_session_ack ?g \<lparr>ack_action = if ?g = 0 then ''start'' else ''update'', ack_generation = ?g + 1, ack_error = []\<rparr> = None"
        using assms(4) by (simp add: check_ack_none)
      have k: "e = None" "l1 = ?l4\<lparr>ch_acks := []\<rparr>" "c1 = commit_session s (?g + 1) c"
        using ap True command rep w a(1) ck by simp_all
      have "session_agrees c1 (h_session ?sh)" using a(2) k(3) assms(4) by (simp add: accepts_session_def session_agrees_def commit_session_def)
      then show ?thesis using a(2) k li command by (simp add: accepts_session_def commit_session_def)
    qed
  qed
qed

subsection \<open>Properties\<close>

text \<open>
  Specifications are applied one after the other. Between them the server does what it wants: its session
  may end, but it stays with the specification and the generation that it has.
\<close>

inductive link_step :: "'r handler_env \<Rightarrow> (spec \<Rightarrow> gostr option) \<Rightarrow> client_env \<Rightarrow> linked_handler \<times> committed_session \<Rightarrow>
    linked_handler \<times> committed_session \<Rightarrow> bool" for env json cenv where
  applied: "apply_session_spec json (link_env env cenv) server s timeout (l, c) = (e, l1, c1) \<Longrightarrow> cs_generation c + 1 \<noteq> 0 \<Longrightarrow>
    link_step env json cenv (l, c) (l1, c1)"
| served: "h_session sh = h_session (ln_server l) \<or> \<not> sc_active (h_session sh) \<Longrightarrow> \<not> h_done sh \<Longrightarrow> h_server_messages sh = [] \<Longrightarrow>
    h_hostname sh = h_hostname (ln_server l) \<Longrightarrow> link_step env json cenv (l, c) (l\<lparr>ln_server := sh\<rparr>, c)"

definition link_start :: "linked_handler \<Rightarrow> bool" where
  "link_start l \<longleftrightarrow>
     \<not> ch_done l \<and> ch_receive_buf l = [] \<and> ch_capabilities_known l \<and> has_capability capability_query_update l \<and>
     \<not> h_done (ln_server l) \<and> h_server_messages (ln_server l) = [] \<and> message_delimiter \<notin> set (h_hostname (ln_server l)) \<and>
     \<not> sc_active (h_session (ln_server l))"

lemma link_reaches_inv:
  assumes "(link_step env json cenv)\<^sup>*\<^sup>* (l0, zero_committed) lc" and "link_start l0" and "quiet_texts env" and "json_codec json env"
  shows "link_inv lc"
  using assms(1)
proof (induction rule: rtranclp_induct)
  case base
  then show ?case using assms(2) by (simp add: link_start_def link_inv_def session_agrees_def zero_committed_def)
next
  case (step lc lc1)
  from step.hyps(2) show ?case
  proof cases
    case (applied server s timeout l c e l1 c1)
    then show ?thesis using link_apply[OF assms(3,4) _ applied(4,3)] step.IH by simp
  next
    case (served sh l c)
    then show ?thesis using step.IH by (auto simp: link_inv_def session_agrees_def has_capability_def)
  qed
qed


definition sample_json :: "spec \<Rightarrow> gostr option" where
  "sample_json s = (if s = sample_spec then Some ''pay'' else None)"

definition sample_link :: linked_handler where
  "sample_link = client_handler.extend
     ((new_client_handler ''srv'')\<lparr>ch_capabilities := [capability_query_update], ch_capabilities_known := True\<rparr>)
     (linked_handler.fields ((sample_handler 0)\<lparr>h_server_messages := []\<rparr>))"


end
