(* ===== verification/Reload.thy ===== *)
theory Reload
  imports Session_Transport
begin

text \<open>
  The change of the workload of all connections at once, and its undoing when one of them fails
  (\<open>applyInteractiveReload\<close> and what it calls in \<open>internal/clients/interactive_control.go\<close>). A connection is
  what the interface \<open>connectors.Connector\<close> gives: the record \<open>connector\<close> of its operations on a state \<open>'c\<close>.
\<close>

subsection \<open>Connections\<close>

record 'c connector =
  k_server :: "'c \<Rightarrow> gostr"
  k_supports :: "int \<Rightarrow> 'c \<Rightarrow> bool \<times> 'c"
  k_apply :: "spec \<Rightarrow> uint64 option \<Rightarrow> int \<Rightarrow> 'c \<Rightarrow> transport_error option \<times> 'c"
  k_committed :: "'c \<Rightarrow> committed_session"

text \<open>A connection with its handler; what happens during its next application is \<open>cn_world\<close> at \<open>cn_clock\<close>.\<close>

record connection =
  cn_server :: gostr
  cn_handler :: client_handler
  cn_session :: committed_session
  cn_world :: "nat \<Rightarrow> client_handler transport_env"
  cn_clock :: nat

definition connection_supports :: "int \<Rightarrow> connection \<Rightarrow> bool \<times> connection" where
  "connection_supports timeout cn =
     (case supports_query_updates (cn_world cn (cn_clock cn)) timeout (cn_handler cn) of
        (ok, h) \<Rightarrow> (ok, cn\<lparr>cn_handler := h, cn_clock := Suc (cn_clock cn)\<rparr>))"

definition connection_apply :: "(spec \<Rightarrow> gostr option) \<Rightarrow> spec \<Rightarrow> uint64 option \<Rightarrow> int \<Rightarrow> connection \<Rightarrow>
    transport_error option \<times> connection" where
  "connection_apply json s base timeout cn =
     (case apply_session_spec_with_generation json (cn_world cn (cn_clock cn)) (cn_server cn) s base timeout (cn_handler cn, cn_session cn) of
        (e, h, c) \<Rightarrow> (e, cn\<lparr>cn_handler := h, cn_session := c, cn_clock := Suc (cn_clock cn)\<rparr>))"

definition server_connector :: "(spec \<Rightarrow> gostr option) \<Rightarrow> connection connector" where
  "server_connector json =
     \<lparr>k_server = cn_server, k_supports = connection_supports, k_apply = connection_apply json, k_committed = cn_session\<rparr>"

subsection \<open>Reloading\<close>

definition interactive_control_timeout :: int where
  "interactive_control_timeout = 2000000000"

record reload_state =
  rs_index :: nat
  rs_spec :: spec
  rs_rollback :: uint64

datatype 'e reload_error =
    NoConnections
  | UnsupportedServers "gostr list"
  | ApplyFailed gostr transport_error
  | MissingCommitted gostr
  | MismatchedGenerations uint64 uint64
  | CommitFailed 'e

definition should_rollback_failed_reload :: "transport_error \<Rightarrow> bool" where
  "should_rollback_failed_reload e = (e = AckTimeout \<or> unexpected_ack e)"

text \<open>
  The loop over the connections, which keeps the connections it has applied the specification to and
  the generation of the first of them. The connections that it gives back are all of them, changed or not.
\<close>

fun apply_reload_loop :: "'c connector \<Rightarrow> spec \<Rightarrow> nat \<Rightarrow> uint64 \<Rightarrow> reload_state list \<Rightarrow> 'c list \<Rightarrow>
    reload_state list \<times> uint64 \<times> 'e reload_error option \<times> 'c list" where
  "apply_reload_loop k s i generation applied [] = (applied, generation, None, [])"
| "apply_reload_loop k s i generation applied (conn # conns) =
     (let prev = k_committed k conn in
      case k_apply k s None interactive_control_timeout conn of
        (Some e, conn1) \<Rightarrow>
          (if should_rollback_failed_reload e
           then applied @ [\<lparr>rs_index = i, rs_spec = cs_spec prev,
                  rs_rollback = (if generation = 0 then cs_generation prev else generation)\<rparr>]
           else applied,
           0, Some (ApplyFailed (k_server k conn) e), conn1 # conns)
      | (None, conn1) \<Rightarrow>
          (let c = k_committed k conn1; done_one = (\<lambda>g. applied @ [\<lparr>rs_index = i, rs_spec = cs_spec prev, rs_rollback = g\<rparr>]) in
           if \<not> cs_committed c \<or> cs_generation c = 0 then (done_one 0, 0, Some (MissingCommitted (k_server k conn)), conn1 # conns)
           else if generation \<noteq> 0 \<and> generation \<noteq> cs_generation c
           then (done_one (cs_generation c), 0, Some (MismatchedGenerations generation (cs_generation c)), conn1 # conns)
           else
             (case apply_reload_loop k s (Suc i) (cs_generation c) (done_one (cs_generation c)) conns of
                (applied1, g, e, conns1) \<Rightarrow> (applied1, g, e, conn1 # conns1))))"

definition apply_reload_connections :: "'c connector \<Rightarrow> spec \<Rightarrow> 'c list \<Rightarrow> reload_state list \<times> uint64 \<times> 'e reload_error option \<times> 'c list" where
  "apply_reload_connections k s conns = apply_reload_loop k s 0 0 [] conns"

text \<open>The connections that were applied to, from the last to the first, with the errors of the servers.\<close>

fun rollback_loop :: "'c connector \<Rightarrow> reload_state list \<Rightarrow> 'c list \<Rightarrow> (gostr \<times> transport_error) list \<times> 'c list" where
  "rollback_loop k [] conns = ([], conns)"
| "rollback_loop k (r # rs) conns =
     (case k_apply k (rs_spec r) (Some (rs_rollback r)) interactive_control_timeout (conns ! rs_index r) of
        (e, conn1) \<Rightarrow>
          (case rollback_loop k rs (conns[rs_index r := conn1]) of
             (es, conns1) \<Rightarrow> ((case e of None \<Rightarrow> es | Some x \<Rightarrow> (k_server k (conns ! rs_index r), x) # es), conns1)))"

definition rollback_reload_connections :: "'c connector \<Rightarrow> reload_state list \<Rightarrow> 'c list \<Rightarrow> (gostr \<times> transport_error) list \<times> 'c list" where
  "rollback_reload_connections k applied conns = rollback_loop k (rev applied) conns"

record ('c, 'm) reload_client =
  rc_args :: client_args
  rc_spec :: spec
  rc_connections :: "'c list"
  rc_maker :: 'm

definition store_reload_state :: "client_args \<Rightarrow> spec \<Rightarrow> ('c, 'm) reload_client \<Rightarrow> ('c, 'm) reload_client" where
  "store_reload_state a s c = c\<lparr>rc_args := a, rc_spec := s\<rparr>"

definition rollback_reload :: "'c connector \<Rightarrow> reload_state list \<Rightarrow> client_args \<Rightarrow> spec \<Rightarrow> 'e reload_error \<Rightarrow> ('c, 'm) reload_client \<Rightarrow>
    ('e reload_error \<times> (gostr \<times> transport_error) list) option \<times> ('c, 'm) reload_client" where
  "rollback_reload k applied prev_args prev_spec e c =
     (case rollback_reload_connections k applied (rc_connections c) of
        (es, conns) \<Rightarrow> (Some (e, es), store_reload_state prev_args prev_spec (c\<lparr>rc_connections := conns\<rparr>)))"

fun check_supported :: "'c connector \<Rightarrow> 'c list \<Rightarrow> gostr list \<times> 'c list" where
  "check_supported k [] = ([], [])"
| "check_supported k (conn # conns) =
     (case k_supports k interactive_control_timeout conn of
        (ok, conn1) \<Rightarrow>
          (case check_supported k conns of
             (unsupported, conns1) \<Rightarrow> (if ok then unsupported else k_server k conn # unsupported, conn1 # conns1)))"

text \<open>
  \<open>commit\<close> is \<open>commitSessionSpec\<close> of the maker, for makers that have it. It may change the maker and the
  arguments of the client.
\<close>

definition apply_interactive_reload :: "'c connector \<Rightarrow>
    (spec \<Rightarrow> uint64 \<Rightarrow> client_args \<times> 'm \<Rightarrow> 'e option \<times> client_args \<times> 'm) option \<Rightarrow> client_args \<Rightarrow> spec \<Rightarrow>
    ('c, 'm) reload_client \<Rightarrow> ('e reload_error \<times> (gostr \<times> transport_error) list) option \<times> ('c, 'm) reload_client" where
  "apply_interactive_reload k commit next_args next_spec c =
     (if rc_connections c = [] then (Some (NoConnections, []), c)
      else
        case check_supported k (rc_connections c) of
          (unsupported, conns) \<Rightarrow>
            (if unsupported \<noteq> [] then (Some (UnsupportedServers unsupported, []), c\<lparr>rc_connections := conns\<rparr>)
             else
               case apply_reload_connections k next_spec conns of
                 (applied, g, Some e, conns1) \<Rightarrow> rollback_reload k applied (rc_args c) (rc_spec c) e (c\<lparr>rc_connections := conns1\<rparr>)
               | (applied, g, None, conns1) \<Rightarrow>
                   (case (case commit of None \<Rightarrow> (None, rc_args c, rc_maker c) | Some f \<Rightarrow> f next_spec g (rc_args c, rc_maker c)) of
                      (e, a, m) \<Rightarrow>
                        (let c1 = c\<lparr>rc_connections := conns1, rc_args := a, rc_maker := m\<rparr> in
                         case e of
                           Some x \<Rightarrow> rollback_reload k applied (rc_args c) (rc_spec c) (CommitFailed x) c1
                         | None \<Rightarrow> (None, store_reload_state next_args next_spec c1)))))"

subsection \<open>What a connection promises\<close>

text \<open>
  The contract of the interface: an application without an error commits the specification, in the
  generation after its base if there is one; one with an error leaves what was committed.
\<close>

locale session_connector =
  fixes k :: "'c connector"
  assumes applied: "k_apply k s base t c = (None, c1) \<Longrightarrow> cs_committed (k_committed k c1) \<and> cs_spec (k_committed k c1) = s \<and>
      cs_generation (k_committed k c1) \<noteq> 0 \<and>
      ((case base of None \<Rightarrow> cs_generation (k_committed k c) | Some g \<Rightarrow> g) \<noteq> 0 \<longrightarrow>
        cs_generation (k_committed k c1) = (case base of None \<Rightarrow> cs_generation (k_committed k c) | Some g \<Rightarrow> g) + 1)"
    and refused: "k_apply k s base t c = (Some e, c1) \<Longrightarrow> k_committed k c1 = k_committed k c"
    and asked: "k_committed k (snd (k_supports k t c)) = k_committed k c"
begin

lemma loop_success:
  assumes "apply_reload_loop k s i g ap conns = (ap1, g1, None :: 'e reload_error option, conns1)"
  shows "length conns1 = length conns \<and> (conns = [] \<longrightarrow> g1 = g) \<and> (conns \<noteq> [] \<longrightarrow> g1 \<noteq> 0 \<and> (g \<noteq> 0 \<longrightarrow> g1 = g)) \<and>
    (\<forall>c\<in>set conns1. k_committed k c = \<lparr>cs_committed = True, cs_generation = g1, cs_spec = s\<rparr>)"
  using assms
proof (induction conns arbitrary: i g ap ap1 g1 conns1)
  case (Cons conn conns)
  obtain conn1 where a: "k_apply k s None interactive_control_timeout conn = (None, conn1)"
    using Cons.prems by (cases "k_apply k s None interactive_control_timeout conn"; cases "fst (k_apply k s None interactive_control_timeout conn)")
      (auto simp: Let_def split: if_splits)
  let ?c = "k_committed k conn1"
  have c: "cs_committed ?c" "cs_spec ?c = s" "cs_generation ?c \<noteq> 0" using applied[OF a] by simp_all
  have m: "g = 0 \<or> g = cs_generation ?c" using Cons.prems c a by (auto simp: Let_def split: if_splits)
  obtain ap2 g2 conns2 and e2 :: "'e reload_error option" where r: "apply_reload_loop k s (Suc i) (cs_generation ?c)
      (ap @ [\<lparr>rs_index = i, rs_spec = cs_spec (k_committed k conn), rs_rollback = cs_generation ?c\<rparr>]) conns = (ap2, g2, e2, conns2)"
    by (metis prod.collapse)
  have e: "e2 = None" "g1 = g2" "conns1 = conn1 # conns2" using Cons.prems a c m r by (auto simp: Let_def)
  note ih = Cons.IH[OF r[unfolded e(1)]]
  have g2: "g2 = cs_generation ?c" using ih c(3) by (cases "conns = []") auto
  have "?c = \<lparr>cs_committed = True, cs_generation = g2, cs_spec = s\<rparr>" using c g2 by (cases ?c) simp
  then show ?case using ih e m g2 c(3) by auto
qed simp

lemma check_supported_keeps:
  "check_supported k conns = (us, conns1) \<Longrightarrow> length conns1 = length conns \<and> map (k_committed k) conns1 = map (k_committed k) conns"
proof (induction conns arbitrary: us conns1)
  case (Cons conn conns)
  obtain ok conn1 where o: "k_supports k interactive_control_timeout conn = (ok, conn1)" by fastforce
  have "k_committed k conn1 = k_committed k conn" using asked[of interactive_control_timeout conn] o by simp
  then show ?case using Cons o by (auto split: prod.splits)
qed simp

end

subsection \<open>All or nothing\<close>

context session_connector
begin

text \<open>What the loop records of the connections it has changed, and that it changes no others.\<close>

lemma loop_records:
  assumes "apply_reload_loop k s i g ap conns = (ap1, g1, e, conns1)"
  shows "length conns1 = length conns \<and> (\<exists>rs. ap1 = ap @ rs \<and> distinct (map rs_index rs) \<and> rs_index ` set rs \<subseteq> {i..<i + length conns} \<and>
    (\<forall>r\<in>set rs. rs_spec r = cs_spec (k_committed k (conns ! (rs_index r - i)))) \<and>
    (\<forall>j<length conns. i + j \<notin> rs_index ` set rs \<longrightarrow> k_committed k (conns1 ! j) = k_committed k (conns ! j)))"
  using assms
proof (induction conns arbitrary: i g ap ap1 g1 conns1)
  case Nil
  then show ?case by auto
next
  case (Cons conn conns)
  let ?prev = "cs_spec (k_committed k conn)"
  have one: ?case if "ap1 = ap @ [\<lparr>rs_index = i, rs_spec = ?prev, rs_rollback = x\<rparr>]" "conns1 = conn1 # conns" for x conn1
    using that by (intro conjI exI[of _ "[\<lparr>rs_index = i, rs_spec = ?prev, rs_rollback = x\<rparr>]"]) (auto simp: nth_Cons split: nat.split)
  obtain e0 conn1 where a: "k_apply k s None interactive_control_timeout conn = (e0, conn1)" by fastforce
  show ?case
  proof (cases e0)
    case (Some x)
    have k: "k_committed k conn1 = k_committed k conn" using refused a Some by blast
    show ?thesis
    proof (cases "should_rollback_failed_reload x")
      case True
      then show ?thesis using one Cons.prems a Some by (auto simp: Let_def)
    next
      case False
      then have "ap1 = ap" "conns1 = conn1 # conns" using Cons.prems a Some by (auto simp: Let_def)
      then show ?thesis using k by (intro conjI exI[of _ "[]"]) (auto simp: nth_Cons split: nat.split)
    qed
  next
    case None
    let ?c = "k_committed k conn1"
    show ?thesis
    proof (cases "\<not> cs_committed ?c \<or> cs_generation ?c = 0 \<or> g \<noteq> 0 \<and> g \<noteq> cs_generation ?c")
      case True
      then show ?thesis using one Cons.prems a None by (auto simp: Let_def split: if_splits)
    next
      case False
      let ?r = "\<lparr>rs_index = i, rs_spec = ?prev, rs_rollback = cs_generation ?c\<rparr>"
      obtain conns2 where r: "apply_reload_loop k s (Suc i) (cs_generation ?c) (ap @ [?r]) conns = (ap1, g1, e, conns2)" "conns1 = conn1 # conns2"
        using Cons.prems a None False by (auto simp: Let_def split: prod.splits)
      from Cons.IH[OF r(1)] obtain rs where l: "length conns2 = length conns"
        and rs: "ap1 = (ap @ [?r]) @ rs" "distinct (map rs_index rs)" "rs_index ` set rs \<subseteq> {Suc i..<Suc i + length conns}"
          "\<forall>r\<in>set rs. rs_spec r = cs_spec (k_committed k (conns ! (rs_index r - Suc i)))"
          "\<forall>j<length conns. Suc i + j \<notin> rs_index ` set rs \<longrightarrow> k_committed k (conns2 ! j) = k_committed k (conns ! j)" by blast
      have sp: "rs_spec r = cs_spec (k_committed k ((conn # conns) ! (rs_index r - i)))" if "r \<in> set (?r # rs)" for r
      proof (cases "r = ?r")
        case False
        then have m: "r \<in> set rs" using that by simp
        then have "Suc i \<le> rs_index r" using rs(3) by auto
        then have "rs_index r - i = Suc (rs_index r - Suc i)" by simp
        then show ?thesis using rs(4) m by simp
      qed simp
      have kept: "k_committed k (conns1 ! j) = k_committed k ((conn # conns) ! j)" if "j < length (conn # conns)" "i + j \<notin> rs_index ` set (?r # rs)" for j
        using that rs(5) r(2) by (cases j) auto
      show ?thesis
        using l r(2) rs(1-3) sp kept by (intro conjI exI[of _ "?r # rs"]) auto
    qed
  qed
qed

lemma rollback_length: "rollback_loop k rs conns = (es, conns1) \<Longrightarrow> length conns1 = length conns"
proof (induction rs arbitrary: conns es conns1)
  case (Cons r rs)
  obtain e conn1 where a: "k_apply k (rs_spec r) (Some (rs_rollback r)) interactive_control_timeout (conns ! rs_index r) = (e, conn1)" by fastforce
  obtain es2 conns2 where l: "rollback_loop k rs (conns[rs_index r := conn1]) = (es2, conns2)" by fastforce
  have "conns1 = conns2" using Cons.prems a l by simp
  then show ?case using Cons.IH[OF l] by simp
qed simp

lemma rollback_restores:
  assumes "rollback_loop k rs conns = ([], conns1)" and "distinct (map rs_index rs)" and "rs_index ` set rs \<subseteq> {..<length conns}"
  shows "length conns1 = length conns \<and> (\<forall>r\<in>set rs. cs_spec (k_committed k (conns1 ! rs_index r)) = rs_spec r) \<and>
    (\<forall>j. j \<notin> rs_index ` set rs \<longrightarrow> conns1 ! j = conns ! j)"
  using assms
proof (induction rs arbitrary: conns)
  case (Cons r rs)
  obtain e conn1 where a: "k_apply k (rs_spec r) (Some (rs_rollback r)) interactive_control_timeout (conns ! rs_index r) = (e, conn1)" by fastforce
  obtain es conns2 where l: "rollback_loop k rs (conns[rs_index r := conn1]) = (es, conns2)" by fastforce
  have e: "e = None" "es = []" "conns2 = conns1" using Cons.prems(1) a l by (auto split: option.splits)
  have ih: "length conns1 = length conns" "\<forall>q\<in>set rs. cs_spec (k_committed k (conns1 ! rs_index q)) = rs_spec q"
    "\<forall>j. j \<notin> rs_index ` set rs \<longrightarrow> conns1 ! j = conns[rs_index r := conn1] ! j"
    using Cons.IH[OF l[unfolded e]] Cons.prems(2,3) by simp_all
  have "conns1 ! rs_index r = conn1" using ih(3) Cons.prems(2,3) by auto
  then have "cs_spec (k_committed k (conns1 ! rs_index r)) = rs_spec r" using applied[OF a[unfolded e(1)]] by simp
  then show ?case using ih by auto
qed simp

lemma reload_outcome:
  fixes commit :: "(spec \<Rightarrow> uint64 \<Rightarrow> client_args \<times> 'm \<Rightarrow> 'e option \<times> client_args \<times> 'm) option"
  assumes "apply_interactive_reload k commit a s c = (r, c1)"
  shows "length (rc_connections c1) = length (rc_connections c) \<and>
    (r = None \<longrightarrow> rc_args c1 = a \<and> rc_spec c1 = s \<and>
      (\<exists>g. g \<noteq> 0 \<and> (\<forall>x\<in>set (rc_connections c1). k_committed k x = \<lparr>cs_committed = True, cs_generation = g, cs_spec = s\<rparr>))) \<and>
    (r \<noteq> None \<longrightarrow> rc_args c1 = rc_args c \<and> rc_spec c1 = rc_spec c \<and>
      (snd (the r) = [] \<longrightarrow> map (\<lambda>x. cs_spec (k_committed k x)) (rc_connections c1) = map (\<lambda>x. cs_spec (k_committed k x)) (rc_connections c)))"
proof (cases "rc_connections c = []")
  case True
  then show ?thesis using assms by (auto simp: apply_interactive_reload_def)
next
  case False
  obtain us conns where us: "check_supported k (rc_connections c) = (us, conns)" by fastforce
  note sup = check_supported_keeps[OF us]
  have keep: "map (\<lambda>x. cs_spec (k_committed k x)) conns = map (\<lambda>x. cs_spec (k_committed k x)) (rc_connections c)"
    using arg_cong[OF conjunct2[OF sup], of "map cs_spec"] by (simp add: comp_def)
  obtain ap g conns1 and e :: "'e reload_error option" where l: "apply_reload_connections k s conns = (ap, g, e, conns1)" by (metis prod.collapse)
  have rec: "length conns1 = length conns" "distinct (map rs_index ap)" "rs_index ` set ap \<subseteq> {..<length conns}"
    "\<forall>r\<in>set ap. rs_spec r = cs_spec (k_committed k (conns ! rs_index r))"
    "\<forall>j<length conns. j \<notin> rs_index ` set ap \<longrightarrow> k_committed k (conns1 ! j) = k_committed k (conns ! j)"
    using loop_records[OF l[unfolded apply_reload_connections_def]] by (auto simp: atLeast0LessThan)
  have undone: ?thesis if c2: "rc_connections c2 = conns1" and rb: "rollback_reload k ap (rc_args c) (rc_spec c) x c2 = (r, c1)" for x c2
  proof -
    obtain es conns2 where rl: "rollback_loop k (rev ap) conns1 = (es, conns2)" by fastforce
    have r1: "r = Some (x, es)" "rc_args c1 = rc_args c" "rc_spec c1 = rc_spec c" "rc_connections c1 = conns2"
      using rb c2 rl by (auto simp: rollback_reload_def rollback_reload_connections_def store_reload_state_def)
    have len: "length conns2 = length conns1" using rl by (rule rollback_length)
    have "map (\<lambda>x. cs_spec (k_committed k x)) conns2 = map (\<lambda>x. cs_spec (k_committed k x)) conns" if "es = []"
    proof (rule nth_equalityI)
      fix j
      assume "j < length (map (\<lambda>x. cs_spec (k_committed k x)) conns2)"
      then have j: "j < length conns" using len rec(1) by simp
      have res: "\<forall>q\<in>set ap. cs_spec (k_committed k (conns2 ! rs_index q)) = rs_spec q" "\<forall>j. j \<notin> rs_index ` set ap \<longrightarrow> conns2 ! j = conns1 ! j"
        using rollback_restores[OF rl[unfolded that]] rec(1-3) by (simp_all add: rev_map[symmetric])
      show "map (\<lambda>x. cs_spec (k_committed k x)) conns2 ! j = map (\<lambda>x. cs_spec (k_committed k x)) conns ! j"
        using res rec(4,5) j len rec(1) by (cases "j \<in> rs_index ` set ap") auto
    qed (use len rec(1) in simp)
    then show ?thesis using r1 len rec(1) sup keep by simp
  qed
  show ?thesis
  proof (cases "us \<noteq> []")
    case True
    then show ?thesis using assms False us sup keep by (auto simp: apply_interactive_reload_def)
  next
    case us0: False
    show ?thesis
    proof (cases e)
      case (Some x)
      then have "rollback_reload k ap (rc_args c) (rc_spec c) x (c\<lparr>rc_connections := conns1\<rparr>) = (r, c1)"
        using assms False us us0 l by (simp add: apply_interactive_reload_def)
      then show ?thesis by (rule undone[rotated]) simp
    next
      case None
      obtain e1 a1 m1 where cm: "(case commit of None \<Rightarrow> (None, rc_args c, rc_maker c) | Some f \<Rightarrow> f s g (rc_args c, rc_maker c)) = (e1, a1, m1)"
        by (metis prod.collapse)
      let ?c1 = "c\<lparr>rc_connections := conns1, rc_args := a1, rc_maker := m1\<rparr>"
      have res: "(r, c1) = (case e1 of Some x \<Rightarrow> rollback_reload k ap (rc_args c) (rc_spec c) (CommitFailed x) ?c1 | None \<Rightarrow> (None, store_reload_state a s ?c1))"
        using assms False us us0 l None cm by (simp add: apply_interactive_reload_def Let_def)
      show ?thesis
      proof (cases e1)
        case (Some x)
        then show ?thesis using res by (intro undone[of ?c1 "CommitFailed x"]) simp_all
      next
        case e1: None
        have "conns \<noteq> []" using False sup by auto
        then have "g \<noteq> 0" "\<forall>x\<in>set conns1. k_committed k x = \<lparr>cs_committed = True, cs_generation = g, cs_spec = s\<rparr>"
          using loop_success[OF l[unfolded apply_reload_connections_def None]] by simp_all
        then show ?thesis using res e1 rec(1) sup by (auto simp: store_reload_state_def)
      qed
    qed
  qed
qed

end

text \<open>A connection to a server keeps the contract.\<close>

lemma connection_applied:
  assumes "connection_apply json s base t cn = (e, cn1)"
  defines "g \<equiv> case base of None \<Rightarrow> cs_generation (cn_session cn) | Some g \<Rightarrow> g"
  shows "(e = None \<longrightarrow> cs_committed (cn_session cn1) \<and> cs_spec (cn_session cn1) = s \<and> cs_generation (cn_session cn1) \<noteq> 0 \<and>
      (g \<noteq> 0 \<longrightarrow> cs_generation (cn_session cn1) = g + 1)) \<and> (e \<noteq> None \<longrightarrow> cn_session cn1 = cn_session cn)"
proof -
  obtain e2 h c where a: "apply_session_spec_with_generation json (cn_world cn (cn_clock cn)) (cn_server cn) s base t (cn_handler cn, cn_session cn) = (e2, h, c)"
    by (metis prod.collapse)
  then have "e2 = e" "cn_session cn1 = c" using assms(1) by (auto simp: connection_apply_def)
  then show ?thesis using applied_committed[OF a] unfolding g_def by simp
qed

lemma connection_asked: "cn_session (snd (connection_supports t cn)) = cn_session cn"
  by (simp add: connection_supports_def split: prod.splits)

lemma connector_committed: "k_committed (server_connector json) = cn_session" and connector_apply: "k_apply (server_connector json) = connection_apply json"
  and connector_supports: "k_supports (server_connector json) = connection_supports" and connector_server: "k_server (server_connector json) = cn_server"
  by (simp_all add: server_connector_def)

interpretation sc: session_connector "server_connector json" for json
proof (unfold_locales, unfold connector_committed connector_apply connector_supports)
  fix s base t c c1
  assume "connection_apply json s base t c = (None, c1)"
  from connection_applied[OF this] show "cs_committed (cn_session c1) \<and> cs_spec (cn_session c1) = s \<and> cs_generation (cn_session c1) \<noteq> 0 \<and>
      ((case base of None \<Rightarrow> cs_generation (cn_session c) | Some g \<Rightarrow> g) \<noteq> 0 \<longrightarrow>
        cs_generation (cn_session c1) = (case base of None \<Rightarrow> cs_generation (cn_session c) | Some g \<Rightarrow> g) + 1)" by simp
next
  fix s base t c e c1
  assume "connection_apply json s base t c = (Some e, c1)"
  from connection_applied[OF this] show "cn_session c1 = cn_session c" by simp
qed (rule connection_asked)


text \<open>
  Connections whose server answers each request with a given acknowledgement, such as the one of a start
  or the refusal of one.
\<close>

definition answering_world :: "session_ack \<Rightarrow> client_handler transport_env" where
  "answering_world ack =
     \<lparr>te_client = client_env.make Taken False, te_journal_wait = (\<lambda>h. h), te_update_wait = (\<lambda>h. h), te_send = (\<lambda>i. Taken),
       te_answer = (\<lambda>command h. h\<lparr>ch_acks := ch_acks h @ [ack]\<rparr>)\<rparr>"

definition sample_connection :: "gostr \<Rightarrow> (nat \<Rightarrow> session_ack) \<Rightarrow> connection" where
  "sample_connection server acks =
     \<lparr>cn_server = server,
       cn_handler = (new_client_handler server)\<lparr>ch_capabilities := [capability_query_update], ch_capabilities_known := True\<rparr>,
       cn_session = zero_committed, cn_world = (\<lambda>i. answering_world (acks i)), cn_clock = 0\<rparr>"

definition refusal :: session_ack where
  "refusal = \<lparr>ack_action = ''start'', ack_generation = 0, ack_error = ''no''\<rparr>"

definition started :: session_ack where
  "started = \<lparr>ack_action = ''start'', ack_generation = 1, ack_error = []\<rparr>"

text \<open>What a connection does whose server answers with a given acknowledgement.\<close>

definition ready_handler :: "client_handler \<Rightarrow> bool" where
  "ready_handler h \<longleftrightarrow> capability_query_update \<in> set (ch_capabilities h) \<and> ch_capabilities_known h"

lemma answering_apply:
  assumes "cn_world cn (cn_clock cn) = answering_world ack" and "session_request json s (case base of None \<Rightarrow> cs_generation (cn_session cn) | Some g \<Rightarrow> g) = Some command"
    and "\<not> has_journal_files s" and "ready_handler (cn_handler cn)"
  shows "\<exists>h. ready_handler h \<and> connection_apply json s base t cn =
    (let e = check_session_ack (case base of None \<Rightarrow> cs_generation (cn_session cn) | Some g \<Rightarrow> g) ack in
      (e, cn\<lparr>cn_handler := h, cn_session := (if e = None then commit_session s (ack_generation ack) (cn_session cn) else cn_session cn),
        cn_clock := Suc (cn_clock cn)\<rparr>))"
  using assms
  by (intro exI[of _ "(cn_handler cn)\<lparr>ch_commands := ch_commands (cn_handler cn) @ [command_frame command], ch_acks := []\<rparr>"]; cases base; cases cn)
    (auto simp: connection_apply_def apply_session_spec_with_generation_def require_journal_capability_def supports_query_updates_def
      answering_world_def client_env.defs wait_for_capabilities_def has_capability_def drain_session_acks_eq send_message_def ready_handler_def
      wait_for_session_ack_def Let_def split: option.splits)

lemma answering_supports:
  assumes "cn_world cn (cn_clock cn) = answering_world ack"
    and "ready_handler (cn_handler cn)"
  shows "connection_supports t cn = (True, cn\<lparr>cn_clock := Suc (cn_clock cn)\<rparr>)"
  using assms
  by (simp add: connection_supports_def ready_handler_def supports_query_updates_def answering_world_def client_env.defs wait_for_capabilities_def has_capability_def)

definition restarted :: session_ack where
  "restarted = \<lparr>ack_action = ''update'', ack_generation = 2, ack_error = []\<rparr>"

definition sample_client :: "client_args \<Rightarrow> (connection, unit) reload_client" where
  "sample_client a =
     \<lparr>rc_args = a, rc_spec = zero_spec,
       rc_connections = [sample_connection ''a'' (\<lambda>i. if i = 2 then restarted else started), sample_connection ''b'' (\<lambda>i. refusal)], rc_maker = ()\<rparr>"


end
