(* ===== verification/Go_Flags.thy ===== *)
theory Go_Flags
  imports GoNumbers
begin

text \<open>
  The parts of the standard library that read flags: \<open>strconv.ParseBool\<close>, \<open>strconv.ParseInt\<close> with base 0
  and the flag sets of the package \<open>flag\<close> (\<open>StringVar\<close>, \<open>BoolVar\<close>, \<open>IntVar\<close> and \<open>Parse\<close>), which
  \<open>internal/clients/interactive_control.go\<close> and the command line tools use.
\<close>

subsection \<open>Booleans and integers\<close>

definition parse_bool :: "gostr \<Rightarrow> bool option" where
  "parse_bool s =
     (if s \<in> {''1'', ''t'', ''T'', ''true'', ''TRUE'', ''True''} then Some True
      else if s \<in> {''0'', ''f'', ''F'', ''false'', ''FALSE'', ''False''} then Some False
      else None)"

text \<open>The bit that makes an ASCII letter a lower case one.\<close>

definition lower_byte :: "char \<Rightarrow> nat" where
  "lower_byte c = (let n = of_char c :: nat in if n div 32 mod 2 = 0 then n + 32 else n)"

definition letter_digit :: "char \<Rightarrow> nat option" where
  "letter_digit c =
     (case digit_val c of
        Some d \<Rightarrow> Some d
      | None \<Rightarrow> (let n = lower_byte c in if 97 \<le> n \<and> n \<le> 122 then Some (n - 97 + 10) else None))"

text \<open>The digits in a base, with underscores; the flag tells that there were some.\<close>

fun read_base :: "nat \<Rightarrow> nat \<Rightarrow> bool \<Rightarrow> gostr \<Rightarrow> num_error + nat \<times> bool" where
  "read_base b n u [] = Inr (n, u)"
| "read_base b n u (c # cs) =
     (if c = CHR ''_'' then read_base b n True cs
      else case letter_digit c of
        None \<Rightarrow> Inl ErrSyntax
      | Some d \<Rightarrow>
          if b \<le> d then Inl ErrSyntax
          else if 2 ^ 64 \<le> n * b + d then Inl ErrRange
          else read_base b (n * b + d) u cs)"

definition base_prefix :: "gostr \<Rightarrow> nat \<times> gostr" where
  "base_prefix s =
     (if s = [] \<or> hd s \<noteq> CHR ''0'' then (10, s)
      else if length s < 3 then (8, drop 1 s)
      else if lower_byte (s ! 1) = 98 then (2, drop 2 s)
      else if lower_byte (s ! 1) = 111 then (8, drop 2 s)
      else if lower_byte (s ! 1) = 120 then (16, drop 2 s)
      else (8, drop 1 s))"

text \<open>What the scan for misplaced underscores saw last.\<close>

datatype last_seen = SawStart | SawDigit | SawUnderscore | SawOther

fun underscore_scan :: "bool \<Rightarrow> last_seen \<Rightarrow> gostr \<Rightarrow> bool" where
  "underscore_scan hex saw [] = (saw \<noteq> SawUnderscore)"
| "underscore_scan hex saw (c # cs) =
     (if digit_val c \<noteq> None \<or> hex \<and> 97 \<le> lower_byte c \<and> lower_byte c \<le> 102 then underscore_scan hex SawDigit cs
      else if c = CHR ''_'' then (if saw \<noteq> SawDigit then False else underscore_scan hex SawUnderscore cs)
      else if saw = SawUnderscore then False
      else underscore_scan hex SawOther cs)"

definition underscore_ok :: "gostr \<Rightarrow> bool" where
  "underscore_ok s =
     (if 2 \<le> length s \<and> hd s = CHR ''0'' \<and> lower_byte (s ! 1) \<in> {98, 111, 120}
      then underscore_scan (lower_byte (s ! 1) = 120) SawDigit (drop 2 s)
      else underscore_scan False SawStart s)"

definition parse_uint_base0 :: "gostr \<Rightarrow> num_error + nat" where
  "parse_uint_base0 s =
     (if s = [] then Inl ErrSyntax
      else case base_prefix s of (b, digits) \<Rightarrow>
        and_then (read_base b 0 False digits) (\<lambda>(n, u). if u \<and> \<not> underscore_ok s then Inl ErrSyntax else Inr n))"

definition parse_int_base0 :: "gostr \<Rightarrow> num_error + int" where
  "parse_int_base0 s =
     (case s of
        [] \<Rightarrow> Inl ErrSyntax
      | c # r \<Rightarrow>
          let neg = (c = CHR ''-''); digits = (if c = CHR ''+'' \<or> c = CHR ''-'' then r else s) in
          and_then (parse_uint_base0 digits) (\<lambda>n.
            if \<not> neg \<and> 2 ^ 63 \<le> n \<or> neg \<and> 2 ^ 63 < n then Inl ErrRange
            else Inr (if neg then - int n else int n)))"

subsection \<open>Flag sets\<close>

text \<open>A flag and the variable that it sets in a state \<open>'a\<close>.\<close>

datatype 'a flag_var = StringVar "gostr \<Rightarrow> 'a \<Rightarrow> 'a" | BoolVar "bool \<Rightarrow> 'a \<Rightarrow> 'a" | IntVar "int \<Rightarrow> 'a \<Rightarrow> 'a"

type_synonym 'a flag_set = "(gostr \<times> 'a flag_var) list"

datatype flag_error = BadFlagSyntax gostr | HelpRequested | NotDefined gostr | NeedsArgument gostr | InvalidValue gostr gostr

text \<open>The name and the value of a flag, which are separated by the first \<open>=\<close> after the first byte.\<close>

definition split_flag :: "gostr \<Rightarrow> gostr \<times> gostr option" where
  "split_flag name =
     (case name of
        [] \<Rightarrow> ([], None)
      | c # r \<Rightarrow> (case cut ''='' r of None \<Rightarrow> (name, None) | Some (a, b) \<Rightarrow> (c # a, Some b)))"

text \<open>One step: no more flags and the arguments left, or the state and the arguments after a flag.\<close>

datatype 'a flag_step = NoFlag "gostr list" | FlagSet 'a "gostr list"

definition set_bool_flag :: "gostr \<Rightarrow> (bool \<Rightarrow> 'a \<Rightarrow> 'a) \<Rightarrow> gostr option \<Rightarrow> 'a \<Rightarrow> gostr list \<Rightarrow> flag_error + 'a flag_step" where
  "set_bool_flag name f val a args =
     (case val of
        None \<Rightarrow> Inr (FlagSet (f True a) args)
      | Some v \<Rightarrow> (case parse_bool v of None \<Rightarrow> Inl (InvalidValue name v) | Some b \<Rightarrow> Inr (FlagSet (f b a) args)))"

definition with_value :: "gostr \<Rightarrow> gostr option \<Rightarrow> gostr list \<Rightarrow> (gostr \<Rightarrow> gostr list \<Rightarrow> flag_error + 'a flag_step) \<Rightarrow> flag_error + 'a flag_step" where
  "with_value name val args f =
     (case val of
        Some v \<Rightarrow> f v args
      | None \<Rightarrow> (case args of [] \<Rightarrow> Inl (NeedsArgument name) | v # args1 \<Rightarrow> f v args1))"

definition set_flag :: "'a flag_set \<Rightarrow> gostr \<Rightarrow> gostr option \<Rightarrow> 'a \<Rightarrow> gostr list \<Rightarrow> flag_error + 'a flag_step" where
  "set_flag flags name val a args =
     (case map_of flags name of
        None \<Rightarrow> Inl (if name = ''help'' \<or> name = ''h'' then HelpRequested else NotDefined name)
      | Some (BoolVar f) \<Rightarrow> set_bool_flag name f val a args
      | Some (StringVar f) \<Rightarrow> with_value name val args (\<lambda>v rest. Inr (FlagSet (f v a) rest))
      | Some (IntVar f) \<Rightarrow>
          with_value name val args (\<lambda>v rest.
            case parse_int_base0 v of Inl e \<Rightarrow> Inl (InvalidValue name v) | Inr i \<Rightarrow> Inr (FlagSet (f i a) rest)))"

definition parse_one :: "'a flag_set \<Rightarrow> 'a \<Rightarrow> gostr list \<Rightarrow> flag_error + 'a flag_step" where
  "parse_one flags a args =
     (case args of
        [] \<Rightarrow> Inr (NoFlag [])
      | s # rest \<Rightarrow>
          if length s < 2 \<or> hd s \<noteq> CHR ''-'' then Inr (NoFlag args)
          else if s = ''--'' then Inr (NoFlag rest)
          else
            let name = (if s ! 1 = CHR ''-'' then drop 2 s else drop 1 s) in
            if name = [] \<or> hd name = CHR ''-'' \<or> hd name = CHR ''='' then Inl (BadFlagSyntax s)
            else case split_flag name of (n, val) \<Rightarrow> set_flag flags n val a rest)"

lemma parse_one_shorter: "parse_one flags a args = Inr (FlagSet a1 rest) \<Longrightarrow> length rest < length args"
  by (auto simp: parse_one_def set_flag_def set_bool_flag_def with_value_def Let_def
      split: list.splits option.splits if_splits prod.splits flag_var.splits sum.splits)

function parse_flag_set :: "'a flag_set \<Rightarrow> 'a \<Rightarrow> gostr list \<Rightarrow> flag_error + 'a \<times> gostr list" where
  "parse_flag_set flags a args =
     (case parse_one flags a args of
        Inl e \<Rightarrow> Inl e
      | Inr (NoFlag rest) \<Rightarrow> Inr (a, rest)
      | Inr (FlagSet a1 rest) \<Rightarrow> parse_flag_set flags a1 rest)"
  by pat_completeness auto
termination
  by (relation "measure (\<lambda>(flags, a, args). length args)") (auto dest: parse_one_shorter)

declare parse_flag_set.simps [simp del]

subsection \<open>Reading what is printed\<close>

lemma parse_bool_shown: "parse_bool (if b then ''true'' else ''false'') = Some b"
  by (simp add: parse_bool_def)

lemma read_base_digits: "\<forall>c\<in>set s. is_digit c \<Longrightarrow> read_base 10 n u s = map_sum id (\<lambda>x. (x, u)) (read_uint n s)"
proof (induction s arbitrary: n)
  case (Cons c s)
  then obtain d where d: "digit_val c = Some d" by auto
  have "d < 10" "c \<noteq> CHR ''_''" using d by (auto simp: digit_val_def Let_def split: if_splits)
  then show ?case using Cons d by (simp add: letter_digit_def)
qed simp

lemma show_nat_zero: "hd (show_nat n) = CHR ''0'' \<longleftrightarrow> n = 0"
proof (induction n rule: show_nat.induct)
  case (1 n)
  have "digit_char d = CHR ''0'' \<longleftrightarrow> d = 0" if "d < 10" for d
  proof
    assume "digit_char d = CHR ''0''"
    then have "digit_val (digit_char d) = Some 0" by (simp add: digit_val_def)
    then show "d = 0" using that by simp
  qed (simp add: digit_char_def)
  then show ?case using 1 by (subst show_nat.simps) (auto simp: hd_append)
qed

lemma parse_uint_shown:
  assumes "n < 2 ^ 64"
  shows "parse_uint_base0 (show_nat n) = Inr n"
proof (cases "n = 0")
  case True
  then show ?thesis by (simp add: parse_uint_base0_def show_nat.simps[of 0] digit_char_def base_prefix_def and_then_def)
next
  case False
  have "base_prefix (show_nat n) = (10, show_nat n)" using False by (simp add: base_prefix_def show_nat_zero)
  moreover have "read_base 10 0 False (show_nat n) = Inr (n, False)"
    using read_base_digits[of "show_nat n"] show_nat_digits[of _ n] read_uint_show_nat[OF assms, of "[]"] by auto
  ultimately show ?thesis by (simp add: parse_uint_base0_def and_then_def)
qed

lemma parse_int_shown:
  assumes "- (2 ^ 63) \<le> i" and "i < 2 ^ 63"
  shows "parse_int_base0 (itoa i) = Inr i"
proof (cases "i < 0")
  case True
  then show ?thesis using assms parse_uint_shown[of "nat (- i)"]
    by (simp add: itoa_def parse_int_base0_def and_then_def)
next
  case False
  obtain c r where c: "show_nat (nat i) = c # r" by (cases "show_nat (nat i)") (use show_nat_not_Nil in auto)
  have "is_digit c" using hd_show_nat[of "nat i"] c by simp
  then have "c \<noteq> CHR ''-''" "c \<noteq> CHR ''+''" by (auto simp: digit_val_def)
  then show ?thesis using False assms parse_uint_shown[of "nat i"] c
    by (simp add: itoa_def parse_int_base0_def and_then_def)
qed

text \<open>A flag that is written with its value, and the step that reads it.\<close>

definition flag_text :: "gostr \<Rightarrow> gostr \<Rightarrow> gostr" where
  "flag_text name v = ''--'' @ name @ ''='' @ v"

definition flag_name :: "gostr \<Rightarrow> bool" where
  "flag_name name \<longleftrightarrow> name \<noteq> [] \<and> hd name \<noteq> CHR ''-'' \<and> CHR ''='' \<notin> set name"

lemma parse_flag_set_text:
  assumes "flag_name name"
  shows "parse_flag_set flags a (flag_text name v # args) =
    (case set_flag flags name (Some v) a args of
       Inl e \<Rightarrow> Inl e | Inr (NoFlag rest) \<Rightarrow> Inr (a, rest) | Inr (FlagSet a1 rest) \<Rightarrow> parse_flag_set flags a1 rest)"
proof -
  obtain c r where n: "name = c # r" "c \<noteq> CHR ''-''" "c \<noteq> CHR ''=''" "CHR ''='' \<notin> set r"
    using assms by (cases name) (auto simp: flag_name_def)
  have "cut [x] (r @ x # v) = Some (r, v)" if "x \<notin> set r" for x using that by (induction r) auto
  then have "split_flag (name @ ''='' @ v) = (name, Some v)" using n by (simp add: split_flag_def)
  then have "parse_one flags a (flag_text name v # args) = set_flag flags name (Some v) a args"
    using n by (simp add: parse_one_def flag_text_def)
  then show ?thesis by (subst parse_flag_set.simps) simp
qed

lemma parse_flag_set_Nil: "parse_flag_set flags a [] = Inr (a, [])"
  by (subst parse_flag_set.simps) (simp add: parse_one_def)

lemma parse_string_flag:
  "flag_name name \<Longrightarrow> map_of flags name = Some (StringVar f) \<Longrightarrow>
    parse_flag_set flags a (flag_text name v # args) = parse_flag_set flags (f v a) args"
  by (simp add: parse_flag_set_text set_flag_def with_value_def)

lemma parse_bool_flag:
  "flag_name name \<Longrightarrow> map_of flags name = Some (BoolVar f) \<Longrightarrow>
    parse_flag_set flags a (flag_text name (if b then ''true'' else ''false'') # args) = parse_flag_set flags (f b a) args"
  by (simp add: parse_flag_set_text set_flag_def set_bool_flag_def parse_bool_shown)

lemma parse_int_flag:
  "flag_name name \<Longrightarrow> map_of flags name = Some (IntVar f) \<Longrightarrow> - (2 ^ 63) \<le> i \<Longrightarrow> i < 2 ^ 63 \<Longrightarrow>
    parse_flag_set flags a (flag_text name (itoa i) # args) = parse_flag_set flags (f i a) args"
  by (simp add: parse_flag_set_text set_flag_def with_value_def parse_int_shown)

end
