(* ===== verification/Control_Line.thy ===== *)
theory Control_Line
  imports Session_Spec Group_Result Go_Flags
begin

text \<open>
  The lines that a user types to change a running session (\<open>internal/clients/interactive_control.go\<close> and
  \<open>query_regex.go\<close>): the splitting into arguments, the flags of a reload and the specification of the next
  session. The arguments of the client are the fields of \<open>client_args\<close>; a reload changes no other field.
\<close>

subsection \<open>Splitting\<close>

text \<open>
  The bytes that are written for the first rune of a text: its own, or those of U+FFFD if it starts no
  well-formed sequence.
\<close>

definition rune_text :: "gostr \<Rightarrow> gostr" where
  "rune_text s =
     (if rune_size s = 1 \<and> 128 \<le> (of_char (hd s) :: nat) then [CHR 0xEF, CHR 0xBF, CHR 0xBD] else take (rune_size s) s)"

record split_state =
  ss_tokens :: "gostr list"
  ss_current :: gostr
  ss_quote :: "gostr option"
  ss_escaped :: bool

datatype split_error = UnterminatedEscape | UnterminatedQuote

definition flush_token :: "split_state \<Rightarrow> split_state" where
  "flush_token s = (if ss_current s = [] then s else s\<lparr>ss_tokens := ss_tokens s @ [ss_current s], ss_current := []\<rparr>)"

definition backslash :: gostr where
  "backslash = [CHR 0x5C]"

definition single_quote :: gostr where
  "single_quote = [CHR 0x27]"

definition double_quote :: gostr where
  "double_quote = [CHR 0x22]"

definition split_rune :: "gostr \<Rightarrow> split_state \<Rightarrow> split_state" where
  "split_rune r s =
     (if ss_escaped s then s\<lparr>ss_current := ss_current s @ r, ss_escaped := False\<rparr>
      else if r = backslash then s\<lparr>ss_escaped := True\<rparr>
      else case ss_quote s of
        Some q \<Rightarrow> if r = q then s\<lparr>ss_quote := None\<rparr> else s\<lparr>ss_current := ss_current s @ r\<rparr>
      | None \<Rightarrow>
          if r = single_quote \<or> r = double_quote then s\<lparr>ss_quote := Some r\<rparr>
          else if r = '' '' \<or> r = [CHR 0x09] then flush_token s
          else s\<lparr>ss_current := ss_current s @ r\<rparr>)"

function split_runes :: "gostr \<Rightarrow> split_state \<Rightarrow> split_state" where
  "split_runes raw s = (if raw = [] then s else split_runes (drop (max 1 (rune_size raw)) raw) (split_rune (rune_text raw) s))"
  by pat_completeness auto
termination
  by (relation "measure (\<lambda>(raw, s). length raw)") auto

declare split_runes.simps [simp del]

definition split_interactive_args :: "gostr \<Rightarrow> split_error + gostr list" where
  "split_interactive_args raw =
     (let s = split_runes raw \<lparr>ss_tokens = [], ss_current = [], ss_quote = None, ss_escaped = False\<rparr> in
      if ss_escaped s then Inl UnterminatedEscape
      else if ss_quote s \<noteq> None then Inl UnterminatedQuote
      else Inr (ss_tokens (flush_token s)))"

subsection \<open>The flags of a reload\<close>

definition is_interactive_query_mode :: "client_args \<Rightarrow> bool" where
  "is_interactive_query_mode a = (trim_space (ca_query a) \<noteq> [] \<and> (ca_mode a = MapClient \<or> ca_mode a = TailClient))"

text \<open>The state of the parser holds the next arguments and the value of the flag \<open>grep\<close>.\<close>

definition context_var :: "(int \<Rightarrow> lcontext \<Rightarrow> lcontext) \<Rightarrow> (client_args \<times> gostr) flag_var" where
  "context_var f = IntVar (\<lambda>i (a, g). (a\<lparr>co_context := f i (co_context a)\<rparr>, g))"

definition common_flags :: "(client_args \<times> gostr) flag_set" where
  "common_flags =
     [(''files'', StringVar (\<lambda>v (a, g). (a\<lparr>ca_what := v\<rparr>, g))), (''plain'', BoolVar (\<lambda>b (a, g). (a\<lparr>co_plain := b\<rparr>, g))),
      (''quiet'', BoolVar (\<lambda>b (a, g). (a\<lparr>co_quiet := b\<rparr>, g))), (''timeout'', IntVar (\<lambda>i (a, g). (a\<lparr>ca_timeout := i\<rparr>, g)))]"

definition query_flags :: "(client_args \<times> gostr) flag_set" where
  "query_flags = common_flags @ [(''query'', StringVar (\<lambda>v (a, g). (a\<lparr>ca_query := v\<rparr>, g)))]"

definition regex_flags :: "(client_args \<times> gostr) flag_set" where
  "regex_flags =
     common_flags @
     [(''regex'', StringVar (\<lambda>v (a, g). (a\<lparr>ca_regex := v\<rparr>, g))), (''grep'', StringVar (\<lambda>v (a, g). (a, v))),
      (''invert'', BoolVar (\<lambda>b (a, g). (a\<lparr>ca_regex_invert := b\<rparr>, g))),
      (''before'', context_var (\<lambda>i c. c\<lparr>before_context := i\<rparr>)), (''after'', context_var (\<lambda>i c. c\<lparr>after_context := i\<rparr>)),
      (''max'', context_var (\<lambda>i c. c\<lparr>ltx_max_count := i\<rparr>))]"

datatype control_error =
    ReloadWithoutFlags
  | SplitFailed split_error
  | FlagsInvalid flag_error
  | UnexpectedArguments "gostr list"
  | ReloadUnsupported mode
  | QueryInvalid query_error
  | CommandsInvalid spec_error
  | UnknownCommand gostr

definition parse_reload_flags :: "(client_args \<times> gostr) flag_set \<Rightarrow> client_args \<Rightarrow> gostr list \<Rightarrow> control_error + client_args \<times> gostr" where
  "parse_reload_flags formal current tokens =
     and_then (map_error FlagsInvalid (parse_flag_set formal (current, []) tokens)) (\<lambda>(r, rest).
       if rest \<noteq> [] then Inl (UnexpectedArguments rest) else Inr r)"

definition parse_interactive_reload_args :: "client_args \<Rightarrow> gostr list \<Rightarrow> control_error + client_args" where
  "parse_interactive_reload_args current tokens =
     (if is_interactive_query_mode current then map_sum id fst (parse_reload_flags query_flags current tokens)
      else if ca_mode current = GrepClient \<or> ca_mode current = TailClient then
        map_sum id (\<lambda>(a, grep). if grep \<noteq> [] then a\<lparr>ca_regex := grep\<rparr> else a) (parse_reload_flags regex_flags current tokens)
      else if ca_mode current = CatClient then map_sum id fst (parse_reload_flags common_flags current tokens)
      else Inl (ReloadUnsupported (ca_mode current)))"

subsection \<open>The next specification\<close>

definition mapr_regex_for_query :: "query option \<Rightarrow> gostr" where
  "mapr_regex_for_query q =
     (case q of
        None \<Rightarrow> ''.''
      | Some q \<Rightarrow>
          if q_table q = [] \<or> q_table q = ''.'' then ''.''
          else if q_table q = ''*'' then backslash @ ''|MAPREDUCE:'' @ backslash @ ''|''
          else backslash @ ''|MAPREDUCE:'' @ q_table q @ backslash @ ''|'')"

definition mapr_regex_from_query_string :: "gostr \<Rightarrow> query_error + query option \<times> gostr" where
  "mapr_regex_from_query_string s = map_sum id (\<lambda>q. (q, mapr_regex_for_query q)) (new_query s)"

definition normalize_interactive_args :: "client_args \<Rightarrow> query_error + client_args" where
  "normalize_interactive_args a =
     (if \<not> is_interactive_query_mode a then Inr a
      else map_sum id (\<lambda>(q, r). a\<lparr>ca_regex := r\<rparr>) (mapr_regex_from_query_string (ca_query a)))"

definition build_interactive_session_spec :: "(gostr \<Rightarrow> 'r option) \<Rightarrow> client_args \<Rightarrow> control_error + spec" where
  "build_interactive_session_spec compile a =
     and_then (map_error QueryInvalid (normalize_interactive_args a)) (\<lambda>b.
       and_then (map_error CommandsInvalid (spec_commands compile (new_spec b))) (\<lambda>commands. Inr (new_spec b)))"

subsection \<open>Commands\<close>

datatype interactive_command = HelpCommand | ShowCommand | QuitCommand | ReloadCommand client_args spec

definition parse_interactive_command :: "(gostr \<Rightarrow> 'r option) \<Rightarrow> client_args \<Rightarrow> gostr \<Rightarrow> control_error + interactive_command" where
  "parse_interactive_command compile current l =
     (let line = trim_space l in
      if line = '':help'' then Inr HelpCommand
      else if line = '':show'' then Inr ShowCommand
      else if line = '':quit'' then Inr QuitCommand
      else if has_prefix line '':reload'' then
        (let remainder = trim_space (trim_prefix line '':reload'') in
         if remainder = [] then Inl ReloadWithoutFlags
         else
           and_then (map_error SplitFailed (split_interactive_args remainder)) (\<lambda>tokens.
             and_then (parse_interactive_reload_args current tokens) (\<lambda>a.
               and_then (build_interactive_session_spec compile a) (\<lambda>s. Inr (ReloadCommand a s)))))
      else Inl (UnknownCommand line))"

subsection \<open>Lines that a user may type\<close>

text \<open>A text of well-formed runes, and a text as an argument in double quotes.\<close>

function valid_text :: "gostr \<Rightarrow> bool" where
  "valid_text s =
     (if s = [] then True else (rune_size s \<noteq> 1 \<or> (of_char (hd s) :: nat) < 128) \<and> valid_text (drop (max 1 (rune_size s)) s))"
  by pat_completeness auto
termination
  by (relation "measure length") auto

declare valid_text.simps [simp del]

definition escape_byte :: "char \<Rightarrow> gostr" where
  "escape_byte c = (if [c] = backslash \<or> [c] = double_quote then backslash @ [c] else [c])"

definition quote_arg :: "gostr \<Rightarrow> gostr" where
  "quote_arg s = double_quote @ concat (map escape_byte s) @ double_quote"

lemma rune_size_ascii: "(of_char c :: nat) < 128 \<Longrightarrow> rune_size (c # s) = 1"
  by (simp add: rune_size_def Let_def)

lemma rune_size_Cons: "0 < rune_size (c # s)"
  by (auto simp: rune_size_def Let_def split: list.splits)

lemma rune_text_ascii: "(of_char c :: nat) < 128 \<Longrightarrow> rune_text (c # s) = [c]"
  by (simp add: rune_text_def rune_size_ascii)

lemma split_ascii: "(of_char c :: nat) < 128 \<Longrightarrow> split_runes (c # s) st = split_runes s (split_rune [c] st)"
  by (subst split_runes.simps) (simp add: rune_text_ascii rune_size_ascii)

lemma rune_long:
  assumes "rune_size (c # s) = n" and "1 < n"
  shows "length (take n (c # s)) = n \<and> (\<forall>x\<in>set (take n (c # s)). 128 \<le> (of_char x :: nat)) \<and> (\<forall>r. rune_size (take n (c # s) @ r) = n)"
proof -
  let ?m = "of_char c :: nat"
  consider (two) "194 \<le> ?m" "?m \<le> 223" | (three) "224 \<le> ?m" "?m \<le> 239" | (four) "240 \<le> ?m" "?m \<le> 244"
    | (one) "rune_size (c # s) = 1"
    by (fastforce simp: rune_size_def Let_def)
  then show ?thesis
  proof cases
    case two
    then have r: "rune_size (c # y) = (case y of d # _ \<Rightarrow> if cont_byte 128 191 d then 2 else 1 | _ \<Rightarrow> 1)" for y
      by (simp add: rune_size_def Let_def)
    obtain d s1 where "s = d # s1" "cont_byte 128 191 d" "n = 2" using assms r by (auto split: list.splits if_splits)
    then show ?thesis using two r by (auto simp: cont_byte_def)
  next
    case three
    let ?lo = "if ?m = 224 then 160 else 128" and ?hi = "if ?m = 237 then 159 else 191"
    have r: "rune_size (c # y) = (case y of d # e # _ \<Rightarrow> if cont_byte ?lo ?hi d \<and> cont_byte 128 191 e then 3 else 1 | _ \<Rightarrow> 1)" for y
      using three by (simp add: rune_size_def Let_def)
    obtain d e s1 where s: "s = d # e # s1" "cont_byte ?lo ?hi d" "cont_byte 128 191 e" "n = 3"
      using assms r by (auto split: list.splits if_splits)
    have "128 \<le> (of_char d :: nat)" using s(2) by (auto simp: cont_byte_def split: if_splits)
    then show ?thesis using three r s by (simp add: numeral_3_eq_3) (simp add: cont_byte_def)
  next
    case four
    let ?lo = "if ?m = 240 then 144 else 128" and ?hi = "if ?m = 244 then 143 else 191"
    have r: "rune_size (c # y) = (case y of d # e # f # _ \<Rightarrow> if cont_byte ?lo ?hi d \<and> cont_byte 128 191 e \<and> cont_byte 128 191 f then 4 else 1 | _ \<Rightarrow> 1)" for y
      using four by (simp add: rune_size_def Let_def)
    obtain d e f s1 where s: "s = d # e # f # s1" "cont_byte ?lo ?hi d" "cont_byte 128 191 e" "cont_byte 128 191 f" "n = 4"
      using assms r by (auto split: list.splits if_splits)
    have "128 \<le> (of_char d :: nat)" using s(2) by (auto simp: cont_byte_def split: if_splits)
    then show ?thesis using four r s by (simp add: eval_nat_numeral) (simp add: cont_byte_def)
  qed (use assms in simp)
qed

lemma special_ascii: "[c] = backslash \<or> [c] = double_quote \<or> [c] = single_quote \<Longrightarrow> (of_char c :: nat) < 128"
  by (auto simp: backslash_def double_quote_def single_quote_def)

lemma escape_high: "\<forall>x\<in>set s. 128 \<le> (of_char x :: nat) \<Longrightarrow> concat (map escape_byte s) = s"
proof (induction s)
  case (Cons c s)
  then have "escape_byte c = [c]" using special_ascii[of c] by (auto simp: escape_byte_def)
  then show ?case using Cons by simp
qed simp

text \<open>Within quotes the bytes of a valid text are taken as they are.\<close>

lemma split_quoted:
  assumes "valid_text s" and "ss_quote st = Some double_quote" and "\<not> ss_escaped st"
  shows "split_runes (concat (map escape_byte s) @ double_quote @ r) st =
    split_runes (double_quote @ r) (st\<lparr>ss_current := ss_current st @ s\<rparr>)"
  using assms
proof (induction s arbitrary: st rule: valid_text.induct)
  case (1 s)
  show ?case
  proof (cases s)
    case Nil
    then show ?thesis by simp
  next
    case (Cons c t)
    let ?n = "rune_size s"
    have v: "?n \<noteq> 1 \<or> (of_char c :: nat) < 128" "valid_text (drop (max 1 ?n) s)" using 1(2) Cons by (subst (asm) valid_text.simps, simp)+
    show ?thesis
    proof (cases "?n = 1")
      case True
      then have a: "(of_char c :: nat) < 128" and d: "drop (max 1 ?n) s = t" using v Cons by simp_all
      let ?st = "st\<lparr>ss_current := ss_current st @ [c]\<rparr>"
      have one: "split_runes (escape_byte c @ x) st = split_runes x ?st" for x
      proof (cases "[c] = backslash \<or> [c] = double_quote")
        case True
        have b: "split_runes (backslash @ y) st = split_runes y (split_rune backslash st)" for y
          using split_ascii[of "CHR 0x5C" y st] by (simp add: backslash_def)
        show ?thesis using True 1(3,4) b[of "[c] @ x"] split_ascii[OF a, of x "split_rune backslash st"]
          by (simp add: escape_byte_def split_rune_def) (cases st, simp)
      next
        case False
        then show ?thesis using split_ascii[OF a, of x st] 1(3,4) by (simp add: escape_byte_def split_rune_def)
      qed
      have "split_runes (concat (map escape_byte t) @ double_quote @ r) ?st = split_runes (double_quote @ r) (?st\<lparr>ss_current := ss_current ?st @ t\<rparr>)"
        using 1(1)[of ?st] v 1(3,4) Cons d by simp
      then show ?thesis using one Cons by simp
    next
      case False
      then have n: "1 < ?n" using rune_size_Cons[of c t] Cons by simp
      let ?h = "take ?n s" and ?t = "drop ?n s" and ?st = "st\<lparr>ss_current := ss_current st @ take ?n s\<rparr>"
      have h: "length ?h = ?n" "concat (map escape_byte ?h) = ?h" "rune_size (?h @ x) = ?n" for x
        using rune_long[of c t ?n] Cons n escape_high[of ?h] by auto
      have hd: "hd ?h = c" "?h \<noteq> []" using Cons n by (auto simp: take_Cons')
      have e: "concat (map escape_byte s) = ?h @ concat (map escape_byte ?t)"
        using h(2) by (metis append_take_drop_id concat_append map_append)
      have ne: "?h \<noteq> [d]" for d using h(1) n by (metis One_nat_def length_Cons list.size(3) less_irrefl)
      have "split_runes (?h @ x) st = split_runes x ?st" for x
        using 1(3,4) n h(1,3) hd ne
        by (subst split_runes.simps) (simp add: rune_text_def split_rune_def backslash_def double_quote_def)
      moreover have "split_runes (concat (map escape_byte ?t) @ double_quote @ r) ?st = split_runes (double_quote @ r) (?st\<lparr>ss_current := ss_current ?st @ ?t\<rparr>)"
        using 1(1)[of ?st] v n 1(3,4) Cons by simp
      ultimately show ?thesis using e by simp
    qed
  qed
qed

lemma split_arg:
  assumes "valid_text s" and "ss_quote st = None" and "\<not> ss_escaped st"
  shows "split_runes (quote_arg s @ r) st = split_runes r (st\<lparr>ss_current := ss_current st @ s\<rparr>)"
proof -
  have q: "split_runes (double_quote @ x) y = split_runes x (split_rune double_quote y)" for x y
    using split_ascii[of "CHR 0x22" x y] by (simp add: double_quote_def)
  have b: "double_quote \<noteq> backslash" by (simp add: double_quote_def backslash_def)
  have "split_runes (quote_arg s @ r) st = split_runes (concat (map escape_byte s) @ double_quote @ r) (st\<lparr>ss_quote := Some double_quote\<rparr>)"
    using q assms(2,3) b by (simp add: quote_arg_def split_rune_def)
  also have "\<dots> = split_runes (double_quote @ r) (st\<lparr>ss_quote := Some double_quote, ss_current := ss_current st @ s\<rparr>)"
    using split_quoted[OF assms(1), of "st\<lparr>ss_quote := Some double_quote\<rparr>" r] assms(3) by simp
  also have "\<dots> = split_runes r (st\<lparr>ss_current := ss_current st @ s\<rparr>)"
    using q assms(2,3) b by (simp add: split_rune_def) (cases st, simp)
  finally show ?thesis .
qed

definition split_start :: "gostr list \<Rightarrow> split_state" where
  "split_start ts = \<lparr>ss_tokens = ts, ss_current = [], ss_quote = None, ss_escaped = False\<rparr>"

lemma split_quoted_args:
  assumes "\<forall>t\<in>set ts. valid_text t \<and> t \<noteq> []" and "ts \<noteq> []"
  shows "split_runes (join '' '' (map quote_arg ts)) (split_start us) = (split_start (us @ butlast ts))\<lparr>ss_current := last ts\<rparr>"
  using assms
proof (induction ts arbitrary: us)
  case (Cons t ts)
  have t: "valid_text t" "t \<noteq> []" using Cons.prems by simp_all
  have one: "split_runes (quote_arg t @ r) (split_start us) = split_runes r ((split_start us)\<lparr>ss_current := t\<rparr>)" for r
    using split_arg[OF t(1), of "split_start us" r] by (simp add: split_start_def)
  show ?case
  proof (cases ts)
    case Nil
    have "split_runes [] x = x" for x by (subst split_runes.simps) simp
    then show ?thesis using one[of "[]"] Nil by simp
  next
    case (Cons t2 ts2)
    have "split_runes (CHR '' '' # r) ((split_start us)\<lparr>ss_current := t\<rparr>) = split_runes r (split_start (us @ [t]))" for r
      using t(2) by (simp add: split_ascii split_rune_def split_start_def flush_token_def backslash_def single_quote_def double_quote_def)
    then show ?thesis using one Cons.IH[of "us @ [t]"] Cons.prems Cons by simp
  qed
qed simp

lemma split_interactive_quoted:
  assumes "\<forall>t\<in>set ts. valid_text t \<and> t \<noteq> []" and "ts \<noteq> []"
  shows "split_interactive_args (join '' '' (map quote_arg ts)) = Inr ts"
proof -
  have "last ts \<noteq> []" using assms by simp
  then show ?thesis using split_quoted_args[OF assms, of "[]"] assms(2)
    by (simp add: split_interactive_args_def split_start_def flush_token_def Let_def)
qed

text \<open>An argument in quotes that has no text is dropped, so the next one becomes the value of the flag before it.\<close>

lemma empty_quotes_dropped:
  "split_interactive_args (''--regex '' @ double_quote @ double_quote @ '' --invert'') = Inr [''--regex'', ''--invert'']"
  by code_simp

text \<open>The flags that a user has to type to get from the current arguments to the next ones.\<close>

definition bool_text :: "bool \<Rightarrow> gostr" where
  "bool_text b = (if b then ''true'' else ''false'')"

definition common_tokens :: "client_args \<Rightarrow> gostr list" where
  "common_tokens a =
     [flag_text ''files'' (ca_what a), flag_text ''plain'' (bool_text (co_plain a)), flag_text ''quiet'' (bool_text (co_quiet a)),
      flag_text ''timeout'' (itoa (ca_timeout a))]"

definition regex_tokens :: "client_args \<Rightarrow> gostr list" where
  "regex_tokens a =
     [flag_text ''regex'' (ca_regex a), flag_text ''invert'' (bool_text (ca_regex_invert a)),
      flag_text ''before'' (itoa (before_context (co_context a))), flag_text ''after'' (itoa (after_context (co_context a))),
      flag_text ''max'' (itoa (ltx_max_count (co_context a)))]"

definition reload_tokens :: "client_args \<Rightarrow> client_args \<Rightarrow> gostr list" where
  "reload_tokens current a =
     common_tokens a @
     (if is_interactive_query_mode current then [flag_text ''query'' (ca_query a)]
      else if ca_mode current = CatClient then [] else regex_tokens a)"

definition reload_line :: "client_args \<Rightarrow> client_args \<Rightarrow> gostr" where
  "reload_line current a = '':reload '' @ join '' '' (map quote_arg (reload_tokens current a))"

text \<open>What a reload may change in each mode, and the values that it can have.\<close>

definition reloadable :: "client_args \<Rightarrow> client_args \<Rightarrow> bool" where
  "reloadable current a \<longleftrightarrow>
     ca_mode a = ca_mode current \<and> co_serverless a = co_serverless current \<and>
     (if is_interactive_query_mode current
      then co_context a = co_context current \<and> ca_regex a = ca_regex current \<and> ca_regex_invert a = ca_regex_invert current
      else ca_query a = ca_query current \<and>
        (ca_mode current = GrepClient \<or> ca_mode current = TailClient \<or>
         ca_mode current = CatClient \<and> co_context a = co_context current \<and> ca_regex a = ca_regex current \<and> ca_regex_invert a = ca_regex_invert current))"

definition int64_range :: "int \<Rightarrow> bool" where
  "int64_range i \<longleftrightarrow> - (2 ^ 63) \<le> i \<and> i < 2 ^ 63"

definition typeable :: "client_args \<Rightarrow> bool" where
  "typeable a \<longleftrightarrow> valid_text (ca_what a) \<and> valid_text (ca_query a) \<and> valid_text (ca_regex a) \<and> int64_range (ca_timeout a) \<and>
     int64_range (before_context (co_context a)) \<and> int64_range (after_context (co_context a)) \<and> int64_range (ltx_max_count (co_context a))"

lemma parse_bool_text: "flag_name name \<Longrightarrow> map_of flagset name = Some (BoolVar f) \<Longrightarrow>
    parse_flag_set flagset a (flag_text name (bool_text b) # args) = parse_flag_set flagset (f b a) args"
  unfolding bool_text_def by (rule parse_bool_flag)

lemma parse_int_text: "flag_name name \<Longrightarrow> map_of flagset name = Some (IntVar f) \<Longrightarrow> int64_range i \<Longrightarrow>
    parse_flag_set flagset a (flag_text name (itoa i) # args) = parse_flag_set flagset (f i a) args"
  unfolding int64_range_def by (rule parse_int_flag) auto

lemma flag_names:
  "flag_name ''files''" "flag_name ''plain''" "flag_name ''quiet''" "flag_name ''timeout''" "flag_name ''query''" "flag_name ''regex''"
  "flag_name ''invert''" "flag_name ''before''" "flag_name ''after''" "flag_name ''max''"
  by (simp_all add: flag_name_def)

lemma parse_common_tokens:
  assumes "flagset = common_flags @ more_flags" and "int64_range (ca_timeout a)"
  shows "parse_flag_set flagset (c, g) (common_tokens a @ args) =
    parse_flag_set flagset (c\<lparr>ca_what := ca_what a, co_plain := co_plain a, co_quiet := co_quiet a, ca_timeout := ca_timeout a\<rparr>, g) args"
  using assms by (simp add: common_tokens_def common_flags_def parse_string_flag parse_bool_text parse_int_text flag_names)

lemma parse_query_tokens:
  assumes "int64_range (ca_timeout a)"
  shows "parse_flag_set query_flags (c, g) (common_tokens a @ [flag_text ''query'' (ca_query a)]) =
    Inr ((c\<lparr>ca_what := ca_what a, co_plain := co_plain a, co_quiet := co_quiet a, ca_timeout := ca_timeout a, ca_query := ca_query a\<rparr>, g), [])"
  using parse_common_tokens[OF query_flags_def assms] 
  by (simp add: parse_string_flag flag_names parse_flag_set_Nil) (simp add: query_flags_def common_flags_def parse_string_flag flag_names parse_flag_set_Nil)

lemma parse_regex_tokens:
  assumes "typeable a"
  shows "parse_flag_set regex_flags (c, g) (common_tokens a @ regex_tokens a) =
    Inr ((c\<lparr>ca_what := ca_what a, co_plain := co_plain a, co_quiet := co_quiet a, ca_timeout := ca_timeout a, ca_regex := ca_regex a,
        ca_regex_invert := ca_regex_invert a, co_context := co_context a\<rparr>, g), [])"
proof -
  have r: "map_of regex_flags ''regex'' = Some (StringVar (\<lambda>v (a, g). (a\<lparr>ca_regex := v\<rparr>, g)))"
    "map_of regex_flags ''invert'' = Some (BoolVar (\<lambda>b (a, g). (a\<lparr>ca_regex_invert := b\<rparr>, g)))"
    "map_of regex_flags ''before'' = Some (IntVar (\<lambda>i (a, g). (a\<lparr>co_context := (co_context a)\<lparr>before_context := i\<rparr>\<rparr>, g)))"
    "map_of regex_flags ''after'' = Some (IntVar (\<lambda>i (a, g). (a\<lparr>co_context := (co_context a)\<lparr>after_context := i\<rparr>\<rparr>, g)))"
    "map_of regex_flags ''max'' = Some (IntVar (\<lambda>i (a, g). (a\<lparr>co_context := (co_context a)\<lparr>ltx_max_count := i\<rparr>\<rparr>, g)))"
    by (simp_all add: regex_flags_def common_flags_def context_var_def)
  have t: "int64_range (ca_timeout a)" "int64_range (before_context (co_context a))" "int64_range (after_context (co_context a))"
    "int64_range (ltx_max_count (co_context a))" using assms by (simp_all add: typeable_def)
  show ?thesis
    by (simp add: parse_common_tokens[OF regex_flags_def t(1)] regex_tokens_def parse_string_flag[OF _ r(1)] parse_bool_text[OF _ r(2)]
        parse_int_text[OF _ r(3) t(2)] parse_int_text[OF _ r(4) t(3)] parse_int_text[OF _ r(5) t(4)] flag_names parse_flag_set_Nil)
qed

lemma parse_cat_tokens:
  assumes "int64_range (ca_timeout a)"
  shows "parse_flag_set common_flags (c, g) (common_tokens a) =
    Inr ((c\<lparr>ca_what := ca_what a, co_plain := co_plain a, co_quiet := co_quiet a, ca_timeout := ca_timeout a\<rparr>, g), [])"
  using parse_common_tokens[of common_flags "[]" a c g "[]"] assms by (simp add: parse_flag_set_Nil)

lemma reload_args_parsed:
  assumes "reloadable current a" and "typeable a"
  shows "parse_interactive_reload_args current (reload_tokens current a) = Inr a"
proof -
  have t: "int64_range (ca_timeout a)" using assms(2) by (simp add: typeable_def)
  show ?thesis
  proof (cases "is_interactive_query_mode current")
    case True
    then show ?thesis using assms(1) parse_query_tokens[OF t, of current "[]"]
      by (auto simp: parse_interactive_reload_args_def reload_tokens_def parse_reload_flags_def map_error_def and_then_def reloadable_def)
  next
    case False
    then show ?thesis using assms(1) parse_cat_tokens[OF t, of current "[]"] parse_regex_tokens[OF assms(2), of current "[]"]
      by (auto simp: parse_interactive_reload_args_def reload_tokens_def parse_reload_flags_def map_error_def and_then_def reloadable_def)
  qed
qed

lemma valid_ascii_append: "\<forall>c\<in>set u. (of_char c :: nat) < 128 \<Longrightarrow> valid_text (u @ v) = valid_text v"
proof (induction u)
  case (Cons c u)
  then show ?case by (subst valid_text.simps) (simp add: rune_size_ascii)
qed simp

lemma valid_Nil: "valid_text []"
  by (subst valid_text.simps) simp

lemma valid_ascii: "\<forall>c\<in>set u. (of_char c :: nat) < 128 \<Longrightarrow> valid_text u"
  using valid_ascii_append[of u "[]"] valid_Nil by simp

lemma itoa_ascii: "c \<in> set (itoa i) \<Longrightarrow> (of_char c :: nat) < 128"
  using show_nat_digits[of c "nat i"] show_nat_digits[of c "nat (- i)"]
  by (auto simp: itoa_def digit_val_def Let_def split: if_splits)

lemma valid_flag_text:
  assumes "\<forall>c\<in>set name. (of_char c :: nat) < 128"
  shows "valid_text (flag_text name v) = valid_text v"
  using valid_ascii_append[of "''--'' @ name @ ''=''" v] assms by (auto simp: flag_text_def)

lemma reload_tokens_valid:
  assumes "typeable a"
  shows "\<forall>t\<in>set (reload_tokens current a). valid_text t \<and> t \<noteq> []"
proof -
  have "valid_text (itoa i)" for i using valid_ascii itoa_ascii by blast
  moreover have "valid_text (bool_text b)" for b by (simp add: bool_text_def valid_ascii)
  moreover have "flag_text n v \<noteq> []" for n v by (simp add: flag_text_def)
  ultimately show ?thesis using assms
    by (simp add: reload_tokens_def common_tokens_def regex_tokens_def typeable_def valid_flag_text)
qed

lemma ascii_no_space:
  assumes "(of_char c :: nat) < 128"
  shows "\<not> space2 c d" "\<not> space3 c d e" "\<not> space2 d c" "\<not> space3 d e c"
proof -
  have "c \<noteq> x" if "128 \<le> (of_char x :: nat)" for x using assms that by auto
  then have h: "\<forall>x. 128 \<le> (of_char x :: nat) \<longrightarrow> c \<noteq> x" by blast
  note k = h[THEN spec, of "CHR 0xC2"] h[THEN spec, of "CHR 0xE1"] h[THEN spec, of "CHR 0xE2"] h[THEN spec, of "CHR 0xE3"]
    h[THEN spec, of "CHR 0x80"] h[THEN spec, of "CHR 0x81"] h[THEN spec, of "CHR 0x82"] h[THEN spec, of "CHR 0x83"] h[THEN spec, of "CHR 0x84"]
    h[THEN spec, of "CHR 0x85"] h[THEN spec, of "CHR 0x86"] h[THEN spec, of "CHR 0x87"] h[THEN spec, of "CHR 0x88"] h[THEN spec, of "CHR 0x89"]
    h[THEN spec, of "CHR 0x8A"] h[THEN spec, of "CHR 0xA8"] h[THEN spec, of "CHR 0xA9"] h[THEN spec, of "CHR 0xAF"] h[THEN spec, of "CHR 0x9F"] h[THEN spec, of "CHR 0xA0"]
  show "\<not> space2 c d" using k by (simp add: space2_def)
  show "\<not> space3 c d e" using k by (simp add: space3_def)
  show "\<not> space2 d c" using k by (simp add: space2_def)
  show "\<not> space3 d e c" using k by (simp add: space3_def)
qed

lemma space_len_Cons_ascii: "(of_char c :: nat) < 128 \<Longrightarrow> space_len (c # s) = (if ascii_space c then 1 else 0)"
  by (cases s; cases "tl s") (simp_all add: ascii_no_space)

lemma space_len_rev_Cons_ascii: "(of_char c :: nat) < 128 \<Longrightarrow> space_len_rev (c # s) = (if ascii_space c then 1 else 0)"
  by (cases s; cases "tl s") (simp_all add: ascii_no_space)

lemma trim_ends:
  assumes "(of_char c :: nat) < 128" "\<not> ascii_space c" "(of_char d :: nat) < 128" "\<not> ascii_space d"
  shows "trim_space (c # s @ [d]) = c # s @ [d]"
  using assms by (intro trim_space_id) (simp_all add: space_len_Cons_ascii space_len_rev_Cons_ascii)

lemma reload_line_shape:
  "\<exists>s. join '' '' (map quote_arg (reload_tokens current a)) = CHR 0x22 # s @ [CHR 0x22]"
proof -
  have q: "\<exists>s. quote_arg t = CHR 0x22 # s @ [CHR 0x22]" for t by (simp add: quote_arg_def double_quote_def)
  have j: "\<exists>s. join '' '' (map quote_arg (t # ts)) = CHR 0x22 # s @ [CHR 0x22]" for t ts
  proof (induction ts arbitrary: t)
    case (Cons u ts)
    obtain x where x: "join '' '' (map quote_arg (u # ts)) = CHR 0x22 # x @ [CHR 0x22]" using Cons by blast
    obtain y where y: "quote_arg t = CHR 0x22 # y @ [CHR 0x22]" using q by blast
    have "join '' '' (map quote_arg (t # u # ts)) = quote_arg t @ '' '' @ join '' '' (map quote_arg (u # ts))" by simp
    then show ?case unfolding x y by auto
  qed (use q in simp)
  show ?thesis using j by (simp only: reload_tokens_def common_tokens_def append_Cons)
qed

text \<open>
  C29: Whatever next arguments a reload of the mode of a session may lead to can be typed as a line. The
  line that writes each changeable field as a flag in double quotes, with a backslash before each quote and
  each backslash, is read as the reload to exactly these arguments and to the specification that they
  stand for, provided that their texts are well-formed UTF-8 and their numbers are within 64 bits. If the
  arguments have no specification, the line is answered with the error of building one.
\<close>

theorem reload_line_read_back:
  assumes "reloadable current a" and "typeable a"
  shows "parse_interactive_command compile current (reload_line current a) =
    map_sum id (ReloadCommand a) (build_interactive_session_spec compile a)"
proof -
  let ?j = "join '' '' (map quote_arg (reload_tokens current a))"
  obtain s where s: "?j = CHR 0x22 # s @ [CHR 0x22]" using reload_line_shape by blast
  have l: "trim_space (reload_line current a) = reload_line current a"
    using trim_ends[of "CHR '':''" "CHR 0x22" "''reload '' @ CHR 0x22 # s"] s by (simp add: reload_line_def ascii_space_def)
  have p: "has_prefix (reload_line current a) '':reload''" "trim_prefix (reload_line current a) '':reload'' = CHR '' '' # ?j"
    by (simp_all add: reload_line_def has_prefix_def trim_prefix_def)
  have n: "reload_line current a \<noteq> '':help''" "reload_line current a \<noteq> '':show''" "reload_line current a \<noteq> '':quit''" by (simp_all add: reload_line_def)
  have "trim_left (CHR '' '' # ?j) = ?j"
    using s by (subst trim_left.simps, subst trim_left.simps) (simp add: space_len_Cons_ascii ascii_space_def)
  moreover have "trim_left_rev (rev ?j) = rev ?j"
    using s by (subst trim_left_rev.simps) (simp add: space_len_rev_Cons_ascii ascii_space_def)
  ultimately have r: "trim_space (CHR '' '' # ?j) = ?j" by (simp add: trim_space_def)
  have "reload_tokens current a \<noteq> []" by (simp add: reload_tokens_def common_tokens_def)
  then have "split_interactive_args ?j = Inr (reload_tokens current a)"
    using split_interactive_quoted[OF reload_tokens_valid[OF assms(2)]] by blast
  moreover have "?j \<noteq> []" using s by simp
  ultimately show ?thesis using n p l r reload_args_parsed[OF assms]
    by (simp add: parse_interactive_command_def Let_def map_error_def and_then_def split: sum.split)
qed

definition sample_args :: client_args where
  "sample_args =
     \<lparr>co_quiet = False, co_plain = False, co_serverless = False, co_context = zero_context, ca_mode = CatClient, ca_what = ''/f'',
       ca_query = [], ca_regex = [], ca_regex_invert = False, ca_timeout = 0\<rparr>"

lemma reload_line_read_back_witness:
  "let a = sample_args\<lparr>ca_what := ''a b'', ca_timeout := -5\<rparr>;
       line = '':reload '' @ join '' '' (map (\<lambda>t. double_quote @ t @ double_quote)
         [''--files=a b'', ''--plain=false'', ''--quiet=false'', ''--timeout=-5'']) in
   reload_line sample_args a = line \<and>
   parse_interactive_command literal_compile sample_args line = map_sum id (ReloadCommand a) (build_interactive_session_spec literal_compile a)"
proof -
  let ?a = "sample_args\<lparr>ca_what := ''a b'', ca_timeout := -5\<rparr>"
  let ?l = "'':reload '' @ join '' '' (map (\<lambda>t. double_quote @ t @ double_quote)
         [''--files=a b'', ''--plain=false'', ''--quiet=false'', ''--timeout=-5''])"
  have q: "trim_space (ca_query sample_args) = []" by (simp add: sample_args_def)
  have l: "reload_line sample_args ?a = ?l" by code_simp
  have "valid_text ''a b''" by (rule valid_ascii) simp
  then have t: "typeable ?a" by (simp add: typeable_def sample_args_def valid_Nil int64_range_def zero_context_def)
  have r: "reloadable sample_args ?a" using q by (simp add: reloadable_def is_interactive_query_mode_def) (simp add: sample_args_def)
  show ?thesis using reload_line_read_back[OF r t, of literal_compile] l by simp
qed

end
