(* ===== verification/Known_Hosts.thy ===== *)
theory Known_Hosts
  imports GoNumbers
begin

text \<open>
  The trust of a client in the keys of its servers (\<open>internal/ssh/client/knownhostscallback.go\<close>) and the
  prompts for it (\<open>internal/io/prompt/prompt.go\<close>): keys that the known hosts file does not confirm are
  collected, the user is asked once for a batch of them, and the file is written anew. The package
  \<open>knownhosts\<close> is the argument \<open>known_env\<close>; whether a file operation succeeds is the argument \<open>io\<close>.
\<close>

subsection \<open>Prompts\<close>

text \<open>Callbacks are functions on a state \<open>'s\<close>; those that run at the end of a prompt only log.\<close>

record 's answer =
  an_long :: gostr
  an_short :: gostr
  an_callback :: "'s \<Rightarrow> 's"
  an_again :: bool

record 's prompt =
  pr_question :: gostr
  pr_answers :: "'s answer list"

definition new_prompt :: "gostr \<Rightarrow> 's prompt" where
  "new_prompt question = \<lparr>pr_question = question, pr_answers = []\<rparr>"

definition add_answer :: "'s answer \<Rightarrow> 's prompt \<Rightarrow> 's prompt" where
  "add_answer a p = p\<lparr>pr_answers := pr_answers p @ [a]\<rparr>"

definition ask_string :: "'s prompt \<Rightarrow> gostr" where
  "ask_string p = pr_question p @ ''? ('' @ join '','' (map (\<lambda>a. an_short a @ ''='' @ an_long a) (pr_answers p)) @ ''): ''"

definition find_answer :: "'s prompt \<Rightarrow> gostr \<Rightarrow> 's answer option" where
  "find_answer p s = List.find (\<lambda>a. s = an_long a \<or> s = an_short a) (pr_answers p)"

text \<open>
  The lines that the user types; after the last of them reading gives an empty text for ever, which is no
  answer, so that the question is repeated for ever (\<open>None\<close>).
\<close>

fun ask :: "'s prompt \<Rightarrow> gostr list \<Rightarrow> 's \<Rightarrow> 's option" where
  "ask p [] s = None"
| "ask p (line # input) s =
     (case find_answer p (trim_space line) of
        None \<Rightarrow> ask p input s
      | Some a \<Rightarrow> (let s1 = an_callback a s in if an_again a then ask p input s1 else Some s1))"

subsection \<open>Unknown hosts\<close>

datatype key_check = UnreadableHosts | KeyKnown | HostUnknown | KeyChanged

record 'k known_env =
  ke_check :: "gostr option \<Rightarrow> gostr \<Rightarrow> gostr \<Rightarrow> 'k \<Rightarrow> key_check"
  ke_line :: "gostr \<Rightarrow> 'k \<Rightarrow> gostr"
  ke_normalize :: "gostr \<Rightarrow> gostr"

datatype response = TrustHost | DontTrustHost

text \<open>The channel for the response is the number of the caller.\<close>

record unknown_host =
  uh_server :: gostr
  uh_remote :: gostr
  uh_host_line :: gostr
  uh_ip_line :: gostr
  uh_channel :: nat

record known_hosts =
  kh_file :: "gostr option"
  kh_temp :: "gostr option"
  kh_trust_all :: bool
  kh_untrusted :: "gostr set"
  kh_responses :: "nat \<Rightarrow> response list"
  kh_printed :: "gostr list"

text \<open>A missing file is created.\<close>

definition new_known_hosts_callback :: "gostr option \<Rightarrow> bool \<Rightarrow> known_hosts" where
  "new_known_hosts_callback file trust_all =
     \<lparr>kh_file = Some (case file of None \<Rightarrow> [] | Some f \<Rightarrow> f), kh_temp = None, kh_trust_all = trust_all, kh_untrusted = {},
       kh_responses = (\<lambda>i. []), kh_printed = []\<rparr>"

definition close_trust_all_hosts_ch :: "known_hosts \<Rightarrow> known_hosts" where
  "close_trust_all_hosts_ch c = c\<lparr>kh_trust_all := True\<rparr>"

definition untrusted :: "gostr \<Rightarrow> known_hosts \<Rightarrow> bool" where
  "untrusted server c = (server \<in> kh_untrusted c)"

definition respond :: "response \<Rightarrow> unknown_host list \<Rightarrow> known_hosts \<Rightarrow> known_hosts" where
  "respond r hosts c = c\<lparr>kh_responses := fold (\<lambda>h f. f(uh_channel h := f (uh_channel h) @ [r])) hosts (kh_responses c)\<rparr>"

definition dont_trust_hosts :: "unknown_host list \<Rightarrow> known_hosts \<Rightarrow> known_hosts" where
  "dont_trust_hosts hosts c = respond DontTrustHost hosts c"

subsection \<open>Writing the file\<close>

datatype file_op = OpenRoot | OpenTemp | ChmodTemp | WriteTemp nat | OpenOld | ScanOld | CloseOld | CloseTemp | RenameTemp | RemoveTemp

definition cleanup_tmp :: "(file_op \<Rightarrow> bool) \<Rightarrow> gostr \<Rightarrow> known_hosts \<Rightarrow> known_hosts" where
  "cleanup_tmp io content c = c\<lparr>kh_temp := if io RemoveTemp then None else Some content\<rparr>"

text \<open>Lines are written one by one, with their number.\<close>

fun write_lines :: "(file_op \<Rightarrow> bool) \<Rightarrow> nat \<Rightarrow> gostr list \<Rightarrow> gostr \<Rightarrow> file_op option \<times> nat \<times> gostr" where
  "write_lines io n [] new = (None, n, new)"
| "write_lines io n (l # ls) new =
     (if io (WriteTemp n) then write_lines io (Suc n) ls (new @ l @ [CHR 0x0A]) else (Some (WriteTemp n), n, new))"

text \<open>
  The lines that a \<open>bufio.Scanner\<close> gives, without their line ends, and whether it stops at a line that does
  not fit into its buffer.
\<close>

definition max_scan_token_size :: nat where
  "max_scan_token_size = 65536"

definition drop_cr :: "gostr \<Rightarrow> gostr" where
  "drop_cr l = (if l \<noteq> [] \<and> last l = CHR 0x0D then butlast l else l)"

fun scan_text :: "gostr \<Rightarrow> gostr \<Rightarrow> gostr list \<times> bool" where
  "scan_text cur [] =
     (if max_scan_token_size \<le> length cur then ([], True) else ((if cur = [] then [] else [drop_cr cur]), False))"
| "scan_text cur (c # cs) =
     (if max_scan_token_size \<le> length cur then ([], True)
      else if c = CHR 0x0A then (case scan_text [] cs of (ls, e) \<Rightarrow> (drop_cr cur # ls, e))
      else scan_text (cur @ [c]) cs)"

definition host_lines :: "unknown_host list \<Rightarrow> gostr list" where
  "host_lines hosts = concat (map (\<lambda>h. [uh_host_line h, uh_ip_line h]) hosts)"

definition host_addresses :: "'k known_env \<Rightarrow> unknown_host list \<Rightarrow> gostr set" where
  "host_addresses env hosts = set (concat (map (\<lambda>h. [ke_normalize env (uh_server h), ke_normalize env (uh_remote h)]) hosts))"

definition line_address :: "gostr \<Rightarrow> gostr" where
  "line_address l = hd (split_n '' '' 2 l)"

definition kept_lines :: "'k known_env \<Rightarrow> unknown_host list \<Rightarrow> gostr list \<Rightarrow> gostr list" where
  "kept_lines env hosts old = filter (\<lambda>l. line_address l \<notin> host_addresses env hosts) old"

definition trust_hosts :: "'k known_env \<Rightarrow> (file_op \<Rightarrow> bool) \<Rightarrow> unknown_host list \<Rightarrow> known_hosts \<Rightarrow> file_op option \<times> known_hosts" where
  "trust_hosts env io hosts c =
     (if \<not> io OpenRoot then (Some OpenRoot, c)
      else if \<not> io OpenTemp then (Some OpenTemp, c)
      else if \<not> io ChmodTemp then (Some ChmodTemp, cleanup_tmp io [] c)
      else case write_lines io 0 (host_lines hosts) [] of
        (Some e, n, new) \<Rightarrow> (Some e, cleanup_tmp io new c)
      | (None, n, new) \<Rightarrow>
          if \<not> io OpenOld then (Some OpenOld, cleanup_tmp io new c)
          else
            let old = (case kh_file c of None \<Rightarrow> [] | Some f \<Rightarrow> f); c1 = c\<lparr>kh_file := Some old\<rparr> in
            case scan_text [] old of
              (ls, too_long) \<Rightarrow>
                (case write_lines io n (kept_lines env hosts ls) new of
                   (Some e, m, new1) \<Rightarrow> (Some e, cleanup_tmp io new1 c1)
                 | (None, m, new1) \<Rightarrow>
                     if too_long \<or> \<not> io ScanOld then (Some ScanOld, cleanup_tmp io new1 c1)
                     else if \<not> io CloseOld then (Some CloseOld, cleanup_tmp io new1 c1)
                     else if \<not> io CloseTemp then (Some CloseTemp, cleanup_tmp io new1 c1)
                     else if \<not> io RenameTemp then (Some RenameTemp, cleanup_tmp io new1 c1)
                     else (None, respond TrustHost hosts (c1\<lparr>kh_file := Some new1, kh_temp := None\<rparr>))))"

subsection \<open>Asking\<close>

text \<open>The callbacks of the prompt. An error of the file is logged and the hosts are not trusted.\<close>

definition try_trust :: "'k known_env \<Rightarrow> (file_op \<Rightarrow> bool) \<Rightarrow> unknown_host list \<Rightarrow> (known_hosts \<Rightarrow> known_hosts) \<Rightarrow> known_hosts \<Rightarrow> known_hosts" where
  "try_trust env io hosts after c =
     (case trust_hosts env io hosts c of (Some e, c1) \<Rightarrow> dont_trust_hosts hosts c1 | (None, c1) \<Rightarrow> after c1)"

definition hosts_prompt :: "'k known_env \<Rightarrow> (file_op \<Rightarrow> bool) \<Rightarrow> unknown_host list \<Rightarrow> known_hosts prompt" where
  "hosts_prompt env io hosts =
     fold add_answer
       [\<lparr>an_long = ''yes'', an_short = ''y'', an_callback = try_trust env io hosts (\<lambda>c. c), an_again = False\<rparr>,
        \<lparr>an_long = ''all'', an_short = ''a'', an_callback = try_trust env io hosts close_trust_all_hosts_ch, an_again = False\<rparr>,
        \<lparr>an_long = ''no'', an_short = ''n'', an_callback = dont_trust_hosts hosts, an_again = False\<rparr>,
        \<lparr>an_long = ''details'', an_short = ''d'', an_callback = (\<lambda>c. c\<lparr>kh_printed := kh_printed c @ host_lines hosts\<rparr>), an_again = True\<rparr>]
       (new_prompt (''Encountered '' @ itoa (int (length hosts)) @ '' unknown hosts: '' @ [CHR 0x27] @ join '','' (map uh_server hosts) @
         [CHR 0x27, CHR 0x0A] @ ''Do you want to trust these hosts?''))"

definition prompt_add_hosts :: "'k known_env \<Rightarrow> (file_op \<Rightarrow> bool) \<Rightarrow> gostr list \<Rightarrow> unknown_host list \<Rightarrow> known_hosts \<Rightarrow> known_hosts option" where
  "prompt_add_hosts env io input hosts c =
     (if kh_trust_all c then Some (try_trust env io hosts (\<lambda>c. c) c)
      else ask (hosts_prompt env io hosts) input c)"

subsection \<open>The callbacks of the connections\<close>

text \<open>
  What a call of the host key callback waits for or has returned. \<open>CallCancelled\<close> is the error of the
  context, \<open>CallRejected\<close> the error of the check.
\<close>

datatype 'k host_call =
    Offering unknown_host key_check
  | AwaitingResponse unknown_host key_check
  | CallAccepted
  | CallRejected key_check
  | CallCancelled

definition make_unknown_host :: "'k known_env \<Rightarrow> gostr \<Rightarrow> gostr \<Rightarrow> 'k \<Rightarrow> nat \<Rightarrow> unknown_host" where
  "make_unknown_host env server remote key i =
     \<lparr>uh_server = server, uh_remote = remote, uh_host_line = ke_line env server key, uh_ip_line = ke_line env remote key, uh_channel = i\<rparr>"

definition begin_call :: "'k known_env \<Rightarrow> gostr \<Rightarrow> gostr \<Rightarrow> 'k \<Rightarrow> nat \<Rightarrow> known_hosts \<Rightarrow> 'k host_call" where
  "begin_call env server remote key i c =
     (let r = ke_check env (kh_file c) server remote key in
      if r = UnreadableHosts then CallRejected r
      else if r = KeyKnown then CallAccepted
      else Offering (make_unknown_host env server remote key i) r)"

definition end_call :: "response \<Rightarrow> unknown_host \<Rightarrow> key_check \<Rightarrow> known_hosts \<Rightarrow> 'k host_call \<times> known_hosts" where
  "end_call r h e c =
     (case r of
        TrustHost \<Rightarrow> (CallAccepted, c)
      | DontTrustHost \<Rightarrow> (CallRejected e, c\<lparr>kh_untrusted := insert (uh_server h) (kh_untrusted c)\<rparr>))"

record 'k host_system =
  hs_known :: known_hosts
  hs_calls :: "'k host_call list"
  hs_hosts :: "unknown_host list"
  hs_prompting :: bool
  hs_cancelled :: bool

definition new_host_system :: "gostr option \<Rightarrow> bool \<Rightarrow> 'k host_system" where
  "new_host_system file trust_all =
     \<lparr>hs_known = new_known_hosts_callback file trust_all, hs_calls = [], hs_hosts = [], hs_prompting = True, hs_cancelled = False\<rparr>"

text \<open>
  The events: a connection calls back; the prompter takes the host of a waiting call, or asks because none
  came for two seconds; a call takes its response; the context ends; a call or the prompter sees that. An
  event that cannot happen, or in which the prompt is repeated for ever, gives \<open>None\<close>.
\<close>

datatype 'k host_event =
    KeyOffered gostr gostr 'k
  | HostTaken nat "file_op \<Rightarrow> bool" "gostr list"
  | HostsIdle "file_op \<Rightarrow> bool" "gostr list"
  | ResponseTaken nat
  | ContextEnded
  | CallAborted nat
  | PrompterStopped

definition hosts_batch :: nat where
  "hosts_batch = 50"

definition prompt_batch :: "'k known_env \<Rightarrow> (file_op \<Rightarrow> bool) \<Rightarrow> gostr list \<Rightarrow> 'k host_system \<Rightarrow> 'k host_system option" where
  "prompt_batch env io input s =
     map_option (\<lambda>c. s\<lparr>hs_known := c, hs_hosts := []\<rparr>) (prompt_add_hosts env io input (hs_hosts s) (hs_known s))"

definition host_step :: "'k known_env \<Rightarrow> 'k host_event \<Rightarrow> 'k host_system \<Rightarrow> 'k host_system option" where
  "host_step env ev s =
     (case ev of
        KeyOffered server remote key \<Rightarrow>
          Some (s\<lparr>hs_calls := hs_calls s @ [begin_call env server remote key (length (hs_calls s)) (hs_known s)]\<rparr>)
      | HostTaken i io input \<Rightarrow>
          (if i < length (hs_calls s) \<and> hs_prompting s then
             case hs_calls s ! i of
               Offering h e \<Rightarrow>
                 (let s1 = s\<lparr>hs_calls := (hs_calls s)[i := AwaitingResponse h e], hs_hosts := hs_hosts s @ [h]\<rparr> in
                  if hosts_batch \<le> length (hs_hosts s1) then prompt_batch env io input s1 else Some s1)
             | _ \<Rightarrow> None
           else None)
      | HostsIdle io input \<Rightarrow>
          (if hs_prompting s then
             if hs_hosts s \<noteq> [] then prompt_batch env io input s else Some s
           else None)
      | ResponseTaken i \<Rightarrow>
          (if i < length (hs_calls s) then
             case (hs_calls s ! i, kh_responses (hs_known s) i) of
               (AwaitingResponse h e, r # rs) \<Rightarrow>
                 (case end_call r h e ((hs_known s)\<lparr>kh_responses := (kh_responses (hs_known s))(i := rs)\<rparr>) of
                    (call, c) \<Rightarrow> Some (s\<lparr>hs_calls := (hs_calls s)[i := call], hs_known := c\<rparr>))
             | _ \<Rightarrow> None
           else None)
      | ContextEnded \<Rightarrow> Some (s\<lparr>hs_cancelled := True\<rparr>)
      | CallAborted i \<Rightarrow>
          (if i < length (hs_calls s) \<and> hs_cancelled s then
             case hs_calls s ! i of
               Offering h e \<Rightarrow> Some (s\<lparr>hs_calls := (hs_calls s)[i := CallCancelled]\<rparr>)
             | AwaitingResponse h e \<Rightarrow> Some (s\<lparr>hs_calls := (hs_calls s)[i := CallCancelled]\<rparr>)
             | _ \<Rightarrow> None
           else None)
      | PrompterStopped \<Rightarrow> if hs_cancelled s then Some (s\<lparr>hs_prompting := False\<rparr>) else None)"

fun host_run :: "'k known_env \<Rightarrow> 'k host_event list \<Rightarrow> 'k host_system \<Rightarrow> 'k host_system option" where
  "host_run env [] s = Some s"
| "host_run env (ev # evs) s = (case host_step env ev s of None \<Rightarrow> None | Some s1 \<Rightarrow> host_run env evs s1)"

subsection \<open>The file after trusting\<close>

definition text_of_lines :: "gostr list \<Rightarrow> gostr" where
  "text_of_lines ls = concat (map (\<lambda>l. l @ [CHR 0x0A]) ls)"

definition old_text :: "known_hosts \<Rightarrow> gostr" where
  "old_text c = (case kh_file c of None \<Rightarrow> [] | Some f \<Rightarrow> f)"

lemma write_lines_done: "write_lines io n ls new = (None, m, new1) \<Longrightarrow> new1 = new @ text_of_lines ls"
proof (induction ls arbitrary: n new)
  case (Cons l ls)
  then have "write_lines io (Suc n) ls (new @ l @ [CHR 0x0A]) = (None, m, new1)" by (simp split: if_splits)
  from Cons.IH[OF this] show ?case by (simp add: text_of_lines_def)
qed (simp add: text_of_lines_def)

lemma cleanup_keeps [simp]:
  "kh_file (cleanup_tmp io t c) = kh_file c" "kh_responses (cleanup_tmp io t c) = kh_responses c" "kh_untrusted (cleanup_tmp io t c) = kh_untrusted c"
  "kh_trust_all (cleanup_tmp io t c) = kh_trust_all c"
  by (simp_all add: cleanup_tmp_def)

lemma respond_keeps [simp]:
  "kh_file (respond r hosts c) = kh_file c" "kh_temp (respond r hosts c) = kh_temp c" "kh_untrusted (respond r hosts c) = kh_untrusted c"
  "kh_trust_all (respond r hosts c) = kh_trust_all c"
  by (simp_all add: respond_def)

lemma respond_responses:
  "kh_responses (respond r hosts c) i = kh_responses c i @ replicate (count_list (map uh_channel hosts) i) r"
proof -
  have "fold (\<lambda>h f. f(uh_channel h := f (uh_channel h) @ [r])) hosts f i = f i @ replicate (count_list (map uh_channel hosts) i) r" for f
    by (induction hosts arbitrary: f) (auto simp: replicate_append_same)
  then show ?thesis by (simp add: respond_def)
qed

text \<open>The two results of trusting, from which all that follows is derived.\<close>

lemma trust_hosts_cases:
  assumes "trust_hosts env io hosts c = (e, c1)"
  obtains (trusted) ls where "e = None" "scan_text [] (old_text c) = (ls, False)"
      "c1 = respond TrustHost hosts (c\<lparr>kh_file := Some (text_of_lines (host_lines hosts @ kept_lines env hosts ls)), kh_temp := None\<rparr>)"
  | (failed) op where "e = Some op" "old_text c1 = old_text c" "kh_responses c1 = kh_responses c" "kh_untrusted c1 = kh_untrusted c" "kh_trust_all c1 = kh_trust_all c"
proof (cases "io OpenRoot \<and> io OpenTemp")
  case False
  then show ?thesis using assms failed by (auto simp: trust_hosts_def split: if_splits)
next
  case True
  obtain e1 n new where w: "write_lines io 0 (host_lines hosts) [] = (e1, n, new)" by (metis prod.collapse)
  obtain ls b where sc: "scan_text [] (old_text c) = (ls, b)" by fastforce
  obtain e2 m new1 where w2: "write_lines io n (kept_lines env hosts ls) new = (e2, m, new1)" by (metis prod.collapse)
  let ?c1 = "c\<lparr>kh_file := Some (old_text c)\<rparr>"
  show ?thesis
  proof (cases "io ChmodTemp \<and> e1 = None \<and> io OpenOld")
    case False
    then have "\<exists>op t. trust_hosts env io hosts c = (Some op, cleanup_tmp io t c)"
      using True w unfolding trust_hosts_def by (cases "io ChmodTemp"; cases e1; cases "io OpenOld") auto
    then show ?thesis using assms failed by (auto simp: old_text_def)
  next
    case ok: True
    have u: "trust_hosts env io hosts c =
      (case (e2, m, new1) of
         (Some e, m, new1) \<Rightarrow> (Some e, cleanup_tmp io new1 ?c1)
       | (None, m, new1) \<Rightarrow>
           if b \<or> \<not> io ScanOld then (Some ScanOld, cleanup_tmp io new1 ?c1)
           else if \<not> io CloseOld then (Some CloseOld, cleanup_tmp io new1 ?c1)
           else if \<not> io CloseTemp then (Some CloseTemp, cleanup_tmp io new1 ?c1)
           else if \<not> io RenameTemp then (Some RenameTemp, cleanup_tmp io new1 ?c1)
           else (None, respond TrustHost hosts (?c1\<lparr>kh_file := Some new1, kh_temp := None\<rparr>)))"
      using True ok w sc w2 unfolding trust_hosts_def old_text_def[symmetric] by (simp add: Let_def)
    show ?thesis
    proof (cases "e2 = None \<and> \<not> b \<and> io ScanOld \<and> io CloseOld \<and> io CloseTemp \<and> io RenameTemp")
      case True
      have "new1 = text_of_lines (host_lines hosts @ kept_lines env hosts ls)"
        using write_lines_done[of io 0 "host_lines hosts" "[]" n new] write_lines_done[of io n _ new m new1] w w2 ok True
        by (simp add: text_of_lines_def)
      then show ?thesis using True u assms sc by (intro trusted[of ls]) auto
    next
      case False
      then have "\<exists>op t. e = Some op \<and> c1 = cleanup_tmp io t ?c1"
        using assms u by (cases e2) (auto split: if_splits)
      then show ?thesis using failed by (auto simp: old_text_def)
    qed
  qed
qed

text \<open>
  Trusting hosts changes the known hosts file as a whole or not at all. Without an error the new file
  has the two lines of each host, followed by the lines of the old file whose address is none of the
  hosts and addresses that were trusted, in their order, no temporary file is left, and each host is
  answered that it is trusted. After an error of any step the file has the text that it had, and no host
  was answered.
\<close>

theorem trust_hosts_all_or_nothing:
  assumes "trust_hosts env io hosts c = (e, c1)"
  shows "(e = None \<longrightarrow>
      (\<exists>ls. scan_text [] (old_text c) = (ls, False) \<and>
        kh_file c1 = Some (text_of_lines (host_lines hosts @ filter (\<lambda>l. line_address l \<notin> host_addresses env hosts) ls))) \<and>
      kh_temp c1 = None \<and>
      (\<forall>i. kh_responses c1 i = kh_responses c i @ replicate (count_list (map uh_channel hosts) i) TrustHost)) \<and>
    (e \<noteq> None \<longrightarrow> old_text c1 = old_text c \<and> kh_responses c1 = kh_responses c)"
  using assms by (cases rule: trust_hosts_cases) (auto simp: respond_responses kept_lines_def)

definition sample_known_env :: "gostr known_env" where
  "sample_known_env =
     \<lparr>ke_check = (\<lambda>file server remote key. KeyChanged), ke_line = (\<lambda>server key. server @ '' '' @ key), ke_normalize = (\<lambda>s. s)\<rparr>"

definition sample_host :: unknown_host where
  "sample_host = make_unknown_host sample_known_env ''h'' ''1.2.3.4'' ''7'' 0"

definition sample_old :: gostr where
  "sample_old = text_of_lines [''h 5'', ''g 6'']"

lemma sample_trust:
  defines "c \<equiv> new_known_hosts_callback (Some sample_old) True"
  shows "trust_hosts sample_known_env (\<lambda>op. True) [sample_host] c =
    (None, respond TrustHost [sample_host] (c\<lparr>kh_file := Some (text_of_lines [''h 7'', ''1.2.3.4 7'', ''g 6'']), kh_temp := None\<rparr>))"
proof -
  obtain e c1 where t: "trust_hosts sample_known_env (\<lambda>op. True) [sample_host] c = (e, c1)" by fastforce
  have o: "old_text c = sample_old" by (simp add: c_def old_text_def new_known_hosts_callback_def)
  have sc: "scan_text [] sample_old = ([''h 5'', ''g 6''], False)"
    by (simp add: sample_old_def text_of_lines_def max_scan_token_size_def drop_cr_def)
  have w: "\<exists>m new1. write_lines (\<lambda>op. True) n ls new = (None, m, new1)" for n ls new
    by (induction ls arbitrary: n new) auto
  obtain m new where w1: "write_lines (\<lambda>op. True) 0 (host_lines [sample_host]) [] = (None, m, new)" using w by blast
  obtain m2 new2 where w2: "write_lines (\<lambda>op. True) m (kept_lines sample_known_env [sample_host] [''h 5'', ''g 6'']) new = (None, m2, new2)" using w by blast
  have e: "e = None" using t w1 w2 sc unfolding trust_hosts_def old_text_def[symmetric] o by (simp add: Let_def)
  have k: "host_lines [sample_host] @ kept_lines sample_known_env [sample_host] [''h 5'', ''g 6''] = [''h 7'', ''1.2.3.4 7'', ''g 6'']" by code_simp
  show ?thesis using t
  proof (cases rule: trust_hosts_cases)
    case (trusted ls)
    then have "ls = [''h 5'', ''g 6'']" using o sc by simp
    then show ?thesis using t trusted k by simp
  qed (use e in simp)
qed

lemma trust_hosts_all_or_nothing_witness:
  "\<exists>c1. trust_hosts sample_known_env (\<lambda>op. True) [sample_host] (new_known_hosts_callback (Some sample_old) True) = (None, c1) \<and>
    kh_file c1 = Some (text_of_lines [''h 7'', ''1.2.3.4 7'', ''g 6'']) \<and> kh_temp c1 = None \<and> kh_responses c1 0 = [TrustHost]"
  using sample_trust trust_hosts_all_or_nothing[OF sample_trust]
  by (simp add: new_known_hosts_callback_def sample_host_def make_unknown_host_def)

subsection \<open>What a prompt decides\<close>

text \<open>The decision is the first line that ends the prompt: whether it is one of the two that trust.\<close>

fun decision :: "gostr list \<Rightarrow> bool option" where
  "decision [] = None"
| "decision (line # input) =
     (let a = trim_space line in
      if a \<in> {''yes'', ''y'', ''all'', ''a''} then Some True
      else if a \<in> {''no'', ''n''} then Some False
      else decision input)"

text \<open>A batch that was answered: the response of all its hosts, the file and the consent behind it.\<close>

definition answered :: "'k known_env \<Rightarrow> gostr list \<Rightarrow> unknown_host list \<Rightarrow> known_hosts \<Rightarrow> response \<Rightarrow> known_hosts \<Rightarrow> bool" where
  "answered env input hosts c r c1 \<longleftrightarrow>
     kh_responses c1 = kh_responses (respond r hosts c) \<and> kh_untrusted c1 = kh_untrusted c \<and>
     (r = TrustHost \<longrightarrow> (kh_trust_all c \<or> decision input = Some True) \<and>
       (\<exists>rest. kh_file c1 = Some (text_of_lines (host_lines hosts @ rest)))) \<and>
     (r = DontTrustHost \<longrightarrow> old_text c1 = old_text c)"

lemma try_trust_answered:
  assumes "kh_trust_all c \<or> decision input = Some True" and "after = (\<lambda>c. c) \<or> after = close_trust_all_hosts_ch"
    and "kh_responses c0 = kh_responses c" "kh_untrusted c0 = kh_untrusted c" "old_text c0 = old_text c"
  shows "\<exists>r. answered env input hosts c r (try_trust env io hosts after c0)"
proof -
  obtain e c1 where t: "trust_hosts env io hosts c0 = (e, c1)" by fastforce
  then show ?thesis
  proof (cases rule: trust_hosts_cases)
    case (trusted ls)
    have c: "kh_file c1 = Some (text_of_lines (host_lines hosts @ kept_lines env hosts ls))"
      "kh_responses c1 = kh_responses (respond TrustHost hosts c)" "kh_untrusted c1 = kh_untrusted c"
      unfolding trusted(3) respond_def using assms(3,4) by simp_all
    have k: "kh_file (after c1) = kh_file c1" "kh_responses (after c1) = kh_responses c1" "kh_untrusted (after c1) = kh_untrusted c1"
      using assms(2) by (auto simp: close_trust_all_hosts_ch_def)
    have "try_trust env io hosts after c0 = after c1" by (simp add: try_trust_def t trusted(1))
    then have "answered env input hosts c TrustHost (try_trust env io hosts after c0)"
      using assms(1) c k by (simp add: answered_def) blast
    then show ?thesis by blast
  next
    case (failed op)
    have "try_trust env io hosts after c0 = dont_trust_hosts hosts c1" by (simp add: try_trust_def t failed(1))
    then have "answered env input hosts c DontTrustHost (try_trust env io hosts after c0)"
      using failed(2-4) assms(3-5) by (simp add: answered_def dont_trust_hosts_def respond_def old_text_def)
    then show ?thesis by blast
  qed
qed

lemma find_hosts_answer:
  "find_answer (hosts_prompt env io hosts) a =
    (if a \<in> {''yes'', ''y''} then Some \<lparr>an_long = ''yes'', an_short = ''y'', an_callback = try_trust env io hosts (\<lambda>c. c), an_again = False\<rparr>
     else if a \<in> {''all'', ''a''} then Some \<lparr>an_long = ''all'', an_short = ''a'', an_callback = try_trust env io hosts close_trust_all_hosts_ch, an_again = False\<rparr>
     else if a \<in> {''no'', ''n''} then Some \<lparr>an_long = ''no'', an_short = ''n'', an_callback = dont_trust_hosts hosts, an_again = False\<rparr>
     else if a \<in> {''details'', ''d''} then Some \<lparr>an_long = ''details'', an_short = ''d'',
       an_callback = (\<lambda>c. c\<lparr>kh_printed := kh_printed c @ host_lines hosts\<rparr>), an_again = True\<rparr>
     else None)"
  by (simp add: find_answer_def hosts_prompt_def add_answer_def new_prompt_def)

lemma ask_answered:
  assumes "ask (hosts_prompt env io hosts) input c0 = Some c1" and "kh_responses c0 = kh_responses c" "kh_untrusted c0 = kh_untrusted c" "old_text c0 = old_text c"
  shows "\<exists>r. answered env input hosts c r c1"
  using assms
proof (induction input arbitrary: c0)
  case (Cons line input)
  let ?a = "trim_space line"
  consider (yes) "?a \<in> {''yes'', ''y'', ''all'', ''a''}" | (no) "?a \<in> {''no'', ''n''}" | (details) "?a \<in> {''details'', ''d''}"
    | (other) "?a \<notin> {''yes'', ''y'', ''all'', ''a'', ''no'', ''n'', ''details'', ''d''}" by blast
  then show ?case
  proof cases
    case yes
    then have d: "decision (line # input) = Some True" by simp
    obtain after where "c1 = try_trust env io hosts after c0" "after = (\<lambda>c. c) \<or> after = close_trust_all_hosts_ch"
      using Cons.prems(1) yes by (auto simp: find_hosts_answer Let_def)
    then show ?thesis using try_trust_answered[of c "line # input" after c0] d Cons.prems by blast
  next
    case no
    then have "c1 = dont_trust_hosts hosts c0" using Cons.prems(1) by (auto simp: find_hosts_answer)
    then have "answered env (line # input) hosts c DontTrustHost c1"
      using Cons.prems by (simp add: answered_def dont_trust_hosts_def respond_def old_text_def)
    then show ?thesis by blast
  next
    case details
    then have d: "decision (line # input) = decision input" by auto
    let ?c = "c0\<lparr>kh_printed := kh_printed c0 @ host_lines hosts\<rparr>"
    have "ask (hosts_prompt env io hosts) input ?c = Some c1" using Cons.prems(1) details by (auto simp: find_hosts_answer Let_def)
    then have "\<exists>r. answered env input hosts c r c1" using Cons.IH[of ?c] Cons.prems by (simp add: old_text_def)
    then show ?thesis by (simp only: answered_def d)
  next
    case other
    then have d: "decision (line # input) = decision input" by auto
    have "ask (hosts_prompt env io hosts) input c0 = Some c1" using Cons.prems(1) other by (auto simp: find_hosts_answer)
    then have "\<exists>r. answered env input hosts c r c1" using Cons.IH[of c0] Cons.prems by simp
    then show ?thesis by (simp only: answered_def d)
  qed
qed simp

lemma prompt_answered: "prompt_add_hosts env io input hosts c = Some c1 \<Longrightarrow> \<exists>r. answered env input hosts c r c1"
  using try_trust_answered[of c input "\<lambda>c. c" c] ask_answered[of env io hosts input c c1 c]
  by (auto simp: prompt_add_hosts_def split: if_splits)

subsection \<open>Each call is answered once\<close>

definition load :: "'k host_system \<Rightarrow> nat \<Rightarrow> nat" where
  "load s i = count_list (map uh_channel (hs_hosts s)) i + length (kh_responses (hs_known s) i)"

text \<open>How often a call may still be answered.\<close>

definition answers_due :: "'k host_call \<Rightarrow> nat" where
  "answers_due call = (case call of AwaitingResponse h e \<Rightarrow> 1 | CallCancelled \<Rightarrow> 1 | _ \<Rightarrow> 0)"

definition host_inv :: "'k host_system \<Rightarrow> bool" where
  "host_inv s \<longleftrightarrow>
     (\<forall>i\<ge>length (hs_calls s). load s i = 0) \<and>
     (\<forall>i<length (hs_calls s). load s i \<le> answers_due (hs_calls s ! i) \<and>
       (\<forall>h e. hs_calls s ! i = AwaitingResponse h e \<longrightarrow> load s i = 1) \<and>
       (\<forall>h e. hs_calls s ! i = Offering h e \<longrightarrow> uh_channel h = i))"

lemma host_inv_new: "host_inv (new_host_system file trust_all)"
  by (simp add: host_inv_def load_def new_host_system_def new_known_hosts_callback_def)

lemma load_prompt: "prompt_batch env io input s = Some s1 \<Longrightarrow> load s1 = load s \<and> hs_calls s1 = hs_calls s \<and> hs_hosts s1 = []"
  by (auto simp: prompt_batch_def load_def answered_def respond_responses fun_eq_iff dest!: prompt_answered)

text \<open>A change of one call that changes no other load.\<close>

lemma host_inv_call:
  assumes "host_inv s" and "i < length (hs_calls s)" and "hs_calls s1 = (hs_calls s)[i := call]" and "\<And>j. j \<noteq> i \<Longrightarrow> load s1 j = load s j"
    and "load s1 i \<le> answers_due call" and "\<And>h e. call = AwaitingResponse h e \<Longrightarrow> load s1 i = 1" and "\<And>h e. call = Offering h e \<Longrightarrow> uh_channel h = i"
  shows "host_inv s1"
  using assms unfolding host_inv_def by (auto simp: nth_list_update)

lemma load_keeps: "hs_known s1 = hs_known s \<Longrightarrow> hs_hosts s1 = hs_hosts s \<Longrightarrow> load s1 = load s"
  by (simp add: load_def fun_eq_iff)

lemma host_inv_taken:
  assumes "host_inv s" and "i < length (hs_calls s)" and "hs_calls s ! i = Offering h e"
  shows "host_inv (s\<lparr>hs_calls := (hs_calls s)[i := AwaitingResponse h e], hs_hosts := hs_hosts s @ [h]\<rparr>)"
proof -
  have c: "uh_channel h = i" and l: "load s i = 0" using assms by (auto simp: host_inv_def answers_due_def)
  show ?thesis using l c by (intro host_inv_call[OF assms(1,2)]) (auto simp: load_def answers_due_def)
qed

lemma host_inv_step:
  assumes "host_inv s" and "host_step env ev s = Some s1"
  shows "host_inv s1"
proof (cases ev)
  case (KeyOffered server remote key)
  let ?call = "begin_call env server remote key (length (hs_calls s)) (hs_known s)"
  have s1: "s1 = s\<lparr>hs_calls := hs_calls s @ [?call]\<rparr>" using assms KeyOffered by (simp add: host_step_def)
  have "load s1 = load s" by (rule load_keeps) (simp_all add: s1)
  then show ?thesis using assms(1) s1
    by (auto simp: host_inv_def nth_append begin_call_def make_unknown_host_def Let_def split: if_splits)
next
  case (HostTaken i io input)
  then obtain h e where i: "i < length (hs_calls s)" "hs_calls s ! i = Offering h e"
    using assms(2) by (auto simp: host_step_def split: if_splits host_call.splits)
  let ?s = "s\<lparr>hs_calls := (hs_calls s)[i := AwaitingResponse h e], hs_hosts := hs_hosts s @ [h]\<rparr>"
  have t: "host_inv ?s" by (rule host_inv_taken[OF assms(1) i])
  have "s1 = ?s \<or> prompt_batch env io input ?s = Some s1"
    using assms(2) HostTaken i by (auto simp: host_step_def Let_def split: if_splits)
  then show ?thesis using t load_prompt[of env io input ?s s1] by (auto simp: host_inv_def)
next
  case (HostsIdle io input)
  then have "s1 = s \<or> prompt_batch env io input s = Some s1" using assms(2) by (auto simp: host_step_def split: if_splits)
  then show ?thesis using assms(1) load_prompt[of env io input s s1] by (auto simp: host_inv_def)
next
  case (ResponseTaken i)
  then obtain h e r rs where i: "i < length (hs_calls s)" "hs_calls s ! i = AwaitingResponse h e" "kh_responses (hs_known s) i = r # rs"
    and s1: "s1 = (case end_call r h e ((hs_known s)\<lparr>kh_responses := (kh_responses (hs_known s))(i := rs)\<rparr>) of
        (call, c) \<Rightarrow> s\<lparr>hs_calls := (hs_calls s)[i := call], hs_known := c\<rparr>)"
    using assms(2) by (auto simp: host_step_def split: if_splits host_call.splits list.splits prod.splits)
  have l: "load s i = 1" using assms(1) i by (auto simp: host_inv_def)
  show ?thesis
    using l i(3) s1 by (cases r; intro host_inv_call[OF assms(1) i(1)]) (auto simp: load_def answers_due_def end_call_def)
next
  case ContextEnded
  then have s1: "s1 = s\<lparr>hs_cancelled := True\<rparr>" using assms(2) by (simp add: host_step_def)
  then show ?thesis using assms(1) load_keeps[of s1 s] by (simp add: host_inv_def)
next
  case (CallAborted i)
  then obtain h e where i: "i < length (hs_calls s)" "hs_calls s ! i = Offering h e \<or> hs_calls s ! i = AwaitingResponse h e"
    and s1: "s1 = s\<lparr>hs_calls := (hs_calls s)[i := CallCancelled]\<rparr>"
    using assms(2) by (auto simp: host_step_def split: if_splits host_call.splits)
  have "load s1 = load s" by (rule load_keeps) (simp_all add: s1)
  moreover have "load s i \<le> 1" using assms(1) i by (auto simp: host_inv_def answers_due_def)
  ultimately show ?thesis using s1 by (intro host_inv_call[OF assms(1) i(1)]) (auto simp: answers_due_def)
next
  case PrompterStopped
  then have "s1 = s\<lparr>hs_prompting := False\<rparr>" using assms(2) by (auto simp: host_step_def split: if_splits)
  then show ?thesis using assms(1) load_keeps[of s1 s] by (simp add: host_inv_def)
qed

lemma host_inv_run: "host_run env evs s = Some s1 \<Longrightarrow> host_inv s \<Longrightarrow> host_inv s1"
  by (induction evs arbitrary: s) (auto split: option.splits intro: host_inv_step)

text \<open>
  C33: However the calls of the connections, the prompter and the end of the context interleave, each
  call that waits for a response either has exactly one host in the batch of the prompter and no response
  yet, or exactly one response and no host in the batch. The channel of no call, also of one that was
  cancelled, is ever given more than the one response that it has room for, so the prompter never blocks.
\<close>

theorem each_call_answered_once:
  assumes "host_run env evs (new_host_system file trust_all) = Some s"
  shows "(\<forall>i. length (kh_responses (hs_known s) i) \<le> 1) \<and>
    (\<forall>i<length (hs_calls s). \<forall>h e. hs_calls s ! i = AwaitingResponse h e \<longrightarrow>
      count_list (map uh_channel (hs_hosts s)) i = 1 \<and> kh_responses (hs_known s) i = [] \<or>
      count_list (map uh_channel (hs_hosts s)) i = 0 \<and> (\<exists>r. kh_responses (hs_known s) i = [r]))"
proof -
  have i: "host_inv s" by (rule host_inv_run[OF assms host_inv_new])
  have "length (kh_responses (hs_known s) i) \<le> 1" for i
  proof (cases "i < length (hs_calls s)")
    case True
    then have "load s i \<le> answers_due (hs_calls s ! i)" using i by (simp add: host_inv_def)
    then show ?thesis by (simp add: load_def answers_due_def split: host_call.splits)
  next
    case False
    then show ?thesis using i by (simp add: host_inv_def load_def)
  qed
  moreover have "count_list (map uh_channel (hs_hosts s)) i = 1 \<and> kh_responses (hs_known s) i = [] \<or>
      count_list (map uh_channel (hs_hosts s)) i = 0 \<and> (\<exists>r. kh_responses (hs_known s) i = [r])"
    if w: "i < length (hs_calls s)" "hs_calls s ! i = AwaitingResponse h e" for i h e
  proof -
    have "load s i = 1" using i w by (simp add: host_inv_def)
    then show ?thesis by (cases "kh_responses (hs_known s) i") (auto simp: load_def)
  qed
  ultimately show ?thesis by blast
qed

text \<open>A run whose events, file and answers are concrete, with the conclusion of the theorem for the first call.\<close>

lemma each_call_answered_once_witness:
  "\<exists>s. host_run sample_known_env [KeyOffered ''h'' ''1.2.3.4'' ''7'', HostTaken 0 (\<lambda>op. True) []] (new_host_system (Some sample_old) True) = Some s \<and>
    count_list (map uh_channel (hs_hosts s)) 0 = 1 \<and> kh_responses (hs_known s) 0 = []"
proof -
  let ?evs = "[KeyOffered ''h'' ''1.2.3.4'' ''7'', HostTaken 0 (\<lambda>op. True) []]"
  let ?s = "(new_host_system (Some sample_old) True)\<lparr>hs_calls := [AwaitingResponse sample_host KeyChanged], hs_hosts := [sample_host]\<rparr>"
  have r: "host_run sample_known_env ?evs (new_host_system (Some sample_old) True) = Some ?s"
    by (simp add: host_step_def begin_call_def sample_known_env_def new_host_system_def hosts_batch_def sample_host_def Let_def)
  show ?thesis using each_call_answered_once[OF r] r by (intro exI[of _ ?s]) (simp add: new_host_system_def sample_host_def make_unknown_host_def)
qed

subsection \<open>Trust in the course of a run\<close>

text \<open>The server, the address and the key of each call of the callback, in the order of the calls.\<close>

fun offers :: "'k host_event list \<Rightarrow> (gostr \<times> gostr \<times> 'k) list" where
  "offers [] = []"
| "offers (KeyOffered server remote key # evs) = (server, remote, key) # offers evs"
| "offers (ev # evs) = offers evs"

definition offered_host :: "'k known_env \<Rightarrow> 'k host_event list \<Rightarrow> nat \<Rightarrow> unknown_host" where
  "offered_host env evs i = (case offers evs ! i of (server, remote, key) \<Rightarrow> make_unknown_host env server remote key i)"

text \<open>When the call was made, the file had the key.\<close>

definition key_was_known :: "'k known_env \<Rightarrow> gostr option \<Rightarrow> bool \<Rightarrow> 'k host_event list \<Rightarrow> nat \<Rightarrow> bool" where
  "key_was_known env file trust_all evs i \<longleftrightarrow>
     (\<exists>evs1 evs2 s1 server remote key.
       evs = evs1 @ KeyOffered server remote key # evs2 \<and> length (offers evs1) = i \<and>
       host_run env evs1 (new_host_system file trust_all) = Some s1 \<and>
       ke_check env (kh_file (hs_known s1)) server remote key = KeyKnown)"

text \<open>
  At some event the prompter asked, all hosts were trusted then or the answer was to trust, and after it
  the file began with the lines of a batch that has the key of the call.
\<close>

definition key_was_trusted :: "'k known_env \<Rightarrow> gostr option \<Rightarrow> bool \<Rightarrow> 'k host_event list \<Rightarrow> nat \<Rightarrow> bool" where
  "key_was_trusted env file trust_all evs i \<longleftrightarrow>
     (\<exists>evs1 ev evs2 s1 s2 io input.
       evs = evs1 @ ev # evs2 \<and> host_run env evs1 (new_host_system file trust_all) = Some s1 \<and> host_step env ev s1 = Some s2 \<and>
       (ev = HostsIdle io input \<or> (\<exists>j. ev = HostTaken j io input)) \<and>
       (kh_trust_all (hs_known s1) \<or> decision input = Some True) \<and>
       (\<exists>hosts rest. offered_host env evs i \<in> set hosts \<and> kh_file (hs_known s2) = Some (text_of_lines (host_lines hosts @ rest))))"

lemma offers_append: "offers (evs1 @ evs2) = offers evs1 @ offers evs2"
  by (induction evs1 rule: offers.induct) simp_all

lemma host_run_append: "host_run env (evs1 @ evs2) s = (case host_run env evs1 s of None \<Rightarrow> None | Some s1 \<Rightarrow> host_run env evs2 s1)"
  by (induction evs1 arbitrary: s) (auto split: option.splits)

lemma offered_host_append: "i < length (offers evs) \<Longrightarrow> offered_host env (evs @ evs2) i = offered_host env evs i"
  by (simp add: offered_host_def offers_append nth_append)

lemma known_append: "key_was_known env file ta evs i \<Longrightarrow> key_was_known env file ta (evs @ evs2) i"
  unfolding key_was_known_def by (metis append.assoc append_Cons)

lemma trusted_append:
  assumes "i < length (offers evs)" and "key_was_trusted env file ta evs i"
  shows "key_was_trusted env file ta (evs @ evs2) i"
proof -
  obtain evs1 ev evs3 s1 s2 io input hosts rest where e: "evs = evs1 @ ev # evs3" "host_run env evs1 (new_host_system file ta) = Some s1"
    "host_step env ev s1 = Some s2" "ev = HostsIdle io input \<or> (\<exists>j. ev = HostTaken j io input)"
    "kh_trust_all (hs_known s1) \<or> decision input = Some True"
    "offered_host env evs i \<in> set hosts" "kh_file (hs_known s2) = Some (text_of_lines (host_lines hosts @ rest))"
    using assms(2) unfolding key_was_trusted_def by blast
  have "evs @ evs2 = evs1 @ ev # (evs3 @ evs2)" using e(1) by simp
  moreover have "offered_host env (evs @ evs2) i \<in> set hosts" using e(6) offered_host_append[OF assms(1)] by simp
  ultimately show ?thesis unfolding key_was_trusted_def using e(2-5,7) by blast
qed

text \<open>What holds of the state after a trace.\<close>

definition trace_inv :: "'k known_env \<Rightarrow> gostr option \<Rightarrow> bool \<Rightarrow> 'k host_event list \<Rightarrow> 'k host_system \<Rightarrow> bool" where
  "trace_inv env file ta evs s \<longleftrightarrow>
     length (offers evs) = length (hs_calls s) \<and>
     (\<forall>h\<in>set (hs_hosts s). uh_channel h < length (hs_calls s) \<and> h = offered_host env evs (uh_channel h)) \<and>
     (\<forall>i h e. i < length (hs_calls s) \<longrightarrow> hs_calls s ! i = Offering h e \<longrightarrow> h = offered_host env evs i) \<and>
     (\<forall>i. TrustHost \<in> set (kh_responses (hs_known s) i) \<longrightarrow> i < length (hs_calls s) \<and> key_was_trusted env file ta evs i) \<and>
     (\<forall>i<length (hs_calls s). hs_calls s ! i = CallAccepted \<longrightarrow> key_was_known env file ta evs i \<or> key_was_trusted env file ta evs i)"

text \<open>Events that offer no key keep the invariant of a state whose calls, hosts and responses have not grown.\<close>

lemma trace_inv_mono:
  assumes "trace_inv env file ta evs s" and "offers [ev] = []" and "length (hs_calls s1) = length (hs_calls s)"
    and "\<forall>h\<in>set (hs_hosts s1). h \<in> set (hs_hosts s) \<or> (\<exists>i e. i < length (hs_calls s) \<and> hs_calls s ! i = Offering h e \<and> uh_channel h = i)"
    and "\<forall>i h e. i < length (hs_calls s) \<longrightarrow> hs_calls s1 ! i = Offering h e \<longrightarrow> hs_calls s ! i = Offering h e"
    and "\<forall>i. TrustHost \<in> set (kh_responses (hs_known s1) i) \<longrightarrow> TrustHost \<in> set (kh_responses (hs_known s) i) \<or>
      i < length (hs_calls s) \<and> key_was_trusted env file ta (evs @ [ev]) i"
    and "\<forall>i<length (hs_calls s). hs_calls s1 ! i = CallAccepted \<longrightarrow> hs_calls s ! i = CallAccepted \<or> TrustHost \<in> set (kh_responses (hs_known s) i)"
  shows "trace_inv env file ta (evs @ [ev]) s1"
proof -
  note a = assms(1)[unfolded trace_inv_def]
  have l: "length (offers evs) = length (hs_calls s)" and lo: "offers (evs @ [ev]) = offers evs" using a assms(2) by (simp_all add: offers_append)
  have o: "offered_host env (evs @ [ev]) i = offered_host env evs i" for i using lo by (simp add: offered_host_def)
  have hosts: "\<forall>h\<in>set (hs_hosts s1). uh_channel h < length (hs_calls s) \<and> h = offered_host env evs (uh_channel h)"
    using a assms(4) by blast
  have tr: "i < length (hs_calls s) \<and> key_was_trusted env file ta (evs @ [ev]) i" if "TrustHost \<in> set (kh_responses (hs_known s) i)" for i
    using a that trusted_append l by metis
  have acc: "key_was_known env file ta (evs @ [ev]) i \<or> key_was_trusted env file ta (evs @ [ev]) i"
    if "i < length (hs_calls s)" "hs_calls s ! i = CallAccepted" for i
    using a that trusted_append[of i evs] known_append l by metis
  have off: "\<forall>i h e. i < length (hs_calls s) \<longrightarrow> hs_calls s1 ! i = Offering h e \<longrightarrow> h = offered_host env evs i" using a assms(5) by metis
  have tr1: "\<forall>i. TrustHost \<in> set (kh_responses (hs_known s1) i) \<longrightarrow> i < length (hs_calls s) \<and> key_was_trusted env file ta (evs @ [ev]) i"
    using assms(6) tr by metis
  have acc1: "\<forall>i<length (hs_calls s). hs_calls s1 ! i = CallAccepted \<longrightarrow>
      key_was_known env file ta (evs @ [ev]) i \<or> key_was_trusted env file ta (evs @ [ev]) i" using assms(7) tr acc by metis
  show ?thesis
    unfolding trace_inv_def o lo l assms(3) by (intro conjI refl hosts off tr1 acc1)
qed

lemma prompt_traced:
  assumes "prompt_batch env io input s = Some s1"
  shows "hs_calls s1 = hs_calls s \<and> hs_hosts s1 = [] \<and>
    (\<forall>i. TrustHost \<in> set (kh_responses (hs_known s1) i) \<longrightarrow>
      TrustHost \<in> set (kh_responses (hs_known s) i) \<or>
      i \<in> uh_channel ` set (hs_hosts s) \<and> (kh_trust_all (hs_known s) \<or> decision input = Some True) \<and>
      (\<exists>rest. kh_file (hs_known s1) = Some (text_of_lines (host_lines (hs_hosts s) @ rest))))"
proof -
  obtain c where c: "prompt_add_hosts env io input (hs_hosts s) (hs_known s) = Some c" "s1 = s\<lparr>hs_known := c, hs_hosts := []\<rparr>"
    using assms by (auto simp: prompt_batch_def)
  obtain r where "answered env input (hs_hosts s) (hs_known s) r c" using prompt_answered[OF c(1)] by blast
  then show ?thesis using c(2) by (cases r) (auto simp: answered_def respond_responses count_list_0_iff split: if_splits)
qed

lemma trace_inv_prompt:
  assumes i: "trace_inv env file ta evs s" and run: "host_run env evs (new_host_system file ta) = Some s" and st: "host_step env ev s = Some s1"
    and ev: "ev = HostsIdle io input \<or> (\<exists>j. ev = HostTaken j io input)"
    and p: "prompt_batch env io input s2 = Some s1" and k: "hs_known s2 = hs_known s" and lc: "length (hs_calls s2) = length (hs_calls s)"
    and hosts: "\<forall>h\<in>set (hs_hosts s2). h \<in> set (hs_hosts s) \<or> (\<exists>i e. i < length (hs_calls s) \<and> hs_calls s ! i = Offering h e \<and> uh_channel h = i)"
    and calls: "\<forall>i h e. i < length (hs_calls s) \<longrightarrow> hs_calls s2 ! i = Offering h e \<longrightarrow> hs_calls s ! i = Offering h e"
    and acc: "\<forall>i<length (hs_calls s). hs_calls s2 ! i = CallAccepted \<longrightarrow> hs_calls s ! i = CallAccepted"
  shows "trace_inv env file ta (evs @ [ev]) s1"
proof -
  note pt = prompt_traced[OF p]
  have no: "offers [ev] = []" using ev by auto
  have lo: "offers (evs @ [ev]) = offers evs" using no by (simp add: offers_append)
  have off: "\<forall>h\<in>set (hs_hosts s2). uh_channel h < length (hs_calls s) \<and> h = offered_host env evs (uh_channel h)"
    using i hosts unfolding trace_inv_def by blast
  have tr: "i < length (hs_calls s) \<and> key_was_trusted env file ta (evs @ [ev]) i"
    if t: "i \<in> uh_channel ` set (hs_hosts s2)" "kh_trust_all (hs_known s2) \<or> decision input = Some True"
      "kh_file (hs_known s1) = Some (text_of_lines (host_lines (hs_hosts s2) @ rest))" for i rest
  proof -
    obtain h where h: "h \<in> set (hs_hosts s2)" "i = uh_channel h" using t(1) by blast
    have m: "i < length (hs_calls s)" "offered_host env evs i \<in> set (hs_hosts s2)" using off h by metis+
    have o: "offered_host env (evs @ [ev]) i = offered_host env evs i" using lo by (simp add: offered_host_def)
    have "key_was_trusted env file ta (evs @ [ev]) i"
      unfolding key_was_trusted_def o
      by (rule exI[of _ evs], rule exI[of _ ev], rule exI[of _ "[]"], rule exI[of _ s], rule exI[of _ s1], rule exI[of _ io], rule exI[of _ input])
        (use run st ev t(2)[unfolded k] t(3) m(2) in blast)
    then show ?thesis using m(1) by blast
  qed
  show ?thesis
  proof (rule trace_inv_mono[OF i no])
    show "length (hs_calls s1) = length (hs_calls s)" using pt lc by simp
    show "\<forall>h\<in>set (hs_hosts s1). h \<in> set (hs_hosts s) \<or> (\<exists>i e. i < length (hs_calls s) \<and> hs_calls s ! i = Offering h e \<and> uh_channel h = i)"
      using pt by simp
    show "\<forall>i h e. i < length (hs_calls s) \<longrightarrow> hs_calls s1 ! i = Offering h e \<longrightarrow> hs_calls s ! i = Offering h e" using pt calls by simp
    show "\<forall>i. TrustHost \<in> set (kh_responses (hs_known s1) i) \<longrightarrow> TrustHost \<in> set (kh_responses (hs_known s) i) \<or>
      i < length (hs_calls s) \<and> key_was_trusted env file ta (evs @ [ev]) i"
    proof (intro allI impI)
      fix i
      assume "TrustHost \<in> set (kh_responses (hs_known s1) i)"
      from pt[THEN conjunct2, THEN conjunct2, THEN spec, THEN mp, OF this]
      show "TrustHost \<in> set (kh_responses (hs_known s) i) \<or> i < length (hs_calls s) \<and> key_was_trusted env file ta (evs @ [ev]) i"
        unfolding k using tr[unfolded k] by blast
    qed
    show "\<forall>i<length (hs_calls s). hs_calls s1 ! i = CallAccepted \<longrightarrow> hs_calls s ! i = CallAccepted \<or> TrustHost \<in> set (kh_responses (hs_known s) i)"
      using pt acc by simp
  qed
qed

lemma trace_inv_offer:
  assumes i: "trace_inv env file ta evs s" and run: "host_run env evs (new_host_system file ta) = Some s"
    and s1: "s1 = s\<lparr>hs_calls := hs_calls s @ [begin_call env server remote key (length (hs_calls s)) (hs_known s)]\<rparr>"
  shows "trace_inv env file ta (evs @ [KeyOffered server remote key]) s1"
proof -
  let ?evs = "evs @ [KeyOffered server remote key]" and ?n = "length (hs_calls s)"
  note a = i[unfolded trace_inv_def]
  have l: "length (offers evs) = ?n" using a by simp
  have l1: "offers ?evs = offers evs @ [(server, remote, key)]" by (simp add: offers_append)
  have o: "offered_host env ?evs i = offered_host env evs i" if "i < ?n" for i using offered_host_append that l by metis
  have on: "offered_host env ?evs ?n = make_unknown_host env server remote key ?n" using l by (simp add: offered_host_def l1 nth_append)
  have known: "key_was_known env file ta ?evs ?n" if "begin_call env server remote key ?n (hs_known s) = CallAccepted"
  proof -
    have "ke_check env (kh_file (hs_known s)) server remote key = KeyKnown" using that by (simp add: begin_call_def Let_def split: if_splits)
    then show ?thesis unfolding key_was_known_def using run l by blast
  qed
  have acc: "key_was_known env file ta ?evs i \<or> key_was_trusted env file ta ?evs i" if "i < ?n" "hs_calls s ! i = CallAccepted" for i
    using a that trusted_append[of i evs] known_append l by metis
  have tr: "i < ?n \<and> key_was_trusted env file ta ?evs i" if "TrustHost \<in> set (kh_responses (hs_known s) i)" for i
    using a that trusted_append l by metis
  have offr: "h = make_unknown_host env server remote key ?n" if "begin_call env server remote key ?n (hs_known s) = Offering h e" for h e
    using that by (auto simp: begin_call_def Let_def split: if_splits)
  show ?thesis
    unfolding trace_inv_def
  proof (intro conjI)
    show "length (offers ?evs) = length (hs_calls s1)" using l l1 s1 by simp
    show "\<forall>h\<in>set (hs_hosts s1). uh_channel h < length (hs_calls s1) \<and> h = offered_host env ?evs (uh_channel h)"
    proof
      fix h assume "h \<in> set (hs_hosts s1)"
      then have "uh_channel h < ?n" "h = offered_host env evs (uh_channel h)" using a s1 by auto
      then show "uh_channel h < length (hs_calls s1) \<and> h = offered_host env ?evs (uh_channel h)" using o s1 by simp
    qed
    show "\<forall>i h e. i < length (hs_calls s1) \<longrightarrow> hs_calls s1 ! i = Offering h e \<longrightarrow> h = offered_host env ?evs i"
      using a o on offr s1 by (auto simp: nth_append less_Suc_eq)
    show "\<forall>i. TrustHost \<in> set (kh_responses (hs_known s1) i) \<longrightarrow> i < length (hs_calls s1) \<and> key_was_trusted env file ta ?evs i"
      using tr s1 by (simp add: less_SucI)
    show "\<forall>i<length (hs_calls s1). hs_calls s1 ! i = CallAccepted \<longrightarrow> key_was_known env file ta ?evs i \<or> key_was_trusted env file ta ?evs i"
      using acc known s1 by (auto simp: nth_append less_Suc_eq)
  qed
qed

lemma trace_inv_step:
  assumes i: "trace_inv env file ta evs s" and run: "host_run env evs (new_host_system file ta) = Some s" and hi: "host_inv s" and st: "host_step env ev s = Some s1"
  shows "trace_inv env file ta (evs @ [ev]) s1"
proof (cases ev)
  case (KeyOffered server remote key)
  then have s1: "s1 = s\<lparr>hs_calls := hs_calls s @ [begin_call env server remote key (length (hs_calls s)) (hs_known s)]\<rparr>"
    using st by (simp add: host_step_def)
  show ?thesis unfolding KeyOffered by (rule trace_inv_offer[OF i run s1])
next
  case (HostTaken j io input)
  then obtain h e where j: "j < length (hs_calls s)" "hs_calls s ! j = Offering h e"
    using st by (auto simp: host_step_def split: if_splits host_call.splits)
  let ?s = "s\<lparr>hs_calls := (hs_calls s)[j := AwaitingResponse h e], hs_hosts := hs_hosts s @ [h]\<rparr>"
  have ch: "uh_channel h = j" using hi j by (simp add: host_inv_def)
  have hosts: "\<forall>h\<in>set (hs_hosts ?s). h \<in> set (hs_hosts s) \<or> (\<exists>i e. i < length (hs_calls s) \<and> hs_calls s ! i = Offering h e \<and> uh_channel h = i)"
    using j ch by auto
  have calls: "\<forall>i h e. i < length (hs_calls s) \<longrightarrow> hs_calls ?s ! i = Offering h e \<longrightarrow> hs_calls s ! i = Offering h e"
    "\<forall>i<length (hs_calls s). hs_calls ?s ! i = CallAccepted \<longrightarrow> hs_calls s ! i = CallAccepted"
    using j(1) by (auto simp: nth_list_update)
  have "s1 = ?s \<or> prompt_batch env io input ?s = Some s1" using st HostTaken j by (auto simp: host_step_def Let_def split: if_splits)
  then show ?thesis
  proof
    assume s1: "s1 = ?s"
    show ?thesis using hosts calls unfolding s1 by (intro trace_inv_mono[OF i]) (simp_all add: HostTaken)
  next
    assume "prompt_batch env io input ?s = Some s1"
    then show ?thesis using HostTaken hosts calls by (intro trace_inv_prompt[OF i run st, of io input ?s]) simp_all
  qed
next
  case (HostsIdle io input)
  then have "s1 = s \<or> prompt_batch env io input s = Some s1" using st by (auto simp: host_step_def split: if_splits)
  then show ?thesis
    using HostsIdle trace_inv_mono[OF i, of ev s] trace_inv_prompt[OF i run st, of io input s] by auto
next
  case (ResponseTaken j)
  then obtain h e r rs where j: "j < length (hs_calls s)" "hs_calls s ! j = AwaitingResponse h e" "kh_responses (hs_known s) j = r # rs"
    and s1: "s1 = (case end_call r h e ((hs_known s)\<lparr>kh_responses := (kh_responses (hs_known s))(j := rs)\<rparr>) of
        (call, c) \<Rightarrow> s\<lparr>hs_calls := (hs_calls s)[j := call], hs_known := c\<rparr>)"
    using st by (auto simp: host_step_def split: if_splits host_call.splits list.splits prod.splits)
  show ?thesis using j s1 ResponseTaken
    by (intro trace_inv_mono[OF i]; cases r) (auto simp: end_call_def nth_list_update split: if_splits)
next
  case ContextEnded
  then show ?thesis using st by (intro trace_inv_mono[OF i]) (auto simp: host_step_def)
next
  case (CallAborted j)
  then obtain h e where j: "j < length (hs_calls s)" "hs_calls s ! j = Offering h e \<or> hs_calls s ! j = AwaitingResponse h e"
    and s1: "s1 = s\<lparr>hs_calls := (hs_calls s)[j := CallCancelled]\<rparr>"
    using st by (auto simp: host_step_def split: if_splits host_call.splits)
  show ?thesis using s1 CallAborted j(1) by (intro trace_inv_mono[OF i]) (auto simp: nth_list_update split: if_splits)
next
  case PrompterStopped
  then show ?thesis using st by (intro trace_inv_mono[OF i]) (auto simp: host_step_def split: if_splits)
qed

text \<open>
  C31: No connection is accepted without trust in the key that it offered. If the callback of a connection
  has accepted it, then either the known hosts file had the key when the callback was called, or at some
  later event the prompter had the host of this call in its batch, the user trusted the batch (or all
  hosts were trusted already), and the file was written with the lines of this server and this key.
\<close>

theorem accepted_only_if_trusted:
  assumes "host_run env evs (new_host_system file trust_all) = Some s" and "i < length (hs_calls s)" and "hs_calls s ! i = CallAccepted"
  shows "key_was_known env file trust_all evs i \<or> key_was_trusted env file trust_all evs i"
proof -
  have "trace_inv env file trust_all evs s" using assms(1)
  proof (induction evs arbitrary: s rule: rev_induct)
    case Nil
    then show ?case by (auto simp: trace_inv_def new_host_system_def new_known_hosts_callback_def)
  next
    case (snoc ev evs)
    then obtain s0 where s0: "host_run env evs (new_host_system file trust_all) = Some s0" "host_step env ev s0 = Some s"
      by (auto simp: host_run_append split: option.splits)
    then show ?case using trace_inv_step[OF snoc.IH[OF s0(1)] s0(1) host_inv_run[OF s0(1) host_inv_new] s0(2)] by blast
  qed
  then show ?thesis using assms(2,3) by (simp add: trace_inv_def)
qed

lemma accepted_only_if_trusted_witness:
  "\<exists>s. host_run sample_known_env [KeyOffered ''h'' ''1.2.3.4'' ''7'', HostTaken 0 (\<lambda>op. True) [], HostsIdle (\<lambda>op. True) [], ResponseTaken 0]
      (new_host_system (Some sample_old) True) = Some s \<and>
    hs_calls s ! 0 = CallAccepted \<and> kh_file (hs_known s) = Some (text_of_lines [''h 7'', ''1.2.3.4 7'', ''g 6'']) \<and>
    key_was_trusted sample_known_env (Some sample_old) True
      [KeyOffered ''h'' ''1.2.3.4'' ''7'', HostTaken 0 (\<lambda>op. True) [], HostsIdle (\<lambda>op. True) [], ResponseTaken 0] 0"
proof -
  let ?evs = "[KeyOffered ''h'' ''1.2.3.4'' ''7'', HostTaken 0 (\<lambda>op. True) [], HostsIdle (\<lambda>op. True) [], ResponseTaken 0]"
  let ?c = "new_known_hosts_callback (Some sample_old) True"
  let ?c1 = "?c\<lparr>kh_file := Some (text_of_lines [''h 7'', ''1.2.3.4 7'', ''g 6'']), kh_temp := None\<rparr>"
  let ?c2 = "?c1\<lparr>kh_responses := (kh_responses (respond TrustHost [sample_host] ?c1))(0 := [])\<rparr>"
  let ?s = "(new_host_system (Some sample_old) True)\<lparr>hs_known := ?c2, hs_calls := [CallAccepted]\<rparr>"
  have p: "prompt_add_hosts sample_known_env (\<lambda>op. True) [] [sample_host] ?c = Some (respond TrustHost [sample_host] ?c1)"
    using sample_trust by (simp add: prompt_add_hosts_def try_trust_def new_known_hosts_callback_def)
  have b: "begin_call sample_known_env ''h'' ''1.2.3.4'' ''7'' 0 ?c = Offering sample_host KeyChanged"
    by (simp add: begin_call_def sample_known_env_def sample_host_def Let_def)
  have rs: "kh_responses (respond TrustHost [sample_host] ?c1) 0 = [TrustHost]"
    by (simp add: respond_responses new_known_hosts_callback_def) (simp add: sample_host_def make_unknown_host_def)
  have r: "host_run sample_known_env ?evs (new_host_system (Some sample_old) True) = Some ?s"
    using p b rs by (simp add: host_step_def new_host_system_def hosts_batch_def prompt_batch_def end_call_def Let_def respond_def)
  have n: "\<not> key_was_known sample_known_env f t evs i" for f t evs i by (simp add: key_was_known_def sample_known_env_def)
  show ?thesis using accepted_only_if_trusted[OF r, of 0] n r by (intro exI[of _ ?s]) simp
qed

end
