(* ===== verification/Discovery.thy ===== *)
theory Discovery
  imports Control_Line Known_Hosts "HOL-Library.Multiset"
begin

text \<open>
  The servers that a client connects to (\<open>internal/discovery\<close>): a list in the argument or in a file, filtered by
  an expression, without duplicates and in a random order. The file system and the regular expression
  engine are arguments, and so are the numbers of the random source. A fatal error of the code is an error.
\<close>

subsection \<open>The method of discovery\<close>

record 'r discovery =
  dc_module :: gostr
  dc_options :: gostr
  dc_server :: gostr
  dc_regex :: "'r option"
  dc_order :: int

datatype discovery_error =
    BadModule gostr
  | BadServerRegex gostr
  | NoSuchModule gostr
  | CannotReadServers gostr

definition shuffle_order :: int where
  "shuffle_order = 0"

text \<open>The runes of a text but those at the indices 0 and \<open>last\<close>.\<close>

function inner_runes :: "nat \<Rightarrow> nat \<Rightarrow> gostr \<Rightarrow> gostr" where
  "inner_runes i l s =
     (if s = [] then []
      else (if i \<noteq> 0 \<and> i \<noteq> l then rune_text s else []) @ inner_runes (i + max 1 (rune_size s)) l (drop (max 1 (rune_size s)) s))"
  by pat_completeness auto
termination
  by (relation "measure (\<lambda>(i, l, s). length s)") auto

declare inner_runes.simps [simp del]

definition init_regex :: "(gostr \<Rightarrow> 'r option) \<Rightarrow> 'r discovery \<Rightarrow> discovery_error + 'r discovery" where
  "init_regex compile d =
     (let s = inner_runes 0 (length (dc_server d) - 1) (dc_server d) in
      case compile s of None \<Rightarrow> Inl (BadServerRegex s) | Some r \<Rightarrow> Inr (d\<lparr>dc_regex := Some r, dc_server := []\<rparr>))"

definition split_module :: "gostr \<Rightarrow> discovery_error + gostr \<times> gostr" where
  "split_module method =
     (if contains method '':'' then
        (case split_n '':'' 2 method of
           [m, opts] \<Rightarrow> (if m = [] \<or> opts = [] then Inl (BadModule method) else Inr (m, opts))
         | _ \<Rightarrow> Inl (BadModule method))
      else Inr (method, []))"

definition new_discovery :: "(gostr \<Rightarrow> 'r option) \<Rightarrow> gostr \<Rightarrow> gostr \<Rightarrow> int \<Rightarrow> discovery_error + 'r discovery" where
  "new_discovery compile method server order =
     and_then (split_module method) (\<lambda>(m, opts).
       let d = \<lparr>dc_module = to_upper m, dc_options = opts, dc_server = server, dc_regex = None, dc_order = order\<rparr> in
       if has_prefix server ''/'' \<and> has_suffix server ''/'' then init_regex compile d else Inr d)"

subsection \<open>Lists\<close>

definition server_list_from_comma :: "'r discovery \<Rightarrow> gostr list" where
  "server_list_from_comma d =
     (let raw = split '','' (dc_server d); servers = filter (\<lambda>s. s \<noteq> []) raw in
      if servers = [] \<and> dc_server d = [] then raw else servers)"

text \<open>The content of the file, if it can be opened and read.\<close>

definition server_list_from_file :: "(gostr \<Rightarrow> gostr option) \<Rightarrow> 'r discovery \<Rightarrow> discovery_error + gostr list" where
  "server_list_from_file read d =
     (case read (dc_server d) of
        None \<Rightarrow> Inl (CannotReadServers (dc_server d))
      | Some content \<Rightarrow>
          (case scan_text [] content of
             (servers, too_long) \<Rightarrow> if too_long then Inl (CannotReadServers (dc_server d)) else Inr servers))"

text \<open>The methods that reflection finds by their name.\<close>

definition server_list_from_reflected_module :: "(gostr \<Rightarrow> gostr option) \<Rightarrow> 'r discovery \<Rightarrow> discovery_error + gostr list" where
  "server_list_from_reflected_module read d =
     (if dc_module d = ''FILE'' then server_list_from_file read d
      else if dc_module d = ''COMMA'' then Inr (server_list_from_comma d)
      else Inl (NoSuchModule (dc_module d)))"

definition server_list_from_module :: "(gostr \<Rightarrow> bool) \<Rightarrow> (gostr \<Rightarrow> gostr option) \<Rightarrow> 'r discovery \<Rightarrow> discovery_error + gostr list" where
  "server_list_from_module exists read d =
     (if dc_module d \<noteq> [] then server_list_from_reflected_module read d
      else if dc_server d = [] \<and> dc_regex d \<noteq> None then Inr []
      else if exists (dc_server d) then server_list_from_file read d
      else Inr (server_list_from_comma d))"

definition filter_list :: "('r \<Rightarrow> gostr \<Rightarrow> bool) \<Rightarrow> 'r \<Rightarrow> gostr list \<Rightarrow> gostr list" where
  "filter_list rmatch r servers = filter (rmatch r) servers"

fun dedup_loop :: "gostr set \<Rightarrow> gostr list \<Rightarrow> gostr list" where
  "dedup_loop seen [] = []"
| "dedup_loop seen (s # ss) = (if s \<in> seen then dedup_loop seen ss else s # dedup_loop (insert s seen) ss)"

definition dedup_list :: "gostr list \<Rightarrow> gostr list" where
  "dedup_list servers = dedup_loop {} servers"

definition swap_at :: "nat \<Rightarrow> nat \<Rightarrow> 'a list \<Rightarrow> 'a list" where
  "swap_at i j xs = xs[i := xs ! j, j := xs ! i]"

text \<open>\<open>Shuffle\<close> of a random source, which draws a number up to \<open>i\<close> for each index from the last one down to 1.\<close>

fun shuffle_from :: "(nat \<Rightarrow> nat) \<Rightarrow> nat \<Rightarrow> 'a list \<Rightarrow> 'a list" where
  "shuffle_from rnd 0 xs = xs"
| "shuffle_from rnd (Suc i) xs = shuffle_from rnd i (swap_at (Suc i) (rnd (Suc i) mod (Suc i + 1)) xs)"

definition shuffle_list :: "(nat \<Rightarrow> nat) \<Rightarrow> gostr list \<Rightarrow> gostr list" where
  "shuffle_list rnd servers = shuffle_from rnd (length servers - 1) servers"

definition server_list :: "(gostr \<Rightarrow> bool) \<Rightarrow> (gostr \<Rightarrow> gostr option) \<Rightarrow> ('r \<Rightarrow> gostr \<Rightarrow> bool) \<Rightarrow> (nat \<Rightarrow> nat) \<Rightarrow> 'r discovery \<Rightarrow>
    discovery_error + gostr list" where
  "server_list exists read rmatch rnd d =
     and_then (server_list_from_module exists read d) (\<lambda>servers.
       let filtered = (case dc_regex d of None \<Rightarrow> servers | Some r \<Rightarrow> filter_list rmatch r servers);
           deduped = dedup_list filtered in
       Inr (if dc_order d = shuffle_order then shuffle_list rnd deduped else deduped))"

subsection \<open>What is lost and what is kept\<close>

lemma remdups_snoc: "remdups (xs @ [x]) = filter (\<lambda>y. y \<noteq> x) (remdups xs) @ [x]"
  by (induction xs) auto

lemma dedup_loop_remdups: "dedup_loop seen ss = filter (\<lambda>s. s \<notin> seen) (rev (remdups (rev ss)))"
proof (induction ss arbitrary: seen)
  case (Cons s ss)
  have "rev (remdups (rev (s # ss))) = s # filter (\<lambda>x. x \<noteq> s) (rev (remdups (rev ss)))"
    by (simp add: remdups_snoc rev_filter)
  then show ?case using Cons by (auto intro!: filter_cong)
qed simp

lemma mset_swap_at: "i < length xs \<Longrightarrow> j < length xs \<Longrightarrow> mset (swap_at i j xs) = mset xs"
  by (simp add: swap_at_def mset_swap)

lemma length_swap_at [simp]: "length (swap_at i j xs) = length xs"
  by (simp add: swap_at_def)

lemma mset_shuffle_from: "i < length xs \<Longrightarrow> mset (shuffle_from rnd i xs) = mset xs"
proof (induction i arbitrary: xs)
  case (Suc i)
  have "rnd (Suc i) mod (Suc i + 1) < length xs" using Suc.prems mod_less_divisor[of "Suc i + 1" "rnd (Suc i)"] by linarith
  then show ?case using Suc by (simp add: mset_swap_at)
qed simp

lemma mset_shuffle_list: "mset (shuffle_list rnd xs) = mset xs"
  by (cases xs) (simp_all add: shuffle_list_def mset_shuffle_from)

text \<open>
  The list of servers has each discovered server that the filter lets through exactly once, and
  nothing else, whatever the random numbers are. Without shuffling the servers keep the order of their
  first occurrences. A filter alone, without servers to filter, gives an empty list.
\<close>

theorem server_list_exact:
  assumes "server_list exists read rmatch rnd d = Inr servers"
  shows "\<exists>found. server_list_from_module exists read d = Inr found \<and>
    (let kept = (case dc_regex d of None \<Rightarrow> found | Some r \<Rightarrow> filter (rmatch r) found) in
      distinct servers \<and> set servers = set kept \<and>
      (dc_order d \<noteq> shuffle_order \<longrightarrow> servers = rev (remdups (rev kept))))"
proof -
  obtain found where f: "server_list_from_module exists read d = Inr found"
    using assms by (auto simp: server_list_def and_then_def split: sum.splits)
  let ?kept = "case dc_regex d of None \<Rightarrow> found | Some r \<Rightarrow> filter (rmatch r) found"
  have k: "(case dc_regex d of None \<Rightarrow> found | Some r \<Rightarrow> filter_list rmatch r found) = ?kept"
    by (simp add: filter_list_def split: option.split)
  have dd: "dedup_list ?kept = rev (remdups (rev ?kept))" by (simp add: dedup_list_def dedup_loop_remdups)
  have s: "servers = (if dc_order d = shuffle_order then shuffle_list rnd (dedup_list ?kept) else dedup_list ?kept)"
proof -
    have "Inr servers = server_list exists read rmatch rnd d" using assms by simp
    also have "\<dots> = Inr (if dc_order d = shuffle_order then shuffle_list rnd (dedup_list ?kept) else dedup_list ?kept)"
      unfolding server_list_def f and_then_def Let_def k[symmetric] by simp
    finally show ?thesis by simp
  qed
  have m: "mset servers = mset (dedup_list ?kept)" using s by (simp add: mset_shuffle_list)
  have "distinct servers" using m dd by (metis distinct_remdups distinct_rev mset_eq_imp_distinct_iff)
  moreover have "set servers = set ?kept" using mset_eq_setD[OF m] dd by simp
  ultimately show ?thesis using f s dd by (simp add: Let_def)
qed

lemma server_list_exact_witness:
  "\<exists>servers. server_list (\<lambda>f. False) (\<lambda>f. None) (\<lambda>r s. True) (\<lambda>i. 5)
      \<lparr>dc_module = [], dc_options = [], dc_server = ''b,a,,b,c'', dc_regex = (None :: unit option), dc_order = 0\<rparr> = Inr servers \<and>
    distinct servers \<and> set servers = {''a'', ''b'', ''c''}"
proof -
  let ?d = "\<lparr>dc_module = [], dc_options = [], dc_server = ''b,a,,b,c'', dc_regex = (None :: unit option), dc_order = 0\<rparr>"
  have f: "server_list_from_module (\<lambda>f. False) (\<lambda>f. None) ?d = Inr [''b'', ''a'', ''b'', ''c'']" by code_simp
  obtain servers where s: "server_list (\<lambda>f. False) (\<lambda>f. None) (\<lambda>r s. True) (\<lambda>i. 5) ?d = Inr servers"
    using f by (simp add: server_list_def and_then_def Let_def)
  show ?thesis using server_list_exact[OF s] f s by (auto simp: Let_def)
qed

end
