(* ===== verification/Base_Client.thy ===== *)
theory Base_Client
  imports GoFloat Session_Spec
begin

text \<open>
  The running of the connections of a client (\<open>internal/clients/baseclient.go\<close>): the retries with a growing
  and randomized delay, and the exit status of the client; and the result of a health check
  (\<open>healthclient.go\<close>). Durations are nanoseconds. What an attempt to connect does is an argument.
\<close>

subsection \<open>Delays\<close>

definition initial_retry_delay :: int where
  "initial_retry_delay = 2000000000"

definition max_retry_delay :: int where
  "max_retry_delay = 60000000000"

definition retry_jitter_factor :: float64 where
  "retry_jitter_factor = round64 (1 / 5)"

definition next_retry_delay :: "int \<Rightarrow> int" where
  "next_retry_delay current =
     (if current \<le> 0 then initial_retry_delay
      else
        let next = wrap64 (current * 2) in
        if max_retry_delay < next \<or> next < current then max_retry_delay else next)"

definition retry_jitter :: "int \<Rightarrow> int" where
  "retry_jitter base = f_to_int (f_mul (f_of_int base) retry_jitter_factor)"

text \<open>\<open>rnd\<close> is the random source, if there is one; \<open>Int63n n\<close> is taken to be its number modulo \<open>n\<close>.\<close>

definition jitter_retry_delay :: "int \<Rightarrow> nat option \<Rightarrow> int" where
  "jitter_retry_delay base rnd =
     (case rnd of
        None \<Rightarrow> base
      | Some r \<Rightarrow>
          if base \<le> 0 then base
          else
            let jitter = retry_jitter base in
            if jitter \<le> 0 then base
            else
              let min_delay = wrap64 (base - jitter); max_delay = wrap64 (base + jitter) in
              if max_delay < min_delay then base
              else min_delay + int r mod (max_delay - min_delay + 1))"

text \<open>Whether the sleep ended before the context did, which a delay of zero always does.\<close>

definition sleep_with_context :: "bool \<Rightarrow> int \<Rightarrow> bool" where
  "sleep_with_context timer_fires delay = (delay \<le> 0 \<or> timer_fires)"

subsection \<open>Connecting again\<close>

text \<open>
  The number \<open>i\<close> of an attempt gives the status of its handler, whether the context is done after it, the
  random number and whether the timer of the sleep fires before the context ends. The result is the
  status and the delays that were slept; without an end of the context there is none.
\<close>

record connection_attempt =
  at_status :: int
  at_context_done :: bool
  at_random :: nat
  at_timer :: bool

partial_function (option) start_connection :: "bool \<Rightarrow> (nat \<Rightarrow> connection_attempt) \<Rightarrow> nat \<Rightarrow> int \<Rightarrow> int list \<Rightarrow> (int \<times> int list) option" where
  "start_connection retry run i delay slept =
     (let a = run i in
      if \<not> retry \<or> at_context_done a then Some (at_status a, slept)
      else
        let d = jitter_retry_delay delay (Some (at_random a)) in
        if \<not> sleep_with_context (at_timer a) d then Some (at_status a, slept @ [d])
        else start_connection retry run (Suc i) (next_retry_delay delay) (slept @ [d]))"

text \<open>The status of the client: the greatest of the connections, each of which is compared when it ends.\<close>

definition run_connections :: "int list \<Rightarrow> int" where
  "run_connections statuses = fold (\<lambda>c s. if s < c then c else s) statuses 0"

subsection \<open>Health checks\<close>

definition health_start :: "int \<Rightarrow> bool \<Rightarrow> gostr \<Rightarrow> gostr \<times> int" where
  "health_start status serverless servers =
     (if status = 0 then
        (if serverless then (''WARNING: All seems fine but the check only run in serverless mode, please specify a remote server via --server hostname:port'', 1)
         else (''OK: All fine at '' @ servers @ '' :-)'', status))
      else if status = 2 then
        (if serverless then (''CRITICAL: DTail server not operating properly (using serverless connction)!'', 2)
         else (''CRITICAL: DTail server not operating properly at '' @ servers @ ''!'', status))
      else
        (if serverless then (''UNKNOWN: Received unknown status code '' @ itoa status @ '' (using serverless connection)'', status)
         else (''UNKNOWN: Received unknown status code '' @ itoa status @ '' from '' @ servers @ ''!'', status)))"

subsection \<open>The bounds of the delays\<close>

text \<open>What the floating-point product gives for the delays that can occur.\<close>

lemma round_half_even_near: "\<bar>x - of_int m\<bar> < 1 / 2 \<Longrightarrow> round_half_even x = m"
proof (cases "of_int m \<le> x")
  case True
  assume "\<bar>x - of_int m\<bar> < 1 / 2"
  then have f: "\<lfloor>x\<rfloor> = m" "x - of_int m < 1 / 2" using True by (auto simp: floor_eq_iff)
  then show ?thesis by (simp add: round_half_even_def Let_def)
next
  case False
  assume "\<bar>x - of_int m\<bar> < 1 / 2"
  then have f: "\<lfloor>x\<rfloor> = m - 1" "1 / 2 < x - of_int (m - 1)" using False by (auto simp: floor_eq_iff)
  then show ?thesis by (simp add: round_half_even_def Let_def)
qed

lemma round64_near:
  assumes "0 < q" and "log2_floor q = e" and "- 1022 \<le> e" and "\<bar>q - of_int m * 2 powi (e - 52)\<bar> < 2 powi (e - 52) / 2" and "0 < m"
    and "of_int m * (2 :: rat) powi (e - 52) < 2 ^ 1024"
  shows "round64 q = Fin (of_int m * 2 powi (e - 52))"
proof -
  define u where "u = (2 :: rat) powi (e - 52)"
  have u: "0 < u" by (simp add: u_def)
  have "q / u - of_int m = (q - of_int m * u) / u" using u by (simp add: field_simps)
  then have "\<bar>q / u - of_int m\<bar> < 1 / 2" using assms(4) u unfolding u_def[symmetric] by (simp add: abs_div divide_less_eq mult.commute)
  then have r: "round_half_even (q / u) = m" by (rule round_half_even_near)
  have s: "sgn q = 1" using assms(1) by simp
  have "of_int m * u \<noteq> 0" using u assms(5) by simp
  then show ?thesis
    using assms(1-3,6) r s unfolding round64_def u_def[symmetric] by (simp add: Let_def max_def u_def[symmetric])
qed

lemma jitter_factor_value: "retry_jitter_factor = Fin (7205759403792794 / 36028797018963968)"
proof -
  have f: "floorlog 2 (4::nat) = 3" by simp
  have "log2_floor (1 / 5) = - 3" using f by (simp add: log2_floor_def)
  then show ?thesis using round64_near[of "1/5" "-3" 7205759403792794] by (simp add: retry_jitter_factor_def power_int_def power_divide)
qed

lemma retry_jitter_eval:
  assumes "log2_floor (of_int B * (7205759403792794 / 36028797018963968)) = e" and "- 1022 \<le> e" and "0 < B" "B < 2 ^ 53"
    and "of_int J = (of_int m * 2 powi (e - 52) :: rat)" and "\<bar>of_int B * (7205759403792794 / 36028797018963968) - of_int J\<bar> < (2 powi (e - 52) / 2 :: rat)"
    and "0 < m" and "0 < J" and "J < 2 ^ 53"
  shows "retry_jitter B = J"
proof -
  have b: "f_of_int B = Fin (of_int B)" using assms(3,4) round64_int[of B] by (simp add: f_of_int_def)
  have p: "(0::rat) < of_int B * (7205759403792794 / 36028797018963968)" using assms(3) by simp
  have "(of_int J :: rat) < of_int (2 ^ 53)" using assms(9) by (simp only: of_int_less_iff)
  then have "(of_int J :: rat) < 2 ^ 1024" by (rule less_le_trans) simp
  then have r: "round64 (of_int B * (7205759403792794 / 36028797018963968)) = Fin (of_int J)"
    using round64_near[OF p assms(1,2) _ assms(7)] assms(5,6) by simp
  have "f_mul (f_of_int B) retry_jitter_factor = Fin (of_int J)"
    using r assms(3) by (simp add: b jitter_factor_value f_mul_def f_is_inf_def f_is_zero_def rval_def)
  then show ?thesis using f_to_int_int[of J] assms(8,9) by (simp add: retry_jitter_def)
qed

definition retry_delay :: "nat \<Rightarrow> int" where
  "retry_delay k = min max_retry_delay (2 ^ Suc k * 1000000000)"

definition retry_delays :: "int set" where
  "retry_delays = {2000000000, 4000000000, 8000000000, 16000000000, 32000000000, 60000000000}"

lemma retry_jitter_values:
  "retry_jitter 2000000000 = 400000000" "retry_jitter 4000000000 = 800000000" "retry_jitter 8000000000 = 1600000000"
  "retry_jitter 16000000000 = 3200000000" "retry_jitter 32000000000 = 6400000000" "retry_jitter 60000000000 = 12000000000"
  by (rule retry_jitter_eval[where e = 28 and m = "400000000 * 2 ^ 24"] retry_jitter_eval[where e = 29 and m = "400000000 * 2 ^ 24"]
      retry_jitter_eval[where e = 30 and m = "400000000 * 2 ^ 24"] retry_jitter_eval[where e = 31 and m = "400000000 * 2 ^ 24"]
      retry_jitter_eval[where e = 32 and m = "400000000 * 2 ^ 24"] retry_jitter_eval[where e = 33 and m = "12000000000 * 2 ^ 19"];
    simp add: log2_floor_def power_int_def power_divide; fail)+

lemma retry_jitter_fifth: "b \<in> retry_delays \<Longrightarrow> retry_jitter b = b div 5"
  using retry_jitter_values by (auto simp: retry_delays_def)

lemma retry_delay_in: "retry_delay k \<in> retry_delays"
proof (cases "k < 5")
  case True
  then have "k \<in> {0, 1, 2, 3, 4}" by auto
  then show ?thesis by (auto simp: retry_delay_def retry_delays_def max_retry_delay_def)
next
  case False
  then have "(2::int) ^ 6 \<le> 2 ^ Suc k" by (intro power_increasing) auto
  then show ?thesis by (simp add: retry_delay_def retry_delays_def max_retry_delay_def)
qed

lemma retry_delay_Suc: "next_retry_delay (retry_delay k) = retry_delay (Suc k)"
proof -
  have "retry_delay (Suc k) = min max_retry_delay (2 * retry_delay k)"
    by (simp add: retry_delay_def max_retry_delay_def)
  moreover have "next_retry_delay b = min max_retry_delay (2 * b)" if "b \<in> retry_delays" for b
    using that by (auto simp: retry_delays_def next_retry_delay_def max_retry_delay_def wrap64_def)
  ultimately show ?thesis using retry_delay_in by simp
qed

lemma jittered_bounds:
  assumes "b \<in> retry_delays"
  shows "b - b div 5 \<le> jitter_retry_delay b (Some r) \<and> jitter_retry_delay b (Some r) \<le> b + b div 5"
proof -
  have j: "retry_jitter b = b div 5" by (rule retry_jitter_fifth[OF assms])
  have w: "wrap64 (b - b div 5) = b - b div 5" "wrap64 (b + b div 5) = b + b div 5" "0 < b div 5" "0 < b"
    using assms by (auto simp: retry_delays_def wrap64_def)
  let ?n = "b + b div 5 - (b - b div 5) + 1"
  have n: "0 < ?n" using w(3) by simp
  have "jitter_retry_delay b (Some r) = b - b div 5 + int r mod ?n"
    using w j by (simp add: jitter_retry_delay_def Let_def)
  moreover have "0 \<le> int r mod ?n" "int r mod ?n < ?n" using n by (simp_all only: pos_mod_sign pos_mod_bound)
  ultimately show ?thesis by simp
qed

subsection \<open>When a client stops to connect again\<close>

text \<open>The attempts after which the context has ended, before or during the sleep.\<close>

definition attempt_ends :: "connection_attempt \<Rightarrow> bool" where
  "attempt_ends a \<longleftrightarrow> at_context_done a \<or> \<not> at_timer a"

definition within_jitter :: "nat \<Rightarrow> int \<Rightarrow> bool" where
  "within_jitter k d \<longleftrightarrow> retry_delay k - retry_delay k div 5 \<le> d \<and> d \<le> retry_delay k + retry_delay k div 5"

lemma attempt_step:
  defines "d k a \<equiv> jitter_retry_delay (retry_delay k) (Some (at_random a))"
  shows "start_connection True run k (retry_delay k) slept =
    (if at_context_done (run k) then Some (at_status (run k), slept)
     else if \<not> at_timer (run k) then Some (at_status (run k), slept @ [d k (run k)])
     else start_connection True run (Suc k) (retry_delay (Suc k)) (slept @ [d k (run k)])) \<and> within_jitter k (d k (run k))"
proof -
  have b: "within_jitter k (d k (run k))" using jittered_bounds[OF retry_delay_in] by (simp add: within_jitter_def d_def)
  moreover have "0 < retry_delay k - retry_delay k div 5" using retry_delay_in[of k] by (auto simp: retry_delays_def)
  ultimately have "\<not> d k (run k) \<le> 0" by (simp add: within_jitter_def)
  then show ?thesis using b by (subst start_connection.simps) (simp add: sleep_with_context_def retry_delay_Suc d_def Let_def)
qed

lemma start_connection_ends:
  assumes "start_connection retry run i delay slept = Some r"
  shows "retry \<longrightarrow> (\<exists>k\<ge>i. attempt_ends (run k))"
  using assms
proof (rule start_connection.raw_induct[rotated, where P = "\<lambda>retry run i delay slept r. retry \<longrightarrow> (\<exists>k\<ge>i. attempt_ends (run k))"], goal_cases)
  case (1 f retry run i delay slept r)
  show ?case
  proof (cases "\<not> retry \<or> attempt_ends (run i)")
    case True
    then show ?thesis by blast
  next
    case False
    then have "f retry run (Suc i) (next_retry_delay delay) (slept @ [jitter_retry_delay delay (Some (at_random (run i)))]) = Some r"
      using 1(2) by (simp add: Let_def attempt_ends_def sleep_with_context_def)
    from 1(1)[OF this] show ?thesis by (meson Suc_leD)
  qed
qed

lemma start_connection_least:
  assumes "i \<le> k" and "attempt_ends (run k)" and "\<forall>j. i \<le> j \<and> j < k \<longrightarrow> \<not> attempt_ends (run j)" and "length slept = i" and "\<forall>j<i. within_jitter j (slept ! j)"
  shows "\<exists>slept1. start_connection True run i (retry_delay i) slept = Some (at_status (run k), slept1) \<and>
    length slept1 = (if at_context_done (run k) then k else Suc k) \<and> (\<forall>j<length slept1. within_jitter j (slept1 ! j))"
  using assms
proof (induction "k - i" arbitrary: i slept)
  case 0
  then have "k = i" by simp
  then show ?case using 0 attempt_step[of run i slept] by (auto simp: attempt_ends_def nth_append less_Suc_eq)
next
  case (Suc n)
  let ?d = "jitter_retry_delay (retry_delay i) (Some (at_random (run i)))"
  have i: "i < k" using Suc.hyps(2) by simp
  then have "\<not> attempt_ends (run i)" using Suc.prems(3) by simp
  then have s: "start_connection True run i (retry_delay i) slept = start_connection True run (Suc i) (retry_delay (Suc i)) (slept @ [?d])" "within_jitter i ?d"
    using attempt_step[of run i slept] by (simp_all add: attempt_ends_def)
  have l: "\<forall>j<Suc i. within_jitter j ((slept @ [?d]) ! j)" using Suc.prems(4,5) s(2) by (auto simp: nth_append less_Suc_eq)
  have "\<exists>slept1. start_connection True run (Suc i) (retry_delay (Suc i)) (slept @ [?d]) = Some (at_status (run k), slept1) \<and>
    length slept1 = (if at_context_done (run k) then k else Suc k) \<and> (\<forall>j<length slept1. within_jitter j (slept1 ! j))"
    using Suc.hyps Suc.prems i l by (intro Suc.hyps(1)) auto
  then show ?case using s(1) by simp
qed

text \<open>
  C34: A client that retries connects again until its context ends, and no longer: it returns the status
  of the first attempt during or after which the context ended, and if there is none then it never
  returns. The delay before the attempt number k + 1 is within a fifth of 2, 4, 8, 16, 32 and from then on
  60 seconds.
\<close>

theorem retries_until_cancelled:
  "(\<forall>k. \<not> attempt_ends (run k)) \<and> start_connection True run 0 initial_retry_delay [] = None \<or>
   (\<exists>k slept. attempt_ends (run k) \<and> (\<forall>j. j < k \<longrightarrow> \<not> attempt_ends (run j)) \<and>
     start_connection True run 0 initial_retry_delay [] = Some (at_status (run k), slept) \<and>
     length slept = (if at_context_done (run k) then k else Suc k) \<and>
     list_all2 (\<lambda>j d. min 60000000000 (2 ^ Suc j * 1000000000) * 4 \<le> 5 * d \<and> 5 * d \<le> min 60000000000 (2 ^ Suc j * 1000000000) * 6) [0..<length slept] slept)"
proof (cases "\<exists>k. attempt_ends (run k)")
  case True
  define k where "k = (LEAST k. attempt_ends (run k))"
  have k: "attempt_ends (run k)" "\<forall>j. j < k \<longrightarrow> \<not> attempt_ends (run j)"
    using LeastI_ex[OF True] not_less_Least by (auto simp: k_def)
  have d0: "initial_retry_delay = retry_delay 0" by (simp add: initial_retry_delay_def retry_delay_def max_retry_delay_def)
  obtain slept where s: "start_connection True run 0 (retry_delay 0) [] = Some (at_status (run k), slept)"
    "length slept = (if at_context_done (run k) then k else Suc k)" "\<forall>j<length slept. within_jitter j (slept ! j)"
    using start_connection_least[of 0 k run "[]"] k by auto
  have "retry_delay j * 4 \<le> 5 * d \<and> 5 * d \<le> retry_delay j * 6" if "within_jitter j d" for j d
    using that retry_delay_in[of j] by (auto simp: within_jitter_def retry_delays_def)
  then have "list_all2 (\<lambda>j d. retry_delay j * 4 \<le> 5 * d \<and> 5 * d \<le> retry_delay j * 6) [0..<length slept] slept"
    using s(3) by (simp add: list_all2_conv_all_nth)
  then show ?thesis using k s(1,2) unfolding d0 by (auto simp: retry_delay_def max_retry_delay_def)
next
  case False
  then have "start_connection True run 0 initial_retry_delay [] \<noteq> Some r" for r
    using start_connection_ends[of True run 0 initial_retry_delay "[]" r] by blast
  then have "start_connection True run 0 initial_retry_delay [] = None" by (cases "start_connection True run 0 initial_retry_delay []") auto
  then show ?thesis using False by blast
qed

definition sample_attempts :: "nat \<Rightarrow> connection_attempt" where
  "sample_attempts k = \<lparr>at_status = int k, at_context_done = (k = 1), at_random = 12345, at_timer = True\<rparr>"

lemma retries_until_cancelled_witness:
  "\<exists>d. start_connection True sample_attempts 0 initial_retry_delay [] = Some (1, [d]) \<and> 1600000000 \<le> d \<and> d \<le> 2400000000"
proof -
  have e: "attempt_ends (sample_attempts k) \<longleftrightarrow> k = 1" for k by (simp add: attempt_ends_def sample_attempts_def)
  obtain k slept where k: "attempt_ends (sample_attempts k)" "start_connection True sample_attempts 0 initial_retry_delay [] = Some (at_status (sample_attempts k), slept)"
    "length slept = (if at_context_done (sample_attempts k) then k else Suc k)"
    "list_all2 (\<lambda>j d. min 60000000000 (2 ^ Suc j * 1000000000) * 4 \<le> 5 * d \<and> 5 * d \<le> min 60000000000 (2 ^ Suc j * 1000000000) * 6) [0..<length slept] slept"
    using retries_until_cancelled[of sample_attempts] e by blast
  have k1: "k = 1" using k(1) e by simp
  then obtain d where d: "slept = [d]" using k(3) by (cases slept) (auto simp: sample_attempts_def)
  show ?thesis using k(2,4) d k1 by (auto simp: sample_attempts_def)
qed

text \<open>The status of the client does not depend on the order in which the connections end.\<close>

lemma run_connections_Max: "run_connections statuses = Max (set (0 # statuses))"
proof -
  have "(\<lambda>c s. if s < c then c else s) = (max :: int \<Rightarrow> int \<Rightarrow> int)" by (auto simp: fun_eq_iff max_def)
  then show ?thesis by (simp add: run_connections_def Max.set_eq_fold del: set_simps)
qed

end
