(* ===== verification/Server_Connection.thy ===== *)
theory Server_Connection
  imports Session_Transport
begin

text \<open>
  A connection to a server (\<open>internal/clients/connectors/serverconnection.go\<close>): its address, the registration of
  the key of the user, the start of its session, and the throttle that limits how many connections are
  established at a time. The network and the SSH library are arguments: they give the result of each call.
\<close>

subsection \<open>Making a connection\<close>

definition default_ssh_connect_timeout :: int where
  "default_ssh_connect_timeout = 2000000000"

definition default_ssh_port :: int where
  "default_ssh_port = 2222"

text \<open>The settings are the timeout and the port, if there are any.\<close>

definition connect_settings :: "(int \<times> int) option \<Rightarrow> int \<times> int" where
  "connect_settings settings =
     (case settings of
        None \<Rightarrow> (default_ssh_connect_timeout, default_ssh_port)
      | Some (timeout, port) \<Rightarrow>
          (if timeout \<le> 0 then default_ssh_connect_timeout else timeout, if port \<le> 0 then default_ssh_port else port))"

text \<open>The host and the port of a server; \<open>None\<close> is the panic of a port that is no number.\<close>

definition init_server_port :: "gostr \<Rightarrow> int \<Rightarrow> (gostr \<times> int) option" where
  "init_server_port server default_port =
     (let parts = split '':'' server in
      if length parts = 1 then Some (server, default_port)
      else case atoi (parts ! 1) of (port, None) \<Rightarrow> Some (hd parts, port) | (_, Some e) \<Rightarrow> None)"

text \<open>\<open>home\<close> is the variable of the environment, empty if it is not there.\<close>

definition resolve_auth_key_path :: "gostr \<Rightarrow> gostr \<Rightarrow> gostr" where
  "resolve_auth_key_path home path =
     (if trim_space path \<noteq> [] then path
      else if home = [] then []
      else join_path [home, ''.ssh'', ''id_rsa''])"

record server_connection =
  sv_server :: gostr
  sv_hostname :: gostr
  sv_port :: int
  sv_timeout :: int
  sv_commands :: "gostr list"
  sv_spec :: spec
  sv_interactive :: bool
  sv_auth_key_path :: gostr
  sv_auth_key_disabled :: bool

definition new_server_connection :: "gostr \<Rightarrow> gostr \<Rightarrow> gostr list \<Rightarrow> spec \<Rightarrow> bool \<Rightarrow> gostr \<Rightarrow> bool \<Rightarrow> (int \<times> int) option \<Rightarrow> server_connection option" where
  "new_server_connection home server commands s interactive path disabled settings =
     (case connect_settings settings of (timeout, port) \<Rightarrow>
        map_option (\<lambda>(host, port).
          \<lparr>sv_server = server, sv_hostname = host, sv_port = port, sv_timeout = timeout, sv_commands = commands, sv_spec = s,
            sv_interactive = interactive, sv_auth_key_path = resolve_auth_key_path home path, sv_auth_key_disabled = disabled\<rparr>)
          (init_server_port server port))"

subsection \<open>The key of the user\<close>

datatype key_file_error = NotAuthorizedKeyFormat | InvalidKeyBase64 | NoPublicKey

fun extract_key_lines :: "gostr list \<Rightarrow> key_file_error + gostr" where
  "extract_key_lines [] = Inl NoPublicKey"
| "extract_key_lines (l # ls) =
     (let line = trim_space l in
      if line = [] \<or> has_prefix line ''#'' then extract_key_lines ls
      else
        let fs = str_fields line in
        if length fs < 2 then Inl NotAuthorizedKeyFormat
        else
          let key = trim_space (fs ! 1) in
          (case b64_decode key of None \<Rightarrow> Inl InvalidKeyBase64 | Some bytes \<Rightarrow> Inr key))"

definition extract_auth_key_base64 :: "gostr \<Rightarrow> key_file_error + gostr" where
  "extract_auth_key_base64 content = extract_key_lines (split [CHR 0x0A] content)"

text \<open>Nothing is sent when the file cannot be read or has no key; the result of the send is only logged.\<close>

definition send_auth_key_registration_command :: "(gostr \<Rightarrow> gostr option) \<Rightarrow> send_outcome \<Rightarrow> gostr \<Rightarrow> 'a client_handler_scheme \<Rightarrow> 'a client_handler_scheme" where
  "send_auth_key_registration_command read outcome path h =
     (case read (path @ ''.pub'') of
        None \<Rightarrow> h
      | Some content \<Rightarrow>
          (case extract_auth_key_base64 content of
             Inl e \<Rightarrow> h
           | Inr key \<Rightarrow> fst (send_message outcome (''AUTHKEY '' @ key) h)))"

subsection \<open>The session of a connection\<close>

text \<open>The results of the calls, in the order in which they are made.\<close>

record dial_env =
  de_dial :: bool
  de_handshake :: bool
  de_new_session :: bool
  de_stdin :: bool
  de_stdout :: bool
  de_shell :: bool
  de_read_file :: "gostr \<Rightarrow> gostr option"
  de_auth_send :: send_outcome
  de_transport :: "client_handler transport_env"

datatype dial_error = DialFailed | HandshakeFailed | NewSessionFailed | StdinFailed | StdoutFailed | ShellFailed | InitialCommandsFailed transport_error

text \<open>
  The error, the handler, the committed session and whether the slot of the throttle was given back when
  the session was up. Without an error the call waits for the end of its context.
\<close>

definition handle_ssh_session :: "(spec \<Rightarrow> gostr option) \<Rightarrow> dial_env \<Rightarrow> server_connection \<Rightarrow> client_handler \<times> committed_session \<Rightarrow>
    dial_error option \<times> client_handler \<times> committed_session \<times> bool" where
  "handle_ssh_session json de sv hc =
     (case hc of (h, c) \<Rightarrow>
        if \<not> de_stdin de then (Some StdinFailed, h, c, False)
        else if \<not> de_stdout de then (Some StdoutFailed, h, c, False)
        else if \<not> de_shell de then (Some ShellFailed, h, c, False)
        else
          let h1 = (if sv_auth_key_disabled sv then h
                    else send_auth_key_registration_command (de_read_file de) (de_auth_send de) (sv_auth_key_path sv) h) in
          case dispatch_initial_commands json (de_transport de) (sv_server sv) (sv_commands sv) (sv_interactive sv) (sv_spec sv) (h1, c) of
            (Some e, h2, c1) \<Rightarrow> (Some (InitialCommandsFailed e), client_shutdown h2, c1, False)
          | (None, h2, c1) \<Rightarrow> (None, client_shutdown h2, c1, True))"

definition dial_server :: "(spec \<Rightarrow> gostr option) \<Rightarrow> dial_env \<Rightarrow> server_connection \<Rightarrow> client_handler \<times> committed_session \<Rightarrow>
    dial_error option \<times> client_handler \<times> committed_session \<times> bool" where
  "dial_server json de sv hc =
     (if \<not> de_dial de then (Some DialFailed, fst hc, snd hc, False)
      else if \<not> de_handshake de then (Some HandshakeFailed, fst hc, snd hc, False)
      else if \<not> de_new_session de then (Some NewSessionFailed, fst hc, snd hc, False)
      else handle_ssh_session json de sv hc)"

subsection \<open>The throttle\<close>

text \<open>
  The goroutines of the connections between the channels of the throttle (\<open>th_slots\<close> of \<open>th_cap\<close> places are
  taken) and of the statistics. \<open>Leaving\<close> tells whether the slot was given back before the dial returned.
\<close>

datatype link_phase = Queued | SlotTaken | Dialing | SessionUp | Leaving bool | Gone

record throttle =
  th_cap :: nat
  th_slots :: nat
  th_servers :: nat
  th_stats :: nat
  th_links :: "link_phase list"

definition new_throttle :: "nat \<Rightarrow> nat \<Rightarrow> throttle" where
  "new_throttle cap servers = \<lparr>th_cap = cap, th_slots = 0, th_servers = servers, th_stats = 0, th_links = replicate servers Queued\<rparr>"

definition set_link :: "nat \<Rightarrow> link_phase \<Rightarrow> throttle \<Rightarrow> throttle" where
  "set_link i p t = t\<lparr>th_links := (th_links t)[i := p]\<rparr>"

text \<open>The steps: sends wait for a free place in their channel, receives for a taken one.\<close>

inductive throttle_step :: "throttle \<Rightarrow> throttle \<Rightarrow> bool" where
  take_slot: "\<lbrakk>i < length (th_links t); th_links t ! i = Queued; th_slots t < th_cap t\<rbrakk> \<Longrightarrow>
    throttle_step t ((set_link i SlotTaken t)\<lparr>th_slots := th_slots t + 1\<rparr>)"
| give_up: "\<lbrakk>i < length (th_links t); th_links t ! i = Queued\<rbrakk> \<Longrightarrow> throttle_step t (set_link i Gone t)"
| count_up: "\<lbrakk>i < length (th_links t); th_links t ! i = SlotTaken; th_stats t < th_servers t\<rbrakk> \<Longrightarrow>
    throttle_step t ((set_link i Dialing t)\<lparr>th_stats := th_stats t + 1\<rparr>)"
| session_up: "\<lbrakk>i < length (th_links t); th_links t ! i = Dialing; 0 < th_slots t\<rbrakk> \<Longrightarrow>
    throttle_step t ((set_link i SessionUp t)\<lparr>th_slots := th_slots t - 1\<rparr>)"
| dial_failed: "\<lbrakk>i < length (th_links t); th_links t ! i = Dialing; 0 < th_stats t\<rbrakk> \<Longrightarrow>
    throttle_step t ((set_link i (Leaving False) t)\<lparr>th_stats := th_stats t - 1\<rparr>)"
| session_over: "\<lbrakk>i < length (th_links t); th_links t ! i = SessionUp; 0 < th_stats t\<rbrakk> \<Longrightarrow>
    throttle_step t ((set_link i (Leaving True) t)\<lparr>th_stats := th_stats t - 1\<rparr>)"
| cleanup_slot: "\<lbrakk>i < length (th_links t); th_links t ! i = Leaving False; 0 < th_slots t\<rbrakk> \<Longrightarrow>
    throttle_step t ((set_link i Gone t)\<lparr>th_slots := th_slots t - 1\<rparr>)"
| cleanup_done: "\<lbrakk>i < length (th_links t); th_links t ! i = Leaving True\<rbrakk> \<Longrightarrow> throttle_step t (set_link i Gone t)"
| connect_again: "throttle_step t (t\<lparr>th_links := th_links t @ [Queued]\<rparr>)"

inductive_cases throttle_stepE: "throttle_step t t1"

text \<open>Who holds a slot, and who is counted.\<close>

definition holds_slot :: "link_phase \<Rightarrow> bool" where
  "holds_slot p \<longleftrightarrow> p = SlotTaken \<or> p = Dialing \<or> p = Leaving False"

definition is_counted :: "link_phase \<Rightarrow> bool" where
  "is_counted p \<longleftrightarrow> p = Dialing \<or> p = SessionUp"

definition throttle_inv :: "throttle \<Rightarrow> bool" where
  "throttle_inv t \<longleftrightarrow>
     th_slots t = length (filter holds_slot (th_links t)) \<and> th_slots t \<le> th_cap t \<and>
     th_stats t = length (filter is_counted (th_links t)) \<and> th_stats t \<le> th_servers t"

lemma length_filter_update:
  assumes "i < length xs"
  shows "length (filter P (xs[i := y])) + (if P (xs ! i) then 1 else 0) = length (filter P xs) + (if P y then 1 else 0)"
  using assms
proof (induction xs arbitrary: i)
  case (Cons x xs)
  show ?case
  proof (cases i)
    case (Suc j)
    then show ?thesis using Cons.IH[of j] Cons.prems by (simp split: if_splits)
  qed simp
qed simp

lemma throttle_inv_new: "throttle_inv (new_throttle cap servers)"
  by (simp add: throttle_inv_def new_throttle_def holds_slot_def is_counted_def)

lemma throttle_inv_step:
  assumes "throttle_step t t1" and "throttle_inv t"
  shows "throttle_inv t1"
  using assms
proof (cases rule: throttle_step.cases)
  case connect_again
  then show ?thesis using assms(2) by (simp add: throttle_inv_def holds_slot_def is_counted_def)
next
  case (take_slot i)
  then show ?thesis
    using assms(2) length_filter_update[of i "th_links t" holds_slot SlotTaken] length_filter_update[of i "th_links t" is_counted SlotTaken]
    by (simp add: throttle_inv_def set_link_def holds_slot_def is_counted_def) linarith?
next
  case (give_up i)
  then show ?thesis
    using assms(2) length_filter_update[of i "th_links t" holds_slot Gone] length_filter_update[of i "th_links t" is_counted Gone]
    by (simp add: throttle_inv_def set_link_def holds_slot_def is_counted_def) linarith?
next
  case (count_up i)
  then show ?thesis
    using assms(2) length_filter_update[of i "th_links t" holds_slot Dialing] length_filter_update[of i "th_links t" is_counted Dialing]
    by (simp add: throttle_inv_def set_link_def holds_slot_def is_counted_def) linarith?
next
  case (session_up i)
  then show ?thesis
    using assms(2) length_filter_update[of i "th_links t" holds_slot SessionUp] length_filter_update[of i "th_links t" is_counted SessionUp]
    by (simp add: throttle_inv_def set_link_def holds_slot_def is_counted_def) linarith?
next
  case (dial_failed i)
  then show ?thesis
    using assms(2) length_filter_update[of i "th_links t" holds_slot "Leaving False"] length_filter_update[of i "th_links t" is_counted "Leaving False"]
    by (simp add: throttle_inv_def set_link_def holds_slot_def is_counted_def) linarith?
next
  case (session_over i)
  then show ?thesis
    using assms(2) length_filter_update[of i "th_links t" holds_slot "Leaving True"] length_filter_update[of i "th_links t" is_counted "Leaving True"]
    by (simp add: throttle_inv_def set_link_def holds_slot_def is_counted_def) linarith?
next
  case (cleanup_slot i)
  then show ?thesis
    using assms(2) length_filter_update[of i "th_links t" holds_slot Gone] length_filter_update[of i "th_links t" is_counted Gone]
    by (simp add: throttle_inv_def set_link_def holds_slot_def is_counted_def) linarith?
next
  case (cleanup_done i)
  then show ?thesis
    using assms(2) length_filter_update[of i "th_links t" holds_slot Gone] length_filter_update[of i "th_links t" is_counted Gone]
    by (simp add: throttle_inv_def set_link_def holds_slot_def is_counted_def) linarith?
qed

lemma throttle_step_limits: "throttle_step t t1 \<Longrightarrow> th_cap t1 = th_cap t \<and> th_servers t1 = th_servers t"
  by (erule throttle_stepE) (simp_all add: set_link_def)

text \<open>
  C35: However the connections of a client start, establish their sessions, fail, end and are made again,
  the taken places of the throttle are exactly the connections between the start and the end of their
  establishment, and never more than the limit; the statistics count exactly the connections that dial or
  have a session. Each connection gives its slot back once, so no receive from either channel ever waits.
\<close>

theorem throttle_exact:
  assumes "throttle_step\<^sup>*\<^sup>* (new_throttle cap servers) t"
  shows "th_slots t = length (filter holds_slot (th_links t)) \<and> th_slots t \<le> cap \<and>
    th_stats t = length (filter is_counted (th_links t)) \<and> th_stats t \<le> servers \<and>
    (\<forall>p\<in>set (th_links t). (holds_slot p \<longrightarrow> 0 < th_slots t) \<and> (is_counted p \<longrightarrow> 0 < th_stats t))"
proof -
  have "throttle_inv t \<and> th_cap t = cap \<and> th_servers t = servers" using assms
  proof (induction rule: rtranclp_induct)
    case base
    then show ?case using throttle_inv_new by (simp add: new_throttle_def)
  next
    case (step t t1)
    then show ?case using throttle_inv_step[OF step(2)] throttle_step_limits[OF step(2)] by simp
  qed
  moreover have "0 < length (filter P xs)" if "p \<in> set xs" "P p" for P and p :: link_phase and xs
    using that by (simp add: filter_empty_conv) blast
  ultimately show ?thesis by (simp add: throttle_inv_def)
qed

lemma throttle_exact_witness:
  "\<exists>t. throttle_step\<^sup>*\<^sup>* (new_throttle 1 2) t \<and> th_links t = [SlotTaken, Queued] \<and> th_slots t = 1 \<and> th_slots t = length (filter holds_slot (th_links t))"
proof -
  let ?t = "(set_link 0 SlotTaken (new_throttle 1 2))\<lparr>th_slots := th_slots (new_throttle 1 2) + 1\<rparr>"
  have "throttle_step (new_throttle 1 2) ?t" by (rule take_slot) (simp_all add: new_throttle_def)
  then have r: "throttle_step\<^sup>*\<^sup>* (new_throttle 1 2) ?t" by (rule r_into_rtranclp)
  have l: "th_links ?t = [SlotTaken, Queued]" "th_slots ?t = 1" by (simp_all add: set_link_def new_throttle_def numeral_2_eq_2)
  show ?thesis using throttle_exact[OF r, THEN conjunct1] r l by blast
qed

subsection \<open>Registering the key\<close>

lemma fields_go_solid: "\<forall>c\<in>set w. solid c \<Longrightarrow> fields_go cur (w @ s) = fields_go (cur @ w) s"
  by (induction w arbitrary: cur) (simp_all add: space_len_solid)

lemma fields_go_blank: "cur \<noteq> [] \<Longrightarrow> fields_go cur (CHR '' '' # s) = cur # fields_go [] s"
proof -
  assume "cur \<noteq> []"
  moreover have "space_len (CHR '' '' # s) = 1" by (cases "CHR '' '' # s" rule: space_len.cases) (simp_all add: ascii_space_def)
  ultimately show ?thesis by simp
qed

lemma b64_solid: "\<forall>c\<in>set (b64_encode s). solid c"
proof -
  have "list_all solid b64_alphabet" "solid (CHR ''='')" by code_simp+
  then show ?thesis using b64_encode_chars[of s] by (auto simp: list_all_iff)
qed

lemma b64_encode_nonempty: "s \<noteq> [] \<Longrightarrow> b64_encode s \<noteq> []"
  by (metis b64_decode_encode b64_encode.simps(1) option.inject)

text \<open>A file of public keys: lines without a key, then a line with the type, the key and a comment.\<close>

definition keyless_line :: "gostr \<Rightarrow> bool" where
  "keyless_line l \<longleftrightarrow> CHR 0x0A \<notin> set l \<and> (trim_space l = [] \<or> has_prefix (trim_space l) ''#'')"

definition solid_word :: "gostr \<Rightarrow> bool" where
  "solid_word w \<longleftrightarrow> w \<noteq> [] \<and> (\<forall>c\<in>set w. solid c)"

definition key_line :: "gostr \<Rightarrow> gostr \<Rightarrow> gostr \<Rightarrow> gostr" where
  "key_line ktype blob remark = ktype @ '' '' @ b64_encode blob @ '' '' @ remark"

lemma extract_key_line:
  assumes "solid_word ktype" "hd ktype \<noteq> CHR ''#''" "solid_word remark" "blob \<noteq> []"
  shows "extract_key_lines (key_line ktype blob remark # ls) = Inr (b64_encode blob)"
proof -
  let ?l = "key_line ktype blob remark" and ?b = "b64_encode blob"
  have w: "ktype \<noteq> []" "remark \<noteq> []" "?b \<noteq> []" using assms b64_encode_nonempty by (simp_all add: solid_word_def)
  have hl: "hd ?l = hd ktype" "last ?l = last remark" "?l \<noteq> []" using w by (simp_all add: key_line_def)
  have "solid (hd ?l)" "solid (last ?l)" using assms(1,3) hl by (simp_all add: solid_word_def)
  then have t: "trim_space ?l = ?l" by (rule trim_space_solid[OF hl(3)])
  have f: "str_fields ?l = [ktype, ?b, remark]"
    using fields_go_solid[of ktype "[]"] fields_go_solid[of ?b "[]"] fields_go_solid[of remark "[]" "[]"] fields_go_blank[OF w(1)] fields_go_blank[OF w(3)]
      assms(1,3) b64_solid[of blob] w by (simp add: str_fields_def key_line_def solid_word_def)
  have tb: "trim_space ?b = ?b" using b64_solid[of blob] w(3) by (intro trim_space_solid) auto
  have "\<not> has_prefix ?l ''#''" using assms(2) w by (cases ktype) (simp_all add: has_prefix_def key_line_def)
  then show ?thesis using t f tb hl(3) by (simp add: Let_def)
qed

lemma extract_key_file:
  assumes "list_all keyless_line ls" and "solid_word ktype" "hd ktype \<noteq> CHR ''#''" "solid_word remark" "blob \<noteq> []"
  shows "extract_auth_key_base64 (concat (map (\<lambda>l. l @ [CHR 0x0A]) ls) @ key_line ktype blob remark @ [CHR 0x0A] @ rest) = Inr (b64_encode blob)"
  using assms(1)
proof (induction ls)
  case Nil
  have "\<not> solid (CHR 0x0A)" by code_simp
  then have n: "CHR 0x0A \<notin> set (key_line ktype blob remark)"
    using assms(2,4) b64_solid[of blob] by (auto simp: key_line_def solid_word_def)
  have s: "split [CHR 0x0A] (key_line ktype blob remark @ [CHR 0x0A] @ rest) = key_line ktype blob remark # split [CHR 0x0A] rest"
    using n by (intro split_append) (simp_all add: simple_sep_def)
  show ?case using extract_key_line[OF assms(2-5)] unfolding extract_auth_key_base64_def list.map concat.simps append_Nil s by simp
next
  case (Cons l ls)
  let ?r = "concat (map (\<lambda>l. l @ [CHR 0x0A]) ls) @ key_line ktype blob remark @ [CHR 0x0A] @ rest"
  have s: "split [CHR 0x0A] (l @ [CHR 0x0A] @ ?r) = l # split [CHR 0x0A] ?r"
    using Cons.prems by (intro split_append) (simp_all add: simple_sep_def keyless_line_def)
  have k: "trim_space l = [] \<or> has_prefix (trim_space l) ''#''" using Cons.prems by (simp add: keyless_line_def)
  have "extract_auth_key_base64 (l @ [CHR 0x0A] @ ?r) = extract_auth_key_base64 ?r"
    unfolding extract_auth_key_base64_def s using k by (simp add: Let_def)
  then show ?case using Cons by simp
qed

text \<open>What the server does with the command.\<close>

lemma auth_key_command_run:
  assumes "he_auth_enabled env" and "he_parse_key env blob = Some k" and "blob \<noteq> []"
  shows "h_store (run_command env (''AUTHKEY '' @ b64_encode blob) h) = add_key (h_user h) (Some k) (he_now env) (h_store h) \<and>
    h_user (run_command env (''AUTHKEY '' @ b64_encode blob) h) = h_user h"
proof -
  let ?b = "b64_encode blob"
  have s: "split blank (''AUTHKEY '' @ ?b) = [''AUTHKEY'', ?b]"
  proof -
    have "split blank (''AUTHKEY'' @ blank @ ?b) = ''AUTHKEY'' # split blank ?b" by (rule split_append) (simp_all add: blank_def simple_sep_def)
    moreover have "split blank ?b = [?b]" using b64_no_blank[of blob] by (intro split_None) (simp add: blank_def)
    ultimately show ?thesis by (simp add: blank_def)
  qed
  have c: "split_n '':'' 2 ''AUTHKEY'' = [''AUTHKEY'']" by code_simp
  have r: "map_of command_registry ''AUTHKEY'' = Some AuthKeyCommand" by (simp add: command_registry_def)
  have sh: "\<not> should_shutdown_on_completion ''AUTHKEY''" by code_simp
  have t: "trim_space ?b \<noteq> []" using b64_solid[of blob] b64_encode_nonempty[OF assms(3)] trim_space_solid[of ?b] by auto
  show ?thesis
    unfolding run_command_def run_arguments_def s
    by (simp add: new_command_context_def dispatch_command_def apply_command_timeout_def c user_callback_def handle_user_command_def r
        handle_auth_key_command_def assms(1,2) t command_finished_def sh cancel_command_context_def sendln_def send_def Let_def)
qed

lemma added_key_found:
  assumes "user \<noteq> []" and "0 < max_keys_per_user s" and "now \<le> t" and "t < now + ttl s"
  shows "snd (has_key user (Some k) t (add_key user (Some k) now s))"
proof -
  obtain s1 es where p: "prune_expired user now s = (s1, es)" by fastforce
  note ps = prune_expired_spec[OF p]
  let ?e = "\<lparr>pub_key = k, registered_at = now\<rparr>"
  let ?new = "filter (\<lambda>e. pub_key e \<noteq> k) es @ [?e]"
  let ?new1 = "if max_keys_per_user s1 < int (length ?new) then drop (length ?new - nat (max_keys_per_user s1)) ?new else ?new"
  let ?s = "s1\<lparr>keys_by_user := AList.update user ?new1 (keys_by_user s1)\<rparr>"
  have a: "add_key user (Some k) now s = ?s" using p assms(1) by (simp add: add_key_def Let_def)
  have m: "?e \<in> set ?new1" using ps assms(2) by auto
  obtain s2 es2 where p2: "prune_expired user t ?s = (s2, es2)" by fastforce
  have "es2 = filter (alive (ttl s) t) ?new1" using prune_expired_spec[OF p2] ps by (simp del: filter_append)
  moreover have "alive (ttl s) t ?e" using assms(4) by simp
  ultimately have "?e \<in> set es2" using m by (simp del: filter_append)
  then have "list_ex (\<lambda>e. pub_key e = k) es2" unfolding list_ex_iff by (rule bexI[rotated]) simp
  moreover have "has_key user (Some k) t ?s = (s2, list_ex (\<lambda>e. pub_key e = k) es2)" using p2 assms(1) by (simp add: has_key_def del: filter_append)
  ultimately show ?thesis unfolding a by (simp only: snd_conv)
qed

text \<open>
  C36: The key of the user travels from its file into the store of the server. From a file of any comments
  and empty lines and one line with the type, the key and a remark the client sends one command with the
  key, and a server that has the feature enabled and can parse the key answers the command by storing it
  for the user of the connection, so that until the key expires the store grants it.
\<close>

theorem registered_key_logs_in:
  assumes "read (path @ ''.pub'') = Some (concat (map (\<lambda>l. l @ [CHR 0x0A]) ls) @ key_line ktype blob remark @ [CHR 0x0A] @ rest)"
    and "list_all keyless_line ls" and "solid_word ktype" "hd ktype \<noteq> CHR ''#''" "solid_word remark" "blob \<noteq> []"
    and "he_auth_enabled env" and "he_parse_key env blob = Some k" and "h_user h \<noteq> []" and "0 < max_keys_per_user (h_store h)"
    and "he_now env \<le> t" and "t < he_now env + ttl (h_store h)"
  shows "\<exists>command. send_auth_key_registration_command read Taken path c = c\<lparr>ch_commands := ch_commands c @ [command_frame command]\<rparr> \<and>
    snd (has_key (h_user h) (Some k) t (h_store (run_command env command h)))"
proof (intro exI[of _ "''AUTHKEY '' @ b64_encode blob"] conjI)
  show "send_auth_key_registration_command read Taken path c = c\<lparr>ch_commands := ch_commands c @ [command_frame (''AUTHKEY '' @ b64_encode blob)]\<rparr>"
    unfolding send_auth_key_registration_command_def assms(1) option.case extract_key_file[OF assms(2-6)] sum.case by (simp add: send_message_def)
  show "snd (has_key (h_user h) (Some k) t (h_store (run_command env (''AUTHKEY '' @ b64_encode blob) h)))"
    using auth_key_command_run[OF assms(7,8,6), of h] added_key_found[OF assms(9-12)] by simp
qed

lemma registered_key_logs_in_witness:
  "\<exists>command. send_auth_key_registration_command
      (\<lambda>f. Some (''# mine'' @ [CHR 0x0A] @ ''ssh-rsa '' @ b64_encode ''pay'' @ '' u@h'' @ [CHR 0x0A])) Taken ''/k'' (new_client_handler ''srv'') =
    (new_client_handler ''srv'')\<lparr>ch_commands := [command_frame command]\<rparr> \<and>
    snd (has_key ''u'' (Some ''pay'') 5 (h_store (run_command sample_env command (sample_handler 0))))"
proof -
  let ?read = "\<lambda>f::gostr. Some (''# mine'' @ [CHR 0x0A] @ ''ssh-rsa '' @ b64_encode ''pay'' @ '' u@h'' @ [CHR 0x0A])"
  have k: "keyless_line ''# mine''" by code_simp
  have w: "solid_word ''ssh-rsa''" "solid_word ''u@h''" by code_simp+
  have h: "h_user (sample_handler 0) = ''u''" "h_store (sample_handler 0) = new_auth_key_store 0 0"
    by (simp_all add: sample_handler_def new_server_handler_def send_def)
  have r: "?read (''/k'' @ ''.pub'') = Some (concat (map (\<lambda>l. l @ [CHR 0x0A]) [''# mine'']) @ key_line ''ssh-rsa'' ''pay'' ''u@h'' @ [CHR 0x0A] @ [])"
    by (simp add: key_line_def del: b64_encode.simps)
  have s: "he_auth_enabled sample_env" "he_parse_key sample_env ''pay'' = Some ''pay''" "he_now sample_env = 0" by (simp_all add: sample_env_def)
  have t: "0 < max_keys_per_user (new_auth_key_store 0 0)" "5 < ttl (new_auth_key_store 0 0)" by (simp_all add: new_auth_key_store_def default_auth_key_ttl_def)
  show ?thesis
    using registered_key_logs_in[OF r _ w(1) _ w(2), where env = sample_env and k = "''pay''" and h = "sample_handler 0" and t = 5 and c = "new_client_handler ''srv''"] k h s t
    by (simp add: new_client_handler_def del: b64_encode.simps)
qed

text \<open>An address of version 6 has its port looked up between its first two colons, so it ends the client.\<close>

lemma ipv6_address_panics: "init_server_port ''::1'' 2222 = None" "init_server_port ''[fe80::1]:2222'' 22 = None"
  by code_simp+

end
