(* ===== verification/Map_Report.thy ===== *)
theory Map_Report
  imports Map_Client Group_Result Control_Line
begin

text \<open>
  The client of a mapreduce query (\<open>internal/clients/maprclient.go\<close>): its session specification, the commit of
  a new query and the reports of the results. A report takes a snapshot of the session, renders the group set
  of the snapshot and prints it if the session still is in the generation of the snapshot; queries may be
  committed in between.
\<close>

subsection \<open>The client\<close>

datatype mapr_client_mode = DefaultMode | CumulativeMode | NonCumulativeMode

record mapr_client =
  mc_args :: client_args
  mc_mode :: mapr_client_mode
  mc_retry :: bool
  mc_session :: session_state

datatype mapr_client_error = NoQuerySpecified | CannotParseQuery query_error | MissingMapQuery

definition is_cumulative :: "mapr_client_mode \<Rightarrow> client_args \<Rightarrow> query option \<Rightarrow> bool" where
  "is_cumulative mode a q =
     (case mode of
        CumulativeMode \<Rightarrow> True
      | NonCumulativeMode \<Rightarrow> False
      | DefaultMode \<Rightarrow> ca_mode a = MapClient \<or> (case q of None \<Rightarrow> False | Some q \<Rightarrow> has_outfile q))"

definition set_regex_for_query :: "query option \<Rightarrow> client_args \<Rightarrow> client_args" where
  "set_regex_for_query q a = a\<lparr>ca_regex := mapr_regex_for_query q\<rparr>"

definition new_mapr_client :: "client_args \<Rightarrow> mapr_client_mode \<Rightarrow> mapr_client_error + mapr_client" where
  "new_mapr_client a mode =
     (if ca_query a = [] then Inl NoQuerySpecified
      else and_then (map_error CannotParseQuery (new_query (ca_query a))) (\<lambda>q.
        Inr \<lparr>mc_args = set_regex_for_query q a, mc_mode = mode,
              mc_retry = (ca_mode a = TailClient \<and> \<not> (case q of None \<Rightarrow> False | Some q \<Rightarrow> has_outfile q)),
              mc_session = new_session_state q\<rparr>))"

definition make_session_spec :: "mapr_client \<Rightarrow> spec" where
  "make_session_spec c =
     (let s = new_spec (mc_args c) in case ss_query (mc_session c) of None \<Rightarrow> s | Some q \<Rightarrow> s\<lparr>sp_query := raw_query q\<rparr>)"

definition make_commands :: "(gostr \<Rightarrow> 'r option) \<Rightarrow> mapr_client \<Rightarrow> spec_error + gostr list" where
  "make_commands compile c = spec_commands compile (make_session_spec c)"

definition commit_session_spec :: "spec \<Rightarrow> uint64 \<Rightarrow> mapr_client \<Rightarrow> mapr_client_error option \<times> mapr_client" where
  "commit_session_spec s generation c =
     (if sp_query s = [] then (Some MissingMapQuery, c)
      else case commit_query (mc_session c) (sp_query s) generation of
        (session, Inl e) \<Rightarrow> (Some (CannotParseQuery e), c\<lparr>mc_session := session\<rparr>)
      | (session, Inr q) \<Rightarrow>
          (None, c\<lparr>mc_session := session, mc_args := set_regex_for_query q ((mc_args c)\<lparr>ca_query := sp_query s\<rparr>)\<rparr>))"

text \<open>The delay before a report, in nanoseconds; the first one of a generation comes early.\<close>

definition report_delay :: "query option \<Rightarrow> bool \<Rightarrow> int" where
  "report_delay q ramp_up =
     (let i = (case q of None \<Rightarrow> second | Some q \<Rightarrow> if 0 < interval q then interval q else second) in
      if \<not> ramp_up then i else if i div 2 \<le> 0 then i else i div 2)"

subsection \<open>Reports\<close>

text \<open>
  A snapshot refers to the group set of the session until another query is committed; from then on that group
  set is the reporter's alone.
\<close>

datatype group_ref = SessionGroup | OldGroup "global_group_set option"

datatype report_phase =
    NoReport
  | Snapped uint64 "query option" group_ref
  | Rendered uint64 query gostr nat

datatype report_output = PrintedTable uint64 query gostr | RowsLimited nat int

record reporter =
  rp_client :: mapr_client
  rp_phase :: report_phase
  rp_output :: "report_output list"
  rp_files :: file_system

definition snapshot_group :: "group_ref \<Rightarrow> reporter \<Rightarrow> global_group_set option" where
  "snapshot_group r p = (case r of SessionGroup \<Rightarrow> ss_global (mc_session (rp_client p)) | OldGroup g \<Rightarrow> g)"

text \<open>Taking the sets out of a group set that is still the one of the session changes the session.\<close>

definition swap_snapshot :: "group_ref \<Rightarrow> reporter \<Rightarrow> reporter" where
  "swap_snapshot r p =
     (case r of
        OldGroup g \<Rightarrow> p
      | SessionGroup \<Rightarrow>
          p\<lparr>rp_client := (rp_client p)\<lparr>mc_session := (mc_session (rp_client p))\<lparr>ss_global :=
            map_option (\<lambda>g. fst (swap_out g)) (ss_global (mc_session (rp_client p)))\<rparr>\<rparr>\<rparr>)"

definition rows_limit_of :: "query \<Rightarrow> int" where
  "rows_limit_of q = (if limit q = - 1 then 10 else - 1)"

definition write_report :: "query \<Rightarrow> group_set \<Rightarrow> reporter \<Rightarrow> reporter" where
  "write_report q g p = p\<lparr>rp_files := fst (write_result q g (rp_files p)), rp_phase := NoReport\<rparr>"

text \<open>An error ends the report; it is only logged.\<close>

definition render_report :: "result_renderer \<Rightarrow> reporter \<Rightarrow> reporter" where
  "render_report renderer p =
     (case rp_phase p of
        Snapped generation (Some q) r \<Rightarrow>
          (case snapshot_group r p of
             None \<Rightarrow> p\<lparr>rp_phase := NoReport\<rparr>
           | Some g \<Rightarrow>
               let cumulative = is_cumulative (mc_mode (rp_client p)) (mc_args (rp_client p)) (Some q);
                   p1 = (if cumulative then p else swap_snapshot r p) in
               if has_outfile q then
                 write_report q (g_sets g) p1
               else
                 (case result_table q (rows_limit_of q) (Some renderer) (g_sets g) of
                    Inl e \<Rightarrow> p1\<lparr>rp_phase := NoReport\<rparr>
                  | Inr (text, rows) \<Rightarrow> p1\<lparr>rp_phase := Rendered generation q text rows\<rparr>))
      | Snapped generation None r \<Rightarrow> p\<lparr>rp_phase := NoReport\<rparr>
      | _ \<Rightarrow> p)"

definition print_report :: "reporter \<Rightarrow> reporter" where
  "print_report p =
     (case rp_phase p of
        Rendered generation q text rows \<Rightarrow>
          (case commit_rendered_result (mc_session (rp_client p)) generation text of
             (session, changed, ok) \<Rightarrow>
               let p1 = p\<lparr>rp_client := (rp_client p)\<lparr>mc_session := session\<rparr>, rp_phase := NoReport\<rparr> in
               if \<not> ok \<or> \<not> changed \<or> rows = 0 then p1
               else p1\<lparr>rp_output := rp_output p @
                      (if 0 < rows_limit_of q \<and> rows_limit_of q < int rows then [RowsLimited rows (rows_limit_of q)] else []) @
                      [PrintedTable generation q text]\<rparr>)
      | _ \<Rightarrow> p)"

text \<open>The events: messages of servers, new queries and the three parts of a report.\<close>

datatype report_event =
    ServerMessage client_aggregate gostr
  | NewQuery spec uint64
  | ReportStarts
  | ReportRendered
  | ReportPrinted

definition detach_snapshot :: "reporter \<Rightarrow> reporter" where
  "detach_snapshot p =
     (case rp_phase p of
        Snapped generation q SessionGroup \<Rightarrow> p\<lparr>rp_phase := Snapped generation q (OldGroup (ss_global (mc_session (rp_client p))))\<rparr>
      | _ \<Rightarrow> p)"

definition report_step :: "result_renderer \<Rightarrow> report_event \<Rightarrow> reporter \<Rightarrow> reporter" where
  "report_step renderer ev p =
     (case ev of
        ServerMessage a message \<Rightarrow>
          p\<lparr>rp_client := (rp_client p)\<lparr>mc_session := fst (client_aggregate_message (mc_session (rp_client p)) a message)\<rparr>\<rparr>
      | NewQuery s generation \<Rightarrow>
          (case commit_session_spec s generation (rp_client p) of
             (Some e, c) \<Rightarrow> p\<lparr>rp_client := c\<rparr>
           | (None, c) \<Rightarrow> (detach_snapshot p)\<lparr>rp_client := c\<rparr>)
      | ReportStarts \<Rightarrow>
          (if rp_phase p = NoReport
           then p\<lparr>rp_phase := Snapped (ss_generation (mc_session (rp_client p))) (ss_query (mc_session (rp_client p))) SessionGroup\<rparr>
           else p)
      | ReportRendered \<Rightarrow> render_report renderer p
      | ReportPrinted \<Rightarrow> print_report p)"

definition report_run :: "result_renderer \<Rightarrow> report_event list \<Rightarrow> reporter \<Rightarrow> reporter" where
  "report_run renderer evs p = fold (report_step renderer) evs p"

text \<open>The result of a client whose connections have ended: a cumulative one reports once more.\<close>

definition finish_client :: "result_renderer \<Rightarrow> reporter \<Rightarrow> reporter" where
  "finish_client renderer p =
     (if is_cumulative (mc_mode (rp_client p)) (mc_args (rp_client p)) (ss_query (mc_session (rp_client p)))
      then report_run renderer [ReportStarts, ReportRendered, ReportPrinted] p else p)"

subsection \<open>Which reports are printed\<close>

definition current_generation :: "reporter \<Rightarrow> uint64" where
  "current_generation p = ss_generation (mc_session (rp_client p))"

definition current_query :: "reporter \<Rightarrow> query option" where
  "current_query p = ss_query (mc_session (rp_client p))"

definition new_generations :: "report_event list \<Rightarrow> uint64 list" where
  "new_generations evs = concat (map (\<lambda>ev. case ev of NewQuery s g \<Rightarrow> [g] | _ \<Rightarrow> []) evs)"

text \<open>A snapshot of the current generation has its query and its group set; an older one has neither.\<close>

definition snapshot_ok :: "reporter \<Rightarrow> bool" where
  "snapshot_ok p =
     (case rp_phase p of
        NoReport \<Rightarrow> True
      | Snapped g q r \<Rightarrow>
          g \<le> current_generation p \<and>
          (if g = current_generation p then q = current_query p \<and> r = SessionGroup else r \<noteq> SessionGroup)
      | Rendered g q text rows \<Rightarrow>
          g \<le> current_generation p \<and> (g = current_generation p \<longrightarrow> current_query p = Some q))"

lemmas report_view = current_generation_def current_query_def

lemma message_keeps_query [simp]:
  "ss_generation (fst (client_aggregate_message s a m)) = ss_generation s"
  "ss_query (fst (client_aggregate_message s a m)) = ss_query s"
  by (auto simp: client_aggregate_message_def Let_def split: option.splits prod.splits)

lemma commit_rendered_keeps_query [simp]:
  "ss_generation (fst (commit_rendered_result s g r)) = ss_generation s"
  "ss_query (fst (commit_rendered_result s g r)) = ss_query s"
  by (auto simp: commit_rendered_result_def)

lemma swap_snapshot_keeps [simp]:
  "current_generation (swap_snapshot r p) = current_generation p"
  "current_query (swap_snapshot r p) = current_query p"
  "rp_phase (swap_snapshot r p) = rp_phase p" "rp_output (swap_snapshot r p) = rp_output p"
  by (auto simp: swap_snapshot_def report_view split: group_ref.splits)

lemma render_keeps [simp]:
  "current_generation (render_report renderer p) = current_generation p"
  "current_query (render_report renderer p) = current_query p"
  "rp_output (render_report renderer p) = rp_output p"
  by (auto simp: render_report_def write_report_def Let_def report_view swap_snapshot_def
      split: report_phase.splits option.splits sum.splits group_ref.splits)

lemma render_phase:
  "rp_phase (render_report renderer p) = NoReport \<or> rp_phase (render_report renderer p) = rp_phase p \<or>
   (\<exists>g q r text rows. rp_phase p = Snapped g (Some q) r \<and> rp_phase (render_report renderer p) = Rendered g q text rows)"
  by (auto simp: render_report_def write_report_def Let_def split: report_phase.splits option.splits sum.splits)

lemma render_ok: "snapshot_ok p \<Longrightarrow> snapshot_ok (render_report renderer p)"
  using render_phase[of renderer p] by (auto simp: snapshot_ok_def split: report_phase.splits if_splits)

lemma print_ok: "snapshot_ok p \<Longrightarrow> snapshot_ok (print_report p)"
  by (auto simp: snapshot_ok_def print_report_def Let_def report_view split: report_phase.splits prod.splits)

lemma message_ok:
  assumes "snapshot_ok p"
  shows "snapshot_ok (report_step renderer (ServerMessage a m) p)"
  using assms by (auto simp: snapshot_ok_def report_step_def report_view split: report_phase.splits if_splits)

lemma start_ok:
  assumes "snapshot_ok p"
  shows "snapshot_ok (report_step renderer ReportStarts p)"
  using assms by (auto simp: snapshot_ok_def report_step_def report_view split: report_phase.splits if_splits)

lemma commit_session_spec_cases:
  obtains e where "commit_session_spec s g c = (Some e, c)"
  | q c' where "commit_session_spec s g c = (None, c')" "ss_generation (mc_session c') = g" "ss_query (mc_session c') = q"
proof (cases "sp_query s = []")
  case True
  then show ?thesis using that(1) by (simp add: commit_session_spec_def)
next
  case False
  then show ?thesis
    using that by (cases "new_query (sp_query s)")
      (auto simp: commit_session_spec_def commit_query_def notify_change_def set_regex_for_query_def)
qed

lemma detach_phase:
  "rp_phase (detach_snapshot p) =
     (case rp_phase p of
        Snapped g q r \<Rightarrow>
          Snapped g q (case r of SessionGroup \<Rightarrow> OldGroup (ss_global (mc_session (rp_client p))) | OldGroup x \<Rightarrow> OldGroup x)
      | ph \<Rightarrow> ph)"
  by (auto simp: detach_snapshot_def split: report_phase.splits group_ref.splits)

lemma new_query_ok:
  assumes ok: "snapshot_ok p" and newer: "current_generation p < g"
  shows "snapshot_ok (report_step renderer (NewQuery s g) p)"
proof (cases rule: commit_session_spec_cases[of s g "rp_client p"])
  case (1 e)
  then show ?thesis using ok by (simp add: report_step_def)
next
  case (2 q c)
  then show ?thesis
    using ok newer
    by (auto simp: report_step_def snapshot_ok_def report_view detach_phase split: report_phase.splits if_splits group_ref.splits)
qed

lemma step_generation:
  "current_generation (report_step renderer ev p) =
     (case ev of NewQuery s g \<Rightarrow> if fst (commit_session_spec s g (rp_client p)) = None then g else current_generation p
      | _ \<Rightarrow> current_generation p)"
proof (cases ev)
  case (NewQuery s g)
  show ?thesis
  proof (cases rule: commit_session_spec_cases[of s g "rp_client p"])
    case (1 e)
    then show ?thesis using NewQuery by (simp add: report_step_def)
  next
    case (2 q c)
    then show ?thesis using NewQuery by (simp add: report_step_def report_view)
  qed
next
  case ReportPrinted
  then show ?thesis
    by (auto simp: report_step_def print_report_def Let_def report_view commit_rendered_result_def split: report_phase.splits prod.splits)
qed (simp_all add: report_step_def, simp_all add: report_view)

lemma print_commit:
  assumes "rp_phase p = Rendered g q text rows" "current_generation p = g" "last_result (mc_session (rp_client p)) \<noteq> text" "rows \<noteq> 0"
  shows "rp_output (print_report p) = rp_output p @
      (if 0 < rows_limit_of q \<and> rows_limit_of q < int rows then [RowsLimited rows (rows_limit_of q)] else []) @
      [PrintedTable g q text]"
  using assms by (simp add: print_report_def commit_rendered_result_def report_view Let_def)

lemma print_nothing:
  assumes "rp_phase p = Rendered g q text rows" "current_generation p \<noteq> g \<or> last_result (mc_session (rp_client p)) = text \<or> rows = 0"
  shows "rp_output (print_report p) = rp_output p"
  using assms by (auto simp: print_report_def commit_rendered_result_def report_view Let_def)

lemma run_ok:
  assumes "snapshot_ok p" "sorted_wrt (<) (current_generation p # new_generations evs)"
  shows "snapshot_ok (report_run renderer evs p)"
  using assms
proof (induction evs arbitrary: p)
  case Nil
  then show ?case by (simp add: report_run_def)
next
  case (Cons ev evs)
  let ?p = "report_step renderer ev p"
  have ok: "snapshot_ok ?p"
  proof (cases ev)
    case (NewQuery s g)
    then show ?thesis using new_query_ok Cons.prems by (simp add: new_generations_def)
  next
    case (ServerMessage a m) then show ?thesis using message_ok Cons.prems(1) by simp
  next
    case ReportStarts then show ?thesis using start_ok Cons.prems(1) by simp
  next
    case ReportRendered then show ?thesis using render_ok Cons.prems(1) by (simp add: report_step_def)
  next
    case ReportPrinted then show ?thesis using print_ok Cons.prems(1) by (simp add: report_step_def)
  qed
  have "sorted_wrt (<) (current_generation ?p # new_generations evs)"
    using Cons.prems(2) by (auto simp: step_generation new_generations_def split: report_event.splits)
  from Cons.IH[OF ok this] show ?case by (simp add: report_run_def)
qed

lemma step_output:
  "rp_output (report_step renderer ev p) =
     rp_output p @
     (case (ev, rp_phase p) of
        (ReportPrinted, Rendered g q shown rows) \<Rightarrow>
          (if g = current_generation p \<and> last_result (mc_session (rp_client p)) \<noteq> shown \<and> rows \<noteq> 0
           then (if 0 < rows_limit_of q \<and> rows_limit_of q < int rows then [RowsLimited rows (rows_limit_of q)] else []) @
                [PrintedTable g q shown]
           else [])
      | _ \<Rightarrow> [])"
proof (cases ev)
  case (NewQuery s g)
  then show ?thesis
    by (cases rule: commit_session_spec_cases[of s g "rp_client p"])
       (auto simp: report_step_def detach_snapshot_def split: report_phase.splits group_ref.splits)
next
  case ReportPrinted
  show ?thesis
  proof (cases "rp_phase p")
    case (Rendered g q shown rows)
    show ?thesis
    proof (cases "current_generation p \<noteq> g \<or> last_result (mc_session (rp_client p)) = shown \<or> rows = 0")
      case True
      from print_nothing[OF Rendered True] True Rendered ReportPrinted show ?thesis by (auto simp: report_step_def)
    next
      case False
      then have "current_generation p = g" "last_result (mc_session (rp_client p)) \<noteq> shown" "rows \<noteq> 0" by auto
      from print_commit[OF Rendered this] this Rendered ReportPrinted show ?thesis by (simp add: report_step_def)
    qed
  qed (simp_all add: ReportPrinted report_step_def print_report_def)
qed (simp_all add: report_step_def)

lemma stale_render_keeps_session:
  assumes "rp_phase p = Snapped g q r" "r \<noteq> SessionGroup"
  shows "mc_session (rp_client (report_step renderer ReportRendered p)) = mc_session (rp_client p)"
  using assms
  by (auto simp: report_step_def render_report_def write_report_def Let_def swap_snapshot_def split: option.splits sum.splits group_ref.splits)


definition sample_reporter :: reporter where
  "sample_reporter =
     \<lparr>rp_client = \<lparr>mc_args = sample_args, mc_mode = DefaultMode, mc_retry = True, mc_session = new_session_state None\<rparr>,
      rp_phase = NoReport, rp_output = [], rp_files = []\<rparr>"


end
