(* ===== verification/Client_Setup.thy ===== *)
theory Client_Setup
  imports Session_Spec Permissions Discovery
begin

text \<open>
  The start of a program: the configuration file, the environment and the arguments
  (\<open>internal/config/initializer.go\<close>), the clients of the modes (\<open>internal/clients/*client.go\<close>) and the keys that
  a client offers to a server (\<open>internal/ssh/client/authmethods.go\<close>).
\<close>

subsection \<open>Configuration\<close>

datatype source_process = ClientProcess | ServerProcess | HealthCheckProcess

definition source_string :: "source_process \<Rightarrow> gostr" where
  "source_string s = (case s of ClientProcess \<Rightarrow> ''CLIENT'' | ServerProcess \<Rightarrow> ''SERVER'' | HealthCheckProcess \<Rightarrow> ''HEALTHCHECK'')"

record setup_args = client_args +
  sa_config_file :: gostr
  sa_connections_per_cpu :: int
  sa_discovery :: gostr
  sa_log_dir :: gostr
  sa_logger :: gostr
  sa_log_level :: gostr
  sa_log_payload :: bool
  sa_no_auth_key :: bool
  sa_no_color :: bool
  sa_bind_address :: gostr
  sa_ssh_port :: int
  sa_key_path :: gostr
  sa_servers :: gostr
  sa_trust_all_hosts :: bool
  sa_user_name :: gostr
  sa_passwords :: "gostr list"
  sa_agent_key :: int
  sa_interactive :: bool

record common_config =
  cc_ssh_port :: int
  cc_ssh_connect_timeout :: int
  cc_experimental :: bool
  cc_log_dir :: gostr
  cc_logger :: gostr
  cc_log_level :: gostr
  cc_log_rotation :: gostr
  cc_cache_dir :: gostr

definition config_default_ssh_port :: int where
  "config_default_ssh_port = 2222"

definition default_log_level :: gostr where
  "default_log_level = ''info''"

definition default_connections_per_cpu :: int where
  "default_connections_per_cpu = 10"

definition new_default_common_config :: common_config where
  "new_default_common_config =
     \<lparr>cc_ssh_port = config_default_ssh_port, cc_ssh_connect_timeout = 2000, cc_experimental = False, cc_log_dir = ''log'',
      cc_logger = ''stdout'', cc_log_level = default_log_level, cc_log_rotation = ''daily'', cc_cache_dir = ''cache''\<rparr>"

text \<open>The colours of the client and the rest of the server configuration are not changed here.\<close>

record client_config =
  cl_colors_enable :: bool
  cl_key_path :: gostr
  cl_key_disable :: bool
  cl_log_payload :: bool

record server_limits =
  sl_bind_address :: gostr
  sl_max_line_length :: int

record initializer =
  in_common :: common_config
  in_server :: server_limits
  in_client :: client_config

text \<open>
  The environment of the process: its variables (a missing one is the empty string), its home directory, its
  arguments that are not flags, and the configuration files with the decoder of JSON.
\<close>

datatype config_file = NoSuchFile | StatFails | Unreadable | Contents gostr

record setup_env =
  se_getenv :: "gostr \<Rightarrow> gostr"
  se_home :: "gostr option"
  se_files :: "gostr \<Rightarrow> config_file"
  se_rest :: "gostr list"
  se_decode :: "gostr \<Rightarrow> initializer \<Rightarrow> initializer option"

datatype setup_error = StatError gostr | ReadError gostr | ParseError gostr

definition env_yes :: "setup_env \<Rightarrow> gostr \<Rightarrow> bool" where
  "env_yes e v = (se_getenv e v = ''yes'')"

definition config_hostname :: "setup_env \<Rightarrow> 'err + gostr \<Rightarrow> 'err + gostr" where
  "config_hostname e os =
     (if env_yes e ''DTAIL_INTEGRATION_TEST_RUN_MODE'' then Inr ''integrationtest''
      else if se_getenv e ''DTAIL_HOSTNAME_OVERRIDE'' \<noteq> [] then Inr (se_getenv e ''DTAIL_HOSTNAME_OVERRIDE'') else os)"

text \<open>Without a home directory the variable \<open>HOME\<close> is used.\<close>

definition default_auth_key_path :: "setup_env \<Rightarrow> gostr" where
  "default_auth_key_path e =
     (let home = (case se_home e of Some h \<Rightarrow> if h = [] then se_getenv e ''HOME'' else h | None \<Rightarrow> se_getenv e ''HOME'')
      in if home = [] then [] else clean (home @ ''/.ssh/id_rsa''))"

definition new_default_client_config :: "setup_env \<Rightarrow> client_config" where
  "new_default_client_config e =
     \<lparr>cl_colors_enable = True, cl_key_path = default_auth_key_path e, cl_key_disable = False, cl_log_payload = False\<rparr>"

definition parse_specific_config :: "setup_env \<Rightarrow> gostr \<Rightarrow> initializer \<Rightarrow> setup_error + initializer" where
  "parse_specific_config e path i =
     (case se_files e path of
        Contents c \<Rightarrow> (case se_decode e c i of None \<Rightarrow> Inl (ParseError path) | Some i' \<Rightarrow> Inr i')
      | _ \<Rightarrow> Inl (ReadError path))"

fun first_config :: "setup_env \<Rightarrow> gostr list \<Rightarrow> initializer \<Rightarrow> setup_error + initializer" where
  "first_config e [] i = Inr i"
| "first_config e (path # paths) i =
     (case se_files e path of
        NoSuchFile \<Rightarrow> first_config e paths i
      | StatFails \<Rightarrow> Inl (StatError path)
      | _ \<Rightarrow> parse_specific_config e path i)"

definition parse_config :: "setup_env \<Rightarrow> setup_args \<Rightarrow> initializer \<Rightarrow> setup_error + initializer" where
  "parse_config e a i =
     (if to_lower (sa_config_file a) = ''none'' then Inr i
      else if sa_config_file a \<noteq> [] then parse_specific_config e (sa_config_file a) i
      else (case se_home e of
          None \<Rightarrow> Inr i
        | Some h \<Rightarrow> if h = [] then Inr i else first_config e [h @ ''/.config/dtail/dtail.conf'', h @ ''/.dtail.conf''] i))"

definition resolve_ssh_key_path :: "gostr \<Rightarrow> gostr \<Rightarrow> gostr \<Rightarrow> gostr" where
  "resolve_ssh_key_path cli auth_env legacy_env = (if cli \<noteq> [] then cli else if auth_env \<noteq> [] then auth_env else legacy_env)"

definition process_env_vars :: "setup_env \<Rightarrow> setup_args \<times> initializer \<Rightarrow> setup_args \<times> initializer" where
  "process_env_vars e ai =
     (case ai of (a, i) \<Rightarrow>
        (a\<lparr>sa_key_path := resolve_ssh_key_path (sa_key_path a) (se_getenv e ''DTAIL_AUTH_KEY_PATH'') (se_getenv e ''DTAIL_SSH_PRIVATE_KEYFILE_PATH'')\<rparr>,
         if env_yes e ''DTAIL_INTEGRATION_TEST_RUN_MODE''
         then i\<lparr>in_server := (in_server i)\<lparr>sl_max_line_length := 1024\<rparr>\<rparr> else i))"

definition local_client :: "setup_args \<Rightarrow> bool" where
  "local_client a = (sa_discovery a = [] \<and> (sa_servers a = [] \<or> to_lower (sa_servers a) = ''serverless''))"

definition set_log_level :: "gostr \<Rightarrow> initializer \<Rightarrow> initializer" where
  "set_log_level l i = i\<lparr>in_common := (in_common i)\<lparr>cc_log_level := l\<rparr>\<rparr>"

definition transform_client :: "setup_args \<times> initializer \<Rightarrow> setup_args \<times> initializer" where
  "transform_client ai =
     (case ai of (a, i) \<Rightarrow>
        if local_client a
        then (a\<lparr>co_serverless := True\<rparr>, if sa_log_level a = default_log_level then set_log_level ''warn'' i else i)
        else (a, i))"

definition transform_server :: "setup_args \<times> initializer \<Rightarrow> setup_args \<times> initializer" where
  "transform_server ai =
     (case ai of (a, i) \<Rightarrow>
        (a, if sa_bind_address a \<noteq> [] then i\<lparr>in_server := (in_server i)\<lparr>sl_bind_address := sa_bind_address a\<rparr>\<rparr> else i))"

definition transform_health_check :: "setup_args \<times> initializer \<Rightarrow> setup_args \<times> initializer" where
  "transform_health_check ai =
     (case ai of (a, i) \<Rightarrow>
        (let a1 = a\<lparr>sa_trust_all_hosts := True\<rparr> in
         if local_client a then (a1\<lparr>co_serverless := True\<rparr>, set_log_level ''warn'' i) else (a1, i)))"

definition setup_plain_mode :: "setup_args \<times> initializer \<Rightarrow> setup_args \<times> initializer" where
  "setup_plain_mode ai =
     (case ai of (a, i) \<Rightarrow>
        let a1 = a\<lparr>co_quiet := True, sa_no_color := True\<rparr>;
            i1 = i\<lparr>in_client := (in_client i)\<lparr>cl_colors_enable := False\<rparr>\<rparr> in
        if sa_log_level a1 = [] then (a1\<lparr>sa_log_level := ''ERROR''\<rparr>, set_log_level ''ERROR'' i1) else (a1, i1))"

text \<open>The first argument with a \<open>select\<close> is the query, if there is none; the others are the files.\<close>

fun additional_args :: "gostr list \<Rightarrow> gostr \<Rightarrow> gostr \<times> gostr list" where
  "additional_args [] q = (q, [])"
| "additional_args (arg # args) q =
     (if q = [] \<and> contains (to_lower arg) ''select '' then additional_args args arg
      else (case additional_args args q of (q', files) \<Rightarrow> (q', arg # files)))"

definition setup_additional_args :: "gostr list \<Rightarrow> setup_args \<Rightarrow> setup_args" where
  "setup_additional_args rest a =
     (if ca_what a = [] then
        (case additional_args rest (ca_query a) of (q, files) \<Rightarrow> a\<lparr>ca_query := q, ca_what := join '','' files\<rparr>)
      else a)"

text \<open>A home directory that cannot be found ends the program.\<close>

definition setup_log_directory :: "setup_env \<Rightarrow> initializer \<Rightarrow> initializer option" where
  "setup_log_directory e i =
     (if contains (cc_log_dir (in_common i)) ''~/'' then
        (case se_home e of
           None \<Rightarrow> None
         | Some h \<Rightarrow> Some (i\<lparr>in_common := (in_common i)\<lparr>cc_log_dir := join (h @ ''/'') (split ''~/'' (cc_log_dir (in_common i)))\<rparr>\<rparr>))
      else Some i)"

definition copy_common_args :: "setup_args \<Rightarrow> common_config \<Rightarrow> common_config" where
  "copy_common_args a c =
     c\<lparr>cc_ssh_port := (if sa_ssh_port a \<noteq> config_default_ssh_port then sa_ssh_port a else cc_ssh_port c),
       cc_log_level := (if sa_log_level a \<noteq> default_log_level then sa_log_level a else cc_log_level c),
       cc_log_dir := (if sa_log_dir a \<noteq> [] then sa_log_dir a else cc_log_dir c),
       cc_logger := (if sa_logger a \<noteq> [] then sa_logger a else cc_logger c)\<rparr>"

text \<open>The key: the arguments and the configuration of the client end up with the same settings.\<close>

definition copy_key_args :: "setup_args \<times> client_config \<Rightarrow> setup_args \<times> client_config" where
  "copy_key_args ac =
     (case ac of (a, c) \<Rightarrow>
        let c = (if sa_no_auth_key a then c\<lparr>cl_key_disable := True\<rparr> else c);
            a = (if cl_key_disable c then a\<lparr>sa_no_auth_key := True\<rparr> else a);
            a = (if sa_key_path a = [] then a\<lparr>sa_key_path := cl_key_path c\<rparr> else a);
            c = (if sa_key_path a \<noteq> [] then c\<lparr>cl_key_path := sa_key_path a\<rparr> else c) in
        if \<not> cl_key_disable c \<and> cl_key_path c = []
        then (a\<lparr>sa_no_auth_key := True\<rparr>, c\<lparr>cl_key_disable := True\<rparr>) else (a, c))"

definition setup_config ::
  "setup_env \<Rightarrow> (setup_args \<times> initializer \<Rightarrow> setup_args \<times> initializer) \<Rightarrow> setup_args \<times> initializer \<Rightarrow> (setup_args \<times> initializer) option" where
  "setup_config e transform ai =
     (case ai of (a, i) \<Rightarrow>
        let c = in_client i;
            c = (if sa_no_color a then c\<lparr>cl_colors_enable := False\<rparr> else c) in
        case copy_key_args (a, c) of (a, c) \<Rightarrow>
        let c = (if sa_log_payload a then c\<lparr>cl_log_payload := True\<rparr> else c);
            i = i\<lparr>in_common := copy_common_args a (in_common i), in_client := c\<rparr>;
            a = (if sa_connections_per_cpu a = 0 then a\<lparr>sa_connections_per_cpu := default_connections_per_cpu\<rparr> else a) in
        case setup_log_directory e i of
          None \<Rightarrow> None
        | Some i \<Rightarrow>
            let ai = transform (a, i);
                ai = (if co_plain (fst ai) then setup_plain_mode ai else ai) in
            Some (setup_additional_args (se_rest e) (fst ai), snd ai))"

definition transform_config :: "setup_env \<Rightarrow> source_process \<Rightarrow> setup_args \<times> initializer \<Rightarrow> (setup_args \<times> initializer) option" where
  "transform_config e s ai =
     (let ai = process_env_vars e ai in
      case s of
        ServerProcess \<Rightarrow> setup_config e transform_server ai
      | ClientProcess \<Rightarrow> setup_config e transform_client ai
      | HealthCheckProcess \<Rightarrow> setup_config e transform_health_check ai)"

text \<open>\<open>Setup\<close> panics with an error of the configuration file or without a home directory.\<close>

definition config_setup :: "setup_env \<Rightarrow> source_process \<Rightarrow> setup_args \<Rightarrow> initializer \<Rightarrow> (setup_args \<times> initializer) option" where
  "config_setup e s a defaults =
     (case parse_config e a defaults of Inl x \<Rightarrow> None | Inr i \<Rightarrow> transform_config e s (a, i))"

subsection \<open>Keys\<close>

text \<open>
  What the agent and the key files answer: the signers of the agent (\<open>None\<close> for one that is missing) and the
  public key of a signer. The parser of a private key tells a missing passphrase from other errors.
\<close>

datatype 's parsed_key = ParsedKey 's | PassphraseMissing | ParseFails

record ('s, 'k) key_env =
  ke_dial :: bool
  ke_list :: bool
  ke_signers :: "'s option list option"
  ke_read :: "gostr \<Rightarrow> gostr option"
  ke_parse :: "gostr \<Rightarrow> 's parsed_key"
  ke_parse_with :: "gostr \<Rightarrow> gostr \<Rightarrow> 's option"
  ke_public :: "'s \<Rightarrow> 'k"

datatype agent_error = NoAgent | NoKeyList | NoSigners | KeyOutOfRange int nat

text \<open>The signers and whether the connection to the agent is left open for them.\<close>

definition agent_signers :: "('s, 'k) key_env \<Rightarrow> int \<Rightarrow> (agent_error + 's option list) \<times> bool" where
  "agent_signers e index =
     (if \<not> ke_dial e then (Inl NoAgent, False)
      else if \<not> ke_list e then (Inl NoKeyList, False)
      else (case ke_signers e of
          None \<Rightarrow> (Inl NoSigners, False)
        | Some signers \<Rightarrow>
            if index < 0 then (Inr signers, True)
            else if int (length signers) \<le> index then (Inl (KeyOutOfRange index (length signers)), False)
            else (Inr [signers ! nat index], True)))"

definition private_key_signer :: "setup_env \<Rightarrow> ('s, 'k) key_env \<Rightarrow> gostr \<Rightarrow> 's option" where
  "private_key_signer e ke path =
     (case ke_read ke path of
        None \<Rightarrow> None
      | Some content \<Rightarrow>
          (case ke_parse ke content of
             ParsedKey s \<Rightarrow> Some s
           | ParseFails \<Rightarrow> None
           | PassphraseMissing \<Rightarrow>
               let passphrase = se_getenv e ''DTAIL_KEY_PASSPHRASE'' in
               if passphrase = [] then None else ke_parse_with ke content passphrase))"

record ('s, 'k) collected =
  co_signers :: "'s list"
  co_paths :: "gostr set"
  co_keys :: "'k set"

definition add_signer :: "('s, 'k) key_env \<Rightarrow> 's option \<Rightarrow> ('s, 'k) collected \<Rightarrow> ('s, 'k) collected" where
  "add_signer ke signer c =
     (case signer of
        None \<Rightarrow> c
      | Some s \<Rightarrow>
          if ke_public ke s \<in> co_keys c then c
          else c\<lparr>co_keys := insert (ke_public ke s) (co_keys c), co_signers := co_signers c @ [s]\<rparr>)"

definition add_private_key_signer ::
  "setup_env \<Rightarrow> ('s, 'k) key_env \<Rightarrow> gostr \<Rightarrow> ('s, 'k) collected \<Rightarrow> ('s, 'k) collected" where
  "add_private_key_signer e ke path c =
     (if path = [] \<or> path \<in> co_paths c then c
      else (case private_key_signer e ke path of
          None \<Rightarrow> c
        | Some s \<Rightarrow> add_signer ke (Some s) (c\<lparr>co_paths := insert path (co_paths c)\<rparr>)))"

definition default_private_key_paths :: "setup_env \<Rightarrow> gostr list" where
  "default_private_key_paths e =
     (let home = se_getenv e ''HOME'' in
      (if env_yes e ''DTAIL_INTEGRATION_TEST_RUN_MODE'' then [''./id_rsa''] else []) @
      map (\<lambda>f. home @ ''/.ssh/'' @ f) [''id_rsa'', ''id_dsa'', ''id_ecdsa'', ''id_ed25519''])"

definition collect_known_hosts_signers :: "setup_env \<Rightarrow> ('s, 'k) key_env \<Rightarrow> gostr \<Rightarrow> int \<Rightarrow> 's list \<times> bool" where
  "collect_known_hosts_signers e ke path index =
     (let defaults = default_private_key_paths e;
          path = (if path = [] then defaults ! 0 else path);
          c = add_private_key_signer e ke path \<lparr>co_signers = [], co_paths = {}, co_keys = {}\<rparr>;
          agent = agent_signers ke index;
          c = fold (add_signer ke) (case fst agent of Inl x \<Rightarrow> [] | Inr signers \<Rightarrow> signers) c
      in (co_signers (fold (add_private_key_signer e ke) defaults c), snd agent))"

datatype 's auth_methods = Passwords "gostr list" | PublicKeys "'s list"

definition collect_known_hosts_auth_methods :: "setup_env \<Rightarrow> ('s, 'k) key_env \<Rightarrow> gostr \<Rightarrow> int \<Rightarrow> 's auth_methods option \<times> bool" where
  "collect_known_hosts_auth_methods e ke path index =
     (case collect_known_hosts_signers e ke path index of
        (signers, held) \<Rightarrow> (if signers = [] then None else Some (PublicKeys signers), held))"

text \<open>The check of the keys of hosts: with given methods every key is accepted.\<close>

datatype host_check = AcceptAll | KnownHostsFile gostr bool

text \<open>A missing callback or a lack of methods ends the program.\<close>

definition init_known_hosts_auth_methods ::
  "setup_env \<Rightarrow> ('s, 'k) key_env \<Rightarrow> (gostr \<Rightarrow> bool) \<Rightarrow> bool \<Rightarrow> gostr \<Rightarrow> int \<Rightarrow> ('s auth_methods \<times> host_check \<times> bool) option" where
  "init_known_hosts_auth_methods e ke usable trust_all path index =
     (let testing = env_yes e ''DTAIL_INTEGRATION_TEST_RUN_MODE'';
          hosts = (if testing then ''./known_hosts'' else se_getenv e ''HOME'' @ ''/.ssh/known_hosts'');
          path = (if testing \<and> path = [] then ''./id_rsa'' else path)
      in if \<not> usable hosts then None
         else (case collect_known_hosts_auth_methods e ke path index of
             (None, held) \<Rightarrow> None
           | (Some m, held) \<Rightarrow> Some (m, KnownHostsFile hosts trust_all, held)))"

definition init_ssh_auth_methods ::
  "setup_env \<Rightarrow> ('s, 'k) key_env \<Rightarrow> (gostr \<Rightarrow> bool) \<Rightarrow> gostr list \<Rightarrow> bool \<Rightarrow> gostr \<Rightarrow> int \<Rightarrow> ('s auth_methods \<times> host_check \<times> bool) option" where
  "init_ssh_auth_methods e ke usable passwords trust_all path index =
     (if passwords \<noteq> [] then Some (Passwords passwords, AcceptAll, False)
      else init_known_hosts_auth_methods e ke usable trust_all path index)"

subsection \<open>Clients\<close>

record client_connection =
  cn_server :: gostr
  cn_serverless :: bool
  cn_user :: gostr
  cn_commands :: "gostr list"
  cn_spec :: spec
  cn_interactive :: bool
  cn_key_path :: gostr
  cn_no_auth_key :: bool

record ('s, 'r) base_client =
  bc_args :: setup_args
  bc_throttle :: int
  bc_retry :: bool
  bc_regex :: "'r regex"
  bc_auth :: "('s auth_methods \<times> host_check \<times> bool) option"
  bc_spec :: spec
  bc_connections :: "client_connection list"

datatype new_client_error =
    RegexWithCat
  | NoRegexSpecified
  | InvalidRegex regex_error
  | NoAuthMethods
  | BadSpec spec_error
  | BadDiscovery discovery_error

text \<open>What the construction of a client asks its environment for.\<close>

record ('s, 'k, 'r) start_env =
  st_setup :: setup_env
  st_keys :: "('s, 'k) key_env"
  st_hosts_usable :: "gostr \<Rightarrow> bool"
  st_cpus :: int
  st_compile :: "gostr \<Rightarrow> 'r option"
  st_rmatch :: "'r \<Rightarrow> gostr \<Rightarrow> bool"
  st_exists :: "gostr \<Rightarrow> bool"
  st_read :: "gostr \<Rightarrow> gostr option"
  st_random :: "nat \<Rightarrow> nat"

definition client_spec :: "setup_args \<Rightarrow> spec" where
  "client_spec a = new_spec (client_args.truncate a)"

definition make_connection :: "setup_args \<Rightarrow> gostr list \<Rightarrow> gostr \<Rightarrow> client_connection" where
  "make_connection a commands server =
     \<lparr>cn_server = (if co_serverless a then ''local(serverless)'' else server), cn_serverless = co_serverless a, cn_user = sa_user_name a,
      cn_commands = commands, cn_spec = client_spec a, cn_interactive = sa_interactive a, cn_key_path = sa_key_path a,
      cn_no_auth_key = sa_no_auth_key a\<rparr>"

definition init_client ::
  "('s, 'k, 'r) start_env \<Rightarrow> setup_args \<Rightarrow> new_client_error + 'r regex \<times> ('s auth_methods \<times> host_check \<times> bool) option" where
  "init_client v a =
     and_then (map_error InvalidRegex (new_regex (st_compile v) (ca_regex a) (if ca_regex_invert a then Invert else Default))) (\<lambda>r.
       if co_serverless a then Inr (r, None)
       else (case init_ssh_auth_methods (st_setup v) (st_keys v) (st_hosts_usable v) (sa_passwords a) (sa_trust_all_hosts a)
               (sa_key_path a) (sa_agent_key a) of
           None \<Rightarrow> Inl NoAuthMethods
         | Some auth \<Rightarrow> Inr (r, Some auth)))"

definition make_connections :: "('s, 'k, 'r) start_env \<Rightarrow> setup_args \<Rightarrow> new_client_error + client_connection list" where
  "make_connections v a =
     and_then (map_error BadDiscovery (new_discovery (st_compile v) (sa_discovery a) (sa_servers a) shuffle_order)) (\<lambda>d.
     and_then (map_error BadDiscovery (server_list (st_exists v) (st_read v) (st_rmatch v) (st_random v) d)) (\<lambda>servers.
       if servers = [] then Inr []
       else and_then (map_error BadSpec (spec_commands (st_compile v) (client_spec a))) (\<lambda>commands.
         Inr (map (make_connection a commands) servers))))"

definition new_base_client :: "('s, 'k, 'r) start_env \<Rightarrow> bool \<Rightarrow> setup_args \<Rightarrow> new_client_error + ('s, 'r) base_client" where
  "new_base_client v retry a =
     and_then (init_client v a) (\<lambda>(r, auth).
     and_then (make_connections v a) (\<lambda>conns.
       Inr \<lparr>bc_args = a, bc_throttle = wrap64 (sa_connections_per_cpu a * st_cpus v), bc_retry = retry, bc_regex = r,
            bc_auth = auth, bc_spec = client_spec a, bc_connections = conns\<rparr>))"

definition new_cat_client :: "('s, 'k, 'r) start_env \<Rightarrow> setup_args \<Rightarrow> new_client_error + ('s, 'r) base_client" where
  "new_cat_client v a = (if ca_regex a \<noteq> [] then Inl RegexWithCat else new_base_client v False (a\<lparr>ca_mode := CatClient\<rparr>))"

definition new_grep_client :: "('s, 'k, 'r) start_env \<Rightarrow> setup_args \<Rightarrow> new_client_error + ('s, 'r) base_client" where
  "new_grep_client v a = (if ca_regex a = [] then Inl NoRegexSpecified else new_base_client v False (a\<lparr>ca_mode := GrepClient\<rparr>))"

definition new_tail_client :: "('s, 'k, 'r) start_env \<Rightarrow> setup_args \<Rightarrow> new_client_error + ('s, 'r) base_client" where
  "new_tail_client v a = new_base_client v True (a\<lparr>ca_mode := TailClient\<rparr>)"

definition new_health_client :: "('s, 'k, 'r) start_env \<Rightarrow> setup_args \<Rightarrow> new_client_error + ('s, 'r) base_client" where
  "new_health_client v a =
     new_base_client v False (a\<lparr>ca_mode := HealthClient, sa_user_name := ''DTAIL-HEALTH'',
       sa_passwords := sa_passwords a @ [''DTAIL-HEALTH'']\<rparr>)"

subsection \<open>The keys that are offered\<close>

text \<open>Every signer that can be had, in the order of preference.\<close>

definition candidates :: "setup_env \<Rightarrow> ('s, 'k) key_env \<Rightarrow> gostr \<Rightarrow> int \<Rightarrow> 's list" where
  "candidates e ke path index =
     List.map_filter id
       (private_key_signer e ke (if path = [] then default_private_key_paths e ! 0 else path) #
        (case fst (agent_signers ke index) of Inl x \<Rightarrow> [] | Inr signers \<Rightarrow> signers) @
        map (private_key_signer e ke) (default_private_key_paths e))"

definition first_of_keys :: "('s \<Rightarrow> 'k) \<Rightarrow> 's list \<Rightarrow> 's list" where
  "first_of_keys pub = foldl (\<lambda>acc s. if pub s \<in> pub ` set acc then acc else acc @ [s]) []"

lemma first_of_keys_snoc:
  "first_of_keys pub (xs @ [s]) = (if pub s \<in> pub ` set (first_of_keys pub xs) then first_of_keys pub xs else first_of_keys pub xs @ [s])"
  by (simp add: first_of_keys_def)

lemma first_of_keys_facts:
  "distinct (map pub (first_of_keys pub xs)) \<and> pub ` set (first_of_keys pub xs) = pub ` set xs \<and>
   set (first_of_keys pub xs) \<subseteq> set xs \<and> (xs \<noteq> [] \<longrightarrow> first_of_keys pub xs \<noteq> [] \<and> hd (first_of_keys pub xs) = hd xs)"
proof (induction xs rule: rev_induct)
  case Nil
  then show ?case by (simp add: first_of_keys_def)
next
  case (snoc s xs)
  then show ?case
    by (cases "xs = []") (auto simp: first_of_keys_snoc hd_append, simp_all add: first_of_keys_def)
qed

text \<open>What has been collected stands for the candidates that were seen.\<close>

definition collected_ok :: "setup_env \<Rightarrow> ('s, 'k) key_env \<Rightarrow> 's list \<Rightarrow> ('s, 'k) collected \<Rightarrow> bool" where
  "collected_ok e ke seen c =
     (co_signers c = first_of_keys (ke_public ke) seen \<and> co_keys c = ke_public ke ` set seen \<and>
      (\<forall>p\<in>co_paths c. \<exists>s. private_key_signer e ke p = Some s \<and> ke_public ke s \<in> co_keys c))"

lemma keys_of_first: "pub ` set (first_of_keys pub xs) = pub ` set xs"
  using first_of_keys_facts[of pub xs] by simp

lemma add_signer_ok:
  assumes "collected_ok e ke seen c"
  shows "collected_ok e ke (seen @ [s]) (add_signer ke (Some s) c)"
proof -
  have k: "co_keys c = ke_public ke ` set (co_signers c)" and f: "co_signers c = first_of_keys (ke_public ke) seen"
    and i: "co_keys c = ke_public ke ` set seen"
    and p: "\<And>p. p \<in> co_paths c \<Longrightarrow> \<exists>s. private_key_signer e ke p = Some s \<and> ke_public ke s \<in> co_keys c"
    using assms keys_of_first[of "ke_public ke" seen] unfolding collected_ok_def by metis+
  show ?thesis
  proof (cases "ke_public ke s \<in> co_keys c")
    case True
    then show ?thesis using f i k p by (simp add: collected_ok_def add_signer_def first_of_keys_snoc insert_absorb)
  next
    case False
    then have "first_of_keys (ke_public ke) (seen @ [s]) = co_signers c @ [s]" using f k by (simp add: first_of_keys_snoc)
    then show ?thesis using False i p by (fastforce simp: collected_ok_def add_signer_def)
  qed
qed

lemma add_signer_none [simp]: "add_signer ke None c = c"
  by (simp add: add_signer_def)

lemma map_filter_single: "List.map_filter id [x] = (case x of None \<Rightarrow> [] | Some s \<Rightarrow> [s])"
  by (cases x) (simp_all add: List.map_filter_simps)

lemma add_option_ok:
  assumes "collected_ok e ke seen c"
  shows "collected_ok e ke (seen @ List.map_filter id [x]) (add_signer ke x c)"
  using add_signer_ok[OF assms] assms by (cases x) (simp_all add: map_filter_single)

lemma add_options_ok:
  assumes "collected_ok e ke seen c"
  shows "collected_ok e ke (seen @ List.map_filter id xs) (fold (add_signer ke) xs c)"
  using assms
proof (induction xs arbitrary: seen c)
  case Nil
  then show ?case by (simp add: List.map_filter_simps)
next
  case (Cons x xs)
  from Cons.IH[OF add_option_ok[OF Cons.prems, of x]] show ?case
    by (cases x) (simp_all add: List.map_filter_simps)
qed

lemma add_path_ok:
  assumes ok: "collected_ok e ke seen c" and ne: "p \<noteq> []"
  shows "collected_ok e ke (seen @ List.map_filter id [private_key_signer e ke p]) (add_private_key_signer e ke p c)"
proof (cases "private_key_signer e ke p")
  case None
  then show ?thesis using ok by (simp add: add_private_key_signer_def List.map_filter_simps)
next
  case (Some s)
  show ?thesis
  proof (cases "p \<in> co_paths c")
    case True
    then have "ke_public ke s \<in> ke_public ke ` set seen" using ok Some by (force simp: collected_ok_def)
    then show ?thesis using ok True Some
      by (auto simp: add_private_key_signer_def collected_ok_def map_filter_single first_of_keys_snoc keys_of_first)
  next
    case False
    let ?c = "c\<lparr>co_paths := insert p (co_paths c)\<rparr>"
    have "collected_ok e ke (seen @ [s]) (add_signer ke (Some s) c)" by (rule add_signer_ok[OF ok])
    then show ?thesis using False Some ne
      by (auto simp: add_private_key_signer_def collected_ok_def map_filter_single add_signer_def split: if_splits)
  qed
qed

lemma add_paths_ok:
  assumes "collected_ok e ke seen c" and "[] \<notin> set ps"
  shows "collected_ok e ke (seen @ List.map_filter id (map (private_key_signer e ke) ps)) (fold (add_private_key_signer e ke) ps c)"
  using assms
proof (induction ps arbitrary: seen c)
  case Nil
  then show ?case by (simp add: List.map_filter_simps)
next
  case (Cons p ps)
  have "p \<noteq> []" "[] \<notin> set ps" using Cons.prems(2) by auto
  from Cons.IH[OF add_path_ok[OF Cons.prems(1) this(1)] this(2)] show ?case
    by (cases "private_key_signer e ke p") (simp_all add: List.map_filter_simps)
qed

lemma default_paths_nonempty: "[] \<notin> set (default_private_key_paths e)" "default_private_key_paths e \<noteq> []"
  by (auto simp: default_private_key_paths_def Let_def)

lemma collected_candidates:
  "fst (collect_known_hosts_signers e ke path index) = first_of_keys (ke_public ke) (candidates e ke path index)"
proof -
  let ?c0 = "\<lparr>co_signers = [], co_paths = {}, co_keys = {}\<rparr>"
  let ?path = "if path = [] then default_private_key_paths e ! 0 else path"
  have 0: "collected_ok e ke [] ?c0" by (simp add: collected_ok_def first_of_keys_def)
  have "default_private_key_paths e ! 0 \<in> set (default_private_key_paths e)"
    using default_paths_nonempty(2) by simp
  then have ne: "?path \<noteq> []" using default_paths_nonempty(1) by (metis (full_types))
  note 1 = add_path_ok[OF 0 ne]
  note 2 = add_options_ok[OF 1, of "case fst (agent_signers ke index) of Inl x \<Rightarrow> [] | Inr signers \<Rightarrow> signers"]
  note 3 = add_paths_ok[OF 2 default_paths_nonempty(1)[of e]]
  from 3 show ?thesis
    by (simp add: collected_ok_def collect_known_hosts_signers_def candidates_def Let_def List.map_filter_def)
qed

text \<open>
  C38: The keys that a client offers to a server are those that it can load - the chosen one, those of the agent
  and the default ones, in this order - each public key once, and the chosen key comes first. The connection to
  the agent is kept exactly when the agent gave signers, and there are no methods exactly when nothing can be loaded.
\<close>

theorem keys_offered_exact:
  "case collect_known_hosts_signers e ke path index of
     (signers, held) \<Rightarrow>
       distinct (map (ke_public ke) signers) \<and>
       ke_public ke ` set signers = ke_public ke ` set (candidates e ke path index) \<and>
       set signers \<subseteq> set (candidates e ke path index) \<and>
       take 1 signers = take 1 (candidates e ke path index) \<and>
       (held \<longleftrightarrow> (\<exists>loaded. fst (agent_signers ke index) = Inr loaded)) \<and>
       (fst (collect_known_hosts_auth_methods e ke path index) = None \<longleftrightarrow> candidates e ke path index = [])"
proof -
  obtain signers held where c: "collect_known_hosts_signers e ke path index = (signers, held)" by fastforce
  have s: "signers = first_of_keys (ke_public ke) (candidates e ke path index)"
    using collected_candidates[of e ke path index] c by simp
  have "held \<longleftrightarrow> (\<exists>loaded. fst (agent_signers ke index) = Inr loaded)"
    using c by (auto simp: collect_known_hosts_signers_def agent_signers_def Let_def split: option.splits if_splits)
  moreover have "fst (collect_known_hosts_auth_methods e ke path index) = None \<longleftrightarrow> candidates e ke path index = []"
    using first_of_keys_facts[of "ke_public ke" "candidates e ke path index"] s c
    by (auto simp: collect_known_hosts_auth_methods_def first_of_keys_def)
  moreover have "take 1 signers = take 1 (candidates e ke path index)"
  proof (cases "candidates e ke path index")
    case Nil
    then show ?thesis using s by (simp add: first_of_keys_def)
  next
    case (Cons x xs)
    then have "signers \<noteq> []" "hd signers = x"
      using first_of_keys_facts[of "ke_public ke" "candidates e ke path index"] s by simp_all
    then show ?thesis using Cons by (simp add: take_Suc)
  qed
  ultimately show ?thesis
    using first_of_keys_facts[of "ke_public ke" "candidates e ke path index"] c s by simp
qed

lemma duplicate_key_offered_once:
  "let ke = \<lparr>ke_dial = True, ke_list = True, ke_signers = Some [Some (1::int), Some 2],
             ke_read = (\<lambda>p. if p = ''/k'' then Some ''1'' else if p = ''h/.ssh/id_rsa'' then Some ''3'' else None),
             ke_parse = (\<lambda>c. ParsedKey (if c = ''1'' then 1 else 3)), ke_parse_with = (\<lambda>c p. None), ke_public = (\<lambda>s. s mod 2)\<rparr>;
       e = \<lparr>se_getenv = (\<lambda>v. if v = ''HOME'' then ''h'' else []), se_home = None, se_files = (\<lambda>_. NoSuchFile), se_rest = [],
            se_decode = (\<lambda>_ _. None)\<rparr>
   in collect_known_hosts_signers e ke ''/k'' (- 1) = ([1, 2], True)"
  by (simp add: collect_known_hosts_signers_def default_private_key_paths_def env_yes_def agent_signers_def
      add_private_key_signer_def private_key_signer_def add_signer_def Let_def)

subsection \<open>The settings after the start\<close>

lemma copy_key_args_agree:
  assumes "copy_key_args (a, c) = (a', c')"
  shows "cl_key_path c' = sa_key_path a' \<and> cl_key_disable c' = sa_no_auth_key a' \<and> (\<not> cl_key_disable c' \<longrightarrow> sa_key_path a' \<noteq> []) \<and>
    sa_key_path a' = (if sa_key_path a = [] then cl_key_path c else sa_key_path a) \<and>
    sa_no_auth_key a' = (sa_no_auth_key a \<or> cl_key_disable c \<or> sa_key_path a' = [])"
  using assms by (auto simp: copy_key_args_def Let_def split: if_splits)

lemma copy_key_args_rest:
  assumes "copy_key_args (a, c) = (a', c')"
  shows "cl_colors_enable c' = cl_colors_enable c" "cl_log_payload c' = cl_log_payload c"
    "a' = a\<lparr>sa_key_path := sa_key_path a', sa_no_auth_key := sa_no_auth_key a'\<rparr>"
  using assms by (auto simp: copy_key_args_def Let_def split: if_splits)

lemma copy_key_args_local:
  assumes "copy_key_args (a, c) = (a', c')"
  shows "local_client a' = local_client a" "co_plain a' = co_plain a" "sa_connections_per_cpu a' = sa_connections_per_cpu a"
    "sa_ssh_port a' = sa_ssh_port a"
  using assms by (auto simp: copy_key_args_def Let_def local_client_def split: if_splits)

definition key_settings :: "setup_args \<times> initializer \<Rightarrow> gostr \<times> bool \<times> int \<times> gostr \<times> bool" where
  "key_settings ai =
     (sa_key_path (fst ai), sa_no_auth_key (fst ai), sa_connections_per_cpu (fst ai),
      cl_key_path (in_client (snd ai)), cl_key_disable (in_client (snd ai)))"

definition transform_of :: "source_process \<Rightarrow> setup_args \<times> initializer \<Rightarrow> setup_args \<times> initializer" where
  "transform_of s = (case s of ServerProcess \<Rightarrow> transform_server | ClientProcess \<Rightarrow> transform_client | HealthCheckProcess \<Rightarrow> transform_health_check)"

lemma transform_keeps:
  "key_settings (transform_of s ai) = key_settings ai"
  "in_common (snd (transform_of s ai)) = (in_common (snd ai))\<lparr>cc_log_level := cc_log_level (in_common (snd (transform_of s ai)))\<rparr>"
  by (cases ai; auto simp: transform_of_def key_settings_def transform_server_def transform_client_def transform_health_check_def
      set_log_level_def Let_def split: source_process.splits)+

lemma transform_local:
  "co_plain (fst (transform_of s ai)) = co_plain (fst ai)"
  "s \<noteq> ServerProcess \<Longrightarrow> local_client (fst ai) \<Longrightarrow> co_serverless (fst (transform_of s ai))"
  "s = HealthCheckProcess \<Longrightarrow> sa_trust_all_hosts (fst (transform_of s ai))"
  by (cases ai; auto simp: transform_of_def transform_server_def transform_client_def transform_health_check_def
      Let_def split: source_process.splits)+

lemma plain_keeps:
  "key_settings (setup_plain_mode ai) = key_settings ai"
  "co_serverless (fst (setup_plain_mode ai)) = co_serverless (fst ai)" "co_plain (fst (setup_plain_mode ai)) = co_plain (fst ai)"
  "sa_trust_all_hosts (fst (setup_plain_mode ai)) = sa_trust_all_hosts (fst ai)"
  "co_quiet (fst (setup_plain_mode ai))" "sa_no_color (fst (setup_plain_mode ai))" "\<not> cl_colors_enable (in_client (snd (setup_plain_mode ai)))"
  "cc_ssh_port (in_common (snd (setup_plain_mode ai))) = cc_ssh_port (in_common (snd ai))"
  by (cases ai; simp add: setup_plain_mode_def key_settings_def set_log_level_def Let_def)+

lemma additional_args_keep:
  "sa_key_path (setup_additional_args r a) = sa_key_path a" "sa_no_auth_key (setup_additional_args r a) = sa_no_auth_key a"
  "sa_connections_per_cpu (setup_additional_args r a) = sa_connections_per_cpu a"
  "co_serverless (setup_additional_args r a) = co_serverless a" "co_plain (setup_additional_args r a) = co_plain a"
  "co_quiet (setup_additional_args r a) = co_quiet a" "sa_no_color (setup_additional_args r a) = sa_no_color a"
  "sa_trust_all_hosts (setup_additional_args r a) = sa_trust_all_hosts a"
  by (auto simp: setup_additional_args_def split: prod.splits)

lemma log_directory_keeps:
  assumes "setup_log_directory e i = Some i'"
  shows "in_client i' = in_client i" "in_server i' = in_server i" "cc_ssh_port (in_common i') = cc_ssh_port (in_common i)"
  using assms by (auto simp: setup_log_directory_def split: if_splits option.splits)

lemma setup_config_parts:
  assumes "setup_config e (transform_of s) (a, i) = Some (a', i')"
  obtains ak ck a1 i1 ai2 where
    "copy_key_args (a, if sa_no_color a then (in_client i)\<lparr>cl_colors_enable := False\<rparr> else in_client i) = (ak, ck)"
    "a1 = (if sa_connections_per_cpu ak = 0 then ak\<lparr>sa_connections_per_cpu := default_connections_per_cpu\<rparr> else ak)"
    "cl_key_path (in_client i1) = cl_key_path ck" "cl_key_disable (in_client i1) = cl_key_disable ck"
    "cc_ssh_port (in_common i1) = (if sa_ssh_port ak \<noteq> config_default_ssh_port then sa_ssh_port ak else cc_ssh_port (in_common i))"
    "ai2 = (if co_plain (fst (transform_of s (a1, i1))) then setup_plain_mode (transform_of s (a1, i1)) else transform_of s (a1, i1))"
    "a' = setup_additional_args (se_rest e) (fst ai2)" "i' = snd ai2"
proof -
  obtain ak ck where k: "copy_key_args (a, if sa_no_color a then (in_client i)\<lparr>cl_colors_enable := False\<rparr> else in_client i) = (ak, ck)"
    by fastforce
  let ?c = "if sa_log_payload ak then ck\<lparr>cl_log_payload := True\<rparr> else ck"
  let ?i = "i\<lparr>in_common := copy_common_args ak (in_common i), in_client := ?c\<rparr>"
  obtain i1 where d: "setup_log_directory e ?i = Some i1"
    using assms k by (auto simp: setup_config_def Let_def split: option.splits)
  show ?thesis
    using that[OF k refl _ _ _ refl, of i1] assms k d log_directory_keeps[OF d]
    by (auto simp: setup_config_def Let_def copy_common_args_def)
qed

text \<open>
  After the start the arguments and the configuration of the client agree on the key and on whether it is used;
  the path is the first one given of the argument, the two variables of the environment and the configuration, and the
  key is used only when there is one. The number of connections is not zero, a client without servers works in its own
  process, a health check trusts all hosts and plain output has no colours.
\<close>

theorem setup_consistent:
  assumes ok: "config_setup e s a defaults = Some (a', i')"
  shows "\<exists>i. parse_config e a defaults = Inr i \<and>
    sa_key_path a' =
      hd (filter (\<lambda>p. p \<noteq> []) [sa_key_path a, se_getenv e ''DTAIL_AUTH_KEY_PATH'', se_getenv e ''DTAIL_SSH_PRIVATE_KEYFILE_PATH'',
        cl_key_path (in_client i)] @ [[]]) \<and>
    cl_key_path (in_client i') = sa_key_path a' \<and>
    cl_key_disable (in_client i') = sa_no_auth_key a' \<and>
    sa_no_auth_key a' = (sa_no_auth_key a \<or> cl_key_disable (in_client i) \<or> sa_key_path a' = []) \<and>
    sa_connections_per_cpu a' \<noteq> 0 \<and>
    (s \<noteq> ServerProcess \<and> local_client a \<longrightarrow> co_serverless a') \<and>
    (s = HealthCheckProcess \<longrightarrow> sa_trust_all_hosts a') \<and>
    (co_plain a' \<longrightarrow> co_quiet a' \<and> sa_no_color a' \<and> \<not> cl_colors_enable (in_client i'))"
proof -
  obtain i where p: "parse_config e a defaults = Inr i" and t: "transform_config e s (a, i) = Some (a', i')"
    using ok by (auto simp: config_setup_def split: sum.splits)
  obtain a0 i0 where v: "process_env_vars e (a, i) = (a0, i0)" by fastforce
  have c: "setup_config e (transform_of s) (a0, i0) = Some (a', i')"
    using t v by (cases s) (simp_all add: transform_config_def transform_of_def Let_def)
  have a0: "a0 = a\<lparr>sa_key_path := resolve_ssh_key_path (sa_key_path a) (se_getenv e ''DTAIL_AUTH_KEY_PATH'') (se_getenv e ''DTAIL_SSH_PRIVATE_KEYFILE_PATH'')\<rparr>"
    and i0: "in_client i0 = in_client i" using v by (auto simp: process_env_vars_def)
  show ?thesis
  proof (rule setup_config_parts[OF c])
    fix ak ck a1 i1 ai2
    assume k: "copy_key_args (a0, if sa_no_color a0 then (in_client i0)\<lparr>cl_colors_enable := False\<rparr> else in_client i0) = (ak, ck)"
      and a1: "a1 = (if sa_connections_per_cpu ak = 0 then ak\<lparr>sa_connections_per_cpu := default_connections_per_cpu\<rparr> else ak)"
      and i1: "cl_key_path (in_client i1) = cl_key_path ck" "cl_key_disable (in_client i1) = cl_key_disable ck"
      and ai2: "ai2 = (if co_plain (fst (transform_of s (a1, i1))) then setup_plain_mode (transform_of s (a1, i1)) else transform_of s (a1, i1))"
      and a': "a' = setup_additional_args (se_rest e) (fst ai2)" and i': "i' = snd ai2"
    have "key_settings ai2 = key_settings (a1, i1)" using ai2 by (simp add: plain_keeps transform_keeps)
    then have s2: "sa_key_path a' = sa_key_path ak" "sa_no_auth_key a' = sa_no_auth_key ak" "sa_connections_per_cpu a' \<noteq> 0"
      "cl_key_path (in_client i') = cl_key_path ck" "cl_key_disable (in_client i') = cl_key_disable ck"
      using a1 i1 a' i' by (auto simp: key_settings_def additional_args_keep default_connections_per_cpu_def split: if_splits)
    have l: "local_client a1 = local_client a" "co_plain a1 = co_plain a"
      using a1 copy_key_args_local[OF k] a0 by (auto simp: local_client_def)
    have m: "co_plain a' = co_plain a1"
      using a' ai2 by (auto simp: additional_args_keep plain_keeps transform_local split: if_splits)
    have sl: "s \<noteq> ServerProcess \<and> local_client a \<longrightarrow> co_serverless a'"
      using a' ai2 l(1) transform_local(2)[of s "(a1, i1)"] by (auto simp: additional_args_keep plain_keeps)
    have th: "s = HealthCheckProcess \<longrightarrow> sa_trust_all_hosts a'"
      using a' ai2 transform_local(3)[of s "(a1, i1)"] by (auto simp: additional_args_keep plain_keeps)
    have pl: "co_plain a' \<longrightarrow> co_quiet a' \<and> sa_no_color a' \<and> \<not> cl_colors_enable (in_client i')"
      using a' i' ai2 m by (auto simp: additional_args_keep plain_keeps transform_local)
    note agree = copy_key_args_agree[OF k]
    have path: "sa_key_path a' = hd (filter (\<lambda>p. p \<noteq> []) [sa_key_path a, se_getenv e ''DTAIL_AUTH_KEY_PATH'',
        se_getenv e ''DTAIL_SSH_PRIVATE_KEYFILE_PATH'', cl_key_path (in_client i)] @ [[]])"
      using agree s2(1) a0 i0 by (simp add: resolve_ssh_key_path_def)
    have key: "cl_key_path (in_client i') = sa_key_path a'" "cl_key_disable (in_client i') = sa_no_auth_key a'"
      "sa_no_auth_key a' = (sa_no_auth_key a \<or> cl_key_disable (in_client i) \<or> sa_key_path a' = [])"
      using agree s2 a0 i0 by simp_all
    show ?thesis
      by (rule exI[of _ i]) (intro conjI p path key s2(3) sl th pl)
  qed
qed

text \<open>A port on the command line that is the default one does not replace the port of the configuration file.\<close>

lemma explicit_default_port_ignored:
  assumes "config_setup e s a d = Some (a', i')" and "parse_config e a d = Inr i" and "sa_ssh_port a = config_default_ssh_port"
  shows "cc_ssh_port (in_common i') = cc_ssh_port (in_common i)"
proof -
  have t: "transform_config e s (a, i) = Some (a', i')" using assms by (simp add: config_setup_def)
  obtain a0 i0 where v: "process_env_vars e (a, i) = (a0, i0)" by fastforce
  have c: "setup_config e (transform_of s) (a0, i0) = Some (a', i')"
    using t v by (cases s) (simp_all add: transform_config_def transform_of_def Let_def)
  have v': "sa_ssh_port a0 = config_default_ssh_port" "in_common i0 = in_common i"
    using v assms(3) by (auto simp: process_env_vars_def)
  have log: "cc_ssh_port (in_common (snd (transform_of s ai))) = cc_ssh_port (in_common (snd ai))" for ai
    by (subst transform_keeps(2)) simp
  show ?thesis
  proof (rule setup_config_parts[OF c])
    fix ak ck a1 i1 ai2
    assume k: "copy_key_args (a0, if sa_no_color a0 then (in_client i0)\<lparr>cl_colors_enable := False\<rparr> else in_client i0) = (ak, ck)"
      and i1: "cc_ssh_port (in_common i1) = (if sa_ssh_port ak \<noteq> config_default_ssh_port then sa_ssh_port ak else cc_ssh_port (in_common i0))"
      and ai2: "ai2 = (if co_plain (fst (transform_of s (a1, i1))) then setup_plain_mode (transform_of s (a1, i1)) else transform_of s (a1, i1))"
      and i': "i' = snd ai2"
    show ?thesis using i1 ai2 i' v' copy_key_args_local(4)[OF k] by (simp add: plain_keeps log)
  qed
qed

definition sample_setup_env :: setup_env where
  "sample_setup_env =
     \<lparr>se_getenv = (\<lambda>v. if v = ''DTAIL_SSH_PRIVATE_KEYFILE_PATH'' then ''old'' else []), se_home = Some ''/h'', se_files = (\<lambda>_. NoSuchFile),
      se_rest = [''x'', ''Select a from b'', ''y''], se_decode = (\<lambda>_ _. None)\<rparr>"

definition sample_setup_args :: setup_args where
  "sample_setup_args =
     \<lparr>co_quiet = False, co_plain = True, co_serverless = False, co_context = zero_context, ca_mode = UnknownMode, ca_what = [],
      ca_query = [], ca_regex = [], ca_regex_invert = False, ca_timeout = 0, sa_config_file = [], sa_connections_per_cpu = 0,
      sa_discovery = [], sa_log_dir = [], sa_logger = [], sa_log_level = default_log_level, sa_log_payload = False,
      sa_no_auth_key = False, sa_no_color = False, sa_bind_address = [], sa_ssh_port = config_default_ssh_port, sa_key_path = [],
      sa_servers = [], sa_trust_all_hosts = False, sa_user_name = ''u'', sa_passwords = [], sa_agent_key = - 1, sa_interactive = False\<rparr>"

definition sample_initializer :: initializer where
  "sample_initializer =
     \<lparr>in_common = new_default_common_config, in_server = \<lparr>sl_bind_address = ''0.0.0.0'', sl_max_line_length = 1048576\<rparr>,
      in_client = \<lparr>cl_colors_enable = True, cl_key_path = ''/h/.ssh/id_rsa'', cl_key_disable = False, cl_log_payload = False\<rparr>\<rparr>"

lemma setup_consistent_witness:
  "\<exists>a' i'. config_setup sample_setup_env ClientProcess sample_setup_args sample_initializer = Some (a', i') \<and>
     sa_key_path a' = ''old'' \<and> cl_key_path (in_client i') = ''old'' \<and> \<not> cl_colors_enable (in_client i') \<and>
     co_serverless a' \<and> ca_what a' = ''x,y''"
proof -
  have r: "config_setup sample_setup_env ClientProcess sample_setup_args sample_initializer \<noteq> None"
    "map_option (\<lambda>(a, i). ca_what a) (config_setup sample_setup_env ClientProcess sample_setup_args sample_initializer) = Some ''x,y''"
    "map_option (\<lambda>(a, i). co_plain a) (config_setup sample_setup_env ClientProcess sample_setup_args sample_initializer) = Some True"
    by code_simp+
  then obtain a' i' where s: "config_setup sample_setup_env ClientProcess sample_setup_args sample_initializer = Some (a', i')"
    by (auto split: option.splits)
  obtain i where p: "parse_config sample_setup_env sample_setup_args sample_initializer = Inr i"
    "sa_key_path a' = hd (filter (\<lambda>p. p \<noteq> []) [sa_key_path sample_setup_args, se_getenv sample_setup_env ''DTAIL_AUTH_KEY_PATH'',
        se_getenv sample_setup_env ''DTAIL_SSH_PRIVATE_KEYFILE_PATH'', cl_key_path (in_client i)] @ [[]])"
    "cl_key_path (in_client i') = sa_key_path a'"
    "ClientProcess \<noteq> ServerProcess \<and> local_client sample_setup_args \<longrightarrow> co_serverless a'"
    "co_plain a' \<longrightarrow> co_quiet a' \<and> sa_no_color a' \<and> \<not> cl_colors_enable (in_client i')"
    using setup_consistent[OF s] by (elim exE conjE) (rule that)
  have l: "local_client sample_setup_args" by (simp add: local_client_def sample_setup_args_def)
  have path: "sa_key_path a' = ''old''" using p(2) by (simp add: sample_setup_args_def sample_setup_env_def)
  have what: "ca_what a' = ''x,y''" and plain: "co_plain a'" using r(2,3) by (simp_all add: s)
  show ?thesis
    by (rule exI[of _ a'], rule exI[of _ i']) (use s path p(3-5) l what plain in simp)
qed

end
