(* ===== verification/Logging.thy ===== *)
theory Logging
  imports Client_Setup Colours
begin

text \<open>
  Logging (\<open>internal/io/dlog\<close>): the levels, the text of a message, the choice of a logger and its sinks, and the
  goroutine that writes a log file (\<open>loggers/file.go\<close>) with its queue, its buffer, pauses, flushes and rotation.
\<close>

subsection \<open>Levels\<close>

datatype level =
    NoneLevel | FatalLevel | ErrorLevel | WarnLevel | InfoLevel | DefaultLevel | VerboseLevel | DebugLevel | DevelLevel
  | TraceLevel | AllLevel

definition level_code :: "level \<Rightarrow> nat" where
  "level_code l =
     (case l of NoneLevel \<Rightarrow> 0 | FatalLevel \<Rightarrow> 1 | ErrorLevel \<Rightarrow> 2 | WarnLevel \<Rightarrow> 3 | InfoLevel \<Rightarrow> 4 | DefaultLevel \<Rightarrow> 5
      | VerboseLevel \<Rightarrow> 6 | DebugLevel \<Rightarrow> 7 | DevelLevel \<Rightarrow> 8 | TraceLevel \<Rightarrow> 9 | AllLevel \<Rightarrow> 10)"

lemma level_code_inj: "level_code l = level_code m \<Longrightarrow> l = m"
  by (cases l; cases m) (simp_all add: level_code_def)

instantiation level :: linorder
begin

definition less_eq_level :: "level \<Rightarrow> level \<Rightarrow> bool" where
  "less_eq_level l m = (level_code l \<le> level_code m)"

definition less_level :: "level \<Rightarrow> level \<Rightarrow> bool" where
  "less_level l m = (level_code l < level_code m)"

instance
  by standard (auto simp: less_eq_level_def less_level_def intro: level_code_inj)

end

definition level_names :: "(gostr \<times> level) list" where
  "level_names =
     [(''none'', NoneLevel), (''fatal'', FatalLevel), (''error'', ErrorLevel), (''warn'', WarnLevel), (''info'', InfoLevel),
      ([], DefaultLevel), (''default'', DefaultLevel), (''verbose'', VerboseLevel), (''debug'', DebugLevel), (''devel'', DevelLevel),
      (''trace'', TraceLevel), (''all'', AllLevel)]"

text \<open>An unknown name panics.\<close>

definition new_level :: "gostr \<Rightarrow> level option" where
  "new_level l = map_of level_names (to_lower l)"

definition level_string :: "level \<Rightarrow> gostr" where
  "level_string l =
     (case l of NoneLevel \<Rightarrow> ''NONE'' | FatalLevel \<Rightarrow> ''FATAL'' | ErrorLevel \<Rightarrow> ''ERROR'' | WarnLevel \<Rightarrow> ''WARN'' | InfoLevel \<Rightarrow> ''INFO''
      | DefaultLevel \<Rightarrow> ''DEFAULT'' | VerboseLevel \<Rightarrow> ''VERBOSE'' | DebugLevel \<Rightarrow> ''DEBUG'' | DevelLevel \<Rightarrow> ''DEVEL''
      | TraceLevel \<Rightarrow> ''TRACE'' | AllLevel \<Rightarrow> ''ALL'')"

subsection \<open>Loggers\<close>

datatype rotation = DailyRotation | SignalRotation

record rotation_strategy =
  rs_rotation :: rotation
  rs_file_base :: gostr

definition new_strategy :: "gostr \<Rightarrow> gostr \<Rightarrow> rotation_strategy" where
  "new_strategy program name =
     (if to_lower name = ''daily'' then \<lparr>rs_rotation = DailyRotation, rs_file_base = []\<rparr>
      else \<lparr>rs_rotation = SignalRotation, rs_file_base = program\<rparr>)"

datatype logger = NoneLogger | StdoutLogger | FileLogger | FoutLogger bool

text \<open>An unknown name panics.\<close>

definition logger_factory :: "bool \<Rightarrow> gostr \<Rightarrow> logger option" where
  "logger_factory log_payload name =
     (let n = to_lower name in
      if n = ''none'' then Some NoneLogger
      else if n = ''stdout'' then Some StdoutLogger
      else if n = ''file'' then Some FileLogger
      else if n = ''fout'' then Some (FoutLogger log_payload)
      else None)"

definition supports_colors :: "logger \<Rightarrow> bool" where
  "supports_colors l = (case l of StdoutLogger \<Rightarrow> True | FoutLogger p \<Rightarrow> True | _ \<Rightarrow> False)"

text \<open>What a call of a logger hands to its sinks: a text and whether a newline follows.\<close>

datatype sink = ToTerminal gostr bool | ToFile gostr bool

definition logger_log :: "logger \<Rightarrow> gostr \<Rightarrow> sink list" where
  "logger_log l m =
     (case l of NoneLogger \<Rightarrow> [] | StdoutLogger \<Rightarrow> [ToTerminal m True] | FileLogger \<Rightarrow> [ToFile m True]
      | FoutLogger p \<Rightarrow> [ToTerminal m True, ToFile m True])"

text \<open>The file logger panics when it is given colours.\<close>

definition logger_log_with_colors :: "logger \<Rightarrow> gostr \<Rightarrow> gostr \<Rightarrow> sink list option" where
  "logger_log_with_colors l m coloured =
     (case l of NoneLogger \<Rightarrow> Some [] | StdoutLogger \<Rightarrow> Some [ToTerminal coloured True] | FileLogger \<Rightarrow> None
      | FoutLogger p \<Rightarrow> Some [ToTerminal coloured True, ToFile m True])"

definition logger_raw :: "logger \<Rightarrow> gostr \<Rightarrow> sink list" where
  "logger_raw l m =
     (case l of NoneLogger \<Rightarrow> [] | StdoutLogger \<Rightarrow> [ToTerminal m False] | FileLogger \<Rightarrow> [ToFile m False]
      | FoutLogger p \<Rightarrow> ToTerminal m False # (if p then [ToFile m False] else []))"

definition logger_raw_with_colors :: "logger \<Rightarrow> gostr \<Rightarrow> gostr \<Rightarrow> sink list option" where
  "logger_raw_with_colors l m coloured =
     (case l of NoneLogger \<Rightarrow> Some [] | StdoutLogger \<Rightarrow> Some [ToTerminal coloured False] | FileLogger \<Rightarrow> None
      | FoutLogger p \<Rightarrow> Some (ToTerminal coloured False # (if p then [ToFile m False] else [])))"

definition logger_raw_file_only :: "logger \<Rightarrow> gostr \<Rightarrow> sink list" where
  "logger_raw_file_only l m = (case l of FoutLogger p \<Rightarrow> if p then [ToFile m False] else [] | _ \<Rightarrow> [])"

subsection \<open>Messages\<close>

record dlog =
  dl_logger :: logger
  dl_process :: source_process
  dl_package :: source_process
  dl_max :: level
  dl_hostname :: gostr

definition new_dlog ::
  "gostr \<Rightarrow> bool \<Rightarrow> common_config \<Rightarrow> gostr \<Rightarrow> source_process \<Rightarrow> source_process \<Rightarrow> (dlog \<times> rotation_strategy) option" where
  "new_dlog program log_payload c hostname process package =
     (case (new_level (cc_log_level c), logger_factory log_payload (cc_logger c)) of
        (Some l, Some lg) \<Rightarrow>
          Some (\<lparr>dl_logger = lg, dl_process = process, dl_package = package, dl_max = l, dl_hostname = hostname\<rparr>,
                new_strategy program (cc_log_rotation c))
      | _ \<Rightarrow> None)"

text \<open>The clock is given as the text \<open>0102-150405\<close> and the arguments as the texts that \<open>writeArgStrings\<close> makes of them.\<close>

definition log_text :: "dlog \<Rightarrow> gostr \<Rightarrow> level \<Rightarrow> gostr list \<Rightarrow> gostr" where
  "log_text d clock l args =
     (if dl_process d = ClientProcess
      then source_string (dl_package d) @ field_delimiter @ dl_hostname d @ field_delimiter @ level_string l
      else level_string l @ field_delimiter @ clock) @ field_delimiter @ join field_delimiter args"

definition dlog_log :: "term_colours \<Rightarrow> bool \<Rightarrow> dlog \<Rightarrow> gostr \<Rightarrow> level \<Rightarrow> gostr list \<Rightarrow> gostr \<times> sink list option" where
  "dlog_log tc colors d clock l args =
     (if dl_max d < l then ([], Some [])
      else
        let m = log_text d clock l args in
        (m, if \<not> colors \<or> \<not> supports_colors (dl_logger d) then Some (logger_log (dl_logger d) m)
            else logger_log_with_colors (dl_logger d) m (colorfy tc m)))"

definition trace_enabled :: "dlog option \<Rightarrow> bool" where
  "trace_enabled d = (case d of None \<Rightarrow> False | Some d \<Rightarrow> TraceLevel \<le> dl_max d)"

text \<open>The place of the caller is one more argument of a trace or devel message.\<close>

definition dlog_trace :: "term_colours \<Rightarrow> bool \<Rightarrow> dlog \<Rightarrow> gostr \<Rightarrow> gostr \<Rightarrow> gostr list \<Rightarrow> gostr \<times> sink list option" where
  "dlog_trace tc colors d clock place args =
     (if dl_max d < TraceLevel then ([], Some []) else dlog_log tc colors d clock TraceLevel (args @ [''at '' @ place]))"

definition dlog_devel :: "term_colours \<Rightarrow> bool \<Rightarrow> dlog \<Rightarrow> gostr \<Rightarrow> gostr \<Rightarrow> gostr list \<Rightarrow> gostr \<times> sink list option" where
  "dlog_devel tc colors d clock place args =
     (if dl_max d < DevelLevel then ([], Some []) else dlog_log tc colors d clock DevelLevel (args @ [''at '' @ place]))"

definition dlog_raw :: "term_colours \<Rightarrow> bool \<Rightarrow> dlog \<Rightarrow> gostr \<Rightarrow> gostr \<times> sink list option" where
  "dlog_raw tc colors d m =
     (m, if \<not> colors \<or> \<not> supports_colors (dl_logger d) then Some (logger_raw (dl_logger d) m)
         else logger_raw_with_colors (dl_logger d) m (colorfy tc m))"

definition dlog_raw_payload_file_tee :: "dlog \<Rightarrow> gostr \<Rightarrow> sink list" where
  "dlog_raw_payload_file_tee d m = logger_raw_file_only (dl_logger d) m"

definition dlog_raw_log :: "term_colours \<Rightarrow> bool \<Rightarrow> dlog \<Rightarrow> gostr \<Rightarrow> gostr \<times> sink list option" where
  "dlog_raw_log tc colors d m =
     (m, if \<not> colors \<or> \<not> supports_colors (dl_logger d) then Some (logger_log (dl_logger d) m)
         else logger_log_with_colors (dl_logger d) m (colorfy tc m))"

text \<open>
  The statistics: the entries of the map in the order of its iteration, as texts. A server puts the state of its
  process in front of them, which is an argument here.
\<close>

definition dlog_mapreduce :: "term_colours \<Rightarrow> bool \<Rightarrow> dlog \<Rightarrow> gostr \<Rightarrow> gostr \<Rightarrow> gostr \<Rightarrow> (gostr, gostr) gomap \<Rightarrow> gostr \<times> sink list option" where
  "dlog_mapreduce tc colors d clock process table data =
     dlog_log tc colors d clock InfoLevel
       ((if dl_process d = ServerProcess then process @ ''|MAPREDUCE:'' @ to_upper table else ''STATS:'' @ to_upper table) #
        map (\<lambda>(k, v). k @ ''='' @ v) data)"

subsection \<open>The log file\<close>

text \<open>\<open>bufio.Writer\<close> of \<open>fileWriterBufSize\<close> bytes: what stays in the buffer and what is written.\<close>

definition writer_buf_size :: nat where
  "writer_buf_size = 64 * 1024"

definition bufio_write :: "gostr \<Rightarrow> gostr \<Rightarrow> gostr \<times> gostr" where
  "bufio_write buf s =
     (let room = writer_buf_size - length buf in
      if length s \<le> room then (buf @ s, [])
      else if buf = [] then ([], s)
      else
        let rest = drop room s in
        if length rest \<le> writer_buf_size then (rest, buf @ take room s) else ([], buf @ s))"

text \<open>\<open>WriteByte\<close>\<close>

definition bufio_write_byte :: "gostr \<Rightarrow> char \<Rightarrow> gostr \<times> gostr" where
  "bufio_write_byte buf c = (if writer_buf_size \<le> length buf then ([c], buf) else (buf @ [c], []))"

text \<open>The day of a message is the text \<open>20060102\<close> of its time.\<close>

record file_message =
  fm_day :: gostr
  fm_text :: gostr
  fm_newline :: bool

record file_logger =
  fl_queue :: "file_message list"
  fl_pause_pending :: bool
  fl_resume_pending :: bool
  fl_rotate_pending :: bool
  fl_paused :: bool
  fl_stopped :: bool
  fl_writer :: "(gostr \<times> gostr) option"
  fl_last_name :: gostr
  fl_disk :: "(gostr, gostr) gomap"

definition new_file_logger :: "(gostr, gostr) gomap \<Rightarrow> file_logger" where
  "new_file_logger disk =
     \<lparr>fl_queue = [], fl_pause_pending = False, fl_resume_pending = False, fl_rotate_pending = False, fl_paused = False,
      fl_stopped = False, fl_writer = None, fl_last_name = [], fl_disk = disk\<rparr>"

definition append_disk :: "gostr \<Rightarrow> gostr \<Rightarrow> file_logger \<Rightarrow> file_logger" where
  "append_disk path s f = f\<lparr>fl_disk := AList.update path (lookup_zero [] (fl_disk f) path @ s) (fl_disk f)\<rparr>"

text \<open>The bytes of the buffer go to the file; without a file there is nothing to do.\<close>

definition flush_writer :: "file_logger \<Rightarrow> file_logger" where
  "flush_writer f =
     (case fl_writer f of None \<Rightarrow> f | Some (path, buf) \<Rightarrow> (append_disk path buf f)\<lparr>fl_writer := Some (path, [])\<rparr>)"

definition log_path :: "gostr \<Rightarrow> gostr \<Rightarrow> gostr" where
  "log_path dir name = dir @ ''/'' @ name @ ''.log''"

text \<open>\<open>openable\<close> says which files can be opened; one that cannot be ends the program with a panic, which is \<open>None\<close>.\<close>

definition get_writer :: "gostr \<Rightarrow> (gostr \<Rightarrow> bool) \<Rightarrow> gostr \<Rightarrow> file_logger \<Rightarrow> file_logger option" where
  "get_writer dir openable name f =
     (if fl_last_name f = name then (if fl_writer f = None then None else Some f)
      else if \<not> openable (log_path dir name) then None
      else Some ((append_disk (log_path dir name) [] (flush_writer f))
             \<lparr>fl_writer := Some (log_path dir name, []), fl_last_name := name\<rparr>))"

definition put_text :: "gostr \<Rightarrow> file_logger \<Rightarrow> file_logger" where
  "put_text s f =
     (case fl_writer f of
        None \<Rightarrow> f
      | Some (path, buf) \<Rightarrow>
          (case bufio_write buf s of (buf', out) \<Rightarrow> (append_disk path out f)\<lparr>fl_writer := Some (path, buf')\<rparr>))"

definition put_byte :: "char \<Rightarrow> file_logger \<Rightarrow> file_logger" where
  "put_byte c f =
     (case fl_writer f of
        None \<Rightarrow> f
      | Some (path, buf) \<Rightarrow>
          (case bufio_write_byte buf c of (buf', out) \<Rightarrow> (append_disk path out f)\<lparr>fl_writer := Some (path, buf')\<rparr>))"

definition message_name :: "rotation_strategy \<Rightarrow> file_message \<Rightarrow> gostr" where
  "message_name st m = (if rs_rotation st = DailyRotation then fm_day m else rs_file_base st)"

definition write_message :: "gostr \<Rightarrow> (gostr \<Rightarrow> bool) \<Rightarrow> rotation_strategy \<Rightarrow> file_message \<Rightarrow> file_logger \<Rightarrow> file_logger option" where
  "write_message dir openable st m f =
     (case get_writer dir openable (message_name st m) f of
        None \<Rightarrow> None
      | Some f \<Rightarrow>
          let f = put_text (fm_text m) f in
          Some (if fm_newline m then put_byte (CHR 0x0A) f else f))"

text \<open>A flush writes all messages of the queue first.\<close>

primrec write_queued :: "gostr \<Rightarrow> (gostr \<Rightarrow> bool) \<Rightarrow> rotation_strategy \<Rightarrow> file_message list \<Rightarrow> file_logger \<Rightarrow> file_logger option" where
  "write_queued dir openable st [] f = Some f"
| "write_queued dir openable st (m # ms) f =
     (case write_message dir openable st m f of None \<Rightarrow> None | Some f \<Rightarrow> write_queued dir openable st ms f)"

definition file_flush :: "gostr \<Rightarrow> (gostr \<Rightarrow> bool) \<Rightarrow> rotation_strategy \<Rightarrow> file_logger \<Rightarrow> file_logger option" where
  "file_flush dir openable st f =
     map_option flush_writer (write_queued dir openable st (fl_queue f) (f\<lparr>fl_queue := []\<rparr>))"

text \<open>
  The steps of the goroutine, one for each case of its \<open>select\<close>, and the calls of others. A step that is not possible
  is \<open>None\<close>, like a panic. A flush is answered where it is taken, so it is one step.
\<close>

datatype file_event =
    Logged file_message
  | PauseCalled | ResumeCalled | RotateCalled
  | MessageTaken | IdleTick | PauseTaken | ResumeTaken | FlushTaken | RotateTaken
  | PauseCancelled | Cancelled

definition goroutine_waits :: "file_logger \<Rightarrow> bool" where
  "goroutine_waits f = (\<not> fl_paused f \<and> \<not> fl_stopped f)"

definition file_step ::
  "nat \<Rightarrow> gostr \<Rightarrow> (gostr \<Rightarrow> bool) \<Rightarrow> rotation_strategy \<Rightarrow> file_event \<Rightarrow> file_logger \<Rightarrow> file_logger option" where
  "file_step room dir openable st ev f =
     (case ev of
        Logged m \<Rightarrow> if length (fl_queue f) < room then Some (f\<lparr>fl_queue := fl_queue f @ [m]\<rparr>) else None
      | PauseCalled \<Rightarrow> Some (f\<lparr>fl_pause_pending := True\<rparr>)
      | ResumeCalled \<Rightarrow> Some (f\<lparr>fl_resume_pending := True\<rparr>)
      | RotateCalled \<Rightarrow> Some (f\<lparr>fl_rotate_pending := True\<rparr>)
      | MessageTaken \<Rightarrow>
          (if goroutine_waits f then
             (case fl_queue f of [] \<Rightarrow> None | m # ms \<Rightarrow> write_message dir openable st m (f\<lparr>fl_queue := ms\<rparr>))
           else None)
      | IdleTick \<Rightarrow> if goroutine_waits f then file_flush dir openable st f else None
      | PauseTaken \<Rightarrow>
          (if goroutine_waits f \<and> fl_pause_pending f
           then map_option (\<lambda>f. f\<lparr>fl_paused := True\<rparr>) (file_flush dir openable st (f\<lparr>fl_pause_pending := False\<rparr>)) else None)
      | ResumeTaken \<Rightarrow>
          (if fl_paused f \<and> fl_resume_pending f then Some (f\<lparr>fl_paused := False, fl_resume_pending := False\<rparr>) else None)
      | PauseCancelled \<Rightarrow> if fl_paused f then Some (f\<lparr>fl_paused := False\<rparr>) else None
      | FlushTaken \<Rightarrow> if goroutine_waits f then file_flush dir openable st f else None
      | RotateTaken \<Rightarrow>
          (if goroutine_waits f \<and> fl_rotate_pending f then Some (f\<lparr>fl_rotate_pending := False, fl_last_name := []\<rparr>) else None)
      | Cancelled \<Rightarrow>
          (if goroutine_waits f then map_option (\<lambda>f. f\<lparr>fl_stopped := True\<rparr>) (file_flush dir openable st f) else None))"

text \<open>The states that can be reached, with the messages that were logged on the way.\<close>

inductive file_reaches ::
  "nat \<Rightarrow> gostr \<Rightarrow> (gostr \<Rightarrow> bool) \<Rightarrow> rotation_strategy \<Rightarrow> (gostr, gostr) gomap \<Rightarrow> file_message list \<Rightarrow> file_logger \<Rightarrow> bool"
  for room dir openable st disk where
  start: "file_reaches room dir openable st disk [] (new_file_logger disk)"
| step: "file_reaches room dir openable st disk logged f \<Longrightarrow> file_step room dir openable st ev f = Some f' \<Longrightarrow>
    file_reaches room dir openable st disk (logged @ (case ev of Logged m \<Rightarrow> [m] | _ \<Rightarrow> [])) f'"

subsection \<open>Nothing logged is lost\<close>

definition logged_bytes :: "file_message \<Rightarrow> gostr" where
  "logged_bytes m = fm_text m @ (if fm_newline m then [CHR 0x0A] else [])"

definition message_path :: "gostr \<Rightarrow> rotation_strategy \<Rightarrow> file_message \<Rightarrow> gostr" where
  "message_path dir st m = log_path dir (message_name st m)"

definition bytes_for :: "gostr \<Rightarrow> rotation_strategy \<Rightarrow> gostr \<Rightarrow> file_message list \<Rightarrow> gostr" where
  "bytes_for dir st path ms = concat (map logged_bytes (filter (\<lambda>m. message_path dir st m = path) ms))"

definition on_disk :: "file_logger \<Rightarrow> gostr \<Rightarrow> gostr" where
  "on_disk f path = lookup_zero [] (fl_disk f) path"

definition buffered :: "file_logger \<Rightarrow> gostr \<Rightarrow> gostr" where
  "buffered f path = (case fl_writer f of None \<Rightarrow> [] | Some (p, buf) \<Rightarrow> if p = path then buf else [])"

definition file_content :: "file_logger \<Rightarrow> gostr \<Rightarrow> gostr" where
  "file_content f path = on_disk f path @ buffered f path"

text \<open>The writer is the one of the file whose name was used last.\<close>

definition writer_ok :: "gostr \<Rightarrow> file_logger \<Rightarrow> bool" where
  "writer_ok dir f = (fl_last_name f \<noteq> [] \<longrightarrow> (\<exists>buf. fl_writer f = Some (log_path dir (fl_last_name f), buf)))"

named_theorems file_view

lemma append_disk_view [file_view]:
  "fl_disk (append_disk p s f) = AList.update p (lookup_zero [] (fl_disk f) p @ s) (fl_disk f)"
  "fl_writer (append_disk p s f) = fl_writer f" "fl_last_name (append_disk p s f) = fl_last_name f"
  "fl_queue (append_disk p s f) = fl_queue f"
  by (simp_all add: append_disk_def)

lemma bytes_for_simps [simp]:
  "bytes_for dir st path [] = []"
  "bytes_for dir st path (ms @ ns) = bytes_for dir st path ms @ bytes_for dir st path ns"
  "bytes_for dir st path [m] = (if message_path dir st m = path then logged_bytes m else [])"
  by (simp_all add: bytes_for_def)

lemma flush_writer_content:
  "on_disk (flush_writer f) path = file_content f path" "buffered (flush_writer f) path = []"
  by (auto simp: file_content_def on_disk_def buffered_def flush_writer_def file_view lookup_zero_update split: option.splits prod.splits)

lemma flush_writer_rest [file_view]:
  "fl_last_name (flush_writer f) = fl_last_name f" "fl_queue (flush_writer f) = fl_queue f"
  by (auto simp: flush_writer_def file_view split: option.splits prod.splits)

lemma flush_writer_ok: "writer_ok dir f \<Longrightarrow> writer_ok dir (flush_writer f)"
  by (auto simp: writer_ok_def flush_writer_def file_view split: option.splits prod.splits)

lemma bufio_write_split: "bufio_write buf s = (buf', out) \<Longrightarrow> out @ buf' = buf @ s"
  by (auto simp: bufio_write_def Let_def split: if_splits)

lemma bufio_write_byte_split: "bufio_write_byte buf c = (buf', out) \<Longrightarrow> out @ buf' = buf @ [c]"
  by (auto simp: bufio_write_byte_def split: if_splits)

lemma put_text_content:
  assumes "fl_writer f = Some (p, buf)"
  shows "file_content (put_text s f) path = file_content f path @ (if p = path then s else [])"
    "\<exists>buf'. fl_writer (put_text s f) = Some (p, buf')" "fl_last_name (put_text s f) = fl_last_name f"
    "fl_queue (put_text s f) = fl_queue f"
proof -
  obtain buf' out where b: "bufio_write buf s = (buf', out)" by fastforce
  show "file_content (put_text s f) path = file_content f path @ (if p = path then s else [])"
    using assms b bufio_write_split[OF b]
    by (simp add: put_text_def file_content_def on_disk_def buffered_def file_view lookup_zero_update)
  show "\<exists>buf'. fl_writer (put_text s f) = Some (p, buf')" "fl_last_name (put_text s f) = fl_last_name f"
    "fl_queue (put_text s f) = fl_queue f"
    using assms b by (simp_all add: put_text_def file_view)
qed

lemma put_byte_content:
  assumes "fl_writer f = Some (p, buf)"
  shows "file_content (put_byte c f) path = file_content f path @ (if p = path then [c] else [])"
    "\<exists>buf'. fl_writer (put_byte c f) = Some (p, buf')" "fl_last_name (put_byte c f) = fl_last_name f"
    "fl_queue (put_byte c f) = fl_queue f"
proof -
  obtain buf' out where b: "bufio_write_byte buf c = (buf', out)" by fastforce
  show "file_content (put_byte c f) path = file_content f path @ (if p = path then [c] else [])"
    using assms b bufio_write_byte_split[OF b]
    by (simp add: put_byte_def file_content_def on_disk_def buffered_def file_view lookup_zero_update)
  show "\<exists>buf'. fl_writer (put_byte c f) = Some (p, buf')" "fl_last_name (put_byte c f) = fl_last_name f"
    "fl_queue (put_byte c f) = fl_queue f"
    using assms b by (simp_all add: put_byte_def file_view)
qed

lemma get_writer_content:
  assumes ok: "writer_ok dir f" and name: "name \<noteq> []" and g: "get_writer dir openable name f = Some f'"
  shows "file_content f' path = file_content f path \<and> (\<exists>buf. fl_writer f' = Some (log_path dir name, buf)) \<and>
    fl_last_name f' = name \<and> fl_queue f' = fl_queue f"
proof (cases "fl_last_name f = name")
  case True
  then show "file_content f' path = file_content f path \<and> (\<exists>buf. fl_writer f' = Some (log_path dir name, buf)) \<and>
    fl_last_name f' = name \<and> fl_queue f' = fl_queue f"
    using assms by (auto simp: get_writer_def writer_ok_def split: if_splits)
next
  case False
  then have f': "f' = (append_disk (log_path dir name) [] (flush_writer f))\<lparr>fl_writer := Some (log_path dir name, []), fl_last_name := name\<rparr>"
    using g by (simp add: get_writer_def split: if_splits)
  have "file_content f' path = on_disk (flush_writer f) path"
    by (simp add: f' file_content_def on_disk_def buffered_def file_view lookup_zero_update)
  then show "file_content f' path = file_content f path \<and> (\<exists>buf. fl_writer f' = Some (log_path dir name, buf)) \<and>
    fl_last_name f' = name \<and> fl_queue f' = fl_queue f"
    by (simp add: flush_writer_content f' file_view)
qed

lemma write_message_content:
  assumes ok: "writer_ok dir f" and name: "message_name st m \<noteq> []" and w: "write_message dir openable st m f = Some f'"
  shows "file_content f' path = file_content f path @ bytes_for dir st path [m]" "writer_ok dir f'" "fl_queue f' = fl_queue f"
proof -
  obtain f1 where g: "get_writer dir openable (message_name st m) f = Some f1"
    using w by (auto simp: write_message_def split: option.splits)
  note g1 = get_writer_content[OF ok name g, THEN conjunct1] get_writer_content[OF ok name g, THEN conjunct2, THEN conjunct1]
    get_writer_content[OF ok name g, THEN conjunct2, THEN conjunct2]
  obtain buf where b: "fl_writer f1 = Some (message_path dir st m, buf)" using g1(2) by (auto simp: message_path_def)
  let ?f2 = "put_text (fm_text m) f1"
  note t = put_text_content[OF b, of "fm_text m"]
  obtain buf2 where b2: "fl_writer ?f2 = Some (message_path dir st m, buf2)" using t(2) by blast
  note y = put_byte_content[OF b2, of "CHR 0x0A"]
  have f': "f' = (if fm_newline m then put_byte (CHR 0x0A) ?f2 else ?f2)"
    using w g by (simp add: write_message_def Let_def)
  show "file_content f' path = file_content f path @ bytes_for dir st path [m]"
    using g1(1)[of path] t(1)[of path] y(1)[of path] by (simp add: f' logged_bytes_def)
  show "writer_ok dir f'" "fl_queue f' = fl_queue f"
    using g1(3) t(3,4) y(3,4) b2 y(2) by (auto simp: f' writer_ok_def message_path_def)
qed

lemma write_queued_content:
  assumes "writer_ok dir f" and "\<forall>m\<in>set ms. message_name st m \<noteq> []" and "write_queued dir openable st ms f = Some f'"
  shows "file_content f' path = file_content f path @ bytes_for dir st path ms \<and> writer_ok dir f' \<and> fl_queue f' = fl_queue f"
  using assms
proof (induction ms arbitrary: f)
  case Nil
  then show ?case by simp
next
  case (Cons m ms)
  obtain f1 where w: "write_message dir openable st m f = Some f1" and a: "write_queued dir openable st ms f1 = Some f'"
    using Cons.prems(3) by (auto split: option.splits)
  have name: "message_name st m \<noteq> []" and rest: "\<forall>m\<in>set ms. message_name st m \<noteq> []" using Cons.prems(2) by auto
  note c = write_message_content[OF Cons.prems(1) name w]
  from Cons.IH[OF c(2) rest a] c show ?case using bytes_for_simps(2)[of dir st path "[m]" ms] by simp
qed

lemma file_flush_content:
  assumes "writer_ok dir f" and "\<forall>m\<in>set (fl_queue f). message_name st m \<noteq> []" and "file_flush dir openable st f = Some f'"
  shows "on_disk f' path = file_content f path @ bytes_for dir st path (fl_queue f)" "buffered f' path = []"
    "writer_ok dir f'" "fl_queue f' = []"
proof -
  obtain g where w: "write_queued dir openable st (fl_queue f) (f\<lparr>fl_queue := []\<rparr>) = Some g" and f': "f' = flush_writer g"
    using assms(3) by (auto simp: file_flush_def)
  have ok: "writer_ok dir (f\<lparr>fl_queue := []\<rparr>)" using assms(1) by (simp add: writer_ok_def)
  have "file_content (f\<lparr>fl_queue := []\<rparr>) path = file_content f path"
    by (simp add: file_content_def on_disk_def buffered_def)
  then show "on_disk f' path = file_content f path @ bytes_for dir st path (fl_queue f)" "buffered f' path = []"
    "writer_ok dir f'" "fl_queue f' = []"
    using write_queued_content[OF ok assms(2) w, of path] flush_writer_ok[of dir g]
    by (simp_all add: f' flush_writer_content file_view)
qed


definition log_inv ::
  "gostr \<Rightarrow> rotation_strategy \<Rightarrow> (gostr, gostr) gomap \<Rightarrow> file_message list \<Rightarrow> file_message list \<Rightarrow> file_logger \<Rightarrow> bool" where
  "log_inv dir st disk written logged f =
     (logged = written @ fl_queue f \<and> writer_ok dir f \<and>
      (\<forall>path. file_content f path = lookup_zero [] disk path @ bytes_for dir st path written))"

definition flushes :: "file_event \<Rightarrow> bool" where
  "flushes ev = (ev \<in> {IdleTick, PauseTaken, FlushTaken, Cancelled})"

lemma file_view_same:
  assumes "fl_disk g = fl_disk f" "fl_writer g = fl_writer f"
  shows "on_disk g path = on_disk f path" "buffered g path = buffered f path" "file_content g path = file_content f path"
  using assms by (simp_all add: on_disk_def buffered_def file_content_def)

lemma flush_inv:
  assumes inv: "log_inv dir st disk written logged f" and names: "\<forall>m\<in>set logged. message_name st m \<noteq> []"
    and fl: "file_flush dir openable st f = Some f'"
  shows "log_inv dir st disk logged logged f'" "on_disk f' path = lookup_zero [] disk path @ bytes_for dir st path logged"
proof -
  have ok: "writer_ok dir f" and q: "logged = written @ fl_queue f"
    and c: "\<And>path. file_content f path = lookup_zero [] disk path @ bytes_for dir st path written"
    using inv by (auto simp: log_inv_def)
  have names': "\<forall>m\<in>set (fl_queue f). message_name st m \<noteq> []" using names q by auto
  note d = file_flush_content[OF ok names' fl]
  have disk: "on_disk f' path = lookup_zero [] disk path @ bytes_for dir st path logged" for path
    using d(1)[of path] c[of path] by (simp add: q)
  then show "on_disk f' path = lookup_zero [] disk path @ bytes_for dir st path logged" by simp
  show "log_inv dir st disk logged logged f'"
    using disk d(2-4) by (simp add: log_inv_def file_content_def)
qed

lemma step_flush:
  assumes "flushes ev" "file_step room dir openable st ev f = Some f'"
  obtains g h where "fl_disk g = fl_disk f" "fl_writer g = fl_writer f" "fl_queue g = fl_queue f" "fl_last_name g = fl_last_name f"
    "file_flush dir openable st g = Some h"
    "fl_disk f' = fl_disk h" "fl_writer f' = fl_writer h" "fl_queue f' = fl_queue h" "fl_last_name f' = fl_last_name h"
  using assms that[of f] that[of "f\<lparr>fl_pause_pending := False\<rparr>"]
  by (auto simp: flushes_def file_step_def split: if_splits)

lemma log_inv_same:
  assumes "log_inv dir st disk written logged f" "fl_disk g = fl_disk f" "fl_writer g = fl_writer f" "fl_queue g = fl_queue f"
    "fl_last_name g = fl_last_name f \<or> fl_last_name g = []"
  shows "log_inv dir st disk written logged g"
  using assms file_view_same[OF assms(2,3)] by (auto simp: log_inv_def writer_ok_def)

lemma flush_step_inv:
  assumes inv: "log_inv dir st disk written logged f" and names: "\<forall>m\<in>set logged. message_name st m \<noteq> []"
    and ev: "flushes ev" "file_step room dir openable st ev f = Some f'"
  shows "log_inv dir st disk logged logged f' \<and> on_disk f' path = lookup_zero [] disk path @ bytes_for dir st path logged"
proof (rule step_flush[OF ev])
  fix g h
  assume g: "fl_disk g = fl_disk f" "fl_writer g = fl_writer f" "fl_queue g = fl_queue f" "fl_last_name g = fl_last_name f"
    and fl: "file_flush dir openable st g = Some h"
    and h: "fl_disk f' = fl_disk h" "fl_writer f' = fl_writer h" "fl_queue f' = fl_queue h" "fl_last_name f' = fl_last_name h"
  have "log_inv dir st disk written logged g" by (rule log_inv_same[OF inv g(1-3)]) (simp add: g(4))
  note r = flush_inv[OF this names fl]
  have "log_inv dir st disk logged logged f'" by (rule log_inv_same[OF r(1) h(1-3)]) (simp add: h(4))
  then show ?thesis using r(2)[of path] file_view_same(1)[OF h(1,2), of path] by simp
qed

lemma log_inv_step:
  assumes inv: "log_inv dir st disk written logged f" and s: "file_step room dir openable st ev f = Some f'"
    and names: "\<forall>m\<in>set logged. message_name st m \<noteq> []"
  shows "\<exists>written'. log_inv dir st disk written' (logged @ (case ev of Logged m \<Rightarrow> [m] | _ \<Rightarrow> [])) f'"
proof (cases "flushes ev")
  case True
  then have "(case ev of Logged m \<Rightarrow> [m] | _ \<Rightarrow> []) = []" by (auto simp: flushes_def)
  then show ?thesis using flush_step_inv[OF inv names True s] by auto
next
  case False
  show ?thesis
  proof (cases ev)
    case (Logged m)
    then have f': "f' = f\<lparr>fl_queue := fl_queue f @ [m]\<rparr>" using s by (simp add: file_step_def split: if_splits)
    have "log_inv dir st disk written (logged @ [m]) f'"
      using inv file_view_same[of f' f] by (simp add: log_inv_def writer_ok_def f')
    then show ?thesis using Logged by auto
  next
    case MessageTaken
    obtain m ms where q: "fl_queue f = m # ms" and w: "write_message dir openable st m (f\<lparr>fl_queue := ms\<rparr>) = Some f'"
      using s MessageTaken by (auto simp: file_step_def split: if_splits list.splits)
    have ok: "writer_ok dir (f\<lparr>fl_queue := ms\<rparr>)" using inv by (simp add: log_inv_def writer_ok_def)
    have name: "message_name st m \<noteq> []" using inv names q by (auto simp: log_inv_def)
    have c: "file_content (f\<lparr>fl_queue := ms\<rparr>) path = file_content f path" for path
      using file_view_same(3)[of "f\<lparr>fl_queue := ms\<rparr>" f] by simp
    note r = write_message_content[OF ok name w]
    have "file_content f' path = lookup_zero [] disk path @ bytes_for dir st path (written @ [m])" for path
      using r(1)[of path] c[of path] inv by (simp add: log_inv_def)
    then have "log_inv dir st disk (written @ [m]) logged f'"
      using r(2,3) inv q by (simp add: log_inv_def)
    then show ?thesis using MessageTaken by auto
  next
    case RotateTaken
    then have "f' = f\<lparr>fl_rotate_pending := False, fl_last_name := []\<rparr>" using s by (simp add: file_step_def split: if_splits)
    then have "log_inv dir st disk written logged f'" by (intro log_inv_same[OF inv]) simp_all
    then show ?thesis using RotateTaken by auto
  next
    case PauseCalled
    then have "log_inv dir st disk written logged f'" using s by (intro log_inv_same[OF inv]) (auto simp: file_step_def)
    then show ?thesis using PauseCalled by auto
  next
    case ResumeCalled
    then have "log_inv dir st disk written logged f'" using s by (intro log_inv_same[OF inv]) (auto simp: file_step_def)
    then show ?thesis using ResumeCalled by auto
  next
    case RotateCalled
    then have "log_inv dir st disk written logged f'" using s by (intro log_inv_same[OF inv]) (auto simp: file_step_def)
    then show ?thesis using RotateCalled by auto
  next
    case ResumeTaken
    then have "log_inv dir st disk written logged f'" using s by (intro log_inv_same[OF inv]) (auto simp: file_step_def split: if_splits)
    then show ?thesis using ResumeTaken by auto
  next
    case PauseCancelled
    then have "log_inv dir st disk written logged f'" using s by (intro log_inv_same[OF inv]) (auto simp: file_step_def split: if_splits)
    then show ?thesis using PauseCancelled by auto
  qed (use False in \<open>simp_all add: flushes_def\<close>)
qed

lemma log_inv_reaches:
  assumes "file_reaches room dir openable st disk logged f" and "\<forall>m\<in>set logged. message_name st m \<noteq> []"
  shows "\<exists>written. log_inv dir st disk written logged f"
  using assms
proof (induction rule: file_reaches.induct)
  case start
  have "log_inv dir st disk [] [] (new_file_logger disk)"
    by (simp add: log_inv_def new_file_logger_def writer_ok_def file_content_def on_disk_def buffered_def)
  then show ?case by blast
next
  case (step logged f ev f')
  have names: "\<forall>m\<in>set logged. message_name st m \<noteq> []" using step.prems by auto
  obtain written where "log_inv dir st disk written logged f" using step.IH[OF names] by blast
  from log_inv_step[OF this step.hyps(2) names] show ?case .
qed

text \<open>
  C39: The log loses nothing and reorders nothing. In every reachable state of the goroutine the messages that were
  logged are those that were written, in order, and those in the queue, and the files with the bytes that are
  buffered for them hold exactly what they held before and the written messages of their name. After a flush, a
  pause, an idle tick or the end of the program every message that was logged before is on the disk.
\<close>

theorem log_file_exact:
  assumes reached: "file_reaches room dir openable st disk logged f"
    and names: "\<forall>m\<in>set logged. message_name st m \<noteq> []"
  shows "(\<exists>written. logged = written @ fl_queue f \<and>
            (\<forall>path. on_disk f path @ buffered f path = lookup_zero [] disk path @ bytes_for dir st path written)) \<and>
    (\<forall>ev f'. flushes ev \<and> file_step room dir openable st ev f = Some f' \<longrightarrow>
       fl_queue f' = [] \<and> (\<forall>path. on_disk f' path = lookup_zero [] disk path @ bytes_for dir st path logged))"
proof -
  obtain written where inv: "log_inv dir st disk written logged f" using log_inv_reaches[OF assms] by blast
  have "fl_queue f' = []" if "flushes ev" "file_step room dir openable st ev f = Some f'" for ev f'
    using flush_step_inv[OF inv names that, of "[]"] by (simp add: log_inv_def)
  moreover have "on_disk f' path = lookup_zero [] disk path @ bytes_for dir st path logged"
    if "flushes ev" "file_step room dir openable st ev f = Some f'" for ev f' path
    using flush_step_inv[OF inv names that, of path] by simp
  moreover have "\<exists>written. logged = written @ fl_queue f \<and>
      (\<forall>path. on_disk f path @ buffered f path = lookup_zero [] disk path @ bytes_for dir st path written)"
    by (rule exI[of _ written]) (use inv in \<open>simp add: log_inv_def file_content_def\<close>)
  ultimately show ?thesis by (intro conjI allI impI) (assumption | (elim conjE, blast))+
qed

text \<open>While the goroutine pauses no flush is taken: a caller of \<open>Flush\<close> waits for its timeout and nothing is written.\<close>

lemma paused_logger_does_not_flush: "fl_paused f \<Longrightarrow> flushes ev \<Longrightarrow> file_step room dir openable st ev f = None"
  by (auto simp: flushes_def file_step_def goroutine_waits_def)

definition sample_message :: "gostr \<Rightarrow> gostr \<Rightarrow> file_message" where
  "sample_message day m = \<lparr>fm_day = day, fm_text = m, fm_newline = True\<rparr>"

lemma log_file_exact_witness:
  "let st = new_strategy ''p'' ''daily''; ms = [sample_message ''d1'' ''a'', sample_message ''d1'' ''b'', sample_message ''d2'' ''c''];
       f = new_file_logger [(''l/d1.log'', ''x'')]\<lparr>fl_queue := ms\<rparr>
   in \<forall>f'. file_step 3 ''l'' (\<lambda>_. True) st FlushTaken f = Some f' \<longrightarrow>
        on_disk f' ''l/d1.log'' = ''xa'' @ [CHR 0x0A] @ ''b'' @ [CHR 0x0A] \<and> on_disk f' ''l/d2.log'' = ''c'' @ [CHR 0x0A]"
proof -
  let ?st = "new_strategy ''p'' ''daily''"
  let ?a = "sample_message ''d1'' ''a''" and ?b = "sample_message ''d1'' ''b''" and ?c = "sample_message ''d2'' ''c''"
  let ?d = "[(''l/d1.log'', ''x'')]" and ?o = "\<lambda>_::gostr. True"
  have st: "?st = \<lparr>rs_rotation = DailyRotation, rs_file_base = []\<rparr>" by code_simp
  have 1: "file_reaches 3 ''l'' ?o ?st ?d ([] @ [?a]) (new_file_logger ?d\<lparr>fl_queue := [?a]\<rparr>)"
    using file_reaches.step[OF file_reaches.start, where ev = "Logged ?a" and f' = "new_file_logger ?d\<lparr>fl_queue := [?a]\<rparr>"]
    by (simp add: file_step_def new_file_logger_def)
  have 2: "file_reaches 3 ''l'' ?o ?st ?d ([?a] @ [?b]) (new_file_logger ?d\<lparr>fl_queue := [?a, ?b]\<rparr>)"
    using file_reaches.step[OF 1, where ev = "Logged ?b" and f' = "new_file_logger ?d\<lparr>fl_queue := [?a, ?b]\<rparr>"]
    by (simp add: file_step_def)
  have 3: "file_reaches 3 ''l'' ?o ?st ?d [?a, ?b, ?c] (new_file_logger ?d\<lparr>fl_queue := [?a, ?b, ?c]\<rparr>)"
    using file_reaches.step[OF 2, where ev = "Logged ?c" and f' = "new_file_logger ?d\<lparr>fl_queue := [?a, ?b, ?c]\<rparr>"]
    by (simp add: file_step_def)
  have names: "\<forall>m\<in>set [?a, ?b, ?c]. message_name ?st m \<noteq> []" by (simp add: st message_name_def sample_message_def)
  have b: "bytes_for ''l'' ?st ''l/d1.log'' [?a, ?b, ?c] = ''a'' @ [CHR 0x0A] @ ''b'' @ [CHR 0x0A]"
    "bytes_for ''l'' ?st ''l/d2.log'' [?a, ?b, ?c] = ''c'' @ [CHR 0x0A]"
    by (simp_all add: bytes_for_def st message_path_def log_path_def message_name_def sample_message_def logged_bytes_def)
  show ?thesis
    using log_file_exact[OF 3 names, THEN conjunct2, rule_format, of FlushTaken] b by (simp add: Let_def flushes_def lookup_zero_def)
qed

end
