(* ===== verification/Serverless.thy ===== *)
theory Serverless
  imports Server_Read Client_Handler Session_Transport
begin

text \<open>
  The serverless connector (\<open>internal/clients/connectors/serverless.go\<close>): the handler of the client and that of the
  server in one process. Two goroutines for each direction carry the bytes, a reader that puts what it reads into a
  channel and a writer that hands it on; a monitor ends the session.
\<close>

subsection \<open>One direction\<close>

text \<open>
  The chunk that the reader holds while the channel is full, with the end of the reads if it came with it; the channel
  and whether it is closed; the writer. What was read, handed on and given up is recorded.
\<close>

record pump =
  pu_held :: "(gostr \<times> bool) option"
  pu_channel :: "gostr list"
  pu_closed :: bool
  pu_writer_done :: bool
  pu_failed :: bool
  pu_read :: "gostr list"
  pu_written :: "gostr list"
  pu_lost :: "gostr list"

definition new_pump :: pump where
  "new_pump =
     \<lparr>pu_held = None, pu_channel = [], pu_closed = False, pu_writer_done = False, pu_failed = False, pu_read = [],
      pu_written = [], pu_lost = []\<rparr>"

definition channel_room :: nat where
  "channel_room = 100"

text \<open>
  \<open>R n s bs e s'\<close> is a read into a buffer of \<open>n\<close> bytes that gives \<open>bs\<close>, where \<open>e\<close> is the end or an error, and
  \<open>W bs t f t'\<close> a write, where \<open>f\<close> is an error.
\<close>

inductive pump_step ::
  "nat \<Rightarrow> (nat \<Rightarrow> 's \<Rightarrow> gostr \<Rightarrow> bool \<Rightarrow> 's \<Rightarrow> bool) \<Rightarrow> (gostr \<Rightarrow> 't \<Rightarrow> bool \<Rightarrow> 't \<Rightarrow> bool) \<Rightarrow> bool \<Rightarrow> 's \<times> 't \<times> pump \<Rightarrow> 's \<times> 't \<times> pump \<Rightarrow> bool"
  for n R W cancelled where
  read_some: "\<not> pu_closed p \<Longrightarrow> pu_held p = None \<Longrightarrow> R n s bs e s' \<Longrightarrow> bs \<noteq> [] \<Longrightarrow>
    pump_step n R W cancelled (s, t, p) (s', t, p\<lparr>pu_held := Some (bs, e), pu_read := pu_read p @ [bs]\<rparr>)"
| read_none: "\<not> pu_closed p \<Longrightarrow> pu_held p = None \<Longrightarrow> R n s [] e s' \<Longrightarrow>
    pump_step n R W cancelled (s, t, p) (s', t, p\<lparr>pu_closed := e\<rparr>)"
| put: "pu_held p = Some (bs, e) \<Longrightarrow> length (pu_channel p) < channel_room \<Longrightarrow>
    pump_step n R W cancelled (s, t, p) (s, t, p\<lparr>pu_held := None, pu_channel := pu_channel p @ [bs], pu_closed := e\<rparr>)"
| give_up: "pu_held p = Some (bs, e) \<Longrightarrow> cancelled \<Longrightarrow>
    pump_step n R W cancelled (s, t, p) (s, t, p\<lparr>pu_held := None, pu_closed := True, pu_lost := [bs]\<rparr>)"
| hand_on: "\<not> pu_writer_done p \<Longrightarrow> pu_channel p = bs # rest \<Longrightarrow> W bs t f t' \<Longrightarrow>
    pump_step n R W cancelled (s, t, p)
      (s, t', p\<lparr>pu_channel := rest, pu_written := pu_written p @ [bs], pu_writer_done := f, pu_failed := f\<rparr>)"
| drained: "\<not> pu_writer_done p \<Longrightarrow> pu_channel p = [] \<Longrightarrow> pu_closed p \<Longrightarrow>
    pump_step n R W cancelled (s, t, p) (s, t, p\<lparr>pu_writer_done := True\<rparr>)"

inductive_cases pump_stepE: "pump_step n R W cancelled (s, t, p) (s', t', p')"

subsection \<open>The connector\<close>

text \<open>Why the session ended: the server is done, the client is done and the server took too long, or something else.\<close>

datatype end_reason = ServerDone | TimedOut | ContextDone

record ('c, 's) serverless =
  sl_client :: 'c
  sl_server :: 's
  sl_up :: pump
  sl_down :: pump
  sl_end :: "end_reason option"

record ('c, 's) endpoints =
  ep_client_read :: "nat \<Rightarrow> 'c \<Rightarrow> gostr \<Rightarrow> bool \<Rightarrow> 'c \<Rightarrow> bool"
  ep_client_write :: "gostr \<Rightarrow> 'c \<Rightarrow> bool \<Rightarrow> 'c \<Rightarrow> bool"
  ep_server_read :: "nat \<Rightarrow> 's \<Rightarrow> gostr \<Rightarrow> bool \<Rightarrow> 's \<Rightarrow> bool"
  ep_server_write :: "gostr \<Rightarrow> 's \<Rightarrow> bool \<Rightarrow> 's \<Rightarrow> bool"
  ep_client_done :: "'c \<Rightarrow> bool"
  ep_shutdown :: "'s \<Rightarrow> 's"

definition client_buffer :: nat where
  "client_buffer = 32 * 1024"

definition server_buffer :: nat where
  "server_buffer = 64 * 1024"

definition new_serverless :: "'c \<Rightarrow> 's \<Rightarrow> ('c, 's) serverless" where
  "new_serverless c s = \<lparr>sl_client = c, sl_server = s, sl_up = new_pump, sl_down = new_pump, sl_end = None\<rparr>"

text \<open>What else happens to the two handlers: their own goroutines, between the steps of the connector.\<close>

inductive serverless_step ::
  "('c, 's) endpoints \<Rightarrow> ('c \<Rightarrow> 'c \<Rightarrow> bool) \<Rightarrow> ('s \<Rightarrow> 's \<Rightarrow> bool) \<Rightarrow> ('c, 's) serverless \<Rightarrow> ('c, 's) serverless \<Rightarrow> bool"
  for ep own_client own_server where
  up: "pump_step client_buffer (ep_client_read ep) (ep_server_write ep) (sl_end v \<noteq> None) (sl_client v, sl_server v, sl_up v) (c, s, p) \<Longrightarrow>
    serverless_step ep own_client own_server v (v\<lparr>sl_client := c, sl_server := s, sl_up := p\<rparr>)"
| down: "pump_step server_buffer (ep_server_read ep) (ep_client_write ep) (sl_end v \<noteq> None) (sl_server v, sl_client v, sl_down v) (s, c, p) \<Longrightarrow>
    serverless_step ep own_client own_server v (v\<lparr>sl_client := c, sl_server := s, sl_down := p\<rparr>)"
| client_acts: "own_client (sl_client v) c \<Longrightarrow> serverless_step ep own_client own_server v (v\<lparr>sl_client := c\<rparr>)"
| server_acts: "own_server (sl_server v) s \<Longrightarrow> serverless_step ep own_client own_server v (v\<lparr>sl_server := s\<rparr>)"
| server_done: "sl_end v = None \<Longrightarrow> pu_writer_done (sl_down v) \<Longrightarrow>
    serverless_step ep own_client own_server v (v\<lparr>sl_server := ep_shutdown ep (sl_server v), sl_end := Some ServerDone\<rparr>)"
| timed_out: "sl_end v = None \<Longrightarrow> ep_client_done ep (sl_client v) \<Longrightarrow>
    serverless_step ep own_client own_server v (v\<lparr>sl_server := ep_shutdown ep (sl_server v), sl_end := Some TimedOut\<rparr>)"
| context_done: "sl_end v = None \<Longrightarrow>
    serverless_step ep own_client own_server v (v\<lparr>sl_server := ep_shutdown ep (sl_server v), sl_end := Some ContextDone\<rparr>)"

inductive serverless_reaches ::
  "('c, 's) endpoints \<Rightarrow> ('c \<Rightarrow> 'c \<Rightarrow> bool) \<Rightarrow> ('s \<Rightarrow> 's \<Rightarrow> bool) \<Rightarrow> ('c, 's) serverless \<Rightarrow> ('c, 's) serverless \<Rightarrow> bool"
  for ep own_client own_server v0 where
  here: "serverless_reaches ep own_client own_server v0 v0"
| further: "serverless_reaches ep own_client own_server v0 v \<Longrightarrow> serverless_step ep own_client own_server v v' \<Longrightarrow>
    serverless_reaches ep own_client own_server v0 v'"

text \<open>The handlers of the program. A read that blocks is no step.\<close>

definition handler_endpoints ::
  "command_callback \<Rightarrow> 'r handler_env \<Rightarrow> client_env \<Rightarrow> (client_handler, server_handler \<times> output_manager) endpoints" where
  "handler_endpoints cb env cenv =
     \<lparr>ep_client_read = (\<lambda>n c bs e c'. client_read n c = Some (bs, e, c')),
      ep_client_write = (\<lambda>bs c f c'. \<not> f \<and> c' = client_write cenv bs c),
      ep_server_read = (\<lambda>n s bs e s'. \<exists>rs. handler_read n rs s = (Some (bs, e), s')),
      ep_server_write = (\<lambda>bs s f s'. \<exists>h1. handler_write cb env bs (fst s) = (h1, f) \<and> s' = (h1, snd s)),
      ep_client_done = ch_done,
      ep_shutdown = (\<lambda>s. ((fst s)\<lparr>h_done := True\<rparr>, snd s))\<rparr>"

subsection \<open>What arrives\<close>

definition pump_ok :: "bool \<Rightarrow> pump \<Rightarrow> bool" where
  "pump_ok cancelled p \<longleftrightarrow>
     pu_read p = pu_written p @ pu_channel p @ (case pu_held p of None \<Rightarrow> [] | Some (bs, e) \<Rightarrow> [bs]) @ pu_lost p \<and>
     (pu_closed p \<longrightarrow> pu_held p = None) \<and> (pu_lost p \<noteq> [] \<longrightarrow> pu_closed p \<and> cancelled) \<and>
     (pu_writer_done p \<and> \<not> pu_failed p \<longrightarrow> pu_closed p \<and> pu_channel p = []) \<and> length (pu_channel p) \<le> channel_room"

lemma pump_ok_step:
  assumes "pump_step n R W cancelled (s, t, p) (s', t', p')" and "pump_ok cancelled p"
  shows "pump_ok cancelled p'"
  using assms by (elim pump_stepE) (auto simp: pump_ok_def split: if_splits)

lemma pump_done_stays:
  assumes "pump_step n R W cancelled (s, t, p) (s', t', p')" and "pu_writer_done p" "pu_closed p" "pu_held p = None"
  shows "p' = p"
  using assms by (elim pump_stepE) auto

lemma pump_ok_mono: "pump_ok c p \<Longrightarrow> (c \<Longrightarrow> d) \<Longrightarrow> pump_ok d p"
  by (auto simp: pump_ok_def)

lemma pump_ok_new: "pump_ok c new_pump"
  by (simp add: pump_ok_def new_pump_def)

text \<open>A session that ended because the server was done has handed everything on.\<close>

definition serverless_inv :: "('c, 's) serverless \<Rightarrow> bool" where
  "serverless_inv v \<longleftrightarrow>
     pump_ok (sl_end v \<noteq> None) (sl_up v) \<and> pump_ok (sl_end v \<noteq> None) (sl_down v) \<and>
     (sl_end v = Some ServerDone \<longrightarrow>
        pu_writer_done (sl_down v) \<and> (\<not> pu_failed (sl_down v) \<longrightarrow> pu_lost (sl_down v) = []))"

lemma pump_failed_stays:
  assumes "pump_step n R W cancelled (s, t, p) (s', t', p')" "pu_writer_done p"
  shows "pu_failed p' = pu_failed p \<and> pu_writer_done p'"
  using assms by (elim pump_stepE) auto

lemma serverless_inv_step:
  assumes "serverless_step ep own_client own_server v v'" and inv: "serverless_inv v"
  shows "serverless_inv v'"
  using assms(1)
proof (cases rule: serverless_step.cases)
  case (up c s p)
  then show ?thesis using inv pump_ok_step[OF up(2)] by (simp add: serverless_inv_def)
next
  case (down s c p)
  have ok: "pump_ok (sl_end v \<noteq> None) p" using inv pump_ok_step[OF down(2)] by (simp add: serverless_inv_def)
  have "pu_writer_done p \<and> (\<not> pu_failed p \<longrightarrow> pu_lost p = [])" if e: "sl_end v = Some ServerDone"
  proof -
    have d: "pu_writer_done (sl_down v)" and l: "\<not> pu_failed (sl_down v) \<longrightarrow> pu_lost (sl_down v) = []"
      and o: "pump_ok True (sl_down v)"
      using inv e by (auto simp: serverless_inv_def)
    note f = pump_failed_stays[OF down(2) d]
    show ?thesis
    proof (cases "pu_failed (sl_down v)")
      case True
      then show ?thesis using f by simp
    next
      case False
      then have "p = sl_down v" using o d by (intro pump_done_stays[OF down(2) d]) (auto simp: pump_ok_def)
      then show ?thesis using l False d by simp
    qed
  qed
  then show ?thesis using inv ok down(1) by (simp add: serverless_inv_def)
next
  case server_done
  then show ?thesis
    using inv pump_ok_mono[of False _ True] by (auto simp: serverless_inv_def pump_ok_def[of False])
next
  case timed_out
  then show ?thesis using inv pump_ok_mono[of False _ True] by (auto simp: serverless_inv_def)
next
  case context_done
  then show ?thesis using inv pump_ok_mono[of False _ True] by (auto simp: serverless_inv_def)
qed (use inv in \<open>simp_all add: serverless_inv_def\<close>)

lemma serverless_inv_reaches:
  assumes "serverless_reaches ep own_client own_server (new_serverless c s) v"
  shows "serverless_inv v"
  using assms
proof (induction rule: serverless_reaches.induct)
  case here
  then show ?case by (simp add: serverless_inv_def new_serverless_def pump_ok_new)
next
  case (further v v')
  then show ?case using serverless_inv_step by blast
qed

text \<open>
  The serverless connector carries the bytes of each direction once and in order: in every reachable state what was
  handed on, what is in the channel and what the reader holds are exactly what was read, unless the session is over and a
  chunk was given up. When the session ended because the server was done, and no write failed, everything that the
  server had to say until its end was handed to the client.
\<close>

theorem serverless_carries_all:
  assumes "serverless_reaches ep own_client own_server (new_serverless c s) v"
  shows "(\<forall>p\<in>{sl_up v, sl_down v}.
       (\<exists>lost. pu_read p = pu_written p @ pu_channel p @ (case pu_held p of None \<Rightarrow> [] | Some (bs, e) \<Rightarrow> [bs]) @ lost \<and>
          (sl_end v = None \<longrightarrow> lost = [])) \<and>
       length (pu_channel p) \<le> channel_room) \<and>
     (sl_end v = Some ServerDone \<and> \<not> pu_failed (sl_down v) \<longrightarrow>
       pu_closed (sl_down v) \<and> pu_written (sl_down v) = pu_read (sl_down v))"
proof -
  have inv: "serverless_inv v" using serverless_inv_reaches[OF assms] .
  have 1: "pump_ok (sl_end v \<noteq> None) (sl_up v)" and 2: "pump_ok (sl_end v \<noteq> None) (sl_down v)"
    using inv by (simp_all add: serverless_inv_def)
  have order: "\<exists>lost. pu_read p = pu_written p @ pu_channel p @ (case pu_held p of None \<Rightarrow> [] | Some (bs, e) \<Rightarrow> [bs]) @ lost \<and>
      (sl_end v = None \<longrightarrow> lost = [])" if "pump_ok (sl_end v \<noteq> None) p" for p
    by (rule exI[of _ "pu_lost p"]) (use that in \<open>auto simp: pump_ok_def\<close>)
  have room: "length (pu_channel p) \<le> channel_room" if "pump_ok (sl_end v \<noteq> None) p" for p
    using that by (simp add: pump_ok_def)
  have ended: "pu_closed (sl_down v) \<and> pu_written (sl_down v) = pu_read (sl_down v)"
    if "sl_end v = Some ServerDone" "\<not> pu_failed (sl_down v)"
    using inv that by (auto simp: serverless_inv_def pump_ok_def)
  show ?thesis
  proof (intro conjI ballI impI)
    fix p assume "p \<in> {sl_up v, sl_down v}"
    then have p: "pump_ok (sl_end v \<noteq> None) p" using 1 2 by auto
    show "\<exists>lost. pu_read p = pu_written p @ pu_channel p @ (case pu_held p of None \<Rightarrow> [] | Some (bs, e) \<Rightarrow> [bs]) @ lost \<and>
      (sl_end v = None \<longrightarrow> lost = [])" by (rule order[OF p])
    show "length (pu_channel p) \<le> channel_room" by (rule room[OF p])
  next
    assume "sl_end v = Some ServerDone \<and> \<not> pu_failed (sl_down v)"
    then show "pu_closed (sl_down v)" "pu_written (sl_down v) = pu_read (sl_down v)" using ended by auto
  qed
qed

end
