(* ===== verification/Client_Output.thy ===== *)
theory Client_Output
  imports Group_Result Colours GoFloat
begin

text \<open>
  What a client shows: the colours of its tables and messages (\<open>internal/clients/runtime_boundary.go\<close>) and the
  statistics of its connections (\<open>stats.go\<close>).
\<close>

subsection \<open>Tables and messages\<close>

record table_colours =
  tb_data :: style
  tb_delimiter :: style
  tb_header :: style
  tb_header_delimiter :: style
  tb_group_attr :: gostr
  tb_sort_attr :: gostr
  tb_raw_query :: style

definition default_table_colours :: table_colours where
  "default_table_colours =
     \<lparr>tb_data = named_style ''white'' ''blue'' ''none'', tb_delimiter = named_style ''white'' ''blue'' ''dim'',
      tb_header = named_style ''white'' ''blue'' ''bold'', tb_header_delimiter = named_style ''white'' ''blue'' ''dim'',
      tb_group_attr = fst (to_attribute ''reverse''), tb_sort_attr = fst (to_attribute ''underline''),
      tb_raw_query = named_style ''cyan'' ''black'' ''dim''\<rparr>"

definition terminal_renderer :: "table_colours \<Rightarrow> result_renderer" where
  "terminal_renderer c =
     \<lparr>header_entry = (\<lambda>text sort_key group_key.
        paint_with_attrs text (st_fg (tb_header c)) (st_bg (tb_header c))
          ([st_attr (tb_header c)] @ (if sort_key then [tb_sort_attr c] else []) @ (if group_key then [tb_group_attr c] else []))),
      header_delimiter = (\<lambda>text. paint_with_attr text (tb_header_delimiter c)),
      data_entry = (\<lambda>text. paint_with_attr text (tb_data c)),
      data_delimiter = (\<lambda>text. paint_with_attr text (tb_delimiter c))\<rparr>"

text \<open>Without a configuration or with its colours switched off there are no styles and the plain renderer.\<close>

record output_formatter =
  of_interrupt :: "style option"
  of_raw_query :: "style option"
  of_renderer :: result_renderer

definition new_output_formatter :: "(bool \<times> style \<times> table_colours) option \<Rightarrow> output_formatter" where
  "new_output_formatter cfg =
     (case cfg of
        Some (True, client_text, table) \<Rightarrow>
          \<lparr>of_interrupt = Some client_text, of_raw_query = Some (tb_raw_query table), of_renderer = terminal_renderer table\<rparr>
      | _ \<Rightarrow> \<lparr>of_interrupt = None, of_raw_query = None, of_renderer = plain_renderer\<rparr>)"

definition format_interrupt_message :: "output_formatter \<Rightarrow> nat \<Rightarrow> gostr \<Rightarrow> gostr" where
  "format_interrupt_message f i message =
     (case of_interrupt f of
        Some st \<Rightarrow> if 0 < i then paint_str_with_attr message st else '' '' @ message
      | None \<Rightarrow> '' '' @ message)"

definition paint_mapr_raw_query :: "output_formatter \<Rightarrow> gostr \<Rightarrow> gostr" where
  "paint_mapr_raw_query f q = (case of_raw_query f of None \<Rightarrow> q | Some st \<Rightarrow> paint_str_with_attr q st)"

definition mapr_result_renderer :: "output_formatter option \<Rightarrow> result_renderer" where
  "mapr_result_renderer f = (case f of None \<Rightarrow> plain_renderer | Some f \<Rightarrow> of_renderer f)"

definition positive_or_default :: "int \<Rightarrow> int \<Rightarrow> int" where
  "positive_or_default v fallback = (if v \<le> 0 then fallback else v)"

subsection \<open>Statistics\<close>

definition stats_percent_of :: "float64 \<Rightarrow> float64 \<Rightarrow> float64" where
  "stats_percent_of total_value v =
     (if f_eq total_value (Fin 0) \<or> f_eq total_value v then Fin 100 else f_div v (f_div total_value (Fin 100)))"

record client_stats =
  cs_servers :: int
  cs_connected :: int
  cs_pause :: int

definition new_tail_stats :: "int \<Rightarrow> int \<Rightarrow> client_stats" where
  "new_tail_stats servers pause =
     \<lparr>cs_servers = servers, cs_connected = 0, cs_pause = (if pause \<le> 0 then 3000000000 else pause)\<rparr>"

text \<open>The last three numbers come from the runtime; the order of the iteration is that of the list.\<close>

definition stats_data :: "client_stats \<Rightarrow> int \<Rightarrow> int \<Rightarrow> int \<Rightarrow> (gostr \<times> int) list \<Rightarrow> (gostr \<times> int) list" where
  "stats_data s conns new_connections throttle process =
     [(''connected'', conns), (''servers'', cs_servers s),
      (''connected%'', f_to_int (stats_percent_of (f_of_int (cs_servers s)) (f_of_int conns))), (''new'', new_connections),
      (''throttle'', throttle)] @ process"

definition stats_line :: "(gostr \<times> int) list \<Rightarrow> gostr" where
  "stats_line ds = join (CHR 0x7C # []) (map (\<lambda>(k, v). k @ ''='' @ itoa v) ds)"

datatype stats_output = Interrupted "gostr list" | StatsLogged "(gostr \<times> int) list"

text \<open>One round: a message of the user, or the ticker without one. The connections and the throttle are counted then.\<close>

definition stats_round ::
  "output_formatter option \<Rightarrow> bool \<Rightarrow> gostr option \<Rightarrow> int \<Rightarrow> int \<Rightarrow> (gostr \<times> int) list \<Rightarrow> client_stats \<times> int \<Rightarrow>
    stats_output option \<times> client_stats \<times> int" where
  "stats_round f quiet message conns throttle process sl =
     (case sl of (s, connected_last) \<Rightarrow>
        let data = stats_data s conns (wrap64 (conns - connected_last)) throttle process;
            shown = (\<lambda>i m. case f of None \<Rightarrow> '' '' @ m | Some f \<Rightarrow> format_interrupt_message f i m) in
        case message of
          None \<Rightarrow>
            (if conns = connected_last \<or> quiet then (None, s, connected_last)
             else (Some (StatsLogged data), s\<lparr>cs_connected := conns\<rparr>, conns))
        | Some m \<Rightarrow>
            (Some (Interrupted [shown 0 m, shown 1 (''Connection stats: '' @ stats_line data)]),
             s\<lparr>cs_connected := conns\<rparr>, conns))"

subsection \<open>A coloured table is the plain table\<close>

text \<open>A renderer that adds codes only: what is visible of each of its texts is the text.\<close>

locale visible_renderer =
  fixes r :: result_renderer
  assumes entry_visible: "CHR 0x1B \<notin> set s \<Longrightarrow> visible (header_entry r s a b @ t) = s @ visible t"
    and header_delimiter_visible: "CHR 0x1B \<notin> set s \<Longrightarrow> visible (header_delimiter r s @ t) = s @ visible t"
    and data_visible: "CHR 0x1B \<notin> set s \<Longrightarrow> visible (data_entry r s @ t) = s @ visible t"
    and data_delimiter_visible: "CHR 0x1B \<notin> set s \<Longrightarrow> visible (data_delimiter r s @ t) = s @ visible t"
begin

lemma join_visible:
  assumes "\<And>t. visible (sep @ t) = sep' @ visible t" and "\<And>x t. x \<in> set xs \<Longrightarrow> visible (f x @ t) = g x @ visible t"
  shows "visible (join sep (map f xs) @ t) = join sep' (map g xs) @ visible t"
  using assms(2)
proof (induction xs)
  case (Cons x xs)
  then show ?case by (cases xs) (simp_all add: assms(1))
qed simp

lemma bar_plain: "CHR 0x1B \<notin> set ''|''" "CHR 0x1B \<notin> set newline"
  by (simp_all add: newline_def)

lemma cell_plain: "CHR 0x1B \<notin> set s \<Longrightarrow> CHR 0x1B \<notin> set (table_cell w s)"
  by (simp add: table_cell_def pad_left_def)

lemma header_visible:
  assumes "\<forall>sc\<in>set (q_select q). CHR 0x1B \<notin> set (field_storage sc)"
  shows "visible (write_header q r widths @ t) = write_header q plain_renderer widths @ visible t"
proof -
  have "visible (header_entry r (table_cell w (field_storage sc)) a b @ t) = table_cell w (field_storage sc) @ visible t"
    if "(w, sc) \<in> set (zip widths (q_select q))" for w sc a b t
    using entry_visible[OF cell_plain] assms set_zip_rightD[OF that] by blast
  then have "visible (join (header_delimiter r ''|'')
       (map (\<lambda>(w, sc). header_entry r (table_cell w (field_storage sc)) (field_storage sc = order_by q)
                (field_storage sc \<in> set (group_by q))) (zip widths (q_select q))) @ newline @ t) =
     join ''|'' (map (\<lambda>(w, sc). table_cell w (field_storage sc)) (zip widths (q_select q))) @ visible (newline @ t)"
    by (intro join_visible) (auto simp: header_delimiter_visible)
  then show ?thesis by (simp add: write_header_def plain_renderer_def visible_plain[OF bar_plain(2)])
qed

lemma separator_visible: "visible (write_separator q r widths @ t) = write_separator q plain_renderer widths @ visible t"
proof -
  have "visible (join (header_delimiter r ''|'') (map (\<lambda>w. header_delimiter r (''-'' @ replicate w CHR ''-'' @ ''-'')) widths) @ newline @ t) =
     join ''|'' (map (\<lambda>w. ''-'' @ replicate w CHR ''-'' @ ''-'') widths) @ visible (newline @ t)"
    by (intro join_visible header_delimiter_visible) auto
  then show ?thesis by (simp add: write_separator_def plain_renderer_def visible_plain[OF bar_plain(2)])
qed

lemma row_visible:
  assumes "\<forall>v\<in>set vs. CHR 0x1B \<notin> set v"
  shows "visible (write_row r widths vs @ t) = write_row plain_renderer widths vs @ visible t"
proof -
  have "visible (data_entry r (table_cell w v) @ t) = table_cell w v @ visible t" if "(w, v) \<in> set (zip widths vs)" for w v t
    using data_visible[OF cell_plain] assms set_zip_rightD[OF that] by blast
  then have "visible (join (data_delimiter r ''|'') (map (\<lambda>(w, v). data_entry r (table_cell w v)) (zip widths vs)) @ newline @ t) =
     join ''|'' (map (\<lambda>(w, v). table_cell w v) (zip widths vs)) @ visible (newline @ t)"
    by (intro join_visible) (auto simp: data_delimiter_visible)
  then show ?thesis by (simp add: write_row_def plain_renderer_def visible_plain[OF bar_plain(2)])
qed

lemma rows_visible:
  assumes "\<forall>row\<in>set rows. \<forall>v\<in>set (row_values row). CHR 0x1B \<notin> set v"
  shows "visible (concat (map (\<lambda>row. write_row r widths (row_values row)) rows) @ t) =
    concat (map (\<lambda>row. write_row plain_renderer widths (row_values row)) rows) @ visible t"
  using assms by (induction rows) (simp_all add: row_visible)

lemma table_visible:
  assumes names: "\<forall>sc\<in>set (q_select q). CHR 0x1B \<notin> set (field_storage sc)"
    and result: "group_result q True g = Inr (rows, widths)"
    and data: "\<forall>row\<in>set rows. \<forall>v\<in>set (row_values row). CHR 0x1B \<notin> set v"
  shows "map_sum id (\<lambda>(t, n). (visible t, n)) (result_table q rows_limit (Some r) g) = result_table q rows_limit (Some plain_renderer) g"
proof -
  let ?n = "if limit q \<noteq> - 1 then limit q else rows_limit"
  have "set (limit_rows ?n rows) \<subseteq> set rows" by (auto simp: limit_rows_def dest: in_set_takeD)
  then have "\<forall>row\<in>set (limit_rows ?n rows). \<forall>v\<in>set (row_values row). CHR 0x1B \<notin> set v" using data by blast
  from rows_visible[OF this, of widths "[]"]
  have v: "visible (concat (map (\<lambda>row. write_row r widths (row_values row)) (limit_rows ?n rows))) =
    concat (map (\<lambda>row. write_row plain_renderer widths (row_values row)) (limit_rows ?n rows))" by simp
  show ?thesis
    by (simp only: result_table_def result and_then_simps Let_def option.case prod.case map_sum.simps header_visible[OF names] separator_visible v id_apply)
qed

end

lemma visible_codes_concat: "(\<forall>a\<in>set as. is_code a) \<Longrightarrow> visible (concat as @ t) = visible t"
  by (induction as) (simp_all add: visible_code)

lemma visible_paint_attrs:
  assumes "is_code fg" "is_code bg" "\<forall>a\<in>set as. is_code a" "CHR 0x1B \<notin> set s"
  shows "visible (paint_with_attrs s fg bg as @ t) = s @ visible t"
proof -
  obtain body nl where b: "s = body @ nl" "trim_suffix s line_end = body" "(if body \<noteq> s then line_end else []) = nl"
  proof (cases "has_suffix s line_end")
    case True
    then have "s = butlast s @ line_end" by (metis append_butlast_last_id has_suffix_single)
    then show ?thesis using that[of "butlast s" line_end] by (metis append_self_conv not_Cons_self trim_suffix_append)
  next
    case False
    then have "trim_suffix s line_end = s" by (simp add: trim_suffix_def)
    then show ?thesis using that[of s "[]"] by simp
  qed
  have plain: "CHR 0x1B \<notin> set body" "CHR 0x1B \<notin> set nl" using assms(4) b(1) by auto
  show ?thesis
    unfolding paint_with_attrs_def Let_def b(2,3)
    by (simp add: visible_code[OF assms(1)] visible_code[OF assms(2)] visible_codes_concat[OF assms(3)]
        visible_plain[OF plain(1)] visible_plain[OF plain(2)]) (simp add: b(1))
qed

definition table_colours_ok :: "table_colours \<Rightarrow> bool" where
  "table_colours_ok c \<longleftrightarrow>
     style_ok (tb_data c) \<and> style_ok (tb_delimiter c) \<and> style_ok (tb_header c) \<and> style_ok (tb_header_delimiter c) \<and>
     is_code (tb_group_attr c) \<and> is_code (tb_sort_attr c)"

text \<open>The renderer of a terminal is one, when its colours are not valid it is the plain one.\<close>

definition safe_renderer :: "table_colours \<Rightarrow> result_renderer" where
  "safe_renderer c = (if table_colours_ok c then terminal_renderer c else plain_renderer)"

interpretation terminal: visible_renderer "safe_renderer c" for c
proof (cases "table_colours_ok c")
  case True
  then show "visible_renderer (safe_renderer c)"
    by unfold_locales (auto simp: safe_renderer_def terminal_renderer_def table_colours_ok_def style_ok_def
        intro!: visible_paint visible_paint_attrs)
next
  case False
  then show "visible_renderer (safe_renderer c)"
    by unfold_locales (simp_all add: safe_renderer_def plain_renderer_def visible_plain)
qed

text \<open>
  The colours of a table change nothing but the colours: for a configuration of codes, and names of columns and
  values without an escape character, a terminal shows the plain table, with as many rows.
\<close>

theorem coloured_table_plain:
  assumes colours: "table_colours_ok c"
    and names: "\<forall>sc\<in>set (q_select q). CHR 0x1B \<notin> set (field_storage sc)"
    and result: "group_result q True g = Inr (rows, widths)"
    and data: "\<forall>row\<in>set rows. \<forall>v\<in>set (row_values row). CHR 0x1B \<notin> set v"
  shows "map_sum id (\<lambda>(t, n). (visible t, n)) (result_table q rows_limit (Some (terminal_renderer c)) g) =
    result_table q rows_limit (Some plain_renderer) g"
  using terminal.table_visible[where c = c and rows_limit = rows_limit, OF names result data] colours by (simp add: safe_renderer_def)

lemma default_table_colours_ok: "table_colours_ok default_table_colours"
proof -
  have "is_code (fst (to_attribute x))" for x using named_style_ok[of "[]" "[]" x] by (simp add: style_ok_def named_style_def)
  then show ?thesis by (simp add: table_colours_ok_def default_table_colours_def named_style_ok)
qed

definition sample_table_query :: query where
  "sample_table_query = sample_plan_query\<lparr>q_select := [\<lparr>sc_field = ''x'', field_storage = ''last(x)'', sc_operation = Last\<rparr>]\<rparr>"

lemma coloured_table_plain_witness:
  "map_sum id (\<lambda>(t, n). (visible t, n))
     (result_table sample_table_query 10 (Some (terminal_renderer default_table_colours)) [(''a'', new_aggregate_set)]) =
   result_table sample_table_query 10 (Some plain_renderer) [(''a'', new_aggregate_set)]"
proof -
  have "case group_result sample_table_query True [(''a'', new_aggregate_set)] of
      Inl e \<Rightarrow> False | Inr (rows, widths) \<Rightarrow> list_all (\<lambda>row. list_all (\<lambda>v. CHR 0x1B \<notin> set v) (row_values row)) rows"
    by code_simp
  then obtain rows widths where r: "group_result sample_table_query True [(''a'', new_aggregate_set)] = Inr (rows, widths)"
    and v: "\<forall>row\<in>set rows. \<forall>v\<in>set (row_values row). CHR 0x1B \<notin> set v"
    by (auto simp: list_all_iff split: sum.splits)
  have n: "\<forall>sc\<in>set (q_select sample_table_query). CHR 0x1B \<notin> set (field_storage sc)"
    by (simp add: sample_table_query_def)
  show ?thesis by (rule coloured_table_plain[OF default_table_colours_ok n r v])
qed

end
