(* ===== verification/Health_Check.thy ===== *)
theory Health_Check
  imports Delivery Base_Client
begin

text \<open>
  The check of a server, from end to end: the client of \<open>dtailhealth\<close> (\<open>internal/clients/healthclient.go\<close>) sends one
  command, the health handler of the server (\<open>handlers/healthhandler.go\<close>) answers it and closes the connection, and the
  handler of the client (\<open>clients/handlers/healthhandler.go\<close>) turns the answer into the exit status.
\<close>

definition default_max_command_frame_size :: int where
  "default_max_command_frame_size = 1048576"

text \<open>The handler has no output manager of its own, no aggregate and tells no capabilities.\<close>

definition new_server_health_handler :: "gostr \<Rightarrow> gostr \<Rightarrow> int option \<Rightarrow> auth_key_store \<Rightarrow> server_handler" where
  "new_server_health_handler user fqdn max_frame store =
     (let limit = (case max_frame of None \<Rightarrow> default_max_command_frame_size
                   | Some n \<Rightarrow> if 0 < n then n else default_max_command_frame_size) in
      \<lparr>h_hostname = hd (split ''.'' fqdn), h_user = user, h_done = False, h_server_messages = [], h_mapr_messages = [], h_lines = [],
        h_ack_close_received = False, h_active_commands = 0, h_pending_files = 0, h_read_buf = [], h_write_buf = [],
        h_max_frame = limit, h_options_read = False, h_quiet = False, h_plain = False, h_serverless = False,
        h_aggregate = None, h_session = zero_session, h_store = store, h_started = [], h_cancelled = {}, h_next_context = 0,
        h_closing = False, h_blocked = False, h_panicked = False\<rparr>)"

definition handle_health_command :: "'r handler_env \<Rightarrow> command_callback" where
  "handle_health_command env ctx ltx args name h =
     (let h1 = (if name = ''health'' then send ''OK'' h
                else if name = ''.ack'' then handle_ack_command env args h
                else send (he_log env (UnknownHealthCommand name args)) h)
      in begin_shutdown env (cancel_command_context ctx h1))"

subsection \<open>The answer\<close>

lemma health_frame_handled:
  assumes chunks: "concat chunks = command_frame ''health''" and buf: "h_write_buf h = []"
    and limit: "h_max_frame h \<le> 0 \<or> int (length (command_frame ''health'')) \<le> h_max_frame h + 1"
  shows "\<exists>ctx h1. write_chunks (handle_health_command env) env chunks h =
      ((handle_health_command env ctx zero_context [''health''] ''health'' h1)\<lparr>h_write_buf := []\<rparr>, False) \<and>
      h1 = h\<lparr>h_write_buf := butlast (command_frame ''health''), h_next_context := Suc (h_next_context h)\<rparr>"
proof -
  let ?c = "''health''" and ?b = "butlast (command_frame ''health'')"
  have s: "split '' '' ?c = [?c]" "split_n '':'' 2 ?c = [?c]" by code_simp+
  obtain args where "handle_protocol_version (split '' '' ?b) = Inr args" "handle_base64 args = Inr (split '' '' ?c)"
    using decode_command_frame[of ?c] by (auto simp: decode_command_def and_then_Inr)
  then have cmd: "handle_command (handle_health_command env) env ?b (h\<lparr>h_write_buf := ?b\<rparr>) =
      run_arguments (handle_health_command env) env [?c] (h\<lparr>h_write_buf := ?b\<rparr>)"
    by (simp add: handle_command_def blank_def s)
  have "int (length ?b) \<le> h_max_frame h \<or> h_max_frame h \<le> 0"
    using limit command_frame_parts(1)[of ?c] by (metis One_nat_def add_le_cancel_right length_append_singleton of_nat_Suc add.commute)
  then have "handler_write (handle_health_command env) env ?b h = (h\<lparr>h_write_buf := ?b\<rparr>, False)"
    using handler_write_body[OF command_frame_parts(2)[of ?c], of h] buf by auto
  then have "handler_write (handle_health_command env) env (?b @ [semicolon]) h =
      ((run_arguments (handle_health_command env) env [?c] (h\<lparr>h_write_buf := ?b\<rparr>))\<lparr>h_write_buf := []\<rparr>, False)"
    by (simp add: handler_write_append cmd)
  then have w: "handler_write (handle_health_command env) env (command_frame ?c) h =
      ((run_arguments (handle_health_command env) env [?c] (h\<lparr>h_write_buf := ?b\<rparr>))\<lparr>h_write_buf := []\<rparr>, False)"
    using command_frame_parts(1)[of ?c] by simp
  have r: "run_arguments (handle_health_command env) env [?c] k =
      handle_health_command env \<lparr>cc_chain = [h_next_context k], cc_cancels = [h_next_context k], cc_generation = 0, cc_deadline = None\<rparr>
        zero_context [?c] ?c (k\<lparr>h_next_context := Suc (h_next_context k)\<rparr>)" for k
    by (simp add: run_arguments_def new_command_context_def dispatch_command_def apply_command_timeout_def s)
  show ?thesis
    unfolding write_chunks_concat chunks w r by (rule exI, rule exI, rule conjI, rule refl) simp
qed

definition answered :: "server_handler \<Rightarrow> bool" where
  "answered h \<longleftrightarrow> h_server_messages h = [''OK'', syn_close] \<and> h_mapr_messages h = [] \<and> h_lines h = [] \<and> h_read_buf h = [] \<and>
     \<not> h_serverless h \<and> \<not> h_plain h"

lemma health_answered:
  assumes "concat chunks = command_frame ''health''"
    and "case max_frame of None \<Rightarrow> True | Some n \<Rightarrow> n \<le> 0 \<or> int (length (command_frame ''health'')) \<le> n + 1"
    and "write_chunks (handle_health_command env) env chunks (new_server_health_handler user fqdn max_frame store) = (h, e)"
  shows "\<not> e \<and> answered h \<and> h_hostname h = hd (split ''.'' fqdn)"
proof -
  let ?h = "new_server_health_handler user fqdn max_frame store"
  have len: "length (command_frame ''health'') = 29" by (simp add: command_frame_def protocol_compat_def Let_def)
  have "h_write_buf ?h = []" "h_max_frame ?h \<le> 0 \<or> int (length (command_frame ''health'')) \<le> h_max_frame ?h + 1"
    using assms(2) by (auto simp: new_server_health_handler_def len default_max_command_frame_size_def Let_def split: option.splits)
  from health_frame_handled[OF assms(1) this, of env] obtain ctx where
    "(h, e) = ((handle_health_command env ctx zero_context [''health''] ''health''
       (?h\<lparr>h_write_buf := butlast (command_frame ''health''), h_next_context := Suc (h_next_context ?h)\<rparr>))\<lparr>h_write_buf := []\<rparr>, False)"
    using assms(3) by auto
  then show ?thesis
    by (simp add: answered_def handle_health_command_def Let_def begin_shutdown_def cancel_command_context_def
        send_def new_server_health_handler_def)
qed

subsection \<open>The way back\<close>

definition ok_line :: "gostr \<Rightarrow> gostr" where
  "ok_line host = ''SERVER'' @ field_delimiter @ host @ field_delimiter @ ''OK''"

lemma not_generated: "m \<noteq> [] \<Longrightarrow> hd m \<noteq> generation_mark \<Longrightarrow> decode_generated_message m = (0, m)"
  by (cases m) (auto simp: decode_generated_message_def has_prefix_def generation_output_prefix_def)

lemma answer_frames:
  assumes "\<not> h_serverless h" "\<not> h_plain h"
  shows "server_frame None ''OK'' h = Some (ok_line (h_hostname h) @ [message_delimiter])"
    "server_frame None syn_close h = Some (syn_close @ [message_delimiter])"
  using assms not_generated[of "''OK''"] not_generated[of syn_close]
  by (simp_all add: server_frame_def should_drop_generation_def generation_mark_def syn_close_def format_server_message_def ok_line_def)

lemma answer_items:
  assumes "answered h" "server_items xs = [''OK'', syn_close]" "mapr_items xs = []" "line_items xs = []" "payload_items xs = []"
    "fst ` set xs \<subseteq> {None}"
  shows "concat (map (item_bytes h) xs) = ok_line (h_hostname h) @ [message_delimiter] @ syn_close @ [message_delimiter]"
proof -
  have single: "server_items (x # ys) = server_items [x] @ server_items ys" "mapr_items (x # ys) = mapr_items [x] @ mapr_items ys"
    "line_items (x # ys) = line_items [x] @ line_items ys" "payload_items (x # ys) = payload_items [x] @ payload_items ys" for x ys
    using items_append[of "[x]" ys] by simp_all
  have server: "\<exists>m. x = (None, ServerItem m) \<and> server_items [x] = [m]"
    if "x \<in> set xs" "mapr_items [x] = []" "line_items [x] = []" "payload_items [x] = []" for x
  proof -
    obtain i where "x = (None, i)" using assms(6) \<open>x \<in> set xs\<close> by (cases x) auto
    then show ?thesis using that(2-4) by (cases i) simp_all
  qed
  obtain x ys where xs: "xs = x # ys" using assms(2) by (cases xs) auto
  have nx: "mapr_items [x] = []" "line_items [x] = []" "payload_items [x] = []" "mapr_items ys = []" "line_items ys = []" "payload_items ys = []"
    using assms(3-5) unfolding xs single[of x ys] by simp_all
  obtain m where m: "x = (None, ServerItem m)" "server_items [x] = [m]" using server[of x] nx(1-3) xs by auto
  have "m = ''OK''" and ys: "server_items ys = [syn_close]" using assms(2) m(2) unfolding xs single[of x ys] by simp_all
  obtain y zs where y: "ys = y # zs" using ys by (cases ys) auto
  have ny: "mapr_items [y] = []" "line_items [y] = []" "payload_items [y] = []" "mapr_items zs = []" "line_items zs = []" "payload_items zs = []"
    using nx(4-6) unfolding y single[of y zs] by simp_all
  obtain n where n: "y = (None, ServerItem n)" "server_items [y] = [n]" using server[of y] ny(1-3) xs y by auto
  have "n = syn_close" and zs: "server_items zs = []" using ys n(2) unfolding y single[of y zs] by simp_all
  have "zs = []"
  proof (cases zs)
    case (Cons z us)
    have nz: "mapr_items [z] = []" "line_items [z] = []" "payload_items [z] = []" using ny(4-6) unfolding Cons single[of z us] by simp_all
    obtain k where "server_items [z] = [k]" using server[of z] nz xs y Cons by auto
    then show ?thesis using zs unfolding Cons single[of z us] by simp
  qed simp
  then show ?thesis
    using answer_frames[of h] assms(1) \<open>m = ''OK''\<close> \<open>n = syn_close\<close> m(1) n(1)
    by (simp add: xs y item_bytes_def frame_bytes_def answered_def)
qed

lemma last_split: "c \<notin> set b \<Longrightarrow> last (split [c] (a @ [c] @ b)) = b"
proof (induction "length a" arbitrary: a rule: less_induct)
  case less
  show ?case
  proof (cases "c \<in> set a")
    case True
    then obtain x y where a: "a = x @ c # y" "c \<notin> set x" by (meson split_list_first)
    have "split [c] (x @ [c] @ (y @ [c] @ b)) = x # split [c] (y @ [c] @ b)"
      using a(2) by (intro split_append) (simp_all add: contains_single)
    then show ?thesis using less.hyps[of y] less.prems by (simp add: a(1))
  next
    case False
    then have "split [c] (a @ [c] @ b) = a # split [c] b" by (intro split_append) (simp_all add: contains_single)
    then show ?thesis using less.prems by (simp add: split_None contains_single)
  qed
qed

lemma health_write_answer:
  assumes "message_delimiter \<notin> set host" "CHR 0x0A \<notin> set host" "ce_send cenv = Taken"
  shows "health_write cenv (ok_line host @ [message_delimiter] @ syn_close @ [message_delimiter]) (new_health_handler server) =
    (new_health_handler server)\<lparr>ch_status := 0, ch_commands := [command_frame ''.ack close connection''], ch_done := True\<rparr>"
proof -
  let ?c = "new_health_handler server"
  have ok: "message_delimiter \<notin> set (ok_line host)" "CHR 0x0A \<notin> set (ok_line host)"
    using assms(1,2) by (simp_all add: ok_line_def field_delimiter_def message_delimiter_def)
  have syn: "message_delimiter \<notin> set syn_close" "CHR 0x0A \<notin> set syn_close" by (simp_all add: syn_close_def message_delimiter_def)
  have "last (split field_delimiter (ok_line host)) = ''OK''"
  proof -
    have o: "ok_line host = (''SERVER'' @ field_delimiter @ host) @ field_delimiter @ ''OK''" by (simp add: ok_line_def)
    show ?thesis unfolding o field_delimiter_def by (rule last_split) simp
  qed
  then have h1: "handle_health_message cenv (ok_line host) k = k\<lparr>ch_status := 0\<rparr>" for k :: client_handler
    by (simp add: handle_health_message_def ok_line_def)
  have h2: "handle_health_message cenv syn_close k = client_shutdown (k\<lparr>ch_commands := ch_commands k @ [command_frame ''.ack close connection'']\<rparr>)"
    for k :: client_handler
    using assms(3)
    by (simp add: handle_health_message_def handle_hidden_message_def syn_close_def has_prefix_def send_message_def
        hidden_capabilities_prefix_def hidden_session_start_ok_prefix_def hidden_session_update_ok_prefix_def hidden_session_error_prefix_def)
  have 1: "health_write cenv (ok_line host @ [message_delimiter]) ?c = ?c\<lparr>ch_status := 0\<rparr>"
    using health_write_message[OF ok, of ?c cenv] by (simp add: h1 new_health_handler_def new_client_handler_def)
  show ?thesis
    unfolding append_assoc[symmetric, of "ok_line host"] health_write_append[of cenv "ok_line host @ [message_delimiter]"] 1
    using health_write_message[OF syn, of "?c\<lparr>ch_status := 0\<rparr>" cenv]
    by (simp add: h2 new_health_handler_def new_client_handler_def client_shutdown_def)
qed

text \<open>An output manager that is not in use takes no part in a read, so it can be taken for one with an empty queue.\<close>

definition idle :: "output_manager \<Rightarrow> bool" where
  "idle t \<longleftrightarrow> \<not> om_mode t \<and> om_buffer t = []"

lemma idle_loop:
  assumes "idle t" "idle u" "read_loop n False rs (h, t) = (x, h1, t1)"
  shows "t1 = t \<and> read_loop n False rs (h, u) = (x, h1, u)"
  using assms(3)
proof (induction rs arbitrary: h)
  case Nil
  then show ?case by simp
next
  case (Cons r rs)
  have d: "try_read n (rr_active r) (rr_late r) (rr_later r) (rr_now r) v = (Declined, v)" if "idle v" for v
    using that by (simp add: idle_def try_read_def)
  obtain f k where f: "select_message (rr_active r) (rr_ready r) h = (f, k)" by fastforce
  show ?case
  proof (cases f)
    case (Frame b)
    then show ?thesis using Cons f d[OF assms(1)] d[OF assms(2)] by (cases b) (auto split: prod.splits)
  qed (use Cons.prems f d[OF assms(1)] d[OF assms(2)] in auto)
qed

lemma idle_read:
  assumes "idle t" "idle u" "handler_read n rs (h, t) = (x, h1, t1)"
  shows "t1 = t \<and> handler_read n rs (h, u) = (x, h1, u)"
  using assms idle_loop[OF assms(1,2)] by (auto simp: handler_read_def split: if_splits prod.splits)

lemma idle_session:
  assumes "idle t" "idle u" "quiet_reads active steps" "read_session steps (h, t) = Some (out, h1, t1)"
  shows "t1 = t \<and> read_session steps (h, u) = Some (out, h1, u)"
  using assms(3,4)
proof (induction steps arbitrary: h out)
  case Nil
  then show ?case by simp
next
  case (Cons step steps)
  obtain n rs where step: "step = (no_arrivals, n, rs)" and q: "quiet_reads active steps"
    using Cons.prems(1) by (cases step) (auto simp: quiet_reads_def)
  obtain x k t2 where r: "handler_read n rs (h, t) = (x, k, t2)" by (metis prod_cases3)
  note i = idle_read[OF assms(1,2) r]
  obtain bs eof where x: "x = Some (bs, eof)" using Cons.prems(2) r step by (cases x) auto
  obtain out1 where o: "out = bs @ out1" "read_session steps (k, t) = Some (out1, h1, t1)"
    using Cons.prems(2) r step x i by (auto split: option.splits)
  from Cons.IH[OF q o(2)] show ?case using i r step x o(1) by simp
qed

subsection \<open>The check\<close>

lemma answer_read:
  assumes "answered h" and reads: "quiet_reads None steps" "read_session steps (h, new_output_manager) = Some (out, s)" "drained s"
  shows "out = ok_line (h_hostname h) @ [message_delimiter] @ syn_close @ [message_delimiter]"
proof -
  obtain h2 t2 where s: "s = (h2, t2)" by (cases s)
  have none: "concat (map (\<lambda>(a, _). F a) steps) = []" if "F no_arrivals = []" for F :: "arrivals \<Rightarrow> 'x list"
    using reads(1) that by (auto simp: quiet_reads_def)
  have aq: "\<forall>(a, n, rs)\<in>set steps. \<forall>r\<in>set rs. quiet_round r \<and> rr_active r \<in> {None}" using reads(1) by (auto simp: quiet_reads_def)
  let ?u = "new_output_manager\<lparr>om_lines := Some []\<rparr>"
  have idle: "idle new_output_manager" "idle ?u" by (simp_all add: idle_def new_output_manager_def)
  note u = idle_session[OF idle reads(1) reads(2)[unfolded s]]
  have o: "one_begun (h, ?u)" "queued ?u = []" "begun (h, ?u) = []"
    using assms(1) by (simp_all add: one_begun_def begun_def queued_def new_output_manager_def answered_def)
  obtain xs where xs: "fst ` set xs \<subseteq> {None}" "out @ begun (h2, ?u) = begun (h, ?u) @ concat (map (item_bytes h) xs)"
    "h_server_messages h = server_items xs @ h_server_messages h2" "h_mapr_messages h = mapr_items xs @ h_mapr_messages h2"
    "h_lines h = line_items xs @ h_lines h2" "queued ?u = payload_items xs @ queued ?u"
    using read_session_hands_out[OF u[THEN conjunct2] aq o(1)] none[of ar_server] none[of ar_mapr] none[of ar_lines] none[of ar_payloads]
    by (auto simp: no_arrivals_def)
  have d: "begun (h2, ?u) = []" "h_server_messages h2 = []" using reads(3) s by (simp_all add: drained_def begun_def new_output_manager_def)
  have out: "out = concat (map (item_bytes h) xs)" using xs(2) d(1) o(3) by simp
  have "server_items xs = [''OK'', syn_close]" "mapr_items xs = []" "line_items xs = []" "payload_items xs = []"
    using xs(3-6) d(2) o(2) assms(1) by (simp_all add: answered_def)
  from answer_items[OF assms(1) this xs(1)] show ?thesis using out by simp
qed

lemma answer_can_be_read:
  assumes "answered h"
  shows "\<exists>steps out s. quiet_reads None steps \<and> read_session steps (h, new_output_manager) = Some (out, s) \<and> drained s"
proof -
  let ?t = new_output_manager
  let ?f = "ok_line (h_hostname h) @ [message_delimiter]" and ?g = "syn_close @ [message_delimiter]"
  let ?h1 = "h\<lparr>h_server_messages := [syn_close]\<rparr>" and ?h2 = "h\<lparr>h_server_messages := []\<rparr>"
  have t: "try_read n None [] [] 0 ?t = (Declined, ?t)" for n by (simp add: try_read_def new_output_manager_def)
  note fr = answer_frames[of h] answer_frames(2)[of ?h1]
  have a: "h_server_messages h = [''OK'', syn_close]" "h_read_buf h = []" "\<not> h_serverless h" "\<not> h_plain h" using assms by (simp_all add: answered_def)
  have 1: "handler_read (length ?f) [plain_round None FromServer] (h, ?t) = (Some (?f, False), ?h1, ?t)"
    using a t fr by (simp add: handler_read_def select_message_def Let_def drain_read_buf_def)
  have 2: "handler_read (length ?g) [plain_round None FromServer] (?h1, ?t) = (Some (?g, False), ?h2, ?t)"
    using a t fr by (simp add: handler_read_def select_message_def Let_def drain_read_buf_def)
  have "read_session [(no_arrivals, length ?f, [plain_round None FromServer]), (no_arrivals, length ?g, [plain_round None FromServer])] (h, ?t) =
      Some (?f @ ?g, ?h2, ?t)"
    by (simp only: read_session.simps arrive_none 1 2 option.case prod.case append_Nil2)
  moreover have "drained (?h2, ?t)" using a by (simp add: drained_def queued_def new_output_manager_def)
  moreover have "quiet_reads None [(no_arrivals, length ?f, [plain_round None FromServer]), (no_arrivals, length ?g, [plain_round None FromServer])]"
    by (simp add: quiet_reads_def)
  ultimately show ?thesis by blast
qed

definition health_exit :: "client_handler \<Rightarrow> bool \<Rightarrow> gostr \<Rightarrow> gostr \<times> int" where
  "health_exit c serverless servers = health_start (run_connections [ch_status c]) serverless servers"

text \<open>
  C40: A health check of a server that answers is a success. The command of the client arrives however its bytes are
  cut; the health handler queues its answer and the request to close; whatever the buffers of the reads of the server
  are, and however the bytes arrive at the client, the handler of the client then acknowledges the end, is done, and the
  program ends with status 0 - or with the warning of a check that has asked no remote server. Before any answer
  the result is critical.
\<close>

theorem health_check_passes:
  assumes sent: "concat up = command_frame ''health''"
    and limit: "case max_frame of None \<Rightarrow> True | Some n \<Rightarrow> n \<le> 0 \<or> int (length (command_frame ''health'')) \<le> n + 1"
    and host: "message_delimiter \<notin> set fqdn" "CHR 0x0A \<notin> set fqdn"
    and received: "write_chunks (handle_health_command env) env up (new_server_health_handler user fqdn max_frame store) = (h, e)"
    and taken: "ce_send cenv = Taken"
  shows "\<not> e \<and>
    (\<exists>steps out s. quiet_reads None steps \<and> read_session steps (h, new_output_manager) = Some (out, s) \<and> drained s) \<and>
    (\<forall>steps out s down. quiet_reads None steps \<and> read_session steps (h, new_output_manager) = Some (out, s) \<and> drained s \<and> concat down = out \<longrightarrow>
      (let c0 = new_health_handler server; c = foldl (\<lambda>c bs. health_write cenv bs c) c0 down in
       ch_done c \<and> ch_commands c = [command_frame ''.ack close connection''] \<and>
       health_exit c False servers = (''OK: All fine at '' @ servers @ '' :-)'', 0) \<and> snd (health_exit c True servers) = 1 \<and>
       snd (health_exit c0 False servers) = 2))"
proof -
  have a: "answered h" "\<not> e" "h_hostname h = hd (split ''.'' fqdn)" using health_answered[OF sent limit received] by simp_all
  have part: "set (hd (split ''.'' fqdn)) \<subseteq> set fqdn"
  proof (cases "cut ''.'' fqdn")
    case None
    then show ?thesis by (subst split.simps) simp
  next
    case (Some ab)
    then show ?thesis using cut_Some[of "''.''" fqdn "fst ab" "snd ab"] by (subst split.simps) (cases ab, auto)
  qed
  have clean: "message_delimiter \<notin> set (h_hostname h)" "CHR 0x0A \<notin> set (h_hostname h)" using part host a(3) by auto
  have fold: "foldl (\<lambda>c bs. health_write cenv bs c) c bss = health_write cenv (concat bss) c" for c :: client_handler and bss
    by (induction bss arbitrary: c) (simp_all add: health_write_append)
  have "let c0 = new_health_handler server; c = foldl (\<lambda>c bs. health_write cenv bs c) c0 down in
       ch_done c \<and> ch_commands c = [command_frame ''.ack close connection''] \<and>
       health_exit c False servers = (''OK: All fine at '' @ servers @ '' :-)'', 0) \<and> snd (health_exit c True servers) = 1 \<and>
       snd (health_exit c0 False servers) = 2"
    if reads: "quiet_reads None steps" "read_session steps (h, new_output_manager) = Some (out, s)" "drained s" and down: "concat down = out"
    for steps out s down
  proof -
    have bytes: "concat down = ok_line (h_hostname h) @ [message_delimiter] @ syn_close @ [message_delimiter]"
      using answer_read[OF a(1) reads] down by simp
    have "foldl (\<lambda>c bs. health_write cenv bs c) (new_health_handler server) down =
      (new_health_handler server)\<lparr>ch_status := 0, ch_commands := [command_frame ''.ack close connection''], ch_done := True\<rparr>"
      using health_write_answer[OF clean taken, of server] by (simp add: fold bytes)
    then show ?thesis
      by (simp add: Let_def health_exit_def run_connections_def health_start_def new_health_handler_def)
  qed
  then show ?thesis using a(2) answer_can_be_read[OF a(1)] by blast
qed

lemma health_check_passes_witness:
  "\<exists>steps out s h. write_chunks (handle_health_command sample_env) sample_env [command_frame ''health'']
       (new_server_health_handler ''DTAIL-HEALTH'' ''h.example'' None (new_auth_key_store 0 0)) = (h, False) \<and>
     read_session steps (h, new_output_manager) = Some (out, s) \<and>
     health_exit (foldl (\<lambda>c bs. health_write \<lparr>ce_send = Taken, ce_done_wins = False\<rparr> bs c) (new_health_handler ''h.example'') [out]) False ''h.example'' =
       (''OK: All fine at h.example :-)'', 0)"
proof -
  obtain h e where r: "write_chunks (handle_health_command sample_env) sample_env [command_frame ''health'']
       (new_server_health_handler ''DTAIL-HEALTH'' ''h.example'' None (new_auth_key_store 0 0)) = (h, e)" by fastforce
  have up: "concat [command_frame ''health''] = command_frame ''health''" by simp
  have host: "message_delimiter \<notin> set ''h.example''" "CHR 0x0A \<notin> set ''h.example''" by (simp_all add: message_delimiter_def)
  note c = health_check_passes[OF up _ host r, where cenv = "\<lparr>ce_send = Taken, ce_done_wins = False\<rparr>" and server = "''h.example''" and servers = "''h.example''", simplified option.case client_env.simps, OF TrueI refl]
  obtain steps out s where st: "quiet_reads None steps" "read_session steps (h, new_output_manager) = Some (out, s)" "drained s"
    using c by blast
  have e: "\<not> e" using c by blast
  have "health_exit (foldl (\<lambda>c bs. health_write \<lparr>ce_send = Taken, ce_done_wins = False\<rparr> bs c) (new_health_handler ''h.example'') [out]) False ''h.example'' =
      (''OK: All fine at '' @ ''h.example'' @ '' :-)'', 0)"
    using c[THEN conjunct2, THEN conjunct2, rule_format, of steps out s "[out]"] st by (simp add: Let_def)
  then show ?thesis using r st(2) e by (intro exI[of _ steps] exI[of _ out] exI[of _ s] exI[of _ h]) simp
qed

end
