(* ===== verification/Map_Run.thy ===== *)
theory Map_Run
  imports Map_Server
begin

text \<open>
  The life of the aggregate of a server (\<open>Start\<close>, \<open>serializationLoop\<close>, \<open>Serialize\<close> and the callers of \<open>Shutdown\<close> in
  \<open>internal/mapr/server/aggregate.go\<close>): the goroutines that serialize, the processors that feed lines and the end of the
  input, in any order. What a serialization does is cut at its two locks: the swap of the group sets, and the
  insertion of what could not be sent.
\<close>

subsection \<open>A serialization in two steps\<close>

definition swap_group_sets :: "server_aggregate \<Rightarrow> server_aggregate \<times> group_set" where
  "swap_group_sets a = (a\<lparr>sa_groups := []\<rparr>, sa_groups a)"

definition begin_serialize :: "server_aggregate \<Rightarrow> (server_aggregate \<times> group_set) option" where
  "begin_serialize a =
     map_option (\<lambda>a1. if sa_messages a1 = None then (a1, []) else (case swap_group_sets a1 of (a2, snapshot) \<Rightarrow> (a2, copy_map snapshot)))
       (process_batch a)"

definition finish_serialize :: "(gostr \<Rightarrow> bool) \<Rightarrow> group_set \<Rightarrow> server_aggregate \<Rightarrow> server_aggregate" where
  "finish_serialize accepted snapshot a =
     (case serialize_group accepted snapshot (the (sa_messages a)) of
        (remaining, ch) \<Rightarrow>
          a\<lparr>sa_messages := Some ch,
             sa_groups := (if remaining = [] then sa_groups a else merge_remaining (sa_query a) (sa_groups a) remaining)\<rparr>)"

text \<open>Nothing else happens between the two but the arrival of lines: this is the whole operation.\<close>

lemma do_serialize_in_two_steps:
  assumes wf: "\<And>a1. process_batch a = Some a1 \<Longrightarrow> gomap_wf (sa_groups a1)"
  shows "do_serialize accepted arrived a =
    (case begin_serialize a of
       None \<Rightarrow> None
     | Some (a2, snapshot) \<Rightarrow> Some (if snapshot = [] then a2 else finish_serialize accepted snapshot (a2\<lparr>sa_groups := arrived\<rparr>)))"
proof (cases "process_batch a")
  case None
  then show ?thesis by (simp add: do_serialize_def begin_serialize_def)
next
  case (Some a1)
  then have g: "copy_map (sa_groups a1) = sa_groups a1" by (intro copy_map_id wf)
  show ?thesis
    using Some by (auto simp: do_serialize_def begin_serialize_def swap_group_sets_def finish_serialize_def g split: option.splits prod.splits)
qed

subsection \<open>The state\<close>

text \<open>
  \<open>Start\<close> is not called yet, waits, is in its own call of \<open>Shutdown\<close>, waits for the loop, or has returned; the loop
  waits for something to do, tries to put a request into the full channel, serializes, or is over.
\<close>

datatype start_phase = NotStarted | Serving | Draining | Emitting | AwaitingLoop | StartReturned

datatype loop_phase = LoopOff | LoopSelecting | LoopPutting | LoopSending | LoopOver

datatype sender = LoopSends | StartSends | OtherSends

text \<open>
  The processors are their flags \<open>flushed\<close> and \<open>closed\<close>; \<open>al_others\<close> counts the calls of \<open>Shutdown\<close> by others that have
  not got the lock yet. The given lines, the sent sets, whether a send was refused, and whether \<open>Start\<close> has drained the
  aggregate are recorded.
\<close>

record aggregate_life =
  al_aggregate :: server_aggregate
  al_cancelled :: bool
  al_ticker :: bool
  al_request :: bool
  al_phase :: start_phase
  al_loop :: loop_phase
  al_others :: nat
  al_sending :: "(sender \<times> group_set) option"
  al_processors :: "(bool \<times> bool) list"
  al_given :: "(gostr \<times> gostr) list"
  al_sent :: group_set
  al_refused :: bool
  al_drained :: bool

definition new_aggregate_life :: "server_aggregate \<Rightarrow> aggregate_life" where
  "new_aggregate_life a =
     \<lparr>al_aggregate = a, al_cancelled = False, al_ticker = False, al_request = False, al_phase = NotStarted, al_loop = LoopOff,
      al_others = 0, al_sending = None, al_processors = [], al_given = [], al_sent = [], al_refused = False, al_drained = False\<rparr>"

definition processor_of :: "aggregate_life \<Rightarrow> nat \<Rightarrow> aggregate_processor" where
  "processor_of v i = \<lparr>ap_aggregate = al_aggregate v, ap_flushed = fst (al_processors v ! i), ap_closed = snd (al_processors v ! i)\<rparr>"

definition put_processor :: "nat \<Rightarrow> aggregate_processor \<Rightarrow> aggregate_life \<Rightarrow> aggregate_life" where
  "put_processor i p v =
     v\<lparr>al_aggregate := ap_aggregate p, al_processors := (al_processors v)[i := (ap_flushed p, ap_closed p)]\<rparr>"

definition stop :: "aggregate_life \<Rightarrow> aggregate_life" where
  "stop v = v\<lparr>al_aggregate := abort (al_aggregate v), al_ticker := False\<rparr>"

text \<open>The sets that a serialization has in flight when it is begun, if there are any.\<close>

definition begin_send :: "sender \<Rightarrow> aggregate_life \<Rightarrow> aggregate_life option" where
  "begin_send who v =
     map_option (\<lambda>(a, snapshot). v\<lparr>al_aggregate := a, al_sending := (if snapshot = [] then None else Some (who, snapshot))\<rparr>)
       (begin_serialize (al_aggregate v))"

definition end_send :: "(gostr \<Rightarrow> bool) \<Rightarrow> group_set \<Rightarrow> aggregate_life \<Rightarrow> aggregate_life" where
  "end_send accepted snapshot v =
     (let remaining = fst (serialize_group accepted snapshot (the (sa_messages (al_aggregate v)))) in
      v\<lparr>al_aggregate := finish_serialize accepted snapshot (al_aggregate v), al_sending := None,
         al_sent := al_sent v @ take (length snapshot - length remaining) snapshot, al_refused := (al_refused v \<or> remaining \<noteq> [])\<rparr>)"

definition take_tick :: "aggregate_life \<Rightarrow> aggregate_life" where
  "take_tick v = (if al_request v then v\<lparr>al_loop := LoopPutting\<rparr> else v\<lparr>al_request := True\<rparr>)"

definition after_send :: "sender \<Rightarrow> aggregate_life \<Rightarrow> aggregate_life" where
  "after_send who v =
     (case who of
        LoopSends \<Rightarrow> v\<lparr>al_loop := LoopSelecting\<rparr>
      | StartSends \<Rightarrow> v\<lparr>al_phase := AwaitingLoop, al_drained := True\<rparr>
      | OtherSends \<Rightarrow> v)"

text \<open>A caller of \<open>Shutdown\<close> goes on when all processors are closed: it works off the batch and serializes.\<close>

definition drain :: "sender \<Rightarrow> aggregate_life \<Rightarrow> aggregate_life option" where
  "drain who v =
     (case process_batch (al_aggregate v) of
        None \<Rightarrow> None
      | Some a \<Rightarrow>
          map_option (\<lambda>v1. if al_sending v1 = None then after_send who v1 else v1) (begin_send who (v\<lparr>al_aggregate := a\<rparr>)))"

inductive life_step :: "aggregate_life \<Rightarrow> aggregate_life \<Rightarrow> bool" where
  start: "al_phase v = NotStarted \<Longrightarrow> al_sending v = None \<Longrightarrow>
    life_step v (v\<lparr>al_aggregate := (al_aggregate v)\<lparr>sa_messages := Some []\<rparr>, al_ticker := True, al_phase := Serving, al_loop := LoopSelecting\<rparr>)"
| open_processor:
    "life_step v (v\<lparr>al_aggregate := ap_aggregate (new_aggregate_processor (al_aggregate v)), al_processors := al_processors v @ [(False, False)]\<rparr>)"
| give: "i < length (al_processors v) \<Longrightarrow> \<not> snd (al_processors v ! i) \<Longrightarrow> ap_process_line (processor_of v i) line src = Some p \<Longrightarrow>
    life_step v (put_processor i p v\<lparr>al_given := (if sa_done (al_aggregate v) then al_given v else al_given v @ [(line, src)])\<rparr>)"
| flush_processor: "i < length (al_processors v) \<Longrightarrow> ap_flush (processor_of v i) = Some p \<Longrightarrow> life_step v (put_processor i p v)"
| close_processor: "i < length (al_processors v) \<Longrightarrow> ap_close (processor_of v i) = Some p \<Longrightarrow> life_step v (put_processor i p v)"
| finish: "life_step v (v\<lparr>al_aggregate := finish_input (al_aggregate v)\<rparr>)"
| ask: "\<not> al_request v \<Longrightarrow> life_step v (v\<lparr>al_request := True\<rparr>)"
| cancel: "life_step v (v\<lparr>al_cancelled := True\<rparr>)"
| abort_all: "life_step v (stop v)"
| tick: "al_loop v = LoopSelecting \<Longrightarrow> al_ticker v \<Longrightarrow> life_step v (take_tick v)"
| put_request: "al_loop v = LoopPutting \<Longrightarrow> \<not> al_request v \<Longrightarrow> life_step v (v\<lparr>al_request := True, al_loop := LoopSelecting\<rparr>)"
| give_up: "al_loop v = LoopPutting \<Longrightarrow> life_step v (v\<lparr>al_loop := LoopSelecting\<rparr>)"
| loop_sends: "al_loop v = LoopSelecting \<Longrightarrow> al_request v \<Longrightarrow> al_sending v = None \<Longrightarrow>
    begin_send LoopSends (v\<lparr>al_request := False\<rparr>) = Some v1 \<Longrightarrow>
    life_step v (if al_sending v1 = None then v1 else v1\<lparr>al_loop := LoopSending\<rparr>)"
| loop_ends: "al_loop v = LoopSelecting \<Longrightarrow> sa_done (al_aggregate v) \<or> al_cancelled v \<Longrightarrow> life_step v (v\<lparr>al_loop := LoopOver\<rparr>)"
| leave: "al_phase v = Serving \<Longrightarrow> sa_done (al_aggregate v) \<or> al_cancelled v \<Longrightarrow>
    life_step v (v\<lparr>al_aggregate := abort (al_aggregate v), al_phase := AwaitingLoop\<rparr>)"
| input_over: "al_phase v = Serving \<Longrightarrow> sa_input_finished (al_aggregate v) \<Longrightarrow> life_step v ((stop v)\<lparr>al_phase := Draining\<rparr>)"
| start_drains: "al_phase v = Draining \<Longrightarrow> processors_wg (al_aggregate v) = 0 \<Longrightarrow> al_sending v = None \<Longrightarrow>
    drain StartSends (v\<lparr>al_phase := Emitting\<rparr>) = Some v1 \<Longrightarrow> life_step v v1"
| others_stop: "life_step v ((stop v)\<lparr>al_others := al_others v + 1\<rparr>)"
| others_drain: "0 < al_others v \<Longrightarrow> processors_wg (al_aggregate v) = 0 \<Longrightarrow> al_sending v = None \<Longrightarrow>
    drain OtherSends (v\<lparr>al_others := al_others v - 1\<rparr>) = Some v1 \<Longrightarrow> life_step v v1"
| sent: "al_sending v = Some (who, snapshot) \<Longrightarrow> life_step v (after_send who (end_send accepted snapshot v))"
| return_start: "al_phase v = AwaitingLoop \<Longrightarrow> al_loop v = LoopOver \<Longrightarrow>
    life_step v (v\<lparr>al_ticker := False, al_phase := StartReturned\<rparr>)"

inductive life_reaches :: "aggregate_life \<Rightarrow> aggregate_life \<Rightarrow> bool" for v0 where
  born: "life_reaches v0 v0"
| live: "life_reaches v0 v \<Longrightarrow> life_step v v' \<Longrightarrow> life_reaches v0 v'"

subsection \<open>Samples of lines\<close>

lemma aggregate_error_same: "snd (aggregate s k agg v client) = snd (aggregate s' k agg v client)"
  by (auto simp: aggregate_def aggregate_float_def split: aggregate_operation.splits prod.splits option.splits)

lemma aggregate_samples: "samples (fst (aggregate s k agg v client)) = samples s"
  by (auto simp: aggregate_def aggregate_float_def add_float_def add_float_min_def add_float_max_def set_float_def set_string_def
      split: aggregate_operation.splits prod.splits option.splits)

lemma get_set_samples:
  assumes "get_set g key = (g', s)" and "gomap_wf g"
  shows "gomap_wf g'" "total_samples g' = total_samples g" "map_of g' key = Some s"
  using assms by (auto simp: get_set_def total_samples_update new_aggregate_set_def update_conv' split: option.splits)

text \<open>The columns that a line has a value for.\<close>

definition column_hit :: "field_map \<Rightarrow> select_condition \<Rightarrow> bool" where
  "column_hit fs sc =
     (case map_of fs (sc_field sc) of None \<Rightarrow> False
      | Some v \<Rightarrow> snd (aggregate new_aggregate_set (field_storage sc) (sc_operation sc) v False) = None)"

lemma aggregate_columns_samples:
  assumes "gomap_wf g" and "added \<longrightarrow> map_of g key \<noteq> None"
  shows "gomap_wf (fst (aggregate_columns key fs scs g added)) \<and>
    total_samples (fst (aggregate_columns key fs scs g added)) = total_samples g \<and>
    snd (aggregate_columns key fs scs g added) = (added \<or> (\<exists>sc\<in>set scs. column_hit fs sc)) \<and>
    (snd (aggregate_columns key fs scs g added) \<longrightarrow> map_of (fst (aggregate_columns key fs scs g added)) key \<noteq> None)"
  using assms
proof (induction scs arbitrary: g added)
  case Nil
  then show ?case by auto
next
  case (Cons sc scs)
  show ?case
  proof (cases "map_of fs (sc_field sc)")
    case None
    have "\<not> column_hit fs sc" and c: "aggregate_columns key fs (sc # scs) g added = aggregate_columns key fs scs g added"
      using None by (simp_all add: column_hit_def)
    then show ?thesis using Cons.IH[OF Cons.prems] unfolding c by (simp del: not_None_eq)
  next
    case (Some v)
    obtain g1 s where g1: "get_set g key = (g1, s)" by fastforce
    obtain s1 e where s1: "aggregate s (field_storage sc) (sc_operation sc) v False = (s1, e)" by fastforce
    note gs = get_set_samples[OF g1 Cons.prems(1)]
    have "samples s1 = samples s" using aggregate_samples[of s "field_storage sc" "sc_operation sc" v False] s1 by simp
    then have g2: "gomap_wf (AList.update key s1 g1)" "total_samples (AList.update key s1 g1) = total_samples g"
      using gs by (simp_all add: total_samples_update)
    have e: "column_hit fs sc = (e = None)"
      using aggregate_error_same[of s "field_storage sc" "sc_operation sc" v False new_aggregate_set] s1 Some by (auto simp: column_hit_def)
    have c: "aggregate_columns key fs (sc # scs) g added = aggregate_columns key fs scs (AList.update key s1 g1) (added \<or> e = None)"
      using Some g1 s1 by (cases e) simp_all
    have "map_of (AList.update key s1 g1) key \<noteq> None" by (simp add: update_conv')
    from Cons.IH[OF g2(1), of "added \<or> e = None"] this show ?thesis unfolding c g2(2) by (simp add: e del: not_None_eq)
  qed
qed

definition line_samples :: "query \<Rightarrow> field_map \<Rightarrow> int" where
  "line_samples q fs = (if \<exists>sc\<in>set (q_select q). column_hit fs sc then 1 else 0)"

lemma aggregate_fields_samples:
  assumes "gomap_wf g"
  shows "gomap_wf (aggregate_fields q g fs) \<and>
    wrap64 (total_samples (aggregate_fields q g fs)) = wrap64 (total_samples g + line_samples q fs)"
proof -
  let ?k = "build_group_key (group_by q) fs"
  obtain g1 b where g1: "aggregate_columns ?k fs (q_select q) g False = (g1, b)" by fastforce
  note c = aggregate_columns_samples[OF assms, of False ?k fs "q_select q", unfolded g1, simplified]
  show ?thesis
  proof (cases b)
    case False
    then show ?thesis using c g1 by (auto simp: aggregate_fields_def Let_def line_samples_def)
  next
    case True
    then obtain s where s: "map_of g1 ?k = Some s" using c by auto
    have "wrap64 (total_samples g1 + wrap64 (samples s + 1) - samples s) = wrap64 (total_samples g1 + 1)"
      using wrap64_add[of "samples s + 1" "total_samples g1 - samples s"] by (simp add: algebra_simps)
    then show ?thesis using True c s g1
      by (auto simp: aggregate_fields_def Let_def line_samples_def total_samples_update increment_samples_def)
  qed
qed

text \<open>A batch adds the same samples to whatever groups there are.\<close>

lemma process_line_samples:
  assumes "process_line q p g line src = Some (p', g', e)" and "gomap_wf g"
  shows "gomap_wf g' \<and> (\<exists>d. wrap64 (total_samples g') = wrap64 (total_samples g + d) \<and>
    (\<forall>h. gomap_wf h \<longrightarrow> (\<exists>h'. process_line q p h line src = Some (p', h', e) \<and> gomap_wf h' \<and>
      wrap64 (total_samples h') = wrap64 (total_samples h + d))))"
proof -
  consider (same) "g' = g" "\<And>h. process_line q p h line src = Some (p', h, e)"
    | (added) fs where "g' = aggregate_fields q g fs" "\<And>h. process_line q p h line src = Some (p', aggregate_fields q h fs, e)"
    using assms(1) by (auto simp: process_line_def split: option.splits prod.splits sum.splits if_splits)
  then show ?thesis
  proof cases
    case same
    then show ?thesis using assms(2) by (intro conjI exI[of _ 0]) auto
  next
    case added
    show ?thesis using aggregate_fields_samples[OF assms(2)] aggregate_fields_samples
      by (intro conjI exI[of _ "line_samples q fs"]) (auto simp: added)
  qed
qed

lemma process_raw_batch_samples:
  assumes "process_raw_batch q (p, g, n) xs = Some (p', g', n')" and "gomap_wf g"
  shows "gomap_wf g' \<and> (\<exists>d. wrap64 (total_samples g') = wrap64 (total_samples g + d) \<and>
    (\<forall>h. gomap_wf h \<longrightarrow> (\<exists>h'. process_raw_batch q (p, h, n) xs = Some (p', h', n') \<and> gomap_wf h' \<and>
      wrap64 (total_samples h') = wrap64 (total_samples h + d))))"
  using assms
proof (induction xs arbitrary: p g n)
  case Nil
  then show ?case by (intro conjI exI[of _ 0]) auto
next
  case (Cons x xs)
  obtain line src where x: "x = (line, src)" by (cases x)
  obtain p1 g1 e where l: "process_line q p g line src = Some (p1, g1, e)"
    using Cons.prems(1) by (auto simp: x batch_step_def split: option.splits)
  let ?n = "if e = None then n else n + 1"
  obtain d1 where wf1: "gomap_wf g1" and d1: "wrap64 (total_samples g1) = wrap64 (total_samples g + d1)"
    and a1: "\<And>h. gomap_wf h \<Longrightarrow> \<exists>h'. process_line q p h line src = Some (p1, h', e) \<and> gomap_wf h' \<and>
      wrap64 (total_samples h') = wrap64 (total_samples h + d1)"
    using process_line_samples[OF l Cons.prems(2)] by auto
  have rest: "process_raw_batch q (p1, g1, ?n) xs = Some (p', g', n')" using Cons.prems(1) l by (simp add: x batch_step_def)
  obtain d2 where wf2: "gomap_wf g'" and d2: "wrap64 (total_samples g') = wrap64 (total_samples g1 + d2)"
    and a2: "\<And>h. gomap_wf h \<Longrightarrow> \<exists>h'. process_raw_batch q (p1, h, ?n) xs = Some (p', h', n') \<and> gomap_wf h' \<and>
      wrap64 (total_samples h') = wrap64 (total_samples h + d2)"
    using Cons.IH[OF rest wf1] by auto
  have sum: "wrap64 (x + d2) = wrap64 (y + (d1 + d2))" if "wrap64 x = wrap64 (y + d1)" for x y
    using wrap64_add[of x d2] wrap64_add[of "y + d1" d2] that by (simp add: algebra_simps)
  have "\<exists>h'. process_raw_batch q (p, h, n) (x # xs) = Some (p', h', n') \<and> gomap_wf h' \<and>
      wrap64 (total_samples h') = wrap64 (total_samples h + (d1 + d2))" if h: "gomap_wf h" for h
  proof -
    obtain h1 where h1: "process_line q p h line src = Some (p1, h1, e)" "gomap_wf h1"
      "wrap64 (total_samples h1) = wrap64 (total_samples h + d1)" using a1[OF h] by blast
    from a2[OF h1(2)] show ?thesis using h1(1) sum[OF h1(3)] by (auto simp: x batch_step_def)
  qed
  then show ?case using wf2 d2 sum[OF d1] by (intro conjI exI[of _ "d1 + d2"]) auto
qed

subsection \<open>The account of the samples\<close>

text \<open>
  The given lines are the evaluated ones and those of the batch; the parser and the errors are as after the evaluated
  lines; the groups and \<open>x\<close> other samples are as many as one evaluation of these lines gives.
\<close>

definition accounted :: "query \<Rightarrow> batch_view \<Rightarrow> (gostr \<times> gostr) list \<Rightarrow> int \<Rightarrow> server_aggregate \<Rightarrow> bool" where
  "accounted q start given x a \<longleftrightarrow> sa_query a = q \<and> gomap_wf (sa_groups a) \<and>
     (\<exists>evaluated g. given = evaluated @ sa_batch a \<and>
       process_raw_batch q start evaluated = Some (sa_parser a, g, sa_errors a) \<and>
       wrap64 (x + total_samples (sa_groups a)) = wrap64 (total_samples g) \<and> gomap_wf g)"

lemma accounted_same:
  assumes "accounted q start given x a" and "sa_query b = sa_query a" "sa_groups b = sa_groups a" "sa_batch b = sa_batch a"
    "sa_parser b = sa_parser a" "sa_errors b = sa_errors a"
  shows "accounted q start given x b"
  using assms by (simp add: accounted_def)

lemma accounted_batch:
  assumes "process_batch a = Some a'" and "accounted q start given x a"
  shows "accounted q start given x a'"
proof -
  obtain ev g where ev: "given = ev @ sa_batch a" and r: "process_raw_batch q start ev = Some (sa_parser a, g, sa_errors a)"
    and s: "wrap64 (x + total_samples (sa_groups a)) = wrap64 (total_samples g)" "gomap_wf g" and q: "sa_query a = q" "gomap_wf (sa_groups a)"
    using assms(2) by (auto simp: accounted_def)
  obtain p' g' n' where b: "process_raw_batch q (sa_parser a, sa_groups a, sa_errors a) (sa_batch a) = Some (p', g', n')"
    and a': "a' = a\<lparr>sa_batch := [], sa_parser := p', sa_groups := g', sa_errors := n'\<rparr>"
    using assms(1) q by (auto simp: process_batch_def view_of_def split: option.splits)
  obtain d h where w: "gomap_wf g'" "wrap64 (total_samples g') = wrap64 (total_samples (sa_groups a) + d)"
    and h: "process_raw_batch q (sa_parser a, g, sa_errors a) (sa_batch a) = Some (p', h, n')" "gomap_wf h"
      "wrap64 (total_samples h) = wrap64 (total_samples g + d)"
    using process_raw_batch_samples[OF b q(2)] s(2) by blast
  have "wrap64 (x + total_samples g') = wrap64 (x + total_samples (sa_groups a) + d)"
    using wrap64_add[of "total_samples g'" x] wrap64_add[of "total_samples (sa_groups a) + d" x] w(2) by (simp add: algebra_simps)
  also have "\<dots> = wrap64 (total_samples g + d)"
    using wrap64_add[of "x + total_samples (sa_groups a)" d] wrap64_add[of "total_samples g" d] s(1) by simp
  finally have "wrap64 (x + total_samples g') = wrap64 (total_samples h)" using h(3) by simp
  moreover have "process_raw_batch q start given = Some (p', h, n')" using r h(1) by (simp add: ev process_raw_batch_append)
  ultimately show ?thesis using w(1) h(2) q(1) by (simp add: accounted_def a')
qed

lemma accounted_line:
  assumes "process_line_direct a line src = Some a'" and "\<not> sa_done a" and "accounted q start given x a"
  shows "accounted q start (given @ [(line, src)]) x a'"
proof -
  have "accounted q start (given @ [(line, src)]) x (a\<lparr>lines_processed := lines_processed a + 1, sa_batch := sa_batch a @ [(line, src)]\<rparr>)"
    using assms(3) by (auto simp: accounted_def)
  from accounted_batch[OF _ this] this show ?thesis using assms(1,2)
    by (auto simp: process_line_direct_def Let_def split: if_splits)
qed

lemma accounted_give:
  assumes "ap_process_line p line src = Some p'" and "accounted q start given x (ap_aggregate p)"
  shows "accounted q start (if sa_done (ap_aggregate p) then given else given @ [(line, src)]) x (ap_aggregate p')"
  using assms accounted_line[where start=start] by (auto simp: ap_process_line_def split: if_splits)

lemma accounted_flush:
  assumes "ap_flush p = Some p'" and "accounted q start given x (ap_aggregate p)"
  shows "accounted q start given x (ap_aggregate p')"
proof (cases "sa_done (ap_aggregate p) \<or> ap_flushed p")
  case True
  then show ?thesis using assms by (auto simp: ap_flush_def)
next
  case False
  then obtain a where a: "process_batch (ap_aggregate p) = Some a" and p': "ap_aggregate p' = a\<lparr>files_processed := files_processed a + 1\<rparr>"
    using assms(1) by (auto simp: ap_flush_def)
  show ?thesis unfolding p' by (rule accounted_same[OF accounted_batch[OF a assms(2)]]) simp_all
qed

lemma accounted_close:
  assumes "ap_close p = Some p'" and "accounted q start given x (ap_aggregate p)"
  shows "accounted q start given x (ap_aggregate p')"
proof -
  obtain p1 where p1: "ap_flush p = Some p1" using assms(1) by (auto simp: ap_close_def split: option.splits)
  note a = accounted_flush[OF p1 assms(2)]
  show ?thesis using assms(1) p1 a accounted_same[OF a] by (auto simp: ap_close_def split: if_splits)
qed

lemma accounted_begin:
  assumes "begin_serialize a = Some (a2, snapshot)" and "accounted q start given x a"
  shows "accounted q start given (x + total_samples snapshot) a2 \<and> gomap_wf snapshot"
proof -
  obtain a1 where a1: "process_batch a = Some a1" using assms(1) by (auto simp: begin_serialize_def)
  note acc = accounted_batch[OF a1 assms(2)]
  then have wf: "gomap_wf (sa_groups a1)" by (simp add: accounted_def)
  show ?thesis
  proof (cases "sa_messages a1 = None")
    case True
    then show ?thesis using assms(1) a1 acc by (auto simp: begin_serialize_def total_samples_def)
  next
    case False
    then have "a2 = a1\<lparr>sa_groups := []\<rparr>" "snapshot = sa_groups a1"
      using assms(1) a1 by (auto simp: begin_serialize_def swap_group_sets_def copy_map_id[OF wf])
    then show ?thesis using acc by (auto simp: accounted_def total_samples_def)
  qed
qed

lemma total_samples_split: "total_samples g = total_samples (take n g) + total_samples (drop n g)"
  unfolding total_samples_def by (simp flip: sum_list_append map_append)

lemma gomap_wf_merge_remaining: "gomap_wf g \<Longrightarrow> gomap_wf (merge_remaining q g r)"
proof (induction r arbitrary: g)
  case (Cons kv r)
  have "gomap_wf (merge_remaining_step q g kv)" using Cons.prems by (simp add: merge_remaining_step_def split: option.splits)
  from Cons.IH[OF this] show ?case by (simp add: merge_remaining_def)
qed (simp add: merge_remaining_def)

lemma accounted_finish:
  assumes "accounted q start given (x + total_samples snapshot) a" and "gomap_wf snapshot" and "sa_messages a = Some ch"
  shows "\<exists>n. fst (serialize_group accepted snapshot ch) = drop n snapshot \<and>
    sa_messages (finish_serialize accepted snapshot a) = Some (ch @ map (\<lambda>(k, s). serialize_set s k) (take n snapshot)) \<and>
    accounted q start given (x + total_samples (take n snapshot)) (finish_serialize accepted snapshot a)"
proof -
  obtain n where n: "serialize_group accepted snapshot ch = (drop n snapshot, ch @ map (\<lambda>(k, s). serialize_set s k) (take n snapshot))"
    using serialize_group_split[OF assms(2)] by metis
  let ?a = "finish_serialize accepted snapshot a"
  have wf: "gomap_wf (sa_groups a)" using assms(1) by (simp add: accounted_def)
  have a: "?a = a\<lparr>sa_messages := Some (ch @ map (\<lambda>(k, s). serialize_set s k) (take n snapshot)),
      sa_groups := (if drop n snapshot = [] then sa_groups a else merge_remaining (sa_query a) (sa_groups a) (drop n snapshot))\<rparr>"
    using n assms(3) by (simp add: finish_serialize_def)
  have m: "wrap64 (total_samples (sa_groups ?a)) = wrap64 (total_samples (sa_groups a) + total_samples (drop n snapshot))"
    using merge_remaining_samples[OF wf] by (auto simp: a total_samples_def)
  have "wrap64 (x + total_samples (take n snapshot) + total_samples (sa_groups ?a)) =
      wrap64 (x + total_samples snapshot + total_samples (sa_groups a))"
    using wrap64_add[of "total_samples (sa_groups ?a)" "x + total_samples (take n snapshot)"]
      wrap64_add[of "total_samples (sa_groups a) + total_samples (drop n snapshot)" "x + total_samples (take n snapshot)"]
      total_samples_split[of snapshot n] m by (simp add: algebra_simps)
  moreover have "gomap_wf (sa_groups ?a)" using wf gomap_wf_merge_remaining by (simp add: a)
  ultimately have "accounted q start given (x + total_samples (take n snapshot)) ?a"
    using assms(1) by (auto simp: accounted_def a)
  then show ?thesis using n a by (intro exI[of _ n]) simp
qed

subsection \<open>Every reachable state\<close>

definition in_flight :: "aggregate_life \<Rightarrow> group_set" where
  "in_flight v = (case al_sending v of None \<Rightarrow> [] | Some (who, snapshot) \<Rightarrow> snapshot)"

definition life_ok :: "query \<Rightarrow> batch_view \<Rightarrow> aggregate_life \<Rightarrow> bool" where
  "life_ok q start v \<longleftrightarrow>
     accounted q start (al_given v) (total_samples (al_sent v) + total_samples (in_flight v)) (al_aggregate v) \<and> gomap_wf (in_flight v) \<and>
     sa_messages (al_aggregate v) = (if al_phase v = NotStarted then None else Some (map (\<lambda>(k, s). serialize_set s k) (al_sent v))) \<and>
     (al_phase v = NotStarted \<longrightarrow> al_sending v = None \<and> al_sent v = [])"

lemma life_okI:
  assumes "accounted q start (al_given v) (total_samples (al_sent v) + total_samples (in_flight v)) (al_aggregate v)" and "gomap_wf (in_flight v)"
    and "sa_messages (al_aggregate v) = (if al_phase v = NotStarted then None else Some (map (\<lambda>(k, s). serialize_set s k) (al_sent v)))"
    and "al_phase v = NotStarted \<Longrightarrow> al_sending v = None \<and> al_sent v = []"
  shows "life_ok q start v"
  using assms by (simp add: life_ok_def)

lemma messages_batch: "process_batch a = Some a' \<Longrightarrow> sa_messages a' = sa_messages a \<and> sa_done a' = sa_done a"
  by (auto dest: process_batch_view)

lemma messages_give: "ap_process_line p line src = Some p' \<Longrightarrow>
    sa_messages (ap_aggregate p') = sa_messages (ap_aggregate p) \<and> sa_done (ap_aggregate p') = sa_done (ap_aggregate p)"
  by (auto simp: ap_process_line_def process_line_direct_def Let_def split: if_splits dest!: messages_batch)

lemma messages_flush: "ap_flush p = Some p' \<Longrightarrow>
    sa_messages (ap_aggregate p') = sa_messages (ap_aggregate p) \<and> sa_done (ap_aggregate p') = sa_done (ap_aggregate p)"
  by (auto simp: ap_flush_def split: if_splits dest!: messages_batch)

lemma messages_close: "ap_close p = Some p' \<Longrightarrow>
    sa_messages (ap_aggregate p') = sa_messages (ap_aggregate p) \<and> sa_done (ap_aggregate p') = sa_done (ap_aggregate p)"
  by (auto simp: ap_close_def split: option.splits if_splits dest!: messages_flush)

text \<open>Steps that touch neither the sends nor the phase.\<close>

lemma life_ok_put:
  assumes "life_ok q start v" and "accounted q start given (total_samples (al_sent v) + total_samples (in_flight v)) (ap_aggregate p)"
    and "sa_messages (ap_aggregate p) = sa_messages (al_aggregate v)"
  shows "life_ok q start (put_processor i p v\<lparr>al_given := given\<rparr>)"
  using assms by (simp add: life_ok_def put_processor_def in_flight_def)

lemma life_ok_begin:
  assumes b: "begin_send who v = Some v1" and none: "al_sending v = None" and ok: "life_ok q start v"
  shows "life_ok q start v1 \<and> al_phase v1 = al_phase v \<and> al_loop v1 = al_loop v \<and> (al_sending v1 = None \<or> (\<exists>s. al_sending v1 = Some (who, s))) \<and>
    (al_phase v = NotStarted \<longrightarrow> al_sending v1 = None)"
proof -
  obtain a s where a: "begin_serialize (al_aggregate v) = Some (a, s)"
    and v1: "v1 = v\<lparr>al_aggregate := a, al_sending := (if s = [] then None else Some (who, s))\<rparr>"
    using b by (auto simp: begin_send_def)
  have f: "in_flight v = []" and f1: "in_flight v1 = s" using none by (simp_all add: in_flight_def v1)
  have acc: "accounted q start (al_given v) (total_samples (al_sent v) + total_samples s) a \<and> gomap_wf s"
    using accounted_begin[OF a, of q start "al_given v" "total_samples (al_sent v)"] ok f by (simp add: life_ok_def total_samples_def)
  have m: "sa_messages a = sa_messages (al_aggregate v) \<and> (sa_messages a = None \<longrightarrow> s = [])"
    using a by (auto simp: begin_serialize_def swap_group_sets_def dest!: messages_batch split: if_splits)
  have "al_phase v = NotStarted \<longrightarrow> s = []" using m ok by (auto simp: life_ok_def)
  then show ?thesis using acc m ok f1 by (auto simp: life_ok_def v1)
qed

lemma life_ok_after: "life_ok q start (after_send who v)" if "life_ok q start v" "al_phase v \<noteq> NotStarted"
  using that by (cases who) (simp_all add: life_ok_def after_send_def in_flight_def)

lemma life_ok_end:
  assumes s: "al_sending v = Some (who, s)" and ok: "life_ok q start v"
  shows "life_ok q start (end_send accepted s v) \<and> al_phase (end_send accepted s v) \<noteq> NotStarted"
proof -
  have p: "al_phase v \<noteq> NotStarted" and f: "in_flight v = s" using s ok by (auto simp: life_ok_def in_flight_def)
  then have m: "sa_messages (al_aggregate v) = Some (map (\<lambda>(k, s). serialize_set s k) (al_sent v))" using ok by (simp add: life_ok_def)
  obtain n where n: "fst (serialize_group accepted s (map (\<lambda>(k, s). serialize_set s k) (al_sent v))) = drop n s"
    "sa_messages (finish_serialize accepted s (al_aggregate v)) =
      Some (map (\<lambda>(k, s). serialize_set s k) (al_sent v) @ map (\<lambda>(k, s). serialize_set s k) (take n s))"
    "accounted q start (al_given v) (total_samples (al_sent v) + total_samples (take n s)) (finish_serialize accepted s (al_aggregate v))"
    using accounted_finish[OF _ _ m, of q start "al_given v" "total_samples (al_sent v)" s accepted] ok f by (auto simp: life_ok_def)
  have t: "take (length s - length (drop n s)) s = take n s" by (cases "n \<le> length s") simp_all
  have "total_samples (al_sent v @ take n s) = total_samples (al_sent v) + total_samples (take n s)" by (simp add: total_samples_def)
  then show ?thesis using n p
    by (simp add: life_ok_def end_send_def Let_def m t in_flight_def total_samples_def del: length_drop)
qed

lemma life_ok_drain:
  assumes d: "drain who v = Some v1" and none: "al_sending v = None" and ok: "life_ok q start v" and started: "who = OtherSends \<or> al_phase v \<noteq> NotStarted"
  shows "life_ok q start v1"
proof -
  obtain a v2 where a: "process_batch (al_aggregate v) = Some a" and b: "begin_send who (v\<lparr>al_aggregate := a\<rparr>) = Some v2"
    and v1: "v1 = (if al_sending v2 = None then after_send who v2 else v2)"
    using d by (auto simp: drain_def split: option.splits)
  have "life_ok q start (v\<lparr>al_aggregate := a\<rparr>)"
    using ok accounted_batch[OF a] messages_batch[OF a] by (simp add: life_ok_def in_flight_def)
  from life_ok_begin[OF b _ this] none have "life_ok q start v2" "al_phase v2 = al_phase v" by simp_all
  then show ?thesis using started life_ok_after[of q start v2 who] by (auto simp: v1 after_send_def)
qed

lemma life_ok_step:
  assumes "life_step v v'" and ok: "life_ok q start v"
  shows "life_ok q start v'"
  using assms(1)
proof cases
  case start
  then show ?thesis using ok by (auto simp: life_ok_def in_flight_def intro: accounted_same)
next
  case open_processor
  then show ?thesis using ok by (auto simp: life_ok_def in_flight_def new_aggregate_processor_def intro: accounted_same)
next
  case (give i line src p)
  have "ap_aggregate (processor_of v i) = al_aggregate v" by (simp add: processor_of_def)
  then show ?thesis unfolding give(1) using ok accounted_give[OF give(4)] messages_give[OF give(4)]
    by (intro life_ok_put) (simp_all add: life_ok_def)
next
  case (flush_processor i p)
  have "ap_aggregate (processor_of v i) = al_aggregate v" by (simp add: processor_of_def)
  then have "life_ok q start (put_processor i p v\<lparr>al_given := al_given v\<rparr>)"
    using ok accounted_flush[OF flush_processor(3)] messages_flush[OF flush_processor(3)] by (intro life_ok_put) (simp_all add: life_ok_def)
  then show ?thesis by (simp add: flush_processor(1) put_processor_def)
next
  case (close_processor i p)
  have "ap_aggregate (processor_of v i) = al_aggregate v" by (simp add: processor_of_def)
  then have "life_ok q start (put_processor i p v\<lparr>al_given := al_given v\<rparr>)"
    using ok accounted_close[OF close_processor(3)] messages_close[OF close_processor(3)] by (intro life_ok_put) (simp_all add: life_ok_def)
  then show ?thesis by (simp add: close_processor(1) put_processor_def)
next
  case (loop_sends v1)
  have "life_ok q start (v\<lparr>al_request := False\<rparr>)" using ok by (simp add: life_ok_def in_flight_def)
  from life_ok_begin[OF loop_sends(5) _ this] loop_sends show ?thesis by (auto simp: life_ok_def in_flight_def)
next
  case start_drains
  have "life_ok q start (v\<lparr>al_phase := Emitting\<rparr>)" using ok start_drains by (simp add: life_ok_def in_flight_def)
  from life_ok_drain[OF start_drains(4) _ this] start_drains show ?thesis by simp
next
  case others_drain
  have "life_ok q start (v\<lparr>al_others := al_others v - 1\<rparr>)" using ok by (simp add: life_ok_def in_flight_def)
  from life_ok_drain[OF others_drain(4) _ this] others_drain show ?thesis by simp
next
  case (sent who s accepted)
  from life_ok_end[OF sent(2) ok] show ?thesis unfolding sent(1) by (blast intro: life_ok_after)
qed (use ok in \<open>auto simp: life_ok_def in_flight_def stop_def abort_def finish_input_def take_tick_def intro: accounted_same\<close>)

subsection \<open>After the drain\<close>

definition empty_batch :: "server_aggregate \<Rightarrow> bool" where
  "empty_batch a \<longleftrightarrow> sa_done a \<and> sa_batch a = []"

definition life_drained :: "aggregate_life \<Rightarrow> bool" where
  "life_drained v \<longleftrightarrow>
     (al_phase v = Draining \<or> al_phase v = Emitting \<longrightarrow> sa_done (al_aggregate v)) \<and>
     (al_drained v \<longrightarrow> al_phase v = AwaitingLoop \<or> al_phase v = StartReturned) \<and>
     (al_drained v \<or> (\<exists>s. al_sending v = Some (StartSends, s)) \<longrightarrow>
        empty_batch (al_aggregate v) \<and> (al_refused v \<or> sa_groups (al_aggregate v) = [])) \<and>
     (al_drained v \<longrightarrow> al_refused v \<or> al_sending v = None)"

lemma done_give: "ap_process_line p line src = Some p' \<Longrightarrow> sa_done (ap_aggregate p) \<Longrightarrow> ap_aggregate p' = ap_aggregate p"
  by (auto simp: ap_process_line_def)

lemma done_flush: "ap_flush p = Some p' \<Longrightarrow> sa_done (ap_aggregate p) \<Longrightarrow> ap_aggregate p' = ap_aggregate p"
  by (auto simp: ap_flush_def)

lemma done_close: "ap_close p = Some p' \<Longrightarrow> sa_done (ap_aggregate p) \<Longrightarrow>
    sa_batch (ap_aggregate p') = sa_batch (ap_aggregate p) \<and> sa_groups (ap_aggregate p') = sa_groups (ap_aggregate p)"
  by (auto simp: ap_close_def split: option.splits if_splits dest!: done_flush)

lemma empty_batch_kept: "process_batch a = Some a' \<Longrightarrow> empty_batch a \<Longrightarrow> a' = a"
  by (auto simp: process_batch_def empty_batch_def view_of_def)

lemma process_batch_empties: "process_batch a = Some a' \<Longrightarrow> sa_batch a' = [] \<and> sa_done a' = sa_done a"
  by (auto dest: process_batch_view)

lemma begin_started:
  assumes "begin_send who v = Some v1" and "sa_messages (al_aggregate v) \<noteq> None"
  shows "sa_groups (al_aggregate v1) = [] \<and> sa_batch (al_aggregate v1) = [] \<and> sa_done (al_aggregate v1) = sa_done (al_aggregate v) \<and>
    al_phase v1 = al_phase v \<and> al_drained v1 = al_drained v \<and> al_refused v1 = al_refused v \<and>
    (empty_batch (al_aggregate v) \<and> sa_groups (al_aggregate v) = [] \<longrightarrow> al_sending v1 = None) \<and>
    (al_sending v1 = None \<or> (\<exists>s. al_sending v1 = Some (who, s)))"
proof -
  obtain a s where b: "begin_serialize (al_aggregate v) = Some (a, s)" and v1: "v1 = v\<lparr>al_aggregate := a, al_sending := (if s = [] then None else Some (who, s))\<rparr>"
    using assms(1) by (auto simp: begin_send_def)
  obtain a1 where a1: "process_batch (al_aggregate v) = Some a1" using b by (auto simp: begin_serialize_def)
  have m: "sa_messages a1 \<noteq> None" using assms(2) messages_batch[OF a1] by simp
  then have as: "a = a1\<lparr>sa_groups := []\<rparr>" "s = copy_map (sa_groups a1)" using b a1 by (auto simp: begin_serialize_def swap_group_sets_def)
  show ?thesis using process_batch_empties[OF a1] empty_batch_kept[OF a1] by (auto simp: v1 as copy_map_def)
qed

lemma begin_empty:
  assumes "begin_send who v = Some v1" and "empty_batch (al_aggregate v)"
  shows "empty_batch (al_aggregate v1)"
proof -
  obtain a1 where a1: "process_batch (al_aggregate v) = Some a1" using assms(1) by (auto simp: begin_send_def begin_serialize_def)
  have "sa_batch (al_aggregate v1) = sa_batch a1" "sa_done (al_aggregate v1) = sa_done a1"
    using assms(1) a1 by (auto simp: begin_send_def begin_serialize_def swap_group_sets_def split: if_splits)
  then show ?thesis using process_batch_empties[OF a1] assms(2) by (simp add: empty_batch_def)
qed

lemma end_groups: "sa_groups (al_aggregate (end_send accepted s v)) = [] \<or> al_refused (end_send accepted s v)"
  if "sa_groups (al_aggregate v) = []"
  using that by (auto simp: end_send_def finish_serialize_def Let_def split: prod.splits)

lemma life_drained_begin:
  assumes b: "begin_send who v = Some v1" and who: "who \<noteq> StartSends" and dr: "life_drained v" and none: "al_sending v = None"
    and m: "sa_messages (al_aggregate v) \<noteq> None"
  shows "life_drained v1"
proof -
  note s = begin_started[OF b m]
  have no: "\<forall>x. al_sending v1 \<noteq> Some (StartSends, x)" using s who by auto
  have ph: "al_phase v1 = Draining \<or> al_phase v1 = Emitting \<longrightarrow> sa_done (al_aggregate v1)" using s dr by (simp add: life_drained_def)
  show ?thesis
  proof (cases "al_drained v")
    case False
    then show ?thesis using s no ph by (simp add: life_drained_def)
  next
    case True
    then have d: "al_phase v = AwaitingLoop \<or> al_phase v = StartReturned" "empty_batch (al_aggregate v)"
      "al_refused v \<or> sa_groups (al_aggregate v) = []"
      using dr by (simp_all add: life_drained_def)
    have "empty_batch (al_aggregate v1)" using begin_empty[OF b d(2)] .
    moreover have "al_refused v1 \<or> al_sending v1 = None" using s d by (cases "al_refused v") simp_all
    ultimately show ?thesis using s d(1) True ph unfolding life_drained_def by simp
  qed
qed

lemma life_drained_step:
  assumes "life_step v v'" and ok: "life_ok q start v" and dr: "life_drained v"
  shows "life_drained v'"
  using assms(1)
proof cases
  case (give i line src p)
  have "sa_done (al_aggregate v) \<longrightarrow> ap_aggregate p = al_aggregate v" using done_give[OF give(4)] by (simp add: processor_of_def)
  moreover have "sa_done (ap_aggregate p) = sa_done (al_aggregate v)" using messages_give[OF give(4)] by (simp add: processor_of_def)
  ultimately show ?thesis using dr by (auto simp: life_drained_def put_processor_def give(1) empty_batch_def)
next
  case (flush_processor i p)
  have "sa_done (al_aggregate v) \<longrightarrow> ap_aggregate p = al_aggregate v" using done_flush[OF flush_processor(3)] by (simp add: processor_of_def)
  moreover have "sa_done (ap_aggregate p) = sa_done (al_aggregate v)" using messages_flush[OF flush_processor(3)] by (simp add: processor_of_def)
  ultimately show ?thesis using dr by (auto simp: life_drained_def put_processor_def flush_processor(1) empty_batch_def)
next
  case (close_processor i p)
  have "sa_done (al_aggregate v) \<longrightarrow> sa_batch (ap_aggregate p) = sa_batch (al_aggregate v) \<and> sa_groups (ap_aggregate p) = sa_groups (al_aggregate v)"
    using done_close[OF close_processor(3)] by (simp add: processor_of_def)
  moreover have "sa_done (ap_aggregate p) = sa_done (al_aggregate v)" using messages_close[OF close_processor(3)] by (simp add: processor_of_def)
  ultimately show ?thesis using dr by (auto simp: life_drained_def put_processor_def close_processor(1) empty_batch_def)
next
  case (loop_sends v1)
  show ?thesis
  proof (cases "al_phase v = NotStarted")
    case True
    then have "\<not> al_drained v" using dr by (auto simp: life_drained_def)
    moreover have "al_phase v1 = NotStarted" "al_drained v1 = al_drained v" "\<forall>s. al_sending v1 \<noteq> Some (StartSends, s)"
      using loop_sends(5) True by (auto simp: begin_send_def split: if_splits)
    ultimately show ?thesis by (simp add: life_drained_def loop_sends(1))
  next
    case False
    then have "sa_messages (al_aggregate (v\<lparr>al_request := False\<rparr>)) \<noteq> None" using ok by (simp add: life_ok_def)
    moreover have "life_drained (v\<lparr>al_request := False\<rparr>)" using dr by (simp add: life_drained_def)
    ultimately have "life_drained v1" using life_drained_begin[OF loop_sends(5)] loop_sends(4) by simp
    then show ?thesis by (simp add: life_drained_def loop_sends(1))
  qed
next
  case start_drains
  obtain a v2 where a: "process_batch (al_aggregate v) = Some a" and b: "begin_send StartSends (v\<lparr>al_phase := Emitting, al_aggregate := a\<rparr>) = Some v2"
    and v': "v' = (if al_sending v2 = None then after_send StartSends v2 else v2)"
    using start_drains(4) by (auto simp: drain_def split: option.splits)
  have m: "sa_messages (al_aggregate (v\<lparr>al_phase := Emitting, al_aggregate := a\<rparr>)) \<noteq> None"
    using ok start_drains(1) messages_batch[OF a] by (simp add: life_ok_def)
  have d: "sa_done a" "\<not> al_drained v" using dr start_drains(1) process_batch_empties[OF a] by (auto simp: life_drained_def)
  from begin_started[OF b m] d show ?thesis by (auto simp: life_drained_def v' after_send_def empty_batch_def)
next
  case others_drain
  obtain a v2 where a: "process_batch (al_aggregate v) = Some a" and b: "begin_send OtherSends (v\<lparr>al_others := al_others v - 1, al_aggregate := a\<rparr>) = Some v2"
    and v': "v' = v2"
    using others_drain(4) by (auto simp: drain_def after_send_def split: option.splits if_splits)
  show ?thesis
  proof (cases "al_phase v = NotStarted")
    case True
    then have "\<not> al_drained v" using dr by (auto simp: life_drained_def)
    moreover have "al_phase v2 = NotStarted" "al_drained v2 = al_drained v" "\<forall>s. al_sending v2 \<noteq> Some (StartSends, s)"
      using b True by (auto simp: begin_send_def split: if_splits)
    ultimately show ?thesis by (simp add: life_drained_def v')
  next
    case False
    then have m: "sa_messages (al_aggregate (v\<lparr>al_others := al_others v - 1, al_aggregate := a\<rparr>)) \<noteq> None"
      using ok messages_batch[OF a] by (simp add: life_ok_def)
    have k: "empty_batch (al_aggregate v) \<longrightarrow> a = al_aggregate v" using empty_batch_kept[OF a] by blast
    have "life_drained (v\<lparr>al_others := al_others v - 1, al_aggregate := a\<rparr>)"
      using dr k process_batch_empties[OF a] others_drain(3) unfolding life_drained_def by (cases "al_drained v") simp_all
    then show ?thesis using life_drained_begin[OF b _ _ _ m] others_drain(3) by (simp add: v')
  qed
next
  case (sent who s accepted)
  have e: "empty_batch (al_aggregate (end_send accepted s v)) = empty_batch (al_aggregate v)"
    "sa_done (al_aggregate (end_send accepted s v)) = sa_done (al_aggregate v)"
    "al_phase (end_send accepted s v) = al_phase v" "al_drained (end_send accepted s v) = al_drained v" "al_sending (end_send accepted s v) = None"
    "al_refused v \<longrightarrow> al_refused (end_send accepted s v)"
    by (auto simp: end_send_def Let_def finish_serialize_def empty_batch_def split: prod.splits)
  show ?thesis using dr end_groups[of v accepted s] e sent(2)
    by (cases who) (auto simp: life_drained_def sent(1) after_send_def)
qed (use dr in \<open>auto simp: life_drained_def stop_def abort_def finish_input_def take_tick_def new_aggregate_processor_def empty_batch_def\<close>)

lemma drain_nothing:
  assumes "sa_batch (al_aggregate v) = []" "sa_groups (al_aggregate v) = []" "al_sending v = None"
  shows "drain who v = Some (after_send who v)"
proof -
  have p: "process_batch (al_aggregate v) = Some (al_aggregate v)" using assms(1) by (simp add: process_batch_def view_of_def)
  have b: "begin_serialize (al_aggregate v) = Some (al_aggregate v, [])"
    using assms(2) by (simp add: begin_serialize_def p swap_group_sets_def copy_map_def)
  have s: "v\<lparr>al_sending := None\<rparr> = v" using assms(3) by (cases v) simp
  show ?thesis by (simp add: drain_def p begin_send_def b s assms(3))
qed

lemma begin_loop: "begin_send who v = Some v1 \<Longrightarrow> al_loop v1 = al_loop v \<and> al_request v1 = al_request v"
  by (auto simp: begin_send_def)

lemma drain_loop:
  assumes "drain who v = Some v1" and "who \<noteq> LoopSends"
  shows "al_loop v1 = al_loop v \<and> al_request v1 = al_request v"
proof -
  obtain a v2 where b: "begin_send who (v\<lparr>al_aggregate := a\<rparr>) = Some v2"
    and v1: "v1 = (if al_sending v2 = None then after_send who v2 else v2)"
    using assms(1) by (auto simp: drain_def split: option.splits)
  show ?thesis using begin_loop[OF b] assms(2) by (cases who) (simp_all add: v1 after_send_def)
qed

lemma life_reaches_ok:
  assumes "life_reaches (new_aggregate_life a) v" and "sa_groups a = []" "sa_batch a = []" "sa_messages a = None"
  shows "life_ok (sa_query a) (view_of a) v \<and> life_drained v"
  using assms(1)
proof induction
  case born
  then show ?case using assms(2-)
    by (simp add: life_ok_def life_drained_def new_aggregate_life_def accounted_def view_of_def in_flight_def total_samples_def)
next
  case (live v v')
  then show ?case using life_ok_step life_drained_step by blast
qed

text \<open>
  C4: The aggregate loses no sample and counts none twice, whatever the order in which the processors feed it, the
  ticker and others ask for a serialization, sends are refused, and \<open>Start\<close> and others shut it down. In every reachable
  state the lines it was given are the evaluated ones and those of the batch, and what was sent, what is being sent and
  what it holds have together the samples that one evaluation of these lines without any serialization gives, with its
  parser and its error count. When \<open>Start\<close> has drained the aggregate at the end of the input and no send was refused
  then all lines are evaluated and all samples are in the messages.
\<close>

theorem life_conserves_samples:
  assumes "life_reaches (new_aggregate_life a) v" and "sa_groups a = []" "sa_batch a = []" "sa_messages a = None"
  shows "\<exists>evaluated g. al_given v = evaluated @ sa_batch (al_aggregate v) \<and>
    process_raw_batch (sa_query a) (view_of a) evaluated = Some (sa_parser (al_aggregate v), g, sa_errors (al_aggregate v)) \<and>
    wrap64 (total_samples (al_sent v) + total_samples (in_flight v) + total_samples (sa_groups (al_aggregate v))) = wrap64 (total_samples g) \<and>
    (al_drained v \<and> \<not> al_refused v \<longrightarrow>
      evaluated = al_given v \<and> wrap64 (total_samples (al_sent v)) = wrap64 (total_samples g) \<and>
      sa_messages (al_aggregate v) = Some (map (\<lambda>(k, s). serialize_set s k) (al_sent v)))"
proof -
  have ok: "life_ok (sa_query a) (view_of a) v" and dr: "life_drained v" using life_reaches_ok[OF assms] by simp_all
  obtain ev g where ev: "al_given v = ev @ sa_batch (al_aggregate v)"
    "process_raw_batch (sa_query a) (view_of a) ev = Some (sa_parser (al_aggregate v), g, sa_errors (al_aggregate v))"
    "wrap64 (total_samples (al_sent v) + total_samples (in_flight v) + total_samples (sa_groups (al_aggregate v))) = wrap64 (total_samples g)"
    using ok unfolding life_ok_def accounted_def by auto
  have "sa_batch (al_aggregate v) = [] \<and> total_samples (in_flight v) = 0 \<and> total_samples (sa_groups (al_aggregate v)) = 0 \<and> al_phase v \<noteq> NotStarted"
    if "al_drained v" "\<not> al_refused v"
    using dr that by (auto simp: life_drained_def empty_batch_def in_flight_def total_samples_def)
  then show ?thesis using ev ok by (intro exI[of _ ev] exI[of _ g]) (auto simp: life_ok_def)
qed

text \<open>An aggregate that is started and drained without a line.\<close>

lemma idle_life:
  assumes "sa_batch a = []" "sa_groups a = []" "processors_wg a = 0"
  shows "\<exists>v. life_reaches (new_aggregate_life a) v \<and> al_drained v \<and> \<not> al_refused v \<and> al_given v = []"
proof -
  let ?v0 = "new_aggregate_life a"
  let ?v1 = "?v0\<lparr>al_aggregate := (al_aggregate ?v0)\<lparr>sa_messages := Some []\<rparr>, al_ticker := True, al_phase := Serving, al_loop := LoopSelecting\<rparr>"
  let ?v2 = "?v1\<lparr>al_aggregate := finish_input (al_aggregate ?v1)\<rparr>"
  let ?v3 = "(stop ?v2)\<lparr>al_phase := Draining\<rparr>"
  let ?v4 = "after_send StartSends (?v3\<lparr>al_phase := Emitting\<rparr>)"
  have a3: "al_aggregate ?v3 = a\<lparr>sa_messages := Some [], sa_input_finished := True, sa_done := True\<rparr>"
    by (simp add: stop_def abort_def finish_input_def new_aggregate_life_def)
  have s3: "al_sending ?v3 = None" by (simp add: stop_def new_aggregate_life_def)
  have s1: "life_step ?v0 ?v1" by (rule life_step.start) (simp_all add: new_aggregate_life_def)
  have s2: "life_step ?v1 ?v2" by (rule life_step.finish)
  have s4: "life_step ?v2 ?v3" by (rule life_step.input_over) (simp_all add: finish_input_def)
  have s5: "life_step ?v3 ?v4"
  proof (rule life_step.start_drains)
    show "drain StartSends (?v3\<lparr>al_phase := Emitting\<rparr>) = Some ?v4"
      by (rule drain_nothing) (use assms a3 s3 in simp_all)
  qed (use assms a3 s3 in simp_all)
  note r = life_reaches.live[OF life_reaches.live[OF life_reaches.live[OF life_reaches.live[OF life_reaches.born s1] s2] s4] s5]
  have "al_drained ?v4" "\<not> al_refused ?v4" "al_given ?v4 = []" by (simp_all add: after_send_def stop_def new_aggregate_life_def)
  then show ?thesis by (intro exI[of _ ?v4] conjI r)
qed

lemma life_conserves_samples_witness:
  "\<exists>v. life_reaches (new_aggregate_life (sample_aggregate\<lparr>sa_messages := None\<rparr>)) v \<and> al_drained v \<and>
    sa_messages (al_aggregate v) = Some (map (\<lambda>(k, s). serialize_set s k) (al_sent v)) \<and> wrap64 (total_samples (al_sent v)) = 0"
proof -
  let ?a = "sample_aggregate\<lparr>sa_messages := None\<rparr>"
  have i: "sa_groups ?a = []" "sa_batch ?a = []" "sa_messages ?a = None" "processors_wg ?a = 0" by (simp_all add: sample_aggregate_def)
  obtain v where r: "life_reaches (new_aggregate_life ?a) v" and d: "al_drained v" "\<not> al_refused v" "al_given v = []"
    using idle_life[OF i(2,1,4)] by blast
  obtain g where g: "process_raw_batch (sa_query ?a) (view_of ?a) [] = Some (sa_parser (al_aggregate v), g, sa_errors (al_aggregate v))"
    "wrap64 (total_samples (al_sent v)) = wrap64 (total_samples g)"
    "sa_messages (al_aggregate v) = Some (map (\<lambda>(k, s). serialize_set s k) (al_sent v))"
    using life_conserves_samples[OF r i(1-3)] d by auto
  have "g = []" using g(1) i(1) by (simp add: view_of_def)
  then have "wrap64 (total_samples (al_sent v)) = 0" using g(2) by (simp add: total_samples_def wrap64_def)
  then show ?thesis using r d g(3) by blast
qed

subsection \<open>The loop that waits for itself\<close>

text \<open>
  When the ticker fires while a request is in the channel, the loop that would take the request waits to put another
  one: no step of the others helps it, it goes on when it gives up after a minute or the context is over.
\<close>

lemma loop_waits_for_itself:
  assumes "life_step v v'" and "al_loop v = LoopPutting" "al_request v" and "al_sending v = None" and "al_phase v \<noteq> NotStarted"
  shows "(al_loop v' = LoopPutting \<and> al_request v') \<or> v' = v\<lparr>al_loop := LoopSelecting\<rparr>"
  using assms(1)
proof cases
  case start_drains
  then show ?thesis using drain_loop[of StartSends] assms(2,3) by fastforce
next
  case others_drain
  then show ?thesis using drain_loop[of OtherSends] assms(2,3) by fastforce
qed (use assms in \<open>simp_all add: put_processor_def stop_def\<close>)

end
