(* ===== verification/Control_Session.thy ===== *)
theory Control_Session
  imports Reload Control_Line Base_Client
begin

text \<open>
  The terminal of an interactive client (\<open>startInteractiveControl\<close>, \<open>runInteractiveControl\<close> and
  \<open>writeInteractiveState\<close> in \<open>internal/clients/interactive_control.go\<close>): the lines that are read, the answers that are
  written, and what becomes of the connections in the meantime.
\<close>

subsection \<open>Reading lines\<close>

text \<open>
  The scanner with its buffer of a megabyte: a line that does not fit, with its newline or before the end of the input
  is seen, ends the scan with an error.
\<close>

definition max_control_line :: nat where
  "max_control_line = 1024 * 1024"

definition drop_return :: "gostr \<Rightarrow> gostr" where
  "drop_return l = (if l \<noteq> [] \<and> last l = CHR 0x0D then butlast l else l)"

fun control_lines :: "gostr list \<Rightarrow> gostr list \<times> bool" where
  "control_lines [] = ([], False)"
| "control_lines [l] = (if l = [] then ([], False) else if length l < max_control_line then ([drop_return l], False) else ([], True))"
| "control_lines (l # m # ls) =
     (if length l < max_control_line then (case control_lines (m # ls) of (ts, e) \<Rightarrow> (drop_return l # ts, e)) else ([], True))"

definition scan_control :: "gostr \<Rightarrow> gostr list \<times> bool" where
  "scan_control input = control_lines (split [CHR 0x0A] input)"

subsection \<open>Answers\<close>

datatype 'e control_output =
    Greeting
  | CommandRejected control_error
  | HelpText
  | StateText mode "gostr list" gostr gostr gostr int nat nat
  | QuittingText
  | ReloadFailed "'e reload_error" "(gostr \<times> transport_error) list"
  | ReloadApplied

text \<open>The number of the connections that support updates, which are asked one after the other.\<close>

fun count_capable :: "'c connector \<Rightarrow> int \<Rightarrow> 'c list \<Rightarrow> nat \<times> 'c list" where
  "count_capable k timeout [] = (0, [])"
| "count_capable k timeout (conn # conns) =
     (case k_supports k timeout conn of
        (ok, conn1) \<Rightarrow> (case count_capable k timeout conns of (n, conns1) \<Rightarrow> (if ok then Suc n else n, conn1 # conns1)))"

definition write_interactive_state :: "'c connector \<Rightarrow> ('c, 'm) reload_client \<Rightarrow> 'e control_output \<times> ('c, 'm) reload_client" where
  "write_interactive_state k c =
     (case count_capable k 0 (rc_connections c) of
        (ready, conns) \<Rightarrow>
          (let s = rc_spec c in
           (StateText (ca_mode (rc_args c)) (sp_files s) (sp_query s) (sp_regex s) (sp_options s) (sp_timeout s) ready (length conns),
            c\<lparr>rc_connections := conns\<rparr>)))"

text \<open>What a line does: the answer, and whether it ends the session.\<close>

definition answer_control_line :: "'c connector \<Rightarrow> (gostr \<Rightarrow> 'r option) \<Rightarrow>
    (spec \<Rightarrow> uint64 \<Rightarrow> client_args \<times> 'm \<Rightarrow> 'e option \<times> client_args \<times> 'm) option \<Rightarrow> gostr \<Rightarrow> ('c, 'm) reload_client \<Rightarrow>
    'e control_output \<times> bool \<times> ('c, 'm) reload_client" where
  "answer_control_line k compile commit line c =
     (case parse_interactive_command compile (rc_args c) line of
        Inl e \<Rightarrow> (CommandRejected e, False, c)
      | Inr HelpCommand \<Rightarrow> (HelpText, False, c)
      | Inr ShowCommand \<Rightarrow> (case write_interactive_state k c of (t, c1) \<Rightarrow> (t, False, c1))
      | Inr QuitCommand \<Rightarrow> (QuittingText, True, c)
      | Inr (ReloadCommand a s) \<Rightarrow>
          (case apply_interactive_reload k commit a s c of
             (Some (e, es), c1) \<Rightarrow> (ReloadFailed e es, False, c1)
           | (None, c1) \<Rightarrow> (ReloadApplied, False, c1)))"

subsection \<open>The session\<close>

text \<open>
  \<open>ControlOver\<close> is the end of the input or of the context, \<open>WriteFailed\<close> that the last of the answers could not be
  written. \<open>writes n\<close> is whether the answer with the number \<open>n\<close> can be.
\<close>

datatype control_end = ControlOver | UserQuit | WriteFailed | ScanFailed

fun control_loop :: "(nat \<Rightarrow> bool) \<Rightarrow> 'c connector \<Rightarrow> (gostr \<Rightarrow> 'r option) \<Rightarrow>
    (spec \<Rightarrow> uint64 \<Rightarrow> client_args \<times> 'm \<Rightarrow> 'e option \<times> client_args \<times> 'm) option \<Rightarrow> gostr list \<Rightarrow>
    'e control_output list \<Rightarrow> ('c, 'm) reload_client \<Rightarrow> control_end \<times> 'e control_output list \<times> ('c, 'm) reload_client" where
  "control_loop writes k compile commit [] outs c = (ControlOver, outs, c)"
| "control_loop writes k compile commit (l # ls) outs c =
     (let line = trim_space l in
      if line = [] then control_loop writes k compile commit ls outs c
      else
        case answer_control_line k compile commit line c of
          (t, quit, c1) \<Rightarrow>
            (if \<not> writes (length outs) then (WriteFailed, outs @ [t], c1)
             else if quit then (UserQuit, outs @ [t], c1)
             else control_loop writes k compile commit ls (outs @ [t]) c1))"

definition run_interactive_control :: "(nat \<Rightarrow> bool) \<Rightarrow> 'c connector \<Rightarrow> (gostr \<Rightarrow> 'r option) \<Rightarrow>
    (spec \<Rightarrow> uint64 \<Rightarrow> client_args \<times> 'm \<Rightarrow> 'e option \<times> client_args \<times> 'm) option \<Rightarrow> bool \<Rightarrow> gostr \<Rightarrow>
    ('c, 'm) reload_client \<Rightarrow> control_end \<times> 'e control_output list \<times> ('c, 'm) reload_client" where
  "run_interactive_control writes k compile commit cancelled input c =
     (if \<not> writes 0 then (WriteFailed, [Greeting], c)
      else
        case scan_control input of
          (ls, too_long) \<Rightarrow>
            (case control_loop writes k compile commit ls [Greeting] c of
               (e, outs, c1) \<Rightarrow> (if e = ControlOver \<and> too_long \<and> \<not> cancelled then ScanFailed else e, outs, c1)))"

text \<open>However the control ends, the client waits for its connections; their statuses are an argument.\<close>

definition start_interactive_control :: "bool \<Rightarrow> int list \<Rightarrow> int" where
  "start_interactive_control tty_opens statuses = (if tty_opens then run_connections statuses else 1)"

subsection \<open>What the session keeps\<close>

definition control_ok :: "(gostr \<Rightarrow> 'r option) \<Rightarrow> (connection, 'm) reload_client \<Rightarrow> bool" where
  "control_ok compile c \<longleftrightarrow>
     build_interactive_session_spec compile (rc_args c) = Inr (rc_spec c) \<and> (\<forall>x\<in>set (rc_connections c). cs_spec (cn_session x) = rc_spec c)"

definition undone :: "'e control_output \<Rightarrow> bool" where
  "undone t \<longleftrightarrow> (case t of ReloadFailed e es \<Rightarrow> es = [] | _ \<Rightarrow> True)"

lemma count_capable_keeps:
  "count_capable (server_connector json) t conns = (n, conns1) \<Longrightarrow> map cn_session conns1 = map cn_session conns"
  by (induction conns arbitrary: n conns1) (auto simp: connector_supports connection_supports_def split: prod.splits)

lemma parsed_reload_built:
  assumes "parse_interactive_command compile current line = Inr (ReloadCommand a s)"
  shows "build_interactive_session_spec compile a = Inr s"
  using assms
  by (auto simp: parse_interactive_command_def Let_def and_then_def map_error_def split: if_splits sum.splits)

lemma map_all_same: "map f xs = map f ys \<Longrightarrow> (\<forall>x\<in>set xs. f x = c) = (\<forall>y\<in>set ys. f y = c)"
  by (metis (no_types, lifting) image_iff list.set_map)

lemma answer_keeps:
  assumes r: "answer_control_line (server_connector json) compile commit line c = (t, quit, c1)" and ok: "control_ok compile c" and u: "undone t"
  shows "control_ok compile c1 \<and> length (rc_connections c1) = length (rc_connections c)"
proof (cases "parse_interactive_command compile (rc_args c) line")
  case (Inl e)
  then show ?thesis using r ok by (simp add: answer_control_line_def)
next
  case (Inr x)
  show ?thesis
  proof (cases x)
    case HelpCommand
    then show ?thesis using r ok Inr by (simp add: answer_control_line_def)
  next
    case QuitCommand
    then show ?thesis using r ok Inr by (simp add: answer_control_line_def)
  next
    case ShowCommand
    obtain n conns where n: "count_capable (server_connector json) 0 (rc_connections c) = (n, conns)" by fastforce
    have s: "map cn_session conns = map cn_session (rc_connections c)" using count_capable_keeps[OF n] .
    then have "map (cs_spec \<circ> cn_session) conns = map (cs_spec \<circ> cn_session) (rc_connections c)" by (metis map_map)
    from map_all_same[OF this, of "rc_spec c"] s
    show ?thesis using r ok Inr ShowCommand n by (auto simp: answer_control_line_def write_interactive_state_def Let_def control_ok_def dest: map_eq_imp_length_eq)
  next
    case (ReloadCommand a s)
    obtain e c2 where e: "apply_interactive_reload (server_connector json) commit a s c = (e, c2)" by fastforce
    note out = sc.reload_outcome[OF e, unfolded connector_committed]
    have b: "build_interactive_session_spec compile a = Inr s" using parsed_reload_built Inr ReloadCommand by blast
    show ?thesis
    proof (cases e)
      case None
      then show ?thesis using r Inr ReloadCommand e out b by (auto simp: answer_control_line_def control_ok_def)
    next
      case (Some p)
      then have "c1 = c2" "snd (the e) = []" using r Inr ReloadCommand e u by (auto simp: answer_control_line_def undone_def split: prod.splits)
      moreover from this have "map (\<lambda>x. cs_spec (cn_session x)) (rc_connections c2) = map (\<lambda>x. cs_spec (cn_session x)) (rc_connections c)"
        using out Some by simp
      ultimately show ?thesis using out Some ok map_all_same[of "\<lambda>x. cs_spec (cn_session x)" "rc_connections c2" "rc_connections c" "rc_spec c"]
        by (simp add: control_ok_def)
    qed
  qed
qed

lemma control_loop_extends:
  "control_loop writes k compile commit ls outs c = (e, outs1, c1) \<Longrightarrow> \<exists>ts. outs1 = outs @ ts \<and> e \<noteq> ScanFailed"
proof (induction ls arbitrary: outs c)
  case (Cons l ls)
  obtain t quit c2 where a: "answer_control_line k compile commit (trim_space l) c = (t, quit, c2)" by (metis prod.collapse)
  from Cons.prems consider "outs1 = outs @ [t]" "e \<noteq> ScanFailed" | c3 os where "control_loop writes k compile commit ls os c3 = (e, outs1, c1)" "os = outs \<or> os = outs @ [t]"
    by (auto simp: Let_def a split: if_splits)
  then show ?case
  proof cases
    case 2
    from Cons.IH[OF this(1)] this(2) show ?thesis by auto
  qed simp
qed simp

lemma loop_keeps:
  assumes "control_loop writes (server_connector json) compile commit ls outs c = (e, outs1, c1)" and "control_ok compile c"
  shows "\<exists>ts. outs1 = outs @ ts \<and> (e \<noteq> ScanFailed) \<and>
    (list_all undone ts \<longrightarrow> control_ok compile c1 \<and> length (rc_connections c1) = length (rc_connections c) \<and>
      (e = ControlOver \<longrightarrow> length ts = length (filter (\<lambda>l. trim_space l \<noteq> []) ls)))"
  using assms
proof (induction ls arbitrary: outs c)
  case Nil
  then show ?case by simp
next
  case (Cons l ls)
  show ?case
  proof (cases "trim_space l = []")
    case True
    then show ?thesis using Cons by simp
  next
    case False
    obtain t quit c2 where a: "answer_control_line (server_connector json) compile commit (trim_space l) c = (t, quit, c2)" by (metis prod.collapse)
    note keep = answer_keeps[OF a Cons.prems(2)]
    show ?thesis
    proof (cases "\<not> writes (length outs) \<or> quit")
      case True
      then have "outs1 = outs @ [t]" "c1 = c2" "e = WriteFailed \<or> e = UserQuit"
        using Cons.prems(1) False a by (auto simp: Let_def split: if_splits)
      then show ?thesis using keep by auto
    next
      case going: False
      then have r: "control_loop writes (server_connector json) compile commit ls (outs @ [t]) c2 = (e, outs1, c1)"
        using Cons.prems(1) False a by (auto simp: Let_def)
      show ?thesis
      proof (cases "undone t")
        case True
        then have k: "control_ok compile c2" "length (rc_connections c2) = length (rc_connections c)" using keep by blast+
        from Cons.IH[OF r k(1)] obtain ts where "outs1 = (outs @ [t]) @ ts" "e \<noteq> ScanFailed"
          "list_all undone ts \<longrightarrow> control_ok compile c1 \<and> length (rc_connections c1) = length (rc_connections c2) \<and>
            (e = ControlOver \<longrightarrow> length ts = length (filter (\<lambda>l. trim_space l \<noteq> []) ls))" by blast
        then show ?thesis using k(2) False by (intro exI[of _ "t # ts"]) simp
      next
        case undo: False
        have "\<exists>ts. outs1 = (outs @ [t]) @ ts \<and> e \<noteq> ScanFailed" using control_loop_extends[OF r] .
        then show ?thesis using undo by fastforce
      qed
    qed
  qed
qed


lemma sample_built: "\<exists>s. build_interactive_session_spec literal_compile sample_args = Inr s"
proof -
  have "build_interactive_session_spec literal_compile sample_args = Inr (new_spec sample_args)" by code_simp
  then show ?thesis by blast
qed


end
