(* ===== verification/Server_Setup.thy ===== *)
theory Server_Setup
  imports Read_Command Server_Auth Server_Admission Health_Check Client_Setup Client_Output
begin

text \<open>
  The configuration of a server with its defaults (\<open>internal/config/server.go\<close>), the construction of a server
  (\<open>New\<close> in \<open>internal/server/server.go\<close>) and that of the handler of a client without a server
  (\<open>internal/clients/runtime_boundary.go\<close>).
\<close>

subsection \<open>The configuration\<close>

record permissions =
  pm_default :: "gostr list"
  pm_users :: "(gostr, gostr list) gomap"

record server_config =
  sv_bind_address :: gostr
  sv_max_connections :: int
  sv_max_concurrent_cats :: int
  sv_max_concurrent_tails :: int
  sv_permissions :: permissions
  sv_mapreduce_log_format :: gostr
  sv_host_key_file :: gostr
  sv_host_key_bits :: int
  sv_schedule :: "job list"
  sv_continuous :: "job list"
  sv_key_exchanges :: "gostr list"
  sv_ciphers :: "gostr list"
  sv_macs :: "gostr list"
  sv_auth_key_enabled :: bool
  sv_auth_key_ttl_seconds :: int
  sv_auth_key_max_per_user :: int
  sv_read :: read_config
  sv_max_command_frame_size :: int

definition new_default_read_config :: read_config where
  "new_default_read_config =
     \<lparr>rf_max_line_length = 1024 * 1024, rf_max_glob_targets = 1000, rf_read_glob_retry_interval_ms = 5000, rf_read_retry_interval_ms = 2000,
      rf_output_transmission_delay_ms = 50, rf_output_eof_wait_base_ms = 500, rf_output_eof_wait_per_file_ms = 10,
      rf_output_eof_wait_max_ms = 2000, rf_shutdown_output_serialize_wait_ms = 500, rf_shutdown_idle_recheck_wait_ms = 10,
      rf_output_eof_ack_timeout_ms = 2000, rf_output_channel_buffer_size = 1000, rf_output_flush_timeout_ms = 2000,
      rf_output_flush_poll_interval_ms = 10, rf_output_read_retry_interval_ms = 1\<rparr>"

definition new_default_server_config :: server_config where
  "new_default_server_config =
     \<lparr>sv_bind_address = ''0.0.0.0'', sv_max_connections = 10, sv_max_concurrent_cats = 2, sv_max_concurrent_tails = 50,
      sv_permissions = \<lparr>pm_default = [''^/.*''], pm_users = []\<rparr>, sv_mapreduce_log_format = ''default'',
      sv_host_key_file = ''./cache/ssh_host_key'', sv_host_key_bits = 4096, sv_schedule = [], sv_continuous = [],
      sv_key_exchanges = [], sv_ciphers = [], sv_macs = [], sv_auth_key_enabled = True, sv_auth_key_ttl_seconds = 86400,
      sv_auth_key_max_per_user = 5, sv_read = new_default_read_config, sv_max_command_frame_size = default_max_command_frame_size\<rparr>"

datatype config_error = MissingServerConfig | EmptyPermissions

text \<open>The permissions come with the error, but no caller uses them then.\<close>

definition config_user_permissions :: "server_config option \<Rightarrow> gostr \<Rightarrow> config_error + gostr list" where
  "config_user_permissions cfg name =
     (case cfg of
        None \<Rightarrow> Inl MissingServerConfig
      | Some c \<Rightarrow>
          (let ps = (case map_of (pm_users (sv_permissions c)) name of Some p \<Rightarrow> p | None \<Rightarrow> pm_default (sv_permissions c)) in
           if ps = [] then Inl EmptyPermissions else Inr ps))"

subsection \<open>A server\<close>

definition nanoseconds_of :: "int \<Rightarrow> int" where
  "nanoseconds_of seconds = wrap64 (seconds * 1000000000)"

record go_server =
  gs_cat_limit :: nat
  gs_tail_limit :: nat
  gs_stats :: server_stats
  gs_schedule :: "job list"
  gs_continuous :: "job list"
  gs_keys :: auth_key_store
  gs_bind :: gostr

text \<open>
  A missing configuration, a limit below zero and a host key that cannot be read are panics. \<open>key_ok\<close> is the result of
  the SSH library.
\<close>

definition new_server :: "bool \<Rightarrow> server_config option \<Rightarrow> common_config option \<Rightarrow> go_server option" where
  "new_server key_ok server_cfg common_cfg =
     (case (server_cfg, common_cfg) of
        (Some c, Some cc) \<Rightarrow>
          (if sv_max_concurrent_cats c < 0 \<or> sv_max_concurrent_tails c < 0 \<or> \<not> key_ok then None
           else Some
             \<lparr>gs_cat_limit = nat (sv_max_concurrent_cats c), gs_tail_limit = nat (sv_max_concurrent_tails c),
              gs_stats = new_server_stats (sv_max_connections c), gs_schedule = sv_schedule c, gs_continuous = sv_continuous c,
              gs_keys = new_auth_key_store (nanoseconds_of (sv_auth_key_ttl_seconds c)) (sv_auth_key_max_per_user c),
              gs_bind = sv_bind_address c @ '':'' @ itoa (cc_ssh_port cc)\<rparr>)
      | _ \<Rightarrow> None)"

subsection \<open>A client without a server\<close>

record runtime_boundary =
  br_ssh_port :: int
  br_ssh_connect_timeout :: int
  br_interrupt_pause :: int
  br_server :: "server_config option"
  br_output :: output_formatter

definition interrupt_timeout_seconds :: int where
  "interrupt_timeout_seconds = 3"

definition new_client_runtime_boundary :: "common_config option \<Rightarrow> server_config option \<Rightarrow> (bool \<times> style \<times> table_colours) option \<Rightarrow> runtime_boundary" where
  "new_client_runtime_boundary common server_cfg client_cfg =
     \<lparr>br_ssh_port = (case common of Some c \<Rightarrow> if 0 < cc_ssh_port c then cc_ssh_port c else 2222 | None \<Rightarrow> 2222),
      br_ssh_connect_timeout =
        (case common of
           Some c \<Rightarrow> if 0 < cc_ssh_connect_timeout c then wrap64 (cc_ssh_connect_timeout c * 1000000) else 2000000000
         | None \<Rightarrow> 2000000000),
      br_interrupt_pause = interrupt_timeout_seconds * 1000000000,
      br_server = server_cfg, br_output = new_output_formatter client_cfg\<rparr>"

definition boundary_interrupt_pause :: "runtime_boundary option \<Rightarrow> int" where
  "boundary_interrupt_pause r =
     (case r of
        None \<Rightarrow> interrupt_timeout_seconds * 1000000000
      | Some r \<Rightarrow> if br_interrupt_pause r \<le> 0 then interrupt_timeout_seconds * 1000000000 else br_interrupt_pause r)"

datatype serverless_error = UserFailed config_error | NoServerConfig

text \<open>
  The handler with the limits of its concurrent reads; the health handler has none. Without a server configuration there
  is no lookup of permissions.
\<close>

definition new_serverless_handler :: "runtime_boundary \<Rightarrow> gostr \<Rightarrow> bool \<Rightarrow> bool \<Rightarrow> auth_key_store \<Rightarrow> gostr \<Rightarrow>
    serverless_error + user \<times> server_handler \<times> (int \<times> int) option" where
  "new_serverless_handler r fqdn linux journalctl_available no_store name =
     (case new_user name ''local(serverless)'' (map_option (\<lambda>c. config_user_permissions (Some c)) (br_server r)) of
        Inl e \<Rightarrow> Inl (UserFailed e)
      | Inr u \<Rightarrow>
          (if name = health_user
           then Inr (u, new_server_health_handler name fqdn (map_option sv_max_command_frame_size (br_server r)) no_store, None)
           else
             case br_server r of
               None \<Rightarrow> Inl NoServerConfig
             | Some c \<Rightarrow>
                 Inr (u, new_server_handler name fqdn (sv_max_command_frame_size c) linux journalctl_available
                     (new_auth_key_store (nanoseconds_of (sv_auth_key_ttl_seconds c)) (sv_auth_key_max_per_user c)),
                   Some (positive_or_default (sv_max_concurrent_cats c) 2, positive_or_default (sv_max_concurrent_tails c) 50))))"

subsection \<open>Defaults\<close>

definition zero_read_config :: read_config where
  "zero_read_config =
     \<lparr>rf_max_line_length = 0, rf_max_glob_targets = 0, rf_read_glob_retry_interval_ms = 0, rf_read_retry_interval_ms = 0,
      rf_output_transmission_delay_ms = 0, rf_output_eof_wait_base_ms = 0, rf_output_eof_wait_per_file_ms = 0,
      rf_output_eof_wait_max_ms = 0, rf_shutdown_output_serialize_wait_ms = 0, rf_shutdown_idle_recheck_wait_ms = 0,
      rf_output_eof_ack_timeout_ms = 0, rf_output_channel_buffer_size = 0, rf_output_flush_timeout_ms = 0,
      rf_output_flush_poll_interval_ms = 0, rf_output_read_retry_interval_ms = 0\<rparr>"

text \<open>
  The settings of the default configuration are those that a handler falls back to when a setting is zero: it behaves the
  same with either, in each of its limits, delays and timeouts.
\<close>

theorem defaults_are_fallbacks:
  "max_line_length_of new_default_read_config = max_line_length_of zero_read_config \<and>
   max_glob_targets new_default_read_config = max_glob_targets zero_read_config \<and>
   read_glob_retry_interval new_default_read_config = read_glob_retry_interval zero_read_config \<and>
   read_retry_interval new_default_read_config = read_retry_interval zero_read_config \<and>
   output_transmission_delay new_default_read_config = output_transmission_delay zero_read_config \<and>
   output_eof_wait_duration new_default_read_config = output_eof_wait_duration zero_read_config \<and>
   shutdown_serialize_wait new_default_read_config = shutdown_serialize_wait zero_read_config \<and>
   shutdown_idle_recheck_wait new_default_read_config = shutdown_idle_recheck_wait zero_read_config \<and>
   output_eof_ack_timeout new_default_read_config = output_eof_ack_timeout zero_read_config \<and>
   output_manager_config new_default_read_config = output_manager_config zero_read_config"
  by (intro conjI ext)
    (simp_all add: new_default_read_config_def zero_read_config_def max_line_length_of_def max_glob_targets_def read_glob_retry_interval_def
      read_retry_interval_def output_transmission_delay_def output_eof_wait_duration_def shutdown_serialize_wait_def shutdown_idle_recheck_wait_def
      output_eof_ack_timeout_def output_manager_config_def positive_int_or_default_def duration_from_milliseconds_def millisecond_def wrap64_def
      default_output_config_def)

text \<open>A user with an empty list of rules of its own gets no handler, whatever the default rules are.\<close>

lemma no_rules_no_handler:
  assumes "br_server r = Some c" and "map_of (pm_users (sv_permissions c)) name = Some []"
  shows "new_serverless_handler r fqdn linux journalctl_available store name = Inl (UserFailed EmptyPermissions)"
  using assms by (simp add: new_serverless_handler_def new_user_def config_user_permissions_def Let_def and_then_def)

text \<open>The client and the server of the default configurations agree on the port.\<close>

lemma default_port_agrees:
  "map_option gs_bind (new_server True (Some new_default_server_config) (Some new_default_common_config)) =
     Some (''0.0.0.0:'' @ itoa (br_ssh_port (new_client_runtime_boundary (Some new_default_common_config) (Some new_default_server_config) cfg)))"
  by (simp add: new_server_def new_default_server_config_def new_default_common_config_def new_client_runtime_boundary_def config_default_ssh_port_def)

end
