(* ===== verification/Terminal_Log.thy ===== *)
theory Terminal_Log
  imports Logging
begin

text \<open>
  The logger of the terminal (\<open>internal/io/dlog/loggers/stdout.go\<close>): its buffer, the flushes of its ticker, and the pauses
  in which a prompt or the statistics print directly. Callers of \<open>Log\<close>, \<open>Pause\<close> and \<open>Resume\<close> are concurrent; the mutex
  makes each step atomic, and the two channels have no buffer, so a send waits for a receiver.
\<close>

definition stdout_writer_buf_size :: nat where
  "stdout_writer_buf_size = 64 * 1024"

text \<open>
  \<open>Write\<close> of the buffered writer: what does not fit fills the buffer up and sends it on, and what does not fit into an
  empty buffer goes out at once.
\<close>

function buffered_write :: "gostr \<Rightarrow> gostr \<Rightarrow> gostr \<times> gostr" where
  "buffered_write buf p =
     (let room = stdout_writer_buf_size - length buf in
      if length p \<le> room then ([], buf @ p)
      else if buf = [] then (p, [])
      else case buffered_write [] (drop room p) of (out, buf1) \<Rightarrow> (buf @ take room p @ out, buf1))"
  by pat_completeness auto
termination
  by (relation "measure (\<lambda>(buf, p). length buf)") auto

declare buffered_write.simps [simp del]

text \<open>
  The screen is the pieces written to it, \<open>True\<close> for those of the logger. \<open>to_pausing\<close> and \<open>to_resuming\<close> are the callers
  that wait in a send; \<open>to_parked\<close> are the calls of \<open>Log\<close> that took a pause and wait for the resumption. The texts in the
  order in which the logger has written them are recorded.
\<close>

record terminal =
  to_buffer :: gostr
  to_screen :: "(bool \<times> gostr) list"
  to_pausing :: nat
  to_resuming :: nat
  to_parked :: "gostr list"
  to_written :: "gostr list"

definition new_terminal :: terminal where
  "new_terminal = \<lparr>to_buffer = [], to_screen = [], to_pausing = 0, to_resuming = 0, to_parked = [], to_written = []\<rparr>"

definition terminal_flush :: "terminal \<Rightarrow> terminal" where
  "terminal_flush t = (if to_buffer t = [] then t else t\<lparr>to_buffer := [], to_screen := to_screen t @ [(True, to_buffer t)]\<rparr>)"

definition terminal_write :: "gostr \<Rightarrow> terminal \<Rightarrow> terminal" where
  "terminal_write text t =
     (case buffered_write (to_buffer t) text of
        (out, buf) \<Rightarrow>
          t\<lparr>to_buffer := buf, to_screen := (if out = [] then to_screen t else to_screen t @ [(True, out)]), to_written := to_written t @ [text]\<rparr>)"

definition terminal_text :: "gostr \<Rightarrow> bool \<Rightarrow> gostr" where
  "terminal_text message nl = (if nl then message @ [CHR 0x0A] else message)"

datatype terminal_event =
    LogLine gostr bool
  | PrintDirectly gostr
  | TickFlush
  | PauseBegins
  | ResumeBegins
  | ParkedGoesOn nat

text \<open>
  A call of \<open>Log\<close> takes a pause that waits, and waits itself; it writes if there is none. A parked call goes on with a
  resumption. A flush is one of the ticker, of a caller, or the last one at the end of the program.
\<close>

fun terminal_step :: "terminal_event \<Rightarrow> terminal \<Rightarrow> terminal option" where
  "terminal_step (LogLine message nl) t =
     (if 0 < to_pausing t
      then Some (t\<lparr>to_pausing := to_pausing t - 1, to_parked := to_parked t @ [terminal_text message nl]\<rparr>)
      else Some (terminal_write (terminal_text message nl) t))"
| "terminal_step (PrintDirectly s) t = Some (t\<lparr>to_screen := to_screen t @ [(False, s)]\<rparr>)"
| "terminal_step TickFlush t = Some (terminal_flush t)"
| "terminal_step PauseBegins t = Some ((terminal_flush t)\<lparr>to_pausing := to_pausing t + 1\<rparr>)"
| "terminal_step ResumeBegins t = Some (t\<lparr>to_resuming := to_resuming t + 1\<rparr>)"
| "terminal_step (ParkedGoesOn i) t =
     (if 0 < to_resuming t \<and> i < length (to_parked t)
      then Some (terminal_write (to_parked t ! i)
        (t\<lparr>to_resuming := to_resuming t - 1, to_parked := take i (to_parked t) @ drop (Suc i) (to_parked t)\<rparr>))
      else None)"

fun terminal_run :: "terminal_event list \<Rightarrow> terminal \<Rightarrow> terminal option" where
  "terminal_run [] t = Some t"
| "terminal_run (e # es) t = (case terminal_step e t of None \<Rightarrow> None | Some t1 \<Rightarrow> terminal_run es t1)"

subsection \<open>Nothing is lost\<close>

lemma buffered_write_exact: "length buf \<le> stdout_writer_buf_size \<Longrightarrow> buffered_write buf p = (out, buf1) \<Longrightarrow>
    out @ buf1 = buf @ p \<and> length buf1 \<le> stdout_writer_buf_size"
proof (induction buf p arbitrary: out buf1 rule: buffered_write.induct)
  case (1 buf p)
  let ?room = "stdout_writer_buf_size - length buf"
  show ?case
  proof (cases "length p \<le> ?room \<or> buf = []")
    case True
    then show ?thesis using "1.prems" by (subst (asm) buffered_write.simps) (auto simp: Let_def split: if_splits)
  next
    case False
    obtain o1 b1 where r: "buffered_write [] (drop ?room p) = (o1, b1)" by fastforce
    have ih: "o1 @ b1 = [] @ drop ?room p \<and> length b1 \<le> stdout_writer_buf_size"
      using "1.IH"[OF refl, of o1 b1] False r by simp
    have "out = buf @ take ?room p @ o1" "buf1 = b1"
      using "1.prems"(2) False r by (subst (asm) buffered_write.simps, simp add: Let_def)+
    then show ?thesis using ih by simp
  qed
qed

definition screen_log :: "terminal \<Rightarrow> gostr" where
  "screen_log t = concat (map snd (filter fst (to_screen t)))"

definition terminal_ok :: "terminal \<Rightarrow> bool" where
  "terminal_ok t \<longleftrightarrow> screen_log t @ to_buffer t = concat (to_written t) \<and> length (to_buffer t) \<le> stdout_writer_buf_size"

lemma flush_ok: "terminal_ok t \<Longrightarrow> terminal_ok (terminal_flush t) \<and> to_buffer (terminal_flush t) = []"
  by (auto simp: terminal_ok_def terminal_flush_def screen_log_def)

lemma write_ok:
  assumes "terminal_ok t"
  shows "terminal_ok (terminal_write s t)"
proof -
  obtain out buf where w: "buffered_write (to_buffer t) s = (out, buf)" by fastforce
  have "length (to_buffer t) \<le> stdout_writer_buf_size" using assms by (simp add: terminal_ok_def)
  note b = buffered_write_exact[OF this w]
  have "screen_log (terminal_write s t) = screen_log t @ out" by (simp add: terminal_write_def w screen_log_def)
  moreover have "to_buffer (terminal_write s t) = buf" "to_written (terminal_write s t) = to_written t @ [s]" by (simp_all add: terminal_write_def w)
  ultimately show ?thesis using assms b by (simp add: terminal_ok_def)
qed

lemma terminal_ok_same: "terminal_ok t \<Longrightarrow> to_buffer u = to_buffer t \<Longrightarrow> screen_log u = screen_log t \<Longrightarrow> to_written u = to_written t \<Longrightarrow> terminal_ok u"
  by (simp add: terminal_ok_def)

lemma step_ok:
  assumes "terminal_step e t = Some t1" and "terminal_ok t"
  shows "terminal_ok t1"
proof (cases e)
  case (ParkedGoesOn i)
  then obtain u where u: "t1 = terminal_write (to_parked t ! i) u" and "to_buffer u = to_buffer t" "to_screen u = to_screen t" "to_written u = to_written t"
    using assms(1) by (auto split: if_splits)
  then have "terminal_ok u" using assms(2) by (simp add: terminal_ok_def screen_log_def)
  then show ?thesis unfolding u by (rule write_ok)
next
  case PauseBegins
  then show ?thesis using assms flush_ok[OF assms(2)] by (auto simp: terminal_ok_def screen_log_def)
qed (use assms flush_ok[of t] write_ok[of t] in \<open>auto simp: terminal_ok_def screen_log_def split: if_splits\<close>)

text \<open>The texts that were handed to the logger.\<close>

fun logged :: "terminal_event list \<Rightarrow> gostr list" where
  "logged [] = []"
| "logged (LogLine m nl # es) = terminal_text m nl # logged es"
| "logged (e # es) = logged es"

lemma flush_written: "to_written (terminal_flush t) = to_written t \<and> to_parked (terminal_flush t) = to_parked t"
  by (simp add: terminal_flush_def)

lemma write_written: "to_written (terminal_write s t) = to_written t @ [s] \<and> to_parked (terminal_write s t) = to_parked t"
  by (simp add: terminal_write_def split: prod.splits)

lemma step_written:
  assumes "terminal_step e t = Some t1"
  shows "mset (to_written t1) + mset (to_parked t1) = mset (to_written t) + mset (to_parked t) + mset (logged [e])"
proof (cases e)
  case (ParkedGoesOn i)
  then have i: "i < length (to_parked t)" and w: "to_written t1 = to_written t @ [to_parked t ! i]"
    and p: "to_parked t1 = take i (to_parked t) @ drop (Suc i) (to_parked t)"
    using assms by (auto simp: write_written split: if_splits)
  have "mset (to_parked t) = mset (take i (to_parked t) @ to_parked t ! i # drop (Suc i) (to_parked t))"
    using id_take_nth_drop[OF i] by simp
  then show ?thesis using ParkedGoesOn w p by simp
qed (use assms in \<open>auto simp: flush_written write_written split: if_splits\<close>)

lemma run_written:
  "terminal_run es t = Some t1 \<Longrightarrow> terminal_ok t \<Longrightarrow> terminal_ok t1 \<and>
     mset (to_written t1) + mset (to_parked t1) = mset (to_written t) + mset (to_parked t) + mset (logged es)"
proof (induction es arbitrary: t)
  case (Cons e es)
  obtain t2 where t2: "terminal_step e t = Some t2" and r: "terminal_run es t2 = Some t1"
    using Cons.prems(1) by (auto split: option.splits)
  have "logged (e # es) = logged [e] @ logged es" by (cases e) simp_all
  then show ?case using Cons.IH[OF r step_ok[OF t2 Cons.prems(2)]] step_written[OF t2] by simp
qed simp

text \<open>
  C32: The terminal loses no text and prints none twice, whatever the order of calls, flushes, pauses and resumptions: what
  the logger has put on the screen and what is in its buffer is what it has written, in that order; each text handed to it
  is written or waits for a resumption; and after a flush everything written is on the screen.
\<close>

theorem terminal_exact:
  assumes "terminal_run es new_terminal = Some t"
  shows "screen_log t @ to_buffer t = concat (to_written t) \<and> mset (to_written t) + mset (to_parked t) = mset (logged es) \<and>
    length (to_buffer t) \<le> stdout_writer_buf_size \<and> screen_log (terminal_flush t) = concat (to_written t)"
proof -
  have n: "terminal_ok new_terminal" by (simp add: terminal_ok_def new_terminal_def screen_log_def)
  from run_written[OF assms n] have ok: "terminal_ok t" and m: "mset (to_written t) + mset (to_parked t) = mset (logged es)"
    by (simp_all add: new_terminal_def)
  have "terminal_ok (terminal_flush t)" "to_buffer (terminal_flush t) = []" using flush_ok[OF ok] by simp_all
  then have "screen_log (terminal_flush t) = concat (to_written t)" by (simp add: terminal_ok_def flush_written)
  then show ?thesis using ok m by (simp add: terminal_ok_def)
qed

lemma terminal_exact_witness:
  "\<exists>t. terminal_run [LogLine ''a'' True, PauseBegins, LogLine ''b'' True, PrintDirectly ''?'', ResumeBegins, LogLine ''c'' True, ParkedGoesOn 0] new_terminal = Some t \<and>
    to_written t = [''a'' @ [CHR 0x0A], ''c'' @ [CHR 0x0A], ''b'' @ [CHR 0x0A]] \<and> screen_log (terminal_flush t) = concat (to_written t)"
proof -
  let ?es = "[LogLine ''a'' True, PauseBegins, LogLine ''b'' True, PrintDirectly ''?'', ResumeBegins, LogLine ''c'' True, ParkedGoesOn 0]"
  obtain t where t: "terminal_run ?es new_terminal = Some t" "to_written t = [''a'' @ [CHR 0x0A], ''c'' @ [CHR 0x0A], ''b'' @ [CHR 0x0A]]"
    by (simp add: new_terminal_def terminal_write_def terminal_flush_def terminal_text_def buffered_write.simps stdout_writer_buf_size_def)
  from terminal_exact[OF t(1)] show ?thesis using t by blast
qed

subsection \<open>Pauses\<close>

text \<open>A pause waits until somebody logs: without a call of \<open>Log\<close> its caller does not come back.\<close>

lemma pause_waits_for_a_logger:
  "terminal_run es t = Some t1 \<Longrightarrow> logged es = [] \<Longrightarrow> to_pausing t \<le> to_pausing t1"
proof (induction es arbitrary: t)
  case (Cons e es)
  obtain t2 where t2: "terminal_step e t = Some t2" and r: "terminal_run es t2 = Some t1"
    using Cons.prems(1) by (auto split: option.splits)
  have "logged es = []" using Cons.prems(2) by (cases e) simp_all
  moreover have "to_pausing t \<le> to_pausing t2"
    using t2 Cons.prems(2) by (cases e) (auto simp: terminal_flush_def terminal_write_def split: if_splits prod.splits)
  ultimately show ?case using Cons.IH[OF r] by simp
qed simp

text \<open>And it stops one call only: the next one writes while the pause lasts.\<close>

lemma pause_stops_one_call:
  assumes "to_pausing t = 1"
  shows "\<exists>t1. terminal_step (LogLine m nl) t = Some t1 \<and> terminal_step (LogLine m1 nl1) t1 = Some (terminal_write (terminal_text m1 nl1) t1)"
  using assms by simp

end
